(* ===== verification/Prelude.thy ===== *)
theory Prelude
  imports Main "HOL-Library.Word" "HOL-Library.Sublist" "HOL-Library.Char_ord" "HOL-Library.List_Lexorder"
begin

text \<open>
  Shared vocabulary of the development: Rust's \<open>Result\<close> as a sum type with the \<open>?\<close> operator
  written as \<open>and_then\<close>, the \<open>str\<close> operations the program uses, and the generic facts on
  lists and maps that the component theories rest on.

  A Rust \<open>String\<close> is a \<open>string\<close> holding its UTF-8 bytes, one \<open>char\<close> per byte. For valid
  UTF-8 the operations \<open>starts_with\<close>, \<open>ends_with\<close>, \<open>contains\<close> and \<open>split\<close> by an ASCII
  character agree on bytes and on code points, and \<open>str\<close>'s order is the byte order.
\<close>

named_theorems result_simps "rules for the result type and its combinators"
named_theorems step_defs "definitions unfolded together in the step proofs"

type_synonym u8 = "8 word"
type_synonym u32 = "32 word"
type_synonym u64 = "64 word"
type_synonym bytes = "u8 list"

section \<open>Results\<close>

type_synonym ('a, 'e) result = "'e + 'a"

abbreviation Ok :: "'a \<Rightarrow> ('a, 'e) result" where
  "Ok \<equiv> Inr"

abbreviation Err :: "'e \<Rightarrow> ('a, 'e) result" where
  "Err \<equiv> Inl"

definition and_then :: "('a, 'e) result \<Rightarrow> ('a \<Rightarrow> ('b, 'e) result) \<Rightarrow> ('b, 'e) result" where
  "and_then r f = (case r of Inl e \<Rightarrow> Inl e | Inr x \<Rightarrow> f x)"

definition map_err :: "('e \<Rightarrow> 'f) \<Rightarrow> ('a, 'e) result \<Rightarrow> ('a, 'f) result" where
  "map_err f r = (case r of Inl e \<Rightarrow> Inl (f e) | Inr x \<Rightarrow> Inr x)"

definition map_ok :: "('a \<Rightarrow> 'b) \<Rightarrow> ('a, 'e) result \<Rightarrow> ('b, 'e) result" where
  "map_ok f r = (case r of Inl e \<Rightarrow> Inl e | Inr x \<Rightarrow> Inr (f x))"

definition ok_or :: "'e \<Rightarrow> 'a option \<Rightarrow> ('a, 'e) result" where
  "ok_or e x = (case x of None \<Rightarrow> Inl e | Some y \<Rightarrow> Inr y)"

definition is_ok :: "('a, 'e) result \<Rightarrow> bool" where
  "is_ok r = (case r of Inl _ \<Rightarrow> False | Inr _ \<Rightarrow> True)"

definition guard_err :: "bool \<Rightarrow> 'e \<Rightarrow> (unit, 'e) result" where
  "guard_err b e = (if b then Inl e else Inr ())"

text \<open>What polling a future returns, and \<open>Option::take\<close> of a waker that is then called.\<close>

datatype 'a poll = Ready 'a | Pending

definition take_waker :: "'w option \<Rightarrow> 'w list" where
  "take_waker w = (case w of None \<Rightarrow> [] | Some x \<Rightarrow> [x])"

lemma take_waker_simps [simp]: "take_waker None = []" "take_waker (Some w) = [w]"
  by (simp_all add: take_waker_def)

text \<open>\<open>for x in xs { f(x)?; }\<close>: run \<open>f\<close> on each element, stop at the first error.\<close>

fun try_for_each :: "('a \<Rightarrow> (unit, 'e) result) \<Rightarrow> 'a list \<Rightarrow> (unit, 'e) result" where
  "try_for_each f [] = Inr ()"
| "try_for_each f (x # xs) = and_then (f x) (\<lambda>_. try_for_each f xs)"

lemma and_then_Inl [simp]: "and_then (Inl e) f = Inl e"
  by (simp add: and_then_def)

lemma and_then_Inr [simp]: "and_then (Inr x) f = f x"
  by (simp add: and_then_def)

lemma and_then_eq_Inr [simp]:
  "and_then r f = Inr y \<longleftrightarrow> (\<exists>x. r = Inr x \<and> f x = Inr y)"
  by (cases r) simp_all

lemma and_then_eq_Inl:
  "and_then r f = Inl e \<longleftrightarrow> r = Inl e \<or> (\<exists>x. r = Inr x \<and> f x = Inl e)"
  by (cases r) simp_all

lemma and_then_cong [fundef_cong]:
  "r = r' \<Longrightarrow> (\<And>x. r' = Inr x \<Longrightarrow> f x = f' x) \<Longrightarrow> and_then r f = and_then r' f'"
  by (cases r') simp_all

lemma map_err_simps [simp]:
  "map_err f (Inl e) = Inl (f e)" "map_err f (Inr x) = Inr x"
  "map_err f r = Inr x \<longleftrightarrow> r = Inr x"
  by (simp_all add: map_err_def split: sum.split)

lemma map_ok_simps [simp]:
  "map_ok f (Inl e) = Inl e" "map_ok f (Inr x) = Inr (f x)"
  by (simp_all add: map_ok_def)

lemma map_ok_eq_Inr [simp]: "map_ok f r = Inr y \<longleftrightarrow> (\<exists>x. r = Inr x \<and> y = f x)"
  by (cases r) auto

lemma ok_or_simps [simp]:
  "ok_or e None = Inl e" "ok_or e (Some x) = Inr x"
  "ok_or e o' = Inr y \<longleftrightarrow> o' = Some y"
  by (simp_all add: ok_or_def split: option.split)

lemma is_ok_simps [simp]: "is_ok (Inl e) = False" "is_ok (Inr x) = True"
  by (simp_all add: is_ok_def)

lemma is_ok_iff: "is_ok r \<longleftrightarrow> (\<exists>x. r = Inr x)"
  by (cases r) simp_all

lemma is_ok_unit: "is_ok r \<longleftrightarrow> r = Inr ()"
  by (cases r) simp_all

lemma is_ok_and_then [simp]: "is_ok (and_then r f) \<longleftrightarrow> (\<exists>x. r = Inr x \<and> is_ok (f x))"
  by (cases r) simp_all

lemma guard_err_eq [simp]:
  "guard_err b e = Inr u \<longleftrightarrow> \<not> b" "guard_err b e = Inl e' \<longleftrightarrow> b \<and> e' = e"
  by (auto simp: guard_err_def)

lemma guard_err_False [simp]: "guard_err False e = Inr ()"
  by (simp add: guard_err_def)

lemma guard_err_True [simp]: "guard_err True e = Inl e"
  by (simp add: guard_err_def)

lemma try_for_each_Ok [simp]:
  "try_for_each f xs = Inr u \<longleftrightarrow> (\<forall>x \<in> set xs. f x = Inr ())"
  by (induction xs) (auto simp: old.unit.exhaust)

text \<open>The error of a loop is the one of the first element that fails.\<close>

lemma try_for_each_append [simp]:
  "try_for_each f (xs @ ys) = and_then (try_for_each f xs) (\<lambda>_. try_for_each f ys)"
proof (induction xs)
  case Nil
  then show ?case by simp
next
  case (Cons x xs)
  then show ?case by (cases "f x") simp_all
qed

lemma try_for_each_Err:
  "try_for_each f xs = Inl e \<Longrightarrow>
     \<exists>ys x zs. xs = ys @ x # zs \<and> try_for_each f ys = Inr () \<and> f x = Inl e"
proof (induction xs)
  case Nil
  then show ?case by simp
next
  case (Cons x xs)
  show ?case
  proof (cases "f x")
    case (Inl a)
    with Cons.prems have "x # xs = [] @ x # xs \<and> try_for_each f [] = Inr () \<and> f x = Inl e"
      by simp
    then show ?thesis by blast
  next
    case (Inr u)
    with Cons.prems Cons.IH obtain ys y zs
      where "xs = ys @ y # zs" "try_for_each f ys = Inr ()" "f y = Inl e"
      by auto
    with Inr have "x # xs = (x # ys) @ y # zs \<and> try_for_each f (x # ys) = Inr () \<and> f y = Inl e"
      by simp
    then show ?thesis by blast
  qed
qed

section \<open>Sizes\<close>

text \<open>
  A \<open>usize\<close> is a \<open>nat\<close> below \<open>2 ^ 32\<close>: the program is built for \<open>wasm32\<close>. The release profile
  sets no overflow checks, so an addition that is not checked in the source wraps around. Counters and lengths
  that are bounded by what fits in memory are left as \<open>nat\<close>.
\<close>

definition usize_wrap :: "nat \<Rightarrow> nat" where
  "usize_wrap n = n mod 2 ^ 32"

lemma usize_wrap_code [code]: "usize_wrap n = nat (int n mod 4294967296)"
  by (simp add: usize_wrap_def nat_mod_distrib)

lemma usize_wrap_small [simp]: "n < 2 ^ 32 \<Longrightarrow> usize_wrap n = n"
  by (simp add: usize_wrap_def)

lemma usize_wrap_less [simp]: "usize_wrap n < 2 ^ 32"
  by (simp add: usize_wrap_def)

lemma usize_wrap_add [simp]: "usize_wrap (usize_wrap m + n) = usize_wrap (m + n)"
  by (simp add: usize_wrap_def mod_simps)

section \<open>Strings\<close>

definition starts_with :: "string \<Rightarrow> string \<Rightarrow> bool" where
  "starts_with s p = prefix p s"

definition ends_with :: "string \<Rightarrow> string \<Rightarrow> bool" where
  "ends_with s p = suffix p s"

definition str_contains :: "string \<Rightarrow> string \<Rightarrow> bool" where
  "str_contains s p = sublist p s"

text \<open>\<open>str::split(c)\<close>: at least one piece, empty pieces kept.\<close>

fun split_on :: "'a \<Rightarrow> 'a list \<Rightarrow> 'a list list" where
  "split_on c [] = [[]]"
| "split_on c (x # xs) =
     (if x = c then [] # split_on c xs
      else (case split_on c xs of [] \<Rightarrow> [[x]] | p # ps \<Rightarrow> (x # p) # ps))"

text \<open>\<open>str::strip_suffix\<close>.\<close>

definition strip_suffix :: "string \<Rightarrow> string \<Rightarrow> string option" where
  "strip_suffix s p = (if suffix p s then Some (take (length s - length p) s) else None)"

lemma starts_with_trans: "starts_with s p \<Longrightarrow> starts_with p q \<Longrightarrow> starts_with s q"
  unfolding starts_with_def by (rule prefix_order.trans)

lemma ends_with_trans: "ends_with s p \<Longrightarrow> ends_with p q \<Longrightarrow> ends_with s q"
  unfolding ends_with_def by (rule suffix_order.trans)

lemma str_contains_trans: "str_contains s p \<Longrightarrow> str_contains p q \<Longrightarrow> str_contains s q"
  unfolding str_contains_def by (rule sublist_order.order.trans)

lemma str_op_refl [simp]: "starts_with s s" "ends_with s s" "str_contains s s"
  by (simp_all add: starts_with_def ends_with_def str_contains_def)

lemma starts_with_append: "starts_with s p \<longleftrightarrow> (\<exists>r. s = p @ r)"
  by (simp add: starts_with_def prefix_def)

lemma strip_suffix_Some: "strip_suffix s p = Some r \<longleftrightarrow> s = r @ p"
  by (auto simp: strip_suffix_def suffix_def)

lemma split_on_nonempty [simp]: "split_on c xs \<noteq> []"
  by (induction xs) (auto split: list.splits)

lemma split_on_no_sep: "p \<in> set (split_on c xs) \<Longrightarrow> c \<notin> set p"
proof (induction xs arbitrary: p)
  case Nil
  then show ?case by simp
next
  case (Cons x xs)
  then show ?case
    by (cases "split_on c xs") (auto split: if_splits)
qed

fun join_on :: "'a \<Rightarrow> 'a list list \<Rightarrow> 'a list" where
  "join_on c [] = []"
| "join_on c [p] = p"
| "join_on c (p # q # ps) = p @ c # join_on c (q # ps)"

lemma join_on_Cons: "ps \<noteq> [] \<Longrightarrow> join_on c (p # ps) = p @ c # join_on c ps"
  by (cases ps) simp_all

lemma join_on_append:
  "ps \<noteq> [] \<Longrightarrow> qs \<noteq> [] \<Longrightarrow> join_on c (ps @ qs) = join_on c ps @ c # join_on c qs"
proof (induction ps)
  case (Cons p ps)
  then show ?case by (cases "ps = []") (simp_all add: join_on_Cons)
qed simp

lemma join_on_first: "join_on c ((x # p) # ps) = x # join_on c (p # ps)"
  by (cases ps) simp_all

lemma join_on_split_on [simp]: "join_on c (split_on c s) = s"
proof (induction s)
  case (Cons x s)
  then show ?case
    by (cases "split_on c s") (auto simp: join_on_Cons join_on_first)
qed simp

lemma split_on_append [simp]: "split_on c (s @ c # t) = split_on c s @ split_on c t"
proof (induction s)
  case (Cons x s)
  then show ?case by (cases "split_on c s") auto
qed simp

lemma split_on_no_sep_single [simp]: "c \<notin> set s \<Longrightarrow> split_on c s = [s]"
  by (induction s) auto

lemma split_on_single: "length (split_on c s) = 1 \<longleftrightarrow> c \<notin> set s"
proof
  assume "length (split_on c s) = 1"
  then obtain p where "split_on c s = [p]" by (auto simp: length_Suc_conv)
  with join_on_split_on [of c s] split_on_no_sep [of p c s] show "c \<notin> set s" by simp
qed simp

lemma split_on_inject: "split_on c s = split_on c t \<longleftrightarrow> s = t"
  by (metis join_on_split_on)

text \<open>A string between single quotes, as in \<open>format!("'{s}'")\<close>.\<close>

definition squoted :: "string \<Rightarrow> string" where
  "squoted s = [CHR 0x27] @ s @ [CHR 0x27]"

section \<open>Decimal numerals\<close>

text \<open>\<open>Display\<close> of an unsigned integer.\<close>

definition digit_char :: "nat \<Rightarrow> char" where
  "digit_char d = char_of (48 + d)"

fun show_nat :: "nat \<Rightarrow> string" where
  "show_nat n = (if n < 10 then [digit_char n] else show_nat (n div 10) @ [digit_char (n mod 10)])"

declare show_nat.simps [simp del]

text \<open>\<open>from_str\<close> of an unsigned integer: an optional plus sign, then digits.\<close>

definition digit_val :: "char \<Rightarrow> nat option" where
  "digit_val c = (let n = of_char c :: nat in if 48 \<le> n \<and> n \<le> 57 then Some (n - 48) else None)"

fun read_digits :: "nat \<Rightarrow> string \<Rightarrow> nat option" where
  "read_digits acc [] = Some acc"
| "read_digits acc (c # cs) =
     (case digit_val c of None \<Rightarrow> None | Some d \<Rightarrow> read_digits (10 * acc + d) cs)"

definition read_nat :: "string \<Rightarrow> nat option" where
  "read_nat s =
     (let ds = (case s of c # cs \<Rightarrow> if c = CHR ''+'' then cs else s | [] \<Rightarrow> [])
      in if ds = [] then None else read_digits 0 ds)"

lemma digit_val_char [simp]: "d < 10 \<Longrightarrow> digit_val (digit_char d) = Some d"
  by (simp add: digit_val_def digit_char_def of_char_of)

lemma read_digits_append:
  "read_digits acc (xs @ ys) =
     (case read_digits acc xs of None \<Rightarrow> None | Some n \<Rightarrow> read_digits n ys)"
  by (induction xs arbitrary: acc) (auto split: option.split)

lemma read_digits_show_nat: "read_digits 0 (show_nat n) = Some n"
proof (induction n rule: show_nat.induct)
  case (1 n)
  show ?case
  proof (cases "n < 10")
    case True
    then show ?thesis by (simp add: show_nat.simps [of n])
  next
    case False
    with 1 have "read_digits 0 (show_nat (n div 10)) = Some (n div 10)" by simp
    with False show ?thesis
      by (simp add: show_nat.simps [of n] read_digits_append)
  qed
qed

lemma show_nat_nonempty [simp]: "show_nat n \<noteq> []"
  by (subst show_nat.simps) simp

lemma show_nat_digits: "c \<in> set (show_nat n) \<Longrightarrow> \<exists>d < 10. c = digit_char d"
proof (induction n rule: show_nat.induct)
  case (1 n)
  then show ?case
    by (subst (asm) show_nat.simps) (auto split: if_splits intro: exI [of _ "n mod 10"])
qed

lemma digit_char_not [simp]:
  "d < 10 \<Longrightarrow> digit_char d \<noteq> CHR ''.''" "d < 10 \<Longrightarrow> digit_char d \<noteq> CHR ''+''"
proof -
  have "digit_val CHR ''.'' = None" "digit_val CHR ''+'' = None"
    by (simp_all add: digit_val_def)
  then show "d < 10 \<Longrightarrow> digit_char d \<noteq> CHR ''.''" "d < 10 \<Longrightarrow> digit_char d \<noteq> CHR ''+''"
    using digit_val_char [of d] by force+
qed

lemma show_nat_no_dot [simp]: "CHR ''.'' \<notin> set (show_nat n)"
  using show_nat_digits [of "CHR ''.''" n] digit_char_not(1) by metis

lemma show_nat_no_plus [simp]: "CHR ''+'' \<notin> set (show_nat n)"
  using show_nat_digits [of "CHR ''+''" n] digit_char_not(2) by metis

lemma read_nat_show_nat [simp]: "read_nat (show_nat n) = Some n"
proof (cases "show_nat n")
  case (Cons c cs)
  with show_nat_no_plus [of n] have "c \<noteq> CHR ''+''" by auto
  with Cons read_digits_show_nat [of n] show ?thesis by (simp add: read_nat_def)
qed simp

end
