(* ===== verification/Json.thy ===== *)
theory Json
  imports Prelude Complex_Main
begin

text \<open>
  The JSON values the capability crates exchange. \<open>serde_json\<close> is a third-party crate: the
  constructors of its public enum \<open>Value\<close> are a datatype here, its opaque \<open>Number\<close> is the type
  variable \<open>'n\<close> (numbers up to their \<open>==\<close>), and the operations the program calls on it are the
  fields of a record that every definition using them takes as an argument. The entries of an
  object are kept in the order of the crate's map, so that equality is equality of maps.

  \<open>as_f64\<close> is \<open>Number::as_f64\<close> (a finite double, as the rational it denotes), \<open>pointer\<close> is
  \<open>Value::pointer\<close> (RFC 6901), \<open>debug_value\<close> is the \<open>Debug\<close> rendering of a value.
\<close>

datatype 'n json =
    JNull
  | JBool bool
  | JNumber 'n
  | JString string
  | JArray "'n json list"
  | JObject "(string \<times> 'n json) list"

record 'n serde_json =
  as_f64 :: "'n \<Rightarrow> rat option"
  pointer :: "'n json \<Rightarrow> string \<Rightarrow> 'n json option"
  debug_value :: "'n json \<Rightarrow> string"

text \<open>\<open>Value::as_str\<close>.\<close>

fun as_str :: "'n json \<Rightarrow> string option" where
  "as_str (JString s) = Some s"
| "as_str _ = None"

text \<open>\<open>Debug\<close> of a \<open>Vec\<close>: the elements in brackets, separated by a comma and a space.\<close>

fun comma_sep :: "string list \<Rightarrow> string" where
  "comma_sep [] = []"
| "comma_sep [s] = s"
| "comma_sep (s # t # ss) = s @ '', '' @ comma_sep (t # ss)"

definition debug_values :: "'n serde_json \<Rightarrow> 'n json list \<Rightarrow> string" where
  "debug_values D vs = ''['' @ comma_sep (map (debug_value D) vs) @ '']''"

text \<open>
  One concrete instance of the interface, on which the closed examples of the development
  evaluate: integers as numbers, and a pointer that reads one member of the top-level object.
\<close>

definition int_serde :: "int serde_json" where
  "int_serde = \<lparr>
     as_f64 = (\<lambda>n. Some (of_int n)),
     pointer = (\<lambda>v p. case v of JObject kvs \<Rightarrow> map_of kvs (drop 1 p) | _ \<Rightarrow> None),
     debug_value = (\<lambda>_. ''..'')\<rparr>"

lemma int_serde_simps [simp]:
  "as_f64 int_serde n = Some (of_int n)"
  "pointer int_serde (JObject kvs) p = map_of kvs (drop 1 p)"
  by (simp_all add: int_serde_def)

end
