(* ===== verification/Constraints.thy ===== *)
theory Constraints
  imports Json
begin

text \<open>
  The constraint language of \<open>crates/amla-protocol-constraints/src/lib.rs\<close>: atomic and composite
  constraints on JSON parameters, their fail-closed evaluation, and the syntactic subsumption
  check that delegation relies on.
\<close>

section \<open>Errors and constraints\<close>

datatype constraint_error =
    MissingParam string
  | TypeMismatch (tm_param: string) (tm_expected: string) (tm_actual: string)
  | Violation (v_param: string) (v_rule: string) (v_actual: string)

datatype 'n constraint =
    Lt string "'n json"
  | Le string "'n json"
  | Gt string "'n json"
  | Ge string "'n json"
  | Eq string "'n json"
  | Ne string "'n json"
  | In string "'n json list"
  | NotIn string "'n json list"
  | StartsWith string string
  | EndsWith string string
  | Contains string string
  | Exists string
  | NotExists string
  | is_And: And (conjuncts: "'n constraint list")
  | is_Or: Or (disjuncts: "'n constraint list")

section \<open>Parameter access and comparison\<close>

definition get_param_opt :: "'n serde_json \<Rightarrow> 'n json \<Rightarrow> string \<Rightarrow> 'n json option" where
  "get_param_opt D params path =
     pointer D params (if starts_with path ''/'' then path else ''/'' @ path)"

definition get_param ::
  "'n serde_json \<Rightarrow> 'n json \<Rightarrow> string \<Rightarrow> ('n json, constraint_error) result" where
  "get_param D params path = ok_or (MissingParam path) (get_param_opt D params path)"

definition get_param_string ::
  "'n serde_json \<Rightarrow> 'n json \<Rightarrow> string \<Rightarrow> (string, constraint_error) result" where
  "get_param_string D params path =
     and_then (get_param D params path) (\<lambda>val.
       ok_or (TypeMismatch path ''string'' (debug_value D val)) (as_str val))"

text \<open>
  A number \<open>as_f64\<close> cannot represent is NaN in the code, and every comparison with NaN is false.
\<close>

fun compare_lt :: "'n serde_json \<Rightarrow> 'n json \<Rightarrow> 'n json \<Rightarrow> bool" where
  "compare_lt D (JNumber a) (JNumber b) =
     (case (as_f64 D a, as_f64 D b) of (Some x, Some y) \<Rightarrow> x < y | _ \<Rightarrow> False)"
| "compare_lt D (JString a) (JString b) = (a < b)"
| "compare_lt D _ _ = False"

definition compare_le :: "'n serde_json \<Rightarrow> 'n json \<Rightarrow> 'n json \<Rightarrow> bool" where
  "compare_le D a b = (a = b \<or> compare_lt D a b)"

fun compare_gt :: "'n serde_json \<Rightarrow> 'n json \<Rightarrow> 'n json \<Rightarrow> bool" where
  "compare_gt D (JNumber a) (JNumber b) =
     (case (as_f64 D a, as_f64 D b) of (Some x, Some y) \<Rightarrow> x > y | _ \<Rightarrow> False)"
| "compare_gt D (JString a) (JString b) = (a > b)"
| "compare_gt D _ _ = False"

definition compare_ge :: "'n serde_json \<Rightarrow> 'n json \<Rightarrow> 'n json \<Rightarrow> bool" where
  "compare_ge D a b = (a = b \<or> compare_gt D a b)"

section \<open>Evaluation\<close>

text \<open>The \<open>Violation\<close> of a failed check on a value that was found.\<close>

definition violation :: "'n serde_json \<Rightarrow> string \<Rightarrow> string \<Rightarrow> 'n json \<Rightarrow> constraint_error" where
  "violation D param rule actual = Violation param rule (debug_value D actual)"

text \<open>
  \<open>evaluate\<close>, with the two loops over sub-constraints as \<open>eval_and\<close> and \<open>eval_or\<close>. In the loop
  of \<open>Or\<close> the variable \<open>last_error\<close> is \<open>Some e\<close> after the first failure, so \<open>eval_or\<close>, which
  starts after it, carries \<open>e\<close> itself and the final \<open>expect\<close> cannot panic.
\<close>

fun evaluate ::
    "'n serde_json \<Rightarrow> 'n json \<Rightarrow> 'n constraint \<Rightarrow> (unit, constraint_error) result"
  and eval_and ::
    "'n serde_json \<Rightarrow> 'n json \<Rightarrow> 'n constraint list \<Rightarrow> (unit, constraint_error) result"
  and eval_or ::
    "'n serde_json \<Rightarrow> 'n json \<Rightarrow> constraint_error \<Rightarrow> 'n constraint list
      \<Rightarrow> (unit, constraint_error) result" where
  "evaluate D params (Exists p) =
     (if get_param_opt D params p = None then Err (MissingParam p) else Ok ())"
| "evaluate D params (NotExists p) =
     (case get_param_opt D params p of
        Some val \<Rightarrow> Err (violation D p ''must not exist'' val)
      | None \<Rightarrow> Ok ())"
| "evaluate D params (Lt p v) =
     and_then (get_param D params p) (\<lambda>actual.
       guard_err (\<not> compare_lt D actual v) (violation D p (''< '' @ debug_value D v) actual))"
| "evaluate D params (Le p v) =
     and_then (get_param D params p) (\<lambda>actual.
       guard_err (\<not> compare_le D actual v) (violation D p (''<= '' @ debug_value D v) actual))"
| "evaluate D params (Gt p v) =
     and_then (get_param D params p) (\<lambda>actual.
       guard_err (\<not> compare_gt D actual v) (violation D p (''> '' @ debug_value D v) actual))"
| "evaluate D params (Ge p v) =
     and_then (get_param D params p) (\<lambda>actual.
       guard_err (\<not> compare_ge D actual v) (violation D p (''>= '' @ debug_value D v) actual))"
| "evaluate D params (Eq p v) =
     and_then (get_param D params p) (\<lambda>actual.
       guard_err (actual \<noteq> v) (violation D p (''== '' @ debug_value D v) actual))"
| "evaluate D params (Ne p v) =
     and_then (get_param D params p) (\<lambda>actual.
       guard_err (actual = v) (violation D p (''!= '' @ debug_value D v) actual))"
| "evaluate D params (In p vs) =
     and_then (get_param D params p) (\<lambda>actual.
       guard_err (actual \<notin> set vs) (violation D p (''in '' @ debug_values D vs) actual))"
| "evaluate D params (NotIn p vs) =
     and_then (get_param D params p) (\<lambda>actual.
       guard_err (actual \<in> set vs) (violation D p (''not in '' @ debug_values D vs) actual))"
| "evaluate D params (StartsWith p pre) =
     and_then (get_param_string D params p) (\<lambda>actual.
       guard_err (\<not> starts_with actual pre)
         (Violation p (''starts with '' @ [CHR 0x22] @ pre @ [CHR 0x22]) actual))"
| "evaluate D params (EndsWith p suf) =
     and_then (get_param_string D params p) (\<lambda>actual.
       guard_err (\<not> ends_with actual suf)
         (Violation p (''ends with '' @ [CHR 0x22] @ suf @ [CHR 0x22]) actual))"
| "evaluate D params (Contains p sub) =
     and_then (get_param_string D params p) (\<lambda>actual.
       guard_err (\<not> str_contains actual sub)
         (Violation p (''contains '' @ [CHR 0x22] @ sub @ [CHR 0x22]) actual))"
| "evaluate D params (And cs) = eval_and D params cs"
| "evaluate D params (Or []) =
     Err (Violation ''(or)'' ''at least one constraint must match'' ''empty Or'')"
| "evaluate D params (Or (c # cs)) =
     (case evaluate D params c of Inr u \<Rightarrow> Ok u | Inl e \<Rightarrow> eval_or D params e cs)"
| "eval_and D params [] = Ok ()"
| "eval_and D params (c # cs) =
     and_then (evaluate D params c) (\<lambda>_. eval_and D params cs)"
| "eval_or D params last_error [] = Err last_error"
| "eval_or D params last_error (c # cs) =
     (case evaluate D params c of Inr u \<Rightarrow> Ok u | Inl e \<Rightarrow> eval_or D params e cs)"

section \<open>Subsumption\<close>

fun param_name :: "'n constraint \<Rightarrow> string option" where
  "param_name (Lt p _) = Some p"
| "param_name (Le p _) = Some p"
| "param_name (Gt p _) = Some p"
| "param_name (Ge p _) = Some p"
| "param_name (Eq p _) = Some p"
| "param_name (Ne p _) = Some p"
| "param_name (In p _) = Some p"
| "param_name (NotIn p _) = Some p"
| "param_name (StartsWith p _) = Some p"
| "param_name (EndsWith p _) = Some p"
| "param_name (Contains p _) = Some p"
| "param_name (Exists p) = Some p"
| "param_name (NotExists p) = Some p"
| "param_name (And _) = None"
| "param_name (Or _) = None"

fun referenced_params :: "'n constraint \<Rightarrow> string list" where
  "referenced_params (And cs) = concat (map referenced_params cs)"
| "referenced_params (Or cs) = concat (map referenced_params cs)"
| "referenced_params c = (case param_name c of Some p \<Rightarrow> [p] | None \<Rightarrow> [])"

definition subsumes_same_param :: "'n serde_json \<Rightarrow> 'n constraint \<Rightarrow> 'n constraint \<Rightarrow> bool" where
  "subsumes_same_param D self other =
     (case self of
        Lt _ p \<Rightarrow> (case other of Lt _ c \<Rightarrow> compare_le D c p | _ \<Rightarrow> False)
      | Le _ p \<Rightarrow> (case other of Le _ c \<Rightarrow> compare_le D c p | Eq _ c \<Rightarrow> compare_le D c p
                    | _ \<Rightarrow> False)
      | Gt _ p \<Rightarrow> (case other of Gt _ c \<Rightarrow> compare_ge D c p | _ \<Rightarrow> False)
      | Ge _ p \<Rightarrow> (case other of Ge _ c \<Rightarrow> compare_ge D c p | Eq _ c \<Rightarrow> compare_ge D c p
                    | _ \<Rightarrow> False)
      | Eq _ p \<Rightarrow> (case other of Eq _ c \<Rightarrow> p = c
                    | Lt _ c \<Rightarrow> compare_lt D p c
                    | Le _ c \<Rightarrow> compare_le D p c
                    | Gt _ c \<Rightarrow> compare_gt D p c
                    | Ge _ c \<Rightarrow> compare_ge D p c
                    | _ \<Rightarrow> False)
      | Ne _ p \<Rightarrow> (case other of Ne _ c \<Rightarrow> p = c | _ \<Rightarrow> False)
      | In _ p \<Rightarrow> (case other of In _ c \<Rightarrow> list_all (\<lambda>v. v \<in> set p) c | _ \<Rightarrow> False)
      | NotIn _ p \<Rightarrow> (case other of NotIn _ c \<Rightarrow> list_all (\<lambda>v. v \<in> set c) p | _ \<Rightarrow> False)
      | StartsWith _ p \<Rightarrow> (case other of StartsWith _ c \<Rightarrow> starts_with c p | _ \<Rightarrow> False)
      | EndsWith _ p \<Rightarrow> (case other of EndsWith _ c \<Rightarrow> ends_with c p | _ \<Rightarrow> False)
      | Contains _ p \<Rightarrow> (case other of Contains _ c \<Rightarrow> str_contains c p | _ \<Rightarrow> False)
      | Exists _ \<Rightarrow> (case other of Exists _ \<Rightarrow> True | _ \<Rightarrow> False)
      | NotExists _ \<Rightarrow> (case other of NotExists _ \<Rightarrow> True | _ \<Rightarrow> False)
      | _ \<Rightarrow> False)"

lemma size_conjuncts: "is_And c \<Longrightarrow> x \<in> set (conjuncts c) \<Longrightarrow> size x < size c"
  by (cases c) (auto dest: size_list_estimation' [OF _ order_refl, where f = size])

lemma size_disjuncts: "is_Or c \<Longrightarrow> x \<in> set (disjuncts c) \<Longrightarrow> size x < size c"
  by (cases c) (auto dest: size_list_estimation' [OF _ order_refl, where f = size])

function subsumes :: "'n serde_json \<Rightarrow> 'n constraint \<Rightarrow> 'n constraint \<Rightarrow> bool" where
  "subsumes D self other =
     (if is_And self \<and> is_And other then
        list_all (\<lambda>pc. list_ex (\<lambda>cc. subsumes D pc cc) (conjuncts other)) (conjuncts self)
      else if is_Or self \<and> is_Or other then
        list_all (\<lambda>cc. list_ex (\<lambda>pc. subsumes D pc cc) (disjuncts self)) (disjuncts other)
      else if is_And other \<and> param_name self \<noteq> None then
        list_ex (\<lambda>c. subsumes D self c) (conjuncts other)
      else if is_Or other \<and> param_name self \<noteq> None then
        list_all (\<lambda>c. subsumes D self c) (disjuncts other)
      else if param_name self = None \<or> param_name other = None then False
      else if param_name self \<noteq> param_name other then False
      else subsumes_same_param D self other)"
  by pat_completeness auto
termination
  by (relation "measure (\<lambda>(D, p, c). size p + size c)")
    (auto intro: add_less_mono size_conjuncts size_disjuncts)

declare subsumes.simps [simp del]

section \<open>Constraint sets\<close>

type_synonym 'n constraint_set = "'n constraint list"

definition evaluate_set ::
  "'n serde_json \<Rightarrow> 'n json \<Rightarrow> 'n constraint_set \<Rightarrow> (unit, constraint_error) result" where
  "evaluate_set D params cs = try_for_each (evaluate D params) cs"

definition set_subsumes :: "'n serde_json \<Rightarrow> 'n constraint_set \<Rightarrow> 'n constraint_set \<Rightarrow> bool" where
  "set_subsumes D parent child =
     list_all (\<lambda>child_c.
       let child_params = referenced_params child_c;
           parent_constrains_any =
             list_ex (\<lambda>cp. list_ex (\<lambda>pc. cp \<in> set (referenced_params pc)) parent) child_params
       in \<not> parent_constrains_any \<or>
          (if param_name child_c \<noteq> None
           then list_ex (\<lambda>pc. param_name pc = param_name child_c \<and> subsumes D pc child_c) parent
           else list_ex (\<lambda>pc. subsumes D pc child_c) parent)) child"

definition extend_set :: "'n constraint_set \<Rightarrow> 'n constraint_set \<Rightarrow> 'n constraint_set" where
  "extend_set self other = self @ other"

definition merge_set :: "'n constraint_set \<Rightarrow> 'n constraint_set \<Rightarrow> 'n constraint_set" where
  "merge_set self other = extend_set self other"

section \<open>Facts about comparisons\<close>

lemma compare_lt_trans: "compare_lt D a b \<Longrightarrow> compare_lt D b c \<Longrightarrow> compare_lt D a c"
  by (cases a; cases b; cases c) (auto split: option.splits)

lemma compare_gt_conv: "compare_gt D a b = compare_lt D b a"
  by (cases a; cases b) (auto split: option.splits)

lemma compare_ge_conv: "compare_ge D a b = compare_le D b a"
  by (auto simp: compare_ge_def compare_le_def compare_gt_conv)

lemma compare_le_refl [simp]: "compare_le D a a"
  by (simp add: compare_le_def)

lemma compare_le_trans: "compare_le D a b \<Longrightarrow> compare_le D b c \<Longrightarrow> compare_le D a c"
  by (auto simp: compare_le_def intro: compare_lt_trans)

lemma compare_lt_le_trans: "compare_lt D a b \<Longrightarrow> compare_le D b c \<Longrightarrow> compare_lt D a c"
  by (auto simp: compare_le_def intro: compare_lt_trans)

lemma compare_le_lt_trans: "compare_le D a b \<Longrightarrow> compare_lt D b c \<Longrightarrow> compare_lt D a c"
  by (auto simp: compare_le_def intro: compare_lt_trans)

lemma compare_lt_irrefl [simp]: "\<not> compare_lt D a a"
  by (cases a) (auto split: option.splits)

lemmas compare_conv = compare_gt_conv compare_ge_conv
lemmas compare_trans =
  compare_lt_trans compare_le_trans compare_lt_le_trans compare_le_lt_trans

section \<open>When a constraint holds\<close>

definition sat :: "'n serde_json \<Rightarrow> 'n json \<Rightarrow> 'n constraint \<Rightarrow> bool" where
  "sat D params c = is_ok (evaluate D params c)"

lemma eval_and_Ok [simp]:
  "eval_and D params cs = Inr u \<longleftrightarrow> (\<forall>c \<in> set cs. evaluate D params c = Inr ())"
  by (induction cs) auto

lemma eval_or_Ok [simp]:
  "eval_or D params e cs = Inr u \<longleftrightarrow> (\<exists>c \<in> set cs. evaluate D params c = Inr ())"
  by (induction cs arbitrary: e) (auto split: sum.splits)

lemma sat_value [simp]:
  "sat D j (Lt p v) \<longleftrightarrow> (\<exists>a. get_param_opt D j p = Some a \<and> compare_lt D a v)"
  "sat D j (Le p v) \<longleftrightarrow> (\<exists>a. get_param_opt D j p = Some a \<and> compare_le D a v)"
  "sat D j (Gt p v) \<longleftrightarrow> (\<exists>a. get_param_opt D j p = Some a \<and> compare_lt D v a)"
  "sat D j (Ge p v) \<longleftrightarrow> (\<exists>a. get_param_opt D j p = Some a \<and> compare_le D v a)"
  "sat D j (Eq p v) \<longleftrightarrow> get_param_opt D j p = Some v"
  "sat D j (Ne p v) \<longleftrightarrow> (\<exists>a. get_param_opt D j p = Some a \<and> a \<noteq> v)"
  "sat D j (In p vs) \<longleftrightarrow> (\<exists>a. get_param_opt D j p = Some a \<and> a \<in> set vs)"
  "sat D j (NotIn p vs) \<longleftrightarrow> (\<exists>a. get_param_opt D j p = Some a \<and> a \<notin> set vs)"
  by (auto simp: sat_def is_ok_unit get_param_def compare_conv)

lemma as_str_Some: "as_str v = Some s \<longleftrightarrow> v = JString s"
  by (cases v) auto

lemma sat_string [simp]:
  "sat D j (StartsWith p s) \<longleftrightarrow>
     (\<exists>a. get_param_opt D j p = Some (JString a) \<and> starts_with a s)"
  "sat D j (EndsWith p s) \<longleftrightarrow>
     (\<exists>a. get_param_opt D j p = Some (JString a) \<and> ends_with a s)"
  "sat D j (Contains p s) \<longleftrightarrow>
     (\<exists>a. get_param_opt D j p = Some (JString a) \<and> str_contains a s)"
  by (auto simp: sat_def is_ok_unit get_param_string_def get_param_def as_str_Some)

lemma sat_exists [simp]:
  "sat D j (Exists p) \<longleftrightarrow> get_param_opt D j p \<noteq> None"
  "sat D j (NotExists p) \<longleftrightarrow> get_param_opt D j p = None"
  by (auto simp: sat_def split: option.split)

lemma sat_And [simp]: "sat D j (And cs) \<longleftrightarrow> (\<forall>c \<in> set cs. sat D j c)"
  by (simp add: sat_def is_ok_unit)

lemma sat_Or [simp]: "sat D j (Or cs) \<longleftrightarrow> (\<exists>c \<in> set cs. sat D j c)"
  by (cases cs) (auto simp: sat_def is_ok_unit split: sum.split)

lemma evaluate_set_Ok: "evaluate_set D j cs = Ok () \<longleftrightarrow> (\<forall>c \<in> set cs. sat D j c)"
  by (simp add: evaluate_set_def sat_def is_ok_unit)

lemma evaluate_set_is_ok: "is_ok (evaluate_set D j cs) \<longleftrightarrow> (\<forall>c \<in> set cs. sat D j c)"
  by (simp add: is_ok_unit evaluate_set_Ok)

section \<open>The sound part of the subsumption check\<close>

text \<open>
  The rules for an \<open>Eq\<close> parent and an order-constrained child go the wrong way, so soundness is
  stated for the pairs that do not meet them: no \<open>Eq\<close> in the parent, or no order constraint in
  the child.
\<close>

fun has_eq :: "'n constraint \<Rightarrow> bool" where
  "has_eq (Eq _ _) = True"
| "has_eq (And cs) = list_ex has_eq cs"
| "has_eq (Or cs) = list_ex has_eq cs"
| "has_eq _ = False"

fun has_order :: "'n constraint \<Rightarrow> bool" where
  "has_order (Lt _ _) = True"
| "has_order (Le _ _) = True"
| "has_order (Gt _ _) = True"
| "has_order (Ge _ _) = True"
| "has_order (And cs) = list_ex has_order cs"
| "has_order (Or cs) = list_ex has_order cs"
| "has_order _ = False"

lemma subsumes_same_param_sound:
  assumes "subsumes_same_param D p c" "param_name p = param_name c"
    "\<not> has_eq p \<or> \<not> has_order c" "sat D j c"
  shows "sat D j p"
  using assms
  by (cases p; simp add: subsumes_same_param_def split: constraint.splits)
    (auto simp: compare_conv list_all_iff
      intro: compare_trans starts_with_trans ends_with_trans str_contains_trans)

lemma subsumes_And_And:
  "subsumes D (And ps) (And cs) = list_all (\<lambda>pc. list_ex (subsumes D pc) cs) ps"
  by (subst subsumes.simps) simp

lemma subsumes_Or_Or:
  "subsumes D (Or ps) (Or cs) = list_all (\<lambda>cc. list_ex (\<lambda>pc. subsumes D pc cc) ps) cs"
  by (subst subsumes.simps) simp

lemma subsumes_mixed [simp]:
  "\<not> subsumes D (And ps) (Or cs)" "\<not> subsumes D (Or ps) (And cs)"
  by (subst subsumes.simps, simp)+

lemma param_name_None: "param_name c = None \<longleftrightarrow> is_And c \<or> is_Or c"
  by (cases c) auto

lemma subsumes_simple_And:
  "param_name p \<noteq> None \<Longrightarrow> subsumes D p (And cs) = list_ex (subsumes D p) cs"
  by (subst subsumes.simps) (auto simp: param_name_None)

lemma subsumes_simple_Or:
  "param_name p \<noteq> None \<Longrightarrow> subsumes D p (Or cs) = list_all (subsumes D p) cs"
  by (subst subsumes.simps) (auto simp: param_name_None)

lemma subsumes_simple:
  "param_name c \<noteq> None \<Longrightarrow>
     subsumes D p c \<longleftrightarrow> param_name p = param_name c \<and> subsumes_same_param D p c"
  by (subst subsumes.simps, cases p; cases c) simp_all

lemmas subsumes_cases =
  subsumes_And_And subsumes_Or_Or subsumes_simple_And subsumes_simple_Or subsumes_simple

lemma subsumes_sat:
  assumes "subsumes D p c" "\<not> has_eq p \<or> \<not> has_order c" "sat D j c"
  shows "sat D j p"
  using assms
proof (induction D p c rule: subsumes.induct)
  case (1 D p c)
  consider (simple) "param_name c \<noteq> None" | (land) cs where "c = And cs" | (lor) cs where "c = Or cs"
    by (cases c) auto
  then show ?case
  proof cases
    case simple
    with "1.prems" show ?thesis
      by (auto simp: subsumes_simple intro: subsumes_same_param_sound)
  next
    case land
    show ?thesis
    proof (cases "is_And p")
      case True
      then obtain ps where p: "p = And ps" by (cases p) auto
      show ?thesis
        using "1.prems" "1.IH"(1)
        by (fastforce simp: p land subsumes_And_And list_all_iff list_ex_iff)
    next
      case False
      with "1.prems" land have pn: "param_name p \<noteq> None"
        by (cases p) auto
      with "1.prems" land obtain c' where "c' \<in> set cs" "subsumes D p c'"
        by (auto simp: subsumes_simple_And list_ex_iff)
      with "1.IH"(3) "1.prems" pn land False show ?thesis
        by (auto simp: list_ex_iff)
    qed
  next
    case lor
    then obtain c' where c': "c' \<in> set cs" "sat D j c'"
      using "1.prems" by auto
    show ?thesis
    proof (cases "is_Or p")
      case True
      then obtain ps where p: "p = Or ps" by (cases p) auto
      with "1.prems" lor c' obtain p' where p': "p' \<in> set ps" "subsumes D p' c'"
        by (auto simp: subsumes_Or_Or list_all_iff list_ex_iff)
      have "sat D j p'"
        using "1.IH"(2) "1.prems"(2) p lor c' p' by (auto simp: list_ex_iff)
      with p p' show ?thesis by auto
    next
      case False
      with "1.prems" lor have pn: "param_name p \<noteq> None"
        by (cases p) auto
      with "1.prems" lor c' have "subsumes D p c'"
        by (auto simp: subsumes_simple_Or list_all_iff)
      with "1.IH"(4) "1.prems" pn lor False c' show ?thesis
        by (auto simp: list_ex_iff)
    qed
  qed
qed

lemma subsumes_same_param_refl: "param_name c \<noteq> None \<Longrightarrow> subsumes_same_param D c c"
  by (cases c) (auto simp: subsumes_same_param_def compare_conv list_all_iff)

lemma subsumes_refl: "subsumes D c c"
proof (induction c rule: measure_induct_rule [where f = size])
  case (less c)
  have IH: "x \<in> set cs \<Longrightarrow> subsumes D x x" if "c = And cs \<or> c = Or cs" for x cs
    using that less size_conjuncts [of c x] size_disjuncts [of c x] by auto
  show ?case
  proof (cases "param_name c")
    case None
    then obtain cs where cs: "c = And cs \<or> c = Or cs" by (cases c) auto
    have "\<forall>x \<in> set cs. subsumes D x x" using IH [OF cs] by blast
    with cs show ?thesis
      unfolding subsumes_And_And subsumes_Or_Or list_all_iff list_ex_iff
      by (elim disjE) (simp_all add: subsumes_And_And subsumes_Or_Or list_all_iff list_ex_iff, blast+)
  next
    case (Some a)
    then show ?thesis by (simp add: subsumes_simple subsumes_same_param_refl)
  qed
qed

lemma referenced_params_simple: "param_name c = Some p \<Longrightarrow> referenced_params c = [p]"
  by (cases c) auto

lemma set_subsumes_covered:
  assumes "set_subsumes D ps cs" "c \<in> set cs" "param_name c = Some x"
    "p \<in> set ps" "param_name p = Some x"
  shows "\<exists>q \<in> set ps. param_name q = Some x \<and> subsumes D q c"
proof -
  have "list_ex (\<lambda>cp. list_ex (\<lambda>pc. cp \<in> set (referenced_params pc)) ps) (referenced_params c)"
    using assms(4,5) by (auto simp: list_ex_iff referenced_params_simple [OF assms(3)]
      referenced_params_simple [OF assms(5)] intro!: bexI [of _ p])
  with assms(1-3) have "list_ex (\<lambda>pc. param_name pc = param_name c \<and> subsumes D pc c) ps"
    by (auto simp: set_subsumes_def list_all_iff Let_def)
  with assms(3) show ?thesis by (auto simp: list_ex_iff)
qed

lemma set_subsumes_sound_lemma:
  assumes sub: "set_subsumes D parent child"
    and simple: "\<forall>p \<in> set parent. param_name p \<noteq> None"
    and once: "distinct (map param_name parent)"
    and covers: "\<forall>p \<in> set parent. \<exists>c \<in> set child. param_name c = param_name p"
    and frag: "(\<forall>p \<in> set parent. \<not> has_eq p) \<or> (\<forall>c \<in> set child. \<not> has_order c)"
    and ok: "evaluate_set D params child = Ok ()"
  shows "evaluate_set D params parent = Ok ()"
  unfolding evaluate_set_Ok
proof
  fix p assume p: "p \<in> set parent"
  with simple obtain x where x: "param_name p = Some x" by blast
  from covers p x obtain c where c: "c \<in> set child" "param_name c = Some x" by metis
  obtain q where q: "q \<in> set parent" "param_name q = Some x" "subsumes D q c"
    using set_subsumes_covered [OF sub c p x] by blast
  with once p x have "q = p" by (auto simp: distinct_map inj_on_def)
  then show "sat D params p"
    using subsumes_sat [OF q(3), of params] frag p c ok by (auto simp: evaluate_set_Ok)
qed

section \<open>Properties\<close>

text \<open>Delegation is sound for the pairs the check treats correctly: when the parent subsumes
  the child, every request that satisfies the child's constraint satisfies the parent's, provided
  the parent has no \<open>Eq\<close> or the child has no order constraint.\<close>

theorem subsumes_sound:
  assumes "subsumes D parent child"
    and "\<not> has_eq parent \<or> \<not> has_order child"
    and "evaluate D params child = Ok ()"
  shows "evaluate D params parent = Ok ()"
  using subsumes_sat [OF assms(1,2), of params] assms(3) by (simp add: sat_def is_ok_unit)

theorem subsumes_sound_witness:
  "evaluate int_serde (JObject [(''amount'', JNumber 30)])
     (And [Or [Le ''amount'' (JNumber 100), Exists ''memo'']]) = Ok ()"
proof (rule subsumes_sound [where child =
      "And [Or [Le ''amount'' (JNumber 50), Eq ''amount'' (JNumber 7)], Exists ''amount'']"])
  show "subsumes int_serde (And [Or [Le ''amount'' (JNumber 100), Exists ''memo'']])
      (And [Or [Le ''amount'' (JNumber 50), Eq ''amount'' (JNumber 7)], Exists ''amount''])"
    by (simp add: subsumes_cases subsumes_same_param_def compare_le_def)
qed (simp_all add: get_param_def get_param_opt_def starts_with_def compare_le_def)

text \<open>The check accepts a broader child for an \<open>Eq\<close> parent: a parent that fixes the amount to
  5 subsumes a child that allows every amount below 10, and the request with amount 3 then passes
  the child and fails the parent.\<close>

theorem subsumes_eq_order_unsound:
  "subsumes int_serde (Eq ''amount'' (JNumber 5)) (Lt ''amount'' (JNumber 10)) \<and>
   evaluate int_serde (JObject [(''amount'', JNumber 3)]) (Lt ''amount'' (JNumber 10)) = Ok () \<and>
   \<not> is_ok (evaluate int_serde (JObject [(''amount'', JNumber 3)]) (Eq ''amount'' (JNumber 5)))"
  by (simp add: subsumes_cases subsumes_same_param_def get_param_def get_param_opt_def
      starts_with_def)

text \<open>C29. The check between two constraint sets is sound on a fragment: when it accepts the child, every
  request that passes the child passes the parent, provided that (1) each constraint of the parent is atomic
  and no two are about one parameter, (2) the child has an atomic constraint for each of these parameters, and
  (3) the parent has no \<open>Eq\<close> or the child has no order constraint (\<open>Lt\<close>, \<open>Le\<close>, \<open>Gt\<close>, \<open>Ge\<close>). Without (2) or (3)
  it is not sound, against the documentation of \<open>subsumes\<close>: \<open>set_subsumes_allows_dropping\<close> and
  \<open>subsumes_eq_order_unsound\<close> are requests that pass the child and fail the parent.\<close>

theorem set_subsumes_sound:
  assumes sub: "set_subsumes D parent child"
    and simple: "\<forall>p \<in> set parent. param_name p \<noteq> None"
    and once: "distinct (map param_name parent)"
    and covers: "\<forall>p \<in> set parent. \<exists>c \<in> set child. param_name c = param_name p"
    and frag: "(\<forall>p \<in> set parent. \<not> has_eq p) \<or> (\<forall>c \<in> set child. \<not> has_order c)"
    and ok: "evaluate_set D params child = Ok ()"
  shows "evaluate_set D params parent = Ok ()"
  by (rule set_subsumes_sound_lemma [OF assms])

theorem set_subsumes_sound_witness:
  "evaluate_set int_serde (JObject [(''amount'', JNumber 30), (''y'', JNumber 1)])
     [Le ''amount'' (JNumber 100)] = Ok ()"
  by (rule set_subsumes_sound [where child =
      "[Le ''amount'' (JNumber 50), Ge ''y'' (JNumber 0)]"])
    (simp_all add: set_subsumes_def subsumes_cases subsumes_same_param_def compare_le_def
      compare_ge_def evaluate_set_def get_param_def get_param_opt_def starts_with_def)

text \<open>A child set is not required to keep the parent's constraints: the empty child passes the
  check against every parent and accepts every request, also one the parent refuses.\<close>

theorem set_subsumes_allows_dropping:
  "set_subsumes D parent [] \<and> evaluate_set D params [] = Ok () \<and>
   \<not> is_ok (evaluate_set int_serde (JObject [(''amount'', JNumber 500)])
       [Le ''amount'' (JNumber 100)])"
  by (simp add: set_subsumes_def evaluate_set_def get_param_def get_param_opt_def starts_with_def
      compare_le_def)

text \<open>Fail closed: every atomic constraint other than \<open>NotExists\<close> is refused with
  \<open>MissingParam\<close> when its parameter is absent from the request.\<close>

theorem evaluate_fail_closed:
  assumes "param_name c = Some p" and "c \<noteq> NotExists p" and "get_param_opt D params p = None"
  shows "evaluate D params c = Err (MissingParam p)"
  using assms by (cases c) (simp_all add: get_param_def get_param_string_def)

theorem evaluate_fail_closed_witness:
  "evaluate int_serde (JObject []) (Ne ''status'' (JString ''deleted'')) =
     Err (MissingParam ''status'')"
  by (rule evaluate_fail_closed) (simp_all add: get_param_opt_def)

text \<open>Merging two sets is conjunction: the merged set runs the first set's checks and then the
  second's, and accepts a request exactly when both sets accept it.\<close>

theorem merge_set_conjunction:
  "evaluate_set D params (merge_set a b) =
     and_then (evaluate_set D params a) (\<lambda>_. evaluate_set D params b) \<and>
   is_ok (evaluate_set D params (merge_set a b)) =
     (is_ok (evaluate_set D params a) \<and> is_ok (evaluate_set D params b))"
  by (auto simp: merge_set_def extend_set_def evaluate_set_def is_ok_unit)

text \<open>The attenuation by conjunction that the documentation describes is refused by the
  subsumption check when the added clause is of another kind on the same parameter: adding a lower
  bound to an upper bound is strictly narrower, and still not subsumed.\<close>

theorem set_subsumes_refuses_conjunction:
  "\<not> set_subsumes D [Le x v] (merge_set [Le x v] [Ge x w])"
  by (simp add: set_subsumes_def merge_set_def extend_set_def subsumes_simple
      subsumes_same_param_def)

text \<open>Delegating unchanged constraints is always accepted: the check is reflexive on
  constraints and on sets.\<close>

theorem set_subsumes_reflexive:
  "subsumes D c c \<and> set_subsumes D cs cs"
  using subsumes_refl by (fastforce simp: set_subsumes_def list_all_iff list_ex_iff Let_def)

text \<open>The disjunction succeeds exactly when one of its alternatives does, and when all fail it
  reports the error of the last alternative.\<close>

theorem evaluate_or_outcome:
  "is_ok (evaluate D params (Or (cs @ [c]))) =
     (is_ok (evaluate D params (Or cs)) \<or> is_ok (evaluate D params c)) \<and>
   evaluate D params (Or (cs @ [c])) =
     (if is_ok (evaluate D params (Or cs)) then Ok () else evaluate D params c)"
proof -
  have eval_or_last: "eval_or D params e (ds @ [c]) =
      (if is_ok (eval_or D params e ds) then Ok () else evaluate D params c)" for e ds
    by (induction ds arbitrary: e) (auto split: sum.split)
  show ?thesis
    by (cases cs) (auto simp: eval_or_last split: sum.split)
qed

end
