(* ===== verification/Patterns.thy ===== *)
theory Patterns
  imports Prelude
begin

text \<open>
  Glob patterns on method names, \<open>crates/amla-protocol-capabilities/src/patterns.rs\<close>: matching
  (\<open>method_matches_pattern\<close>), the inclusion check used for attenuation
  (\<open>pattern_is_subset\<close>), and a declarative semantics \<open>glob\<close> both are related to.
\<close>

section \<open>Definitions\<close>

text \<open>The segments of a name or pattern; the empty string has none.\<close>

definition path_segments :: "string \<Rightarrow> string list" where
  "path_segments s = (if s = [] then [] else split_on CHR ''/'' s)"

fun matches_parts :: "string list \<Rightarrow> string list \<Rightarrow> bool" where
  "matches_parts method_parts [] = (method_parts = [])"
| "matches_parts method_parts (pattern_first # rest_pattern) =
     (if pattern_first = ''**'' then
        (if rest_pattern = [] then True
         else list_ex (\<lambda>i. matches_parts (drop i method_parts) rest_pattern)
                [0..<Suc (length method_parts)])
      else (case method_parts of
              [] \<Rightarrow> False
            | method_first # method_rest \<Rightarrow>
                if pattern_first = ''*'' then matches_parts method_rest rest_pattern
                else if pattern_first = method_first then matches_parts method_rest rest_pattern
                else False))"

definition method_matches_pattern :: "string \<Rightarrow> string \<Rightarrow> bool" where
  "method_matches_pattern method pat = matches_parts (path_segments method) (path_segments pat)"

text \<open>
  The branches on a parent \<open>**\<close> below the first test are dead code in the source too; the last
  one is its \<open>unreachable!()\<close>.
\<close>

function pattern_parts_subset :: "string list \<Rightarrow> string list \<Rightarrow> bool" where
  "pattern_parts_subset child parent =
     (if parent = [] \<and> child = [] then True
      else (case parent of
        [] \<Rightarrow> False
      | parent_first # parent_rest \<Rightarrow>
          if parent_first = ''**'' then
            (if length parent = 1 then True
             else list_ex (\<lambda>i. pattern_parts_subset (drop i child) parent_rest)
                    [0..<Suc (length child)])
          else (case child of
            [] \<Rightarrow> False
          | child_first # child_rest \<Rightarrow>
              if child_first = ''**'' then
                parent_first = ''**'' \<and> pattern_parts_subset child_rest parent_rest
              else if child_first = ''*'' then
                (if parent_first = ''*'' \<or> parent_first = ''**'' then
                   (if parent_first = ''**'' then pattern_parts_subset child_rest parent
                    else pattern_parts_subset child_rest parent_rest)
                 else False)
              else if parent_first = ''*'' then pattern_parts_subset child_rest parent_rest
              else if parent_first = ''**'' then False
              else if child_first = parent_first then pattern_parts_subset child_rest parent_rest
              else False)))"
  by pat_completeness auto
termination
  by (relation "measure (\<lambda>(c, p). length c + length p)") (auto split: list.splits)

declare pattern_parts_subset.simps [simp del]

definition pattern_is_subset :: "string \<Rightarrow> string \<Rightarrow> bool" where
  "pattern_is_subset child parent =
     pattern_parts_subset (path_segments child) (path_segments parent)"

section \<open>Declarative semantics\<close>

inductive glob :: "string list \<Rightarrow> string list \<Rightarrow> bool" where
  glob_nil: "glob [] []"
| glob_literal: "p \<noteq> ''*'' \<Longrightarrow> p \<noteq> ''**'' \<Longrightarrow> glob ms ps \<Longrightarrow> glob (p # ms) (p # ps)"
| glob_star: "glob ms ps \<Longrightarrow> glob (m # ms) (''*'' # ps)"
| glob_skip: "glob ms ps \<Longrightarrow> glob ms (''**'' # ps)"
| glob_take: "glob ms (''**'' # ps) \<Longrightarrow> glob (m # ms) (''**'' # ps)"

inductive_cases glob_nilE: "glob ms []"
inductive_simps glob_nil_simp: "glob ms []"
inductive_simps glob_cons_simp: "glob ms (p # ps)"

lemma glob_dstar: "glob ms (''**'' # ps) \<longleftrightarrow> (\<exists>i \<le> length ms. glob (drop i ms) ps)"
proof
  assume "glob ms (''**'' # ps)"
  then show "\<exists>i \<le> length ms. glob (drop i ms) ps"
  proof (induction ms "''**'' # ps" arbitrary: ps rule: glob.induct)
    case (glob_skip ms ps)
    then show ?case by (auto intro: exI [of _ 0])
  next
    case (glob_take ms ps m)
    then obtain i where "i \<le> length ms" "glob (drop i ms) ps" by blast
    then show ?case by (auto intro!: exI [of _ "Suc i"])
  qed simp_all
next
  have "glob (drop i ms) ps \<Longrightarrow> i \<le> length ms \<Longrightarrow> glob ms (''**'' # ps)" for i
  proof (induction ms arbitrary: i)
    case Nil
    then show ?case by (auto intro: glob.intros)
  next
    case (Cons m ms)
    then show ?case by (cases i) (auto intro: glob.intros)
  qed
  then show "\<exists>i \<le> length ms. glob (drop i ms) ps \<Longrightarrow> glob ms (''**'' # ps)" by blast
qed

lemma list_ex_upt: "list_ex P [0..<Suc n] \<longleftrightarrow> (\<exists>i \<le> n. P i)"
  unfolding list_ex_iff by (auto simp: less_Suc_eq_le simp del: upt_Suc)

lemma glob_cons:
  "p \<noteq> ''**'' \<Longrightarrow> glob ms (p # ps) \<longleftrightarrow>
     (\<exists>m ms'. ms = m # ms' \<and> (p = ''*'' \<or> m = p) \<and> glob ms' ps)"
  by (subst glob_cons_simp) auto

lemma matches_parts_dstar:
  "matches_parts ms (''**'' # ps) \<longleftrightarrow> (\<exists>i \<le> length ms. matches_parts (drop i ms) ps)"
  by (cases "ps = []") (auto simp: list_ex_upt simp del: upt_Suc)

lemma matches_parts_glob: "matches_parts ms ps = glob ms ps"
proof (induction ps arbitrary: ms)
  case Nil
  show ?case by (simp add: glob_nil_simp)
next
  case (Cons p ps)
  show ?case
  proof (cases "p = ''**''")
    case True
    then show ?thesis
      using matches_parts_dstar [of ms ps] by (simp add: glob_dstar Cons del: matches_parts.simps)
  next
    case False
    then show ?thesis
      by (auto simp: Cons glob_cons split: list.split)
  qed
qed

section \<open>Inclusion\<close>

lemma pattern_parts_subset_nil [simp]:
  "pattern_parts_subset c [] \<longleftrightarrow> c = []"
  by (subst pattern_parts_subset.simps) simp

lemma pattern_parts_subset_dstar:
  "pattern_parts_subset c (''**'' # ps) \<longleftrightarrow>
     ps = [] \<or> (\<exists>i \<le> length c. pattern_parts_subset (drop i c) ps)"
  by (subst pattern_parts_subset.simps) (simp add: list_ex_upt del: upt_Suc)

lemma pattern_parts_subset_cons:
  "p \<noteq> ''**'' \<Longrightarrow> pattern_parts_subset c (p # ps) \<longleftrightarrow>
     (\<exists>q qs. c = q # qs \<and> q \<noteq> ''**'' \<and> (p = ''*'' \<or> q = p) \<and> pattern_parts_subset qs ps)"
  by (subst pattern_parts_subset.simps) (auto split: list.split)

text \<open>A match of a pattern splits at every position of the pattern.\<close>

lemma glob_drop:
  "glob ms ps \<Longrightarrow> i \<le> length ps \<Longrightarrow> \<exists>k \<le> length ms. glob (drop k ms) (drop i ps)"
proof (induction ms ps arbitrary: i rule: glob.induct)
  case glob_nil
  then show ?case by (auto intro: glob.intros)
next
  case (glob_literal p ms ps)
  show ?case
  proof (cases i)
    case 0
    then show ?thesis using glob_literal by (auto intro!: exI [of _ 0] glob.intros)
  next
    case (Suc j)
    then obtain k where "k \<le> length ms" "glob (drop k ms) (drop j ps)"
      using glob_literal by auto
    then show ?thesis using Suc by (auto intro!: exI [of _ "Suc k"])
  qed
next
  case (glob_star ms ps m)
  show ?case
  proof (cases i)
    case 0
    then show ?thesis using glob_star by (auto intro!: exI [of _ 0] glob.intros)
  next
    case (Suc j)
    then obtain k where "k \<le> length ms" "glob (drop k ms) (drop j ps)"
      using glob_star by auto
    then show ?thesis using Suc by (auto intro!: exI [of _ "Suc k"])
  qed
next
  case (glob_skip ms ps)
  then show ?case by (cases i) (auto intro!: exI [of _ 0] glob.intros)
next
  case (glob_take ms ps m)
  then obtain k where "k \<le> length ms" "glob (drop k ms) (drop i (''**'' # ps))" by blast
  then show ?case by (auto intro!: exI [of _ "Suc k"])
qed

lemma pattern_parts_subset_sound:
  "pattern_parts_subset c p \<Longrightarrow> glob ms c \<Longrightarrow> glob ms p"
proof (induction p arbitrary: c ms)
  case Nil
  then show ?case by simp
next
  case (Cons p ps)
  show ?case
  proof (cases "p = ''**''")
    case True
    show ?thesis
    proof (cases "ps = []")
      case True
      have "glob (drop (length ms) ms) []" by (simp add: glob_nil)
      with True \<open>p = ''**''\<close> show ?thesis by (auto simp: glob_dstar)
    next
      case False
      with Cons.prems \<open>p = ''**''\<close> obtain i
        where i: "i \<le> length c" "pattern_parts_subset (drop i c) ps"
        by (auto simp: pattern_parts_subset_dstar)
      from glob_drop [OF Cons.prems(2) i(1)] obtain k
        where "k \<le> length ms" "glob (drop k ms) (drop i c)" by blast
      with Cons.IH [OF i(2)] \<open>p = ''**''\<close> show ?thesis by (auto simp: glob_dstar)
    qed
  next
    case False
    with Cons.prems(1) obtain q qs where c: "c = q # qs" "q \<noteq> ''**''" "p = ''*'' \<or> q = p"
      "pattern_parts_subset qs ps"
      by (auto simp: pattern_parts_subset_cons)
    from Cons.prems(2) c(1,2) obtain m ms' where ms: "ms = m # ms'" "glob ms' qs"
      "q = ''*'' \<or> m = q"
      by (auto simp: glob_cons)
    from Cons.IH [OF c(4) ms(2)] have "glob ms' ps" .
    with c(3) ms False show ?thesis by (auto simp: glob_cons)
  qed
qed

lemma method_matches_glob:
  "method_matches_pattern m p = glob (path_segments m) (path_segments p)"
  by (simp add: method_matches_pattern_def matches_parts_glob)

lemma pattern_is_subset_sound_lemma:
  "pattern_is_subset child parent \<Longrightarrow> method_matches_pattern m child \<Longrightarrow>
     method_matches_pattern m parent"
  using pattern_parts_subset_sound by (auto simp: pattern_is_subset_def method_matches_glob)

lemma pattern_parts_subset_refl: "pattern_parts_subset p p"
proof (induction p)
  case Nil
  show ?case by simp
next
  case (Cons p ps)
  then show ?case
    by (cases "p = ''**''")
      (auto simp: pattern_parts_subset_dstar pattern_parts_subset_cons intro!: exI [of _ 1])
qed

section \<open>Properties\<close>

text \<open>The recursive matcher decides the glob semantics: \<open>*\<close> stands for exactly one segment,
  \<open>**\<close> for any number of segments, everything else for itself.\<close>

theorem method_matches_pattern_glob:
  "method_matches_pattern m p = glob (path_segments m) (path_segments p)"
  by (rule method_matches_glob)

text \<open>C7. A child pattern accepted by the inclusion check matches only methods that the parent
  pattern matches.\<close>

theorem pattern_is_subset_sound:
  assumes "pattern_is_subset child parent" and "method_matches_pattern m child"
  shows "method_matches_pattern m parent"
  using assms by (rule pattern_is_subset_sound_lemma)

theorem pattern_is_subset_sound_witness:
  "method_matches_pattern ''a/x/c'' ''**/c''"
  by (rule pattern_is_subset_sound [where child = "''a/*/c''"])
    (simp_all add: pattern_is_subset_def method_matches_pattern_def path_segments_def
      pattern_parts_subset.simps)

text \<open>Every pattern is included in itself, and in the pattern \<open>**\<close>.\<close>

theorem pattern_is_subset_reflexive:
  "pattern_is_subset p p \<and> pattern_is_subset p ''**''"
  by (simp add: pattern_is_subset_def pattern_parts_subset_refl path_segments_def
      pattern_parts_subset_dstar)

text \<open>The check accepts \<open>a/*/c\<close> below \<open>a/**\<close>, which its documentation excludes, and it
  refuses \<open>*/**\<close> below \<open>**/*\<close> although both match exactly the names of at least one segment.\<close>

theorem pattern_is_subset_incomplete:
  "pattern_is_subset ''a/*/c'' ''a/**'' \<and>
   \<not> pattern_is_subset ''*/**'' ''**/*'' \<and>
   method_matches_pattern m ''*/**'' = (path_segments m \<noteq> []) \<and>
   method_matches_pattern m ''**/*'' = (path_segments m \<noteq> [])"
proof -
  have star: "glob ms [''*''] \<longleftrightarrow> (\<exists>m. ms = [m])" for ms
    by (auto simp: glob_cons glob_nil_simp)
  have "glob (drop (length ms) ms) []" for ms :: "string list"
    by (simp add: glob_nil)
  then have all: "glob ms [''**'']" for ms
    unfolding glob_dstar by blast
  have 1: "glob ms [''*'', ''**''] \<longleftrightarrow> ms \<noteq> []" for ms
    by (cases ms) (simp_all add: glob_cons all)
  have "drop (length ms - 1) ms = [last ms]" if "ms \<noteq> []" for ms :: "string list"
    using that by (cases ms rule: rev_cases) simp_all
  then have 2: "glob ms [''**'', ''*''] \<longleftrightarrow> ms \<noteq> []" for ms
    unfolding glob_dstar star by (metis diff_le_self drop_Nil list.distinct(1))
  show ?thesis
    by (simp add: pattern_is_subset_def method_matches_glob path_segments_def
        pattern_parts_subset.simps 1 2)
qed

end
