(* ===== verification/Attenuation.thy ===== *)
theory Attenuation
  imports Prelude
begin

text \<open>
  The contract every attenuating capability type promises: what a parent check accepts as a child
  never allows more than the parent. The trait \<open>Capability\<close> of
  \<open>crates/amla-protocol-capabilities/src/lib.rs\<close> states it as the meaning of
  \<open>is_superset_of\<close>; the theories of the concrete types interpret the locales below on their
  own definitions.
\<close>

text \<open>A delegation chain: each element was accepted as a child of the one before it.\<close>

fun delegation_chain :: "('c \<Rightarrow> 'c \<Rightarrow> bool) \<Rightarrow> 'c list \<Rightarrow> bool" where
  "delegation_chain superset [] = True"
| "delegation_chain superset [c] = True"
| "delegation_chain superset (p # c # cs) = (superset p c \<and> delegation_chain superset (c # cs))"

locale attenuation =
  fixes superset :: "'c \<Rightarrow> 'c \<Rightarrow> bool"
    and allows :: "'c \<Rightarrow> 'r \<Rightarrow> bool"
  assumes superset_sound: "superset p c \<Longrightarrow> allows c r \<Longrightarrow> allows p r"
begin

lemma chain_member_allows:
  "delegation_chain superset (p # cs) \<Longrightarrow> c \<in> set cs \<Longrightarrow> allows c r \<Longrightarrow> allows p r"
proof (induction cs arbitrary: p)
  case Nil
  then show ?case by simp
next
  case (Cons q cs)
  then have "allows q r" by auto
  with Cons.prems show ?case by (auto intro: superset_sound)
qed

lemma chain_last_allows:
  "delegation_chain superset (p # cs) \<Longrightarrow> allows (last (p # cs)) r \<Longrightarrow> allows p r"
  using chain_member_allows [of p cs "last cs" r] by (cases "cs = []") simp_all

end

locale reflexive_attenuation = attenuation +
  assumes superset_refl: "superset c c"
begin

lemma chain_replicate: "delegation_chain superset (replicate n c)"
proof (induction n)
  case (Suc n)
  then show ?case by (cases n) (auto simp: superset_refl)
qed simp

end

end
