(* ===== verification/Partition.thy ===== *)
theory Partition
  imports Attenuation
begin

text \<open>
  Partition patterns and the memory and spawn capabilities of
  \<open>crates/amla-protocol-capabilities/src/lib.rs\<close>.
\<close>

datatype capability_error =
    ConstraintViolation string
  | PartitionDenied string
  | TypeNotAllowed string

section \<open>Partition patterns\<close>

datatype pattern_mode = Exact | NonRecursive | Recursive

record partition_pattern =
  pat_prefix :: string
  pat_mode :: pattern_mode

definition partition_new :: "string \<Rightarrow> partition_pattern" where
  "partition_new pat =
     (case strip_suffix pat ''/**'' of
        Some p \<Rightarrow> \<lparr>pat_prefix = p, pat_mode = Recursive\<rparr>
      | None \<Rightarrow>
         (case strip_suffix pat ''/*'' of
            Some p \<Rightarrow> \<lparr>pat_prefix = p, pat_mode = NonRecursive\<rparr>
          | None \<Rightarrow> \<lparr>pat_prefix = pat, pat_mode = Exact\<rparr>))"

definition partition_matches :: "partition_pattern \<Rightarrow> string \<Rightarrow> bool" where
  "partition_matches self key =
     (if key = pat_prefix self then True
      else if pat_mode self = Exact then False
      else let expected_prefix = pat_prefix self @ ''/'' in
        if \<not> starts_with key expected_prefix then False
        else if pat_mode self = Recursive then True
        else CHR ''/'' \<notin> set (drop (length expected_prefix) key))"

definition partition_contains :: "partition_pattern \<Rightarrow> partition_pattern \<Rightarrow> bool" where
  "partition_contains self child =
     (if \<not> starts_with (pat_prefix child) (pat_prefix self) then False
      else if pat_mode self = Recursive then
        (if pat_prefix child = pat_prefix self then True
         else starts_with (pat_prefix child) (pat_prefix self @ ''/''))
      else if pat_mode self = Exact then
        pat_prefix child = pat_prefix self \<and> pat_mode child = Exact
      else (case pat_mode child of
          Exact \<Rightarrow>
            let expected_prefix = pat_prefix self @ ''/'' in
              if \<not> starts_with (pat_prefix child) expected_prefix then False
              else CHR ''/'' \<notin> set (drop (length expected_prefix) (pat_prefix child))
        | NonRecursive \<Rightarrow> pat_prefix child = pat_prefix self
        | Recursive \<Rightarrow> False))"

section \<open>Memory capabilities\<close>

record memory_read_cap =
  mr_partition :: partition_pattern

definition memory_read_new :: "string \<Rightarrow> memory_read_cap" where
  "memory_read_new pat = \<lparr>mr_partition = partition_new pat\<rparr>"

definition memory_read_check :: "memory_read_cap \<Rightarrow> string \<Rightarrow> (unit, capability_error) result" where
  "memory_read_check self key =
     (if partition_matches (mr_partition self) key then Ok () else Err (PartitionDenied key))"

definition memory_read_superset :: "memory_read_cap \<Rightarrow> memory_read_cap \<Rightarrow> bool" where
  "memory_read_superset self child = partition_contains (mr_partition self) (mr_partition child)"

record memory_write_cap =
  mw_partition :: partition_pattern
  max_value_bytes :: "u64 option"

definition memory_write_new :: "string \<Rightarrow> memory_write_cap" where
  "memory_write_new pat = \<lparr>mw_partition = partition_new pat, max_value_bytes = None\<rparr>"

definition memory_write_with_max_bytes :: "string \<Rightarrow> u64 \<Rightarrow> memory_write_cap" where
  "memory_write_with_max_bytes pat max_bytes =
     \<lparr>mw_partition = partition_new pat, max_value_bytes = Some max_bytes\<rparr>"

definition memory_write_check ::
  "memory_write_cap \<Rightarrow> string \<Rightarrow> u64 \<Rightarrow> (unit, capability_error) result" where
  "memory_write_check self key value_size =
     (if \<not> partition_matches (mw_partition self) key then Err (PartitionDenied key)
      else (case max_value_bytes self of
          Some m \<Rightarrow>
            if value_size > m then
              Err (ConstraintViolation (''Value size '' @ show_nat (unat value_size) @
                '' exceeds maximum '' @ show_nat (unat m)))
            else Ok ()
        | None \<Rightarrow> Ok ()))"

definition memory_write_superset :: "memory_write_cap \<Rightarrow> memory_write_cap \<Rightarrow> bool" where
  "memory_write_superset self child =
     (if \<not> partition_contains (mw_partition self) (mw_partition child) then False
      else (case (max_value_bytes self, max_value_bytes child) of
          (None, _) \<Rightarrow> True
        | (Some _, None) \<Rightarrow> False
        | (Some p, Some c) \<Rightarrow> p \<ge> c))"

record memory_delete_cap =
  md_partition :: partition_pattern

definition memory_delete_new :: "string \<Rightarrow> memory_delete_cap" where
  "memory_delete_new pat = \<lparr>md_partition = partition_new pat\<rparr>"

definition memory_delete_check ::
  "memory_delete_cap \<Rightarrow> string \<Rightarrow> (unit, capability_error) result" where
  "memory_delete_check self key =
     (if partition_matches (md_partition self) key then Ok () else Err (PartitionDenied key))"

definition memory_delete_superset :: "memory_delete_cap \<Rightarrow> memory_delete_cap \<Rightarrow> bool" where
  "memory_delete_superset self child = partition_contains (md_partition self) (md_partition child)"

section \<open>Spawn capability\<close>

record spawn_cap =
  partition_prefix :: partition_pattern
  allowed_types :: "string list"

definition spawn_new :: "string \<Rightarrow> string list \<Rightarrow> spawn_cap" where
  "spawn_new pat types = \<lparr>partition_prefix = partition_new pat, allowed_types = types\<rparr>"

definition spawn_check_type :: "spawn_cap \<Rightarrow> string \<Rightarrow> (unit, capability_error) result" where
  "spawn_check_type self cap_type =
     (if cap_type \<in> set (allowed_types self) then Ok () else Err (TypeNotAllowed cap_type))"

definition spawn_superset :: "spawn_cap \<Rightarrow> spawn_cap \<Rightarrow> bool" where
  "spawn_superset self child =
     (if \<not> partition_contains (partition_prefix self) (partition_prefix child) then False
      else list_all (\<lambda>t. t \<in> set (allowed_types self)) (allowed_types child))"

section \<open>Facts\<close>

lemma starts_with_append_iff:
  "starts_with key (p @ ''/'') \<longleftrightarrow> (\<exists>r. key = p @ CHR ''/'' # r)"
  by (auto simp: starts_with_append)

lemma partition_matches_iff:
  "partition_matches P key \<longleftrightarrow>
     key = pat_prefix P \<or>
     (\<exists>r. key = pat_prefix P @ CHR ''/'' # r \<and> pat_mode P \<noteq> Exact \<and>
        (pat_mode P = NonRecursive \<longrightarrow> CHR ''/'' \<notin> set r))"
  by (cases "pat_mode P") (auto simp: partition_matches_def starts_with_append_iff Let_def)

lemma partition_contains_iff:
  "partition_contains P C \<longleftrightarrow>
     (case pat_mode P of
        Recursive \<Rightarrow> pat_prefix C = pat_prefix P \<or>
          (\<exists>r. pat_prefix C = pat_prefix P @ CHR ''/'' # r)
      | Exact \<Rightarrow> pat_prefix C = pat_prefix P \<and> pat_mode C = Exact
      | NonRecursive \<Rightarrow>
          (case pat_mode C of
             Exact \<Rightarrow> \<exists>r. pat_prefix C = pat_prefix P @ CHR ''/'' # r \<and> CHR ''/'' \<notin> set r
           | NonRecursive \<Rightarrow> pat_prefix C = pat_prefix P
           | Recursive \<Rightarrow> False))"
  by (auto simp: partition_contains_def starts_with_append starts_with_append_iff Let_def
      split: pattern_mode.split)

lemma partition_contains_matches:
  "partition_contains P C \<Longrightarrow> partition_matches C key \<Longrightarrow> partition_matches P key"
  by (auto simp: partition_contains_iff partition_matches_iff split: pattern_mode.splits)

lemma partition_contains_refl: "partition_contains P P"
  by (auto simp: partition_contains_iff split: pattern_mode.split)

lemma partition_contains_trans:
  "partition_contains P Q \<Longrightarrow> partition_contains Q R \<Longrightarrow> partition_contains P R"
  by (auto simp: partition_contains_iff split: pattern_mode.splits)

interpretation partition: reflexive_attenuation partition_contains partition_matches
  by unfold_locales (auto intro: partition_contains_matches partition_contains_refl)

lemma memory_checks_ok:
  "is_ok (memory_read_check R key) = partition_matches (mr_partition R) key"
  "is_ok (memory_delete_check X key) = partition_matches (md_partition X) key"
  "is_ok (spawn_check_type S t) \<longleftrightarrow> t \<in> set (allowed_types S)"
  by (simp_all add: memory_read_check_def memory_delete_check_def spawn_check_type_def)

lemma memory_write_check_ok:
  "is_ok (memory_write_check W key n) \<longleftrightarrow>
     partition_matches (mw_partition W) key \<and> (\<forall>m. max_value_bytes W = Some m \<longrightarrow> n \<le> m)"
  by (auto simp: memory_write_check_def not_less split: option.split)

lemma memory_write_superset_iff:
  "memory_write_superset P C \<longleftrightarrow>
     partition_contains (mw_partition P) (mw_partition C) \<and>
     (\<forall>p. max_value_bytes P = Some p \<longrightarrow> (\<exists>c. max_value_bytes C = Some c \<and> c \<le> p))"
  by (auto simp: memory_write_superset_def split: option.split)

lemmas memory_iffs = memory_checks_ok memory_write_check_ok memory_write_superset_iff
  memory_read_superset_def memory_delete_superset_def spawn_superset_def list_all_iff

interpretation mem_read:
  reflexive_attenuation memory_read_superset "\<lambda>c key. is_ok (memory_read_check c key)"
  by unfold_locales (auto simp: memory_iffs intro: partition_contains_matches
      partition_contains_refl)

interpretation mem_delete:
  reflexive_attenuation memory_delete_superset "\<lambda>c key. is_ok (memory_delete_check c key)"
  by unfold_locales (auto simp: memory_iffs intro: partition_contains_matches
      partition_contains_refl)

interpretation mem_write:
  reflexive_attenuation memory_write_superset
    "\<lambda>c (key, value_size). is_ok (memory_write_check c key value_size)"
  by unfold_locales (auto simp: memory_iffs partition_contains_refl
      intro: partition_contains_matches order.trans)

interpretation spawn:
  reflexive_attenuation spawn_superset
    "\<lambda>c (key, t). partition_matches (partition_prefix c) key \<and> is_ok (spawn_check_type c t)"
  by unfold_locales (auto simp: memory_iffs partition_contains_refl
      intro: partition_contains_matches split: if_splits)

section \<open>Properties\<close>

text \<open>Matching works on whole path segments: an exact pattern matches its own path only, a
  recursive one exactly the paths that extend its segments, a non-recursive one those that extend
  them by at most one segment. In particular \<open>user/alice/**\<close> never matches \<open>user/alicexxx\<close>.\<close>

theorem partition_matches_segments:
  "partition_matches P key =
     (case pat_mode P of
        Exact \<Rightarrow> split_on CHR ''/'' key = split_on CHR ''/'' (pat_prefix P)
      | NonRecursive \<Rightarrow>
          (\<exists>rest. split_on CHR ''/'' key = split_on CHR ''/'' (pat_prefix P) @ rest \<and>
             length rest \<le> 1)
      | Recursive \<Rightarrow>
          (\<exists>rest. split_on CHR ''/'' key = split_on CHR ''/'' (pat_prefix P) @ rest))"
proof -
  have ext: "(\<exists>rest. split_on c key = split_on c s @ rest \<and> Q (length rest)) \<longleftrightarrow>
      (key = s \<and> Q 0) \<or> (\<exists>r. key = s @ c # r \<and> Q (length (split_on c r)))" for c s Q
  proof
    assume "\<exists>rest. split_on c key = split_on c s @ rest \<and> Q (length rest)"
    then obtain rest where rest: "split_on c key = split_on c s @ rest" "Q (length rest)" by blast
    show "(key = s \<and> Q 0) \<or> (\<exists>r. key = s @ c # r \<and> Q (length (split_on c r)))"
    proof (cases "rest = []")
      case True
      with rest show ?thesis by (simp add: split_on_inject)
    next
      case False
      have key: "key = s @ c # join_on c rest"
        using join_on_split_on [of c key] join_on_append [OF split_on_nonempty False, of c c s]
        by (simp add: rest(1))
      with rest(1) have "split_on c (join_on c rest) = rest" by simp
      with key rest(2) show ?thesis by auto
    qed
  qed auto
  show ?thesis
  proof (cases "pat_mode P")
    case Exact
    then show ?thesis by (simp add: partition_matches_iff split_on_inject)
  next
    case NonRecursive
    have "length (split_on CHR ''/'' r) \<le> 1 \<longleftrightarrow> CHR ''/'' \<notin> set r" for r
      using split_on_single [of "CHR ''/''" r] split_on_nonempty [of "CHR ''/''" r]
      by (cases "split_on CHR ''/'' r") auto
    with NonRecursive ext [of "CHR ''/''" "pat_prefix P" "\<lambda>n. n \<le> 1"] show ?thesis
      by (simp add: partition_matches_iff)
  next
    case Recursive
    with ext [of "CHR ''/''" "pat_prefix P" "\<lambda>_. True"] show ?thesis
      by (simp add: partition_matches_iff)
  qed
qed

text \<open>Containment of partition patterns is sound along whole delegation chains: a key matched by
  the last pattern of a chain of accepted delegations is matched by the first.\<close>

theorem partition_chain_sound:
  assumes "delegation_chain partition_contains (p # ps)"
    and "partition_matches (last (p # ps)) key"
  shows "partition_matches p key"
  using assms by (rule partition.chain_last_allows)

theorem partition_chain_sound_witness:
  "partition_matches (partition_new ''tenant/**'') ''tenant/alice/foo''"
  by (rule partition_chain_sound [where ps =
      "[partition_new ''tenant/alice/*'', partition_new ''tenant/alice/foo'']"])
    (simp_all add: partition_new_def strip_suffix_def suffix_def partition_contains_def
      partition_matches_def starts_with_def)

text \<open>For recursive parents the check is complete: a pattern that only matches keys that the
  parent matches is contained in it.\<close>

theorem partition_contains_complete:
  assumes "pat_mode P = Recursive" and "\<forall>key. partition_matches C key \<longrightarrow> partition_matches P key"
  shows "partition_contains P C"
proof -
  have "partition_matches C (pat_prefix C)" by (simp add: partition_matches_iff)
  with assms have "partition_matches P (pat_prefix C)" by blast
  with assms(1) show ?thesis by (auto simp: partition_contains_iff partition_matches_iff)
qed

theorem partition_contains_complete_witness:
  "partition_contains (partition_new ''a/**'') (partition_new ''a/*'')"
  by (rule partition_contains_complete)
    (auto simp: partition_new_def strip_suffix_def suffix_def partition_matches_iff)

text \<open>A non-recursive pattern matches its own prefix but does not contain the exact pattern of
  that prefix: the comment in \<open>contains\<close>, that a non-recursive pattern requires one more
  segment, disagrees with \<open>matches\<close>.\<close>

theorem partition_contains_nonrecursive_gap:
  "\<not> partition_contains \<lparr>pat_prefix = p, pat_mode = NonRecursive\<rparr> \<lparr>pat_prefix = p, pat_mode = Exact\<rparr>
   \<and> {key. partition_matches \<lparr>pat_prefix = p, pat_mode = Exact\<rparr> key}
       \<subseteq> {key. partition_matches \<lparr>pat_prefix = p, pat_mode = NonRecursive\<rparr> key}"
  by (auto simp: partition_matches_iff partition_contains_iff)

text \<open>A delegated write capability never allows more: along a chain of accepted delegations,
  every write the last capability allows (key and value size) the first allows too.\<close>

theorem memory_write_chain_sound:
  assumes "delegation_chain memory_write_superset (p # cs)"
    and "memory_write_check (last (p # cs)) key n = Ok ()"
  shows "memory_write_check p key n = Ok ()"
  using mem_write.chain_last_allows [OF assms(1), of "(key, n)"] assms(2)
  by (simp add: is_ok_unit)

theorem memory_write_chain_sound_witness:
  "memory_write_check (memory_write_new ''t/**'') ''t/k'' 5 = Ok ()"
  by (rule memory_write_chain_sound [where cs =
      "[memory_write_with_max_bytes ''t/*'' 100, memory_write_with_max_bytes ''t/k'' 10]"])
    (simp_all add: memory_write_new_def memory_write_with_max_bytes_def partition_new_def
      strip_suffix_def suffix_def memory_write_superset_def partition_contains_def
      memory_write_check_def partition_matches_def starts_with_def)

text \<open>The glob constructor reads the three forms of a pattern.\<close>

theorem partition_new_forms:
  "partition_new (p @ ''/**'') = \<lparr>pat_prefix = p, pat_mode = Recursive\<rparr> \<and>
   partition_new (p @ ''/*'') = \<lparr>pat_prefix = p, pat_mode = NonRecursive\<rparr> \<and>
   (CHR ''*'' \<notin> set p \<longrightarrow> partition_new p = \<lparr>pat_prefix = p, pat_mode = Exact\<rparr>)"
proof -
  have "strip_suffix (p @ ''/*'') ''/**'' = None" for p
    by (cases p rule: rev_cases) (auto simp: strip_suffix_def suffix_def)
  moreover have "strip_suffix (p @ x) x = Some p" for p x
    by (simp add: strip_suffix_def suffix_def)
  moreover have "CHR ''*'' \<notin> set p \<Longrightarrow> CHR ''*'' \<in> set x \<Longrightarrow> strip_suffix p x = None" for x
    by (auto simp: strip_suffix_def suffix_def)
  ultimately show ?thesis by (simp add: partition_new_def)
qed

theorem partition_new_forms_witness:
  "partition_new ''tenant/alice'' = \<lparr>pat_prefix = ''tenant/alice'', pat_mode = Exact\<rparr>"
  using partition_new_forms [of "''tenant/alice''"] by simp

end
