(* ===== verification/Capabilities.thy ===== *)
theory Capabilities
  imports Constraints Partition
begin

text \<open>
  Tool-call capabilities and the capability set of a session,
  \<open>crates/amla-protocol-capabilities/src/lib.rs\<close>.
\<close>

section \<open>Definitions\<close>

text \<open>\<open>Display\<close> of a constraint error, and its conversion into a capability error.\<close>

fun display_constraint_error :: "constraint_error \<Rightarrow> string" where
  "display_constraint_error (MissingParam p) = ''Missing parameter: '' @ p"
| "display_constraint_error (TypeMismatch p e a) =
     ''Type mismatch for '' @ p @ '': expected '' @ e @ '', got '' @ a"
| "display_constraint_error (Violation p r a) =
     ''Constraint violation: '' @ p @ '' '' @ r @ '', actual: '' @ a"

definition from_constraint_error :: "constraint_error \<Rightarrow> capability_error" where
  "from_constraint_error e = ConstraintViolation (display_constraint_error e)"

record 'n tool_call_cap =
  tool :: string
  tc_constraints :: "'n constraint_set"

definition tool_call_new :: "string \<Rightarrow> 'n tool_call_cap" where
  "tool_call_new t = \<lparr>tool = t, tc_constraints = []\<rparr>"

definition tool_call_with_constraints :: "string \<Rightarrow> 'n constraint_set \<Rightarrow> 'n tool_call_cap" where
  "tool_call_with_constraints t cs = \<lparr>tool = t, tc_constraints = cs\<rparr>"

definition tool_call_check ::
  "'n serde_json \<Rightarrow> 'n tool_call_cap \<Rightarrow> 'n json \<Rightarrow> (unit, capability_error) result" where
  "tool_call_check D self params =
     map_err from_constraint_error (evaluate_set D params (tc_constraints self))"

definition tool_call_superset ::
  "'n serde_json \<Rightarrow> 'n tool_call_cap \<Rightarrow> 'n tool_call_cap \<Rightarrow> bool" where
  "tool_call_superset D self child =
     (tool self = tool child \<and> set_subsumes D (tc_constraints self) (tc_constraints child))"

record 'n capability_set =
  tool_calls :: "'n tool_call_cap list"
  memory_reads :: "memory_read_cap list"
  memory_writes :: "memory_write_cap list"
  memory_deletes :: "memory_delete_cap list"
  spawns :: "spawn_cap list"

definition capability_set_new :: "'n capability_set" where
  "capability_set_new = \<lparr>tool_calls = [], memory_reads = [], memory_writes = [],
     memory_deletes = [], spawns = []\<rparr>"

definition add_tool_call :: "'n tool_call_cap \<Rightarrow> 'n capability_set \<Rightarrow> 'n capability_set" where
  "add_tool_call cap self = self\<lparr>tool_calls := tool_calls self @ [cap]\<rparr>"

definition add_memory_read :: "memory_read_cap \<Rightarrow> 'n capability_set \<Rightarrow> 'n capability_set" where
  "add_memory_read cap self = self\<lparr>memory_reads := memory_reads self @ [cap]\<rparr>"

definition add_memory_write :: "memory_write_cap \<Rightarrow> 'n capability_set \<Rightarrow> 'n capability_set" where
  "add_memory_write cap self = self\<lparr>memory_writes := memory_writes self @ [cap]\<rparr>"

definition add_memory_delete :: "memory_delete_cap \<Rightarrow> 'n capability_set \<Rightarrow> 'n capability_set" where
  "add_memory_delete cap self = self\<lparr>memory_deletes := memory_deletes self @ [cap]\<rparr>"

definition add_spawn :: "spawn_cap \<Rightarrow> 'n capability_set \<Rightarrow> 'n capability_set" where
  "add_spawn cap self = self\<lparr>spawns := spawns self @ [cap]\<rparr>"

text \<open>The loop returns the verdict of the first capability for the tool.\<close>

fun check_tool_caps ::
  "'n serde_json \<Rightarrow> 'n tool_call_cap list \<Rightarrow> string \<Rightarrow> 'n json
    \<Rightarrow> (unit, capability_error) result" where
  "check_tool_caps D [] t params = Err (TypeNotAllowed (''No capability for tool: '' @ t))"
| "check_tool_caps D (cap # caps) t params =
     (if tool cap = t then tool_call_check D cap params else check_tool_caps D caps t params)"

definition check_tool_call ::
  "'n serde_json \<Rightarrow> 'n capability_set \<Rightarrow> string \<Rightarrow> 'n json
    \<Rightarrow> (unit, capability_error) result" where
  "check_tool_call D self t params = check_tool_caps D (tool_calls self) t params"

definition check_memory_read ::
  "'n capability_set \<Rightarrow> string \<Rightarrow> (unit, capability_error) result" where
  "check_memory_read self key =
     (if list_ex (\<lambda>cap. is_ok (memory_read_check cap key)) (memory_reads self) then Ok ()
      else Err (PartitionDenied key))"

definition check_memory_write ::
  "'n capability_set \<Rightarrow> string \<Rightarrow> u64 \<Rightarrow> (unit, capability_error) result" where
  "check_memory_write self key value_size =
     (if list_ex (\<lambda>cap. is_ok (memory_write_check cap key value_size)) (memory_writes self)
      then Ok () else Err (PartitionDenied key))"

definition check_memory_delete ::
  "'n capability_set \<Rightarrow> string \<Rightarrow> (unit, capability_error) result" where
  "check_memory_delete self key =
     (if list_ex (\<lambda>cap. is_ok (memory_delete_check cap key)) (memory_deletes self) then Ok ()
      else Err (PartitionDenied key))"

section \<open>Facts\<close>

lemma check_tool_caps_append:
  "check_tool_caps D (xs @ ys) t params =
     (if list_ex (\<lambda>c. tool c = t) xs then check_tool_caps D xs t params
      else check_tool_caps D ys t params)"
  by (induction xs) auto

lemma check_tool_caps_found:
  "check_tool_caps D caps t params = Ok () \<Longrightarrow>
     \<exists>cap \<in> set caps. tool cap = t \<and> tool_call_check D cap params = Ok ()"
  by (induction caps) (auto split: if_splits)

lemma tool_call_check_ok:
  "tool_call_check D cap params = Ok () \<longleftrightarrow> (\<forall>c \<in> set (tc_constraints cap). sat D params c)"
  by (simp add: tool_call_check_def evaluate_set_Ok)

section \<open>Properties\<close>

text \<open>C31. A tool call is allowed only by a capability of the set for that very tool whose
  constraints all hold of the parameters; without one it is refused.\<close>

theorem check_tool_call_authorised:
  assumes "check_tool_call D S t params = Ok ()"
  shows "\<exists>cap \<in> set (tool_calls S). tool cap = t \<and>
           (\<forall>c \<in> set (tc_constraints cap). evaluate D params c = Ok ())"
  using check_tool_caps_found [of D "tool_calls S" t params] assms
  by (auto simp: check_tool_call_def tool_call_check_ok sat_def is_ok_unit)

theorem check_tool_call_authorised_witness:
  "\<exists>cap \<in> set (tool_calls (add_tool_call (tool_call_new ''ls'') capability_set_new)).
     tool cap = ''ls'' \<and>
     (\<forall>c \<in> set (tc_constraints cap). evaluate int_serde JNull c = Ok ())"
  by (rule check_tool_call_authorised)
    (simp add: check_tool_call_def add_tool_call_def capability_set_new_def tool_call_new_def
      tool_call_check_def evaluate_set_def)

text \<open>The first capability for a tool decides: a capability added for a tool the set already
  covers changes no decision, and one for a new tool changes only that tool's decisions.\<close>

theorem add_tool_call_effect:
  "check_tool_call D (add_tool_call cap S) t params =
     (if list_ex (\<lambda>c. tool c = t) (tool_calls S) then check_tool_call D S t params
      else if tool cap = t then tool_call_check D cap params
      else check_tool_call D S t params)"
proof -
  have none: "\<not> list_ex (\<lambda>c. tool c = t) xs \<Longrightarrow>
      check_tool_caps D xs t params = Err (TypeNotAllowed (''No capability for tool: '' @ t))"
    for xs :: "'a tool_call_cap list"
    by (induction xs) auto
  show ?thesis
    by (simp add: check_tool_call_def add_tool_call_def check_tool_caps_append none)
qed

text \<open>A set whose memory capabilities are each accepted as a child of some capability of another
  set allows no read, write or delete that the other set refuses.\<close>

theorem memory_set_attenuation:
  assumes "\<forall>c \<in> set (memory_reads C). \<exists>p \<in> set (memory_reads P). memory_read_superset p c"
    and "\<forall>c \<in> set (memory_writes C). \<exists>p \<in> set (memory_writes P). memory_write_superset p c"
    and "\<forall>c \<in> set (memory_deletes C). \<exists>p \<in> set (memory_deletes P). memory_delete_superset p c"
  shows "{key. check_memory_read C key = Ok ()} \<subseteq> {key. check_memory_read P key = Ok ()} \<and>
    {(key, n). check_memory_write C key n = Ok ()} \<subseteq> {(key, n). check_memory_write P key n = Ok ()} \<and>
    {key. check_memory_delete C key = Ok ()} \<subseteq> {key. check_memory_delete P key = Ok ()}"
proof (intro conjI subsetI)
  fix key assume "key \<in> {key. check_memory_read C key = Ok ()}"
  then show "key \<in> {key. check_memory_read P key = Ok ()}"
    using assms(1) mem_read.superset_sound
    by (fastforce simp: check_memory_read_def list_ex_iff split: if_splits)
next
  fix r assume "r \<in> {(key, n). check_memory_write C key n = Ok ()}"
  then show "r \<in> {(key, n). check_memory_write P key n = Ok ()}"
    using assms(2) mem_write.superset_sound
    by (fastforce simp: check_memory_write_def list_ex_iff split: if_splits)
next
  fix key assume "key \<in> {key. check_memory_delete C key = Ok ()}"
  then show "key \<in> {key. check_memory_delete P key = Ok ()}"
    using assms(3) mem_delete.superset_sound
    by (fastforce simp: check_memory_delete_def list_ex_iff split: if_splits)
qed

theorem memory_set_attenuation_witness:
  "check_memory_read (add_memory_read (memory_read_new ''t/**'') capability_set_new) ''t/a'' = Ok ()"
proof -
  let ?P = "add_memory_read (memory_read_new ''t/**'') capability_set_new"
  let ?C = "add_memory_read (memory_read_new ''t/*'') capability_set_new"
  have "check_memory_read ?C ''t/a'' = Ok ()"
    by (simp add: check_memory_read_def add_memory_read_def capability_set_new_def
        memory_read_new_def partition_new_def strip_suffix_def suffix_def memory_read_check_def
        partition_matches_def starts_with_def)
  moreover have "{key. check_memory_read ?C key = Ok ()} \<subseteq> {key. check_memory_read ?P key = Ok ()}"
    by (rule conjunct1 [OF memory_set_attenuation])
      (simp_all add: add_memory_read_def capability_set_new_def memory_read_new_def
        partition_new_def strip_suffix_def suffix_def memory_read_superset_def
        partition_contains_def starts_with_def)
  ultimately show ?thesis by blast
qed

end
