(* ===== verification/Identity.thy ===== *)
theory Identity
  imports Prelude
begin

text \<open>
  Keys, signatures and hashes of \<open>crates/amla-protocol/src\<close>: \<open>error.rs\<close>, \<open>identity.rs\<close> and
  \<open>hash.rs\<close>. The primitives are third-party crates (\<open>ed25519_dalek\<close>, \<open>sha2\<close>, \<open>hex\<close>); they are
  the fields of the record \<open>crypto\<close>, and what the program relies on of them is stated by
  \<open>hex_laws\<close> and \<open>signature_laws\<close>. Rust's \<open>[u8; N]\<close> is a byte list whose length is the
  invariant \<open>wf_public_key\<close>, \<open>wf_signature\<close>, \<open>wf_hash\<close>.
\<close>

section \<open>Errors\<close>

datatype algorithm = Ed25519

datatype protocol_error =
    InvalidKeyLength nat nat
  | InvalidSignatureLength nat
  | InvalidHashLength nat
  | InvalidHex string
  | SignatureVerificationFailed
  | InvalidAlgorithm string
  | InvalidKeyFormat string
  | AlgorithmMismatch algorithm algorithm
  | InvalidVersion string
  | CborSerialize string
  | CborDeserialize string
  | InvalidPca string
  | PcaExpired string
  | MissingField string
  | DuplicateCapabilityKey string
  | InvalidCapability string
  | CapabilityTypeMismatch string string
  | PayloadTooLarge nat nat
  | ChainTooDeep nat nat

fun algorithm_as_str :: "algorithm \<Rightarrow> string" where
  "algorithm_as_str Ed25519 = ''ed25519''"

fun display_error :: "protocol_error \<Rightarrow> string" where
  "display_error (InvalidKeyLength e g) =
     ''invalid key length: expected '' @ show_nat e @ '' bytes, got '' @ show_nat g"
| "display_error (InvalidSignatureLength n) =
     ''invalid signature length: got '' @ show_nat n @ '' bytes''"
| "display_error (InvalidHashLength n) =
     ''invalid hash length: expected 32 bytes, got '' @ show_nat n"
| "display_error (InvalidHex s) = ''invalid hex string: '' @ s"
| "display_error SignatureVerificationFailed = ''signature verification failed''"
| "display_error (InvalidAlgorithm s) = ''invalid algorithm: '' @ s"
| "display_error (InvalidKeyFormat s) = ''invalid key format: '' @ s"
| "display_error (AlgorithmMismatch e g) =
     ''algorithm mismatch: expected '' @ algorithm_as_str e @ '', got '' @ algorithm_as_str g"
| "display_error (InvalidVersion s) = ''invalid version: '' @ s"
| "display_error (CborSerialize s) = ''CBOR serialization error: '' @ s"
| "display_error (CborDeserialize s) = ''CBOR deserialization error: '' @ s"
| "display_error (InvalidPca s) = ''invalid PCA: '' @ s"
| "display_error (PcaExpired s) = ''PCA expired at '' @ s"
| "display_error (MissingField s) = ''missing required field: '' @ s"
| "display_error (DuplicateCapabilityKey s) = ''duplicate capability key: '' @ s"
| "display_error (InvalidCapability s) = ''invalid capability: '' @ s"
| "display_error (CapabilityTypeMismatch e g) =
     ''capability type mismatch: expected '' @ e @ '', got '' @ g"
| "display_error (PayloadTooLarge n l) =
     ''payload size '' @ show_nat n @ '' bytes exceeds limit of '' @ show_nat l @ '' bytes''"
| "display_error (ChainTooDeep n l) =
     ''chain depth '' @ show_nat n @ '' exceeds limit of '' @ show_nat l"

section \<open>The primitives\<close>

text \<open>
  \<open>hex_decode\<close> is \<open>hex::decode_to_slice\<close>, its error already rendered. \<open>ed25519_verify pk m s\<close>
  holds when \<open>VerifyingKey::from_bytes\<close> accepts the key and \<open>verify\<close> the signature; the code maps
  both failures to the same error.
\<close>

record crypto =
  hex_encode :: "bytes \<Rightarrow> string"
  hex_decode :: "string \<Rightarrow> (bytes, string) result"
  ed25519_public :: "bytes \<Rightarrow> bytes"
  ed25519_sign :: "bytes \<Rightarrow> bytes \<Rightarrow> bytes"
  ed25519_verify :: "bytes \<Rightarrow> bytes \<Rightarrow> bytes \<Rightarrow> bool"
  sha256 :: "bytes \<Rightarrow> bytes"

definition hex_laws :: "'a crypto_scheme \<Rightarrow> bool" where
  "hex_laws K \<longleftrightarrow>
     (\<forall>b. hex_decode K (hex_encode K b) = Ok b \<and> length (hex_encode K b) = 2 * length b) \<and>
     (\<forall>s b. hex_decode K s = Ok b \<longrightarrow> length s = 2 * length b)"

definition signature_laws :: "'a crypto_scheme \<Rightarrow> bool" where
  "signature_laws K \<longleftrightarrow>
     (\<forall>seed m. ed25519_verify K (ed25519_public K seed) m (ed25519_sign K seed m))"

section \<open>Algorithms\<close>

definition algorithm_parse :: "string \<Rightarrow> (algorithm, protocol_error) result" where
  "algorithm_parse s = (if s = ''ed25519'' then Ok Ed25519 else Err (InvalidAlgorithm s))"

definition algorithm_from_u8 :: "u8 \<Rightarrow> (algorithm, protocol_error) result" where
  "algorithm_from_u8 v =
     (if v = 0 then Ok Ed25519
      else Err (InvalidAlgorithm (''unknown algorithm id: '' @ show_nat (unat v))))"

text \<open>\<open>str::split_once\<close>.\<close>

fun split_once :: "'a \<Rightarrow> 'a list \<Rightarrow> ('a list \<times> 'a list) option" where
  "split_once c [] = None"
| "split_once c (x # xs) =
     (if x = c then Some ([], xs)
      else map_option (\<lambda>(a, b). (x # a, b)) (split_once c xs))"

section \<open>Public keys\<close>

datatype public_key = PkEd25519 (pk_bytes: bytes)

definition wf_public_key :: "public_key \<Rightarrow> bool" where
  "wf_public_key pk = (length (pk_bytes pk) = 32)"

definition public_key_new :: "algorithm \<Rightarrow> bytes \<Rightarrow> (public_key, protocol_error) result" where
  "public_key_new alg b =
     (case alg of Ed25519 \<Rightarrow>
        if length b \<noteq> 32 then Err (InvalidKeyLength 32 (length b)) else Ok (PkEd25519 b))"

definition public_key_algorithm :: "public_key \<Rightarrow> algorithm" where
  "public_key_algorithm pk = (case pk of PkEd25519 _ \<Rightarrow> Ed25519)"

definition public_key_to_hex :: "'a crypto_scheme \<Rightarrow> public_key \<Rightarrow> string" where
  "public_key_to_hex K pk =
     algorithm_as_str (public_key_algorithm pk) @ '':'' @ hex_encode K (pk_bytes pk)"

definition public_key_from_hex ::
  "'a crypto_scheme \<Rightarrow> string \<Rightarrow> (public_key, protocol_error) result" where
  "public_key_from_hex K s =
     and_then (ok_or (InvalidKeyFormat ''missing algorithm prefix'') (split_once CHR '':'' s))
       (\<lambda>(algo_str, hex_bytes).
         and_then (algorithm_parse algo_str) (\<lambda>alg.
           case alg of Ed25519 \<Rightarrow>
             if odd (length hex_bytes) then
               Err (InvalidKeyFormat ''hex string must have even length'')
             else if length hex_bytes \<noteq> 64 then
               Err (InvalidKeyLength 32 (length hex_bytes div 2))
             else map_ok PkEd25519 (map_err InvalidHex (hex_decode K hex_bytes))))"

section \<open>Signatures\<close>

datatype signature = SigEd25519 (sig_bytes: bytes)

definition wf_signature :: "signature \<Rightarrow> bool" where
  "wf_signature s = (length (sig_bytes s) = 64)"

definition signature_new :: "algorithm \<Rightarrow> bytes \<Rightarrow> (signature, protocol_error) result" where
  "signature_new alg b =
     (case alg of Ed25519 \<Rightarrow>
        if length b \<noteq> 64 then Err (InvalidSignatureLength (length b)) else Ok (SigEd25519 b))"

definition signature_placeholder :: signature where
  "signature_placeholder = SigEd25519 (replicate 64 0)"

definition signature_algorithm :: "signature \<Rightarrow> algorithm" where
  "signature_algorithm s = (case s of SigEd25519 _ \<Rightarrow> Ed25519)"

definition signature_to_hex :: "'a crypto_scheme \<Rightarrow> signature \<Rightarrow> string" where
  "signature_to_hex K s =
     algorithm_as_str (signature_algorithm s) @ '':'' @ hex_encode K (sig_bytes s)"

definition signature_from_hex ::
  "'a crypto_scheme \<Rightarrow> string \<Rightarrow> (signature, protocol_error) result" where
  "signature_from_hex K s =
     and_then (ok_or (InvalidKeyFormat ''missing algorithm prefix'') (split_once CHR '':'' s))
       (\<lambda>(algo_str, hex_bytes).
         and_then (algorithm_parse algo_str) (\<lambda>alg.
           case alg of Ed25519 \<Rightarrow>
             if odd (length hex_bytes) then
               Err (InvalidKeyFormat ''hex string must have even length'')
             else if length hex_bytes \<noteq> 128 then
               Err (InvalidSignatureLength (length hex_bytes div 2))
             else map_ok SigEd25519 (map_err InvalidHex (hex_decode K hex_bytes))))"

definition public_key_verify ::
  "'a crypto_scheme \<Rightarrow> public_key \<Rightarrow> bytes \<Rightarrow> signature \<Rightarrow> (unit, protocol_error) result" where
  "public_key_verify K pk message sig =
     (if public_key_algorithm pk \<noteq> signature_algorithm sig then
        Err (AlgorithmMismatch (public_key_algorithm pk) (signature_algorithm sig))
      else if ed25519_verify K (pk_bytes pk) message (sig_bytes sig) then Ok ()
      else Err SignatureVerificationFailed)"

section \<open>Key pairs\<close>

datatype keypair = KpEd25519 (kp_seed: bytes)

definition keypair_from_seed :: "algorithm \<Rightarrow> bytes \<Rightarrow> keypair" where
  "keypair_from_seed alg seed = (case alg of Ed25519 \<Rightarrow> KpEd25519 seed)"

text \<open>\<open>domain\<close> holds the string's UTF-8 bytes.\<close>

definition keypair_from_seed_with_domain ::
  "'a crypto_scheme \<Rightarrow> algorithm \<Rightarrow> bytes \<Rightarrow> bytes \<Rightarrow> keypair" where
  "keypair_from_seed_with_domain K alg seed domain = keypair_from_seed alg (sha256 K (domain @ seed))"

definition keypair_public_key :: "'a crypto_scheme \<Rightarrow> keypair \<Rightarrow> public_key" where
  "keypair_public_key K kp = PkEd25519 (ed25519_public K (kp_seed kp))"

definition keypair_sign :: "'a crypto_scheme \<Rightarrow> keypair \<Rightarrow> bytes \<Rightarrow> signature" where
  "keypair_sign K kp message = SigEd25519 (ed25519_sign K (kp_seed kp) message)"

section \<open>Hashes\<close>

datatype pca_hash = PcaHash (hash_bytes: bytes)

definition wf_hash :: "pca_hash \<Rightarrow> bool" where
  "wf_hash h = (length (hash_bytes h) = 32)"

definition hash_new :: "bytes \<Rightarrow> (pca_hash, protocol_error) result" where
  "hash_new b = (if length b \<noteq> 32 then Err (InvalidHashLength (length b)) else Ok (PcaHash b))"

definition hash_compute :: "'a crypto_scheme \<Rightarrow> bytes \<Rightarrow> pca_hash" where
  "hash_compute K d = PcaHash (sha256 K d)"

definition hash_to_hex :: "'a crypto_scheme \<Rightarrow> pca_hash \<Rightarrow> string" where
  "hash_to_hex K h = hex_encode K (hash_bytes h)"

definition hash_from_hex :: "'a crypto_scheme \<Rightarrow> string \<Rightarrow> (pca_hash, protocol_error) result" where
  "hash_from_hex K s =
     (if length s \<noteq> 64 then Err (InvalidHashLength (length s div 2))
      else map_ok PcaHash (map_err InvalidHex (hex_decode K s)))"

section \<open>Facts\<close>

lemma split_once_append: "c \<notin> set a \<Longrightarrow> split_once c (a @ c # b) = Some (a, b)"
  by (induction a) auto

lemma public_key_hex_roundtrip:
  "hex_laws K \<Longrightarrow> wf_public_key pk \<Longrightarrow> public_key_from_hex K (public_key_to_hex K pk) = Ok pk"
  using split_once_append [of "CHR '':''" "''ed25519''" "hex_encode K (pk_bytes pk)"]
  by (cases pk) (simp add: public_key_from_hex_def public_key_to_hex_def algorithm_parse_def
      public_key_algorithm_def hex_laws_def wf_public_key_def)

lemma signature_hex_roundtrip:
  "hex_laws K \<Longrightarrow> wf_signature s \<Longrightarrow> signature_from_hex K (signature_to_hex K s) = Ok s"
  using split_once_append [of "CHR '':''" "''ed25519''" "hex_encode K (sig_bytes s)"]
  by (cases s) (simp add: signature_from_hex_def signature_to_hex_def algorithm_parse_def
      signature_algorithm_def hex_laws_def wf_signature_def)

lemma hash_hex_roundtrip:
  "hex_laws K \<Longrightarrow> wf_hash h \<Longrightarrow> hash_from_hex K (hash_to_hex K h) = Ok h"
  by (cases h) (simp add: hash_from_hex_def hash_to_hex_def hex_laws_def wf_hash_def)

lemma keypair_sign_verifies [simp]:
  "signature_laws K \<Longrightarrow>
     public_key_verify K (keypair_public_key K kp) m (keypair_sign K kp m) = Ok ()"
  by (simp add: public_key_verify_def keypair_public_key_def keypair_sign_def signature_laws_def
      public_key_algorithm_def signature_algorithm_def)

lemma public_key_verify_Err:
  "public_key_verify K pk m s = Inl e \<longleftrightarrow>
     e = SignatureVerificationFailed \<and> \<not> ed25519_verify K (pk_bytes pk) m (sig_bytes s)"
  by (cases pk; cases s)
    (auto simp: public_key_verify_def public_key_algorithm_def signature_algorithm_def)

end
