(* ===== verification/CapabilityData.thy ===== *)
theory CapabilityData
  imports Identity
begin

text \<open>
  Opaque capabilities and the transition validators of
  \<open>crates/amla-protocol/src/capability.rs\<close>. A value of the trait \<open>TransitionValidator\<close> is a
  function from parent and child capability to a result.
\<close>

section \<open>Capability data\<close>

record capability_data =
  cap_key :: string
  capability_type :: string
  cap_data :: bytes

definition max_capability_payload_size :: nat where
  "max_capability_payload_size = 1024 * 1024"

definition capability_from_cbor_bytes ::
  "string \<Rightarrow> string \<Rightarrow> bytes \<Rightarrow> (capability_data, protocol_error) result" where
  "capability_from_cbor_bytes key ty d =
     (if length d > max_capability_payload_size then
        Err (PayloadTooLarge (length d) max_capability_payload_size)
      else Ok \<lparr>cap_key = key, capability_type = ty, cap_data = d\<rparr>)"

text \<open>\<open>encoded\<close> is the outcome of \<open>canonical_cbor_encode\<close> on the payload.\<close>

definition capability_new ::
  "string \<Rightarrow> string \<Rightarrow> (bytes, protocol_error) result \<Rightarrow> (capability_data, protocol_error) result"
  where
  "capability_new key ty encoded =
     and_then encoded (\<lambda>d.
       if length d > max_capability_payload_size then
         Err (PayloadTooLarge (length d) max_capability_payload_size)
       else Ok \<lparr>cap_key = key, capability_type = ty, cap_data = d\<rparr>)"

text \<open>The loop of \<open>find_duplicate_capability_key\<close> over the keys, with the set \<open>seen\<close>.\<close>

fun find_duplicate :: "string set \<Rightarrow> capability_data list \<Rightarrow> string option" where
  "find_duplicate seen [] = None"
| "find_duplicate seen (cap # caps) =
     (if cap_key cap \<in> seen then Some (cap_key cap)
      else find_duplicate (insert (cap_key cap) seen) caps)"

definition find_duplicate_capability_key :: "capability_data list \<Rightarrow> string option" where
  "find_duplicate_capability_key caps = find_duplicate {} caps"

section \<open>Validators\<close>

record transition_error =
  reason :: string

type_synonym validator =
  "capability_data \<Rightarrow> capability_data \<Rightarrow> (unit, transition_error) result"

definition permissive_validate :: validator where
  "permissive_validate parent child = Ok ()"

definition strict_validate :: validator where
  "strict_validate parent child =
     (if parent = child then Ok () else Err \<lparr>reason = ''capabilities must be identical''\<rparr>)"

record type_dispatch_validator =
  validators :: "string \<rightharpoonup> validator"
  fallback :: "validator option"

definition type_dispatch_new :: type_dispatch_validator where
  "type_dispatch_new = \<lparr>validators = Map.empty, fallback = None\<rparr>"

definition type_dispatch_register ::
  "string \<Rightarrow> validator \<Rightarrow> type_dispatch_validator \<Rightarrow> type_dispatch_validator" where
  "type_dispatch_register ty v self = self\<lparr>validators := (validators self)(ty \<mapsto> v)\<rparr>"

definition type_dispatch_with_fallback ::
  "validator \<Rightarrow> type_dispatch_validator \<Rightarrow> type_dispatch_validator" where
  "type_dispatch_with_fallback v self = self\<lparr>fallback := Some v\<rparr>"

definition type_dispatch_validate :: "type_dispatch_validator \<Rightarrow> validator" where
  "type_dispatch_validate self parent child =
     (if capability_type parent \<noteq> capability_type child then
        Err \<lparr>reason = ''capability type mismatch: parent='' @ squoted (capability_type parent) @
          '', child='' @ squoted (capability_type child)\<rparr>
      else
        (case validators self (capability_type parent) of
           Some v \<Rightarrow> v parent child
         | None \<Rightarrow>
            (case fallback self of
               Some v \<Rightarrow> v parent child
             | None \<Rightarrow> Err \<lparr>reason = ''no validator registered for capability type '' @
                 squoted (capability_type parent)\<rparr>)))"

section \<open>Facts\<close>

lemma find_duplicate_None:
  "find_duplicate seen caps = None \<longleftrightarrow>
     distinct (map cap_key caps) \<and> set (map cap_key caps) \<inter> seen = {}"
  by (induction caps arbitrary: seen) auto

lemma find_duplicate_capability_key_None:
  "find_duplicate_capability_key caps = None \<longleftrightarrow> distinct (map cap_key caps)"
  by (simp add: find_duplicate_capability_key_def find_duplicate_None)

lemma find_duplicate_Some:
  "find_duplicate seen caps = Some k \<Longrightarrow>
     \<exists>i < length caps. cap_key (caps ! i) = k \<and> (k \<in> seen \<or> k \<in> cap_key ` set (take i caps))"
proof (induction caps arbitrary: seen)
  case Nil
  then show ?case by simp
next
  case (Cons c caps)
  show ?case
  proof (cases "cap_key c \<in> seen")
    case True
    with Cons.prems show ?thesis by (auto intro!: exI [of _ 0])
  next
    case False
    with Cons.prems have "find_duplicate (insert (cap_key c) seen) caps = Some k" by simp
    then obtain i where i: "i < length caps" "cap_key (caps ! i) = k"
      "k \<in> insert (cap_key c) seen \<or> k \<in> cap_key ` set (take i caps)"
      using Cons.IH by blast
    then show ?thesis by (auto intro!: exI [of _ "Suc i"])
  qed
qed

section \<open>The contract of a validator\<close>

text \<open>
  What chain validation may conclude from a validator: acceptance implies an order \<open>le\<close> between
  child and parent, which is reflexive and transitive and so composes along a chain.
\<close>

locale transition_contract =
  fixes validate :: validator
    and le :: "capability_data \<Rightarrow> capability_data \<Rightarrow> bool"
  assumes accepted_le: "validate parent child = Ok () \<Longrightarrow> le child parent"
    and le_refl: "le c c"
    and le_trans: "le a b \<Longrightarrow> le b c \<Longrightarrow> le a c"

interpretation strict: transition_contract strict_validate "(=)"
  by unfold_locales (auto simp: strict_validate_def split: if_splits)

interpretation dispatch: transition_contract "type_dispatch_validate V"
    "\<lambda>child parent. capability_type child = capability_type parent" for V
  by unfold_locales (auto simp: type_dispatch_validate_def split: if_splits)

end
