(* ===== verification/Version.thy ===== *)
theory Version
  imports Identity
begin

text \<open>Protocol versions, \<open>crates/amla-protocol/src/version.rs\<close>.\<close>

record version =
  major :: u32
  minor :: u32

definition version_new :: "u32 \<Rightarrow> u32 \<Rightarrow> version" where
  "version_new ma mi = \<lparr>major = ma, minor = mi\<rparr>"

definition protocol_version :: version where
  "protocol_version = version_new 0 1"

definition is_compatible_with :: "version \<Rightarrow> version \<Rightarrow> bool" where
  "is_compatible_with self other = (major self = major other)"

definition version_to_tuple :: "version \<Rightarrow> u32 \<times> u32" where
  "version_to_tuple self = (major self, minor self)"

definition version_from_tuple :: "u32 \<times> u32 \<Rightarrow> version" where
  "version_from_tuple t = version_new (fst t) (snd t)"

text \<open>\<open>str::parse::<u32>\<close>: the value must fit in 32 bits.\<close>

definition parse_u32 :: "string \<Rightarrow> u32 option" where
  "parse_u32 s =
     (case read_nat s of
        None \<Rightarrow> None
      | Some n \<Rightarrow> if n < 2 ^ 32 then Some (of_nat n) else None)"

definition version_parse :: "string \<Rightarrow> (version, protocol_error) result" where
  "version_parse s =
     (let parts = split_on CHR ''.'' s in
      if length parts \<noteq> 2 then
        Err (InvalidVersion (''expected format '' @ squoted ''major.minor'' @ '', got '' @ squoted s))
      else
        and_then (ok_or (InvalidVersion (''invalid major version: '' @ squoted (parts ! 0)))
            (parse_u32 (parts ! 0))) (\<lambda>ma.
        and_then (ok_or (InvalidVersion (''invalid minor version: '' @ squoted (parts ! 1)))
            (parse_u32 (parts ! 1))) (\<lambda>mi.
        Ok (version_new ma mi))))"

definition version_display :: "version \<Rightarrow> string" where
  "version_display v = show_nat (unat (major v)) @ ''.'' @ show_nat (unat (minor v))"

lemma parse_u32_show [simp]: "parse_u32 (show_nat (unat w)) = Some w"
  using unsigned_less [where 'a = nat, of w] by (simp add: parse_u32_def)

text \<open>Printing a version and parsing the text gives the version back, for every pair of 32-bit
  numbers.\<close>

theorem version_roundtrip:
  "version_parse (version_display v) = Ok v"
  by (cases v) (simp add: version_parse_def version_display_def version_new_def Let_def)

end
