(* ===== verification/Pca.thy ===== *)
theory Pca
  imports CapabilityData Version
begin

text \<open>
  Causal-authority tokens: designated executors (\<open>crates/amla-protocol/src/executor.rs\<close>), the
  token \<open>Pca\<close>, its wire form and its builder (\<open>pca.rs\<close>). Instants are nanoseconds as integers;
  the CBOR codec (\<open>ciborium\<close>) and the RFC 3339 text of an instant (\<open>chrono\<close>) extend the record of
  primitives.
\<close>

section \<open>Executors\<close>

record executor_characteristic =
  char_type :: string
  char_value :: string
  char_constraints :: "bytes option"

record cta_reference =
  cta_key :: public_key
  endpoint :: "string option"
  ref_payload :: "bytes option"

datatype designated_executor =
    PublicKey public_key
  | Characteristic executor_characteristic
  | CtaReference cta_reference

fun as_public_key :: "designated_executor \<Rightarrow> public_key option" where
  "as_public_key (PublicKey pk) = Some pk"
| "as_public_key _ = None"

fun as_characteristic :: "designated_executor \<Rightarrow> executor_characteristic option" where
  "as_characteristic (Characteristic c) = Some c"
| "as_characteristic _ = None"

fun as_cta_reference :: "designated_executor \<Rightarrow> cta_reference option" where
  "as_cta_reference (CtaReference r) = Some r"
| "as_cta_reference _ = None"

section \<open>Tokens and their wire form\<close>

text \<open>\<open>DateTime<Utc>\<close>, in nanoseconds from 1970. The code compares instants and writes and reads them as
  RFC 3339 text, whose years have four digits; \<open>rfc_range\<close> are the instants of the years 0 to 9999.\<close>

type_synonym datetime = int

definition rfc_range :: "datetime \<Rightarrow> bool" where
  "rfc_range t \<longleftrightarrow> -62167219200000000000 \<le> t \<and> t < 253402300800000000000"

record pca =
  pca_version :: version
  capabilities :: "capability_data list"
  designated_executor :: designated_executor
  prev_hash :: "pca_hash option"
  root_hash :: "pca_hash option"
  expires_at :: datetime
  issuer :: public_key
  pca_signature :: signature
  payload :: "bytes option"

record pca_signable =
  sg_version :: "u32 \<times> u32"
  sg_capabilities :: "capability_data list"
  sg_designated_executor :: designated_executor
  sg_prev_hash :: "string option"
  sg_root_hash :: "string option"
  sg_expires_at :: string
  sg_issuer :: string
  sg_payload :: "bytes option"

record pca_wire =
  signable :: pca_signable
  wire_signature :: string

record pca_env = crypto +
  encode_signable :: "pca_signable \<Rightarrow> (bytes, string) result"
  encode_wire :: "pca_wire \<Rightarrow> (bytes, string) result"
  decode_wire :: "bytes \<Rightarrow> (pca_wire, string) result"
  to_rfc3339 :: "datetime \<Rightarrow> string"
  parse_rfc3339 :: "string \<Rightarrow> (datetime, string) result"

text \<open>What a round trip through the wire relies on: RFC 3339 text determines the instant.\<close>

definition rfc3339_laws :: "'a pca_env_scheme \<Rightarrow> bool" where
  "rfc3339_laws K \<longleftrightarrow> (\<forall>t. rfc_range t \<longrightarrow> parse_rfc3339 K (to_rfc3339 K t) = Ok t)"

definition capability :: "pca \<Rightarrow> string \<Rightarrow> capability_data option" where
  "capability self key = List.find (\<lambda>c. cap_key c = key) (capabilities self)"

definition designated_executor_key :: "pca \<Rightarrow> public_key option" where
  "designated_executor_key self = as_public_key (designated_executor self)"

definition is_root :: "pca \<Rightarrow> bool" where
  "is_root self = (prev_hash self = None)"

definition is_expired_at :: "pca \<Rightarrow> datetime \<Rightarrow> bool" where
  "is_expired_at self time = (time \<ge> expires_at self)"

definition build_signable_ref :: "'a pca_env_scheme \<Rightarrow> pca \<Rightarrow> pca_signable" where
  "build_signable_ref K self =
     \<lparr>sg_version = version_to_tuple (pca_version self),
      sg_capabilities = capabilities self,
      sg_designated_executor = designated_executor self,
      sg_prev_hash = map_option (hash_to_hex K) (prev_hash self),
      sg_root_hash = map_option (hash_to_hex K) (root_hash self),
      sg_expires_at = to_rfc3339 K (expires_at self),
      sg_issuer = public_key_to_hex K (issuer self),
      sg_payload = payload self\<rparr>"

definition encode_canonical ::
  "('b \<Rightarrow> (bytes, string) result) \<Rightarrow> 'b \<Rightarrow> (bytes, protocol_error) result" where
  "encode_canonical enc v = map_err CborSerialize (enc v)"

definition try_to_signable :: "'a pca_env_scheme \<Rightarrow> pca \<Rightarrow> (bytes, protocol_error) result" where
  "try_to_signable K self = encode_canonical (encode_signable K) (build_signable_ref K self)"

definition try_hash :: "'a pca_env_scheme \<Rightarrow> pca \<Rightarrow> (pca_hash, protocol_error) result" where
  "try_hash K self = map_ok (hash_compute K) (try_to_signable K self)"

definition try_verify_signature :: "'a pca_env_scheme \<Rightarrow> pca \<Rightarrow> (unit, protocol_error) result" where
  "try_verify_signature K self =
     and_then (try_to_signable K self) (\<lambda>s. public_key_verify K (issuer self) s (pca_signature self))"

definition to_wire :: "'a pca_env_scheme \<Rightarrow> pca \<Rightarrow> pca_wire" where
  "to_wire K self =
     \<lparr>signable = build_signable_ref K self, wire_signature = signature_to_hex K (pca_signature self)\<rparr>"

definition to_cbor :: "'a pca_env_scheme \<Rightarrow> pca \<Rightarrow> (bytes, protocol_error) result" where
  "to_cbor K self = encode_canonical (encode_wire K) (to_wire K self)"

text \<open>\<open>Option::map(..).transpose()\<close>.\<close>

definition transpose_map ::
  "('a \<Rightarrow> ('b, 'e) result) \<Rightarrow> 'a option \<Rightarrow> ('b option, 'e) result" where
  "transpose_map f x = (case x of None \<Rightarrow> Ok None | Some y \<Rightarrow> map_ok Some (f y))"

definition from_wire :: "'a pca_env_scheme \<Rightarrow> pca_wire \<Rightarrow> (pca, protocol_error) result" where
  "from_wire K wire =
     (let s = signable wire in
      case find_duplicate_capability_key (sg_capabilities s) of
        Some dup_key \<Rightarrow> Err (DuplicateCapabilityKey dup_key)
      | None \<Rightarrow>
          and_then (transpose_map (hash_from_hex K) (sg_prev_hash s)) (\<lambda>ph.
          and_then (transpose_map (hash_from_hex K) (sg_root_hash s)) (\<lambda>rh.
          and_then (map_err (\<lambda>e. InvalidPca (''invalid expires_at: '' @ e))
              (parse_rfc3339 K (sg_expires_at s))) (\<lambda>exp.
          and_then (public_key_from_hex K (sg_issuer s)) (\<lambda>iss.
          and_then (signature_from_hex K (wire_signature wire)) (\<lambda>sig.
          Ok \<lparr>pca_version = version_from_tuple (sg_version s),
              capabilities = sg_capabilities s,
              designated_executor = sg_designated_executor s,
              prev_hash = ph,
              root_hash = rh,
              expires_at = exp,
              issuer = iss,
              pca_signature = sig,
              payload = sg_payload s\<rparr>))))))"

definition from_cbor :: "'a pca_env_scheme \<Rightarrow> bytes \<Rightarrow> (pca, protocol_error) result" where
  "from_cbor K data =
     and_then (map_err CborDeserialize (decode_wire K data)) (from_wire K)"

section \<open>The builder\<close>

record pca_builder =
  b_version :: "version option"
  b_capabilities :: "capability_data list"
  b_designated_executor :: "designated_executor option"
  b_prev_hash :: "pca_hash option"
  b_root_hash :: "pca_hash option"
  b_expires_at :: "datetime option"
  b_payload :: "bytes option"

definition builder_new :: pca_builder where
  "builder_new = \<lparr>b_version = None, b_capabilities = [], b_designated_executor = None,
     b_prev_hash = None, b_root_hash = None, b_expires_at = None, b_payload = None\<rparr>"

definition with_version :: "version \<Rightarrow> pca_builder \<Rightarrow> pca_builder" where
  "with_version v self = self\<lparr>b_version := Some v\<rparr>"

definition add_capability :: "capability_data \<Rightarrow> pca_builder \<Rightarrow> pca_builder" where
  "add_capability cap self = self\<lparr>b_capabilities := b_capabilities self @ [cap]\<rparr>"

definition with_capabilities :: "capability_data list \<Rightarrow> pca_builder \<Rightarrow> pca_builder" where
  "with_capabilities caps self = self\<lparr>b_capabilities := caps\<rparr>"

definition with_designated_executor :: "designated_executor \<Rightarrow> pca_builder \<Rightarrow> pca_builder" where
  "with_designated_executor ex self = self\<lparr>b_designated_executor := Some ex\<rparr>"

definition with_prev_hash :: "pca_hash \<Rightarrow> pca_builder \<Rightarrow> pca_builder" where
  "with_prev_hash h self = self\<lparr>b_prev_hash := Some h\<rparr>"

definition with_root_hash :: "pca_hash \<Rightarrow> pca_builder \<Rightarrow> pca_builder" where
  "with_root_hash h self = self\<lparr>b_root_hash := Some h\<rparr>"

definition with_expires_at :: "datetime \<Rightarrow> pca_builder \<Rightarrow> pca_builder" where
  "with_expires_at t self = self\<lparr>b_expires_at := Some t\<rparr>"

definition with_payload_bytes :: "bytes \<Rightarrow> pca_builder \<Rightarrow> pca_builder" where
  "with_payload_bytes b self = self\<lparr>b_payload := Some b\<rparr>"

definition parent_pca ::
  "'a pca_env_scheme \<Rightarrow> pca \<Rightarrow> pca_builder \<Rightarrow> (pca_builder, protocol_error) result" where
  "parent_pca K parent self =
     and_then (try_hash K parent) (\<lambda>parent_hash.
     and_then
       (case root_hash parent of
          Some root \<Rightarrow> Ok root
        | None \<Rightarrow>
            if is_root parent then Ok parent_hash
            else Err (InvalidPca ''non-root parent is missing root_hash''))
       (\<lambda>root. Ok (self\<lparr>b_prev_hash := Some parent_hash, b_root_hash := Some root\<rparr>)))"

definition build_and_sign ::
  "'a pca_env_scheme \<Rightarrow> pca_builder \<Rightarrow> keypair \<Rightarrow> (pca, protocol_error) result" where
  "build_and_sign K self kp =
     and_then (ok_or (MissingField ''version'') (b_version self)) (\<lambda>ver.
     and_then (guard_err (b_capabilities self = [])
         (InvalidPca ''at least one capability required'')) (\<lambda>_.
     and_then
       (case find_duplicate_capability_key (b_capabilities self) of
          Some dup_key \<Rightarrow> Err (DuplicateCapabilityKey dup_key)
        | None \<Rightarrow> Ok ()) (\<lambda>_.
     and_then (ok_or (MissingField ''designated_executor'') (b_designated_executor self)) (\<lambda>ex.
     and_then (ok_or (MissingField ''expires_at'') (b_expires_at self)) (\<lambda>exp.
     and_then
       (case b_root_hash self of
          Some hash \<Rightarrow>
            if b_prev_hash self = None then Err (InvalidPca ''root PCA must omit root_hash'')
            else Ok (Some hash)
        | None \<Rightarrow>
            if b_prev_hash self \<noteq> None then Err (MissingField ''root_hash'') else Ok None)
       (\<lambda>rh.
     (let s = \<lparr>sg_version = version_to_tuple ver,
               sg_capabilities = b_capabilities self,
               sg_designated_executor = ex,
               sg_prev_hash = map_option (hash_to_hex K) (b_prev_hash self),
               sg_root_hash = map_option (hash_to_hex K) rh,
               sg_expires_at = to_rfc3339 K exp,
               sg_issuer = public_key_to_hex K (keypair_public_key K kp),
               sg_payload = b_payload self\<rparr>
      in and_then (encode_canonical (encode_signable K) s) (\<lambda>signable_bytes.
         Ok \<lparr>pca_version = ver,
             capabilities = b_capabilities self,
             designated_executor = ex,
             prev_hash = b_prev_hash self,
             root_hash = rh,
             expires_at = exp,
             issuer = keypair_public_key K kp,
             pca_signature = keypair_sign K kp signable_bytes,
             payload = b_payload self\<rparr>))))))))"

section \<open>Facts\<close>

definition wf_pca :: "pca \<Rightarrow> bool" where
  "wf_pca p \<longleftrightarrow>
     distinct (map cap_key (capabilities p)) \<and> wf_public_key (issuer p) \<and>
     wf_signature (pca_signature p) \<and> pred_option wf_hash (prev_hash p) \<and>
     pred_option wf_hash (root_hash p) \<and> rfc_range (expires_at p)"

lemma transpose_map_roundtrip:
  "pred_option P x \<Longrightarrow> (\<And>y. P y \<Longrightarrow> f (g y) = Ok y) \<Longrightarrow>
     transpose_map f (map_option g x) = Ok x"
  by (cases x) (auto simp: transpose_map_def)

lemma version_tuple_roundtrip [simp]: "version_from_tuple (version_to_tuple v) = v"
  by (cases v) (simp add: version_from_tuple_def version_to_tuple_def version_new_def)

lemma from_wire_to_wire:
  assumes "hex_laws K" "rfc3339_laws K" "wf_pca p"
  shows "from_wire K (to_wire K p) = Ok p"
proof -
  have "find_duplicate_capability_key (capabilities p) = None"
    using assms(3) by (simp add: find_duplicate_capability_key_None wf_pca_def)
  moreover have "transpose_map (hash_from_hex K) (map_option (hash_to_hex K) (prev_hash p)) =
      Ok (prev_hash p)"
    using assms by (intro transpose_map_roundtrip [where P = wf_hash] hash_hex_roundtrip)
      (auto simp: wf_pca_def)
  moreover have "transpose_map (hash_from_hex K) (map_option (hash_to_hex K) (root_hash p)) =
      Ok (root_hash p)"
    using assms by (intro transpose_map_roundtrip [where P = wf_hash] hash_hex_roundtrip)
      (auto simp: wf_pca_def)
  ultimately show ?thesis
    using assms
    by (simp add: from_wire_def build_signable_ref_def public_key_hex_roundtrip
        signature_hex_roundtrip wf_pca_def rfc3339_laws_def to_wire_def Let_def)
qed

lemma build_and_sign_Ok:
  assumes "build_and_sign K b kp = Ok p"
  shows "b_version b = Some (pca_version p)" "capabilities p = b_capabilities b"
    "capabilities p \<noteq> []" "distinct (map cap_key (capabilities p))"
    "b_designated_executor b = Some (designated_executor p)"
    "b_expires_at b = Some (expires_at p)" "prev_hash p = b_prev_hash b"
    "root_hash p = b_root_hash b" "root_hash p = None \<longleftrightarrow> prev_hash p = None"
    "issuer p = keypair_public_key K kp" "payload p = b_payload b"
    "\<exists>m. try_to_signable K p = Ok m \<and> pca_signature p = keypair_sign K kp m"
  using assms
  by (auto simp: build_and_sign_def try_to_signable_def build_signable_ref_def Let_def
      find_duplicate_capability_key_None split: option.splits if_splits)

end
