(* ===== verification/Chain.thy ===== *)
theory Chain
  imports Pca
begin

text \<open>
  Chain validation, \<open>crates/amla-protocol/src/chain.rs\<close>: the checks on a chain of tokens from the
  root to the last delegate, for chains signed by the executors themselves (\<open>validate_chain\<close>) and
  for chains emitted by trusted authorities (\<open>validate_cta_chain\<close>).
\<close>

section \<open>Definitions\<close>

definition max_chain_depth :: nat where
  "max_chain_depth = 100"

datatype chain_validation_error =
    EmptyChain
  | InvalidSignature nat
  | InvalidPcaAt nat string
  | RootHasPrevHash
  | RootHasRootHash
  | RootHashMissing nat
  | MissingPrevHash nat
  | HashMismatch nat string string
  | UnauthorizedIssuer nat string string
  | InvalidRootAuthority string string
  | UntrustedCtaIssuer nat string
  | Expired nat string
  | ExpiryExceedsParent nat string string
  | RootHashMismatch nat string string
  | InvalidTransition nat string
  | DuplicateKey nat string
  | UnknownCapabilityKey nat string
  | NonPublicKeyExecutor nat string
  | TooDeep nat nat

fun display_chain_error :: "chain_validation_error \<Rightarrow> string" where
  "display_chain_error EmptyChain =
     ''chain is empty''"
| "display_chain_error (InvalidSignature i) =
     ''invalid signature at index '' @ show_nat i"
| "display_chain_error (InvalidPcaAt i r) =
     ''invalid PCA at index '' @ show_nat i @ '': '' @ r"
| "display_chain_error RootHasPrevHash =
     ''root PCA has prev_hash (not a root)''"
| "display_chain_error RootHasRootHash =
     ''root PCA must omit root_hash''"
| "display_chain_error (MissingPrevHash i) =
     ''missing prev_hash at index '' @ show_nat i"
| "display_chain_error (HashMismatch i e a) =
     ''hash mismatch at index '' @ show_nat i @ '': expected '' @ e @ '', got '' @ a"
| "display_chain_error (UnauthorizedIssuer i e a) =
     ''unauthorized issuer at index '' @ show_nat i @ '': expected '' @ e @
       '', got '' @ a"
| "display_chain_error (InvalidRootAuthority e a) =
     ''invalid root authority: expected '' @ e @ '', got '' @ a"
| "display_chain_error (UntrustedCtaIssuer i a) =
     ''untrusted CTA issuer at index '' @ show_nat i @ '': '' @ a"
| "display_chain_error (Expired i t) =
     ''PCA at index '' @ show_nat i @ '' expired at '' @ t"
| "display_chain_error (ExpiryExceedsParent i p c) =
     ''PCA at index '' @ show_nat i @ '' expires after parent (parent: '' @ p @
       '', child: '' @ c @ '')''"
| "display_chain_error (RootHashMismatch i e a) =
     ''root_hash mismatch at index '' @ show_nat i @ '': expected '' @ e @
       '', got '' @ a"
| "display_chain_error (RootHashMissing i) =
     ''missing root_hash at index '' @ show_nat i"
| "display_chain_error (InvalidTransition i r) =
     ''invalid capability transition at index '' @ show_nat i @ '': '' @ r"
| "display_chain_error (DuplicateKey i k) =
     ''duplicate capability_key at index '' @ show_nat i @ '': '' @ k"
| "display_chain_error (UnknownCapabilityKey i k) =
     ''unknown capability_key at index '' @ show_nat i @ '': '' @ k"
| "display_chain_error (NonPublicKeyExecutor i t) =
     ''parent at index '' @ show_nat i @ '' has non-PublicKey designated executor ('' @ t @
       ''), requires CTA resolution''"
| "display_chain_error (TooDeep d l) =
     ''chain depth '' @ show_nat d @ '' exceeds limit of '' @ show_nat l"

subsection \<open>Keyed transitions\<close>

text \<open>The first loop: the map from key to capability of the parent.\<close>

fun build_parent_map ::
  "nat \<Rightarrow> (string \<rightharpoonup> capability_data) \<Rightarrow> capability_data list
    \<Rightarrow> (string \<rightharpoonup> capability_data, chain_validation_error) result" where
  "build_parent_map child_index m [] = Ok m"
| "build_parent_map child_index m (cap # caps) =
     (if m (cap_key cap) \<noteq> None then Err (DuplicateKey (child_index - 1) (cap_key cap))
      else build_parent_map child_index (m(cap_key cap \<mapsto> cap)) caps)"

text \<open>The second loop: each child capability against its parent counterpart.\<close>

fun check_child_caps ::
  "nat \<Rightarrow> (string \<rightharpoonup> capability_data) \<Rightarrow> validator \<Rightarrow> string set \<Rightarrow> capability_data list
    \<Rightarrow> (unit, chain_validation_error) result" where
  "check_child_caps child_index m v seen [] = Ok ()"
| "check_child_caps child_index m v seen (child_cap # caps) =
     (if cap_key child_cap \<in> seen then Err (DuplicateKey child_index (cap_key child_cap))
      else
        and_then (ok_or (UnknownCapabilityKey child_index (cap_key child_cap))
            (m (cap_key child_cap))) (\<lambda>matching_parent.
        and_then (map_err (\<lambda>e. InvalidTransition child_index (reason e))
            (v matching_parent child_cap)) (\<lambda>_.
        check_child_caps child_index m v (insert (cap_key child_cap) seen) caps)))"

definition validate_keyed_transitions ::
  "nat \<Rightarrow> capability_data list \<Rightarrow> capability_data list \<Rightarrow> validator
    \<Rightarrow> (unit, chain_validation_error) result" where
  "validate_keyed_transitions child_index parent_caps child_caps v =
     and_then (build_parent_map child_index Map.empty parent_caps) (\<lambda>m.
       check_child_caps child_index m v {} child_caps)"

subsection \<open>The checks on one token\<close>

definition check_signature ::
  "'a pca_env_scheme \<Rightarrow> nat \<Rightarrow> pca \<Rightarrow> (unit, chain_validation_error) result" where
  "check_signature K i p =
     (case try_verify_signature K p of
        Inr u \<Rightarrow> Ok ()
      | Inl SignatureVerificationFailed \<Rightarrow> Err (InvalidSignature i)
      | Inl e \<Rightarrow> Err (InvalidPcaAt i (display_error e)))"

definition check_expiry ::
  "'a pca_env_scheme \<Rightarrow> datetime \<Rightarrow> nat \<Rightarrow> pca \<Rightarrow> (unit, chain_validation_error) result" where
  "check_expiry K current_time i p =
     guard_err (is_expired_at p current_time) (Expired i (to_rfc3339 K (expires_at p)))"

text \<open>The links of the token at position \<open>i\<close> to its parent that do not concern the issuer.\<close>

definition check_links ::
  "'a pca_env_scheme \<Rightarrow> pca_hash \<Rightarrow> nat \<Rightarrow> pca \<Rightarrow> pca \<Rightarrow> (unit, chain_validation_error) result" where
  "check_links K expected_root_hash i parent p =
     and_then (guard_err (expires_at p > expires_at parent)
         (ExpiryExceedsParent i (to_rfc3339 K (expires_at parent)) (to_rfc3339 K (expires_at p))))
       (\<lambda>_.
     and_then (ok_or (MissingPrevHash i) (prev_hash p)) (\<lambda>ph.
     and_then (map_err (\<lambda>e. InvalidPcaAt (i - 1) (display_error e)) (try_hash K parent))
       (\<lambda>parent_hash.
     and_then (guard_err (ph \<noteq> parent_hash)
         (HashMismatch i (hash_to_hex K parent_hash) (hash_to_hex K ph))) (\<lambda>_.
     and_then (ok_or (RootHashMissing i) (root_hash p)) (\<lambda>rh.
     guard_err (rh \<noteq> expected_root_hash)
       (RootHashMismatch i (hash_to_hex K expected_root_hash) (hash_to_hex K rh)))))))"

text \<open>\<open>validate_chain\<close>: the issuer is the parent's designated executor.\<close>

definition check_executor_issuer ::
  "'a pca_env_scheme \<Rightarrow> nat \<Rightarrow> pca \<Rightarrow> pca \<Rightarrow> (unit, chain_validation_error) result" where
  "check_executor_issuer K i parent p =
     (case designated_executor parent of
        PublicKey expected_key \<Rightarrow>
          guard_err (issuer p \<noteq> expected_key)
            (UnauthorizedIssuer i (public_key_to_hex K expected_key)
              (public_key_to_hex K (issuer p)))
      | Characteristic c \<Rightarrow>
          Err (NonPublicKeyExecutor (i - 1)
            (''Characteristic('' @ char_type c @ '':'' @ char_value c @ '')''))
      | CtaReference r \<Rightarrow>
          Err (NonPublicKeyExecutor (i - 1)
            (''CtaReference('' @ public_key_to_hex K (cta_key r) @ '')'')))"

text \<open>\<open>validate_cta_chain\<close>: the issuer is one of the trusted authorities.\<close>

definition check_cta_issuer ::
  "'a pca_env_scheme \<Rightarrow> public_key list \<Rightarrow> nat \<Rightarrow> pca \<Rightarrow> pca
    \<Rightarrow> (unit, chain_validation_error) result" where
  "check_cta_issuer K trusted_ctas i parent p =
     guard_err (issuer p \<notin> set trusted_ctas)
       (UntrustedCtaIssuer i (public_key_to_hex K (issuer p)))"

text \<open>The loop of both functions; \<open>prev\<close> is \<open>chain[i - 1]\<close> when \<open>i > 0\<close>.\<close>

fun validate_pcas ::
  "'a pca_env_scheme \<Rightarrow> (nat \<Rightarrow> pca \<Rightarrow> pca \<Rightarrow> (unit, chain_validation_error) result) \<Rightarrow> validator
    \<Rightarrow> datetime \<Rightarrow> pca_hash \<Rightarrow> nat \<Rightarrow> pca option \<Rightarrow> pca list
    \<Rightarrow> (unit, chain_validation_error) result" where
  "validate_pcas K check_issuer v now rh i prev [] = Ok ()"
| "validate_pcas K check_issuer v now rh i prev (p # ps) =
     and_then (check_signature K i p) (\<lambda>_.
     and_then (check_expiry K now i p) (\<lambda>_.
     and_then
       (case prev of
          None \<Rightarrow> Ok ()
        | Some parent \<Rightarrow>
            and_then (check_links K rh i parent p) (\<lambda>_.
            and_then (check_issuer i parent p) (\<lambda>_.
            validate_keyed_transitions i (capabilities parent) (capabilities p) v))) (\<lambda>_.
     validate_pcas K check_issuer v now rh (Suc i) (Some p) ps)))"

subsection \<open>The two entry points\<close>

definition validate_chain ::
  "'a pca_env_scheme \<Rightarrow> pca list \<Rightarrow> public_key \<Rightarrow> validator \<Rightarrow> datetime
    \<Rightarrow> (unit, chain_validation_error) result" where
  "validate_chain K chain root_authority v now =
     (case chain of
        [] \<Rightarrow> Err EmptyChain
      | root # rest \<Rightarrow>
          and_then (guard_err (length chain > max_chain_depth)
              (TooDeep (length chain) max_chain_depth)) (\<lambda>_.
          and_then (guard_err (\<not> is_root root) RootHasPrevHash) (\<lambda>_.
          and_then (guard_err (issuer root \<noteq> root_authority)
              (InvalidRootAuthority (public_key_to_hex K root_authority)
                (public_key_to_hex K (issuer root)))) (\<lambda>_.
          and_then (guard_err (root_hash root \<noteq> None) RootHasRootHash) (\<lambda>_.
          and_then (map_err (\<lambda>e. InvalidPcaAt 0 (display_error e)) (try_hash K root)) (\<lambda>rh.
          validate_pcas K (check_executor_issuer K) v now rh 0 None chain))))))"

definition validate_cta_chain ::
  "'a pca_env_scheme \<Rightarrow> pca list \<Rightarrow> public_key list \<Rightarrow> public_key list \<Rightarrow> validator \<Rightarrow> datetime
    \<Rightarrow> (unit, chain_validation_error) result" where
  "validate_cta_chain K chain root_authorities trusted_ctas v now =
     (case chain of
        [] \<Rightarrow> Err EmptyChain
      | root # rest \<Rightarrow>
          and_then (guard_err (\<not> is_root root) RootHasPrevHash) (\<lambda>_.
          and_then (guard_err (issuer root \<notin> set root_authorities)
              (InvalidRootAuthority ''one of trusted root authorities''
                (public_key_to_hex K (issuer root)))) (\<lambda>_.
          and_then (guard_err (root_hash root \<noteq> None) RootHasRootHash) (\<lambda>_.
          and_then (map_err (\<lambda>e. InvalidPcaAt 0 (display_error e)) (try_hash K root)) (\<lambda>rh.
          validate_pcas K (check_cta_issuer K trusted_ctas) v now rh 0 None chain)))))"

text \<open>On an empty chain the two accessors panic; \<open>None\<close> stands for the panic.\<close>

definition get_final_executor :: "pca list \<Rightarrow> designated_executor option" where
  "get_final_executor chain =
     (if chain = [] then None else Some (designated_executor (last chain)))"

definition get_effective_capabilities :: "pca list \<Rightarrow> capability_data list option" where
  "get_effective_capabilities chain =
     (if chain = [] then None else Some (capabilities (last chain)))"

section \<open>What acceptance means\<close>

text \<open>The keyed relation between a parent's and a child's capabilities that acceptance gives.\<close>

definition keyed_step ::
  "(capability_data \<Rightarrow> capability_data \<Rightarrow> bool) \<Rightarrow> capability_data list \<Rightarrow> capability_data list
    \<Rightarrow> bool" where
  "keyed_step R parent_caps child_caps \<longleftrightarrow>
     distinct (map cap_key parent_caps) \<and> distinct (map cap_key child_caps) \<and>
     (\<forall>c \<in> set child_caps. \<exists>p \<in> set parent_caps. cap_key p = cap_key c \<and> R p c)"

definition accepts :: "validator \<Rightarrow> capability_data \<Rightarrow> capability_data \<Rightarrow> bool" where
  "accepts v p c = (v p c = Ok ())"

text \<open>The map the first loop builds.\<close>

definition keyed_map :: "capability_data list \<Rightarrow> (string \<rightharpoonup> capability_data)" where
  "keyed_map caps = map_of (map (\<lambda>c. (cap_key c, c)) caps)"

lemma keyed_map_Cons:
  "cap_key c \<notin> cap_key ` set caps \<Longrightarrow>
     m(cap_key c \<mapsto> c) ++ keyed_map caps = m ++ keyed_map (c # caps)"
  by (simp add: keyed_map_def map_add_upd_left dom_map_of_conv_image_fst image_image)

lemma build_parent_map_Ok:
  "build_parent_map i m caps = Ok m' \<longleftrightarrow>
     distinct (map cap_key caps) \<and> set (map cap_key caps) \<inter> dom m = {} \<and>
     m' = m ++ keyed_map caps"
proof (induction caps arbitrary: m)
  case Nil
  then show ?case by (auto simp: keyed_map_def)
next
  case (Cons c caps)
  show ?case
  proof (cases "m (cap_key c) = None \<and> cap_key c \<notin> cap_key ` set caps")
    case True
    then have eq: "m(cap_key c \<mapsto> c) ++ keyed_map caps = m ++ keyed_map (c # caps)"
      by (intro keyed_map_Cons) simp
    from True have dom: "set (map cap_key caps) \<inter> dom (m(cap_key c \<mapsto> c)) = {} \<longleftrightarrow>
        set (map cap_key (c # caps)) \<inter> dom m = {}"
      by auto
    from True have "build_parent_map i m (c # caps) = Ok m' \<longleftrightarrow>
        build_parent_map i (m(cap_key c \<mapsto> c)) caps = Ok m'"
      by simp
    also have "\<dots> \<longleftrightarrow> distinct (map cap_key caps) \<and> set (map cap_key (c # caps)) \<inter> dom m = {} \<and>
        m' = m ++ keyed_map (c # caps)"
      unfolding Cons.IH eq dom ..
    finally show ?thesis using True by simp
  next
    case False
    then show ?thesis by (auto simp: Cons.IH)
  qed
qed

lemma check_child_caps_Ok:
  "check_child_caps i m v seen caps = Ok () \<longleftrightarrow>
     distinct (map cap_key caps) \<and> set (map cap_key caps) \<inter> seen = {} \<and>
     (\<forall>c \<in> set caps. \<exists>p. m (cap_key c) = Some p \<and> v p c = Ok ())"
proof (induction caps arbitrary: seen)
  case (Cons c caps)
  show ?case by (auto simp: Cons.IH)
qed simp

lemma keyed_map_Some:
  "distinct (map cap_key caps) \<Longrightarrow>
     keyed_map caps k = Some p \<longleftrightarrow> p \<in> set caps \<and> cap_key p = k"
  unfolding keyed_map_def by (subst map_of_eq_Some_iff) (auto simp: comp_def)

lemma validate_keyed_transitions_Ok:
  "validate_keyed_transitions i parent_caps child_caps v = Ok () \<longleftrightarrow>
     keyed_step (accepts v) parent_caps child_caps"
  by (auto simp: validate_keyed_transitions_def build_parent_map_Ok check_child_caps_Ok
      keyed_map_Some keyed_step_def accepts_def cong: conj_cong)

lemma check_signature_Ok [simp]:
  "check_signature K i p = Ok u \<longleftrightarrow> try_verify_signature K p = Ok ()"
  by (auto simp: check_signature_def split: sum.split protocol_error.split)

lemma check_expiry_Ok [simp]: "check_expiry K now i p = Ok u \<longleftrightarrow> now < expires_at p"
  by (auto simp: check_expiry_def is_expired_at_def)

lemma check_links_Ok [simp]:
  "check_links K rh i parent p = Ok u \<longleftrightarrow>
     expires_at p \<le> expires_at parent \<and> root_hash p = Some rh \<and>
     (\<exists>h. prev_hash p = Some h \<and> try_hash K parent = Ok h)"
  by (auto simp: check_links_def)

lemma check_executor_issuer_Ok [simp]:
  "check_executor_issuer K i parent p = Ok u \<longleftrightarrow>
     designated_executor parent = PublicKey (issuer p)"
  by (auto simp: check_executor_issuer_def split: designated_executor.split)

lemma check_cta_issuer_Ok [simp]:
  "check_cta_issuer K ctas i parent p = Ok u \<longleftrightarrow> issuer p \<in> set ctas"
  by (simp add: check_cta_issuer_def)

text \<open>The relation between neighbours of an accepted chain.\<close>

definition linked ::
  "'a pca_env_scheme \<Rightarrow> (pca \<Rightarrow> pca \<Rightarrow> bool) \<Rightarrow> validator \<Rightarrow> pca_hash \<Rightarrow> pca \<Rightarrow> pca \<Rightarrow> bool" where
  "linked K issuer_ok v rh parent p \<longleftrightarrow>
     expires_at p \<le> expires_at parent \<and> root_hash p = Some rh \<and>
     (\<exists>h. prev_hash p = Some h \<and> try_hash K parent = Ok h) \<and> issuer_ok parent p \<and>
     keyed_step (accepts v) (capabilities parent) (capabilities p)"

lemma validate_pcas_Ok:
  assumes "\<And>i parent p. check_issuer i parent p = Ok () \<longleftrightarrow> issuer_ok parent p"
  shows "validate_pcas K check_issuer v now rh i prev ps = Ok () \<longleftrightarrow>
     (\<forall>p \<in> set ps. try_verify_signature K p = Ok () \<and> now < expires_at p) \<and>
     successively (linked K issuer_ok v rh) (case prev of None \<Rightarrow> ps | Some q \<Rightarrow> q # ps)"
proof (induction ps arbitrary: i prev)
  case Nil
  then show ?case by (simp split: option.split)
next
  case (Cons p ps)
  show ?case
    by (cases prev)
      (auto simp: Cons.IH linked_def validate_keyed_transitions_Ok assms)
qed

definition chain_ok ::
  "'a pca_env_scheme \<Rightarrow> (pca \<Rightarrow> pca \<Rightarrow> bool) \<Rightarrow> validator \<Rightarrow> datetime \<Rightarrow> pca list \<Rightarrow> bool" where
  "chain_ok K issuer_ok v now chain \<longleftrightarrow>
     chain \<noteq> [] \<and> is_root (hd chain) \<and> root_hash (hd chain) = None \<and>
     (\<exists>rh. try_hash K (hd chain) = Ok rh \<and> successively (linked K issuer_ok v rh) chain) \<and>
     (\<forall>p \<in> set chain. try_verify_signature K p = Ok () \<and> now < expires_at p)"

lemma validate_chain_Ok:
  "validate_chain K chain auth v now = Ok () \<longleftrightarrow>
     length chain \<le> max_chain_depth \<and> issuer (hd chain) = auth \<and>
     chain_ok K (\<lambda>parent p. designated_executor parent = PublicKey (issuer p)) v now chain"
  by (cases chain) (auto simp: validate_chain_def chain_ok_def
      validate_pcas_Ok [OF check_executor_issuer_Ok] simp del: validate_pcas.simps)

lemma validate_cta_chain_Ok:
  "validate_cta_chain K chain auths ctas v now = Ok () \<longleftrightarrow>
     issuer (hd chain) \<in> set auths \<and>
     chain_ok K (\<lambda>parent p. issuer p \<in> set ctas) v now chain"
  by (cases chain) (auto simp: validate_cta_chain_def chain_ok_def
      validate_pcas_Ok [OF check_cta_issuer_Ok] simp del: validate_pcas.simps)

end
