(* ===== verification/Sample.thy ===== *)
theory Sample
  imports Chain
begin

text \<open>
  A concrete instance of the primitives, small enough to compute with, on which the laws
  \<open>hex_laws\<close>, \<open>signature_laws\<close> and \<open>rfc3339_laws\<close> are proved to hold together. The closed examples
  of the protocol theories are stated on it. It is no model of the real primitives.
\<close>

section \<open>Two letters per byte\<close>

definition sample_hex_byte :: "u8 \<Rightarrow> string" where
  "sample_hex_byte w = [digit_char (unat w div 16), digit_char (unat w mod 16)]"

definition sample_hex_encode :: "bytes \<Rightarrow> string" where
  "sample_hex_encode bs = concat (map sample_hex_byte bs)"

fun sample_hex_decode :: "string \<Rightarrow> (bytes, string) result" where
  "sample_hex_decode [] = Ok []"
| "sample_hex_decode [c] = Err ''odd length''"
| "sample_hex_decode (c # d # cs) =
     and_then (sample_hex_decode cs) (\<lambda>bs.
       Ok (of_nat (16 * (of_char c - 48) + (of_char d - 48)) # bs))"

lemma sample_hex_byte_inverse:
  "of_nat (16 * (of_char (digit_char (unat w div 16)) - 48) +
     (of_char (digit_char (unat w mod 16)) - 48)) = (w :: u8)"
proof -
  have "unat w < 256" using unsigned_less [where 'a = nat, of w] by simp
  then have "unat w div 16 < 16" by simp
  then have "48 + unat w div 16 < 256" by simp
  then have "of_char (digit_char (unat w div 16)) = 48 + unat w div 16"
    by (simp add: digit_char_def of_char_of)
  moreover have "of_char (digit_char (unat w mod 16)) = 48 + unat w mod 16"
    using mod_less_divisor [of 16 "unat w"] by (simp add: digit_char_def of_char_of)
  moreover have "(of_nat (16 * (unat w div 16) + unat w mod 16) :: u8) = w"
    by (simp only: mult_div_mod_eq) simp
  ultimately show ?thesis by (simp only: add_diff_cancel_left')
qed

lemma sample_hex_roundtrip: "sample_hex_decode (sample_hex_encode bs) = Ok bs"
  using sample_hex_byte_inverse
  by (induction bs) (simp_all add: sample_hex_encode_def sample_hex_byte_def)

lemma sample_hex_encode_length: "length (sample_hex_encode bs) = 2 * length bs"
  by (induction bs) (simp_all add: sample_hex_encode_def sample_hex_byte_def)

lemma sample_hex_decode_length: "sample_hex_decode s = Ok bs \<Longrightarrow> length s = 2 * length bs"
  by (induction s arbitrary: bs rule: sample_hex_decode.induct) auto

section \<open>Instants in decimal\<close>

definition sample_rfc3339 :: "datetime \<Rightarrow> string" where
  "sample_rfc3339 t = (if t < 0 then CHR ''-'' # show_nat (nat (- t)) else show_nat (nat t))"

definition sample_parse_rfc3339 :: "string \<Rightarrow> (datetime, string) result" where
  "sample_parse_rfc3339 s =
     (case s of
        c # cs \<Rightarrow>
          if c = CHR ''-'' then map_ok (\<lambda>n. - int n) (ok_or ''bad'' (read_nat cs))
          else map_ok int (ok_or ''bad'' (read_nat s))
      | [] \<Rightarrow> Err ''empty'')"

lemma sample_rfc3339_roundtrip: "sample_parse_rfc3339 (sample_rfc3339 t) = Ok t"
proof (cases "t < 0")
  case True
  then show ?thesis by (simp add: sample_parse_rfc3339_def sample_rfc3339_def)
next
  case False
  obtain c cs where c: "show_nat (nat t) = c # cs"
    using show_nat_nonempty [of "nat t"] by (cases "show_nat (nat t)") auto
  then have "c \<in> set (show_nat (nat t))" by simp
  then obtain d where "d < 10" "c = digit_char d" using show_nat_digits by blast
  then have "digit_val c = Some d" by simp
  then have "c \<noteq> CHR ''-''" by (auto simp: digit_val_def)
  with False c show ?thesis
    using read_nat_show_nat [of "nat t"]
    by (simp add: sample_parse_rfc3339_def sample_rfc3339_def)
qed

section \<open>The instance\<close>

text \<open>The key is the seed, a signature is the seed padded to 64 bytes, the encodings distinguish
  nothing but one sample token.\<close>

definition sample_root_keypair :: keypair where
  "sample_root_keypair = KpEd25519 (replicate 32 1)"

definition sample_agent_keypair :: keypair where
  "sample_agent_keypair = KpEd25519 (replicate 32 2)"

definition sample_cap :: capability_data where
  "sample_cap = \<lparr>cap_key = ''cap:pay'', capability_type = ''method'', cap_data = [7]\<rparr>"

definition sample_crypto :: crypto where
  "sample_crypto = \<lparr>
     hex_encode = sample_hex_encode,
     hex_decode = sample_hex_decode,
     ed25519_public = (\<lambda>seed. seed),
     ed25519_sign = (\<lambda>seed m. seed @ replicate 32 (of_nat (length m))),
     ed25519_verify = (\<lambda>pk m s. s = pk @ replicate 32 (of_nat (length m))),
     sha256 = (\<lambda>d. replicate 32 (of_nat (length d)))\<rparr>"

definition sample_env_for :: "pca_wire \<Rightarrow> pca_env" where
  "sample_env_for w = crypto.extend sample_crypto \<lparr>
     encode_signable = (\<lambda>s. Ok (replicate (length (sg_capabilities s)) 9)),
     encode_wire = (\<lambda>x. if x = w then Ok [1] else Err ''other token''),
     decode_wire = (\<lambda>b. if b = [1] then Ok w else Err ''unknown bytes''),
     to_rfc3339 = sample_rfc3339,
     parse_rfc3339 = sample_parse_rfc3339\<rparr>"

definition sample_root :: pca where
  "sample_root = \<lparr>
     pca_version = protocol_version, capabilities = [sample_cap],
     designated_executor = PublicKey (PkEd25519 (replicate 32 2)),
     prev_hash = None, root_hash = None, expires_at = 100,
     issuer = PkEd25519 (replicate 32 1),
     pca_signature = SigEd25519 (replicate 32 1 @ replicate 32 1), payload = None\<rparr>"

definition sample_child :: pca where
  "sample_child = \<lparr>
     pca_version = protocol_version, capabilities = [sample_cap],
     designated_executor = PublicKey (PkEd25519 (replicate 32 3)),
     prev_hash = Some (PcaHash (replicate 32 1)), root_hash = Some (PcaHash (replicate 32 1)),
     expires_at = 90,
     issuer = PkEd25519 (replicate 32 2),
     pca_signature = SigEd25519 (replicate 32 2 @ replicate 32 1), payload = None\<rparr>"

text \<open>The wire form of \<open>sample_root\<close> does not depend on the codec, so it can be written first.\<close>

definition sample_env :: pca_env where
  "sample_env =
     (let K = sample_env_for undefined in
      sample_env_for \<lparr>signable = build_signable_ref K sample_root,
        wire_signature = signature_to_hex K (pca_signature sample_root)\<rparr>)"

lemma sample_env_for_fields [simp]:
  "hex_encode (sample_env_for w) = sample_hex_encode"
  "hex_decode (sample_env_for w) = sample_hex_decode"
  "ed25519_public (sample_env_for w) = (\<lambda>seed. seed)"
  "ed25519_sign (sample_env_for w) = (\<lambda>seed m. seed @ replicate 32 (of_nat (length m)))"
  "ed25519_verify (sample_env_for w) = (\<lambda>pk m s. s = pk @ replicate 32 (of_nat (length m)))"
  "sha256 (sample_env_for w) = (\<lambda>d. replicate 32 (of_nat (length d)))"
  "encode_signable (sample_env_for w) = (\<lambda>s. Ok (replicate (length (sg_capabilities s)) 9))"
  "encode_wire (sample_env_for w) = (\<lambda>x. if x = w then Ok [1] else Err ''other token'')"
  "decode_wire (sample_env_for w) = (\<lambda>b. if b = [1] then Ok w else Err ''unknown bytes'')"
  "to_rfc3339 (sample_env_for w) = sample_rfc3339"
  "parse_rfc3339 (sample_env_for w) = sample_parse_rfc3339"
  by (simp_all add: sample_env_for_def sample_crypto_def crypto.extend_def)

lemma sample_env_fields [simp]:
  "hex_encode sample_env = sample_hex_encode"
  "ed25519_public sample_env = (\<lambda>seed. seed)"
  "ed25519_sign sample_env = (\<lambda>seed m. seed @ replicate 32 (of_nat (length m)))"
  "ed25519_verify sample_env = (\<lambda>pk m s. s = pk @ replicate 32 (of_nat (length m)))"
  "sha256 sample_env = (\<lambda>d. replicate 32 (of_nat (length d)))"
  "encode_signable sample_env = (\<lambda>s. Ok (replicate (length (sg_capabilities s)) 9))"
  "to_rfc3339 sample_env = sample_rfc3339"
  by (simp_all add: sample_env_def Let_def)

lemma sample_laws: "hex_laws sample_env" "signature_laws sample_env" "rfc3339_laws sample_env"
  by (simp_all add: sample_env_def Let_def hex_laws_def signature_laws_def rfc3339_laws_def
      sample_hex_roundtrip sample_hex_encode_length sample_hex_decode_length
      sample_rfc3339_roundtrip)

lemma sample_root_no_hash [simp]: "prev_hash sample_root = None" "root_hash sample_root = None"
  by (simp_all add: sample_root_def)

lemma sample_root_to_cbor: "to_cbor sample_env sample_root = Ok [1]"
  by (simp add: sample_env_def Let_def to_cbor_def to_wire_def encode_canonical_def build_signable_ref_def
      hash_to_hex_def public_key_to_hex_def signature_to_hex_def)

lemma sample_root_wf: "wf_pca sample_root"
  by (simp add: wf_pca_def sample_root_def wf_public_key_def wf_signature_def rfc_range_def)

lemma sample_child_wf: "wf_pca sample_child"
  by (simp add: wf_pca_def sample_child_def wf_public_key_def wf_signature_def wf_hash_def rfc_range_def)

lemmas sample_defs = sample_root_def sample_child_def sample_cap_def is_root_def
  try_hash_def try_to_signable_def encode_canonical_def build_signable_ref_def
  try_verify_signature_def public_key_verify_def public_key_algorithm_def
  signature_algorithm_def hash_compute_def max_chain_depth_def

lemma sample_chain_accepted:
  "validate_chain sample_env [sample_root, sample_child] (PkEd25519 (replicate 32 1))
     strict_validate 50 = Ok ()"
  by (simp add: validate_chain_Ok chain_ok_def linked_def keyed_step_def accepts_def
      strict_validate_def sample_defs)

end
