(* ===== verification/ChainSound.thy ===== *)
theory ChainSound
  imports Sample
begin

text \<open>
  What acceptance of a token or of a chain guarantees: wire round trip, builder invariants,
  prefix closure, expiry, and the absence of privilege escalation for every validator that keeps
  the contract \<open>transition_contract\<close>.
\<close>

section \<open>Consequences of acceptance\<close>

lemma chain_ok_linked:
  "chain_ok K issuer_ok v now chain \<Longrightarrow> Suc i < length chain \<Longrightarrow>
     \<exists>rh. try_hash K (hd chain) = Ok rh \<and> linked K issuer_ok v rh (chain ! i) (chain ! Suc i)"
  by (auto simp: chain_ok_def successively_conv_nth)

lemma chain_ok_mono:
  assumes "chain_ok K issuer_ok v now chain"
    and step: "\<And>rh p q. linked K issuer_ok v rh p q \<Longrightarrow> R q p"
    and refl: "\<And>p. R p p" and trans: "\<And>p q r. R p q \<Longrightarrow> R q r \<Longrightarrow> R p r"
  shows "i \<le> j \<Longrightarrow> j < length chain \<Longrightarrow> R (chain ! j) (chain ! i)"
proof (induction j)
  case 0
  then show ?case using refl by simp
next
  case (Suc j)
  show ?case
  proof (cases "i = Suc j")
    case True
    then show ?thesis using refl by simp
  next
    case False
    with Suc have "R (chain ! j) (chain ! i)" by simp
    moreover have "R (chain ! Suc j) (chain ! j)"
      using chain_ok_linked [OF assms(1), of j] step Suc.prems by blast
    ultimately show ?thesis using trans by blast
  qed
qed

lemma chain_ok_expiry:
  "chain_ok K issuer_ok v now chain \<Longrightarrow> i \<le> j \<Longrightarrow> j < length chain \<Longrightarrow>
     expires_at (chain ! j) \<le> expires_at (chain ! i)"
  by (rule chain_ok_mono [where R = "\<lambda>p q. expires_at p \<le> expires_at q"])
    (auto simp: linked_def)

lemma chain_ok_prefix:
  assumes "chain_ok K issuer_ok v now chain" "0 < n"
  shows "chain_ok K issuer_ok v now (take n chain)"
proof -
  have "successively P (take n xs)" if "successively P xs" for P and xs :: "pca list"
    using that by (simp add: successively_conv_nth)
  with assms show ?thesis
    by (auto simp: chain_ok_def hd_take dest: in_set_takeD)
qed

context transition_contract
begin

lemma keyed_step_le:
  "keyed_step (accepts validate) ps cs \<Longrightarrow>
     \<forall>c \<in> set cs. \<exists>p \<in> set ps. cap_key p = cap_key c \<and> le c p"
  by (auto simp: keyed_step_def accepts_def intro: accepted_le)

lemma chain_ok_attenuates:
  assumes "chain_ok K issuer_ok validate now chain" "i \<le> j" "j < length chain"
    "c \<in> set (capabilities (chain ! j))"
  shows "\<exists>p \<in> set (capabilities (chain ! i)). cap_key p = cap_key c \<and> le c p"
proof -
  let ?R = "\<lambda>q p. \<forall>c \<in> set (capabilities q). \<exists>d \<in> set (capabilities p).
      cap_key d = cap_key c \<and> le c d"
  have "?R (chain ! j) (chain ! i)"
  proof (rule chain_ok_mono [OF assms(1) _ _ _ assms(2,3), where R = ?R])
    show "?R q p" if "linked K issuer_ok validate rh p q" for rh p q
      using that keyed_step_le [of "capabilities p" "capabilities q"] unfolding linked_def by blast
    show "?R p p" for p by (blast intro: le_refl)
    show "?R p r" if "?R p q" "?R q r" for p q r
      using that le_trans by metis
  qed
  with assms(4) show ?thesis by blast
qed

lemma validate_chain_attenuates:
  assumes "validate_chain K chain auth validate now = Ok ()"
    "c \<in> set (capabilities (last chain))"
  shows "\<exists>p \<in> set (capabilities (hd chain)). cap_key p = cap_key c \<and> le c p"
proof -
  from assms(1) have ok: "chain_ok K (\<lambda>parent p. designated_executor parent = PublicKey (issuer p))
      validate now chain"
    by (simp add: validate_chain_Ok)
  then have "chain \<noteq> []" by (simp add: chain_ok_def)
  with chain_ok_attenuates [OF ok, of 0 "length chain - 1" c] assms(2) show ?thesis
    by (simp add: hd_conv_nth last_conv_nth)
qed

end

section \<open>Properties\<close>

text \<open>C30. A token survives its wire form: what \<open>from_wire\<close> makes of the wire form of a well-formed token
  is that token, so two well-formed tokens with the same wire form are the same. The expiry is in a year
  of four digits, the ones that RFC 3339 can write; the encoding of the wire form as CBOR is left out.\<close>

theorem wire_roundtrip:
  assumes "hex_laws K" and "rfc3339_laws K" and "wf_pca p"
  shows "from_wire K (to_wire K p) = Ok p \<and> (wf_pca q \<longrightarrow> to_wire K q = to_wire K p \<longrightarrow> q = p)"
  using from_wire_to_wire [OF assms] from_wire_to_wire [OF assms(1,2), of q] by auto

theorem wire_roundtrip_witness:
  "from_wire sample_env (to_wire sample_env sample_root) = Ok sample_root \<and>
    to_wire sample_env sample_child \<noteq> to_wire sample_env sample_root"
  using wire_roundtrip [OF sample_laws(1,3) sample_root_wf, of sample_child] sample_child_wf
  by (auto simp: sample_root_def sample_child_def)

text \<open>Every token the builder returns is signed correctly by its issuer, has at least one
  capability, no two with the same key, and a root hash exactly when it has a parent hash.\<close>

theorem build_and_sign_invariant:
  assumes "signature_laws K" and "build_and_sign K b kp = Ok p"
  shows "try_verify_signature K p = Ok () \<and> issuer p = keypair_public_key K kp \<and>
    capabilities p \<noteq> [] \<and> distinct (map cap_key (capabilities p)) \<and>
    (root_hash p = None) = is_root p"
proof -
  note ok = build_and_sign_Ok [OF assms(2)]
  then obtain m where "try_to_signable K p = Ok m" "pca_signature p = keypair_sign K kp m"
    by blast
  then have "try_verify_signature K p = Ok ()"
    using ok(10) assms(1) by (simp add: try_verify_signature_def)
  with ok show ?thesis by (simp add: is_root_def)
qed

theorem build_and_sign_invariant_witness:
  "\<exists>p. build_and_sign sample_env
     (with_expires_at 100 (with_designated_executor (PublicKey (PkEd25519 (replicate 32 2)))
       (add_capability sample_cap (with_version protocol_version builder_new))))
     sample_root_keypair = Ok p \<and> try_verify_signature sample_env p = Ok ()"
proof -
  let ?b = "with_expires_at 100 (with_designated_executor (PublicKey (PkEd25519 (replicate 32 2)))
       (add_capability sample_cap (with_version protocol_version builder_new)))"
  have "is_ok (build_and_sign sample_env ?b sample_root_keypair)"
    by (simp add: build_and_sign_def with_expires_at_def with_designated_executor_def
        add_capability_def with_version_def builder_new_def find_duplicate_capability_key_def
        encode_canonical_def Let_def)
  then obtain p where p: "build_and_sign sample_env ?b sample_root_keypair = Ok p"
    by (auto simp: is_ok_iff)
  with build_and_sign_invariant [OF sample_laws(2) p] show ?thesis by blast
qed

text \<open>C1. Chain validation accepts exactly the chains of 1 to 100 tokens that start at a root of the
  trusted authority, all of whose signatures verify, none of which has expired, and in which every
  later token names the hash of its parent and of the root, was issued by the key its parent
  designates, expires no later than its parent, and holds only capabilities accepted by the
  validator against the parent capability of the same key.\<close>

theorem validate_chain_exact:
  "validate_chain K chain auth v now = Ok () \<longleftrightarrow>
     chain \<noteq> [] \<and> length chain \<le> 100 \<and>
     prev_hash (chain ! 0) = None \<and> root_hash (chain ! 0) = None \<and> issuer (chain ! 0) = auth \<and>
     is_ok (try_hash K (chain ! 0)) \<and>
     (\<forall>i < length chain. try_verify_signature K (chain ! i) = Ok () \<and> now < expires_at (chain ! i)) \<and>
     (\<forall>i. Suc i < length chain \<longrightarrow>
        expires_at (chain ! Suc i) \<le> expires_at (chain ! i) \<and>
        map_ok Some (try_hash K (chain ! i)) = Ok (prev_hash (chain ! Suc i)) \<and>
        map_ok Some (try_hash K (chain ! 0)) = Ok (root_hash (chain ! Suc i)) \<and>
        designated_executor (chain ! i) = PublicKey (issuer (chain ! Suc i)) \<and>
        keyed_step (accepts v) (capabilities (chain ! i)) (capabilities (chain ! Suc i)))"
  (is "_ \<longleftrightarrow> ?rhs")
proof -
  have hd: "chain \<noteq> [] \<Longrightarrow> hd chain = chain ! 0" by (rule hd_conv_nth)
  show ?thesis
    unfolding validate_chain_Ok chain_ok_def linked_def successively_conv_nth max_chain_depth_def
    using hd by (auto simp: is_root_def is_ok_iff all_set_conv_all_nth) blast
qed

theorem validate_chain_exact_witness:
  "designated_executor ([sample_root, sample_child] ! 0) =
     PublicKey (issuer ([sample_root, sample_child] ! Suc 0))"
  using sample_chain_accepted unfolding validate_chain_exact by simp

text \<open>Every hop can validate what it received: all non-empty prefixes of an accepted chain are
  accepted, and the tokens expire in order, so that no delegate outlives the root.\<close>

theorem validate_chain_prefix:
  assumes "validate_chain K chain auth v now = Ok ()" and "0 < n"
  shows "validate_chain K (take n chain) auth v now = Ok () \<and>
    sorted_wrt (\<lambda>p q. expires_at q \<le> expires_at p) chain"
proof
  from assms show "validate_chain K (take n chain) auth v now = Ok ()"
    by (auto simp: validate_chain_Ok chain_ok_prefix hd_take)
  from assms(1) show "sorted_wrt (\<lambda>p q. expires_at q \<le> expires_at p) chain"
    unfolding validate_chain_Ok sorted_wrt_iff_nth_less
    by (auto intro: chain_ok_expiry)
qed

theorem validate_chain_prefix_witness:
  "validate_chain sample_env [sample_root] (PkEd25519 (replicate 32 1)) strict_validate 50 = Ok ()"
  using validate_chain_prefix [OF sample_chain_accepted, of 1] by simp

text \<open>No escalation: with the strict validator the last delegate holds a subset of the root's
  capabilities, and with any type-dispatching validator each of its capabilities has the key and
  the type of one of the root's.\<close>

theorem validate_chain_no_escalation:
  assumes "validate_chain K chain auth v now = Ok ()"
    and "v = strict_validate \<or> (\<exists>V. v = type_dispatch_validate V)"
    and "c \<in> set (capabilities (last chain))"
  shows "\<exists>p \<in> set (capabilities (hd chain)). cap_key p = cap_key c \<and>
    capability_type p = capability_type c \<and> (v = strict_validate \<longrightarrow> p = c)"
proof (cases "v = strict_validate")
  case True
  with strict.validate_chain_attenuates assms(1,3) show ?thesis by auto
next
  case False
  with assms(2) obtain V where "v = type_dispatch_validate V" by blast
  with dispatch.validate_chain_attenuates [of K chain auth V now c] assms(1,3) False
  show ?thesis by auto
qed

theorem validate_chain_no_escalation_witness:
  "\<exists>p \<in> set (capabilities (hd [sample_root, sample_child])). cap_key p = cap_key sample_cap"
  using validate_chain_no_escalation [OF sample_chain_accepted, of sample_cap]
  by (auto simp: sample_child_def)

lemma hash_to_hex_inject:
  "hex_laws K \<Longrightarrow> hash_to_hex K g = hash_to_hex K h \<longleftrightarrow> g = h"
  by (cases g; cases h) (metis hash_to_hex_def hex_laws_def pca_hash.sel sum.inject(2))

lemma signable_prev_hash:
  "hex_laws K \<Longrightarrow> build_signable_ref K p = build_signable_ref K q \<Longrightarrow> prev_hash p = prev_hash q"
  by (cases "prev_hash p"; cases "prev_hash q")
    (auto simp: build_signable_ref_def hash_to_hex_inject)

text \<open>Counted from the last token, the tokens of two accepted chains agree as long as no hashes collide.\<close>

lemma accepted_agree:
  assumes ok: "chain_ok K f v now ps" "chain_ok K g w now' qs" and "hex_laws K"
    and "build_signable_ref K (last qs) = build_signable_ref K (last ps)"
    and collide: "\<And>i. i < length ps \<Longrightarrow> i < length qs \<Longrightarrow> try_hash K (rev ps ! i) = try_hash K (rev qs ! i) \<Longrightarrow>
      build_signable_ref K (rev ps ! i) = build_signable_ref K (rev qs ! i)"
  shows "i < length ps \<Longrightarrow> i < length qs \<Longrightarrow> build_signable_ref K (rev ps ! i) = build_signable_ref K (rev qs ! i)"
proof (induction i)
  case 0
  then show ?case using assms(4) by (simp add: rev_nth last_conv_nth)
next
  case (Suc i)
  have link: "\<exists>h. prev_hash (rev rs ! i) = Some h \<and> try_hash K (rev rs ! Suc i) = Ok h"
    if "chain_ok K f v now rs" "Suc i < length rs" for rs f v now
  proof -
    have "rev rs ! i = rs ! Suc (length rs - Suc (Suc i))" "rev rs ! Suc i = rs ! (length rs - Suc (Suc i))"
      using that(2) by (simp_all add: rev_nth Suc_diff_Suc)
    moreover have "Suc (length rs - Suc (Suc i)) < length rs" using that(2) by linarith
    ultimately show ?thesis using chain_ok_linked [OF that(1)] by (fastforce simp: linked_def)
  qed
  from Suc have "build_signable_ref K (rev ps ! i) = build_signable_ref K (rev qs ! i)" by simp
  from signable_prev_hash [OF assms(3) this] link [OF ok(1)] link [OF ok(2)] Suc.prems
  have "try_hash K (rev ps ! Suc i) = try_hash K (rev qs ! Suc i)" by auto
  with collide Suc.prems show ?case by blast
qed

text \<open>A root names no parent, any other token does: chains that agree have the same length.\<close>

lemma accepted_length:
  assumes ok: "chain_ok K f v now ps" "chain_ok K g w now' qs" and "hex_laws K"
    and agree: "\<And>i. i < length ps \<Longrightarrow> i < length qs \<Longrightarrow> build_signable_ref K (rev ps ! i) = build_signable_ref K (rev qs ! i)"
  shows "\<not> length ps < length qs"
proof
  assume less: "length ps < length qs"
  let ?i = "length ps - 1"
  from ok have ne: "ps \<noteq> []" "qs \<noteq> []" by (simp_all add: chain_ok_def)
  then have "rev ps ! ?i = hd ps" by (simp add: rev_nth hd_conv_nth)
  moreover from ok(1) have "prev_hash (hd ps) = None" by (simp add: chain_ok_def is_root_def)
  moreover have "rev qs ! ?i = qs ! Suc (length qs - Suc (length ps))" using less ne by (simp add: rev_nth Suc_diff_Suc)
  moreover have "\<exists>h. prev_hash (qs ! Suc (length qs - Suc (length ps))) = Some h"
  proof -
    have "Suc (length qs - Suc (length ps)) < length qs" using less ne by (cases ps) auto
    with chain_ok_linked [OF ok(2)] show ?thesis by (fastforce simp: linked_def)
  qed
  moreover have "prev_hash (rev ps ! ?i) = prev_hash (rev qs ! ?i)"
    using signable_prev_hash [OF assms(3) agree [of ?i]] less ne by simp
  ultimately show False by simp
qed

text \<open>C10. The chain cannot be altered behind its last token. When a chain is accepted, every other list of
  tokens whose last one has the same signed content is refused: with changed tokens, with tokens left out
  or put in, under every authority and validator and at every time. The one way out is a collision, two
  tokens of different content at the same distance from the end with the same hash.\<close>

theorem validate_chain_tamper_evident:
  assumes "validate_chain K chain auth v now = Ok ()" and "hex_laws K"
    and "build_signable_ref K (last chain') = build_signable_ref K (last chain)"
    and "map (build_signable_ref K) chain' \<noteq> map (build_signable_ref K) chain"
    and collide: "\<And>i. i < length chain \<Longrightarrow> i < length chain' \<Longrightarrow> try_hash K (rev chain ! i) = try_hash K (rev chain' ! i) \<Longrightarrow>
      build_signable_ref K (rev chain ! i) = build_signable_ref K (rev chain' ! i)"
  shows "\<exists>e. validate_chain K chain' auth' v' now' = Err e"
proof (rule ccontr)
  assume "\<not> ?thesis"
  then have "validate_chain K chain' auth' v' now' = Ok ()" by (cases "validate_chain K chain' auth' v' now'") auto
  with assms(1) have ok: "chain_ok K (\<lambda>parent p. designated_executor parent = PublicKey (issuer p)) v now chain"
    "chain_ok K (\<lambda>parent p. designated_executor parent = PublicKey (issuer p)) v' now' chain'"
    by (simp_all add: validate_chain_Ok)
  have agree: "build_signable_ref K (rev chain ! i) = build_signable_ref K (rev chain' ! i)"
    if "i < length chain" "i < length chain'" for i
    using accepted_agree [OF ok assms(2,3)] collide that by blast
  have "length chain = length chain'"
    using accepted_length [OF ok assms(2) agree] accepted_length [OF ok(2,1) assms(2)] agree by (metis nat_neq_iff)
  with agree have "map (build_signable_ref K) (rev chain') = map (build_signable_ref K) (rev chain)"
    by (intro nth_equalityI) simp_all
  with assms(4) show False by (simp add: rev_map [symmetric])
qed

theorem validate_chain_tamper_evident_witness:
  "(\<exists>e. validate_chain sample_env [sample_root\<lparr>capabilities := [sample_cap, sample_cap]\<rparr>, sample_child]
      (PkEd25519 (replicate 32 1)) strict_validate 50 = Err e) \<and>
   (\<exists>e. validate_chain sample_env [sample_child] (PkEd25519 (replicate 32 2)) strict_validate 50 = Err e)"
proof
  let ?chain = "[sample_root, sample_child]"
  let ?changed = "[sample_root\<lparr>capabilities := [sample_cap, sample_cap]\<rparr>, sample_child]"
  have "build_signable_ref sample_env (rev ?chain ! i) = build_signable_ref sample_env (rev ?changed ! i)"
    if "i < 2" "try_hash sample_env (rev ?chain ! i) = try_hash sample_env (rev ?changed ! i)" for i
    using that by (auto simp: less_2_cases_iff sample_defs)
  then show "\<exists>e. validate_chain sample_env ?changed (PkEd25519 (replicate 32 1)) strict_validate 50 = Err e"
    using validate_chain_tamper_evident [OF sample_chain_accepted sample_laws(1), of ?changed]
    by (auto simp: sample_defs)
  show "\<exists>e. validate_chain sample_env [sample_child] (PkEd25519 (replicate 32 2)) strict_validate 50 = Err e"
    using validate_chain_tamper_evident [OF sample_chain_accepted sample_laws(1), of "[sample_child]"] by auto
qed

end
