(* ===== verification/Cta.thy ===== *)
theory Cta
  imports Chain
begin

text \<open>
  The causal transaction authority, \<open>crates/amla-protocol/src/cta.rs\<close>: freshness challenges and
  their validators, executor resolvers, proofs of continuity and the submission handler. A
  validator of the trait \<open>FreshnessValidator\<close> keeps its state behind a mutex, so a call is a
  function from the state to an outcome and the next state, and \<open>submit\<close> returns the authority
  after the call. A \<open>Duration\<close> is its number of milliseconds, an \<open>i64\<close>.
\<close>

type_synonym i64 = "64 word"

section \<open>Freshness\<close>

datatype freshness_challenge =
    Random bytes
  | Timestamp (unix_millis: u64) (max_skew_ms: u32)

record continuation_request =
  req_capabilities :: "capability_data list"
  req_designated_executor :: designated_executor
  req_expires_at :: datetime
  req_payload :: "bytes option"

text \<open>
  The encodings of challenges and requests are expected to succeed by the code (\<open>expect\<close>), so the
  primitives are total here.
\<close>

record cta_env = pca_env +
  encode_challenge :: "freshness_challenge \<Rightarrow> bytes"
  encode_request :: "continuation_request \<Rightarrow> bytes"
  timestamp_millis :: "datetime \<Rightarrow> i64"

definition poc_domain_separator :: bytes where
  "poc_domain_separator = map of_char ''PIC:PoC:v1:''"

definition unsigned_abs :: "i64 \<Rightarrow> u64" where
  "unsigned_abs w = (if sint w < 0 then - w else w)"

definition timestamp_at_millis :: "u64 \<Rightarrow> i64 \<Rightarrow> freshness_challenge" where
  "timestamp_at_millis millis max_skew =
     Timestamp millis (ucast (min (unsigned_abs max_skew) (ucast (- 1 :: u32))))"

definition timestamp_at :: "'a cta_env_scheme \<Rightarrow> datetime \<Rightarrow> i64 \<Rightarrow> freshness_challenge" where
  "timestamp_at K time max_skew = timestamp_at_millis (timestamp_millis K time) max_skew"

datatype freshness_error = TimestampSkew | Replay

fun display_freshness_error :: "freshness_error \<Rightarrow> string" where
  "display_freshness_error TimestampSkew = ''timestamp skew exceeds maximum allowed''"
| "display_freshness_error Replay = ''freshness challenge replay detected''"

type_synonym ('s, 'a) freshness_validator =
  "'a cta_env_scheme \<Rightarrow> freshness_challenge \<Rightarrow> datetime \<Rightarrow> 's \<Rightarrow>
     (unit, freshness_error) result \<times> 's"

text \<open>\<open>u64::abs_diff\<close>.\<close>

definition abs_diff :: "u64 \<Rightarrow> u64 \<Rightarrow> u64" where
  "abs_diff a b = (if a < b then b - a else a - b)"

definition check_skew :: "u64 \<Rightarrow> i64 \<Rightarrow> u64 \<Rightarrow> u32 \<Rightarrow> (unit, freshness_error) result" where
  "check_skew now_ms max_timestamp_skew millis skew_ms =
     (let our_max_ms = unsigned_abs max_timestamp_skew;
          allowed_skew = min our_max_ms (ucast skew_ms)
      in if abs_diff now_ms millis > allowed_skew then Err TimestampSkew else Ok ())"

text \<open>The state of the stateless validator is its configuration, which no call changes.\<close>

fun stateless_validate :: "(i64, 'a) freshness_validator" where
  "stateless_validate K (Random nonce) now max_timestamp_skew = (Ok (), max_timestamp_skew)"
| "stateless_validate K (Timestamp millis skew_ms) now max_timestamp_skew =
     (check_skew (timestamp_millis K now) max_timestamp_skew millis skew_ms, max_timestamp_skew)"

record stateful_freshness =
  max_timestamp_skew :: i64
  seen_random :: "bytes set"

definition stateful_with_max_skew :: "i64 \<Rightarrow> stateful_freshness" where
  "stateful_with_max_skew skew = \<lparr>max_timestamp_skew = skew, seen_random = {}\<rparr>"

fun stateful_validate :: "(stateful_freshness, 'a) freshness_validator" where
  "stateful_validate K (Random nonce) now self =
     (if nonce \<in> seen_random self then (Err Replay, self)
      else (Ok (), self\<lparr>seen_random := insert nonce (seen_random self)\<rparr>))"
| "stateful_validate K (Timestamp millis skew_ms) now self =
     (check_skew (timestamp_millis K now) (max_timestamp_skew self) millis skew_ms, self)"

definition permissive_freshness_validate :: "(unit, 'a) freshness_validator" where
  "permissive_freshness_validate K c now self = (Ok (), self)"

section \<open>Executor resolution\<close>

record executor_resolver =
  resolve_characteristic :: "public_key \<Rightarrow> executor_characteristic \<Rightarrow> bytes option \<Rightarrow> bool"
  resolve_cta_reference :: "public_key \<Rightarrow> cta_reference \<Rightarrow> bytes option \<Rightarrow> bool"

definition reject_all_resolver :: executor_resolver where
  "reject_all_resolver = \<lparr>resolve_characteristic = (\<lambda>_ _ _. False),
     resolve_cta_reference = (\<lambda>_ _ _. False)\<rparr>"

definition permissive_resolver :: executor_resolver where
  "permissive_resolver = \<lparr>resolve_characteristic = (\<lambda>_ _ _. True),
     resolve_cta_reference = (\<lambda>_ _ _. True)\<rparr>"

section \<open>Proofs of continuity\<close>

record proof_of_continuity =
  poc_parent_hash :: pca_hash
  executor_key :: public_key
  poc_signature :: signature
  poc_challenge :: freshness_challenge
  characteristic_proof :: "bytes option"

definition build_message ::
  "'a cta_env_scheme \<Rightarrow> proof_of_continuity \<Rightarrow> continuation_request \<Rightarrow> bytes" where
  "build_message K self request =
     poc_domain_separator @ hash_bytes (poc_parent_hash self) @
     encode_challenge K (poc_challenge self) @ encode_request K request @
     (case characteristic_proof self of Some p \<Rightarrow> p | None \<Rightarrow> [])"

definition build_internal ::
  "'a cta_env_scheme \<Rightarrow> pca \<Rightarrow> keypair \<Rightarrow> continuation_request \<Rightarrow> freshness_challenge \<Rightarrow> bytes option
    \<Rightarrow> (proof_of_continuity, protocol_error) result" where
  "build_internal K parent executor request challenge char_proof =
     and_then (try_hash K parent) (\<lambda>parent_hash.
       (let poc_partial = \<lparr>poc_parent_hash = parent_hash,
              executor_key = keypair_public_key K executor, poc_signature = signature_placeholder,
              poc_challenge = challenge, characteristic_proof = char_proof\<rparr>;
            message = build_message K poc_partial request
        in Ok \<lparr>poc_parent_hash = parent_hash,
              executor_key = keypair_public_key K executor,
              poc_signature = keypair_sign K executor message,
              poc_challenge = challenge, characteristic_proof = char_proof\<rparr>))"

definition poc_build ::
  "'a cta_env_scheme \<Rightarrow> pca \<Rightarrow> keypair \<Rightarrow> continuation_request \<Rightarrow> freshness_challenge
    \<Rightarrow> (proof_of_continuity, protocol_error) result" where
  "poc_build K parent executor request challenge =
     build_internal K parent executor request challenge None"

definition poc_build_with_characteristic ::
  "'a cta_env_scheme \<Rightarrow> pca \<Rightarrow> keypair \<Rightarrow> continuation_request \<Rightarrow> freshness_challenge \<Rightarrow> bytes
    \<Rightarrow> (proof_of_continuity, protocol_error) result" where
  "poc_build_with_characteristic K parent executor request challenge char_proof =
     build_internal K parent executor request challenge (Some char_proof)"

definition poc_verify_signature ::
  "'a cta_env_scheme \<Rightarrow> proof_of_continuity \<Rightarrow> continuation_request
    \<Rightarrow> (unit, protocol_error) result" where
  "poc_verify_signature K self request =
     public_key_verify K (executor_key self) (build_message K self request) (poc_signature self)"

section \<open>The authority\<close>

datatype cta_error =
    UntrustedRootAuthority string
  | UntrustedCta string
  | ParentExpired
  | FreshnessError freshness_error
  | CtaHashMismatch
  | ExecutorMismatch
  | CharacteristicNotSatisfied
  | CtaReferenceNotAuthorized
  | WrongCta
  | CtaExpiryExceedsParent
  | CtaUnknownCapabilityKey string
  | CtaDuplicateCapabilityKey string
  | CtaInvalidTransition transition_error
  | SignatureError string
  | PcaError string

fun display_cta_error :: "cta_error \<Rightarrow> string" where
  "display_cta_error (UntrustedRootAuthority i) =
     ''root PCA issuer not trusted: '' @ i"
| "display_cta_error (UntrustedCta i) =
     ''child PCA issuer not trusted CTA: '' @ i"
| "display_cta_error ParentExpired =
     ''parent PCA has expired''"
| "display_cta_error (FreshnessError e) =
     ''freshness challenge failed: '' @ display_freshness_error e"
| "display_cta_error CtaHashMismatch =
     ''parent hash mismatch in proof of continuity''"
| "display_cta_error ExecutorMismatch =
     ''executor does not match parent'' @ [CHR 0x27] @ ''s designated executor''"
| "display_cta_error CharacteristicNotSatisfied =
     ''executor does not satisfy required characteristic''"
| "display_cta_error CtaReferenceNotAuthorized =
     ''executor not authorized for CTA reference designation''"
| "display_cta_error WrongCta =
     ''submission sent to wrong CTA''"
| "display_cta_error CtaExpiryExceedsParent =
     ''child expiry exceeds parent expiry''"
| "display_cta_error (CtaUnknownCapabilityKey k) =
     ''unknown capability key: '' @ k"
| "display_cta_error (CtaDuplicateCapabilityKey k) =
     ''duplicate capability key: '' @ k"
| "display_cta_error (CtaInvalidTransition e) =
     ''invalid capability transition: '' @ reason e"
| "display_cta_error (SignatureError m) =
     ''signature verification failed: '' @ m"
| "display_cta_error (PcaError m) =
     ''PCA error: '' @ m"

definition from_error :: "protocol_error \<Rightarrow> cta_error" where
  "from_error e = PcaError (display_error e)"

record 's cta =
  cta_keypair :: keypair
  cta_validator :: validator
  root_authorities :: "public_key list"
  trusted_ctas :: "public_key list"
  resolver :: executor_resolver
  freshness :: 's

definition cta_public_key :: "'a cta_env_scheme \<Rightarrow> 's cta \<Rightarrow> public_key" where
  "cta_public_key K self = keypair_public_key K (cta_keypair self)"

definition check_designation ::
  "'a cta_env_scheme \<Rightarrow> 's cta \<Rightarrow> pca \<Rightarrow> proof_of_continuity \<Rightarrow> (unit, cta_error) result" where
  "check_designation K self parent poc =
     (case designated_executor parent of
        PublicKey pk \<Rightarrow> guard_err (executor_key poc \<noteq> pk) ExecutorMismatch
      | Characteristic char \<Rightarrow>
          guard_err (\<not> resolve_characteristic (resolver self) (executor_key poc) char
              (characteristic_proof poc)) CharacteristicNotSatisfied
      | CtaReference ref \<Rightarrow>
          and_then (guard_err (cta_key ref \<noteq> cta_public_key K self) WrongCta) (\<lambda>_.
          guard_err (\<not> resolve_cta_reference (resolver self) (executor_key poc) ref
              (characteristic_proof poc)) CtaReferenceNotAuthorized))"

definition verify_proof_of_continuity ::
  "'a cta_env_scheme \<Rightarrow> 's cta \<Rightarrow> pca \<Rightarrow> proof_of_continuity \<Rightarrow> continuation_request
    \<Rightarrow> (unit, cta_error) result" where
  "verify_proof_of_continuity K self parent poc request =
     and_then (map_err from_error (try_hash K parent)) (\<lambda>parent_hash.
     and_then (guard_err (poc_parent_hash poc \<noteq> parent_hash) CtaHashMismatch) (\<lambda>_.
     and_then (check_designation K self parent poc) (\<lambda>_.
     map_err (\<lambda>e. SignatureError (display_error e)) (poc_verify_signature K poc request))))"

text \<open>The two loops of \<open>verify_capability_attenuation\<close>.\<close>

fun cta_parent_map ::
  "(string \<rightharpoonup> capability_data) \<Rightarrow> capability_data list
    \<Rightarrow> (string \<rightharpoonup> capability_data, cta_error) result" where
  "cta_parent_map m [] = Ok m"
| "cta_parent_map m (cap # caps) =
     (if m (cap_key cap) \<noteq> None then Err (CtaDuplicateCapabilityKey (cap_key cap))
      else cta_parent_map (m(cap_key cap \<mapsto> cap)) caps)"

fun cta_check_caps ::
  "(string \<rightharpoonup> capability_data) \<Rightarrow> validator \<Rightarrow> string set \<Rightarrow> capability_data list
    \<Rightarrow> (unit, cta_error) result" where
  "cta_check_caps m v seen_keys [] = Ok ()"
| "cta_check_caps m v seen_keys (child_cap # caps) =
     (if cap_key child_cap \<in> seen_keys then Err (CtaDuplicateCapabilityKey (cap_key child_cap))
      else
        and_then (ok_or (CtaUnknownCapabilityKey (cap_key child_cap)) (m (cap_key child_cap)))
          (\<lambda>parent_cap.
        and_then (map_err CtaInvalidTransition (v parent_cap child_cap)) (\<lambda>_.
        cta_check_caps m v (insert (cap_key child_cap) seen_keys) caps)))"

definition verify_capability_attenuation ::
  "'s cta \<Rightarrow> pca \<Rightarrow> continuation_request \<Rightarrow> (unit, cta_error) result" where
  "verify_capability_attenuation self parent request =
     and_then (cta_parent_map Map.empty (capabilities parent)) (\<lambda>parent_caps.
       cta_check_caps parent_caps (cta_validator self) {} (req_capabilities request))"

text \<open>Step 2 of \<open>submit\<close>.\<close>

definition check_parent_issuer ::
  "'a cta_env_scheme \<Rightarrow> 's cta \<Rightarrow> pca \<Rightarrow> (unit, cta_error) result" where
  "check_parent_issuer K self parent =
     (if is_root parent then
        guard_err (issuer parent \<notin> set (root_authorities self))
          (UntrustedRootAuthority (public_key_to_hex K (issuer parent)))
      else
        guard_err (issuer parent \<notin> set (trusted_ctas self))
          (UntrustedCta (public_key_to_hex K (issuer parent))))"

text \<open>Step 8 of \<open>submit\<close>: the child token.\<close>

definition child_root_hash ::
  "'a cta_env_scheme \<Rightarrow> pca \<Rightarrow> (pca_hash, cta_error) result" where
  "child_root_hash K parent =
     (case root_hash parent of
        Some root \<Rightarrow> Ok root
      | None \<Rightarrow>
          if is_root parent then map_err from_error (try_hash K parent)
          else Err (PcaError ''non-root parent is missing root_hash''))"

definition child_builder ::
  "pca \<Rightarrow> proof_of_continuity \<Rightarrow> continuation_request \<Rightarrow> pca_hash \<Rightarrow> pca_builder" where
  "child_builder parent poc request rh =
     (let builder = with_expires_at (req_expires_at request) (with_root_hash rh
            (with_prev_hash (poc_parent_hash poc)
              (with_designated_executor (req_designated_executor request)
                (with_version (pca_version parent) builder_new))));
          builder = fold add_capability (req_capabilities request) builder
      in case req_payload request of
           Some p \<Rightarrow> with_payload_bytes p builder
         | None \<Rightarrow> builder)"

text \<open>Steps 1 to 3 of \<open>submit\<close>, before the freshness validator is called.\<close>

definition check_parent ::
  "'a cta_env_scheme \<Rightarrow> 's cta \<Rightarrow> pca \<Rightarrow> datetime \<Rightarrow> (unit, cta_error) result" where
  "check_parent K self parent now =
     and_then (map_err (\<lambda>e. SignatureError (display_error e)) (try_verify_signature K parent))
       (\<lambda>_.
     and_then (check_parent_issuer K self parent) (\<lambda>_.
     guard_err (is_expired_at parent now) ParentExpired))"

text \<open>Steps 5 to 8, which do not touch the freshness state.\<close>

definition submit_checked ::
  "'a cta_env_scheme \<Rightarrow> 's cta \<Rightarrow> pca \<Rightarrow> proof_of_continuity \<Rightarrow> continuation_request
    \<Rightarrow> (pca, cta_error) result" where
  "submit_checked K self parent poc request =
     and_then (verify_proof_of_continuity K self parent poc request) (\<lambda>_.
     and_then (verify_capability_attenuation self parent request) (\<lambda>_.
     and_then (guard_err (req_expires_at request > expires_at parent) CtaExpiryExceedsParent) (\<lambda>_.
     and_then (child_root_hash K parent) (\<lambda>rh.
     map_err from_error
       (build_and_sign K (child_builder parent poc request rh) (cta_keypair self))))))"

definition submit ::
  "'a cta_env_scheme \<Rightarrow> ('s, 'a) freshness_validator \<Rightarrow> 's cta \<Rightarrow> pca \<Rightarrow> proof_of_continuity
    \<Rightarrow> continuation_request \<Rightarrow> datetime \<Rightarrow> (pca, cta_error) result \<times> 's cta" where
  "submit K fresh self parent poc request now =
     (case check_parent K self parent now of
        Inl e \<Rightarrow> (Err e, self)
      | Inr _ \<Rightarrow>
          (case fresh K (poc_challenge poc) now (freshness self) of
             (Inl e, s) \<Rightarrow> (Err (FreshnessError e), self\<lparr>freshness := s\<rparr>)
           | (Inr _, s) \<Rightarrow>
               (let self' = self\<lparr>freshness := s\<rparr>
                in (submit_checked K self' parent poc request, self'))))"

record cta_submission =
  parent_pca :: pca
  sub_proof :: proof_of_continuity
  continuation :: continuation_request

definition submit_request ::
  "'a cta_env_scheme \<Rightarrow> ('s, 'a) freshness_validator \<Rightarrow> 's cta \<Rightarrow> cta_submission \<Rightarrow> datetime
    \<Rightarrow> (pca, cta_error) result \<times> 's cta" where
  "submit_request K fresh self submission now =
     submit K fresh self (parent_pca submission) (sub_proof submission) (continuation submission) now"

section \<open>Configuration\<close>

definition cta_builder_new :: "keypair \<Rightarrow> unit cta" where
  "cta_builder_new kp = \<lparr>cta_keypair = kp, cta_validator = permissive_validate,
     root_authorities = [], trusted_ctas = [], resolver = reject_all_resolver, freshness = ()\<rparr>"

definition with_validator :: "validator \<Rightarrow> 's cta \<Rightarrow> 's cta" where
  "with_validator v self = self\<lparr>cta_validator := v\<rparr>"

definition with_resolver :: "executor_resolver \<Rightarrow> 's cta \<Rightarrow> 's cta" where
  "with_resolver r self = self\<lparr>resolver := r\<rparr>"

definition with_freshness :: "'t \<Rightarrow> 's cta \<Rightarrow> 't cta" where
  "with_freshness f self = \<lparr>cta_keypair = cta_keypair self, cta_validator = cta_validator self,
     root_authorities = root_authorities self, trusted_ctas = trusted_ctas self,
     resolver = resolver self, freshness = f\<rparr>"

definition trust_root_authority :: "public_key \<Rightarrow> 's cta \<Rightarrow> 's cta" where
  "trust_root_authority pk self = self\<lparr>root_authorities := root_authorities self @ [pk]\<rparr>"

definition trust_root_authorities :: "public_key list \<Rightarrow> 's cta \<Rightarrow> 's cta" where
  "trust_root_authorities pks self = self\<lparr>root_authorities := root_authorities self @ pks\<rparr>"

definition trust_cta :: "public_key \<Rightarrow> 's cta \<Rightarrow> 's cta" where
  "trust_cta pk self = self\<lparr>trusted_ctas := trusted_ctas self @ [pk]\<rparr>"

definition trust_ctas :: "public_key list \<Rightarrow> 's cta \<Rightarrow> 's cta" where
  "trust_ctas pks self = self\<lparr>trusted_ctas := trusted_ctas self @ pks\<rparr>"

end
