(* ===== verification/CtaSound.thy ===== *)
theory CtaSound
  imports Cta ChainSound
begin

text \<open>
  What a submission to the authority guarantees: the exact acceptance condition, the child's link
  to its parent, extension of accepted chains, and replay protection by the stateful freshness
  validator.
\<close>

section \<open>The keyed loops\<close>

lemma cta_parent_map_Ok:
  "cta_parent_map m caps = Ok m' \<longleftrightarrow> build_parent_map i m caps = Ok m'"
  by (induction caps arbitrary: m) auto

lemma cta_check_caps_Ok:
  "cta_check_caps m v seen caps = Ok () \<longleftrightarrow> check_child_caps i m v seen caps = Ok ()"
  by (induction caps arbitrary: seen) auto

lemma verify_capability_attenuation_Ok [simp]:
  "verify_capability_attenuation self parent request = Ok u \<longleftrightarrow>
     keyed_step (accepts (cta_validator self)) (capabilities parent) (req_capabilities request)"
proof -
  have "verify_capability_attenuation self parent request = Ok () \<longleftrightarrow>
      validate_keyed_transitions i (capabilities parent) (req_capabilities request)
        (cta_validator self) = Ok ()" for i
    by (simp add: verify_capability_attenuation_def validate_keyed_transitions_def
        cta_parent_map_Ok [where i = i] cta_check_caps_Ok [where i = i])
  then show ?thesis by (simp add: validate_keyed_transitions_Ok)
qed

section \<open>The checks of a submission\<close>

definition designation_ok ::
  "'a cta_env_scheme \<Rightarrow> 's cta \<Rightarrow> pca \<Rightarrow> proof_of_continuity \<Rightarrow> bool" where
  "designation_ok K self parent poc =
     (case designated_executor parent of
        PublicKey pk \<Rightarrow> executor_key poc = pk
      | Characteristic char \<Rightarrow>
          resolve_characteristic (resolver self) (executor_key poc) char (characteristic_proof poc)
      | CtaReference ref \<Rightarrow>
          cta_key ref = cta_public_key K self \<and>
          resolve_cta_reference (resolver self) (executor_key poc) ref (characteristic_proof poc))"

definition issuer_trusted :: "'s cta \<Rightarrow> pca \<Rightarrow> bool" where
  "issuer_trusted self parent =
     (issuer parent \<in> set (if is_root parent then root_authorities self else trusted_ctas self))"

lemma check_designation_Ok [simp]:
  "check_designation K self parent poc = Ok u \<longleftrightarrow> designation_ok K self parent poc"
  by (auto simp: check_designation_def designation_ok_def split: designated_executor.split)

lemma check_parent_issuer_Ok [simp]:
  "check_parent_issuer K self parent = Ok u \<longleftrightarrow> issuer_trusted self parent"
  by (simp add: check_parent_issuer_def issuer_trusted_def)

lemma verify_proof_of_continuity_Ok [simp]:
  "verify_proof_of_continuity K self parent poc request = Ok u \<longleftrightarrow>
     try_hash K parent = Ok (poc_parent_hash poc) \<and> designation_ok K self parent poc \<and>
     poc_verify_signature K poc request = Ok ()"
  by (auto simp: verify_proof_of_continuity_def)

lemma child_root_hash_Ok [simp]:
  "child_root_hash K parent = Ok rh \<longleftrightarrow>
     root_hash parent = Some rh \<or>
     root_hash parent = None \<and> is_root parent \<and> try_hash K parent = Ok rh"
  by (auto simp: child_root_hash_def split: option.split)

lemma fold_add_capability:
  "fold add_capability caps b = b\<lparr>b_capabilities := b_capabilities b @ caps\<rparr>"
  by (induction caps arbitrary: b) (simp_all add: add_capability_def)

lemma child_builder_fields [simp]:
  "b_version (child_builder parent poc request rh) = Some (pca_version parent)"
  "b_capabilities (child_builder parent poc request rh) = req_capabilities request"
  "b_designated_executor (child_builder parent poc request rh) =
     Some (req_designated_executor request)"
  "b_prev_hash (child_builder parent poc request rh) = Some (poc_parent_hash poc)"
  "b_root_hash (child_builder parent poc request rh) = Some rh"
  "b_expires_at (child_builder parent poc request rh) = Some (req_expires_at request)"
  "b_payload (child_builder parent poc request rh) = req_payload request"
  by (simp_all add: child_builder_def Let_def fold_add_capability with_payload_bytes_def
      with_expires_at_def with_root_hash_def with_prev_hash_def with_designated_executor_def
      with_version_def builder_new_def split: option.split)

lemmas child_built = build_and_sign_Ok [where b = "child_builder parent poc request rh"
    for parent poc request rh, simplified]

lemma check_parent_Ok [simp]:
  "check_parent K self parent now = Ok u \<longleftrightarrow>
     try_verify_signature K parent = Ok () \<and> issuer_trusted self parent \<and> now < expires_at parent"
  by (simp add: check_parent_def is_expired_at_def not_le)

lemma submit_cases:
  "submit K fresh self parent poc request now = (r, self') \<Longrightarrow>
     (\<exists>e. check_parent K self parent now = Err e \<and> r = Err e \<and> self' = self) \<or>
     check_parent K self parent now = Ok () \<and>
     self' = self\<lparr>freshness := snd (fresh K (poc_challenge poc) now (freshness self))\<rparr> \<and>
     (\<forall>child. r = Ok child \<longrightarrow> fst (fresh K (poc_challenge poc) now (freshness self)) = Ok ())"
  by (auto simp: submit_def Let_def split: sum.splits prod.splits)

lemma submit_Ok:
  "fst (submit K fresh self parent poc request now) = Ok child \<longleftrightarrow>
     try_verify_signature K parent = Ok () \<and> issuer_trusted self parent \<and>
     now < expires_at parent \<and>
     fst (fresh K (poc_challenge poc) now (freshness self)) = Ok () \<and>
     try_hash K parent = Ok (poc_parent_hash poc) \<and> designation_ok K self parent poc \<and>
     poc_verify_signature K poc request = Ok () \<and>
     keyed_step (accepts (cta_validator self)) (capabilities parent) (req_capabilities request) \<and>
     req_expires_at request \<le> expires_at parent \<and>
     (\<exists>rh. (root_hash parent = Some rh \<or>
         root_hash parent = None \<and> is_root parent \<and> try_hash K parent = Ok rh) \<and>
       build_and_sign K (child_builder parent poc request rh) (cta_keypair self) = Ok child)"
proof -
  have upd: "designation_ok K (self\<lparr>freshness := s\<rparr>) parent poc =
      designation_ok K self parent poc" for s
    by (simp add: designation_ok_def cta_public_key_def split: designated_executor.split)
  show ?thesis
  proof (cases "check_parent K self parent now")
    case (Inl e)
    then have "\<not> (try_verify_signature K parent = Ok () \<and> issuer_trusted self parent \<and>
        now < expires_at parent)"
      using check_parent_Ok [of K self parent now "()"] by simp
    with Inl show ?thesis by (auto simp: submit_def)
  next
    case (Inr u)
    moreover from Inr have "try_verify_signature K parent = Ok () \<and> issuer_trusted self parent \<and>
        now < expires_at parent" by simp
    ultimately show ?thesis
      by (auto simp: submit_def submit_checked_def Let_def not_le not_less upd
          simp del: check_parent_Ok split: sum.split prod.split)
  qed
qed

lemma submit_freshness:
  "fst (submit K fresh self parent poc request now) = Ok child \<Longrightarrow>
     snd (submit K fresh self parent poc request now) =
       self\<lparr>freshness := snd (fresh K (poc_challenge poc) now (freshness self))\<rparr>"
  using submit_cases [of K fresh self parent poc request now] by (metis Inl_Inr_False prod.collapse)

section \<open>A sequence of submissions\<close>

text \<open>The outcomes of handling the submissions in order, each with the time of its call.\<close>

fun submit_trace ::
  "'a cta_env_scheme \<Rightarrow> ('s, 'a) freshness_validator \<Rightarrow> 's cta \<Rightarrow> (cta_submission \<times> datetime) list
    \<Rightarrow> (cta_submission \<times> (pca, cta_error) result) list" where
  "submit_trace K fresh self [] = []"
| "submit_trace K fresh self ((sub, now) # rest) =
     (let (r, self') = submit_request K fresh self sub now
      in (sub, r) # submit_trace K fresh self' rest)"

fun nonce_of :: "freshness_challenge \<Rightarrow> bytes list" where
  "nonce_of (Random n) = [n]"
| "nonce_of (Timestamp _ _) = []"

definition accepted_nonces :: "(cta_submission \<times> (pca, cta_error) result) list \<Rightarrow> bytes list" where
  "accepted_nonces tr =
     concat (map (\<lambda>(sub, r). if is_ok r then nonce_of (poc_challenge (sub_proof sub)) else []) tr)"

lemma accepted_nonces_simps [simp]:
  "accepted_nonces [] = []"
  "accepted_nonces ((sub, r) # tr) =
     (if is_ok r then nonce_of (poc_challenge (sub_proof sub)) else []) @ accepted_nonces tr"
  by (simp_all add: accepted_nonces_def)

lemma stateful_seen_mono:
  "seen_random s \<subseteq> seen_random (snd (stateful_validate K c now s))"
  by (cases c) auto

lemma stateful_accepts_once:
  "fst (stateful_validate K c now s) = Ok u \<Longrightarrow>
     set (nonce_of c) \<inter> seen_random s = {} \<and>
     set (nonce_of c) \<subseteq> seen_random (snd (stateful_validate K c now s))"
  by (cases c) (auto split: if_splits)

lemma distinct_nonce_of [simp]: "distinct (nonce_of c)"
  by (cases c) simp_all

lemma submit_trace_nonces:
  "distinct (accepted_nonces (submit_trace K stateful_validate self subs)) \<and>
   set (accepted_nonces (submit_trace K stateful_validate self subs)) \<inter>
     seen_random (freshness self) = {}"
proof (induction subs arbitrary: self)
  case Nil
  then show ?case by simp
next
  case (Cons x subs)
  obtain sub now r self' where x: "x = (sub, now)"
    and step: "submit_request K stateful_validate self sub now = (r, self')"
    by (metis prod.exhaust)
  let ?c = "poc_challenge (sub_proof sub)"
  from submit_cases [OF step [unfolded submit_request_def]]
  have mono: "seen_random (freshness self) \<subseteq> seen_random (freshness self')"
    using stateful_seen_mono [of "freshness self" K ?c now] by auto
  have once: "set (nonce_of ?c) \<inter> seen_random (freshness self) = {} \<and>
      set (nonce_of ?c) \<subseteq> seen_random (freshness self')" if "is_ok r"
    using submit_cases [OF step [unfolded submit_request_def]]
      stateful_accepts_once [of K ?c now "freshness self"] that
    by (auto simp: is_ok_iff)
  show ?case
    using Cons.IH [of self'] mono once by (auto simp: x step)
qed

section \<open>An instance\<close>

definition sample_cta_env :: cta_env where
  "sample_cta_env = pca_env.extend sample_env \<lparr>
     encode_challenge = (\<lambda>_. [5]), encode_request = (\<lambda>_. [6]),
     timestamp_millis = (\<lambda>t. of_int t)\<rparr>"

definition sample_request :: continuation_request where
  "sample_request = \<lparr>req_capabilities = [sample_cap],
     req_designated_executor = PublicKey (PkEd25519 (replicate 32 3)),
     req_expires_at = 90, req_payload = None\<rparr>"

definition sample_poc :: proof_of_continuity where
  "sample_poc = \<lparr>poc_parent_hash = PcaHash (replicate 32 1),
     executor_key = PkEd25519 (replicate 32 2),
     poc_signature = SigEd25519 (replicate 32 2 @ replicate 32 45),
     poc_challenge = Random [7], characteristic_proof = None\<rparr>"

definition sample_cta :: "stateful_freshness cta" where
  "sample_cta = with_freshness (stateful_with_max_skew 0)
     (trust_cta (PkEd25519 (replicate 32 2)) (trust_root_authority (PkEd25519 (replicate 32 1))
       (with_validator strict_validate (cta_builder_new sample_agent_keypair))))"

lemma sample_cta_env_fields [simp]:
  "hex_encode sample_cta_env = sample_hex_encode"
  "ed25519_public sample_cta_env = (\<lambda>seed. seed)"
  "ed25519_sign sample_cta_env = (\<lambda>seed m. seed @ replicate 32 (of_nat (length m)))"
  "ed25519_verify sample_cta_env = (\<lambda>pk m s. s = pk @ replicate 32 (of_nat (length m)))"
  "sha256 sample_cta_env = (\<lambda>d. replicate 32 (of_nat (length d)))"
  "encode_signable sample_cta_env = (\<lambda>s. Ok (replicate (length (sg_capabilities s)) 9))"
  "encode_challenge sample_cta_env = (\<lambda>_. [5])" "encode_request sample_cta_env = (\<lambda>_. [6])"
  by (simp_all add: sample_cta_env_def pca_env.extend_def)

lemma sample_cta_laws: "signature_laws sample_cta_env"
  by (simp add: signature_laws_def)

lemma sample_cta_fields [simp]:
  "cta_keypair sample_cta = sample_agent_keypair" "cta_validator sample_cta = strict_validate"
  "root_authorities sample_cta = [PkEd25519 (replicate 32 1)]"
  "trusted_ctas sample_cta = [PkEd25519 (replicate 32 2)]"
  "freshness sample_cta = \<lparr>max_timestamp_skew = 0, seen_random = {}\<rparr>"
  by (simp_all add: sample_cta_def with_freshness_def trust_cta_def trust_root_authority_def
      with_validator_def cta_builder_new_def stateful_with_max_skew_def)

lemma sample_submit:
  "fst (submit sample_cta_env stateful_validate sample_cta sample_root sample_poc sample_request 50)
     = Ok sample_child"
  unfolding submit_Ok
  by (auto simp: issuer_trusted_def designation_ok_def keyed_step_def accepts_def
      strict_validate_def sample_request_def sample_poc_def poc_verify_signature_def
      build_message_def poc_domain_separator_def build_and_sign_def Let_def
      find_duplicate_capability_key_def sample_agent_keypair_def keypair_public_key_def
      keypair_sign_def sample_defs)

lemma sample_root_chain:
  "validate_cta_chain sample_cta_env [sample_root] [PkEd25519 (replicate 32 1)]
     [PkEd25519 (replicate 32 2)] strict_validate 50 = Ok ()"
  by (simp add: validate_cta_chain_Ok chain_ok_def sample_defs)

section \<open>Properties\<close>

text \<open>C2. A submission is accepted only for a live parent whose signature verifies and whose issuer is
  trusted for its position, by an executor the parent's designation admits and who signed the
  proof; the child is signed by the authority, names the parent's hash, holds only capabilities the
  validator accepted against the parent's, is the one requested and does not outlive its parent.\<close>

theorem submit_sound:
  assumes "signature_laws K"
    and "fst (submit K fresh self parent poc request now) = Ok child"
  shows "try_verify_signature K parent = Ok () \<and> now < expires_at parent \<and>
    issuer_trusted self parent \<and> designation_ok K self parent poc \<and>
    poc_verify_signature K poc request = Ok () \<and>
    try_verify_signature K child = Ok () \<and> issuer child = cta_public_key K self \<and>
    try_hash K parent = Ok (the (prev_hash child)) \<and> \<not> is_root child \<and>
    root_hash child = (if is_root parent \<and> root_hash parent = None then prev_hash child
      else root_hash parent) \<and>
    expires_at child \<le> expires_at parent \<and> capabilities child \<noteq> [] \<and>
    keyed_step (accepts (cta_validator self)) (capabilities parent) (capabilities child) \<and>
    capabilities child = req_capabilities request \<and>
    designated_executor child = req_designated_executor request"
proof -
  from assms(2) obtain rh where rh: "root_hash parent = Some rh \<or>
      root_hash parent = None \<and> is_root parent \<and> try_hash K parent = Ok rh"
    and built: "build_and_sign K (child_builder parent poc request rh) (cta_keypair self) = Ok child"
    unfolding submit_Ok by blast
  note child = child_built [OF built]
  from build_and_sign_invariant [OF assms(1) built] have "try_verify_signature K child = Ok ()"
    by simp
  with assms(2) rh child show ?thesis
    unfolding submit_Ok by (auto simp: is_root_def cta_public_key_def)
qed

theorem submit_sound_witness:
  "issuer sample_child = cta_public_key sample_cta_env sample_cta"
  using submit_sound [OF sample_cta_laws sample_submit] by blast

text \<open>C5. The authority extends accepted chains: appending the token it emits for the last token of
  a chain that \<open>validate_cta_chain\<close> accepts gives a chain that is accepted too, with the same
  validator, if the authority is one of the trusted ones and the child has not already expired.\<close>

theorem submit_extends_chain:
  assumes "validate_cta_chain K chain auths ctas (cta_validator self) now = Ok ()"
    and "fst (submit K fresh self (last chain) poc request now) = Ok child"
    and "cta_public_key K self \<in> set ctas" and "now < req_expires_at request"
    and "signature_laws K"
  shows "validate_cta_chain K (chain @ [child]) auths ctas (cta_validator self) now = Ok ()"
proof -
  let ?ok = "\<lambda>parent p. issuer p \<in> set ctas"
  from assms(1) have hd: "issuer (hd chain) \<in> set auths"
    and ok: "chain_ok K ?ok (cta_validator self) now chain"
    by (simp_all add: validate_cta_chain_Ok)
  from ok obtain root where root: "try_hash K (hd chain) = Ok root" and ne: "chain \<noteq> []"
    and links: "successively (linked K ?ok (cta_validator self) root) chain"
    and head: "root_hash (hd chain) = None"
    by (auto simp: chain_ok_def)
  from assms(2) obtain rh where rh: "root_hash (last chain) = Some rh \<or>
      root_hash (last chain) = None \<and> is_root (last chain) \<and> try_hash K (last chain) = Ok rh"
    and built: "build_and_sign K (child_builder (last chain) poc request rh) (cta_keypair self) =
      Ok child"
    unfolding submit_Ok by blast
  have "rh = root"
  proof (cases chain rule: rev_cases)
    case (snoc front p)
    show ?thesis
    proof (cases "front = []")
      case True
      with snoc rh root head show ?thesis by simp
    next
      case False
      with snoc links have "root_hash p = Some root"
        by (simp add: successively_append_iff linked_def)
      with snoc rh show ?thesis by simp
    qed
  qed (use ne in simp)
  moreover note child_built [OF built] submit_sound [OF assms(5,2)]
  ultimately have "linked K ?ok (cta_validator self) root (last chain) child"
    "try_verify_signature K child = Ok ()" "now < expires_at child"
    using assms(3,4) by (auto simp: linked_def)
  with ok root links ne have "chain_ok K ?ok (cta_validator self) now (chain @ [child])"
    by (auto simp: chain_ok_def successively_append_iff)
  with hd ne show ?thesis by (simp add: validate_cta_chain_Ok)
qed

theorem submit_extends_chain_witness:
  "validate_cta_chain sample_cta_env [sample_root, sample_child] [PkEd25519 (replicate 32 1)]
     [PkEd25519 (replicate 32 2)] strict_validate 50 = Ok ()"
  using submit_extends_chain [where chain = "[sample_root]" and self = sample_cta,
      OF _ _ _ _ sample_cta_laws, of _ _ 50 stateful_validate sample_poc sample_request sample_child]
    sample_root_chain sample_submit
  by (simp add: cta_public_key_def sample_agent_keypair_def keypair_public_key_def
      sample_request_def)

text \<open>C8. With the stateful freshness validator no random nonce is accepted twice, whatever sequence of
  submissions the authority handles.\<close>

theorem submit_no_replay:
  "distinct (accepted_nonces (submit_trace K stateful_validate self subs))"
  using submit_trace_nonces [of K self subs] by blast

text \<open>A nonce is consumed even by a submission whose proof fails: after a call that got past the
  checks on the parent with a random challenge, the same challenge is refused as a replay.\<close>

theorem submit_consumes_nonce:
  assumes "check_parent K self parent now = Ok ()" and "poc_challenge poc = Random n"
    and "poc_challenge poc' = Random n" and "check_parent K self parent' now' = Ok ()"
  shows "fst (submit K stateful_validate (snd (submit K stateful_validate self parent poc request now))
      parent' poc' request' now') = Err (FreshnessError Replay)"
proof -
  define self' where "self' = snd (submit K stateful_validate self parent poc request now)"
  have self': "self' = self\<lparr>freshness := snd (stateful_validate K (Random n) now (freshness self))\<rparr>"
    using submit_cases [of K stateful_validate self parent poc request now
        "fst (submit K stateful_validate self parent poc request now)" self'] assms(1,2)
    by (auto simp: self'_def)
  then have "n \<in> seen_random (freshness self')" by auto
  moreover have "check_parent K self' parent' now' = Ok ()"
    using assms(4) by (auto simp: self' issuer_trusted_def split: if_splits)
  ultimately have "fst (submit K stateful_validate self' parent' poc' request' now') =
      Err (FreshnessError Replay)"
    using assms(3) by (simp add: submit_def del: check_parent_Ok)
  then show ?thesis by (simp only: self'_def)
qed

theorem submit_consumes_nonce_witness:
  "fst (submit sample_cta_env stateful_validate
      (snd (submit sample_cta_env stateful_validate sample_cta sample_root
        (sample_poc\<lparr>executor_key := PkEd25519 (replicate 32 9)\<rparr>) sample_request 50))
      sample_root sample_poc sample_request 50) = Err (FreshnessError Replay)"
proof -
  have "check_parent sample_cta_env sample_cta sample_root 50 = Ok ()"
    by (simp add: issuer_trusted_def sample_defs)
  from submit_consumes_nonce [OF this _ _ this, of "sample_poc\<lparr>executor_key := _\<rparr>" "[7]" sample_poc]
  show ?thesis by (simp add: sample_poc_def)
qed

text \<open>A proof that \<open>build\<close> makes with the executor's key pair passes the proof check of every
  authority whose parent token designates that key.\<close>

theorem poc_build_accepted:
  assumes "signature_laws K" and "poc_build K parent executor request challenge = Ok poc"
    and "designated_executor parent = PublicKey (keypair_public_key K executor)"
  shows "verify_proof_of_continuity K self parent poc request = Ok ()"
proof -
  have "build_message K (poc\<lparr>poc_signature := s\<rparr>) request = build_message K poc request" for s
    by (simp add: build_message_def)
  from this [of signature_placeholder] assms show ?thesis
    by (auto simp: poc_build_def build_internal_def Let_def poc_verify_signature_def
        designation_ok_def)
qed

theorem poc_build_accepted_witness:
  "\<exists>poc. poc_build sample_cta_env sample_root sample_agent_keypair sample_request (Random [7]) = Ok poc \<and>
     verify_proof_of_continuity sample_cta_env sample_cta sample_root poc sample_request = Ok ()"
proof -
  have "is_ok (poc_build sample_cta_env sample_root sample_agent_keypair sample_request (Random [7]))"
    by (simp add: poc_build_def build_internal_def Let_def sample_defs)
  then obtain poc where poc: "poc_build sample_cta_env sample_root sample_agent_keypair
      sample_request (Random [7]) = Ok poc" by (auto simp: is_ok_iff)
  from poc_build_accepted [OF sample_cta_laws poc] poc show ?thesis
    by (simp add: sample_root_def sample_agent_keypair_def keypair_public_key_def)
qed

end
