(* ===== verification/Method.thy ===== *)
theory Method
  imports Capabilities Patterns ChainSound
begin

text \<open>
  Method capabilities and their transition validator, \<open>method.rs\<close> and \<open>validator.rs\<close> of
  \<open>crates/amla-protocol-capabilities/src\<close>. The CBOR codec of a method capability (\<open>serde\<close> and
  \<open>ciborium\<close>) is the record \<open>method_codec\<close>; its errors are already rendered. The JSON schema is
  carried and never read, as in the code.
\<close>

definition method_capability_type :: string where
  "method_capability_type = ''method''"

record 'n method_capability =
  method_pattern :: string
  constraints :: "'n constraint_set"
  max_calls :: "u32 option"
  input_schema :: "'n json option"

definition method_new :: "string \<Rightarrow> 'n method_capability" where
  "method_new pat =
     \<lparr>method_pattern = pat, constraints = [], max_calls = None, input_schema = None\<rparr>"

definition method_with_constraints ::
  "'n constraint_set \<Rightarrow> 'n method_capability \<Rightarrow> 'n method_capability" where
  "method_with_constraints cs self = self\<lparr>constraints := cs\<rparr>"

definition method_with_max_calls :: "u32 \<Rightarrow> 'n method_capability \<Rightarrow> 'n method_capability" where
  "method_with_max_calls n self = self\<lparr>max_calls := Some n\<rparr>"

definition method_with_input_schema ::
  "'n json \<Rightarrow> 'n method_capability \<Rightarrow> 'n method_capability" where
  "method_with_input_schema schema self = self\<lparr>input_schema := Some schema\<rparr>"

definition method_key :: "'n method_capability \<Rightarrow> string" where
  "method_key self = ''cap:method:'' @ method_pattern self"

definition method_validate_call ::
  "'n serde_json \<Rightarrow> 'n method_capability \<Rightarrow> string \<Rightarrow> 'n json \<Rightarrow> (unit, capability_error) result"
  where
  "method_validate_call D self m params =
     (if \<not> method_matches_pattern m (method_pattern self) then
        Err (ConstraintViolation (''method '' @ squoted m @ '' does not match pattern '' @
          squoted (method_pattern self)))
      else map_err from_constraint_error (evaluate_set D params (constraints self)))"

definition max_calls_ok :: "u32 option \<Rightarrow> u32 option \<Rightarrow> bool" where
  "max_calls_ok parent child =
     (case (parent, child) of
        (Some parent_max, Some child_max) \<Rightarrow> \<not> child_max > parent_max
      | (Some _, None) \<Rightarrow> False
      | (None, _) \<Rightarrow> True)"

definition method_is_subset_of ::
  "'n serde_json \<Rightarrow> 'n method_capability \<Rightarrow> 'n method_capability \<Rightarrow> bool" where
  "method_is_subset_of D self parent =
     (if \<not> pattern_is_subset (method_pattern self) (method_pattern parent) then False
      else if \<not> set_subsumes D (constraints parent) (constraints self) then False
      else max_calls_ok (max_calls parent) (max_calls self))"

subsection \<open>Embedding in a token\<close>

record 'n method_codec =
  encode_method :: "'n method_capability \<Rightarrow> (bytes, protocol_error) result"
  decode_method :: "bytes \<Rightarrow> ('n method_capability, protocol_error) result"

definition to_capability_data ::
  "'n method_codec \<Rightarrow> 'n method_capability \<Rightarrow> (capability_data, capability_error) result" where
  "to_capability_data C self =
     map_err (\<lambda>e. ConstraintViolation (''failed to serialize: '' @ display_error e))
       (capability_new (method_key self) method_capability_type (encode_method C self))"

definition from_capability_data ::
  "'n method_codec \<Rightarrow> capability_data \<Rightarrow> ('n method_capability, capability_error) result" where
  "from_capability_data C d =
     (if capability_type d \<noteq> method_capability_type then
        Err (TypeNotAllowed (''expected type '' @ squoted method_capability_type @ '', got '' @
          squoted (capability_type d)))
      else map_err (\<lambda>e. ConstraintViolation (''failed to decode: '' @ display_error e))
        (decode_method C (cap_data d)))"

fun display_capability_error :: "capability_error \<Rightarrow> string" where
  "display_capability_error (ConstraintViolation m) = ''Constraint violation: '' @ m"
| "display_capability_error (PartitionDenied k) = ''Partition access denied: '' @ k"
| "display_capability_error (TypeNotAllowed t) = ''Capability type not allowed: '' @ t"

definition method_validate :: "'n serde_json \<Rightarrow> 'n method_codec \<Rightarrow> validator" where
  "method_validate D C parent child =
     (if capability_type parent \<noteq> method_capability_type then
        Err \<lparr>reason = ''expected parent type '' @ squoted method_capability_type @ '', got '' @
          squoted (capability_type parent)\<rparr>
      else if capability_type child \<noteq> method_capability_type then
        Err \<lparr>reason = ''expected child type '' @ squoted method_capability_type @ '', got '' @
          squoted (capability_type child)\<rparr>
      else
        and_then (map_err (\<lambda>e. \<lparr>reason = ''decode parent: '' @ display_capability_error e\<rparr>)
            (from_capability_data C parent)) (\<lambda>parent_cap.
        and_then (map_err (\<lambda>e. \<lparr>reason = ''decode child: '' @ display_capability_error e\<rparr>)
            (from_capability_data C child)) (\<lambda>child_cap.
        if \<not> method_is_subset_of D child_cap parent_cap then
          Err \<lparr>reason = ''child is not a valid attenuation of parent''\<rparr>
        else Ok ())))"

section \<open>Facts\<close>

lemma max_calls_ok_trans: "max_calls_ok a b \<Longrightarrow> max_calls_ok b c \<Longrightarrow> max_calls_ok a c"
  by (auto simp: max_calls_ok_def split: option.splits)

lemma max_calls_ok_refl [simp]: "max_calls_ok a a"
  by (simp add: max_calls_ok_def split: option.split)

lemma method_validate_Ok:
  "method_validate D C parent child = Ok u \<longleftrightarrow>
     (\<exists>p c. from_capability_data C parent = Ok p \<and> from_capability_data C child = Ok c \<and>
        method_is_subset_of D c p)"
  by (auto simp: method_validate_def from_capability_data_def)

text \<open>What a chain of accepted transitions keeps: the child decodes to a capability that matches no
  method and allows no number of calls beyond the parent's.\<close>

definition method_below :: "'n method_capability \<Rightarrow> 'n method_capability \<Rightarrow> bool" where
  "method_below c p \<longleftrightarrow>
     {m. method_matches_pattern m (method_pattern c)} \<subseteq>
       {m. method_matches_pattern m (method_pattern p)} \<and>
     max_calls_ok (max_calls p) (max_calls c)"

definition method_le :: "'n method_codec \<Rightarrow> capability_data \<Rightarrow> capability_data \<Rightarrow> bool" where
  "method_le C child parent \<longleftrightarrow>
     child = parent \<or>
     (\<exists>c p. from_capability_data C child = Ok c \<and> from_capability_data C parent = Ok p \<and>
        method_below c p)"

lemma method_below_trans: "method_below a b \<Longrightarrow> method_below b c \<Longrightarrow> method_below a c"
  unfolding method_below_def using max_calls_ok_trans by blast

lemma method_subset_below: "method_is_subset_of D c p \<Longrightarrow> method_below c p"
  unfolding method_is_subset_of_def method_below_def
  by (auto split: if_splits intro: pattern_is_subset_sound_lemma)

interpretation methods: transition_contract "method_validate D C" "method_le C" for D C
proof
  show "method_le C child parent" if "method_validate D C parent child = Ok ()" for parent child
    using that method_subset_below unfolding method_validate_Ok method_le_def by blast
  show "method_le C c c" for c by (simp add: method_le_def)
  show "method_le C a c" if "method_le C a b" "method_le C b c" for a b c
    using that method_below_trans unfolding method_le_def by (metis sum.inject(2))
qed

lemma to_capability_data_key:
  "to_capability_data C m = Ok d \<Longrightarrow>
     cap_key d = method_key m \<and> capability_type d = method_capability_type"
  by (auto simp: to_capability_data_def capability_new_def split: if_splits)

lemma method_key_inject: "method_key a = method_key b \<longleftrightarrow> method_pattern a = method_pattern b"
  by (simp add: method_key_def)

section \<open>An instance\<close>

definition sample_method :: "int method_capability" where
  "sample_method = method_with_max_calls 5 (method_new ''pay/*'')"

definition sample_codec :: "int method_codec" where
  "sample_codec = \<lparr>encode_method = (\<lambda>m. Ok [7]), decode_method = (\<lambda>b. Ok sample_method)\<rparr>"

lemma sample_method_step:
  "method_validate int_serde sample_codec sample_cap sample_cap = Ok ()"
  by (simp add: method_validate_Ok from_capability_data_def sample_codec_def sample_cap_def
      method_capability_type_def method_is_subset_of_def sample_method_def method_with_max_calls_def
      method_new_def set_subsumes_def pattern_is_subset_def pattern_parts_subset_refl)

lemma sample_method_chain:
  "validate_chain sample_env [sample_root, sample_child] (PkEd25519 (replicate 32 1))
     (method_validate int_serde sample_codec) 50 = Ok ()"
  using sample_method_step
  by (simp add: validate_chain_Ok chain_ok_def linked_def keyed_step_def accepts_def
      sample_root_def sample_child_def)
    (simp add: sample_defs)

section \<open>Properties\<close>

text \<open>C9. Delegated method calls are confined: when a chain is accepted with the method validator,
  every capability of its last token is the root token's capability of the same key or decodes to
  one that matches only methods the root's matches and does not raise the limit on calls.\<close>

theorem method_chain_attenuates:
  assumes "validate_chain K chain auth (method_validate D C) now = Ok ()"
    and "c \<in> set (capabilities (last chain))"
  shows "\<exists>p \<in> set (capabilities (hd chain)). cap_key p = cap_key c \<and>
    (c = p \<or> (\<exists>mc mp. from_capability_data C c = Ok mc \<and> from_capability_data C p = Ok mp \<and>
       {m. method_matches_pattern m (method_pattern mc)} \<subseteq>
         {m. method_matches_pattern m (method_pattern mp)} \<and>
       max_calls_ok (max_calls mp) (max_calls mc)))"
  using methods.validate_chain_attenuates [OF assms]
  unfolding method_le_def method_below_def .

theorem method_chain_attenuates_witness:
  "\<exists>p \<in> set (capabilities (hd [sample_root, sample_child])). cap_key p = cap_key sample_cap"
  using method_chain_attenuates [OF sample_method_chain, of sample_cap]
  by (auto simp: sample_child_def)

text \<open>A call that the child capability allows is allowed by its parent, when the child passed
  \<open>is_subset_of\<close>, the parent has one atomic constraint per parameter, the child constrains each of
  these parameters, and the pair avoids \<open>Eq\<close> against order constraints.\<close>

theorem method_attenuation_sound:
  assumes "method_is_subset_of D child parent"
    and "\<forall>p \<in> set (constraints parent). param_name p \<noteq> None"
    and "distinct (map param_name (constraints parent))"
    and "\<forall>p \<in> set (constraints parent). \<exists>c \<in> set (constraints child). param_name c = param_name p"
    and "(\<forall>p \<in> set (constraints parent). \<not> has_eq p) \<or> (\<forall>c \<in> set (constraints child). \<not> has_order c)"
    and "method_validate_call D child m params = Ok ()"
  shows "method_validate_call D parent m params = Ok ()"
proof -
  from assms(1) have sub: "set_subsumes D (constraints parent) (constraints child)"
    by (simp add: method_is_subset_of_def split: if_splits)
  note below = method_subset_below [OF assms(1)]
  from assms(6) have child: "method_matches_pattern m (method_pattern child)"
    "evaluate_set D params (constraints child) = Ok ()"
    by (auto simp: method_validate_call_def split: if_splits)
  have "evaluate_set D params (constraints parent) = Ok ()"
    by (rule set_subsumes_sound_lemma [OF sub assms(2-5) child(2)])
  moreover from below child(1) have "method_matches_pattern m (method_pattern parent)"
    by (auto simp: method_below_def)
  ultimately show ?thesis by (simp add: method_validate_call_def)
qed

theorem method_attenuation_sound_witness:
  "method_validate_call int_serde (method_with_constraints [Le ''n'' (JNumber 9)] (method_new ''a/**''))
     ''a/b'' (JObject [(''n'', JNumber 3)]) = Ok ()"
  by (rule method_attenuation_sound [where child =
        "method_with_constraints [Le ''n'' (JNumber 4)] (method_new ''a/*'')"])
    (simp_all add: method_is_subset_of_def method_validate_call_def method_with_constraints_def
      method_new_def pattern_is_subset_def pattern_parts_subset.simps path_segments_def
      set_subsumes_def subsumes_cases subsumes_same_param_def compare_le_def max_calls_ok_def
      evaluate_set_def get_param_def get_param_opt_def starts_with_def method_matches_pattern_def)

text \<open>The derived keys rule out narrowing the pattern: when every capability of both tokens was
  made by \<open>to_capability_data\<close>, an accepted transition keeps each child's pattern equal to the
  pattern of its parent capability.\<close>

theorem method_key_fixes_pattern:
  assumes "validate_keyed_transitions i (map cap_of ps) (map cap_of cs) (method_validate D C) = Ok ()"
    and "\<forall>m \<in> set ps \<union> set cs. to_capability_data C m = Ok (cap_of m)"
  shows "method_pattern ` set cs \<subseteq> method_pattern ` set ps"
proof
  fix q assume "q \<in> method_pattern ` set cs"
  then obtain c where c: "c \<in> set cs" "q = method_pattern c" by blast
  with assms(1) obtain p where "p \<in> set ps" "cap_key (cap_of p) = cap_key (cap_of c)"
    by (auto simp: validate_keyed_transitions_Ok keyed_step_def)
  with assms(2) c to_capability_data_key show "q \<in> method_pattern ` set ps"
    by (metis UnCI image_eqI method_key_inject)
qed

theorem method_key_fixes_pattern_witness:
  "method_pattern ` set [sample_method] \<subseteq> method_pattern ` set [sample_method]"
proof (rule method_key_fixes_pattern)
  let ?cap = "\<lparr>cap_key = method_key sample_method, capability_type = method_capability_type,
      cap_data = [7]\<rparr>"
  show "\<forall>m \<in> set [sample_method] \<union> set [sample_method].
      to_capability_data sample_codec m = Ok ((\<lambda>_. ?cap) m)"
    by (simp add: to_capability_data_def capability_new_def sample_codec_def
        max_capability_payload_size_def)
  show "validate_keyed_transitions 1 (map (\<lambda>_. ?cap) [sample_method]) (map (\<lambda>_. ?cap) [sample_method])
      (method_validate int_serde sample_codec) = Ok ()"
    using sample_method_step
    by (simp add: validate_keyed_transitions_Ok keyed_step_def accepts_def method_validate_Ok
        from_capability_data_def sample_cap_def sample_codec_def method_capability_type_def)
qed

end
