(* ===== verification/Vfs.thy ===== *)
theory Vfs
  imports Prelude "HOL-Library.AList"
begin

text \<open>
  The in-memory virtual file system, \<open>crates/amla-sandbox-vfs/src/lib.rs\<close>. A \<open>HashMap\<close> is an
  association list with distinct keys, whose order stands for the map's unspecified one. An
  operation with \<open>&mut self\<close> returns its result and the file system after it, also when it fails.
  The glob search (\<open>regex\<close> crate) is not modelled.
\<close>

section \<open>Entries\<close>

datatype vfs_error =
    NotFound string
  | PermissionDenied string
  | NotADirectory string
  | NotAFile string
  | AlreadyExists string
  | InvalidPath string

datatype permission = ReadOnly | ReadWrite | AppendOnly

datatype entry =
    File (content: bytes) permission
  | Directory permission

fun is_file_entry :: "entry \<Rightarrow> bool" where
  "is_file_entry (File _ _) = True"
| "is_file_entry (Directory _) = False"

fun is_dir_entry :: "entry \<Rightarrow> bool" where
  "is_dir_entry (Directory _) = True"
| "is_dir_entry (File _ _) = False"

fun permission_of :: "entry \<Rightarrow> permission" where
  "permission_of (File _ p) = p"
| "permission_of (Directory p) = p"

record dir_entry =
  de_name :: string
  de_path :: string
  de_is_dir :: bool
  de_permission :: permission

datatype mutation_op = Create | Overwrite | Append | Delete

record vfs =
  entries :: "(string \<times> entry) list"
  mounts :: "(string \<times> string) list"

definition lookup :: "vfs \<Rightarrow> string \<Rightarrow> entry option" where
  "lookup v p = map_of (entries v) p"

definition insert_entry :: "string \<Rightarrow> entry \<Rightarrow> vfs \<Rightarrow> vfs" where
  "insert_entry p e v = v\<lparr>entries := AList.update p e (entries v)\<rparr>"

definition remove_entry :: "string \<Rightarrow> vfs \<Rightarrow> vfs" where
  "remove_entry p v = v\<lparr>entries := AList.delete p (entries v)\<rparr>"

section \<open>Paths\<close>

text \<open>\<open>str::trim\<close>: the UTF-8 encodings of the characters with the property \<open>White_Space\<close> are
  removed from both ends.\<close>

definition whitespace :: "string list" where
  "whitespace =
    [[CHR 0x09], [CHR 0x0A], [CHR 0x0B], [CHR 0x0C], [CHR 0x0D], [CHR 0x20],
     [CHR 0xC2, CHR 0x85], [CHR 0xC2, CHR 0xA0], [CHR 0xE1, CHR 0x9A, CHR 0x80],
     [CHR 0xE2, CHR 0x80, CHR 0x80], [CHR 0xE2, CHR 0x80, CHR 0x81],
     [CHR 0xE2, CHR 0x80, CHR 0x82], [CHR 0xE2, CHR 0x80, CHR 0x83],
     [CHR 0xE2, CHR 0x80, CHR 0x84], [CHR 0xE2, CHR 0x80, CHR 0x85],
     [CHR 0xE2, CHR 0x80, CHR 0x86], [CHR 0xE2, CHR 0x80, CHR 0x87],
     [CHR 0xE2, CHR 0x80, CHR 0x88], [CHR 0xE2, CHR 0x80, CHR 0x89],
     [CHR 0xE2, CHR 0x80, CHR 0x8A], [CHR 0xE2, CHR 0x80, CHR 0xA8],
     [CHR 0xE2, CHR 0x80, CHR 0xA9], [CHR 0xE2, CHR 0x80, CHR 0xAF],
     [CHR 0xE2, CHR 0x81, CHR 0x9F], [CHR 0xE3, CHR 0x80, CHR 0x80]]"

function strip_start :: "string list \<Rightarrow> string \<Rightarrow> string" where
  "strip_start ws s =
     (case find (\<lambda>w. w \<noteq> [] \<and> prefix w s) ws of
        None \<Rightarrow> s
      | Some w \<Rightarrow> strip_start ws (drop (length w) s))"
  by pat_completeness auto
termination
  by (relation "measure (\<lambda>(ws, s). length s)")
    (auto simp: find_Some_iff prefix_def)

declare strip_start.simps [simp del]

definition trim :: "string \<Rightarrow> string" where
  "trim s = rev (strip_start (map rev whitespace) (rev (strip_start whitespace s)))"

text \<open>\<open>Path::components\<close> on Unix: empty pieces and all \<open>.\<close> but a leading one are skipped.\<close>

datatype component = RootDir | CurDir | ParentDir | Normal string

definition path_components :: "string \<Rightarrow> component list" where
  "path_components p =
     (let parts = filter (\<lambda>s. s \<noteq> []) (split_on CHR ''/'' p);
          comp = (\<lambda>s. if s = ''..'' then ParentDir else Normal s);
          tail = (\<lambda>ps. map comp (filter (\<lambda>s. s \<noteq> ''.'') ps))
      in if starts_with p ''/'' then RootDir # tail parts
         else (case parts of
             [] \<Rightarrow> []
           | q # qs \<Rightarrow> if q = ''.'' then CurDir # tail qs else tail parts))"

text \<open>The loop of \<open>normalize_path\<close>, with the stack of components so far.\<close>

fun resolve :: "string \<Rightarrow> string list \<Rightarrow> component list \<Rightarrow> (string list, vfs_error) result" where
  "resolve path acc [] = Ok acc"
| "resolve path acc (RootDir # cs) = resolve path acc cs"
| "resolve path acc (CurDir # cs) = resolve path acc cs"
| "resolve path acc (ParentDir # cs) =
     (if acc = [] then Err (InvalidPath (''path escapes root: '' @ path))
      else resolve path (butlast acc) cs)"
| "resolve path acc (Normal s # cs) =
     (if CHR 0x00 \<in> set s then Err (InvalidPath (''invalid characters in path: '' @ path))
      else resolve path (acc @ [s]) cs)"

definition normalize :: "string \<Rightarrow> (string, vfs_error) result" where
  "normalize raw =
     (let path = trim raw in
      if path = [] \<or> path = ''/'' then Ok ''/''
      else map_ok (\<lambda>cs. if cs = [] then ''/'' else CHR ''/'' # join_on CHR ''/'' cs)
        (resolve path [] (path_components path)))"

text \<open>\<open>str::rfind\<close>.\<close>

definition rfind :: "char \<Rightarrow> string \<Rightarrow> nat option" where
  "rfind c s =
     (if c \<in> set s then Some (length s - 1 - length (takeWhile (\<lambda>x. x \<noteq> c) (rev s))) else None)"

definition parent_of :: "string \<Rightarrow> string option" where
  "parent_of normalized =
     (if normalized = ''/'' then None
      else (case rfind CHR ''/'' normalized of
          Some idx \<Rightarrow> if idx = 0 then Some ''/'' else Some (take idx normalized)
        | None \<Rightarrow> None))"

section \<open>The permission chokepoint\<close>

definition check_parent_writable :: "vfs \<Rightarrow> string \<Rightarrow> (unit, vfs_error) result" where
  "check_parent_writable v path =
     (case parent_of path of
        Some parent \<Rightarrow>
          (case lookup v parent of
             Some (Directory perm) \<Rightarrow>
               if perm = ReadOnly then
                 Err (PermissionDenied (''parent directory is read-only: '' @ parent))
               else if perm = AppendOnly then
                 Err (PermissionDenied (''parent directory is append-only: '' @ parent))
               else Ok ()
           | Some _ \<Rightarrow> Err (NotADirectory parent)
           | None \<Rightarrow> Err (NotFound parent))
      | None \<Rightarrow> Ok ())"

definition check_mutation :: "vfs \<Rightarrow> string \<Rightarrow> mutation_op \<Rightarrow> (unit, vfs_error) result" where
  "check_mutation v path op =
     (let existing = lookup v path in
      case op of
        Create \<Rightarrow>
          if existing \<noteq> None then Err (AlreadyExists path) else check_parent_writable v path
      | Overwrite \<Rightarrow>
          (case existing of
             Some e \<Rightarrow>
               (case permission_of e of
                  ReadOnly \<Rightarrow> Err (PermissionDenied (''cannot overwrite read-only: '' @ path))
                | AppendOnly \<Rightarrow>
                    Err (PermissionDenied (''cannot overwrite append-only file: '' @ path))
                | ReadWrite \<Rightarrow> if is_dir_entry e then Err (NotAFile path) else Ok ())
           | None \<Rightarrow> check_parent_writable v path)
      | Append \<Rightarrow>
          (case existing of
             Some e \<Rightarrow>
               if is_dir_entry e then Err (NotAFile path)
               else if permission_of e = ReadOnly then
                 Err (PermissionDenied (''cannot append to read-only: '' @ path))
               else Ok ()
           | None \<Rightarrow> Err (NotFound path))
      | Delete \<Rightarrow>
          (case existing of
             Some e \<Rightarrow>
               (case permission_of e of
                  ReadOnly \<Rightarrow> Err (PermissionDenied (''cannot delete read-only: '' @ path))
                | AppendOnly \<Rightarrow> Err (PermissionDenied (''cannot delete append-only: '' @ path))
                | ReadWrite \<Rightarrow> check_parent_writable v path)
           | None \<Rightarrow> Err (NotFound path)))"

section \<open>Operations\<close>

text \<open>\<open>?\<close> in a method with \<open>&mut self\<close>: on an error the state stays.\<close>

definition try_mut ::
  "('a, 'e) result \<Rightarrow> 's \<Rightarrow> ('a \<Rightarrow> ('b, 'e) result \<times> 's) \<Rightarrow> ('b, 'e) result \<times> 's" where
  "try_mut r v f = (case r of Inl e \<Rightarrow> (Err e, v) | Inr x \<Rightarrow> f x)"

definition path_parts :: "string \<Rightarrow> string list" where
  "path_parts path = filter (\<lambda>s. s \<noteq> []) (split_on CHR ''/'' path)"

subsection \<open>Bootstrap, outside the chokepoint\<close>

fun insert_dirs :: "permission \<Rightarrow> string \<Rightarrow> string list \<Rightarrow> vfs \<Rightarrow> vfs" where
  "insert_dirs perm current [] v = v"
| "insert_dirs perm current (part # parts) v =
     (let current = current @ ''/'' @ part in
      insert_dirs perm current parts
        (if lookup v current = None then insert_entry current (Directory perm) v else v))"

definition insert_dir_all ::
  "string \<Rightarrow> permission \<Rightarrow> vfs \<Rightarrow> (unit, vfs_error) result \<times> vfs" where
  "insert_dir_all path perm v =
     try_mut (normalize path) v (\<lambda>path.
       if path = ''/'' then (Ok (), v) else (Ok (), insert_dirs perm [] (path_parts path) v))"

definition insert_dir :: "string \<Rightarrow> permission \<Rightarrow> vfs \<Rightarrow> (unit, vfs_error) result \<times> vfs" where
  "insert_dir path perm v =
     try_mut (normalize path) v (\<lambda>path. (Ok (), insert_entry path (Directory perm) v))"

definition insert_file ::
  "string \<Rightarrow> bytes \<Rightarrow> permission \<Rightarrow> vfs \<Rightarrow> (unit, vfs_error) result \<times> vfs" where
  "insert_file path c perm v =
     try_mut (normalize path) v (\<lambda>path.
       (let (r, v') =
          (case parent_of path of
             Some parent \<Rightarrow>
               if lookup v parent = None then insert_dir_all parent perm v else (Ok (), v)
           | None \<Rightarrow> (Ok (), v))
        in try_mut r v' (\<lambda>_. (Ok (), insert_entry path (File c perm) v'))))"

definition ascii :: "string \<Rightarrow> bytes" where
  "ascii s = map of_char s"

definition vfs_empty :: vfs where
  "vfs_empty = \<lparr>entries = [], mounts = []\<rparr>"

definition readme :: bytes where
  "readme =
     ascii ''# Workspace'' @ [10, 10] @
     ascii ''This is your sandbox workspace. Files here persist for the session.'' @ [10, 10] @
     ascii ''Try:'' @ [10] @
     ascii ''- `echo '' @ [0x27] @ ascii ''hello'' @ [0x27] @ ascii '' > test.txt` - create a file'' @
     [10] @ ascii ''- `cat README.md` - read this file'' @ [10] @
     ascii ''- `ls -la` - list directory contents'' @ [10]"

definition vfs_new :: vfs where
  "vfs_new =
     fold (\<lambda>(p, e). insert_entry p e)
       [(''/'', Directory ReadOnly), (''/tools'', Directory ReadOnly),
        (''/workspace'', Directory ReadWrite), (''/tmp'', Directory ReadWrite),
        (''/log'', Directory AppendOnly), (''/bin'', Directory ReadOnly),
        (''/log/actions.jsonl'', File [] AppendOnly),
        (''/workspace/README.md'', File readme ReadWrite)]
       vfs_empty"

text \<open>\<open>Path::parent\<close> as text: all but the last component; the root and the empty path have none.\<close>

definition path_parent :: "string \<Rightarrow> string option" where
  "path_parent p =
     (let cs = path_components p;
          text = (\<lambda>c. case c of Normal s \<Rightarrow> s | ParentDir \<Rightarrow> ''..'' | _ \<Rightarrow> ''.'')
      in if cs = [] \<or> last cs = RootDir then None
         else (case butlast cs of
             RootDir # ds \<Rightarrow> Some (CHR ''/'' # join_on CHR ''/'' (map text ds))
           | ds \<Rightarrow> Some (join_on CHR ''/'' (map text ds))))"

fun setup_mounts ::
  "(string \<times> string) list \<Rightarrow> vfs \<Rightarrow> (unit, vfs_error) result \<times> vfs" where
  "setup_mounts [] v = (Ok (), v)"
| "setup_mounts ((host_path, sandbox_path) # ms) v =
     (let (r, v') =
        (case path_parent sandbox_path of
           Some parent \<Rightarrow>
             if parent \<noteq> [] \<and> parent \<noteq> ''/'' then insert_dir_all parent ReadOnly v else (Ok (), v)
         | None \<Rightarrow> (Ok (), v))
      in try_mut r v' (\<lambda>_.
         try_mut (normalize sandbox_path) v' (\<lambda>normalized.
         setup_mounts ms (v'\<lparr>mounts := AList.update normalized host_path (mounts v')\<rparr>))))"

definition get_host_path :: "vfs \<Rightarrow> string \<Rightarrow> string option" where
  "get_host_path v sandbox_path =
     (case normalize sandbox_path of
        Inl _ \<Rightarrow> None
      | Inr p \<Rightarrow> map_of (mounts v) p)"

definition is_mounted :: "vfs \<Rightarrow> string \<Rightarrow> bool" where
  "is_mounted v sandbox_path =
     (case normalize sandbox_path of
        Inl _ \<Rightarrow> False
      | Inr p \<Rightarrow> map_of (mounts v) p \<noteq> None)"

subsection \<open>Queries\<close>

definition read_file :: "vfs \<Rightarrow> string \<Rightarrow> (bytes, vfs_error) result" where
  "read_file v path =
     and_then (normalize path) (\<lambda>path.
       case lookup v path of
         Some (File c _) \<Rightarrow> Ok c
       | Some (Directory _) \<Rightarrow> Err (NotAFile path)
       | None \<Rightarrow> Err (NotFound path))"

definition exists_path :: "vfs \<Rightarrow> string \<Rightarrow> bool" where
  "exists_path v path =
     (case normalize path of Inl _ \<Rightarrow> False | Inr p \<Rightarrow> lookup v p \<noteq> None)"

definition is_file :: "vfs \<Rightarrow> string \<Rightarrow> bool" where
  "is_file v path =
     (case normalize path of
        Inl _ \<Rightarrow> False
      | Inr p \<Rightarrow> (case lookup v p of Some e \<Rightarrow> is_file_entry e | None \<Rightarrow> False))"

definition is_dir :: "vfs \<Rightarrow> string \<Rightarrow> bool" where
  "is_dir v path =
     (case normalize path of
        Inl _ \<Rightarrow> False
      | Inr p \<Rightarrow> (case lookup v p of Some e \<Rightarrow> is_dir_entry e | None \<Rightarrow> False))"

definition stat :: "vfs \<Rightarrow> string \<Rightarrow> (entry, vfs_error) result" where
  "stat v path = and_then (normalize path) (\<lambda>path. ok_or (NotFound path) (lookup v path))"

text \<open>The loop of \<open>list_dir\<close>, with the set of names seen.\<close>

fun collect_children ::
  "string \<Rightarrow> string \<Rightarrow> string set \<Rightarrow> (string \<times> entry) list \<Rightarrow> dir_entry list" where
  "collect_children path pre seen [] = []"
| "collect_children path pre seen ((p, e) # es) =
     (let name = drop (length pre) p in
      if p \<noteq> path \<and> starts_with p pre \<and> CHR ''/'' \<notin> set name \<and> name \<noteq> [] \<and> name \<notin> seen then
        \<lparr>de_name = name, de_path = p, de_is_dir = is_dir_entry e, de_permission = permission_of e\<rparr>
          # collect_children path pre (insert name seen) es
      else collect_children path pre seen es)"

definition list_dir :: "vfs \<Rightarrow> string \<Rightarrow> (dir_entry list, vfs_error) result" where
  "list_dir v path =
     and_then (normalize path) (\<lambda>path.
       case lookup v path of
         Some (Directory _) \<Rightarrow>
           (let pre = (if path = ''/'' then ''/'' else path @ ''/'')
            in Ok (sort_key de_name (collect_children path pre {} (entries v))))
       | Some _ \<Rightarrow> Err (NotADirectory path)
       | None \<Rightarrow> Err (NotFound path))"

definition can_write_to :: "vfs \<Rightarrow> string \<Rightarrow> bool" where
  "can_write_to v path =
     (case normalize path of Inl _ \<Rightarrow> False | Inr p \<Rightarrow> is_ok (check_mutation v p Overwrite))"

definition can_append_to :: "vfs \<Rightarrow> string \<Rightarrow> bool" where
  "can_append_to v path =
     (case normalize path of Inl _ \<Rightarrow> False | Inr p \<Rightarrow> is_ok (check_mutation v p Append))"

subsection \<open>Mutations\<close>

definition create_dir :: "string \<Rightarrow> permission \<Rightarrow> vfs \<Rightarrow> (unit, vfs_error) result \<times> vfs" where
  "create_dir path perm v =
     try_mut (normalize path) v (\<lambda>path.
     try_mut (check_mutation v path Create) v (\<lambda>_.
     (Ok (), insert_entry path (Directory perm) v)))"

fun create_dirs ::
  "permission \<Rightarrow> string \<Rightarrow> string list \<Rightarrow> vfs \<Rightarrow> (unit, vfs_error) result \<times> vfs" where
  "create_dirs perm current [] v = (Ok (), v)"
| "create_dirs perm current (part # parts) v =
     (let current = current @ ''/'' @ part in
      case lookup v current of
        Some e \<Rightarrow>
          if \<not> is_dir_entry e then (Err (NotADirectory current), v)
          else create_dirs perm current parts v
      | None \<Rightarrow>
          try_mut (check_mutation v current Create) v (\<lambda>_.
          create_dirs perm current parts (insert_entry current (Directory perm) v)))"

definition create_dir_all ::
  "string \<Rightarrow> permission \<Rightarrow> vfs \<Rightarrow> (unit, vfs_error) result \<times> vfs" where
  "create_dir_all path perm v =
     try_mut (normalize path) v (\<lambda>path.
       if path = ''/'' then (Ok (), v) else create_dirs perm [] (path_parts path) v)"

definition write_file ::
  "string \<Rightarrow> bytes \<Rightarrow> permission \<Rightarrow> vfs \<Rightarrow> (unit, vfs_error) result \<times> vfs" where
  "write_file path c perm v =
     try_mut (normalize path) v (\<lambda>path.
     try_mut (check_mutation v path Overwrite) v (\<lambda>_.
     (Ok (), insert_entry path (File c perm) v)))"

definition append_file :: "string \<Rightarrow> bytes \<Rightarrow> vfs \<Rightarrow> (unit, vfs_error) result \<times> vfs" where
  "append_file path c v =
     try_mut (normalize path) v (\<lambda>path.
     try_mut (check_mutation v path Append) v (\<lambda>_.
     (Ok (), (case lookup v path of
        Some (File existing perm) \<Rightarrow> insert_entry path (File (existing @ c) perm) v
      | _ \<Rightarrow> v))))"

definition vfs_remove :: "string \<Rightarrow> vfs \<Rightarrow> (unit, vfs_error) result \<times> vfs" where
  "vfs_remove path v =
     try_mut (normalize path) v (\<lambda>path.
     try_mut (check_mutation v path Delete) v (\<lambda>_.
     try_mut
       (if is_dir v path then
          and_then (list_dir v path) (\<lambda>children.
            guard_err (children \<noteq> []) (PermissionDenied (path @ '': directory not empty'')))
        else Ok ()) v (\<lambda>_.
     (Ok (), remove_entry path v))))"

definition depth :: "string \<Rightarrow> nat" where
  "depth p = length (filter (\<lambda>c. c = CHR ''/'') p)"

definition remove_recursive :: "string \<Rightarrow> vfs \<Rightarrow> (unit, vfs_error) result \<times> vfs" where
  "remove_recursive path v =
     try_mut (normalize path) v (\<lambda>path.
       if lookup v path = None then (Err (NotFound path), v)
       else
         (let pre = path @ ''/'';
              to_delete = rev (sort_key depth
                (rev (filter (\<lambda>p. p = path \<or> starts_with p pre) (map fst (entries v)))))
          in try_mut (try_for_each (\<lambda>p. check_mutation v p Delete) to_delete) v (\<lambda>_.
             (Ok (), fold remove_entry to_delete v))))"

end
