(* ===== verification/VfsTree.thy ===== *)
theory VfsTree
  imports VfsSafe
begin

text \<open>
  Canonical paths and the shape of the tree: what normalisation returns, that every entry hangs
  below a directory, and how reads see writes.
\<close>

section \<open>Canonical paths\<close>

definition valid_name :: "string \<Rightarrow> bool" where
  "valid_name s \<longleftrightarrow>
     s \<noteq> [] \<and> s \<noteq> ''.'' \<and> s \<noteq> ''..'' \<and> CHR ''/'' \<notin> set s \<and> CHR 0x00 \<notin> set s"

definition path_of :: "string list \<Rightarrow> string" where
  "path_of cs = CHR ''/'' # join_on CHR ''/'' cs"

definition canonical :: "string \<Rightarrow> bool" where
  "canonical p \<longleftrightarrow> (\<exists>cs. list_all valid_name cs \<and> p = path_of cs)"

lemma path_of_Nil [simp]: "path_of [] = ''/''"
  by (simp add: path_of_def)

lemma path_of_snoc: "path_of (cs @ [c]) = (if cs = [] then [] else path_of cs) @ CHR ''/'' # c"
  by (simp add: path_of_def join_on_append)

lemma path_of_root [simp]: "list_all valid_name cs \<Longrightarrow> path_of cs = ''/'' \<longleftrightarrow> cs = []"
  by (cases cs rule: rev_cases) (simp, auto simp: path_of_snoc valid_name_def split: if_splits,
      simp add: path_of_def)

lemma parent_of_path:
  assumes "list_all valid_name (cs @ [c])"
  shows "parent_of (path_of (cs @ [c])) = Some (path_of cs)"
proof -
  from assms have "path_of (cs @ [c]) \<noteq> ''/''" "CHR ''/'' \<notin> set c"
    using path_of_root [of "cs @ [c]"] by (auto simp: valid_name_def)
  moreover have "path_of (cs @ [c]) = (if cs = [] then [] else path_of cs) @ CHR ''/'' # c"
    by (rule path_of_snoc)
  moreover have "path_of cs = (if (if cs = [] then [] else path_of cs) = [] then ''/''
      else if cs = [] then [] else path_of cs)"
    by (simp add: path_of_def)
  ultimately show ?thesis unfolding parent_of_Some by blast
qed

lemma canonical_cases:
  assumes "canonical p"
  obtains "p = ''/''" | cs c where "list_all valid_name (cs @ [c])" "p = path_of (cs @ [c])"
    "parent_of p = Some (path_of cs)" "p \<noteq> ''/''"
proof -
  from assms obtain cs where cs: "list_all valid_name cs" "p = path_of cs"
    by (auto simp: canonical_def)
  show ?thesis
  proof (cases cs rule: rev_cases)
    case Nil
    with cs that(1) show ?thesis by simp
  next
    case (snoc ds d)
    with cs parent_of_path [of ds d] path_of_root [of cs] that(2) show ?thesis by blast
  qed
qed

lemma canonical_parent: "canonical p \<Longrightarrow> p \<noteq> ''/'' \<Longrightarrow> \<exists>q. parent_of p = Some q \<and> canonical q"
  by (erule canonical_cases) (auto simp: canonical_def)

lemma split_on_join_on:
  "ps \<noteq> [] \<Longrightarrow> (\<forall>p \<in> set ps. c \<notin> set p) \<Longrightarrow> split_on c (join_on c ps) = ps"
proof (induction ps)
  case (Cons p ps)
  then show ?case by (cases "ps = []") (simp_all add: join_on_Cons)
qed simp

lemma path_parts_path_of: "list_all valid_name cs \<Longrightarrow> path_parts (path_of cs) = cs"
  by (cases "cs = []")
    (auto simp: path_parts_def path_of_def split_on_join_on list_all_iff valid_name_def
      filter_id_conv)

definition plain :: "component \<Rightarrow> bool" where
  "plain c = (case c of Normal s \<Rightarrow> s \<noteq> [] \<and> s \<noteq> ''.'' \<and> s \<noteq> ''..'' \<and> CHR ''/'' \<notin> set s | _ \<Rightarrow> True)"

definition named :: "string list \<Rightarrow> component list" where
  "named ps = map (\<lambda>s. if s = ''..'' then ParentDir else Normal s) (filter (\<lambda>s. s \<noteq> ''.'') ps)"

lemma path_components_named:
  "path_components p =
     (if starts_with p ''/'' then RootDir # named (path_parts p)
      else (case path_parts p of
          [] \<Rightarrow> []
        | q # qs \<Rightarrow> if q = ''.'' then CurDir # named qs else named (path_parts p)))"
  unfolding path_components_def named_def path_parts_def Let_def by (rule refl)

lemma named_plain:
  assumes "\<forall>s \<in> set ps. s \<noteq> [] \<and> CHR ''/'' \<notin> set s"
  shows "list_all plain (named ps)"
  unfolding named_def list_all_iff using assms by (auto simp: plain_def)

lemma plain_simps [simp]: "plain RootDir" "plain CurDir" "plain ParentDir"
  by (simp_all add: plain_def)

lemma path_components_plain: "list_all plain (path_components p)"
proof -
  have parts: "\<forall>s \<in> set (path_parts p). s \<noteq> [] \<and> CHR ''/'' \<notin> set s"
    using split_on_no_sep [of _ "CHR ''/''" p] by (auto simp: path_parts_def)
  then have "\<forall>s \<in> set qs. s \<noteq> [] \<and> CHR ''/'' \<notin> set s" if "path_parts p = q # qs" for q qs
    using that by simp
  with parts named_plain show ?thesis
    unfolding path_components_named by (simp split: list.split)
qed

lemma resolve_valid:
  "resolve path acc comps = Ok cs \<Longrightarrow> list_all plain comps \<Longrightarrow> list_all valid_name acc \<Longrightarrow>
     list_all valid_name cs"
proof (induction path acc comps rule: resolve.induct)
  case (4 path acc comps)
  then show ?case by (auto simp: list_all_iff dest: in_set_butlastD split: if_splits)
next
  case (5 path acc s comps)
  then show ?case by (auto simp: plain_def valid_name_def split: if_splits)
qed (simp_all add: plain_def)

lemma normalize_canonical_lemma:
  assumes "normalize p = Ok q"
  shows "canonical q"
proof (cases "trim p = [] \<or> trim p = ''/''")
  case True
  with assms have "q = path_of []" by (auto simp: normalize_def)
  then show ?thesis unfolding canonical_def by (intro exI [of _ "[]"]) simp
next
  case False
  with assms obtain cs where cs: "resolve (trim p) [] (path_components (trim p)) = Ok cs"
    and q: "q = (if cs = [] then ''/'' else CHR ''/'' # join_on CHR ''/'' cs)"
    by (auto simp: normalize_def Let_def)
  from q have "q = path_of cs" by (simp add: path_of_def)
  moreover have "list_all valid_name cs"
    using resolve_valid [OF cs path_components_plain] by simp
  ultimately show ?thesis by (auto simp: canonical_def)
qed

lemma resolve_names:
  "list_all valid_name cs \<Longrightarrow> resolve path acc (map Normal cs) = Ok (acc @ cs)"
  by (induction cs arbitrary: acc) (auto simp: valid_name_def)

lemma path_components_path_of:
  "list_all valid_name cs \<Longrightarrow> path_components (path_of cs) = RootDir # map Normal cs"
proof -
  assume cs: "list_all valid_name cs"
  then have parts: "path_parts (path_of cs) = cs" by (rule path_parts_path_of)
  from cs have "filter (\<lambda>s. s \<noteq> ''.'') cs = cs"
    "map (\<lambda>s. if s = ''..'' then ParentDir else Normal s) cs = map Normal cs"
    by (auto simp: filter_id_conv list_all_iff valid_name_def)
  then have "named cs = map Normal cs" unfolding named_def by (simp only:)
  moreover have "starts_with (path_of cs) ''/''" by (simp add: path_of_def starts_with_def)
  ultimately show ?thesis unfolding path_components_named parts by (simp only: if_True)
qed

lemma normalize_trimmed:
  assumes "canonical q" "trim q = q"
  shows "normalize q = Ok q"
proof -
  from assms(1) obtain cs where cs: "list_all valid_name cs" "q = path_of cs"
    by (auto simp: canonical_def)
  with assms(2) path_components_path_of [OF cs(1)] resolve_names [OF cs(1), of q "[]"]
  show ?thesis
    by (cases "cs = []") (simp_all add: normalize_def Let_def path_of_def)
qed

section \<open>The shape of the tree\<close>

definition tree_ok :: "vfs \<Rightarrow> bool" where
  "tree_ok v \<longleftrightarrow>
     lookup v ''/'' = Some (Directory ReadOnly) \<and>
     (\<forall>p e. lookup v p = Some e \<longrightarrow> canonical p \<and>
        (p \<noteq> ''/'' \<longrightarrow> (\<exists>q perm. parent_of p = Some q \<and> lookup v q = Some (Directory perm))))"

lemma tree_ok_entry:
  "tree_ok v \<Longrightarrow> lookup v p = Some e \<Longrightarrow> p \<noteq> ''/'' \<Longrightarrow>
     \<exists>q perm. parent_of p = Some q \<and> lookup v q = Some (Directory perm)"
  unfolding tree_ok_def by blast

lemma tree_ok_insert:
  assumes "tree_ok v" "canonical p" "p \<noteq> ''/''"
    and "\<exists>q perm. parent_of p = Some q \<and> lookup v q = Some (Directory perm)"
    and "\<And>perm. lookup v p \<noteq> Some (Directory perm)"
  shows "tree_ok (insert_entry p e v)"
  unfolding tree_ok_def
proof (intro conjI allI impI)
  show "lookup (insert_entry p e v) ''/'' = Some (Directory ReadOnly)"
    using assms(1,3) by (simp add: tree_ok_def)
next
  fix k x
  assume k: "lookup (insert_entry p e v) k = Some x"
  then show "canonical k"
    using assms(1,2) by (auto simp: tree_ok_def split: if_splits)
  assume "k \<noteq> ''/''"
  with k assms(4) tree_ok_entry [OF assms(1)] obtain q perm
    where "parent_of k = Some q" "lookup v q = Some (Directory perm)"
    by (metis lookup_simps(1))
  with assms(5) show "\<exists>q perm. parent_of k = Some q \<and>
      lookup (insert_entry p e v) q = Some (Directory perm)"
    by auto
qed

lemma tree_ok_create:
  assumes "tree_ok v" "canonical p" "check_mutation v p Create = Ok ()"
  shows "tree_ok (insert_entry p e v)"
proof (rule tree_ok_insert [OF assms(1,2)])
  from assms(3) have new: "lookup v p = None" "check_parent_writable v p = Ok ()"
    by (simp_all add: check_create)
  then show root: "p \<noteq> ''/''" using assms(1) by (auto simp: tree_ok_def)
  show "\<exists>q perm. parent_of p = Some q \<and> lookup v q = Some (Directory perm)"
    using canonical_parent [OF assms(2) root] new(2) by (auto simp: check_parent_writable_Ok)
  show "lookup v p \<noteq> Some (Directory perm)" for perm using new by simp
qed

lemma tree_ok_file:
  assumes "tree_ok v" "lookup v p = Some (File c perm)"
  shows "tree_ok (insert_entry p e v)"
  using assms tree_ok_entry [OF assms] by (intro tree_ok_insert) (auto simp: tree_ok_def)

lemma tree_ok_create_dirs:
  "tree_ok v \<Longrightarrow> list_all valid_name (cs @ parts) \<Longrightarrow> cur = (if cs = [] then [] else path_of cs) \<Longrightarrow>
     tree_ok (snd (create_dirs perm cur parts v))"
proof (induction parts arbitrary: cs cur v)
  case (Cons part parts)
  have cur: "cur @ ''/'' @ part = path_of (cs @ [part])"
    using Cons.prems(3) by (simp add: path_of_snoc)
  have can: "canonical (path_of (cs @ [part]))"
    unfolding canonical_def using Cons.prems(2) by (intro exI [of _ "cs @ [part]"]) simp
  have IH: "tree_ok w \<Longrightarrow> tree_ok (snd (create_dirs perm (path_of (cs @ [part])) parts w))" for w
    using Cons.IH [of w "cs @ [part]" "path_of (cs @ [part])"] Cons.prems(2) by simp
  show ?case
    unfolding create_dirs.simps Let_def cur
    using IH tree_ok_create [OF Cons.prems(1) can] Cons.prems(1)
    by (auto split: option.split intro!: try_mut_cases [where P = "\<lambda>x. tree_ok (snd x)"])
qed simp

lemma collect_children_Nil:
  "collect_children path pre {} es = [] \<Longrightarrow> (k, e) \<in> set es \<Longrightarrow>
     k = path \<or> \<not> starts_with k pre \<or> CHR ''/'' \<in> set (drop (length pre) k) \<or>
     drop (length pre) k = []"
  by (induction es) (auto simp: Let_def split: if_splits)

lemma tree_ok_delete:
  assumes "tree_ok v" "p \<noteq> ''/''" "\<And>k. lookup v k \<noteq> None \<Longrightarrow> parent_of k \<noteq> Some p"
  shows "tree_ok (remove_entry p v)"
  unfolding tree_ok_def
proof (intro conjI allI impI)
  show "lookup (remove_entry p v) ''/'' = Some (Directory ReadOnly)"
    using assms(1,2) by (simp add: tree_ok_def)
next
  fix k x
  assume "lookup (remove_entry p v) k = Some x"
  then have k: "lookup v k = Some x" by (simp split: if_splits)
  then show "canonical k" using assms(1) by (simp add: tree_ok_def)
  assume "k \<noteq> ''/''"
  with k assms(3) [of k] tree_ok_entry [OF assms(1)] show "\<exists>q perm. parent_of k = Some q \<and>
      lookup (remove_entry p v) q = Some (Directory perm)"
    by (metis lookup_simps(2) option.distinct(1))
qed

lemma sort_key_Nil [simp]: "sort_key f xs = [] \<longleftrightarrow> xs = []"
  by (metis length_0_conv length_sort)

lemma canonical_no_trailing: "canonical k \<Longrightarrow> k = a @ [CHR ''/''] \<Longrightarrow> a = []"
  by (erule canonical_cases) (auto simp: path_of_snoc valid_name_def append_eq_append_conv2
      Cons_eq_append_conv append_eq_Cons_conv)

lemma empty_dir_no_child:
  assumes "tree_ok v" "normalize p = Ok p" "p \<noteq> ''/''" "list_dir v p = Ok []"
    "lookup v k = Some e"
  shows "parent_of k \<noteq> Some p"
proof
  assume "parent_of k = Some p"
  with assms(3) obtain b where k: "k = p @ CHR ''/'' # b" "CHR ''/'' \<notin> set b"
    by (auto simp: parent_of_Some split: if_splits)
  from assms(5) have mem: "(k, e) \<in> set (entries v)"
    by (auto simp: lookup_def dest: map_of_SomeD)
  from assms(2,3,4) have "collect_children p (p @ ''/'') {} (entries v) = []"
    by (auto simp: list_dir_def Let_def split: option.splits entry.splits)
  from collect_children_Nil [OF this mem] k have "b = []"
    by (auto simp: starts_with_def prefix_def)
  with k have "p = []" using canonical_no_trailing [of k p] assms(1,5) by (simp add: tree_ok_def)
  with normalize_nonempty [OF assms(2)] show False by simp
qed

lemma root_not_deletable: "tree_ok v \<Longrightarrow> check_mutation v ''/'' Delete \<noteq> Ok u"
  by (auto simp: check_delete tree_ok_def)

lemma tree_ok_vfs_remove:
  assumes "tree_ok v" "normalize p = Ok q" "normalize q = Ok q"
  shows "tree_ok (snd (vfs_remove p v))"
proof -
  have "tree_ok (remove_entry q v)"
    if del: "check_mutation v q Delete = Ok ()"
      and empty: "is_dir v q \<Longrightarrow> list_dir v q = Ok []"
  proof (rule tree_ok_delete [OF assms(1)])
    show root: "q \<noteq> ''/''" using root_not_deletable [OF assms(1)] del by auto
    fix k
    assume "lookup v k \<noteq> None"
    then obtain e where e: "lookup v k = Some e" by blast
    show "parent_of k \<noteq> Some q"
    proof
      assume par: "parent_of k = Some q"
      then have "k \<noteq> ''/''" by (auto simp: parent_of_def)
      with tree_ok_entry [OF assms(1) e] par have "is_dir v q"
        using assms(3) by (auto simp: is_dir_def)
      from empty_dir_no_child [OF assms(1,3) root empty [OF this] e] par show False by simp
    qed
  qed
  then show ?thesis
    using assms by (auto simp: vfs_remove_def intro!: try_mut_cases [where P = "\<lambda>x. tree_ok (snd x)"])
qed

lemma fold_remove_tree_ok:
  assumes "tree_ok v" "''/'' \<notin> set ps"
    and "\<And>k e q. lookup v k = Some e \<Longrightarrow> parent_of k = Some q \<Longrightarrow> q \<in> set ps \<Longrightarrow> k \<in> set ps"
  shows "tree_ok (fold remove_entry ps v)"
  unfolding tree_ok_def vfs_store.get_fold_del
proof (intro conjI allI impI)
  show "(if ''/'' \<in> set ps then None else lookup v ''/'') = Some (Directory ReadOnly)"
    using assms(1,2) by (simp add: tree_ok_def)
next
  fix k e
  assume "(if k \<in> set ps then None else lookup v k) = Some e"
  then have k: "k \<notin> set ps" "lookup v k = Some e" by (simp_all split: if_splits)
  then show "canonical k" using assms(1) by (simp add: tree_ok_def)
  assume "k \<noteq> ''/''"
  with tree_ok_entry [OF assms(1) k(2)] obtain q perm
    where "parent_of k = Some q" "lookup v q = Some (Directory perm)" by blast
  with k assms(3) show "\<exists>q perm. parent_of k = Some q \<and>
      (if q \<in> set ps then None else lookup v q) = Some (Directory perm)"
    by metis
qed

lemma child_below: "parent_of k = Some q \<Longrightarrow> q \<noteq> ''/'' \<Longrightarrow> \<exists>b. k = q @ CHR ''/'' # b"
  unfolding parent_of_Some by metis

lemma tree_ok_remove_recursive:
  assumes "tree_ok v"
  shows "tree_ok (snd (remove_recursive p v))"
proof -
  have "tree_ok (fold remove_entry ps v)"
    if norm: "normalize p = Ok path" and del: "\<forall>q \<in> set ps. check_mutation v q Delete = Ok ()"
      and ps: "set ps = {q \<in> fst ` set (entries v). q = path \<or> starts_with q (path @ ''/'')}"
    for path ps
  proof (rule fold_remove_tree_ok [OF assms])
    show "''/'' \<notin> set ps" using del root_not_deletable [OF assms] by blast
    fix k e q
    assume k: "lookup v k = Some e" "parent_of k = Some q" "q \<in> set ps"
    from k(3) \<open>''/'' \<notin> set ps\<close> have "q \<noteq> ''/''" by metis
    with k(2) obtain b where "k = q @ CHR ''/'' # b" using child_below by blast
    moreover from k(3) ps have "prefix (path @ ''/'') (q @ ''/'')"
      unfolding starts_with_def by (auto intro: prefix_order.trans)
    ultimately have "starts_with k (path @ ''/'')"
      unfolding starts_with_def by (auto intro: prefix_order.trans)
    moreover have "k \<in> fst ` set (entries v)"
      using k(1) by (force simp: lookup_def dest: map_of_SomeD)
    ultimately show "k \<in> set ps" using ps by simp
  qed
  then show ?thesis
    using assms by (auto simp: remove_recursive_def Let_def
        intro!: try_mut_cases [where P = "\<lambda>x. tree_ok (snd x)"])
qed

text \<open>The path of a plain removal is normalised twice by the code; the tree is safe when both agree.\<close>

definition stable_op :: "vfs_op \<Rightarrow> bool" where
  "stable_op op = (case op of
     RemovePath p \<Rightarrow> (case normalize p of Inl _ \<Rightarrow> True | Inr q \<Rightarrow> normalize q = Ok q)
   | _ \<Rightarrow> True)"

lemma run_op_tree_ok: "tree_ok v \<Longrightarrow> stable_op op \<Longrightarrow> tree_ok (snd (run_op op v))"
proof (cases op)
  case (CreateDir p perm)
  assume v: "tree_ok v"
  with CreateDir tree_ok_create [OF v normalize_canonical_lemma] show ?thesis
    by (auto simp: create_dir_def intro!: try_mut_cases [where P = "\<lambda>x. tree_ok (snd x)"])
next
  case (CreateDirAll p perm)
  assume v: "tree_ok v"
  have "tree_ok (snd (create_dirs perm [] (path_parts q) v))" if "normalize p = Ok q" for q
  proof -
    from normalize_canonical_lemma [OF that] obtain cs
      where "list_all valid_name cs" "q = path_of cs" by (auto simp: canonical_def)
    with tree_ok_create_dirs [OF v, of "[]" "path_parts q"] show ?thesis
      by (simp add: path_parts_path_of)
  qed
  with v CreateDirAll show ?thesis
    by (auto simp: create_dir_all_def intro!: try_mut_cases [where P = "\<lambda>x. tree_ok (snd x)"])
next
  case (WriteFile p c perm)
  assume v: "tree_ok v"
  have "tree_ok (insert_entry q e v)"
    if "normalize p = Ok q" "check_mutation v q Overwrite = Ok ()" for q e
    using tree_ok_create [OF v normalize_canonical_lemma [OF that(1)]] tree_ok_file [OF v] that(2)
    by (auto simp: check_overwrite check_create)
  with v WriteFile show ?thesis
    by (auto simp: write_file_def intro!: try_mut_cases [where P = "\<lambda>x. tree_ok (snd x)"])
next
  case (AppendFile p c)
  assume v: "tree_ok v"
  with AppendFile tree_ok_file [OF v] show ?thesis
    by (auto simp: append_file_def intro!: try_mut_cases [where P = "\<lambda>x. tree_ok (snd x)"]
        split: option.split entry.split)
next
  case (RemovePath p)
  assume v: "tree_ok v" "stable_op op"
  with RemovePath tree_ok_vfs_remove [OF v(1), of p] show ?thesis
    by (cases "normalize p") (auto simp: stable_op_def vfs_remove_def)
next
  case (RemoveRecursive p)
  assume "tree_ok v"
  with RemoveRecursive tree_ok_remove_recursive show ?thesis by simp
qed

lemma tree_ok_vfs_new: "tree_ok vfs_new"
proof -
  have can: "canonical p" if "list_all valid_name cs" "p = path_of cs" for p cs
    using that by (auto simp: canonical_def)
  have "canonical ''/''" "canonical ''/tools''" "canonical ''/workspace''" "canonical ''/tmp''"
    "canonical ''/log''" "canonical ''/bin''" "canonical ''/log/actions.jsonl''"
    "canonical ''/workspace/README.md''"
    by (rule can [of "[]"] can [of "[''tools'']"] can [of "[''workspace'']"] can [of "[''tmp'']"]
        can [of "[''log'']"] can [of "[''bin'']"] can [of "[''log'', ''actions.jsonl'']"]
        can [of "[''workspace'', ''README.md'']"]; simp add: valid_name_def path_of_def)+
  then show ?thesis
    by (auto simp: tree_ok_def lookup_vfs_new parent_of_def rfind_def split: if_splits)
qed

section \<open>Properties\<close>

text \<open>Every mutation goes through the chokepoint: whatever an operation does to the file system,
  also when it fails half way, is a sequence of permitted primitive changes (creation below a
  read-write directory, overwriting a read-write file, extension of a file that is not read-only,
  deletion of a read-write entry below a read-write directory).\<close>

theorem vfs_chokepoint: "permitted\<^sup>*\<^sup>* v (snd (run_op op v))"
  by (rule run_op_permitted)

text \<open>C6. No sequence of operations touches a protected entry: a read-only file, a read-only or
  append-only directory is unchanged in every later state, and an append-only file has only been
  extended.\<close>

theorem vfs_protected:
  assumes "agent_step\<^sup>*\<^sup>* v w" and "lookup v p = Some e"
  shows "keeps e (lookup w p)"
  using assms by (rule agent_keeps)

theorem vfs_protected_witness:
  "keeps (File [] AppendOnly)
     (lookup (snd (run_op (AppendFile ''/log/actions.jsonl'' [1]) vfs_new)) ''/log/actions.jsonl'')"
  by (rule vfs_protected [OF r_into_rtranclp [of agent_step, OF agent_step.intros]])
    (simp add: lookup_vfs_new)

text \<open>C3. The agent is confined: in every state reachable from a new file system, a path whose entry
  was created, changed or removed lies below \<open>/workspace\<close> or \<open>/tmp\<close>, or is the action log.\<close>

theorem vfs_confinement:
  assumes "agent_step\<^sup>*\<^sup>* vfs_new v"
  shows "{p. lookup v p \<noteq> lookup vfs_new p} \<subseteq>
    {p. starts_with p ''/workspace/'' \<or> starts_with p ''/tmp/'' \<or> p = ''/log/actions.jsonl''}"
  using confined_reachable [OF agent_permitted [OF assms]]
  by (auto simp: confined_def inside_def)

theorem vfs_confinement_witness:
  "lookup (snd (run_op (WriteFile ''/bin/sh'' [1] ReadWrite) vfs_new)) ''/bin/sh'' = None"
proof -
  have "''/bin/sh'' \<notin> {p. starts_with p ''/workspace/'' \<or> starts_with p ''/tmp/'' \<or>
      p = ''/log/actions.jsonl''}" by (simp add: starts_with_def)
  with vfs_confinement [OF r_into_rtranclp [of agent_step, OF agent_step.intros]]
  have "lookup (snd (run_op (WriteFile ''/bin/sh'' [1] ReadWrite) vfs_new)) ''/bin/sh'' =
      lookup vfs_new ''/bin/sh''" by blast
  then show ?thesis by (simp add: lookup_vfs_new)
qed

text \<open>C11. The tree stays well formed from the new file system on: the root is a read-only directory,
  every path is canonical and every other entry lies in a directory, as long as the path of every
  plain removal is a fixed point of normalisation.\<close>

theorem vfs_tree_ok:
  assumes "list_all stable_op ops"
  shows "tree_ok (fold (\<lambda>op v. snd (run_op op v)) ops vfs_new)"
proof -
  have "tree_ok v \<Longrightarrow> tree_ok (fold (\<lambda>op v. snd (run_op op v)) ops v)" for v
    using assms by (induction ops arbitrary: v) (simp_all add: run_op_tree_ok)
  then show ?thesis using tree_ok_vfs_new .
qed

theorem vfs_tree_ok_witness:
  "tree_ok (fold (\<lambda>op v. snd (run_op op v)) [CreateDir ''/tmp/a'' ReadOnly, RemoveRecursive ''/tmp''] vfs_new)"
  by (rule vfs_tree_ok) (simp add: stable_op_def)

definition spaced_dir :: vfs where
  "spaced_dir = snd (write_file ''/workspace/d /f'' [1] ReadWrite
     (snd (create_dir ''/workspace/d /.'' ReadWrite vfs_new)))"

lemma spaced_paths:
  "normalize ''/workspace/d /.'' = Ok ''/workspace/d ''"
  "normalize ''/workspace/d '' = Ok ''/workspace/d''"
  "normalize ''/workspace/d /f'' = Ok ''/workspace/d /f''"
  "parent_of ''/workspace/d '' = Some ''/workspace''"
  "parent_of ''/workspace/d /f'' = Some ''/workspace/d ''"
  by code_simp+

text \<open>Plain removal of a directory whose normalised name ends in a blank skips the emptiness test,
  because the code normalises the path a second time: the directory goes and its file stays
  behind without a parent.\<close>

theorem vfs_remove_orphans:
  "fst (vfs_remove ''/workspace/d /.'' spaced_dir) = Ok () \<and>
   lookup (snd (vfs_remove ''/workspace/d /.'' spaced_dir)) ''/workspace/d '' = None \<and>
   lookup (snd (vfs_remove ''/workspace/d /.'' spaced_dir)) ''/workspace/d /f'' =
     Some (File [1] ReadWrite)"
proof -
  let ?v = "insert_entry ''/workspace/d '' (Directory ReadWrite) vfs_new"
  let ?w = "insert_entry ''/workspace/d /f'' (File [1] ReadWrite) ?v"
  have "check_mutation vfs_new ''/workspace/d '' Create = Ok ()"
    by (simp add: check_create check_parent_writable_Ok spaced_paths lookup_vfs_new)
  then have "create_dir ''/workspace/d /.'' ReadWrite vfs_new = (Ok (), ?v)"
    by (simp add: create_dir_def spaced_paths)
  moreover have "check_mutation ?v ''/workspace/d /f'' Overwrite = Ok ()"
    by (simp add: check_overwrite check_parent_writable_Ok spaced_paths lookup_vfs_new)
  ultimately have v: "spaced_dir = ?w"
    by (simp add: spaced_dir_def write_file_def spaced_paths)
  moreover have "check_mutation ?w ''/workspace/d '' Delete = Ok ()"
    by (simp add: check_delete check_parent_writable_Ok spaced_paths lookup_vfs_new)
  moreover have "\<not> is_dir ?w ''/workspace/d ''"
    by (simp add: is_dir_def spaced_paths lookup_vfs_new)
  ultimately show ?thesis unfolding v by (simp add: vfs_remove_def spaced_paths)
qed

text \<open>The permission queries are exact: \<open>can_write_to\<close> and \<open>can_append_to\<close> hold exactly when the
  write or the append of any content at that path succeeds.\<close>

theorem can_write_exact:
  "can_write_to v p = is_ok (fst (write_file p c perm v)) \<and>
   can_append_to v p = is_ok (fst (append_file p c v))"
  by (auto simp: can_write_to_def can_append_to_def write_file_def append_file_def try_mut_def
      is_ok_def split: sum.split)

text \<open>A write is seen by reads and by nothing else: after a successful write the file reads back
  what was written, and every path with another normal form reads as before.\<close>

theorem write_read:
  assumes "fst (write_file p c perm v) = Ok ()"
  shows "read_file (snd (write_file p c perm v)) p = Ok c \<and>
    (normalize q = normalize p \<or>
     read_file (snd (write_file p c perm v)) q = read_file v q)"
proof -
  from assms obtain path where "normalize p = Ok path" "check_mutation v path Overwrite = Ok ()"
    by (auto simp: write_file_def try_mut_def split: sum.splits)
  then show ?thesis
    by (cases "normalize q") (auto simp: write_file_def read_file_def)
qed

theorem write_read_witness:
  "read_file (snd (write_file '' /workspace//x/../a '' [1, 2] ReadWrite vfs_new)) ''/workspace/a'' =
     read_file (snd (write_file '' /workspace//x/../a '' [1, 2] ReadWrite vfs_new))
       '' /workspace//x/../a ''"
proof -
  have "fst (write_file '' /workspace//x/../a '' [1, 2] ReadWrite vfs_new) = Ok ()" by code_simp
  from write_read [OF this] have "read_file (snd (write_file '' /workspace//x/../a '' [1, 2] ReadWrite
      vfs_new)) '' /workspace//x/../a '' = Ok [1, 2]" by blast
  moreover have "normalize ''/workspace/a'' = normalize '' /workspace//x/../a ''" by code_simp
  ultimately show ?thesis by (simp add: read_file_def)
qed

lemma try_mut_failed:
  "fst (try_mut r v f) = Err e \<Longrightarrow> (\<And>x. fst (f x) = Err e \<Longrightarrow> snd (f x) = v) \<Longrightarrow>
     snd (try_mut r v f) = v"
  by (cases r) simp_all

text \<open>A failed operation changes nothing, with one exception: \<open>create_dir_all\<close> keeps the
  directories it created before the failing component.\<close>

theorem failed_op_unchanged:
  assumes "fst (run_op op v) = Err e" and "\<nexists>p perm. op = CreateDirAll p perm"
  shows "snd (run_op op v) = v"
  using assms
  by (cases op)
    (auto simp: create_dir_def write_file_def append_file_def vfs_remove_def remove_recursive_def
      Let_def elim!: try_mut_failed split: if_splits)

theorem failed_op_unchanged_witness:
  "snd (run_op (WriteFile ''/tools/x'' [1] ReadWrite) vfs_new) = vfs_new"
proof -
  have "fst (run_op (WriteFile ''/tools/x'' [1] ReadWrite) vfs_new) =
      Err (PermissionDenied ''parent directory is read-only: /tools'')" by code_simp
  from failed_op_unchanged [OF this] show ?thesis by simp
qed

text \<open>Normalisation is confined to the root: it returns only absolute paths made of proper names,
  without empty, \<open>.\<close> or \<open>..\<close> components and without null bytes, and it gives back every such path that
  has no blank at its ends.\<close>

theorem normalize_canonical:
  "{q. \<exists>p. normalize p = Ok q} \<subseteq> {path_of cs | cs. list_all valid_name cs} \<and>
   {q. canonical q \<and> trim q = q} \<subseteq> {q. normalize q = Ok q}"
  using normalize_canonical_lemma normalize_trimmed by (auto simp: canonical_def)

end
