(* ===== verification/PageCache.thy ===== *)
theory PageCache
  imports Prelude "HOL-Library.AList"
begin

text \<open>
  The block cache shared by the handles of a file, \<open>crates/amla-sandbox-vfs/src/page_cache.rs\<close>:
  an LRU cache with a bound on the number of blocks, and the coordination of fetches in flight. A
  \<open>HashMap\<close> is an association list with distinct keys, and an operation returns the wakers it calls beside the cache after it. A waker is a number that stands for its data pointer, which
  is what \<open>will_wake\<close> compares: the scheduler gives every clone of a task's waker a box of its own, so two
  wakers of one task are two wakers here, and registering does not merge them. Block numbers and counts
  are natural numbers: no operation computes with a block number, and the eviction count is a
  statistic nothing depends on.
\<close>

section \<open>The cache\<close>

type_synonym waker = nat

record page_cache =
  blocks :: "(nat \<times> bytes) list"
  lru_order :: "nat list"
  max_blocks :: nat
  block_size :: nat
  file_size :: nat
  pending_fetches :: "(nat \<times> waker list) list"
  eviction_count :: nat

datatype fetch_action = Cached | Fetch | Wait

definition default_max_blocks :: nat where
  "default_max_blocks = 64"

definition with_max_blocks :: "nat \<Rightarrow> nat \<Rightarrow> nat \<Rightarrow> page_cache" where
  "with_max_blocks bs fs m = \<lparr>blocks = [], lru_order = [], max_blocks = m, block_size = bs,
     file_size = fs, pending_fetches = [], eviction_count = 0\<rparr>"

definition page_cache_new :: "nat \<Rightarrow> nat \<Rightarrow> page_cache" where
  "page_cache_new bs fs = with_max_blocks bs fs default_max_blocks"

definition set_file_size :: "nat \<Rightarrow> page_cache \<Rightarrow> page_cache" where
  "set_file_size n c = c\<lparr>file_size := n\<rparr>"

definition cache_contains :: "nat \<Rightarrow> page_cache \<Rightarrow> bool" where
  "cache_contains b c = (map_of (blocks c) b \<noteq> None)"

definition touch :: "nat \<Rightarrow> page_cache \<Rightarrow> page_cache" where
  "touch b c = c\<lparr>lru_order := remove1 b (lru_order c) @ [b]\<rparr>"

definition cache_get :: "nat \<Rightarrow> page_cache \<Rightarrow> bytes option \<times> page_cache" where
  "cache_get b c =
     (case map_of (blocks c) b of Some data \<Rightarrow> (Some data, touch b c) | None \<Rightarrow> (None, c))"

definition evict_lru :: "page_cache \<Rightarrow> page_cache" where
  "evict_lru c =
     (case lru_order c of
        [] \<Rightarrow> c
      | b # rest \<Rightarrow> c\<lparr>lru_order := rest, blocks := AList.delete b (blocks c),
          eviction_count := eviction_count c + 1\<rparr>)"

definition cache_insert :: "nat \<Rightarrow> bytes \<Rightarrow> page_cache \<Rightarrow> page_cache" where
  "cache_insert b data c =
     (let c = (if max_blocks c > 0 then
                 (let current_count = length (blocks c); is_new = \<not> cache_contains b c
                  in if is_new \<and> current_count \<ge> max_blocks c then evict_lru c else c)
               else c)
      in touch b (c\<lparr>blocks := AList.update b data (blocks c)\<rparr>))"

definition invalidate :: "nat \<Rightarrow> page_cache \<Rightarrow> page_cache" where
  "invalidate b c =
     c\<lparr>blocks := AList.delete b (blocks c), lru_order := remove1 b (lru_order c)\<rparr>"

definition cache_clear :: "page_cache \<Rightarrow> page_cache" where
  "cache_clear c = c\<lparr>blocks := [], lru_order := []\<rparr>"

definition cached_bytes :: "page_cache \<Rightarrow> nat" where
  "cached_bytes c = sum_list (map (length \<circ> snd) (blocks c))"

section \<open>Fetches in flight\<close>

definition is_fetching :: "nat \<Rightarrow> page_cache \<Rightarrow> bool" where
  "is_fetching b c = (map_of (pending_fetches c) b \<noteq> None)"

definition try_start_fetch :: "nat \<Rightarrow> page_cache \<Rightarrow> fetch_action \<times> page_cache" where
  "try_start_fetch b c =
     (if cache_contains b c then (Cached, c)
      else if map_of (pending_fetches c) b \<noteq> None then (Wait, c)
      else (Fetch, c\<lparr>pending_fetches := AList.update b [] (pending_fetches c)\<rparr>))"

definition register_fetch_waker :: "nat \<Rightarrow> waker \<Rightarrow> page_cache \<Rightarrow> page_cache" where
  "register_fetch_waker b w c =
     (case map_of (pending_fetches c) b of
        Some wakers \<Rightarrow>
          if \<not> list_ex (\<lambda>x. x = w) wakers
          then c\<lparr>pending_fetches := AList.update b (wakers @ [w]) (pending_fetches c)\<rparr> else c
      | None \<Rightarrow> c)"

definition cancel_fetch :: "nat \<Rightarrow> page_cache \<Rightarrow> waker list \<times> page_cache" where
  "cancel_fetch b c =
     (case map_of (pending_fetches c) b of
        Some wakers \<Rightarrow> (wakers, c\<lparr>pending_fetches := AList.delete b (pending_fetches c)\<rparr>)
      | None \<Rightarrow> ([], c))"

text \<open>The second half of \<open>complete_fetch\<close> is the body of \<open>cancel_fetch\<close>.\<close>

definition complete_fetch :: "nat \<Rightarrow> bytes \<Rightarrow> page_cache \<Rightarrow> waker list \<times> page_cache" where
  "complete_fetch b data c = cancel_fetch b (cache_insert b data c)"

section \<open>Sequences of operations\<close>

datatype cache_op =
    CacheGet nat
  | CacheInsert nat bytes
  | CacheInvalidate nat
  | CacheClear
  | SetFileSize nat
  | TryStartFetch nat
  | RegisterWaker nat waker
  | CompleteFetch nat bytes
  | CancelFetch nat

fun cache_step :: "cache_op \<Rightarrow> page_cache \<Rightarrow> page_cache" where
  "cache_step (CacheGet b) c = snd (cache_get b c)"
| "cache_step (CacheInsert b d) c = cache_insert b d c"
| "cache_step (CacheInvalidate b) c = invalidate b c"
| "cache_step CacheClear c = cache_clear c"
| "cache_step (SetFileSize n) c = set_file_size n c"
| "cache_step (TryStartFetch b) c = snd (try_start_fetch b c)"
| "cache_step (RegisterWaker b w) c = register_fetch_waker b w c"
| "cache_step (CompleteFetch b d) c = snd (complete_fetch b d c)"
| "cache_step (CancelFetch b) c = snd (cancel_fetch b c)"

definition run_cache :: "cache_op list \<Rightarrow> page_cache \<Rightarrow> page_cache" where
  "run_cache ops c = fold cache_step ops c"

text \<open>The specification: blocks with their data, the least recently used one first.\<close>

type_synonym lru = "(nat \<times> bytes) list"

definition lru_insert :: "nat \<Rightarrow> nat \<Rightarrow> bytes \<Rightarrow> lru \<Rightarrow> lru" where
  "lru_insert m b d xs =
     (let xs = (if 0 < m \<and> b \<notin> fst ` set xs \<and> m \<le> length xs then tl xs else xs)
      in filter (\<lambda>x. fst x \<noteq> b) xs @ [(b, d)])"

fun lru_step :: "nat \<Rightarrow> cache_op \<Rightarrow> lru \<Rightarrow> lru" where
  "lru_step m (CacheGet b) xs =
     (case map_of xs b of Some d \<Rightarrow> filter (\<lambda>x. fst x \<noteq> b) xs @ [(b, d)] | None \<Rightarrow> xs)"
| "lru_step m (CacheInsert b d) xs = lru_insert m b d xs"
| "lru_step m (CompleteFetch b d) xs = lru_insert m b d xs"
| "lru_step m (CacheInvalidate b) xs = filter (\<lambda>x. fst x \<noteq> b) xs"
| "lru_step m CacheClear xs = []"
| "lru_step m _ xs = xs"

definition cache_list :: "page_cache \<Rightarrow> lru" where
  "cache_list c = map (\<lambda>b. (b, the (map_of (blocks c) b))) (lru_order c)"

definition cache_ok :: "page_cache \<Rightarrow> bool" where
  "cache_ok c \<longleftrightarrow> distinct (map fst (blocks c)) \<and> distinct (lru_order c) \<and>
     set (lru_order c) = fst ` set (blocks c) \<and>
     (max_blocks c > 0 \<longrightarrow> length (blocks c) \<le> max_blocks c)"

section \<open>The invariant and the refinement\<close>

lemma cache_ok_length: "cache_ok c \<Longrightarrow> length (lru_order c) = length (blocks c)"
  unfolding cache_ok_def by (metis distinct_card length_map list.set_map)

lemma cache_ok_dom: "cache_ok c \<Longrightarrow> map_of (blocks c) b = None \<longleftrightarrow> b \<notin> set (lru_order c)"
  by (auto simp: cache_ok_def map_of_eq_None_iff)

lemma contains_lru: "cache_ok c \<Longrightarrow> cache_contains b c \<longleftrightarrow> b \<in> set (lru_order c)"
  by (simp add: cache_contains_def cache_ok_dom)

lemma fst_delete: "fst ` set (AList.delete b al) = fst ` set al - {b}"
  by (metis delete_keys list.set_map set_removeAll)

lemma map_of_tagged: "map_of (map (\<lambda>b. (b, f b)) bs) b = (if b \<in> set bs then Some (f b) else None)"
  by (induction bs) auto

lemma map_of_cache_list: "cache_ok c \<Longrightarrow> map_of (cache_list c) b = map_of (blocks c) b"
  using cache_ok_dom [of c b] by (auto simp: cache_list_def map_of_tagged)

lemma fst_cache_list [simp]: "map fst (cache_list c) = lru_order c"
  by (simp add: cache_list_def comp_def)

lemma keys_cache_list: "fst ` set (cache_list c) = set (lru_order c)"
  by (simp flip: list.set_map)

lemma filter_tagged:
  "distinct bs \<Longrightarrow> filter (\<lambda>x. fst x \<noteq> b) (map (\<lambda>b. (b, f b)) bs) =
     map (\<lambda>b. (b, f b)) (remove1 b bs)"
  by (simp add: distinct_remove1_removeAll filter_map comp_def removeAll_filter_not_eq eq_commute)

lemma touch_list:
  assumes "cache_ok c" "map_of (blocks c) b = Some d"
  shows "cache_ok (touch b c)"
    "cache_list (touch b c) = filter (\<lambda>x. fst x \<noteq> b) (cache_list c) @ [(b, d)]"
proof -
  have "distinct (lru_order c)" "b \<in> set (lru_order c)"
    using assms cache_ok_dom [OF assms(1), of b] by (auto simp: cache_ok_def)
  with assms show "cache_ok (touch b c)"
    "cache_list (touch b c) = filter (\<lambda>x. fst x \<noteq> b) (cache_list c) @ [(b, d)]"
    by (auto simp: cache_ok_def touch_def cache_list_def filter_tagged)
qed

lemma evict_list:
  assumes "cache_ok c"
  shows "cache_ok (evict_lru c)" "cache_list (evict_lru c) = tl (cache_list c)"
    "length (blocks (evict_lru c)) = length (blocks c) - 1"
proof -
  have ok: "cache_ok (evict_lru c) \<and> cache_list (evict_lru c) = tl (cache_list c)"
  proof (cases "lru_order c")
    case (Cons b rest)
    with assms have keys: "distinct (map fst (blocks c))" "insert b (set rest) = fst ` set (blocks c)"
      "b \<notin> set rest" "distinct rest"
      by (auto simp: cache_ok_def)
    have "length (AList.delete b (blocks c)) \<le> length (blocks c)" by (rule length_delete_le)
    moreover have "set rest = fst ` set (AList.delete b (blocks c))"
      using keys by (auto simp: fst_delete)
    moreover have "distinct (map fst (AList.delete b (blocks c)))"
      using keys(1) by (rule distinct_delete)
    ultimately show ?thesis
      using Cons assms keys by (auto simp: cache_ok_def evict_lru_def cache_list_def delete_conv)
  qed (use assms in \<open>simp add: evict_lru_def cache_list_def\<close>)
  then show "cache_ok (evict_lru c)" "cache_list (evict_lru c) = tl (cache_list c)" by simp_all
  show "length (blocks (evict_lru c)) = length (blocks c) - 1"
    using cache_ok_length [OF assms] cache_ok_length [of "evict_lru c"] ok
    by (metis fst_cache_list length_map length_tl)
qed

lemma max_blocks_ops [simp]:
  "max_blocks (touch b c) = max_blocks c" "max_blocks (evict_lru c) = max_blocks c"
  "max_blocks (cache_insert b d c) = max_blocks c" "max_blocks (snd (cache_get b c)) = max_blocks c"
  "max_blocks (invalidate b c) = max_blocks c"
  by (simp_all add: touch_def evict_lru_def cache_insert_def cache_get_def invalidate_def Let_def
      split: list.split option.split)

lemma tagged_update:
  "distinct bs \<Longrightarrow> map (\<lambda>k. (k, the (if k = b then Some d else f k))) (remove1 b bs @ [b]) =
     filter (\<lambda>x. fst x \<noteq> b) (map (\<lambda>k. (k, the (f k))) bs) @ [(b, d)]"
  by (auto simp: filter_tagged)

lemma set_block:
  assumes "cache_ok c" "max_blocks c > 0 \<Longrightarrow> \<not> cache_contains b c \<Longrightarrow>
    length (blocks c) < max_blocks c"
  shows "cache_ok (touch b (c\<lparr>blocks := AList.update b d (blocks c)\<rparr>))"
    "cache_list (touch b (c\<lparr>blocks := AList.update b d (blocks c)\<rparr>)) =
       filter (\<lambda>x. fst x \<noteq> b) (cache_list c) @ [(b, d)]"
proof -
  have lru: "distinct (lru_order c)" "set (lru_order c) = fst ` set (blocks c)"
    using assms(1) by (auto simp: cache_ok_def)
  have keys: "map fst (AList.update b d (blocks c)) =
      (if cache_contains b c then map fst (blocks c) else map fst (blocks c) @ [b])"
    by (simp add: update_keys cache_contains_def map_of_eq_None_iff)
  then have "length (AList.update b d (blocks c)) =
      (if cache_contains b c then length (blocks c) else length (blocks c) + 1)"
    by (metis length_append_singleton length_map Suc_eq_plus1)
  with assms lru show "cache_ok (touch b (c\<lparr>blocks := AList.update b d (blocks c)\<rparr>))"
    by (auto simp: cache_ok_def touch_def distinct_update dom_update)
  show "cache_list (touch b (c\<lparr>blocks := AList.update b d (blocks c)\<rparr>)) =
      filter (\<lambda>x. fst x \<noteq> b) (cache_list c) @ [(b, d)]"
    using tagged_update [OF lru(1), of b d "map_of (blocks c)"]
    by (simp add: cache_list_def touch_def update_conv)
qed

lemma insert_list:
  assumes "cache_ok c"
  shows "cache_ok (cache_insert b d c)"
    "cache_list (cache_insert b d c) = lru_insert (max_blocks c) b d (cache_list c)"
proof -
  define full where "full \<longleftrightarrow> 0 < max_blocks c \<and> \<not> cache_contains b c \<and>
    max_blocks c \<le> length (blocks c)"
  define e where "e = (if full then evict_lru c else c)"
  have body: "cache_insert b d c = touch b (e\<lparr>blocks := AList.update b d (blocks e)\<rparr>)"
    by (simp add: cache_insert_def Let_def e_def full_def)
  have e: "cache_ok e" "cache_list e = (if full then tl (cache_list c) else cache_list c)"
    using assms evict_list [OF assms] by (simp_all add: e_def)
  have "length (blocks c) \<le> max_blocks c" if "0 < max_blocks c"
    using assms that by (simp add: cache_ok_def)
  then have room: "0 < max_blocks e \<Longrightarrow> \<not> cache_contains b e \<Longrightarrow> length (blocks e) < max_blocks e"
    using evict_list(3) [OF assms] by (cases full) (auto simp: e_def full_def)
  have "length (cache_list c) = length (blocks c)"
    using cache_ok_length [OF assms] by (simp add: cache_list_def)
  moreover have "b \<in> fst ` set (cache_list c) \<longleftrightarrow> cache_contains b c"
    by (simp add: keys_cache_list contains_lru [OF assms])
  ultimately have spec: "lru_insert (max_blocks c) b d (cache_list c) =
      filter (\<lambda>x. fst x \<noteq> b) (cache_list e) @ [(b, d)]"
    by (simp add: lru_insert_def e full_def)
  show "cache_ok (cache_insert b d c)"
    unfolding body by (rule set_block(1) [OF e(1) room])
  show "cache_list (cache_insert b d c) = lru_insert (max_blocks c) b d (cache_list c)"
    unfolding body spec by (rule set_block(2) [OF e(1) room])
qed

lemma invalidate_list:
  assumes "cache_ok c"
  shows "cache_ok (invalidate b c)"
    "cache_list (invalidate b c) = filter (\<lambda>x. fst x \<noteq> b) (cache_list c)"
proof -
  have lru: "distinct (lru_order c)" using assms by (simp add: cache_ok_def)
  have "length (AList.delete b (blocks c)) \<le> length (blocks c)" by (rule length_delete_le)
  with assms show "cache_ok (invalidate b c)"
    by (auto simp: cache_ok_def invalidate_def fst_delete distinct_delete)
  show "cache_list (invalidate b c) = filter (\<lambda>x. fst x \<noteq> b) (cache_list c)"
    using lru by (auto simp: invalidate_def cache_list_def filter_tagged delete_conv)
qed

text \<open>The operations on fetches in flight leave the blocks alone.\<close>

lemma same_blocks:
  "blocks c' = blocks c \<Longrightarrow> lru_order c' = lru_order c \<Longrightarrow> max_blocks c' = max_blocks c \<Longrightarrow>
     cache_ok c' = cache_ok c \<and> cache_list c' = cache_list c"
  by (simp add: cache_ok_def cache_list_def)

lemma fetch_ops_blocks [simp]:
  "blocks (snd (try_start_fetch b c)) = blocks c"
  "lru_order (snd (try_start_fetch b c)) = lru_order c"
  "max_blocks (snd (try_start_fetch b c)) = max_blocks c"
  "blocks (register_fetch_waker b w c) = blocks c"
  "lru_order (register_fetch_waker b w c) = lru_order c"
  "max_blocks (register_fetch_waker b w c) = max_blocks c"
  "blocks (snd (cancel_fetch b c)) = blocks c"
  "lru_order (snd (cancel_fetch b c)) = lru_order c"
  "max_blocks (snd (cancel_fetch b c)) = max_blocks c"
  by (simp_all add: try_start_fetch_def register_fetch_waker_def cancel_fetch_def
      split: option.split)

lemma cache_step_list:
  assumes "cache_ok c"
  shows "cache_ok (cache_step x c) \<and>
    cache_list (cache_step x c) = lru_step (max_blocks c) x (cache_list c) \<and>
    max_blocks (cache_step x c) = max_blocks c"
proof (cases x)
  case (CacheGet b)
  then show ?thesis
    using assms touch_list [OF assms, of b] map_of_cache_list [OF assms, of b]
    by (auto simp: cache_get_def split: option.split)
next
  case (CompleteFetch b d)
  have "cache_ok (cache_step x c) = cache_ok (cache_insert b d c) \<and>
      cache_list (cache_step x c) = cache_list (cache_insert b d c)"
    unfolding CompleteFetch cache_step.simps complete_fetch_def by (rule same_blocks) simp_all
  with CompleteFetch insert_list [OF assms] show ?thesis by (simp add: complete_fetch_def)
next
  case CacheClear
  then show ?thesis by (simp add: cache_clear_def cache_ok_def cache_list_def)
next
  case (SetFileSize n)
  then show ?thesis
    using assms same_blocks [of "set_file_size n c" c] by (simp add: set_file_size_def)
next
  case (TryStartFetch b)
  then show ?thesis using assms same_blocks [of "snd (try_start_fetch b c)" c] by simp
next
  case (RegisterWaker b w)
  then show ?thesis using assms same_blocks [of "register_fetch_waker b w c" c] by simp
next
  case (CancelFetch b)
  then show ?thesis using assms same_blocks [of "snd (cancel_fetch b c)" c] by simp
qed (use assms insert_list [OF assms] invalidate_list [OF assms] in simp_all)

lemma run_cache_list:
  "cache_ok c \<Longrightarrow> cache_ok (run_cache ops c) \<and>
     cache_list (run_cache ops c) = fold (lru_step (max_blocks c)) ops (cache_list c) \<and>
     max_blocks (run_cache ops c) = max_blocks c"
  by (induction ops arbitrary: c) (simp_all add: run_cache_def cache_step_list)

lemma cache_ok_new [simp]: "cache_ok (with_max_blocks bs fs m)"
  "cache_list (with_max_blocks bs fs m) = []" "max_blocks (with_max_blocks bs fs m) = m"
  by (simp_all add: with_max_blocks_def cache_ok_def cache_list_def)

section \<open>Recency\<close>

fun accessed :: "cache_op \<Rightarrow> nat set" where
  "accessed (CacheGet b) = {b}"
| "accessed (CacheInsert b d) = {b}"
| "accessed (CompleteFetch b d) = {b}"
| "accessed _ = {}"

text \<open>The operations that drop or overwrite a block by its number.\<close>

fun replaces :: "nat \<Rightarrow> cache_op \<Rightarrow> bool" where
  "replaces b (CacheInsert k d) = (k = b)"
| "replaces b (CompleteFetch k d) = (k = b)"
| "replaces b (CacheInvalidate k) = (k = b)"
| "replaces b CacheClear = True"
| "replaces b _ = False"

text \<open>A block stands in the list, and only blocks of \<open>T\<close> were used after it.\<close>

definition recent :: "nat \<Rightarrow> bytes \<Rightarrow> nat set \<Rightarrow> lru \<Rightarrow> bool" where
  "recent b d T xs \<longleftrightarrow> distinct (map fst xs) \<and>
     (\<exists>ys zs. xs = ys @ (b, d) # zs \<and> fst ` set zs \<subseteq> T)"

lemma recent_last: "distinct (map fst (ys @ [(b, d)])) \<Longrightarrow> recent b d T (ys @ [(b, d)])"
  unfolding recent_def by (intro conjI exI [of _ ys] exI [of _ "[]"]) simp_all

lemma distinct_filter_snoc:
  "distinct (map fst xs) \<Longrightarrow> distinct (map fst (filter (\<lambda>x. fst x \<noteq> b) xs @ [(b, d)]))"
  by (induction xs) auto

lemma recent_use:
  assumes "recent b d T xs" "x \<noteq> b" "x \<in> T"
  shows "recent b d T (filter (\<lambda>y. fst y \<noteq> x) xs @ [(x, e)])"
proof -
  from assms(1) obtain ys zs where xs: "xs = ys @ (b, d) # zs" "fst ` set zs \<subseteq> T"
    and dist: "distinct (map fst xs)"
    by (auto simp: recent_def)
  have "filter (\<lambda>y. fst y \<noteq> x) xs @ [(x, e)] = filter (\<lambda>y. fst y \<noteq> x) ys @
      (b, d) # (filter (\<lambda>y. fst y \<noteq> x) zs @ [(x, e)])"
    using assms(2) xs(1) by simp
  moreover have "fst ` set (filter (\<lambda>y. fst y \<noteq> x) zs @ [(x, e)]) \<subseteq> T"
    using xs(2) assms(3) by auto
  ultimately show ?thesis
    using distinct_filter_snoc [OF dist] unfolding recent_def by blast
qed

lemma recent_tl:
  assumes "recent b d T xs" "finite T" "x \<in> T" "x \<notin> fst ` set xs" "card T < length xs"
  shows "recent b d T (tl xs)"
proof -
  from assms(1) obtain ys zs where xs: "xs = ys @ (b, d) # zs" "fst ` set zs \<subseteq> T"
    and dist: "distinct (map fst xs)"
    by (auto simp: recent_def)
  have "ys \<noteq> []"
  proof
    assume "ys = []"
    have "fst ` set zs \<subseteq> T - {x}" using xs assms(4) by auto
    then have "card (fst ` set zs) \<le> card (T - {x})" using assms(2) by (intro card_mono) auto
    moreover have "card (fst ` set zs) = length zs"
      using dist xs(1) distinct_card [of "map fst zs"] by simp
    moreover have "card (T - {x}) < card T" using assms(2,3) by (intro psubset_card_mono) auto
    ultimately show False using \<open>ys = []\<close> xs(1) assms(5) by simp
  qed
  with xs have "tl xs = tl ys @ (b, d) # zs" by simp
  moreover have "distinct (map fst (tl xs))" using dist by (metis distinct_tl map_tl)
  ultimately show ?thesis using xs(2) unfolding recent_def by blast
qed

lemma recent_insert:
  assumes "recent b d T xs" "finite T" "x \<noteq> b" "x \<in> T" "m = 0 \<or> card T < m"
  shows "recent b d T (lru_insert m x e xs)"
  unfolding lru_insert_def Let_def
  using assms recent_tl [OF assms(1,2,4)] by (intro recent_use) auto

lemma recent_lookup: "recent b d T xs \<Longrightarrow> map_of xs b = Some d"
  by (auto simp: recent_def intro!: map_of_is_SomeI)

lemma recent_filter:
  assumes "recent b d T xs" "x \<noteq> b"
  shows "recent b d T (filter (\<lambda>y. fst y \<noteq> x) xs)"
proof -
  from assms obtain ys zs where "xs = ys @ (b, d) # zs" "fst ` set zs \<subseteq> T" "distinct (map fst xs)"
    by (auto simp: recent_def)
  with assms(2) have "filter (\<lambda>y. fst y \<noteq> x) xs =
      filter (\<lambda>y. fst y \<noteq> x) ys @ (b, d) # filter (\<lambda>y. fst y \<noteq> x) zs"
    "fst ` set (filter (\<lambda>y. fst y \<noteq> x) zs) \<subseteq> T" "distinct (map fst (filter (\<lambda>y. fst y \<noteq> x) xs))"
    by (auto simp: distinct_map_filter)
  then show ?thesis unfolding recent_def by blast
qed

lemma recent_step:
  assumes "recent b d T xs" "finite T" "\<not> replaces b x" "accessed x - {b} \<subseteq> T"
    "m = 0 \<or> card T < m"
  shows "recent b d T (lru_step m x xs)"
proof (cases x)
  case (CacheGet k)
  show ?thesis
  proof (cases "k = b")
    case True
    have "distinct (map fst xs)" using assms(1) by (simp add: recent_def)
    from recent_last [OF distinct_filter_snoc [OF this, of b d]] True CacheGet
      recent_lookup [OF assms(1)]
    show ?thesis by simp
  next
    case False
    with CacheGet assms recent_use [OF assms(1) False] show ?thesis
      by (auto split: option.split)
  qed
next
  case (CacheInvalidate k)
  with assms(1,3) recent_filter show ?thesis by simp
qed (use assms recent_insert [OF assms(1,2) _ _ assms(5)] in auto)

lemma recent_run:
  "recent b d T xs \<Longrightarrow> finite T \<Longrightarrow> \<forall>x \<in> set ops. \<not> replaces b x \<and> accessed x - {b} \<subseteq> T \<Longrightarrow>
     m = 0 \<or> card T < m \<Longrightarrow> recent b d T (fold (lru_step m) ops xs)"
  by (induction ops arbitrary: xs) (simp_all add: recent_step)

lemma recent_inserted:
  assumes "cache_ok c"
  shows "recent b d T (cache_list (cache_insert b d c))"
proof -
  have "distinct (map fst (cache_list (cache_insert b d c)))"
    using insert_list(1) [OF assms, of b d] by (simp add: cache_ok_def)
  moreover have "\<exists>ys. cache_list (cache_insert b d c) = ys @ [(b, d)]"
    unfolding insert_list(2) [OF assms] lru_insert_def Let_def by blast
  ultimately show ?thesis using recent_last by metis
qed

section \<open>Fetches\<close>

lemma pending_ops [simp]:
  "pending_fetches (touch b c) = pending_fetches c"
  "pending_fetches (evict_lru c) = pending_fetches c"
  "pending_fetches (cache_insert b d c) = pending_fetches c"
  "pending_fetches (snd (cache_get b c)) = pending_fetches c"
  "pending_fetches (invalidate b c) = pending_fetches c"
  "pending_fetches (cache_clear c) = pending_fetches c"
  "pending_fetches (set_file_size n c) = pending_fetches c"
  by (simp_all add: touch_def evict_lru_def cache_insert_def cache_get_def invalidate_def Let_def
      cache_clear_def set_file_size_def split: list.split option.split)

text \<open>The operations that end the fetch of a block.\<close>

fun finishes :: "nat \<Rightarrow> cache_op \<Rightarrow> bool" where
  "finishes b (CompleteFetch k d) = (k = b)"
| "finishes b (CancelFetch k) = (k = b)"
| "finishes b _ = False"

definition waiting :: "nat \<Rightarrow> waker set \<Rightarrow> page_cache \<Rightarrow> bool" where
  "waiting b W c \<longleftrightarrow> (\<exists>ws. map_of (pending_fetches c) b = Some ws \<and> distinct ws \<and> set ws = W)"

lemma waiting_step:
  "waiting b W c \<Longrightarrow> \<not> finishes b x \<Longrightarrow>
     waiting b (W \<union> {w. x = RegisterWaker b w}) (cache_step x c)"
  by (cases x) (auto simp: waiting_def try_start_fetch_def register_fetch_waker_def
      cancel_fetch_def complete_fetch_def update_conv delete_conv list_ex_iff
      split: option.split)

lemma waiting_run:
  "waiting b W c \<Longrightarrow> \<forall>x \<in> set ops. \<not> finishes b x \<Longrightarrow>
     waiting b (W \<union> {w. RegisterWaker b w \<in> set ops}) (run_cache ops c)"
proof (induction ops arbitrary: W c)
  case (Cons x ops)
  have "W \<union> {w. RegisterWaker b w \<in> set (x # ops)} =
      W \<union> {w. x = RegisterWaker b w} \<union> {w. RegisterWaker b w \<in> set ops}"
    by auto
  with Cons waiting_step [of b W c x] show ?case by (simp add: run_cache_def)
qed (simp add: run_cache_def)

lemma waiting_finish:
  assumes "waiting b W c"
  shows "set (fst (cancel_fetch b c)) = W \<and> distinct (fst (cancel_fetch b c)) \<and>
    \<not> is_fetching b (snd (cancel_fetch b c))"
  using assms by (auto simp: waiting_def cancel_fetch_def is_fetching_def delete_conv)

lemma waiting_insert: "waiting b W (cache_insert k d c) = waiting b W c"
  by (simp add: waiting_def)

section \<open>Properties\<close>

text \<open>C39. After any operations on a new cache, its blocks are those of the LRU list that starts
  empty and goes through the same operations; a lookup answers as the list does, and a bounded
  cache never holds more blocks than its bound.\<close>

theorem page_cache_refines:
  "let c = run_cache ops (with_max_blocks bs fs m); xs = fold (lru_step m) ops [] in
     map_of (blocks c) = map_of xs \<and> lru_order c = map fst xs \<and> fst (cache_get b c) = map_of xs b \<and>
     (m = 0 \<or> length (blocks c) \<le> m)"
proof -
  define c where "c = run_cache ops (with_max_blocks bs fs m)"
  have c: "cache_ok c" "cache_list c = fold (lru_step m) ops []" "max_blocks c = m"
    using run_cache_list [OF cache_ok_new(1), of ops bs fs m] by (simp_all add: c_def)
  have "map_of (blocks c) = map_of (cache_list c)"
    using map_of_cache_list [OF c(1)] by (intro ext) simp
  moreover have "fst (cache_get b c) = map_of (blocks c) b"
    by (simp add: cache_get_def split: option.split)
  ultimately show ?thesis
    using c unfolding c_def [symmetric] c(2) [symmetric] by (auto simp: Let_def cache_ok_def)
qed

text \<open>A block just inserted stays cached, with its data, while fewer other blocks than the
  bound are read or inserted and it is not itself replaced or invalidated.\<close>

theorem page_cache_keeps_recent:
  assumes "c = cache_insert b d (run_cache before (with_max_blocks bs fs m))"
    and "\<forall>x \<in> set ops. \<not> replaces b x"
    and "m = 0 \<or> card (\<Union> (accessed ` set ops) - {b}) < m"
  shows "fst (cache_get b (run_cache ops c)) = Some d"
proof -
  define T where "T = \<Union> (accessed ` set ops) - {b}"
  have ok: "cache_ok (run_cache before (with_max_blocks bs fs m))" "cache_ok c" "max_blocks c = m"
    using run_cache_list [OF cache_ok_new(1), of before bs fs m] insert_list(1) assms(1) by auto
  have "finite (accessed x)" for x by (cases x) auto
  then have "finite T" by (auto simp: T_def)
  moreover have "recent b d T (cache_list c)"
    unfolding assms(1) by (rule recent_inserted [OF ok(1)])
  ultimately have "recent b d T (fold (lru_step m) ops (cache_list c))"
    using assms(2,3) by (intro recent_run) (auto simp: T_def)
  then have "recent b d T (cache_list (run_cache ops c))"
    using run_cache_list [OF ok(2), of ops] ok(3) by simp
  from recent_lookup [OF this] run_cache_list [OF ok(2), of ops] map_of_cache_list
  have "map_of (blocks (run_cache ops c)) b = Some d" by metis
  then show ?thesis by (simp add: cache_get_def)
qed

theorem page_cache_keeps_recent_witness:
  "fst (cache_get 7 (run_cache [CacheInsert 8 [2], CacheGet 8, CacheInsert 8 [3]]
     (cache_insert 7 [1] (with_max_blocks 4096 0 2)))) = Some [1]"
  by (rule page_cache_keeps_recent [where before = "[]" and bs = 4096 and fs = 0 and m = 2])
    (simp_all add: run_cache_def)

text \<open>While the fetch of a block runs, no other reader is told to fetch the block, and its end
  calls exactly the wakers that were registered for it, each once; after a completion the block is
  cached and no fetch of it is left.\<close>

theorem fetch_single_flight:
  assumes "fst (try_start_fetch b c) = Fetch" and "\<forall>x \<in> set ops. \<not> finishes b x"
    and "c' = run_cache ops (snd (try_start_fetch b c))"
  shows "fst (try_start_fetch b c') \<noteq> Fetch \<and>
    set (fst (complete_fetch b d c')) = {w. RegisterWaker b w \<in> set ops} \<and>
    set (fst (cancel_fetch b c')) = {w. RegisterWaker b w \<in> set ops} \<and>
    distinct (fst (complete_fetch b d c')) \<and>
    cache_contains b (snd (complete_fetch b d c')) \<and>
    \<not> is_fetching b (snd (complete_fetch b d c'))"
proof -
  have "waiting b {} (snd (try_start_fetch b c))"
    using assms(1) by (auto simp: try_start_fetch_def waiting_def update_conv split: if_splits)
  from waiting_run [OF this assms(2)]
  have w: "waiting b {w. RegisterWaker b w \<in> set ops} c'" by (simp add: assms(3))
  then have "fst (try_start_fetch b c') \<noteq> Fetch"
    by (auto simp: try_start_fetch_def waiting_def)
  moreover have "cache_contains b (snd (complete_fetch b d c'))"
    by (simp add: complete_fetch_def cache_contains_def)
      (simp add: cache_insert_def touch_def Let_def update_conv)
  ultimately show ?thesis
    using waiting_finish [OF w] waiting_finish [of b _ "cache_insert b d c'"] w
    by (simp add: waiting_insert complete_fetch_def)
qed

theorem fetch_single_flight_witness:
  "set (fst (complete_fetch 7 [1] (run_cache [TryStartFetch 7, RegisterWaker 7 4, CacheClear]
     (snd (try_start_fetch 7 (with_max_blocks 4096 0 2)))))) = {4}"
  using fetch_single_flight [where b = 7 and c = "with_max_blocks 4096 0 2" and d = "[1]"
      and ops = "[TryStartFetch 7, RegisterWaker 7 4, CacheClear]", OF _ _ refl]
  by (simp add: try_start_fetch_def cache_contains_def with_max_blocks_def)

end
