(* ===== verification/Glob.thy ===== *)
theory Glob
  imports Vfs
begin

text \<open>
  File name patterns of the shell, \<open>crates/amla-sandbox-shell/src/glob.rs\<close>: the matcher with its
  backtracking loop over two indices, bracket expressions, and the expansion of a pattern against
  the file system. The matcher works on the bytes of both strings, as the code does
  (\<open>as_bytes\<close>); its declarative semantics is \<open>glob_lang\<close> on the tokens of a pattern.
\<close>

section \<open>Definitions\<close>

text \<open>The scan for a metacharacter; it goes by characters in the code, which finds the same ones,
  because no byte of a multi-byte character is a metacharacter.\<close>

fun is_glob_pattern :: "string \<Rightarrow> bool" where
  "is_glob_pattern [] = False"
| "is_glob_pattern (c # cs) =
     (if c = CHR 0x5C then is_glob_pattern (drop 1 cs)
      else if c = CHR ''*'' \<or> c = CHR ''?'' then True
      else if c = CHR ''['' \<and> cs \<noteq> [] then True
      else is_glob_pattern cs)"

text \<open>The scan of a bracket expression from index \<open>i\<close>: whether an item matched, and the index
  where the scan stops.\<close>

function bracket_loop :: "string \<Rightarrow> char \<Rightarrow> nat \<Rightarrow> bool \<Rightarrow> bool \<times> nat" where
  "bracket_loop pat ch i matched =
     (if i < length pat \<and> pat ! i \<noteq> CHR '']'' then
        (if i + 2 < length pat \<and> pat ! (i + 1) = CHR ''-'' \<and> pat ! (i + 2) \<noteq> CHR '']'' then
           bracket_loop pat ch (i + 3)
             (if ch \<ge> pat ! i \<and> ch \<le> pat ! (i + 2) then True else matched)
         else bracket_loop pat ch (i + 1) (if pat ! i = ch then True else matched))
      else (matched, i))"
  by pat_completeness auto
termination
  by (relation "measure (\<lambda>(pat, ch, i, m). length pat - i)") auto

declare bracket_loop.simps [simp del]

definition match_bracket :: "string \<Rightarrow> char \<Rightarrow> (bool \<times> nat) option" where
  "match_bracket pat ch =
     (if pat = [] \<or> pat ! 0 \<noteq> CHR ''['' then None
      else
        (let i = 1;
             (negate, i) =
               (if i < length pat \<and> (pat ! i = CHR ''!'' \<or> pat ! i = CHR ''^'') then (True, i + 1)
                else (False, i));
             (matched, i) =
               (if i < length pat \<and> pat ! i = CHR '']'' then (ch = CHR '']'', i + 1)
                else (False, i));
             (matched, i) = bracket_loop pat ch i matched
         in if i < length pat \<and> pat ! i = CHR '']'' then
              Some (if negate then \<not> matched else matched, i + 1)
            else None))"

text \<open>The state of the matcher's loop: \<open>pi\<close>, \<open>ti\<close>, \<open>star_pi\<close>, \<open>star_ti\<close>.\<close>

type_synonym glob_state = "nat \<times> nat \<times> nat option \<times> nat option"

definition glob_backtrack :: "glob_state \<Rightarrow> glob_state option" where
  "glob_backtrack s =
     (case s of (pi, ti, Some spi, Some sti) \<Rightarrow> Some (spi, sti + 1, Some spi, Some (sti + 1))
      | _ \<Rightarrow> None)"

text \<open>One turn of the loop, for \<open>ti < text.len()\<close>; \<open>None\<close> is \<open>return false\<close>.\<close>

definition glob_step :: "string \<Rightarrow> string \<Rightarrow> glob_state \<Rightarrow> glob_state option" where
  "glob_step pat txt s =
     (case s of (pi, ti, star_pi, star_ti) \<Rightarrow>
        if pi < length pat then
          (if pat ! pi = CHR 0x5C \<and> pi + 1 < length pat \<and> txt ! ti = pat ! (pi + 1) then
             Some (pi + 2, ti + 1, star_pi, star_ti)
           else if pat ! pi = CHR ''*'' then Some (pi + 1, ti, Some (pi + 1), Some ti)
           else if pat ! pi = CHR ''?'' then Some (pi + 1, ti + 1, star_pi, star_ti)
           else if pat ! pi = CHR ''['' then
             (case match_bracket (drop pi pat) (txt ! ti) of
                Some (matched, end_pi) \<Rightarrow>
                  if matched then Some (pi + end_pi, ti + 1, star_pi, star_ti)
                  else glob_backtrack s
              | None \<Rightarrow> glob_backtrack s)
           else if pat ! pi = txt ! ti then Some (pi + 1, ti + 1, star_pi, star_ti)
           else glob_backtrack s)
        else glob_backtrack s)"

lemma match_bracket_pos: "match_bracket pat ch = Some (m, n) \<Longrightarrow> 0 < n"
  by (auto simp: match_bracket_def Let_def split: if_splits prod.splits)

text \<open>The loop ends: a restart from the last star moves the text position of the star, everything
  else moves forward in the text or in the pattern.\<close>

definition glob_retries :: "string \<Rightarrow> glob_state \<Rightarrow> nat" where
  "glob_retries txt s =
     (case s of (pi, ti, star_pi, star_ti) \<Rightarrow>
        case star_ti of None \<Rightarrow> length txt + 1 | Some sti \<Rightarrow> length txt - min sti ti)"

definition glob_ahead :: "string \<Rightarrow> string \<Rightarrow> glob_state \<Rightarrow> nat" where
  "glob_ahead pat txt s =
     (case s of (pi, ti, _) \<Rightarrow> (length pat - pi) + (length txt - ti))"

lemma glob_step_decreases:
  assumes "glob_step pat txt s = Some s'" "fst (snd s) < length txt"
  shows "(s', s) \<in> measures [glob_retries txt, glob_ahead pat txt]"
proof -
  obtain pi ti spi sti where s: "s = (pi, ti, spi, sti)" by (cases s) auto
  have fwd: "((pi + a, ti + 1, spi, sti), s) \<in> measures [glob_retries txt, glob_ahead pat txt]" for a
    using assms(2) by (auto simp: s glob_retries_def glob_ahead_def split: option.split)
  have star: "((pi + 1, ti, Some (pi + 1), Some ti), s)
      \<in> measures [glob_retries txt, glob_ahead pat txt]" if "pi < length pat"
    using assms(2) that by (auto simp: s glob_retries_def glob_ahead_def split: option.split)
  have retry: "(x, s) \<in> measures [glob_retries txt, glob_ahead pat txt]"
    if "glob_backtrack s = Some x" for x
    using assms(2) that
    by (auto simp: s glob_backtrack_def glob_retries_def split: option.splits)
  define R where "R = measures [glob_retries txt, glob_ahead pat txt]"
  have "(s', s) \<in> R"
    using assms(1) fwd [of 1, folded R_def] fwd [of 2, folded R_def] fwd [folded R_def]
      star [folded R_def] retry [of s', folded R_def]
    unfolding glob_step_def s by (auto split: if_splits option.splits)
  then show ?thesis by (simp only: R_def)
qed

function glob_loop :: "string \<Rightarrow> string \<Rightarrow> glob_state \<Rightarrow> bool" where
  "glob_loop pat txt s =
     (if fst (snd s) < length txt then
        (case glob_step pat txt s of None \<Rightarrow> False | Some s' \<Rightarrow> glob_loop pat txt s')
      else dropWhile (\<lambda>c. c = CHR ''*'') (drop (fst s) pat) = [])"
  by pat_completeness auto
termination
  by (relation "inv_image (measures
        [\<lambda>(pat, txt, s). glob_retries txt s, \<lambda>(pat, txt, s). glob_ahead pat txt s]) id")
    (use glob_step_decreases in auto)

declare glob_loop.simps [simp del]

definition glob_match :: "string \<Rightarrow> string \<Rightarrow> bool" where
  "glob_match pat txt = glob_loop pat txt (0, 0, None, None)"

section \<open>Expansion against the file system\<close>

definition join_path :: "string \<Rightarrow> string \<Rightarrow> string" where
  "join_path base name = (if base = ''/'' then ''/'' @ name else base @ ''/'' @ name)"

fun expand_glob_recursive :: "vfs \<Rightarrow> string \<Rightarrow> string list \<Rightarrow> string list" where
  "expand_glob_recursive v base [] = [base]"
| "expand_glob_recursive v base (segment # remaining) =
     (if \<not> is_glob_pattern segment then
        (let next_path = join_path base segment
         in if exists_path v next_path then expand_glob_recursive v next_path remaining else [])
      else (case list_dir v base of
          Inl _ \<Rightarrow> []
        | Inr es \<Rightarrow> concat (map (\<lambda>e.
            if glob_match segment (de_name e) then
              (let matched_path = join_path base (de_name e)
               in if remaining = [] then [matched_path]
                  else if is_dir v matched_path then expand_glob_recursive v matched_path remaining
                  else [])
            else []) es)))"

definition strip_prefix :: "string \<Rightarrow> string \<Rightarrow> string option" where
  "strip_prefix s p = (if starts_with s p then Some (drop (length p) s) else None)"

definition make_relative :: "string \<Rightarrow> string \<Rightarrow> string" where
  "make_relative cwd path =
     (case strip_prefix path (if ends_with cwd ''/'' then cwd else cwd @ ''/'') of
        Some rel \<Rightarrow> rel
      | None \<Rightarrow> if path = cwd then ''.'' else path)"

definition expand_glob :: "vfs \<Rightarrow> string \<Rightarrow> string \<Rightarrow> string list" where
  "expand_glob v cwd pat =
     (if \<not> is_glob_pattern pat then [pat]
      else
        (let is_absolute = starts_with pat ''/'';
             base = (if is_absolute then ''/'' else cwd);
             segments = path_parts pat
         in if segments = [] then [pat]
            else
              (let matches = expand_glob_recursive v base segments;
                   matches = (if \<not> is_absolute then map (make_relative cwd) matches else matches);
                   matches = sort matches
               in if matches = [] then [pat] else matches)))"

end
