(* ===== verification/GlobSound.thy ===== *)
theory GlobSound
  imports Glob VfsTree
begin

text \<open>
  What the shell's patterns mean: the tokens of a pattern, the language they denote, and that the
  backtracking matcher, which only ever returns to its last star, decides it.
\<close>

section \<open>Tokens\<close>

datatype class_item = Single char | Range char char

datatype glob_token =
    Star
  | AnyChar
  | Literal char
  | Class bool "class_item list"
  | Unclosed

text \<open>The items of a bracket expression up to its closing bracket, and the text after it.\<close>

fun class_items :: "string \<Rightarrow> (class_item list \<times> string) option" where
  "class_items [] = None"
| "class_items (c # cs) =
     (if c = CHR '']'' then Some ([], cs)
      else if length cs \<ge> 2 \<and> cs ! 0 = CHR ''-'' \<and> cs ! 1 \<noteq> CHR '']'' then
        map_option (\<lambda>(items, rest). (Range c (cs ! 1) # items, rest)) (class_items (drop 2 cs))
      else map_option (\<lambda>(items, rest). (Single c # items, rest)) (class_items cs))"

declare class_items.simps [simp del]

text \<open>A bracket expression after its opening bracket: an optional negation, a closing bracket
  standing for itself when it comes first, then the items.\<close>

definition class_body :: "string \<Rightarrow> (class_item list \<times> string) option" where
  "class_body cs =
     (if cs \<noteq> [] \<and> hd cs = CHR '']'' then
        map_option (\<lambda>(items, rest). (Single CHR '']'' # items, rest)) (class_items (tl cs))
      else class_items cs)"

definition class_of :: "string \<Rightarrow> (glob_token \<times> string) option" where
  "class_of cs =
     (let negate = (cs \<noteq> [] \<and> (hd cs = CHR ''!'' \<or> hd cs = CHR ''^''))
      in map_option (\<lambda>(items, rest). (Class negate items, rest))
           (class_body (if negate then tl cs else cs)))"

lemma class_items_shorter: "class_items cs = Some (items, rest) \<Longrightarrow> length rest < length cs"
  by (induction cs arbitrary: items rule: class_items.induct)
    (fastforce simp: class_items.simps split: if_splits)+

lemma class_of_shorter: "class_of cs = Some (t, rest) \<Longrightarrow> length rest < length cs"
  by (cases cs) (force simp: class_of_def class_body_def Let_def neq_Nil_conv split: if_splits
      dest!: class_items_shorter)+

function glob_tokens :: "string \<Rightarrow> glob_token list" where
  "glob_tokens [] = []"
| "glob_tokens (c # cs) =
     (if c = CHR 0x5C \<and> cs \<noteq> [] then Literal (hd cs) # glob_tokens (tl cs)
      else if c = CHR ''*'' then Star # glob_tokens cs
      else if c = CHR ''?'' then AnyChar # glob_tokens cs
      else if c = CHR ''['' then
        (case class_of cs of
           Some (t, rest) \<Rightarrow> t # glob_tokens rest
         | None \<Rightarrow> [Unclosed])
      else Literal c # glob_tokens cs)"
  by pat_completeness auto
termination
  by (relation "measure length") (auto dest: class_of_shorter)

declare glob_tokens.simps(2) [simp del]

fun in_item :: "char \<Rightarrow> class_item \<Rightarrow> bool" where
  "in_item ch (Single c) = (ch = c)"
| "in_item ch (Range a b) = (a \<le> ch \<and> ch \<le> b)"

fun admits :: "glob_token \<Rightarrow> char \<Rightarrow> bool" where
  "admits AnyChar ch = True"
| "admits (Literal c) ch = (ch = c)"
| "admits (Class negate items) ch = (list_ex (in_item ch) items \<noteq> negate)"
| "admits _ ch = False"

text \<open>The language of a pattern.\<close>

inductive glob_lang :: "glob_token list \<Rightarrow> string \<Rightarrow> bool" where
  nil: "glob_lang [] []"
| one: "admits t c \<Longrightarrow> glob_lang ts cs \<Longrightarrow> glob_lang (t # ts) (c # cs)"
| skip: "glob_lang ts cs \<Longrightarrow> glob_lang (Star # ts) cs"
| more: "glob_lang (Star # ts) cs \<Longrightarrow> glob_lang (Star # ts) (c # cs)"

inductive_simps glob_lang_Nil [simp]: "glob_lang [] cs"
inductive_simps glob_lang_Cons: "glob_lang (t # ts) cs"

lemma glob_lang_one:
  "t \<noteq> Star \<Longrightarrow> glob_lang (t # ts) cs \<longleftrightarrow> (\<exists>d ds. cs = d # ds \<and> admits t d \<and> glob_lang ts ds)"
  by (subst glob_lang_Cons) auto

lemma glob_lang_star: "glob_lang (Star # ts) cs \<longleftrightarrow> (\<exists>k \<le> length cs. glob_lang ts (drop k cs))"
proof
  assume "glob_lang (Star # ts) cs"
  then show "\<exists>k \<le> length cs. glob_lang ts (drop k cs)"
  proof (induction "Star # ts" cs arbitrary: ts rule: glob_lang.induct)
    case (skip ts cs)
    then show ?case by (auto intro: exI [of _ 0])
  next
    case (more ts cs c)
    then obtain k where "k \<le> length cs" "glob_lang ts (drop k cs)" by blast
    then show ?case by (auto intro!: exI [of _ "Suc k"])
  qed simp
next
  have "glob_lang ts (drop k cs) \<Longrightarrow> k \<le> length cs \<Longrightarrow> glob_lang (Star # ts) cs" for k
  proof (induction cs arbitrary: k)
    case Nil
    then show ?case by (auto intro: glob_lang.intros)
  next
    case (Cons c cs)
    then show ?case by (cases k) (auto intro: glob_lang.intros)
  qed
  then show "\<exists>k \<le> length cs. glob_lang ts (drop k cs) \<Longrightarrow> glob_lang (Star # ts) cs" by blast
qed

lemma glob_lang_empty: "glob_lang ts [] \<longleftrightarrow> (\<forall>t \<in> set ts. t = Star)"
proof (induction ts)
  case (Cons t ts)
  then show ?case by (cases "t = Star") (auto simp: glob_lang_star glob_lang_one)
qed simp

text \<open>Tokens other than a star take one character each.\<close>

lemma glob_lang_fixed:
  "Star \<notin> set pre \<Longrightarrow> glob_lang (pre @ ts) cs \<Longrightarrow>
     length pre \<le> length cs \<and> glob_lang ts (drop (length pre) cs)"
proof (induction pre arbitrary: cs)
  case (Cons t pre)
  then obtain d ds where "cs = d # ds" "glob_lang (pre @ ts) ds" by (auto simp: glob_lang_one)
  with Cons show ?case by auto
qed simp

text \<open>What follows a star matches at the star already.\<close>

lemma glob_lang_star_drop:
  "glob_lang (Star # ts) (drop k cs) \<Longrightarrow> glob_lang (Star # ts) cs"
proof (induction k arbitrary: cs)
  case (Suc k)
  then show ?case by (cases cs) (auto intro: glob_lang.more)
qed simp

section \<open>Bracket expressions\<close>

lemma nth_in_drop: "i < length p \<Longrightarrow> drop i p = p ! i # drop (i + 1) p"
  by (simp add: Cons_nth_drop_Suc)

lemma bracket_loop_items:
  "case class_items (drop i pat) of
     None \<Rightarrow> snd (bracket_loop pat ch i m) \<ge> length pat
   | Some (items, rest) \<Rightarrow>
       fst (bracket_loop pat ch i m) = (m \<or> list_ex (in_item ch) items) \<and>
       snd (bracket_loop pat ch i m) < length pat \<and>
       pat ! snd (bracket_loop pat ch i m) = CHR '']'' \<and>
       rest = drop (snd (bracket_loop pat ch i m) + 1) pat"
proof (induction pat ch i m rule: bracket_loop.induct)
  case (1 pat ch i m)
  show ?case
  proof (cases "i < length pat \<and> pat ! i \<noteq> CHR '']''")
    case False
    then show ?thesis
      by (cases "i < length pat")
        (simp_all add: bracket_loop.simps [of pat ch i m] nth_in_drop class_items.simps)
  next
    case True
    then have d: "drop i pat = pat ! i # drop (i + 1) pat" by (simp add: nth_in_drop)
    have n: "length (drop (i + 1) pat) \<ge> 2 \<longleftrightarrow> i + 2 < length pat" by auto
    show ?thesis
    proof (cases "i + 2 < length pat \<and> pat ! (i + 1) = CHR ''-'' \<and> pat ! (i + 2) \<noteq> CHR '']''")
      case range: True
      have c: "class_items (drop i pat) = map_option
          (\<lambda>(items, rest). (Range (pat ! i) (pat ! (i + 2)) # items, rest)) (class_items (drop (i + 3) pat))"
        unfolding d using True range n
        by (subst class_items.simps) (auto simp: numeral_3_eq_3)
      from 1(1) [OF True range] show ?thesis
        unfolding c bracket_loop.simps [of pat ch i m] using True range
        by (auto split: option.split)
    next
      case single: False
      have c: "class_items (drop i pat) = map_option
          (\<lambda>(items, rest). (Single (pat ! i) # items, rest)) (class_items (drop (i + 1) pat))"
        unfolding d using True single n by (subst class_items.simps) (auto simp: add.commute)
      from 1(2) [OF True single] show ?thesis
        unfolding c bracket_loop.simps [of pat ch i m] using True single
        by (auto split: option.split)
    qed
  qed
qed

lemma match_bracket_class:
  "case class_of cs of
     None \<Rightarrow> match_bracket (CHR ''['' # cs) ch = None
   | Some (t, rest) \<Rightarrow> t \<noteq> Star \<and>
       (\<exists>n. match_bracket (CHR ''['' # cs) ch = Some (admits t ch, n) \<and> drop n (CHR ''['' # cs) = rest)"
proof -
  define pat where "pat = CHR ''['' # cs"
  define neg where "neg \<longleftrightarrow> 1 < length pat \<and> (pat ! 1 = CHR ''!'' \<or> pat ! 1 = CHR ''^'')"
  define i where "i = (if neg then 2 else 1 :: nat)"
  define close where "close \<longleftrightarrow> i < length pat \<and> pat ! i = CHR '']''"
  define j where "j = (if close then i + 1 else i)"
  define m where "m = (if close then ch = CHR '']'' else False)"
  define res where "res = bracket_loop pat ch j m"
  have p1: "(if 1 < length pat \<and> (pat ! 1 = CHR ''!'' \<or> pat ! 1 = CHR ''^'') then (True, 1 + 1)
      else (False, 1)) = (neg, i)"
    by (simp add: neg_def i_def)
  have p2: "(if i < length pat \<and> pat ! i = CHR '']'' then (ch = CHR '']'', i + 1)
      else (False, i)) = (m, j)"
    by (simp add: m_def j_def close_def)
  have code: "match_bracket pat ch =
      (if snd res < length pat \<and> pat ! snd res = CHR '']''
       then Some (if neg then \<not> fst res else fst res, snd res + 1) else None)"
    unfolding match_bracket_def Let_def p1 prod.case p2
    by (simp add: pat_def res_def split: prod.split)
  have neg: "neg \<longleftrightarrow> cs \<noteq> [] \<and> (hd cs = CHR ''!'' \<or> hd cs = CHR ''^'')"
    by (cases cs) (simp_all add: neg_def pat_def)
  have d: "drop i pat = (if neg then tl cs else cs)"
    by (cases cs) (simp_all add: i_def pat_def)
  have close: "close \<longleftrightarrow> drop i pat \<noteq> [] \<and> hd (drop i pat) = CHR '']''"
    by (auto simp: close_def hd_drop_conv_nth)
  have "class_body (drop i pat) = (if close
      then map_option (\<lambda>(items, rest). (Single CHR '']'' # items, rest)) (class_items (drop j pat))
      else class_items (drop j pat))"
    unfolding class_body_def close [symmetric] by (simp add: j_def tl_drop drop_Suc)
  then have spec: "class_of cs = map_option (\<lambda>(items, rest). (Class neg items, rest)) (if close
      then map_option (\<lambda>(items, rest). (Single CHR '']'' # items, rest)) (class_items (drop j pat))
      else class_items (drop j pat))"
    unfolding class_of_def neg [symmetric] d [symmetric] Let_def by simp
  show ?thesis
    using bracket_loop_items [where i = j and pat = pat and ch = ch and m = m]
    unfolding spec pat_def [symmetric] code res_def [symmetric]
    by (auto simp: m_def split: option.splits)
qed

section \<open>The matcher\<close>

text \<open>A backslash in both strings is read in two ways by the matcher, see
  \<open>glob_escape_reads_twice\<close>.\<close>

definition escape_free :: "string \<Rightarrow> string \<Rightarrow> bool" where
  "escape_free pat txt \<longleftrightarrow> CHR 0x5C \<notin> set pat \<or> CHR 0x5C \<notin> set txt"

lemma escape_free_nth:
  "escape_free pat txt \<Longrightarrow> pi < length pat \<Longrightarrow> ti < length txt \<Longrightarrow>
     pat ! pi = CHR 0x5C \<Longrightarrow> txt ! ti \<noteq> CHR 0x5C"
  unfolding escape_free_def by (metis nth_mem)

text \<open>One turn of the loop, on tokens.\<close>

lemma glob_step_tokens:
  assumes "escape_free pat txt" "ti < length txt"
  shows "case glob_tokens (drop pi pat) of
      [] \<Rightarrow> glob_step pat txt (pi, ti, spi, sti) = glob_backtrack (pi, ti, spi, sti)
    | t # ts \<Rightarrow>
        if t = Star then
          glob_step pat txt (pi, ti, spi, sti) = Some (pi + 1, ti, Some (pi + 1), Some ti) \<and>
          glob_tokens (drop (pi + 1) pat) = ts
        else if admits t (txt ! ti) then
          (\<exists>qi. glob_step pat txt (pi, ti, spi, sti) = Some (qi, ti + 1, spi, sti) \<and>
             glob_tokens (drop qi pat) = ts)
        else glob_step pat txt (pi, ti, spi, sti) = glob_backtrack (pi, ti, spi, sti)"
proof (cases "pi < length pat")
  case False
  then show ?thesis by (simp add: glob_step_def)
next
  case True
  define c cs where "c = pat ! pi" and "cs = drop (pi + 1) pat"
  have d: "drop pi pat = c # cs" using True by (simp add: c_def cs_def nth_in_drop)
  have hd: "cs \<noteq> [] \<longleftrightarrow> pi + 1 < length pat" "cs \<noteq> [] \<Longrightarrow> hd cs = pat ! (pi + 1)"
    "tl cs = drop (pi + 2) pat"
    by (auto simp: cs_def hd_drop_conv_nth, simp add: tl_drop drop_Suc)
  have esc: "c = CHR 0x5C \<Longrightarrow> txt ! ti \<noteq> CHR 0x5C"
    using escape_free_nth [OF assms(1) True assms(2)] by (simp add: c_def)
  consider "c = CHR 0x5C" "cs \<noteq> []" | "c = CHR ''[''" | "c \<noteq> CHR ''[''" "c = CHR 0x5C \<longrightarrow> cs = []"
    by blast
  then show ?thesis
  proof cases
    case 1
    then show ?thesis
      using True hd esc unfolding d glob_step_def by (auto simp: glob_tokens.simps c_def)
  next
    case 2
    have dp: "drop pi pat = CHR ''['' # cs" using d 2 by simp
    have step: "glob_step pat txt (pi, ti, spi, sti) =
        (case match_bracket (CHR ''['' # cs) (txt ! ti) of
           Some (matched, n) \<Rightarrow> if matched then Some (pi + n, ti + 1, spi, sti)
             else glob_backtrack (pi, ti, spi, sti)
         | None \<Rightarrow> glob_backtrack (pi, ti, spi, sti))"
      using True 2 by (simp add: glob_step_def c_def dp)
    show ?thesis
    proof (cases "class_of cs")
      case None
      with match_bracket_class [of cs "txt ! ti"] show ?thesis
        unfolding step dp by (simp add: glob_tokens.simps)
    next
      case (Some x)
      then obtain t rest where x: "class_of cs = Some (t, rest)" by (cases x) simp
      with match_bracket_class [of cs "txt ! ti"] obtain n where
        n: "t \<noteq> Star" "match_bracket (CHR ''['' # cs) (txt ! ti) = Some (admits t (txt ! ti), n)"
          "drop n (drop pi pat) = rest"
        unfolding dp by auto
      have rest: "drop (pi + n) pat = rest" using n(3) by (simp add: add.commute)
      have tokens: "glob_tokens (drop pi pat) = t # glob_tokens rest"
        unfolding dp by (simp add: glob_tokens.simps x)
      show ?thesis
        unfolding step tokens using n(1,2) rest by simp
    qed
  next
    case 3
    have tokens: "glob_tokens (drop pi pat) =
        (if c = CHR ''*'' then Star else if c = CHR ''?'' then AnyChar else Literal c) # glob_tokens cs"
      unfolding d using 3 by (cases cs) (simp_all add: glob_tokens.simps)
    have "\<not> (pat ! pi = CHR 0x5C \<and> pi + 1 < length pat \<and> txt ! ti = pat ! (pi + 1))"
      using 3(2) hd(1) by (auto simp: c_def)
    then have step: "glob_step pat txt (pi, ti, spi, sti) =
        (if c = CHR ''*'' then Some (pi + 1, ti, Some (pi + 1), Some ti)
         else if c = CHR ''?'' \<or> c = txt ! ti then Some (pi + 1, ti + 1, spi, sti)
         else glob_backtrack (pi, ti, spi, sti))"
      unfolding glob_step_def prod.case c_def [symmetric] using True 3(1) by (simp only: if_True if_False simp_thms)
        (simp split: if_split)
    have rest: "glob_tokens (drop (pi + 1) pat) = glob_tokens cs" by (simp add: cs_def)
    consider "c = CHR ''*''" | "c = CHR ''?''" | "c \<noteq> CHR ''*''" "c \<noteq> CHR ''?''" by blast
    then show ?thesis
    proof cases
      case 3
      then show ?thesis unfolding tokens step using rest by (cases "c = txt ! ti") auto
    qed (use rest in \<open>simp_all add: tokens step\<close>)
  qed
qed

definition matches_at :: "string \<Rightarrow> string \<Rightarrow> nat \<Rightarrow> nat \<Rightarrow> bool" where
  "matches_at pat txt i j = glob_lang (glob_tokens (drop i pat)) (drop j txt)"

text \<open>The matches a state of the loop stands for: at the current indices, or from the last star with
  a longer stretch of text.\<close>

fun retry_matches :: "string \<Rightarrow> string \<Rightarrow> nat option \<Rightarrow> nat option \<Rightarrow> bool" where
  "retry_matches pat txt (Some a) (Some b) = (\<exists>j. b < j \<and> j \<le> length txt \<and> matches_at pat txt a j)"
| "retry_matches pat txt _ _ = False"

text \<open>Between the last star and the current indices lie tokens of one character each, and they
  took the text since the star.\<close>

definition star_ok :: "string \<Rightarrow> string \<Rightarrow> glob_state \<Rightarrow> bool" where
  "star_ok pat txt s \<longleftrightarrow>
     (case s of (pi, ti, spi, sti) \<Rightarrow> ti \<le> length txt \<and>
        (spi = None \<and> sti = None \<or>
         (\<exists>a b pre. spi = Some a \<and> sti = Some b \<and> Star \<notin> set pre \<and> ti = b + length pre \<and>
            glob_tokens (drop a pat) = pre @ glob_tokens (drop pi pat))))"

text \<open>A later start of an earlier star meets the current pattern position at a later text position.\<close>

lemma retry_later:
  assumes "star_ok pat txt (pi, ti, spi, sti)" "retry_matches pat txt spi sti"
  shows "\<exists>k. ti < k \<and> k \<le> length txt \<and> matches_at pat txt pi k"
proof -
  from assms obtain a b pre j where star: "Star \<notin> set pre" "ti = b + length pre"
    "glob_tokens (drop a pat) = pre @ glob_tokens (drop pi pat)"
    and j: "b < j" "j \<le> length txt" "matches_at pat txt a j"
    unfolding star_ok_def by (cases spi; cases sti) auto
  have "length pre \<le> length (drop j txt)" "matches_at pat txt pi (j + length pre)"
    using glob_lang_fixed [OF star(1), of "glob_tokens (drop pi pat)" "drop j txt"] star(3) j(3)
    by (simp_all add: matches_at_def add.commute)
  with star(2) j(1,2) show ?thesis by (intro exI [of _ "j + length pre"]) auto
qed

lemma backtrack_matches:
  assumes "star_ok pat txt (pi, ti, spi, sti)" "ti < length txt"
  shows "case glob_backtrack (pi, ti, spi, sti) of
      None \<Rightarrow> \<not> retry_matches pat txt spi sti
    | Some (qi, ui, rpi, rti) \<Rightarrow> star_ok pat txt (qi, ui, rpi, rti) \<and>
        (matches_at pat txt qi ui \<or> retry_matches pat txt rpi rti) = retry_matches pat txt spi sti"
proof (cases "sti = None")
  case True
  with assms show ?thesis by (auto simp: star_ok_def glob_backtrack_def)
next
  case False
  with assms obtain a b where s: "spi = Some a" "sti = Some b" "b \<le> ti"
    by (auto simp: star_ok_def)
  have "(matches_at pat txt a (b + 1) \<or> (\<exists>j. b + 1 < j \<and> j \<le> length txt \<and> matches_at pat txt a j)) =
      (\<exists>j. b < j \<and> j \<le> length txt \<and> matches_at pat txt a j)" (is "?l = ?r")
  proof
    assume ?l
    then show ?r
    proof
      assume "matches_at pat txt a (b + 1)"
      with s(3) assms(2) show ?r by (intro exI [of _ "b + 1"]) simp
    qed (meson less_add_one less_trans)
  next
    assume ?r
    then obtain j where "b < j" "j \<le> length txt" "matches_at pat txt a j" by blast
    then show ?l by (cases "j = b + 1") auto
  qed
  then show ?thesis
    using s assms by (simp add: glob_backtrack_def star_ok_def)
qed

lemma drop_nonempty: "ti < length txt \<Longrightarrow> drop ti txt = txt ! ti # drop (ti + 1) txt"
  by (rule nth_in_drop)

lemma star_matches:
  assumes "glob_tokens (drop pi pat) = Star # glob_tokens (drop qi pat)" "ti \<le> length txt"
  shows "matches_at pat txt pi ti \<longleftrightarrow>
    matches_at pat txt qi ti \<or> (\<exists>j. ti < j \<and> j \<le> length txt \<and> matches_at pat txt qi j)"
proof -
  have "matches_at pat txt pi ti \<longleftrightarrow>
      (\<exists>k \<le> length (drop ti txt). glob_lang (glob_tokens (drop qi pat)) (drop k (drop ti txt)))"
    unfolding matches_at_def assms(1) by (rule glob_lang_star)
  also have "\<dots> \<longleftrightarrow> (\<exists>j. ti \<le> j \<and> j \<le> length txt \<and> matches_at pat txt qi j)"
  proof
    assume "\<exists>k \<le> length (drop ti txt). glob_lang (glob_tokens (drop qi pat)) (drop k (drop ti txt))"
    then obtain k where "k \<le> length txt - ti" "matches_at pat txt qi (k + ti)"
      by (auto simp: matches_at_def)
    with assms(2) show "\<exists>j. ti \<le> j \<and> j \<le> length txt \<and> matches_at pat txt qi j"
      by (intro exI [of _ "k + ti"]) auto
  next
    assume "\<exists>j. ti \<le> j \<and> j \<le> length txt \<and> matches_at pat txt qi j"
    then obtain j where "ti \<le> j" "j \<le> length txt" "matches_at pat txt qi j" by blast
    then show "\<exists>k \<le> length (drop ti txt).
        glob_lang (glob_tokens (drop qi pat)) (drop k (drop ti txt))"
      by (intro exI [of _ "j - ti"]) (auto simp: matches_at_def)
  qed
  also have "\<dots> \<longleftrightarrow>
      matches_at pat txt qi ti \<or> (\<exists>j. ti < j \<and> j \<le> length txt \<and> matches_at pat txt qi j)"
    using assms(2) le_less by auto
  finally show ?thesis .
qed

lemma star_absorbs:
  assumes "glob_tokens (drop pi pat) = Star # ts" "matches_at pat txt pi k" "ti \<le> k"
  shows "matches_at pat txt pi ti"
  using assms glob_lang_star_drop [of ts "k - ti" "drop ti txt"] by (simp add: matches_at_def)

lemma stars_only: "dropWhile (\<lambda>c. c = CHR ''*'') p = [] \<longleftrightarrow> glob_lang (glob_tokens p) []"
proof (induction p rule: glob_tokens.induct)
  case (2 c cs)
  show ?case
  proof (cases "c = CHR ''*''")
    case True
    with 2(2) show ?thesis by (simp add: glob_tokens.simps glob_lang_empty)
  next
    case False
    have "hd (glob_tokens (c # cs)) \<noteq> Star \<and> glob_tokens (c # cs) \<noteq> []"
    proof (cases "class_of cs")
      case None
      with False show ?thesis by (simp add: glob_tokens.simps)
    next
      case (Some x)
      then have "fst x \<noteq> Star" by (auto simp: class_of_def Let_def)
      with Some False show ?thesis by (cases x) (simp add: glob_tokens.simps)
    qed
    then have "\<not> glob_lang (glob_tokens (c # cs)) []"
      unfolding glob_lang_empty by (metis list.set_sel(1))
    with False show ?thesis by simp
  qed
qed simp

lemma glob_loop_lang:
  "escape_free pat txt \<Longrightarrow> star_ok pat txt (pi, ti, spi, sti) \<Longrightarrow>
     glob_loop pat txt (pi, ti, spi, sti) \<longleftrightarrow>
       matches_at pat txt pi ti \<or> retry_matches pat txt spi sti"
proof (induction pat "txt" "(pi, ti, spi, sti)" arbitrary: pi ti spi sti rule: glob_loop.induct)
  case less: (1 pat "txt")
  note loop = glob_loop.simps [of pat "txt" "(pi, ti, spi, sti)"]
  show ?case
  proof (cases "ti < length txt")
    case False
    with less.prems(2) have end_of_text: "ti = length txt" by (simp add: star_ok_def)
    then have "\<not> retry_matches pat txt spi sti"
      using retry_later [OF less.prems(2)] by auto
    with end_of_text show ?thesis
      unfolding loop by (simp add: stars_only matches_at_def del: dropWhile_eq_Nil_conv)
  next
    case True
    have next_state: "glob_loop pat txt (qi, ui, rpi, rti) \<longleftrightarrow>
        matches_at pat txt qi ui \<or> retry_matches pat txt rpi rti"
      if "glob_step pat txt (pi, ti, spi, sti) = Some (qi, ui, rpi, rti)"
        "star_ok pat txt (qi, ui, rpi, rti)" for qi ui rpi rti
      using less.hyps [OF _ that(1) less.prems(1) that(2)] True by simp
    have retry: "glob_loop pat txt (pi, ti, spi, sti) \<longleftrightarrow> retry_matches pat txt spi sti"
      if "glob_step pat txt (pi, ti, spi, sti) = glob_backtrack (pi, ti, spi, sti)"
      using backtrack_matches [OF less.prems(2) True] next_state that True
      unfolding loop by (auto split: option.splits)
    have front: "drop ti txt = txt ! ti # drop (ti + 1) txt" using True by (rule drop_nonempty)
    note step = glob_step_tokens [OF less.prems(1) True, of pi spi sti]
    show ?thesis
    proof (cases "glob_tokens (drop pi pat)")
      case Nil
      then have "\<not> matches_at pat txt pi ti" by (simp add: matches_at_def front)
      with Nil step retry show ?thesis by simp
    next
      case (Cons t ts)
      consider "t = Star" | "t \<noteq> Star" "admits t (txt ! ti)" | "t \<noteq> Star" "\<not> admits t (txt ! ti)"
        by blast
      then show ?thesis
      proof cases
        case 1
        with step Cons have s: "glob_step pat txt (pi, ti, spi, sti) =
            Some (pi + 1, ti, Some (pi + 1), Some ti)"
          "glob_tokens (drop pi pat) = Star # glob_tokens (drop (pi + 1) pat)"
          by simp_all
        have "star_ok pat txt (pi + 1, ti, Some (pi + 1), Some ti)"
          using True by (simp add: star_ok_def)
        from next_state [OF s(1) this] s(1) True
        have "glob_loop pat txt (pi, ti, spi, sti) \<longleftrightarrow> matches_at pat txt pi ti"
          unfolding loop star_matches [OF s(2) less_imp_le [OF True]] by simp
        moreover have "retry_matches pat txt spi sti \<Longrightarrow> matches_at pat txt pi ti"
          using retry_later [OF less.prems(2)] star_absorbs [OF s(2)] by (meson less_imp_le)
        ultimately show ?thesis by blast
      next
        case 2
        with step Cons obtain qi where s: "glob_step pat txt (pi, ti, spi, sti) =
            Some (qi, ti + 1, spi, sti)" "glob_tokens (drop qi pat) = ts"
          by auto
        have "star_ok pat txt (qi, ti + 1, spi, sti)"
        proof (cases "spi = None \<and> sti = None")
          case False
          with less.prems(2) obtain a b pre where "spi = Some a" "sti = Some b" "Star \<notin> set pre"
            "ti = b + length pre" "glob_tokens (drop a pat) = pre @ t # ts"
            by (auto simp: star_ok_def Cons)
          with True s(2) 2(1) show ?thesis
            by (auto simp: star_ok_def intro!: exI [of _ "pre @ [t]"])
        qed (use True in \<open>simp add: star_ok_def\<close>)
        from next_state [OF s(1) this] s(1) True
        have "glob_loop pat txt (pi, ti, spi, sti) \<longleftrightarrow>
            matches_at pat txt qi (ti + 1) \<or> retry_matches pat txt spi sti"
          unfolding loop by simp
        moreover have "matches_at pat txt pi ti = matches_at pat txt qi (ti + 1)"
          unfolding matches_at_def front Cons s(2) using 2 by (simp add: glob_lang_one)
        ultimately show ?thesis by simp
      next
        case 3
        then have "\<not> matches_at pat txt pi ti"
          unfolding matches_at_def front Cons by (simp add: glob_lang_one)
        with 3 Cons step retry show ?thesis by simp
      qed
    qed
  qed
qed

lemma glob_match_lang:
  "escape_free pat txt \<Longrightarrow> glob_match pat txt \<longleftrightarrow> glob_lang (glob_tokens pat) txt"
  using glob_loop_lang [of pat "txt" 0 0 None None]
  by (simp add: glob_match_def star_ok_def matches_at_def)

section \<open>Properties of the matcher\<close>

text \<open>Unless both strings contain a backslash, the backtracking matcher decides the language
  of the pattern: a star stands for any text, a question mark for one byte, a bracket expression
  for one byte of its class, an escaped character and everything else for itself.\<close>

theorem glob_match_exact:
  assumes "CHR 0x5C \<notin> set pat \<or> CHR 0x5C \<notin> set txt"
  shows "glob_match pat txt \<longleftrightarrow> glob_lang (glob_tokens pat) txt"
  using assms glob_match_lang by (simp add: escape_free_def)

theorem glob_match_exact_witness:
  "glob_lang (glob_tokens ''[A-Z]*[!a-y.]?'') ''File.z1'' \<and> \<not> glob_lang (glob_tokens ''f*e'') ''foo''"
proof -
  have "glob_match ''[A-Z]*[!a-y.]?'' ''File.z1''" by code_simp
  moreover have "\<not> glob_match ''f*e'' ''foo''" by code_simp
  ultimately show ?thesis
    using glob_match_exact [of "''[A-Z]*[!a-y.]?''" "''File.z1''"]
      glob_match_exact [of "''f*e''" "''foo''"]
    by simp
qed

text \<open>An escaped metacharacter is read a second time: when the text has a backslash where the
  pattern escapes a star, the backslash matches as a literal and the star is active again, so the
  pattern for the one name \<open>*\<close> matches every name that starts with a backslash.\<close>

theorem glob_escape_reads_twice:
  "glob_match [CHR 0x5C, CHR ''*''] ''*'' \<and>
   glob_match [CHR 0x5C, CHR ''*''] (CHR 0x5C # ''etc'') \<and>
   \<not> glob_lang (glob_tokens [CHR 0x5C, CHR ''*'']) (CHR 0x5C # ''etc'')"
proof -
  have "glob_match [CHR 0x5C, CHR ''*''] ''*''" by code_simp
  moreover have "glob_match [CHR 0x5C, CHR ''*''] (CHR 0x5C # ''etc'')" by code_simp
  moreover have "\<not> glob_lang (glob_tokens [CHR 0x5C, CHR ''*'']) (CHR 0x5C # ''etc'')"
    by (simp add: glob_tokens.simps glob_lang_one)
  ultimately show ?thesis by simp
qed

end
