(* ===== verification/GlobExpand.thy ===== *)
theory GlobExpand
  imports GlobSound
begin

text \<open>
  The expansion of a shell pattern finds exactly the paths of the file tree that match it segment
  by segment. The tree is well formed (\<open>tree_ok\<close>) and no entry's name ends in a blank, which
  \<open>normalize\<close> would trim again (see \<open>vfs_remove_orphans\<close>).
\<close>

section \<open>Paths without trailing blanks\<close>

lemma strip_start_length: "length (strip_start ws s) \<le> length s"
proof (induction ws s rule: strip_start.induct)
  case (1 ws s)
  then show ?case
    by (subst strip_start.simps) (auto split: option.split intro: order_trans)
qed

lemma strip_start_fixed:
  "strip_start ws s = s \<longleftrightarrow> (\<forall>w \<in> set ws. w \<noteq> [] \<longrightarrow> \<not> prefix w s)"
proof (cases "find (\<lambda>w. w \<noteq> [] \<and> prefix w s) ws")
  case None
  then have "strip_start ws s = s" by (subst strip_start.simps) simp
  with None show ?thesis by (auto simp: find_None_iff)
next
  case (Some w)
  then have w: "w \<in> set ws" "w \<noteq> []" "prefix w s" by (auto simp: find_Some_iff)
  have "strip_start ws s = strip_start ws (drop (length w) s)"
    by (subst strip_start.simps) (simp add: Some)
  then have "length (strip_start ws s) \<le> length s - length w"
    using strip_start_length [of ws "drop (length w) s"] by simp
  moreover have "0 < length w" "length w \<le> length s" using w(2,3) by (auto dest: prefix_length_le)
  ultimately have "length (strip_start ws s) < length s" by linarith
  with w show ?thesis by auto
qed

lemma whitespace_no_slash: "w \<in> set whitespace \<Longrightarrow> CHR ''/'' \<notin> set w"
  by (auto simp: whitespace_def)

lemma prefix_before: "c \<notin> set w \<Longrightarrow> prefix w (xs @ c # ys) \<Longrightarrow> prefix w xs"
  by (induction w arbitrary: xs) (auto simp: prefix_Cons Cons_eq_append_conv prefix_def append_eq_Cons_conv)

lemma trim_absolute:
  "trim (CHR ''/'' # s) = CHR ''/'' # s \<longleftrightarrow>
     (\<forall>w \<in> set whitespace. w \<noteq> [] \<longrightarrow> \<not> prefix (rev w) (rev s @ ''/''))"
proof -
  have "strip_start whitespace (CHR ''/'' # s) = CHR ''/'' # s"
    unfolding strip_start_fixed using whitespace_no_slash by (fastforce simp: prefix_Cons)
  then have "trim (CHR ''/'' # s) = CHR ''/'' # s \<longleftrightarrow>
      strip_start (map rev whitespace) (rev (CHR ''/'' # s)) = rev (CHR ''/'' # s)"
    unfolding trim_def by (metis rev_rev_ident)
  then show ?thesis unfolding strip_start_fixed by simp
qed

lemma trim_segment:
  assumes "trim (CHR ''/'' # seg) = CHR ''/'' # seg"
  shows "trim (CHR ''/'' # p @ CHR ''/'' # seg) = CHR ''/'' # p @ CHR ''/'' # seg"
  unfolding trim_absolute
proof (intro ballI impI notI)
  fix w
  assume w: "w \<in> set whitespace" "w \<noteq> []"
    "prefix (rev w) (rev (p @ CHR ''/'' # seg) @ ''/'')"
  then have "prefix (rev w) (rev seg)"
    using prefix_before [of "CHR ''/''" "rev w" "rev seg" "rev p @ ''/''"]
      whitespace_no_slash [OF w(1)] by simp
  with w(1,2) assms show False unfolding trim_absolute by (auto simp: prefix_def)
qed

section \<open>Directories and their children\<close>

text \<open>A tree whose entries all have names without trailing blanks.\<close>

definition tree_plain :: "vfs \<Rightarrow> bool" where
  "tree_plain v \<longleftrightarrow> tree_ok v \<and> (\<forall>(p, e) \<in> set (entries v). trim p = p)"

lemma tree_plain_normalize: "tree_plain v \<Longrightarrow> lookup v p = Some e \<Longrightarrow> normalize p = Ok p"
  by (rule normalize_trimmed)
    (auto simp: tree_plain_def tree_ok_def lookup_def dest!: map_of_SomeD)

lemma tree_plain_exists:
  assumes "tree_plain v" "normalize p = Ok p"
  shows "exists_path v p \<longleftrightarrow> lookup v p \<noteq> None"
    "is_dir v p \<longleftrightarrow> (\<exists>perm. lookup v p = Some (Directory perm))"
  using assms(2) by (auto simp: exists_path_def is_dir_def split: option.split elim: is_dir_entry.elims)

lemma ancestor_dir:
  assumes "tree_ok v"
  shows "list_all valid_name (cs @ ds) \<Longrightarrow> lookup v (path_of (cs @ ds)) \<noteq> None \<Longrightarrow> ds \<noteq> [] \<Longrightarrow>
    \<exists>perm. lookup v (path_of cs) = Some (Directory perm)"
proof (induction ds rule: rev_induct)
  case (snoc d ds)
  have valid: "list_all valid_name ((cs @ ds) @ [d])" using snoc.prems(1) by simp
  obtain e where "lookup v (path_of ((cs @ ds) @ [d])) = Some e" using snoc.prems(2) by auto
  moreover have "path_of ((cs @ ds) @ [d]) \<noteq> ''/''"
    using path_of_root [OF valid] by simp
  ultimately obtain perm where dir: "lookup v (path_of (cs @ ds)) = Some (Directory perm)"
    using tree_ok_entry [OF assms] parent_of_path [OF valid] by fastforce
  show ?case
  proof (cases "ds = []")
    case False
    with snoc.IH snoc.prems(1) dir show ?thesis by simp
  qed (use dir in simp)
qed simp

lemma collect_names:
  "de_name ` set (collect_children path pre seen es) =
     {drop (length pre) k | k. k \<in> fst ` set es \<and> k \<noteq> path \<and> starts_with k pre \<and>
        CHR ''/'' \<notin> set (drop (length pre) k) \<and> drop (length pre) k \<noteq> []} - seen"
proof (induction es arbitrary: seen)
  case (Cons x es)
  then show ?case by (cases x) (auto simp: Let_def)
qed auto

lemma child_path:
  assumes "list_all valid_name cs" "canonical k"
  shows "(k \<noteq> path_of cs \<and> starts_with k (if path_of cs = ''/'' then ''/'' else path_of cs @ ''/'') \<and>
      n = drop (length (if path_of cs = ''/'' then ''/'' else path_of cs @ ''/'')) k \<and>
      CHR ''/'' \<notin> set n \<and> n \<noteq> []) \<longleftrightarrow> k = path_of (cs @ [n]) \<and> valid_name n"
    (is "?l \<longleftrightarrow> ?r")
proof
  let ?pre = "if path_of cs = ''/'' then ''/'' else path_of cs @ ''/''"
  have pre: "path_of (cs @ [n]) = ?pre @ n" for n
    using path_of_root [OF assms(1)] by (auto simp: path_of_snoc)
  {
    assume l: ?l
    then have k: "k = path_of (cs @ [n])"
      unfolding pre by (auto simp: starts_with_def prefix_def split: if_splits)
    obtain ds where ds: "list_all valid_name ds" "k = path_of ds"
      using assms(2) by (auto simp: canonical_def)
    have "path_parts k = path_parts (path_of cs) @ path_parts n"
      unfolding k pre using path_of_root [OF assms(1)]
      by (auto simp: path_parts_def split_on_append [of "CHR ''/''" "[]", simplified] split: if_splits)
    moreover have "CHR ''/'' \<notin> set n" "n \<noteq> []" using l by blast+
    then have "path_parts n = [n]" by (simp add: path_parts_def)
    ultimately have "ds = cs @ [n]"
      using path_parts_path_of [OF ds(1)] path_parts_path_of [OF assms(1)] ds(2) by simp
    with ds k show ?r by simp
  next
    assume r: ?r
    then have k: "k = ?pre @ n" and n: "valid_name n" using pre by simp_all
    show ?l
      unfolding k using n by (auto simp: starts_with_def prefix_def valid_name_def)
  }
qed

text \<open>Listing a directory gives the names of the entries below it.\<close>

lemma list_dir_names:
  assumes "tree_plain v" "list_all valid_name cs" "lookup v (path_of cs) = Some (Directory perm)"
  shows "\<exists>es. list_dir v (path_of cs) = Ok es \<and>
    de_name ` set es = {n. valid_name n \<and> lookup v (path_of (cs @ [n])) \<noteq> None}"
proof -
  let ?pre = "if path_of cs = ''/'' then ''/'' else path_of cs @ ''/''"
  let ?es = "collect_children (path_of cs) ?pre {} (entries v)"
  have keys: "k \<in> fst ` set (entries v) \<longleftrightarrow> lookup v k \<noteq> None" for k
    by (simp add: lookup_def map_of_eq_None_iff)
  have can: "lookup v k \<noteq> None \<Longrightarrow> canonical k" for k
    using assms(1) by (auto simp: tree_plain_def tree_ok_def)
  have names: "n \<in> de_name ` set ?es \<longleftrightarrow> valid_name n \<and> lookup v (path_of (cs @ [n])) \<noteq> None" for n
  proof -
    have "n \<in> de_name ` set ?es \<longleftrightarrow> (\<exists>k. lookup v k \<noteq> None \<and> k \<noteq> path_of cs \<and> starts_with k ?pre \<and>
        n = drop (length ?pre) k \<and> CHR ''/'' \<notin> set n \<and> n \<noteq> [])"
      unfolding collect_names keys by blast
    also have "\<dots> \<longleftrightarrow> (\<exists>k. lookup v k \<noteq> None \<and> k = path_of (cs @ [n]) \<and> valid_name n)"
      using child_path [OF assms(2) can, of _ n] by metis
    finally show ?thesis by auto
  qed
  have "de_name ` set ?es = {n. valid_name n \<and> lookup v (path_of (cs @ [n])) \<noteq> None}"
    using names by (intro set_eqI) simp
  moreover have "list_dir v (path_of cs) = Ok (sort_key de_name ?es)"
    using tree_plain_normalize [OF assms(1,3)] assms(3) by (simp add: list_dir_def)
  ultimately show ?thesis by simp
qed

lemma list_dir_file:
  assumes "tree_plain v" "lookup v p = Some e" "list_dir v p = Ok es"
  shows "\<exists>perm. e = Directory perm"
  using assms(2,3) tree_plain_normalize [OF assms(1,2)]
  by (auto simp: list_dir_def split: entry.splits)

section \<open>Expansion\<close>

definition segment_matches :: "string \<Rightarrow> string \<Rightarrow> bool" where
  "segment_matches seg n = (if is_glob_pattern seg then glob_match seg n else n = seg)"

text \<open>A segment without metacharacters is a name as \<open>normalize\<close> keeps it.\<close>

definition segment_plain :: "string \<Rightarrow> bool" where
  "segment_plain seg \<longleftrightarrow>
     is_glob_pattern seg \<or> valid_name seg \<and> trim (CHR ''/'' # seg) = CHR ''/'' # seg"

definition found :: "vfs \<Rightarrow> string list \<Rightarrow> string list \<Rightarrow> string set" where
  "found v cs segs = {path_of (cs @ ns) | ns. list_all2 segment_matches segs ns \<and>
     list_all valid_name ns \<and> lookup v (path_of (cs @ ns)) \<noteq> None}"

lemma join_path_of: "list_all valid_name cs \<Longrightarrow> join_path (path_of cs) n = path_of (cs @ [n])"
  using path_of_root [of cs] by (auto simp: join_path_def path_of_snoc)

lemma found_Nil: "lookup v (path_of cs) \<noteq> None \<Longrightarrow> found v cs [] = {path_of cs}"
  by (auto simp: found_def)

lemma found_Cons:
  "found v cs (seg # segs) =
     (\<Union>n \<in> {n. segment_matches seg n \<and> valid_name n}. found v (cs @ [n]) segs)"
  unfolding found_def list_all2_Cons1 by fastforce

lemma found_below:
  assumes "tree_ok v" "list_all valid_name cs" "segs \<noteq> []" "p \<in> found v cs segs"
  shows "\<exists>perm. lookup v (path_of cs) = Some (Directory perm)"
proof -
  from assms(4) obtain ns where "list_all2 segment_matches segs ns" "list_all valid_name ns"
    "lookup v (path_of (cs @ ns)) \<noteq> None"
    by (auto simp: found_def)
  with assms(2,3) ancestor_dir [OF assms(1), of cs ns] show ?thesis by auto
qed

lemma found_missing:
  assumes "tree_ok v" "list_all valid_name cs" "lookup v (path_of cs) = None"
  shows "found v cs segs = {}"
proof (cases "segs = []")
  case True
  with assms(3) show ?thesis by (simp add: found_def)
next
  case False
  with found_below [OF assms(1,2), of segs] assms(3) show ?thesis by fastforce
qed

lemma normalize_literal:
  assumes "list_all valid_name (cs @ [seg])" "trim (CHR ''/'' # seg) = CHR ''/'' # seg"
  shows "normalize (path_of (cs @ [seg])) = Ok (path_of (cs @ [seg]))"
proof (rule normalize_trimmed)
  show "canonical (path_of (cs @ [seg]))" using assms(1) unfolding canonical_def by blast
  show "trim (path_of (cs @ [seg])) = path_of (cs @ [seg])"
    using assms(2) trim_segment [OF assms(2), of "join_on CHR ''/'' cs"]
    by (cases "cs = []") (simp_all add: path_of_def join_on_append)
qed

lemma expand_found:
  assumes v: "tree_plain v"
  shows "list_all valid_name cs \<Longrightarrow> lookup v (path_of cs) \<noteq> None \<Longrightarrow> list_all segment_plain segs \<Longrightarrow>
    set (expand_glob_recursive v (path_of cs) segs) = found v cs segs"
proof (induction segs arbitrary: cs)
  case Nil
  then show ?case by (simp add: found_Nil)
next
  case (Cons seg segs)
  have ok: "tree_ok v" using v by (simp add: tree_plain_def)
  show ?case
  proof (cases "is_glob_pattern seg")
    case False
    have plain: "segment_plain seg" "list_all segment_plain segs" using Cons.prems(3) by simp_all
    with False Cons.prems(1) have seg: "valid_name seg" "list_all valid_name (cs @ [seg])"
      "trim (CHR ''/'' # seg) = CHR ''/'' # seg" "list_all segment_plain segs"
        by (simp_all add: segment_plain_def [of seg])
    have "found v cs (seg # segs) = found v (cs @ [seg]) segs"
      unfolding found_Cons using False seg(1) by (auto simp: segment_matches_def)
    moreover have "exists_path v (path_of (cs @ [seg])) \<longleftrightarrow> lookup v (path_of (cs @ [seg])) \<noteq> None"
      using tree_plain_exists(1) [OF v normalize_literal [OF seg(2,3)]] .
    ultimately show ?thesis
      using False Cons.IH [OF seg(2) _ seg(4)] found_missing [OF ok seg(2)]
      by (cases "lookup v (path_of (cs @ [seg])) = None")
        (simp_all add: join_path_of [OF Cons.prems(1)] Let_def)
  next
    case True
    note glob = this
    show ?thesis
    proof (cases "\<exists>perm. lookup v (path_of cs) = Some (Directory perm)")
      case False
      then have "list_dir v (path_of cs) \<noteq> Ok es" for es
        using list_dir_file [OF v] Cons.prems(2) by blast
      then obtain err where "list_dir v (path_of cs) = Err err"
        by (cases "list_dir v (path_of cs)") auto
      moreover have "found v cs (seg # segs) = {}"
        using found_below [OF ok Cons.prems(1)] False by blast
      ultimately show ?thesis using glob by simp
    next
      case True
      then obtain es where es: "list_dir v (path_of cs) = Ok es"
        "de_name ` set es = {n. valid_name n \<and> lookup v (path_of (cs @ [n])) \<noteq> None}"
        using list_dir_names [OF v Cons.prems(1)] by blast
      let ?below = "\<lambda>n. let p = path_of (cs @ [n]) in if segs = [] then [p]
        else if is_dir v p then expand_glob_recursive v p segs else []"
      have below: "set (?below n) = found v (cs @ [n]) segs"
        if n: "valid_name n" "lookup v (path_of (cs @ [n])) \<noteq> None" for n
      proof -
        have valid: "list_all valid_name (cs @ [n])" using n(1) Cons.prems(1) by simp
        obtain e where "lookup v (path_of (cs @ [n])) = Some e" using n(2) by blast
        then have "normalize (path_of (cs @ [n])) = Ok (path_of (cs @ [n]))"
          by (rule tree_plain_normalize [OF v])
        from tree_plain_exists(2) [OF v this] found_below [OF ok valid, of segs]
          found_Nil [OF n(2)] Cons.IH [OF valid n(2)] Cons.prems(3)
        show ?thesis by (auto simp: Let_def)
      qed
      have "set (expand_glob_recursive v (path_of cs) (seg # segs)) =
          (\<Union>n \<in> de_name ` set es. if glob_match seg n then set (?below n) else {})"
        using glob es(1) by (auto simp: join_path_of [OF Cons.prems(1)] Let_def split: if_splits)
      also have "\<dots> = (\<Union>n \<in> de_name ` set es. if glob_match seg n then found v (cs @ [n]) segs else {})"
        unfolding es(2) using below by (intro SUP_cong refl if_cong) simp_all
      also have "\<dots> = (\<Union>n \<in> {n. segment_matches seg n \<and> valid_name n}. found v (cs @ [n]) segs)"
      proof (intro set_eqI iffI)
        fix x
        assume "x \<in> (\<Union>n \<in> {n. segment_matches seg n \<and> valid_name n}. found v (cs @ [n]) segs)"
        then obtain n where n: "segment_matches seg n" "valid_name n" "x \<in> found v (cs @ [n]) segs"
          by blast
        then have "lookup v (path_of (cs @ [n])) \<noteq> None"
          using found_missing [OF ok, of "cs @ [n]" segs] Cons.prems(1) by auto
        with n glob show "x \<in> (\<Union>n \<in> de_name ` set es.
            if glob_match seg n then found v (cs @ [n]) segs else {})"
          unfolding es(2) by (intro UN_I [of n]) (auto simp: segment_matches_def)
      qed (use glob in \<open>auto simp: segment_matches_def es(2) split: if_splits\<close>)
      finally show ?thesis by (simp add: found_Cons)
    qed
  qed
qed

lemma is_glob_char: "is_glob_pattern s \<Longrightarrow> \<exists>c \<in> set s. c \<in> {CHR ''*'', CHR ''?'', CHR ''[''}"
proof (induction s rule: is_glob_pattern.induct)
  case (2 c cs)
  then show ?case by (auto split: if_splits dest: in_set_dropD)
qed simp

lemma path_parts_Nil: "path_parts s = [] \<Longrightarrow> set s \<subseteq> {CHR ''/''}"
proof -
  assume "path_parts s = []"
  then have "\<forall>p \<in> set (split_on CHR ''/'' s). p = []" by (simp add: path_parts_def filter_empty_conv)
  moreover have "\<forall>p \<in> set ps. p = [] \<Longrightarrow> set (join_on c ps) \<subseteq> {c}" for c :: char and ps
    by (induction c ps rule: join_on.induct) auto
  ultimately show ?thesis by (metis join_on_split_on)
qed

section \<open>Properties\<close>

text \<open>C40. The expansion of an absolute pattern is the sorted list of exactly the paths of the file
  tree whose names match the pattern's segments one by one; without such a path it is the
  pattern itself. Segments without metacharacters are plain names.\<close>

theorem expand_glob_exact:
  assumes "tree_plain v" "starts_with pat ''/''" "is_glob_pattern pat"
    "list_all segment_plain (path_parts pat)"
  shows "sorted (expand_glob v cwd pat) \<and>
    set (expand_glob v cwd pat) =
      (if found v [] (path_parts pat) = {} then {pat} else found v [] (path_parts pat))"
proof -
  have "path_parts pat \<noteq> []"
    using path_parts_Nil [of pat] is_glob_char [OF assms(3)] by fastforce
  moreover define ms where "ms = sort (expand_glob_recursive v ''/'' (path_parts pat))"
  ultimately have code: "expand_glob v cwd pat = (if ms = [] then [pat] else ms)"
    using assms(2,3) by (simp add: expand_glob_def Let_def)
  have "lookup v (path_of []) \<noteq> None"
    using assms(1) by (simp add: tree_plain_def tree_ok_def)
  then have ms: "set ms = found v [] (path_parts pat)" "sorted ms"
    using expand_found [OF assms(1), of "[]" "path_parts pat"] assms(4) by (simp_all add: ms_def)
  then show ?thesis unfolding code by (cases "ms = []") auto
qed

definition vfs_new_paths :: "string list" where
  "vfs_new_paths = [''/'', ''/tools'', ''/workspace'', ''/tmp'', ''/log'', ''/bin'',
     ''/log/actions.jsonl'', ''/workspace/README.md'']"

lemma vfs_new_trimmed: "list_all (\<lambda>p. trim p = p) vfs_new_paths"
  by (simp add: vfs_new_paths_def trim_absolute whitespace_def)

lemma tree_plain_vfs_new: "tree_plain vfs_new"
  unfolding tree_plain_def
proof
  show "tree_ok vfs_new" by (rule tree_ok_vfs_new)
  have "p \<in> set vfs_new_paths" if "(p, e) \<in> set (entries vfs_new)" for p e
  proof -
    from that have "lookup vfs_new p \<noteq> None"
      unfolding lookup_def map_of_eq_None_iff by force
    then show ?thesis by (auto simp: lookup_vfs_new vfs_new_paths_def split: if_splits)
  qed
  then show "\<forall>(p, e) \<in> set (entries vfs_new). trim p = p"
    using vfs_new_trimmed by (auto simp: list_all_iff)
qed

theorem expand_glob_exact_witness:
  "set (expand_glob vfs_new ''/tmp'' ''/w*/READ??.md'') =
     (if found vfs_new [] [''w*'', ''READ??.md''] = {} then {''/w*/READ??.md''}
      else found vfs_new [] [''w*'', ''READ??.md''])"
proof -
  have parts: "path_parts ''/w*/READ??.md'' = [''w*'', ''READ??.md'']" by code_simp
  have "list_all segment_plain (path_parts ''/w*/READ??.md'')"
    unfolding parts by (simp add: segment_plain_def)
  then show ?thesis
    using expand_glob_exact [OF tree_plain_vfs_new, of "''/w*/READ??.md''" "''/tmp''"]
    unfolding parts by (simp add: starts_with_def)
qed

end
