(* ===== verification/Env.thy ===== *)
theory Env
  imports Prelude "HOL-Library.AList"
begin

text \<open>
  Environment variables of the shell and the expansion of \<open>$\<close> in a text,
  \<open>crates/amla-sandbox-shell/src/env.rs\<close>. The characters that steer the expansion are ASCII, so the
  scan by characters and the scan by bytes agree.
\<close>

section \<open>Definitions\<close>

type_synonym env = "(string \<times> string) list"

definition env_get :: "env \<Rightarrow> string \<Rightarrow> string option" where
  "env_get env name = map_of env name"

definition env_set :: "string \<Rightarrow> string \<Rightarrow> env \<Rightarrow> env" where
  "env_set name value env = AList.update name value env"

definition env_unset :: "string \<Rightarrow> env \<Rightarrow> env" where
  "env_unset name env = AList.delete name env"

definition env_contains :: "env \<Rightarrow> string \<Rightarrow> bool" where
  "env_contains env name = (map_of env name \<noteq> None)"

definition env_len :: "env \<Rightarrow> nat" where
  "env_len env = length env"

definition env_with_defaults :: env where
  "env_with_defaults =
     env_set ''PWD'' ''/'' (env_set ''SHELL'' ''/bin/sh'' (env_set ''HOME'' ''/home''
       (env_set ''PATH'' ''/bin:/usr/bin'' [])))"

text \<open>\<open>to_string\<close> of an \<open>i32\<close>.\<close>

definition show_int :: "int \<Rightarrow> string" where
  "show_int i = (if i < 0 then CHR ''-'' # show_nat (nat (- i)) else show_nat (nat i))"

definition is_digit :: "char \<Rightarrow> bool" where
  "is_digit c = (CHR ''0'' \<le> c \<and> c \<le> CHR ''9'')"

definition is_alpha :: "char \<Rightarrow> bool" where
  "is_alpha c = (c \<le> CHR ''Z'' \<and> CHR ''A'' \<le> c \<or> c \<le> CHR ''z'' \<and> CHR ''a'' \<le> c)"

definition is_name_char :: "char \<Rightarrow> bool" where
  "is_name_char c = (is_alpha c \<or> is_digit c \<or> c = CHR ''_'')"

text \<open>The value of a variable, nothing when it is not set.\<close>

definition value_of :: "env \<Rightarrow> string \<Rightarrow> string" where
  "value_of env name = (case env_get env name of Some v \<Rightarrow> v | None \<Rightarrow> [])"

definition value_or :: "env \<Rightarrow> string \<Rightarrow> string \<Rightarrow> string" where
  "value_or env name d = (case env_get env name of Some v \<Rightarrow> v | None \<Rightarrow> d)"

text \<open>The name up to a closing brace or the end, and the text after it.\<close>

definition braced_name :: "string \<Rightarrow> string \<times> string" where
  "braced_name cs = (takeWhile (\<lambda>c. c \<noteq> CHR ''}'') cs, drop 1 (dropWhile (\<lambda>c. c \<noteq> CHR ''}'') cs))"

text \<open>What stands after a dollar sign: the expansion and the text after it.\<close>

definition expand_dollar :: "env \<Rightarrow> int \<Rightarrow> string \<Rightarrow> string \<times> string" where
  "expand_dollar env last_exit cs =
     (case cs of
        [] \<Rightarrow> (''$'', cs)
      | c # ds \<Rightarrow>
          if c = CHR ''{'' then (let (name, rest) = braced_name ds in (value_of env name, rest))
          else if c = CHR ''?'' then (show_int last_exit, ds)
          else if c = CHR ''$'' then (''1'', ds)
          else if c = CHR ''!'' then (value_of env ''!'', ds)
          else if c = CHR ''0'' then (value_or env ''0'' ''sh'', ds)
          else if c = CHR ''#'' then (value_or env ''#'' ''0'', ds)
          else if c = CHR ''@'' \<or> c = CHR ''*'' then (value_of env ''@'', ds)
          else if is_digit c \<and> c \<noteq> CHR ''0'' then (value_of env [c], ds)
          else if is_alpha c \<or> c = CHR ''_'' then
            (value_of env (takeWhile is_name_char cs), dropWhile is_name_char cs)
          else (''$'', cs))"

lemma braced_name_shorter: "length (snd (braced_name cs)) \<le> length cs"
  using length_dropWhile_le [of "\<lambda>c. c \<noteq> CHR ''}''" cs] by (simp add: braced_name_def)

lemma expand_dollar_shorter: "expand_dollar env e cs = (out, rest) \<Longrightarrow> length rest \<le> length cs"
proof -
  have "length (snd (expand_dollar env e cs)) \<le> length cs"
  proof (cases cs)
    case (Cons c ds)
    have "length (snd (braced_name ds)) \<le> length cs" "length (dropWhile is_name_char cs) \<le> length cs"
      "length ds \<le> length cs"
      using braced_name_shorter [of ds] length_dropWhile_le [of is_name_char cs] Cons by simp_all
    then show ?thesis
      unfolding expand_dollar_def Let_def split_beta by (simp only: Cons list.case split: if_split) simp
  qed (simp add: expand_dollar_def)
  then show "expand_dollar env e cs = (out, rest) \<Longrightarrow> length rest \<le> length cs" by simp
qed

function expand :: "env \<Rightarrow> int \<Rightarrow> string \<Rightarrow> string" where
  "expand env last_exit [] = []"
| "expand env last_exit (c # cs) =
     (if c = CHR ''$'' then
        (let (out, rest) = expand_dollar env last_exit cs in out @ expand env last_exit rest)
      else c # expand env last_exit cs)"
  by pat_completeness auto
termination
  by (relation "measure (\<lambda>(env, e, s). length s)")
    (auto simp: less_Suc_eq_le dest: expand_dollar_shorter [OF sym])

declare expand.simps(2) [simp del]

section \<open>Facts\<close>

lemma expand_plain [simp]: "c \<noteq> CHR ''$'' \<Longrightarrow> expand env e (c # cs) = c # expand env e cs"
  by (simp add: expand.simps)

lemma expand_no_dollar: "CHR ''$'' \<notin> set s \<Longrightarrow> expand env e (s @ t) = s @ expand env e t"
  by (induction s) auto

lemma expand_id: "CHR ''$'' \<notin> set s \<Longrightarrow> expand env e s = s"
  using expand_no_dollar [of s env e "[]"] by simp

lemma expand_braced:
  assumes "CHR ''}'' \<notin> set name"
  shows "expand env e (''${'' @ name @ ''}'' @ t) = value_of env name @ expand env e t"
proof -
  have "braced_name (name @ CHR ''}'' # t) = (name, t)"
    using assms by (auto simp: braced_name_def takeWhile_append dropWhile_append)
  then show ?thesis by (simp add: expand.simps expand_dollar_def)
qed

lemma expand_name:
  assumes "name \<noteq> []" "is_alpha (hd name) \<or> hd name = CHR ''_''" "list_all is_name_char name"
    "t = [] \<or> \<not> is_name_char (hd t)"
  shows "expand env e (CHR ''$'' # name @ t) = value_of env name @ expand env e t"
proof -
  obtain c cs where name: "name = c # cs" using assms(1) by (cases name) auto
  have c: "is_alpha c \<or> c = CHR ''_''" using assms(2) name by simp
  have not_special: "c \<noteq> CHR ''{''" "c \<noteq> CHR ''?''" "c \<noteq> CHR ''$''" "c \<noteq> CHR ''!''" "c \<noteq> CHR ''0''"
    "c \<noteq> CHR ''#''" "c \<noteq> CHR ''@''" "c \<noteq> CHR ''*''" "\<not> is_digit c"
    using c by (auto simp: is_alpha_def is_digit_def less_eq_char_def)
  have "takeWhile is_name_char (name @ t) = name" "dropWhile is_name_char (name @ t) = t"
    using assms(3,4) by (cases t; auto simp: list_all_iff takeWhile_append dropWhile_append)+
  then have "expand_dollar env e (name @ t) = (value_of env name, t)"
    using c not_special by (simp add: expand_dollar_def name)
  then show ?thesis by (simp add: expand.simps)
qed

lemma env_get_set [simp]:
  "env_get (env_set k v env) k' = (if k' = k then Some v else env_get env k')"
  by (simp add: env_get_def env_set_def update_conv)

lemma env_get_unset [simp]:
  "env_get (env_unset k env) k' = (if k' = k then None else env_get env k')"
  by (simp add: env_get_def env_unset_def delete_conv)

section \<open>Properties\<close>

text \<open>Expansion is one pass: text without a dollar sign stays as it is, and the value of a
  variable is inserted as it is, without being expanded again, whatever it contains.\<close>

theorem expand_single_pass:
  assumes "CHR ''$'' \<notin> set s" "CHR ''}'' \<notin> set name"
  shows "expand (env_set name v env) e (s @ ''${'' @ name @ ''}'' @ t) =
    s @ v @ expand (env_set name v env) e t"
  using assms by (simp add: expand_no_dollar expand_braced [simplified] value_of_def)

theorem expand_single_pass_witness:
  "expand (env_set ''A'' ''${A}'' []) 0 ''x=${A}'' = ''x=${A}''"
  using expand_single_pass [of "''x=''" "''A''" "''${A}''" "[]" 0 "[]"] by simp

end
