(* ===== verification/Lexer.thy ===== *)
theory Lexer
  imports Env Vfs
begin

text \<open>
  The shell's lexer, \<open>crates/amla-sandbox-shell/src/lexer.rs\<close>. The state keeps the text from
  \<open>pos\<close> on (\<open>unread\<close>); \<open>pos\<close> is the length of the input less that of the unread text. The code
  goes by characters, the model by bytes: every character the lexer looks for is ASCII, so a
  character of several bytes is copied by both, byte by byte here. The one place where the code
  itself steps by bytes is the skipping of a comment, where slicing inside a character panics.
\<close>

section \<open>Words and tokens\<close>

record word_segment =
  seg_text :: string
  expand_vars :: bool
  expand_globs :: bool
  command_substitution :: "string option"

definition unquoted :: "string \<Rightarrow> word_segment" where
  "unquoted s = \<lparr>seg_text = s, expand_vars = True, expand_globs = True, command_substitution = None\<rparr>"

definition single_quoted :: "string \<Rightarrow> word_segment" where
  "single_quoted s =
     \<lparr>seg_text = s, expand_vars = False, expand_globs = False, command_substitution = None\<rparr>"

definition double_quoted :: "string \<Rightarrow> word_segment" where
  "double_quoted s =
     \<lparr>seg_text = s, expand_vars = True, expand_globs = False, command_substitution = None\<rparr>"

definition substituted :: "string \<Rightarrow> word_segment" where
  "substituted cmd =
     \<lparr>seg_text = [], expand_vars = False, expand_globs = False, command_substitution = Some cmd\<rparr>"

type_synonym shell_word = "word_segment list"

definition word_text :: "shell_word \<Rightarrow> string" where
  "word_text w = concat (map seg_text w)"

definition has_glob_expansion :: "shell_word \<Rightarrow> bool" where
  "has_glob_expansion w = list_ex expand_globs w"

datatype token =
    TWord shell_word
  | TPipe
  | TAnd
  | TOr
  | TSemi
  | TAmp
  | TRedirectOut
  | TRedirectAppend
  | TRedirectIn
  | THereDoc string bool
  | TRedirectErr
  | TRedirectErrAppend
  | TRedirectBoth
  | TDupFd int int
  | TLParen
  | TRParen
  | TNewline
  | TEof

text \<open>A syntax error carries its message, of which the text is the rendering, and the position; an
  index that is not a character boundary is a panic of the code.\<close>

datatype syntax_message =
    HeredocRequiresDelimiter
  | HeredocDelimiterNotFound string
  | UnclosedDelimiterQuote
  | ExpectedCommand
  | ExpectedWord token
  | ExpectedToken token token
  | NestedPipeline

datatype shell_error =
    CommandNotFound string
  | Syntax syntax_message nat
  | RedirectError string
  | ArgError string
  | Panicked

record lexer =
  lex_input :: string
  unread :: string
  peeked :: "token option"

definition lexer_new :: "string \<Rightarrow> lexer" where
  "lexer_new s = \<lparr>lex_input = s, unread = s, peeked = None\<rparr>"

definition lex_position :: "lexer \<Rightarrow> nat" where
  "lex_position l = length (lex_input l) - length (unread l)"

section \<open>Reading parts of a text\<close>

definition prepend :: "string \<Rightarrow> string \<times> string \<Rightarrow> string \<times> string" where
  "prepend p x = (p @ fst x, snd x)"

definition skip_whitespace :: "string \<Rightarrow> string" where
  "skip_whitespace = dropWhile (\<lambda>c. c = CHR '' '' \<or> c = CHR 0x09 \<or> c = CHR 0x0D)"

text \<open>The bytes 0x80 to 0xBF continue a character.\<close>

definition is_continuation :: "char \<Rightarrow> bool" where
  "is_continuation c = (let n = of_char c :: nat in 0x80 \<le> n \<and> n < 0xC0)"

text \<open>\<open>self.input[self.pos..].starts_with('\n')\<close>, then \<open>self.pos += 1\<close>.\<close>

fun skip_comment :: "string \<Rightarrow> (string, shell_error) result" where
  "skip_comment [] = Ok []"
| "skip_comment (c # cs) =
     (if is_continuation c then Err Panicked
      else if c = CHR 0x0A then Ok (c # cs)
      else skip_comment cs)"

text \<open>\<open>parse::<i32>\<close> of a non-empty string of digits.\<close>

definition parse_i32 :: "string \<Rightarrow> int option" where
  "parse_i32 ds =
     (case read_digits 0 ds of
        Some n \<Rightarrow> if n < 2 ^ 31 then Some (int n) else None
      | None \<Rightarrow> None)"

definition try_lex_fd_dup :: "string \<Rightarrow> (token \<times> string) option" where
  "try_lex_fd_dup remaining =
     (let source_str = takeWhile is_digit remaining;
          r = dropWhile is_digit remaining
      in if source_str = [] then None
         else if \<not> starts_with r ''>&'' then None
         else
           (let r = drop 2 r;
                target_str = takeWhile is_digit r
            in if target_str = [] then None
               else (case (parse_i32 source_str, parse_i32 target_str) of
                   (Some source, Some target) \<Rightarrow> Some (TDupFd source target, dropWhile is_digit r)
                 | _ \<Rightarrow> None)))"

subsection \<open>Here documents\<close>

definition starts_whitespace :: "string \<Rightarrow> bool" where
  "starts_whitespace s = list_ex (\<lambda>w. w \<noteq> [] \<and> prefix w s) whitespace"

fun unquoted_delimiter :: "string \<Rightarrow> string \<times> string" where
  "unquoted_delimiter [] = ([], [])"
| "unquoted_delimiter (c # cs) =
     (if starts_whitespace (c # cs) \<or> c = CHR 0x0A then ([], c # cs)
      else prepend [c] (unquoted_delimiter cs))"

text \<open>The delimiter and the text after it; \<open>None\<close> is the unclosed quote.\<close>

definition read_heredoc_delimiter :: "string \<Rightarrow> (string \<times> string) option" where
  "read_heredoc_delimiter s =
     (case s of
        [] \<Rightarrow> Some ([], [])
      | c # cs \<Rightarrow>
          if c = CHR 0x27 \<or> c = CHR 0x22 then
            (if c \<in> set cs
             then Some (takeWhile (\<lambda>x. x \<noteq> c) cs, drop 1 (dropWhile (\<lambda>x. x \<noteq> c) cs))
             else None)
          else Some (unquoted_delimiter s))"

definition trim_end :: "string \<Rightarrow> string" where
  "trim_end s = rev (strip_start (map rev whitespace) (rev s))"

definition trim_tabs :: "string \<Rightarrow> string" where
  "trim_tabs = dropWhile (\<lambda>c. c = CHR 0x09)"

text \<open>The lines before the delimiter line and those after it.\<close>

fun find_delimiter :: "bool \<Rightarrow> string \<Rightarrow> string list \<Rightarrow> (string list \<times> string list) option" where
  "find_delimiter strip_tabs delimiter [] = None"
| "find_delimiter strip_tabs delimiter (line # ls) =
     (let trimmed = (if strip_tabs then trim_tabs line else line)
      in if trimmed = delimiter \<or> trim_end trimmed = delimiter then Some ([], ls)
         else map_option (\<lambda>(a, b). (line # a, b)) (find_delimiter strip_tabs delimiter ls))"

text \<open>\<open>str::lines\<close> of a text whose lines all end in a newline.\<close>

definition strip_cr :: "string \<Rightarrow> string" where
  "strip_cr line = (if line \<noteq> [] \<and> last line = CHR 0x0D then butlast line else line)"

definition pop_newline :: "string \<Rightarrow> string" where
  "pop_newline s = (if s \<noteq> [] \<and> last s = CHR 0x0A then butlast s else s)"

definition heredoc_content :: "bool \<Rightarrow> string list \<Rightarrow> string" where
  "heredoc_content strip_tabs ls =
     pop_newline
       (if strip_tabs then join_on CHR 0x0A (map (trim_tabs \<circ> strip_cr) ls)
        else concat (map (\<lambda>l. l @ [CHR 0x0A]) ls))"

text \<open>\<open>lex_heredoc\<close> after the delimiter, and after the two less-than signs: an error comes with the
  text unread at it.\<close>

definition heredoc_body ::
  "bool \<Rightarrow> string \<Rightarrow> string \<Rightarrow> (token \<times> string, syntax_message \<times> string) result" where
  "heredoc_body strip_tabs delimiter s =
     (if delimiter = [] then Err (HeredocRequiresDelimiter, s)
      else if CHR 0x0A \<notin> set s then Ok (THereDoc [] strip_tabs, s)
      else
        (let remaining = drop 1 (dropWhile (\<lambda>c. c \<noteq> CHR 0x0A) s)
         in case find_delimiter strip_tabs delimiter (split_on CHR 0x0A remaining) of
              None \<Rightarrow> Err (HeredocDelimiterNotFound delimiter, s)
            | Some (ls, after) \<Rightarrow>
                Ok (THereDoc (heredoc_content strip_tabs ls) strip_tabs,
                  join_on CHR 0x0A after)))"

definition lex_heredoc :: "string \<Rightarrow> (token \<times> string, syntax_message \<times> string) result" where
  "lex_heredoc s =
     (let strip_tabs = starts_with s ''-'';
          s = (if strip_tabs then drop 1 s else s)
      in case read_heredoc_delimiter (dropWhile (\<lambda>c. c = CHR '' '' \<or> c = CHR 0x09) s) of
           None \<Rightarrow> Err (UnclosedDelimiterQuote, [])
         | Some (delimiter, s) \<Rightarrow> heredoc_body strip_tabs delimiter s)"

subsection \<open>Command substitution\<close>

text \<open>A single-quoted part with its closing quote, after the opening one.\<close>

definition copy_single :: "string \<Rightarrow> string \<times> string" where
  "copy_single cs =
     (let rest = dropWhile (\<lambda>c. c \<noteq> CHR 0x27) cs
      in (takeWhile (\<lambda>c. c \<noteq> CHR 0x27) cs @ take 1 rest, drop 1 rest))"

fun copy_double :: "string \<Rightarrow> string \<times> string" where
  "copy_double [] = ([], [])"
| "copy_double (c # cs) =
     (if c = CHR 0x22 then ([c], cs)
      else if c = CHR 0x5C then
        (case cs of [] \<Rightarrow> ([c], []) | esc # ds \<Rightarrow> prepend [c, esc] (copy_double ds))
      else prepend [c] (copy_double cs))"

lemma prepend_simps [simp]: "fst (prepend p x) = p @ fst x" "snd (prepend p x) = snd x"
  by (simp_all add: prepend_def)

lemma copy_single_shorter: "length (snd (copy_single cs)) \<le> length cs"
  using length_dropWhile_le [of "\<lambda>c. c \<noteq> CHR 0x27" cs] by (simp add: copy_single_def Let_def)

lemma copy_double_shorter: "length (snd (copy_double cs)) \<le> length cs"
proof (induction cs rule: copy_double.induct)
  case (2 c cs)
  show ?case
  proof (cases "c = CHR 0x5C \<and> cs \<noteq> []")
    case True
    then obtain esc ds where "cs = esc # ds" by (cases cs) auto
    with True 2(1) show ?thesis by (simp add: le_SucI)
  next
    case False
    with 2(2) show ?thesis by (cases cs) auto
  qed
qed simp

lemma copy_pairs:
  "(q, rest) = copy_single cs \<Longrightarrow> length rest \<le> length cs"
  "(q, rest) = copy_double cs \<Longrightarrow> length rest \<le> length cs"
  using copy_single_shorter [of cs] copy_double_shorter [of cs] by (metis snd_conv)+

function lex_command_substitution :: "nat \<Rightarrow> string \<Rightarrow> string \<times> string" where
  "lex_command_substitution nest [] = ([], [])"
| "lex_command_substitution nest (c # cs) =
     (if nest = 0 then ([], c # cs)
      else if c = CHR ''('' then prepend [c] (lex_command_substitution (nest + 1) cs)
      else if c = CHR '')'' then
        prepend (if nest - 1 > 0 then [c] else []) (lex_command_substitution (nest - 1) cs)
      else if starts_with (c # cs) ''$('' then
        prepend ''$('' (lex_command_substitution (nest + 1) (drop 1 cs))
      else if c = CHR 0x27 then
        (let (q, rest) = copy_single cs in prepend (c # q) (lex_command_substitution nest rest))
      else if c = CHR 0x22 then
        (let (q, rest) = copy_double cs in prepend (c # q) (lex_command_substitution nest rest))
      else if c = CHR 0x5C then
        (case cs of
           [] \<Rightarrow> ([c], [])
         | esc # ds \<Rightarrow> prepend [c, esc] (lex_command_substitution nest ds))
      else prepend [c] (lex_command_substitution nest cs))"
  by pat_completeness auto
termination
proof (relation "measure (\<lambda>(d, s). length s)")
  fix nest c cs x q rest
  show "x = copy_single cs \<Longrightarrow> (q, rest) = x \<Longrightarrow>
      ((nest, rest), nest, c # cs) \<in> measure (\<lambda>(d, s). length s)"
    by (auto dest: copy_pairs)
  show "x = copy_double cs \<Longrightarrow> (q, rest) = x \<Longrightarrow>
      ((nest, rest), nest, c # cs) \<in> measure (\<lambda>(d, s). length s)"
    by (auto dest: copy_pairs)
qed auto

declare lex_command_substitution.simps(2) [simp del]

lemma substitution_shorter: "length (snd (lex_command_substitution d s)) \<le> length s"
proof (induction s arbitrary: d rule: length_induct)
  case (1 s)
  show ?case
  proof (cases s)
    case (Cons c cs)
    have IH: "length t \<le> length cs \<Longrightarrow> length (snd (lex_command_substitution d t)) \<le> Suc (length cs)"
      for d t
      using 1 Cons by (metis le_SucI le_imp_less_Suc length_Cons order_trans)
    show ?thesis
      unfolding Cons
      by (subst lex_command_substitution.simps)
        (simp add: IH Let_def split_beta list.case_eq_if copy_single_shorter copy_double_shorter)
  qed simp
qed

lemma substitution_pair:
  "(cmd, rest) = lex_command_substitution d (drop (Suc 0) cs) \<Longrightarrow> length rest \<le> length cs"
  using substitution_shorter [of d "drop (Suc 0) cs"] by (metis snd_conv diff_le_self length_drop order_trans)

subsection \<open>Words\<close>

text \<open>\<open>flush_segment\<close>; the expansion flags of unquoted text are always set.\<close>

definition flush_segment :: "shell_word \<Rightarrow> string \<Rightarrow> shell_word" where
  "flush_segment word text = (if text \<noteq> [] then word @ [unquoted text] else word)"

definition is_terminator :: "char \<Rightarrow> bool" where
  "is_terminator c = (c \<in> {CHR '' '', CHR 0x09, CHR 0x0A, CHR 0x0D, CHR ''|'', CHR ''&'',
     CHR '';'', CHR ''>'', CHR ''<'', CHR ''('', CHR '')''})"

text \<open>The text between double quotes, after the opening one: the word so far, the quoted text so far,
  the text to read; the closing quote may be missing.\<close>

function lex_double :: "shell_word \<Rightarrow> string \<Rightarrow> string \<Rightarrow> shell_word \<times> string" where
  "lex_double word quoted [] = (word @ [double_quoted quoted], [])"
| "lex_double word quoted (c # cs) =
     (if c = CHR 0x22 then (word @ [double_quoted quoted], cs)
      else if starts_with (c # cs) ''$('' then
        (let word = (if quoted \<noteq> [] then word @ [double_quoted quoted] else word);
             (cmd, rest) = lex_command_substitution 1 (drop 1 cs)
         in lex_double (word @ [substituted cmd]) [] rest)
      else if c = CHR 0x5C then
        (case cs of
           [] \<Rightarrow> lex_double word quoted []
         | esc # ds \<Rightarrow>
             lex_double word
               (quoted @ (if esc \<in> {CHR ''$'', CHR 0x60, CHR 0x22, CHR 0x5C, CHR 0x0A} then [esc]
                  else [CHR 0x5C, esc])) ds)
      else lex_double word (quoted @ [c]) cs)"
  by pat_completeness auto
termination
proof (relation "measure (\<lambda>(w, q, s). length s)")
  fix word word' :: shell_word and quoted :: string and c :: char and cs x cmd rest
  show "x = lex_command_substitution 1 (drop 1 cs) \<Longrightarrow> (cmd, rest) = x \<Longrightarrow>
      ((word' @ [substituted cmd], [], rest), word, quoted, c # cs)
        \<in> measure (\<lambda>(w, q, s). length s)"
    by (auto dest: substitution_pair)
qed auto

declare lex_double.simps(2) [simp del]

lemma lex_double_shorter: "length (snd (lex_double w q s)) \<le> length s"
proof (induction s arbitrary: w q rule: length_induct)
  case (1 s)
  show ?case
  proof (cases s)
    case (Cons c cs)
    have IH: "length t \<le> length cs \<Longrightarrow> length (snd (lex_double w q t)) \<le> Suc (length cs)" for w q t
      using 1 Cons by (metis le_SucI le_imp_less_Suc length_Cons order_trans)
    have "length (snd (lex_command_substitution d (drop 1 cs))) \<le> length cs" for d
      using substitution_shorter [of d "drop 1 cs"] by simp
    then show ?thesis
      unfolding Cons
      by (subst lex_double.simps) (simp add: IH Let_def split_beta list.case_eq_if)
  qed simp
qed

lemma lex_double_pair:
  "(word', rest) = lex_double word q cs \<Longrightarrow> length rest \<le> length cs"
  using lex_double_shorter [of word q cs] by (metis snd_conv)

text \<open>The loop of \<open>lex_word\<close>: the word so far and the unquoted text not yet flushed.\<close>

function lex_word :: "shell_word \<Rightarrow> string \<Rightarrow> string \<Rightarrow> shell_word \<times> string" where
  "lex_word word current [] = (flush_segment word current, [])"
| "lex_word word current (c # cs) =
     (if is_terminator c then (flush_segment word current, c # cs)
      else if c = CHR 0x5C then
        (case cs of
           [] \<Rightarrow> lex_word word current []
         | esc # ds \<Rightarrow> lex_word word (current @ [esc]) ds)
      else if c = CHR 0x27 then
        lex_word
          (flush_segment word current @ [single_quoted (takeWhile (\<lambda>x. x \<noteq> CHR 0x27) cs)]) []
          (drop 1 (dropWhile (\<lambda>x. x \<noteq> CHR 0x27) cs))
      else if c = CHR 0x22 then
        (let (word, rest) = lex_double (flush_segment word current) [] cs in lex_word word [] rest)
      else if starts_with (c # cs) ''$('' then
        (let (cmd, rest) = lex_command_substitution 1 (drop 1 cs)
         in lex_word (flush_segment word current @ [substituted cmd]) [] rest)
      else lex_word word (current @ [c]) cs)"
  by pat_completeness auto
termination
proof (relation "measure (\<lambda>(w, q, s). length s)")
  fix word word' :: shell_word and current :: string and c :: char and cs x cmd rest y
  show "((word', [], drop 1 (dropWhile (\<lambda>x. x \<noteq> CHR 0x27) cs)), word, current, c # cs)
      \<in> measure (\<lambda>(w, q, s). length s)"
    using length_dropWhile_le [of "\<lambda>x. x \<noteq> CHR 0x27" cs] by simp
  show "x = lex_command_substitution 1 (drop 1 cs) \<Longrightarrow> (cmd, rest) = x \<Longrightarrow>
      ((word', [], rest), word, current, c # cs) \<in> measure (\<lambda>(w, q, s). length s)"
    by (auto dest: substitution_pair)
  show "y = lex_double (flush_segment word current) [] cs \<Longrightarrow> (word', rest) = y \<Longrightarrow>
      ((word', [], rest), word, current, c # cs) \<in> measure (\<lambda>(w, q, s). length s)"
    by (auto dest: lex_double_pair)
qed auto

declare lex_word.simps(2) [simp del]

lemma lex_word_shorter: "length (snd (lex_word w q s)) \<le> length s"
proof (induction s arbitrary: w q rule: length_induct)
  case (1 s)
  show ?case
  proof (cases s)
    case (Cons c cs)
    have IH: "length t \<le> length cs \<Longrightarrow> length (snd (lex_word w q t)) \<le> Suc (length cs)" for w q t
      using 1 Cons by (metis le_SucI le_imp_less_Suc length_Cons order_trans)
    have "length (snd (lex_command_substitution d (drop 1 cs))) \<le> length cs" for d
      using substitution_shorter [of d "drop 1 cs"] by simp
    moreover have "length (drop 1 (dropWhile (\<lambda>x. x \<noteq> CHR 0x27) cs)) \<le> length cs"
      using length_dropWhile_le [of "\<lambda>x. x \<noteq> CHR 0x27" cs] by simp
    ultimately show ?thesis
      unfolding Cons
      by (subst lex_word.simps)
        (simp add: IH Let_def split_beta list.case_eq_if lex_double_shorter)
  qed simp
qed

section \<open>Tokens\<close>

lemma skip_whitespace_shorter: "length (skip_whitespace s) \<le> length s"
  by (simp add: skip_whitespace_def length_dropWhile_le)

lemma skip_comment_shorter: "skip_comment s = Ok r \<Longrightarrow> length r \<le> length s"
  by (induction s) (auto split: if_splits)

text \<open>The tests of \<open>next_token\<close> in their order: operators of several characters, duplications of a
  descriptor and redirections of the error stream first, then here documents, then operators of
  one character, then comments and words.\<close>

definition lex_multi :: "string \<Rightarrow> (token \<times> string) option" where
  "lex_multi remaining =
     (if starts_with remaining ''&&'' then Some (TAnd, drop 2 remaining)
      else if starts_with remaining ''||'' then Some (TOr, drop 2 remaining)
      else if starts_with remaining ''>>'' then Some (TRedirectAppend, drop 2 remaining)
      else if starts_with remaining ''&>'' then Some (TRedirectBoth, drop 2 remaining)
      else (case try_lex_fd_dup remaining of
          Some x \<Rightarrow> Some x
        | None \<Rightarrow>
            if starts_with remaining ''2>>'' then Some (TRedirectErrAppend, drop 3 remaining)
            else if starts_with remaining ''2>'' then Some (TRedirectErr, drop 2 remaining)
            else None))"

definition lex_single :: "char \<Rightarrow> token option" where
  "lex_single c =
     (if c = CHR ''|'' then Some TPipe
      else if c = CHR '';'' then Some TSemi
      else if c = CHR ''&'' then Some TAmp
      else if c = CHR ''>'' then Some TRedirectOut
      else if c = CHR ''<'' then Some TRedirectIn
      else if c = CHR ''('' then Some TLParen
      else if c = CHR '')'' then Some TRParen
      else if c = CHR 0x0A then Some TNewline
      else None)"

function next_token :: "lexer \<Rightarrow> (token \<times> lexer, shell_error) result" where
  "next_token l =
     (case skip_whitespace (unread l) of
        [] \<Rightarrow> Ok (TEof, l\<lparr>unread := []\<rparr>)
      | c # cs \<Rightarrow>
          (case lex_multi (c # cs) of
             Some (t, rest) \<Rightarrow> Ok (t, l\<lparr>unread := rest\<rparr>)
           | None \<Rightarrow>
               if starts_with (c # cs) ''<<'' then
                 (case lex_heredoc (drop 1 cs) of
                    Inr (t, rest) \<Rightarrow> Ok (t, l\<lparr>unread := rest\<rparr>)
                  | Inl (m, rest) \<Rightarrow> Err (Syntax m (length (lex_input l) - length rest)))
               else (case lex_single c of
                   Some t \<Rightarrow> Ok (t, l\<lparr>unread := cs\<rparr>)
                 | None \<Rightarrow>
                     if c = CHR ''#'' then
                       (case skip_comment cs of
                          Inl e \<Rightarrow> Err e
                        | Inr rest \<Rightarrow> next_token (l\<lparr>unread := rest\<rparr>))
                     else (let (word, rest) = lex_word [] [] (c # cs)
                       in Ok (TWord word, l\<lparr>unread := rest\<rparr>)))))"
  by pat_completeness auto
termination
proof (relation "measure (\<lambda>l. length (unread l))")
  fix l :: lexer and c cs rest
  assume "skip_whitespace (unread l) = c # cs" "skip_comment cs = Inr rest"
  then have "Suc (length cs) \<le> length (unread l)" "length rest \<le> length cs"
    using skip_whitespace_shorter [of "unread l"] skip_comment_shorter [of cs rest]
    by (metis length_Cons, simp)
  then show "(l\<lparr>unread := rest\<rparr>, l) \<in> measure (\<lambda>l. length (unread l))" by simp
qed auto

declare next_token.simps [simp del]

definition lex_peek :: "lexer \<Rightarrow> (token \<times> lexer, shell_error) result" where
  "lex_peek l =
     (case peeked l of
        Some t \<Rightarrow> Ok (t, l)
      | None \<Rightarrow> map_ok (\<lambda>(t, l). (t, l\<lparr>peeked := Some t\<rparr>)) (next_token l))"

definition lex_next :: "lexer \<Rightarrow> (token \<times> lexer, shell_error) result" where
  "lex_next l =
     (case peeked l of
        Some t \<Rightarrow> Ok (t, l\<lparr>peeked := None\<rparr>)
      | None \<Rightarrow> next_token l)"

definition at_end :: "lexer \<Rightarrow> (bool \<times> lexer, shell_error) result" where
  "at_end l = map_ok (\<lambda>(t, l). (t = TEof, l)) (lex_peek l)"

end
