(* ===== verification/LexerSound.thy ===== *)
theory LexerSound
  imports Lexer
begin

text \<open>
  What the lexer guarantees: every token but the last takes text, a quoted argument comes through as
  one word that is not expanded, a here document is read back as it was written. And where it
  departs from a shell: a backslash protects nothing, the text after a here-document delimiter is
  lost, a comment with a character outside ASCII panics.
\<close>

section \<open>Progress\<close>

lemma lex_word_progress:
  assumes "\<not> is_terminator c"
  shows "length (snd (lex_word w q (c # cs))) \<le> length cs"
proof -
  have "length (drop 1 (dropWhile (\<lambda>x. x \<noteq> CHR 0x27) cs)) \<le> length cs"
    "length (snd (lex_command_substitution 1 (drop 1 cs))) \<le> length cs"
    using length_dropWhile_le [of "\<lambda>x. x \<noteq> CHR 0x27" cs] substitution_shorter [of 1 "drop 1 cs"]
    by simp_all
  note le = this [THEN order_trans [OF lex_word_shorter]] lex_word_shorter
    order_trans [OF lex_word_shorter lex_double_shorter]
  have "length (snd (lex_word w q (tl cs))) \<le> length cs" for w q
    using lex_word_shorter [of w q "tl cs"] by simp
  with assms le show ?thesis
    by (subst lex_word.simps) (simp add: Let_def split_beta list.case_eq_if)
qed

lemma try_lex_fd_dup_shorter:
  "try_lex_fd_dup s = Some (t, rest) \<Longrightarrow> length rest < length s"
proof -
  assume fd: "try_lex_fd_dup s = Some (t, rest)"
  let ?r = "dropWhile is_digit s"
  from fd have "starts_with ?r ''>&''" "rest = dropWhile is_digit (drop 2 ?r)"
    by (auto simp: try_lex_fd_dup_def Let_def split: if_splits option.splits)
  then have "length rest \<le> length (drop 2 ?r)" "2 \<le> length ?r"
    using length_dropWhile_le [of is_digit "drop 2 ?r"] by (auto simp: starts_with_append)
  then show ?thesis using length_dropWhile_le [of is_digit s] by simp
qed

lemma unquoted_delimiter_shorter: "length (snd (unquoted_delimiter s)) \<le> length s"
  by (induction s) auto

lemma read_delimiter_shorter:
  assumes "read_heredoc_delimiter s = Some (d, rest)"
  shows "length rest \<le> length s"
proof (cases s)
  case (Cons c cs)
  have "length (drop 1 (dropWhile (\<lambda>x. x \<noteq> c) cs)) \<le> length cs"
    using length_dropWhile_le [of "\<lambda>x. x \<noteq> c" cs] by simp
  moreover have "rest = drop 1 (dropWhile (\<lambda>x. x \<noteq> c) cs) \<or> rest = snd (unquoted_delimiter s)"
    using assms unfolding read_heredoc_delimiter_def Cons
    by (simp del: unquoted_delimiter.simps split: if_splits)
  ultimately show ?thesis using unquoted_delimiter_shorter [of s] Cons by auto
qed (use assms in \<open>simp add: read_heredoc_delimiter_def\<close>)

lemma find_delimiter_append:
  "find_delimiter b d ls = Some (before, after) \<Longrightarrow> \<exists>line. ls = before @ line # after"
  by (induction ls arbitrary: before) (auto simp: Let_def split: if_splits)

lemma length_join_on: "length (join_on c ps) = sum_list (map length ps) + (length ps - 1)"
proof (induction ps)
  case (Cons p ps)
  then show ?case by (cases ps) (simp_all add: join_on_Cons)
qed simp

lemma length_join_suffix: "length (join_on c bs) \<le> length (join_on c (as @ b # bs))"
  by (simp add: length_join_on)

lemma heredoc_body_shorter:
  assumes "heredoc_body b d s = Ok (t, rest)"
  shows "length rest \<le> length s"
proof (cases "CHR 0x0A \<in> set s")
  case True
  let ?lines = "drop 1 (dropWhile (\<lambda>c. c \<noteq> CHR 0x0A) s)"
  from assms True obtain before after where f: "rest = join_on CHR 0x0A after"
    "find_delimiter b d (split_on CHR 0x0A ?lines) = Some (before, after)"
    by (auto simp: heredoc_body_def Let_def split: if_splits option.splits)
  from find_delimiter_append [OF f(2)] obtain line where
    "split_on CHR 0x0A ?lines = before @ line # after" ..
  then have "?lines = join_on CHR 0x0A (before @ line # after)" by (metis join_on_split_on)
  then have "length rest \<le> length ?lines" unfolding f(1) by (simp only: length_join_suffix)
  also have "\<dots> \<le> length s" using length_dropWhile_le [of "\<lambda>c. c \<noteq> CHR 0x0A" s] by simp
  finally show ?thesis .
qed (use assms in \<open>auto simp: heredoc_body_def split: if_splits\<close>)

lemma lex_heredoc_shorter:
  assumes "lex_heredoc s = Ok (t, rest)"
  shows "length rest \<le> length s"
proof -
  define s1 where "s1 = (if starts_with s ''-'' then drop 1 s else s)"
  define s2 where "s2 = dropWhile (\<lambda>c. c = CHR '' '' \<or> c = CHR 0x09) s1"
  from assms obtain d s3 where d: "read_heredoc_delimiter s2 = Some (d, s3)"
    "heredoc_body (starts_with s ''-'') d s3 = Ok (t, rest)"
    unfolding lex_heredoc_def Let_def s1_def [symmetric] s2_def [symmetric]
    by (auto split: option.splits)
  have "length s2 \<le> length s1" unfolding s2_def by (rule length_dropWhile_le)
  moreover have "length s1 \<le> length s" by (simp add: s1_def)
  ultimately show ?thesis
    using read_delimiter_shorter [OF d(1)] heredoc_body_shorter [OF d(2)] by linarith
qed

lemma starts_length: "starts_with s p \<Longrightarrow> length p \<le> length s"
  by (auto simp: starts_with_append)

lemma lex_multi_shorter: "lex_multi s = Some (t, rest) \<Longrightarrow> length rest < length s"
  using try_lex_fd_dup_shorter [of s t rest]
  by (auto simp: lex_multi_def dest!: starts_length split: if_splits option.splits)

lemma skip_whitespace_hd: "skip_whitespace s = c # cs \<Longrightarrow> c \<noteq> CHR '' '' \<and> c \<noteq> CHR 0x09 \<and> c \<noteq> CHR 0x0D"
  using hd_dropWhile [of "\<lambda>c. c = CHR '' '' \<or> c = CHR 0x09 \<or> c = CHR 0x0D" s]
  by (simp add: skip_whitespace_def)

lemma lex_single_terminator:
  "lex_single c = None \<Longrightarrow> skip_whitespace s = c # cs \<Longrightarrow> \<not> is_terminator c"
  by (drule skip_whitespace_hd) (auto simp: lex_single_def is_terminator_def split: if_splits)

lemma next_token_progress:
  "next_token l = Ok (t, l') \<Longrightarrow> lex_input l' = lex_input l \<and> peeked l' = peeked l \<and>
     (t = TEof \<and> unread l' = [] \<or> length (unread l') < length (unread l))"
proof (induction l rule: next_token.induct)
  case (1 l)
  note nt = "1.prems" [unfolded next_token.simps [of l]]
  show ?case
  proof (cases "skip_whitespace (unread l)")
    case Nil
    with nt show ?thesis by auto
  next
    case (Cons c cs)
    have len: "Suc (length cs) \<le> length (unread l)"
      using skip_whitespace_shorter [of "unread l"] Cons by simp
    note nt = nt [unfolded Cons list.case]
    show ?thesis
    proof (cases "lex_multi (c # cs)")
      case (Some x)
      with nt len lex_multi_shorter [of "c # cs" "fst x" "snd x"] show ?thesis
        by (cases x) auto
    next
      case multi: None
      show ?thesis
      proof (cases "starts_with (c # cs) ''<<''")
        case True
        with nt multi len lex_heredoc_shorter [of "drop 1 cs"] show ?thesis
          by (fastforce split: sum.splits)
      next
        case heredoc: False
        show ?thesis
        proof (cases "lex_single c")
          case (Some x)
          with nt multi heredoc len show ?thesis by auto
        next
          case single: None
          show ?thesis
          proof (cases "c = CHR ''#''")
            case True
            with nt multi heredoc single obtain r where r: "skip_comment cs = Ok r"
              "next_token (l\<lparr>unread := r\<rparr>) = Ok (t, l')"
              by (auto split: sum.splits)
            from "1.IH" [OF Cons multi heredoc single True r] len skip_comment_shorter [OF r(1)]
            show ?thesis by auto
          next
            case False
            with nt multi heredoc single len
              lex_word_progress [OF lex_single_terminator [OF single Cons], of "[]" "[]" cs]
            show ?thesis by (auto simp: split_beta Let_def)
          qed
        qed
      qed
    qed
  qed
qed

section \<open>All tokens of a text\<close>

function tokens :: "lexer \<Rightarrow> (token list, shell_error) result" where
  "tokens l =
     (case next_token l of
        Inl e \<Rightarrow> Err e
      | Inr (t, l') \<Rightarrow> if t = TEof then Ok [] else map_ok (\<lambda>ts. t # ts) (tokens l'))"
  by pat_completeness auto
termination
  by (relation "measure (\<lambda>l. length (unread l))") (auto dest: next_token_progress)

declare tokens.simps [simp del]

lemma tokens_length: "tokens l = Ok ts \<Longrightarrow> length ts \<le> length (unread l)"
proof (induction l arbitrary: ts rule: tokens.induct)
  case (1 l)
  from "1.prems" obtain t l' where nt: "next_token l = Ok (t, l')"
    by (subst (asm) tokens.simps) (auto split: sum.splits)
  show ?case
  proof (cases "t = TEof")
    case True
    with "1.prems" nt show ?thesis by (simp add: tokens.simps [of l])
  next
    case False
    with "1.prems" nt obtain us where us: "tokens l' = Ok us" "ts = t # us"
      by (auto simp: tokens.simps [of l])
    from "1.IH" [OF nt refl False us(1)] next_token_progress [OF nt] False us(2)
    show ?thesis by simp
  qed
qed

section \<open>Quoting\<close>

text \<open>A shell's way to quote any text: single quotes around it, each single quote in it replaced by
  a closing quote, an escaped quote and an opening one.\<close>

definition quote_char :: "char \<Rightarrow> string" where
  "quote_char c = (if c = CHR 0x27 then [CHR 0x27, CHR 0x5C, CHR 0x27, CHR 0x27] else [c])"

definition shell_quote :: "string \<Rightarrow> string" where
  "shell_quote s = [CHR 0x27] @ concat (map quote_char s) @ [CHR 0x27]"

fun quoted_segments :: "string \<Rightarrow> string \<Rightarrow> shell_word" where
  "quoted_segments a [] = [single_quoted a]"
| "quoted_segments a (c # s) =
     (if c = CHR 0x27 then single_quoted a # unquoted [CHR 0x27] # quoted_segments [] s
      else quoted_segments (a @ [c]) s)"

lemma takeWhile_quoted [simp]:
  "CHR 0x27 \<notin> set a \<Longrightarrow> takeWhile (\<lambda>x. x \<noteq> CHR 0x27) (a @ CHR 0x27 # t) = a"
  "CHR 0x27 \<notin> set a \<Longrightarrow> dropWhile (\<lambda>x. x \<noteq> CHR 0x27) (a @ CHR 0x27 # t) = CHR 0x27 # t"
  by (auto simp: takeWhile_append dropWhile_append)

lemma lex_word_single:
  "CHR 0x27 \<notin> set a \<Longrightarrow> lex_word w cur (CHR 0x27 # a @ CHR 0x27 # t) =
     lex_word (flush_segment w cur @ [single_quoted a]) [] t"
  by (simp add: lex_word.simps is_terminator_def)

lemma lex_word_escape: "lex_word w cur (CHR 0x5C # c # t) = lex_word w (cur @ [c]) t"
  by (simp add: lex_word.simps(2) [of w cur "CHR 0x5C"] is_terminator_def)

lemma lex_word_stop:
  "t = [] \<or> is_terminator (hd t) \<Longrightarrow> lex_word w cur t = (flush_segment w cur, t)"
  by (cases t) (simp_all add: lex_word.simps)

lemma lex_word_quote:
  "CHR 0x27 \<notin> set a \<Longrightarrow> t = [] \<or> is_terminator (hd t) \<Longrightarrow>
     lex_word w cur (CHR 0x27 # a @ concat (map quote_char s) @ CHR 0x27 # t) =
       (flush_segment w cur @ quoted_segments a s, t)"
proof (induction s arbitrary: a w cur)
  case Nil
  then show ?case by (simp add: lex_word_single lex_word_stop flush_segment_def)
next
  case (Cons c s)
  show ?case
  proof (cases "c = CHR 0x27")
    case True
    have "lex_word w cur (CHR 0x27 # a @ concat (map quote_char (c # s)) @ CHR 0x27 # t) =
        lex_word (flush_segment w cur @ [single_quoted a]) [CHR 0x27]
          (CHR 0x27 # [] @ concat (map quote_char s) @ CHR 0x27 # t)"
      using True Cons.prems(1) by (simp add: quote_char_def lex_word_single lex_word_escape)
    with Cons.IH [of "[]"] Cons.prems(2) True show ?thesis
      by (simp add: flush_segment_def)
  next
    case False
    with Cons.IH [of "a @ [c]"] Cons.prems show ?thesis by (simp add: quote_char_def)
  qed
qed

lemma quoted_segments_text: "word_text (quoted_segments a s) = a @ s"
  by (induction a s rule: quoted_segments.induct)
    (auto simp: word_text_def single_quoted_def unquoted_def)

lemma quoted_segments_safe:
  "seg \<in> set (quoted_segments a s) \<Longrightarrow> command_substitution seg = None \<and>
     (expand_vars seg \<or> expand_globs seg \<longrightarrow> seg_text seg = [CHR 0x27])"
  by (induction a s rule: quoted_segments.induct)
    (auto simp: single_quoted_def unquoted_def split: if_splits)

lemma next_token_word:
  assumes "c \<notin> {CHR '' '', CHR 0x09, CHR 0x0D}" "\<not> is_terminator c" "c \<noteq> CHR ''#''" "\<not> is_digit c"
    "unread l = c # cs"
  shows "next_token l = (let (word, rest) = lex_word [] [] (c # cs)
    in Ok (TWord word, l\<lparr>unread := rest\<rparr>))"
proof -
  have "skip_whitespace (c # cs) = c # cs" using assms(1) by (simp add: skip_whitespace_def)
  moreover have "c \<noteq> CHR ''2''" using assms(4) by (auto simp: is_digit_def)
  then have "lex_multi (c # cs) = None"
    using assms(2,4)
    by (auto simp: lex_multi_def starts_with_def is_terminator_def try_lex_fd_dup_def)
  moreover have "\<not> starts_with (c # cs) ''<<''" "lex_single c = None"
    using assms(2) by (auto simp: starts_with_def is_terminator_def lex_single_def)
  ultimately show ?thesis using assms(3,5) by (simp add: next_token.simps [of l])
qed

lemma lex_shell_quote:
  assumes "unread l = shell_quote s @ t" "t = [] \<or> is_terminator (hd t)"
  shows "next_token l = Ok (TWord (quoted_segments [] s), l\<lparr>unread := t\<rparr>)"
proof -
  have "unread l = CHR 0x27 # concat (map quote_char s) @ CHR 0x27 # t"
    using assms(1) by (simp add: shell_quote_def)
  from next_token_word [OF _ _ _ _ this] lex_word_quote [of "[]" t "[]" "[]" s] assms(2)
  show ?thesis by (simp add: is_terminator_def is_digit_def less_eq_char_def flush_segment_def)
qed

section \<open>Here documents\<close>

lemma name_char_not_blank:
  assumes "is_name_char c"
  shows "c \<noteq> CHR '' ''" "c \<noteq> CHR 0x09" "c \<noteq> CHR 0x0A" "c \<noteq> CHR ''-''" "c \<noteq> CHR 0x27" "c \<noteq> CHR 0x22"
    "\<not> starts_whitespace (c # cs)"
proof -
  have n: "(of_char c :: nat) = 95 \<or> 48 \<le> (of_char c :: nat) \<and> (of_char c :: nat) \<le> 57 \<or>
      65 \<le> (of_char c :: nat) \<and> (of_char c :: nat) \<le> 90 \<or> 97 \<le> (of_char c :: nat) \<and> (of_char c :: nat) \<le> 122"
    using assms by (auto simp: is_name_char_def is_alpha_def is_digit_def less_eq_char_def)
  then show "c \<noteq> CHR '' ''" "c \<noteq> CHR 0x09" "c \<noteq> CHR 0x0A" "c \<noteq> CHR ''-''" "c \<noteq> CHR 0x27" "c \<noteq> CHR 0x22"
    by auto
  have "w \<in> set whitespace \<Longrightarrow> prefix w (c # cs) \<Longrightarrow> w = []" for w
    using n by (auto simp: whitespace_def prefix_Cons)
  then show "\<not> starts_whitespace (c # cs)" by (auto simp: starts_whitespace_def list_ex_iff)
qed

lemma unquoted_delimiter_name:
  assumes "x = [] \<or> hd x = CHR '' ''"
  shows "list_all is_name_char d \<Longrightarrow> unquoted_delimiter (d @ x @ CHR 0x0A # t) = (d, x @ CHR 0x0A # t)"
proof (induction d)
  case Nil
  have "starts_whitespace (x @ CHR 0x0A # t)"
    using assms by (cases x) (auto simp: starts_whitespace_def whitespace_def)
  then show ?case by (cases "x @ CHR 0x0A # t") simp_all
next
  case (Cons c d)
  then show ?case by (simp add: name_char_not_blank prepend_def)
qed

definition unlines :: "string list \<Rightarrow> string" where
  "unlines ls = concat (map (\<lambda>l. l @ [CHR 0x0A]) ls)"

lemma pop_unlines: "pop_newline (unlines ls) = join_on CHR 0x0A ls"
proof -
  have "ls \<noteq> [] \<Longrightarrow> unlines ls = join_on CHR 0x0A ls @ [CHR 0x0A]"
  proof (induction ls)
    case (Cons l ls)
    then show ?case by (cases "ls = []") (simp_all add: unlines_def join_on_Cons)
  qed simp
  then show ?thesis by (cases "ls = []") (simp_all add: pop_newline_def unlines_def)
qed

lemma find_delimiter_lines:
  assumes "CHR 0x0A \<notin> set d"
  shows "\<forall>l \<in> set ls. CHR 0x0A \<notin> set l \<and> l \<noteq> d \<and> trim_end l \<noteq> d \<Longrightarrow>
    find_delimiter False d (split_on CHR 0x0A (unlines ls @ d @ CHR 0x0A # t)) =
      Some (ls, split_on CHR 0x0A t)"
  by (induction ls) (simp_all add: unlines_def assms)

lemma lex_heredoc_lines:
  assumes "d \<noteq> []" "list_all is_name_char d" "x = [] \<or> hd x = CHR '' ''" "CHR 0x0A \<notin> set x"
    "\<forall>l \<in> set ls. CHR 0x0A \<notin> set l \<and> l \<noteq> d \<and> trim_end l \<noteq> d"
  shows "lex_heredoc (d @ x @ CHR 0x0A # unlines ls @ d @ CHR 0x0A # t) =
    Ok (THereDoc (join_on CHR 0x0A ls) False, t)"
proof -
  obtain c cs where d: "d = c # cs" using assms(1) by (cases d) auto
  have c: "is_name_char c" using assms(2) d by simp
  have nl: "CHR 0x0A \<notin> set d" using assms(2) name_char_not_blank(3) by (auto simp: list_all_iff)
  define rest where "rest = unlines ls @ d @ CHR 0x0A # t"
  have "\<not> starts_with (d @ x @ CHR 0x0A # rest) ''-''"
    using name_char_not_blank(4) [OF c] by (simp add: d starts_with_def)
  moreover have "dropWhile (\<lambda>c. c = CHR '' '' \<or> c = CHR 0x09) (d @ x @ CHR 0x0A # rest) =
      d @ x @ CHR 0x0A # rest"
    using name_char_not_blank(1,2) [OF c] by (simp add: d)
  moreover have "read_heredoc_delimiter (d @ x @ CHR 0x0A # rest) = Some (d, x @ CHR 0x0A # rest)"
    using unquoted_delimiter_name [OF assms(3,2), of rest] name_char_not_blank(5,6) [OF c]
    by (simp add: read_heredoc_delimiter_def d)
  moreover have "drop 1 (dropWhile (\<lambda>c. c \<noteq> CHR 0x0A) (x @ CHR 0x0A # rest)) = rest"
    using assms(4) by (auto simp: dropWhile_append)
  moreover have "find_delimiter False d (split_on CHR 0x0A rest) = Some (ls, split_on CHR 0x0A t)"
    unfolding rest_def by (rule find_delimiter_lines [OF nl assms(5)])
  moreover have "heredoc_content False ls = join_on CHR 0x0A ls"
    using pop_unlines [of ls] by (simp add: heredoc_content_def unlines_def)
  ultimately show ?thesis
    using assms(1) unfolding rest_def [symmetric]
    by (simp add: lex_heredoc_def heredoc_body_def)
qed

section \<open>Properties\<close>

text \<open>Lexing ends: every token but the end of the input takes at least one byte, so a text has at
  most as many tokens as bytes, whatever it contains.\<close>

theorem lexer_progress:
  "(case next_token l of
      Inl e \<Rightarrow> True
    | Inr (t, l') \<Rightarrow> t = TEof \<and> unread l' = [] \<or> length (unread l') < length (unread l)) \<and>
   (case tokens l of Inl e \<Rightarrow> True | Inr ts \<Rightarrow> length ts \<le> length (unread l))"
  by (cases "next_token l"; cases "tokens l") (auto dest: next_token_progress tokens_length)

text \<open>Quoting is safe: any text in single quotes, its own single quotes written outside of them
  and escaped, is read as one word with exactly that text; nothing in the word is substituted,
  and the only segments open to expansion consist of one single quote.\<close>

theorem quoted_argument_verbatim:
  assumes "t = [] \<or> is_terminator (hd t)"
  shows "\<exists>w. next_token (lexer_new (shell_quote s @ t)) =
      Ok (TWord w, (lexer_new (shell_quote s @ t))\<lparr>unread := t\<rparr>) \<and>
    word_text w = s \<and>
    (\<forall>seg \<in> set w. command_substitution seg = None \<and>
       (expand_vars seg \<or> expand_globs seg \<longrightarrow> seg_text seg = [CHR 0x27]))"
  using lex_shell_quote [of "lexer_new (shell_quote s @ t)" s t] assms quoted_segments_text [of "[]" s]
    quoted_segments_safe [of _ "[]" s]
  by (intro exI [of _ "quoted_segments [] s"]) (auto simp: lexer_new_def)

theorem quoted_argument_verbatim_witness:
  "\<exists>w. next_token (lexer_new (shell_quote ''$(rm *)'' @ '' x'')) =
      Ok (TWord w, (lexer_new (shell_quote ''$(rm *)'' @ '' x''))\<lparr>unread := '' x''\<rparr>) \<and>
    word_text w = ''$(rm *)''"
  using quoted_argument_verbatim [of "'' x''" "''$(rm *)''"] by (auto simp: is_terminator_def)

text \<open>A backslash outside of single quotes is dropped and protects nothing: the word for an
  escaped dollar sign or star is the word for the bare character, open to expansion.\<close>

theorem escape_does_not_protect:
  assumes "c \<in> {CHR ''$'', CHR ''*'', CHR ''?'', CHR ''~'', CHR ''[''}" "CHR 0x5C \<notin> set s"
    "\<not> starts_with (c # s) ''$(''"
  shows "map_ok fst (next_token (lexer_new (CHR 0x5C # c # s))) =
    map_ok fst (next_token (lexer_new (c # s)))"
proof -
  have 1: "next_token (lexer_new (CHR 0x5C # c # s)) =
      (let (word, rest) = lex_word [] [] (CHR 0x5C # c # s)
       in Ok (TWord word, (lexer_new (CHR 0x5C # c # s))\<lparr>unread := rest\<rparr>))"
    by (rule next_token_word) (simp_all add: is_terminator_def is_digit_def less_eq_char_def lexer_new_def)
  have 2: "next_token (lexer_new (c # s)) =
      (let (word, rest) = lex_word [] [] (c # s)
       in Ok (TWord word, (lexer_new (c # s))\<lparr>unread := rest\<rparr>))"
    by (rule next_token_word)
      (use assms(1) in \<open>auto simp: is_terminator_def is_digit_def less_eq_char_def lexer_new_def\<close>)
  have "lex_word [] [] (CHR 0x5C # c # s) = lex_word [] [c] s"
    by (simp add: lex_word_escape)
  also have "\<dots> = lex_word [] [] (c # s)"
    using assms(1,3) by (subst lex_word.simps(2)) (auto simp: is_terminator_def)
  finally show ?thesis unfolding 1 2 by (simp add: split_beta Let_def)
qed

theorem escape_does_not_protect_witness:
  "map_ok fst (next_token (lexer_new (CHR 0x5C # ''$HOME''))) =
    map_ok fst (next_token (lexer_new ''$HOME''))"
  by (rule escape_does_not_protect) (simp_all add: starts_with_def)

text \<open>A comment with a character outside ASCII panics: the code steps through the comment by
  bytes and slices the text at each.\<close>

theorem comment_panics:
  assumes "CHR 0x0A \<notin> set a" "is_continuation c"
  shows "next_token (lexer_new (''#'' @ a @ c # s)) = Err Panicked"
proof -
  have "skip_comment (a @ c # s) = Err Panicked"
    using assms by (induction a) auto
  moreover have "skip_whitespace (''#'' @ a @ c # s) = CHR ''#'' # a @ c # s"
    by (simp add: skip_whitespace_def)
  moreover have "lex_multi (CHR ''#'' # a @ c # s) = None"
    by (simp add: lex_multi_def starts_with_def try_lex_fd_dup_def is_digit_def less_eq_char_def)
  moreover have "\<not> starts_with (CHR ''#'' # a @ c # s) ''<<''" "lex_single CHR ''#'' = None"
    by (simp_all add: starts_with_def lex_single_def)
  ultimately show ?thesis by (subst next_token.simps) (simp add: lexer_new_def)
qed

theorem comment_panics_witness:
  "next_token (lexer_new (''# caf'' @ [CHR 0xC3, CHR 0xA9])) = Err Panicked"
  using comment_panics [of "'' caf'' @ [CHR 0xC3]" "CHR 0xA9" "[]"]
  by (simp add: is_continuation_def)

text \<open>A here document is read back as its lines, joined by newlines, up to the line that is the
  delimiter; what stands on the line of the operator after the delimiter (\<open>x\<close>: another
  redirection, a pipe, a second command) is dropped without an error.\<close>

theorem heredoc_exact:
  assumes "d \<noteq> []" "list_all is_name_char d" "x = [] \<or> hd x = CHR '' ''" "CHR 0x0A \<notin> set x"
    and "\<forall>l \<in> set ls. CHR 0x0A \<notin> set l \<and> l \<noteq> d \<and> trim_end l \<noteq> d"
    and "unread l = ''<<'' @ d @ x @ [CHR 0x0A] @ concat (map (\<lambda>l. l @ [CHR 0x0A]) ls) @ d @ [CHR 0x0A] @ t"
  shows "next_token l = Ok (THereDoc (join_on CHR 0x0A ls) False, l\<lparr>unread := t\<rparr>)"
proof -
  define u where "u = d @ x @ CHR 0x0A # unlines ls @ d @ CHR 0x0A # t"
  have l: "unread l = CHR ''<'' # CHR ''<'' # u" using assms(6) by (simp add: u_def unlines_def)
  have "skip_whitespace (unread l) = CHR ''<'' # CHR ''<'' # u"
    unfolding l by (simp add: skip_whitespace_def)
  moreover have "lex_multi (CHR ''<'' # CHR ''<'' # u) = None"
    by (simp add: lex_multi_def starts_with_def try_lex_fd_dup_def is_digit_def less_eq_char_def)
  moreover have "starts_with (CHR ''<'' # CHR ''<'' # u) ''<<''" by (simp add: starts_with_def)
  ultimately show ?thesis
    using lex_heredoc_lines [OF assms(1-5), of t] by (subst next_token.simps) (simp add: u_def)
qed

theorem heredoc_exact_witness:
  "next_token (lexer_new (''<<EOF | sort'' @ [CHR 0x0A] @ ''b'' @ [CHR 0x0A] @ ''EOF'' @ [CHR 0x0A] @ ''ls'')) =
    Ok (THereDoc ''b'' False, (lexer_new (''<<EOF | sort'' @ [CHR 0x0A] @ ''b'' @ [CHR 0x0A] @ ''EOF'' @
      [CHR 0x0A] @ ''ls''))\<lparr>unread := ''ls''\<rparr>)"
proof -
  have "trim_end ''b'' = ''b''" by code_simp
  then show ?thesis
    using heredoc_exact [of "''EOF''" "'' | sort''" "[''b'']"
        "lexer_new (''<<EOF | sort'' @ [CHR 0x0A] @ ''b'' @ [CHR 0x0A] @ ''EOF'' @ [CHR 0x0A] @ ''ls'')"
        "''ls''"]
    by (simp add: is_name_char_def is_alpha_def less_eq_char_def lexer_new_def)
qed

end
