(* ===== verification/Parser.thy ===== *)
theory Parser
  imports LexerSound
begin

text \<open>
  The shell's parser and its syntax trees, \<open>crates/amla-sandbox-shell/src/parser.rs\<close> and
  \<open>ast.rs\<close>: a recursive descent over the lexer with one token of lookahead. The functions that call
  each other take fuel, one unit for each call; \<open>parse_total\<close> in \<open>ParserSound\<close> shows that
  \<open>parse_fuel\<close> is enough for every input. An error ends the parse, so it carries no state.
\<close>

section \<open>Syntax trees\<close>

datatype redirect_kind = RWrite | RAppend | RRead

datatype redirect_target =
    RFile shell_word
  | RFd int
  | RHereDoc string bool

record redirect =
  source_fd :: int
  redirect_kind :: redirect_kind
  redirect_target :: redirect_target

datatype command =
    Simple "shell_word list" "redirect list"
  | Pipeline "command list"
  | AndList command command
  | OrList command command
  | Sequence "command list"
  | Background command
  | Subshell command
  | Empty

definition pipeline :: "command list \<Rightarrow> command" where
  "pipeline cs = (case cs of [c] \<Rightarrow> c | _ \<Rightarrow> Pipeline cs)"

definition to_file :: "int \<Rightarrow> redirect_kind \<Rightarrow> shell_word \<Rightarrow> redirect" where
  "to_file fd k path = \<lparr>source_fd = fd, redirect_kind = k, redirect_target = RFile path\<rparr>"

definition dup_fd :: "int \<Rightarrow> int \<Rightarrow> redirect" where
  "dup_fd s t = \<lparr>source_fd = s, redirect_kind = RWrite, redirect_target = RFd t\<rparr>"

definition stdin_heredoc :: "string \<Rightarrow> bool \<Rightarrow> redirect" where
  "stdin_heredoc c strip = \<lparr>source_fd = 0, redirect_kind = RRead, redirect_target = RHereDoc c strip\<rparr>"

section \<open>Progress of the lookahead\<close>

definition lex_size :: "lexer \<Rightarrow> nat" where
  "lex_size l = 2 * length (unread l) + (if peeked l = None \<or> peeked l = Some TEof then 0 else 1)"

lemma lex_peek_size:
  assumes "lex_peek l = Ok (t, l')"
  shows "peeked l' = Some t \<and> lex_size l' \<le> lex_size l \<and> (t \<noteq> TEof \<longrightarrow> 0 < lex_size l')"
proof (cases "peeked l")
  case None
  with assms obtain l1 where l1: "next_token l = Ok (t, l1)" "l' = l1\<lparr>peeked := Some t\<rparr>"
    by (auto simp: lex_peek_def)
  from next_token_progress [OF l1(1)] l1(2) None show ?thesis
    by (auto simp: lex_size_def)
next
  case (Some u)
  with assms show ?thesis by (auto simp: lex_peek_def lex_size_def)
qed

lemma lex_next_size:
  assumes "lex_next l = Ok (t, l')"
  shows "peeked l' = None \<and> lex_size l' \<le> lex_size l \<and> (t \<noteq> TEof \<longrightarrow> lex_size l' < lex_size l)"
proof (cases "peeked l")
  case None
  with assms next_token_progress [of l t l'] show ?thesis
    by (auto simp: lex_next_def lex_size_def)
next
  case (Some u)
  with assms show ?thesis by (auto simp: lex_next_def lex_size_def)
qed

lemma lex_next_peeked: "peeked l = Some t \<Longrightarrow> lex_next l = Ok (t, l\<lparr>peeked := None\<rparr>)"
  by (simp add: lex_next_def)

lemma peek_next_size:
  assumes "lex_peek l = Ok (t, l1)" "lex_next l1 = Ok (u, l2)" "t \<noteq> TEof"
  shows "u = t \<and> lex_size l2 < lex_size l"
proof -
  have "peeked l1 = Some t" "lex_size l1 \<le> lex_size l" using lex_peek_size [OF assms(1)] by simp_all
  with lex_next_size [OF assms(2)] assms(2,3) show ?thesis by (auto simp: lex_next_peeked)
qed

section \<open>Simple commands\<close>

function skip_newlines :: "lexer \<Rightarrow> (lexer, shell_error) result" where
  "skip_newlines l =
     and_then (lex_peek l) (\<lambda>(t, l1).
       if t = TNewline then and_then (lex_next l1) (\<lambda>(u, l2). skip_newlines l2) else Ok l1)"
  by pat_completeness auto
termination
  by (relation "measure lex_size") (auto dest: peek_next_size)

declare skip_newlines.simps [simp del]

definition expect :: "token \<Rightarrow> lexer \<Rightarrow> (lexer, shell_error) result" where
  "expect expected l =
     and_then (lex_next l) (\<lambda>(t, l).
       if t = expected then Ok l else Err (Syntax (ExpectedToken expected t) (lex_position l)))"

definition expect_word :: "lexer \<Rightarrow> (shell_word \<times> lexer, shell_error) result" where
  "expect_word l =
     and_then (lex_next l) (\<lambda>(t, l).
       case t of TWord w \<Rightarrow> Ok (w, l) | _ \<Rightarrow> Err (Syntax (ExpectedWord t) (lex_position l)))"

text \<open>The redirections that take a word, and what they add for it.\<close>

fun file_redirect :: "token \<Rightarrow> (shell_word \<Rightarrow> redirect list) option" where
  "file_redirect TRedirectOut = Some (\<lambda>w. [to_file 1 RWrite w])"
| "file_redirect TRedirectAppend = Some (\<lambda>w. [to_file 1 RAppend w])"
| "file_redirect TRedirectIn = Some (\<lambda>w. [to_file 0 RRead w])"
| "file_redirect TRedirectErr = Some (\<lambda>w. [to_file 2 RWrite w])"
| "file_redirect TRedirectErrAppend = Some (\<lambda>w. [to_file 2 RAppend w])"
| "file_redirect TRedirectBoth = Some (\<lambda>w. [to_file 1 RWrite w, dup_fd 2 1])"
| "file_redirect _ = None"

lemma expect_word_size:
  assumes "expect_word l = Ok (w, l')"
  shows "lex_size l' < lex_size l"
proof -
  from assms obtain t l1 where t: "lex_next l = Ok (t, l1)"
    by (auto simp: expect_word_def)
  with assms have "t = TWord w \<and> l1 = l'" by (cases t) (simp_all add: expect_word_def)
  with lex_next_size [OF t] show ?thesis by simp
qed

lemma peek_next_word_size:
  "lex_peek l = Ok (t, l1) \<Longrightarrow> lex_next l1 = Ok (u, l2) \<Longrightarrow> expect_word l2 = Ok (w, l3) \<Longrightarrow>
     lex_size l3 < lex_size l"
  using lex_peek_size [of l t l1] lex_next_size [of l1 u l2] expect_word_size [of l2 w l3] by simp

text \<open>The loop of \<open>parse_simple_command\<close>.\<close>

function simple_parts ::
  "shell_word list \<Rightarrow> redirect list \<Rightarrow> lexer \<Rightarrow>
     ((shell_word list \<times> redirect list) \<times> lexer, shell_error) result" where
  "simple_parts argv redirects l =
     and_then (lex_peek l) (\<lambda>(t, l1).
       case t of
         TWord w \<Rightarrow> and_then (lex_next l1) (\<lambda>(u, l2). simple_parts (argv @ [w]) redirects l2)
       | TDupFd s d \<Rightarrow>
           and_then (lex_next l1) (\<lambda>(u, l2). simple_parts argv (redirects @ [dup_fd s d]) l2)
       | THereDoc c strip \<Rightarrow>
           and_then (lex_next l1) (\<lambda>(u, l2).
             simple_parts argv (redirects @ [stdin_heredoc c strip]) l2)
       | _ \<Rightarrow>
           (case file_redirect t of
              Some f \<Rightarrow>
                and_then (lex_next l1) (\<lambda>(u, l2).
                and_then (expect_word l2) (\<lambda>(w, l3). simple_parts argv (redirects @ f w) l3))
            | None \<Rightarrow> Ok ((argv, redirects), l1)))"
  by pat_completeness auto
termination
  by (relation "measure (\<lambda>(a, r, l). lex_size l)")
    (auto dest: peek_next_size peek_next_word_size)

declare simple_parts.simps [simp del]

definition parse_simple_command :: "lexer \<Rightarrow> (command \<times> lexer, shell_error) result" where
  "parse_simple_command l =
     and_then (simple_parts [] [] l) (\<lambda>((argv, redirects), l).
       if argv = [] \<and> redirects = [] then Err (Syntax ExpectedCommand (lex_position l))
       else Ok (Simple (if argv = [] then [[unquoted '':'']] else argv) redirects, l))"

section \<open>The recursive descent\<close>

text \<open>\<open>None\<close> is a parse that ran out of fuel.\<close>

type_synonym 'a presult = "('a \<times> lexer, shell_error) result option"

definition pbind :: "'a presult \<Rightarrow> ('a \<Rightarrow> lexer \<Rightarrow> 'b presult) \<Rightarrow> 'b presult" where
  "pbind m f =
     (case m of
        None \<Rightarrow> None
      | Some (Inl e) \<Rightarrow> Some (Err e)
      | Some (Inr (x, l)) \<Rightarrow> f x l)"

text \<open>\<open>next()?\<close> followed by \<open>skip_newlines()?\<close>, and a look at the next token.\<close>

definition next_skip :: "lexer \<Rightarrow> (lexer, shell_error) result" where
  "next_skip l = and_then (lex_next l) (\<lambda>(t, l). skip_newlines l)"

definition skip_peek :: "lexer \<Rightarrow> (token \<times> lexer, shell_error) result" where
  "skip_peek l = and_then (next_skip l) lex_peek"

definition ends_line :: "token \<Rightarrow> bool" where
  "ends_line t = (t = TEof \<or> t = TRParen \<or> t = TNewline)"

definition flatten :: "command list \<Rightarrow> command" where
  "flatten cs = (case cs of [] \<Rightarrow> Empty | [c] \<Rightarrow> c | _ \<Rightarrow> Sequence cs)"

fun parse_command_line :: "nat \<Rightarrow> command list \<Rightarrow> lexer \<Rightarrow> command presult"
  and parse_list :: "nat \<Rightarrow> lexer \<Rightarrow> command presult"
  and list_loop :: "nat \<Rightarrow> command \<Rightarrow> lexer \<Rightarrow> command presult"
  and parse_pipeline :: "nat \<Rightarrow> lexer \<Rightarrow> command presult"
  and pipeline_loop :: "nat \<Rightarrow> command list \<Rightarrow> lexer \<Rightarrow> command presult"
  and parse_command :: "nat \<Rightarrow> lexer \<Rightarrow> command presult"
where
  "parse_command_line 0 commands l = None"
| "parse_command_line (Suc n) commands l =
     pbind (parse_list n l) (\<lambda>list l.
     pbind (Some (lex_peek l)) (\<lambda>t l.
       if t = TSemi then
         pbind (Some (skip_peek l)) (\<lambda>t l.
           if ends_line t then Some (Ok (flatten (commands @ [list]), l))
           else if t = TAmp then
             pbind (Some (skip_peek l)) (\<lambda>t l.
               if ends_line t then Some (Ok (flatten (commands @ [list]), l))
               else parse_command_line n (commands @ [list]) l)
           else parse_command_line n (commands @ [list]) l)
       else if t = TAmp then
         pbind (Some (skip_peek l)) (\<lambda>t l.
           if ends_line t then Some (Ok (flatten (commands @ [Background list]), l))
           else parse_command_line n (commands @ [Background list]) l)
       else Some (Ok (flatten (commands @ [list]), l))))"
| "parse_list 0 l = None"
| "parse_list (Suc n) l = pbind (parse_pipeline n l) (\<lambda>left l. list_loop n left l)"
| "list_loop 0 left l = None"
| "list_loop (Suc n) left l =
     pbind (Some (lex_peek l)) (\<lambda>t l.
       if t = TAnd then
         (case next_skip l of
            Inl e \<Rightarrow> Some (Err e)
          | Inr l \<Rightarrow> pbind (parse_pipeline n l) (\<lambda>right l. list_loop n (AndList left right) l))
       else if t = TOr then
         (case next_skip l of
            Inl e \<Rightarrow> Some (Err e)
          | Inr l \<Rightarrow> pbind (parse_pipeline n l) (\<lambda>right l. list_loop n (OrList left right) l))
       else Some (Ok (left, l)))"
| "parse_pipeline 0 l = None"
| "parse_pipeline (Suc n) l = pbind (parse_command n l) (\<lambda>c l. pipeline_loop n [c] l)"
| "pipeline_loop 0 commands l = None"
| "pipeline_loop (Suc n) commands l =
     pbind (Some (lex_peek l)) (\<lambda>t l.
       if t = TPipe then
         (case next_skip l of
            Inl e \<Rightarrow> Some (Err e)
          | Inr l \<Rightarrow> pbind (parse_command n l) (\<lambda>c l. pipeline_loop n (commands @ [c]) l))
       else Some (Ok (pipeline commands, l)))"
| "parse_command 0 l = None"
| "parse_command (Suc n) l =
     pbind (Some (lex_peek l)) (\<lambda>t l.
       if t = TLParen then
         (case next_skip l of
            Inl e \<Rightarrow> Some (Err e)
          | Inr l \<Rightarrow>
              pbind (parse_command_line n [] l) (\<lambda>c l.
                Some (map_ok (\<lambda>l. (Subshell c, l)) (expect TRParen l))))
       else Some (parse_simple_command l))"

definition parse_fuel :: "string \<Rightarrow> nat" where
  "parse_fuel s = 16 * length s + 16"

text \<open>\<open>Parser::parse\<close> on a new lexer: the command and the lexer after it.\<close>

definition parse_from :: "string \<Rightarrow> command presult" where
  "parse_from s =
     (case skip_newlines (lexer_new s) of
        Inl e \<Rightarrow> Some (Err e)
      | Inr l \<Rightarrow>
          pbind (Some (at_end l)) (\<lambda>e l.
            if e then Some (Ok (Empty, l))
            else pbind (parse_command_line (parse_fuel s) [] l) (\<lambda>c l.
              Some (map_ok (\<lambda>l. (c, l)) (skip_newlines l)))))"

definition parse :: "string \<Rightarrow> (command, shell_error) result option" where
  "parse s = map_option (map_ok fst) (parse_from s)"

end
