(* ===== verification/ParserSound.thy ===== *)
theory ParserSound
  imports Parser
begin

text \<open>
  The parser against the grammar of the shell's language, as relations between the tokens read and
  the tree built: the parser always returns, and what it returns is derived by the grammar from the
  tokens up to the point where it stops. It stops at the first newline or unmatched parenthesis.
\<close>

section \<open>Reading tokens\<close>

inductive reads :: "lexer \<Rightarrow> token list \<Rightarrow> lexer \<Rightarrow> bool" where
  stay: "reads l [] l"
| look: "lex_peek l = Ok (t, l') \<Longrightarrow> reads l [] l'"
| eat: "lex_next l = Ok (t, l') \<Longrightarrow> t \<noteq> TEof \<Longrightarrow> reads l [t] l'"
| on: "reads l ts l1 \<Longrightarrow> reads l1 us l2 \<Longrightarrow> reads l (ts @ us) l2"

lemma reads_size: "reads l ts l' \<Longrightarrow> lex_size l' + length ts \<le> lex_size l"
  by (induction rule: reads.induct) (auto dest: lex_peek_size lex_next_size)

text \<open>All tokens of a text, and the error the lexer ends with if it does.\<close>

function all_tokens :: "lexer \<Rightarrow> token list \<times> shell_error option" where
  "all_tokens l =
     (case next_token l of
        Inl e \<Rightarrow> ([], Some e)
      | Inr (t, l') \<Rightarrow>
          if t = TEof then ([], None) else (let (ts, e) = all_tokens l' in (t # ts, e)))"
  by pat_completeness auto
termination
  by (relation "measure (\<lambda>l. length (unread l))") (auto dest: next_token_progress)

declare all_tokens.simps [simp del]

definition token_stream :: "lexer \<Rightarrow> token list \<times> shell_error option" where
  "token_stream l =
     (case peeked l of
        None \<Rightarrow> all_tokens l
      | Some t \<Rightarrow>
          if t = TEof then ([], None)
          else (let (ts, e) = all_tokens l in (t # ts, e)))"

lemma next_token_cong: "unread l = unread m \<Longrightarrow> lex_input l = lex_input m \<Longrightarrow>
    map_ok (\<lambda>(t, l). (t, unread l)) (next_token l) = map_ok (\<lambda>(t, l). (t, unread l)) (next_token m)"
proof (induction l arbitrary: m rule: next_token.induct)
  case (1 l)
  show ?case
  proof (cases "\<exists>cs r. skip_whitespace (unread l) = CHR ''#'' # cs \<and> lex_multi (CHR ''#'' # cs) = None \<and>
      \<not> starts_with (CHR ''#'' # cs) ''<<'' \<and> lex_single CHR ''#'' = None \<and> skip_comment cs = Ok r")
    case True
    then obtain cs r where c: "skip_whitespace (unread l) = CHR ''#'' # cs"
      "lex_multi (CHR ''#'' # cs) = None" "\<not> starts_with (CHR ''#'' # cs) ''<<''"
      "lex_single CHR ''#'' = None" "skip_comment cs = Ok r"
      by blast
    from "1.IH" [OF c(1-4) refl c(5), of "m\<lparr>unread := r\<rparr>"] "1.prems" c show ?thesis
      by (simp add: next_token.simps [of l] next_token.simps [of m])
  next
    case False
    with "1.prems" show ?thesis
      by (subst (1 2) next_token.simps)
        (auto simp: Let_def split: list.split option.split sum.split prod.split)
  qed
qed

lemma all_tokens_cong:
  "unread l = unread m \<Longrightarrow> lex_input l = lex_input m \<Longrightarrow> all_tokens l = all_tokens m"
proof (induction l arbitrary: m rule: all_tokens.induct)
  case (1 l)
  note cong = next_token_cong [OF "1.prems"]
  show ?case
  proof (cases "next_token l")
    case (Inl e)
    with cong have "next_token m = Inl e" by (cases "next_token m") auto
    with Inl show ?thesis by (simp add: all_tokens.simps [of l] all_tokens.simps [of m])
  next
    case (Inr x)
    then obtain t l' where l: "next_token l = Ok (t, l')" by (cases x) auto
    with cong obtain m' where m: "next_token m = Ok (t, m')" "unread m' = unread l'"
      by (cases "next_token m") auto
    have "lex_input l' = lex_input m'"
      using next_token_progress [OF l] next_token_progress [OF m(1)] "1.prems" by simp
    with "1.IH" [OF l refl _ m(2) [symmetric]] l m(1) show ?thesis
      by (simp add: all_tokens.simps [of l] all_tokens.simps [of m])
  qed
qed

lemma all_tokens_peeked [simp]: "all_tokens (l\<lparr>peeked := p\<rparr>) = all_tokens l"
  by (rule all_tokens_cong) simp_all

lemma reads_stream:
  "reads l ts l' \<Longrightarrow> token_stream l = (ts @ fst (token_stream l'), snd (token_stream l'))"
proof (induction rule: reads.induct)
  case (look l t l')
  show ?case
  proof (cases "peeked l")
    case None
    with look obtain l1 where l1: "next_token l = Ok (t, l1)" "l' = l1\<lparr>peeked := Some t\<rparr>"
      by (auto simp: lex_peek_def)
    with None show ?thesis
      by (simp add: token_stream_def all_tokens.simps [of l] split: prod.split)
  next
    case (Some u)
    with look show ?thesis by (simp add: lex_peek_def)
  qed
next
  case (eat l t l')
  show ?case
  proof (cases "peeked l")
    case None
    with eat have n: "next_token l = Ok (t, l')" by (simp add: lex_next_def)
    with next_token_progress [OF n] eat(2) None show ?thesis
      by (simp add: token_stream_def all_tokens.simps [of l] split: prod.split)
  next
    case (Some u)
    with eat show ?thesis by (auto simp: lex_next_def token_stream_def split: prod.split)
  qed
qed simp_all

section \<open>The grammar\<close>

inductive g_simple :: "token list \<Rightarrow> shell_word list \<Rightarrow> redirect list \<Rightarrow> bool" where
  "g_simple [] [] []"
| "g_simple ts argv rs \<Longrightarrow> g_simple (ts @ [TWord w]) (argv @ [w]) rs"
| "g_simple ts argv rs \<Longrightarrow> g_simple (ts @ [TDupFd s d]) argv (rs @ [dup_fd s d])"
| "g_simple ts argv rs \<Longrightarrow> g_simple (ts @ [THereDoc c b]) argv (rs @ [stdin_heredoc c b])"
| "g_simple ts argv rs \<Longrightarrow> file_redirect t = Some f \<Longrightarrow> g_simple (ts @ [t, TWord w]) argv (rs @ f w)"

abbreviation newlines :: "nat \<Rightarrow> token list" where
  "newlines k \<equiv> replicate k TNewline"

text \<open>What may stand between the items of a line, and what it makes of the item before it.\<close>

inductive g_separator :: "token list \<Rightarrow> (command \<Rightarrow> command) \<Rightarrow> bool" where
  "g_separator (TSemi # newlines k) (\<lambda>c. c)"
| "g_separator (TSemi # newlines k @ TAmp # newlines m) (\<lambda>c. c)"
| "g_separator (TAmp # newlines k) Background"

inductive g_command :: "token list \<Rightarrow> command \<Rightarrow> bool"
  and g_pipeline :: "token list \<Rightarrow> command list \<Rightarrow> bool"
  and g_list :: "token list \<Rightarrow> command \<Rightarrow> bool"
  and g_items :: "token list \<Rightarrow> command list \<Rightarrow> bool"
where
  command_simple: "g_simple ts argv rs \<Longrightarrow> argv \<noteq> [] \<Longrightarrow> g_command ts (Simple argv rs)"
| command_redirects: "g_simple ts [] rs \<Longrightarrow> rs \<noteq> [] \<Longrightarrow> g_command ts (Simple [[unquoted '':'']] rs)"
| command_subshell:
    "g_items ts cs \<Longrightarrow> g_command (TLParen # newlines k @ ts @ [TRParen]) (Subshell (flatten cs))"
| pipeline_one: "g_command ts c \<Longrightarrow> g_pipeline ts [c]"
| pipeline_more:
    "g_pipeline ts cs \<Longrightarrow> g_command us c \<Longrightarrow>
       g_pipeline (ts @ TPipe # newlines k @ us) (cs @ [c])"
| list_one: "g_pipeline ts cs \<Longrightarrow> g_list ts (pipeline cs)"
| list_and:
    "g_list ts c \<Longrightarrow> g_pipeline us cs \<Longrightarrow>
       g_list (ts @ TAnd # newlines k @ us) (AndList c (pipeline cs))"
| list_or:
    "g_list ts c \<Longrightarrow> g_pipeline us cs \<Longrightarrow>
       g_list (ts @ TOr # newlines k @ us) (OrList c (pipeline cs))"
| items_last: "g_list ts c \<Longrightarrow> g_items ts [c]"
| items_closed: "g_list ts c \<Longrightarrow> g_separator us f \<Longrightarrow> g_items (ts @ us) [f c]"
| items_more:
    "g_list ts c \<Longrightarrow> g_separator us f \<Longrightarrow> g_items vs cs \<Longrightarrow> g_items (ts @ us @ vs) (f c # cs)"

section \<open>Each function reads what it derives\<close>

lemma pbind_Ok [simp]:
  "pbind m f = Some (Ok r) \<longleftrightarrow> (\<exists>x l. m = Some (Ok (x, l)) \<and> f x l = Some (Ok r))"
  by (auto simp: pbind_def split: option.splits sum.splits)

lemma reads_eat:
  assumes "lex_peek l = Ok (t, l1)" "lex_next l1 = Ok (u, l2)" "t \<noteq> TEof"
  shows "reads l [t] l2"
proof -
  have "u = t" using peek_next_size [OF assms] by simp
  with assms reads.on [OF reads.look reads.eat] show ?thesis by fastforce
qed

lemma skip_newlines_reads: "skip_newlines l = Ok l' \<Longrightarrow> \<exists>k. reads l (newlines k) l'"
proof (induction l rule: skip_newlines.induct)
  case (1 l)
  from "1.prems" obtain t l1 where t: "lex_peek l = Ok (t, l1)"
    by (subst (asm) skip_newlines.simps) auto
  show ?case
  proof (cases "t = TNewline")
    case False
    with "1.prems" t have "l' = l1" by (simp add: skip_newlines.simps [of l])
    with t show ?thesis by (intro exI [of _ 0]) (auto intro: reads.look)
  next
    case True
    with "1.prems" t obtain u l2 where u: "lex_next l1 = Ok (u, l2)" "skip_newlines l2 = Ok l'"
      by (auto simp: skip_newlines.simps [of l])
    from "1.IH" [OF t refl True u(1) refl u(2)] obtain k where "reads l2 (newlines k) l'" ..
    with reads.on [OF reads_eat [OF t u(1)]] True have "reads l (newlines (Suc k)) l'"
      by fastforce
    then show ?thesis ..
  qed
qed

lemma next_skip_reads:
  assumes "lex_peek l = Ok (t, l1)" "t \<noteq> TEof" "next_skip l1 = Ok l'"
  shows "\<exists>k. reads l (t # newlines k) l'"
proof -
  from assms(3) obtain u l2 where u: "lex_next l1 = Ok (u, l2)" "skip_newlines l2 = Ok l'"
    by (auto simp: next_skip_def)
  from skip_newlines_reads [OF u(2)] reads.on [OF reads_eat [OF assms(1) u(1) assms(2)]]
  show ?thesis by fastforce
qed

lemma skip_peek_reads:
  assumes "lex_peek l = Ok (t, l1)" "t \<noteq> TEof" "skip_peek l1 = Ok (u, l')"
  shows "\<exists>k. reads l (t # newlines k) l' \<and> lex_peek l' = Ok (u, l')"
proof -
  from assms(3) obtain l2 where l2: "next_skip l1 = Ok l2" "lex_peek l2 = Ok (u, l')"
    by (auto simp: skip_peek_def)
  from next_skip_reads [OF assms(1,2) l2(1)] reads.on [OF _ reads.look [OF l2(2)]]
    lex_peek_size [OF l2(2)]
  show ?thesis by (fastforce simp: lex_peek_def)
qed

lemma expect_word_reads: "expect_word l = Ok (w, l') \<Longrightarrow> reads l [TWord w] l'"
proof -
  assume "expect_word l = Ok (w, l')"
  then obtain t l1 where t: "lex_next l = Ok (t, l1)" by (auto simp: expect_word_def)
  with \<open>expect_word l = Ok (w, l')\<close> have "t = TWord w \<and> l1 = l'"
    by (cases t) (simp_all add: expect_word_def)
  with t show ?thesis by (auto intro: reads.eat)
qed

lemma expect_reads: "expect t l = Ok l' \<Longrightarrow> t \<noteq> TEof \<Longrightarrow> reads l [t] l'"
  by (auto simp: expect_def split: if_splits intro: reads.eat)

lemma simple_parts_reads:
  "simple_parts argv rs l = Ok ((argv', rs'), l') \<Longrightarrow> g_simple ts0 argv rs \<Longrightarrow>
     \<exists>ts. reads l ts l' \<and> g_simple (ts0 @ ts) argv' rs'"
proof (induction "lex_size l" arbitrary: argv rs l ts0 rule: less_induct)
  case less
  from less.prems(1) obtain t l1 where t: "lex_peek l = Ok (t, l1)"
    by (subst (asm) simple_parts.simps) auto
  note body = less.prems(1) [unfolded simple_parts.simps [of argv rs l] t and_then_Inr prod.case]
  have one: "\<exists>ts. reads l ts l' \<and> g_simple (ts0 @ ts) argv' rs'"
    if "lex_next l1 = Ok (u, l2)" "t \<noteq> TEof" "\<exists>ts. reads l2 ts l' \<and> g_simple ((ts0 @ [t]) @ ts) argv' rs'"
    for u l2
  proof -
    from that(3) obtain ts where ts: "reads l2 ts l'" "g_simple ((ts0 @ [t]) @ ts) argv' rs'" by blast
    from reads.on [OF reads_eat [OF t that(1,2)] ts(1)] ts(2) show ?thesis by auto
  qed
  consider w where "t = TWord w" | s d where "t = TDupFd s d"
    | c b where "t = THereDoc c b" | f where "file_redirect t = Some f"
    | "file_redirect t = None" "\<And>w. t \<noteq> TWord w" "\<And>s d. t \<noteq> TDupFd s d" "\<And>c b. t \<noteq> THereDoc c b"
    by (cases t) auto
  then show ?case
  proof cases
    case word: 1
    with body obtain u l2 where u: "lex_next l1 = Ok (u, l2)"
      "simple_parts (argv @ [w]) rs l2 = Ok ((argv', rs'), l')"
      by auto
    from less.hyps [OF _ u(2), of "ts0 @ [t]"] peek_next_size [OF t u(1)] g_simple.intros(2) [OF less.prems(2)]
      one [OF u(1)] word show ?thesis by simp
  next
    case dup: 2
    with body obtain u l2 where u: "lex_next l1 = Ok (u, l2)"
      "simple_parts argv (rs @ [dup_fd s d]) l2 = Ok ((argv', rs'), l')"
      by auto
    from less.hyps [OF _ u(2), of "ts0 @ [t]"] peek_next_size [OF t u(1)] g_simple.intros(3) [OF less.prems(2)]
      one [OF u(1)] dup show ?thesis by simp
  next
    case here: 3
    with body obtain u l2 where u: "lex_next l1 = Ok (u, l2)"
      "simple_parts argv (rs @ [stdin_heredoc c b]) l2 = Ok ((argv', rs'), l')"
      by auto
    from less.hyps [OF _ u(2), of "ts0 @ [t]"] peek_next_size [OF t u(1)] g_simple.intros(4) [OF less.prems(2)]
      one [OF u(1)] here show ?thesis by simp
  next
    case redir: 4
    then have "t \<noteq> TEof" by auto
    from redir body obtain u l2 w l3 where u: "lex_next l1 = Ok (u, l2)" "expect_word l2 = Ok (w, l3)"
      "simple_parts argv (rs @ f w) l3 = Ok ((argv', rs'), l')"
      by (cases t) auto
    have "\<exists>ts. reads l3 ts l' \<and> g_simple ((ts0 @ [t, TWord w]) @ ts) argv' rs'"
      using less.hyps [OF peek_next_word_size [OF t u(1,2)] u(3)]
        g_simple.intros(5) [OF less.prems(2) redir, of w] by blast
    then obtain ts where ts: "reads l3 ts l'" "g_simple ((ts0 @ [t, TWord w]) @ ts) argv' rs'" by blast
    from reads.on [OF reads_eat [OF t u(1) \<open>t \<noteq> TEof\<close>] reads.on [OF expect_word_reads [OF u(2)] ts(1)]] ts(2)
    show ?thesis by (intro exI [of _ "t # TWord w # ts"]) simp
  next
    case other: 5
    with body have "argv' = argv" "rs' = rs" "l' = l1"
      by (auto split: token.splits)
    with less.prems(2) reads.look [OF t] show ?thesis by (intro exI [of _ "[]"]) simp
  qed
qed

text \<open>What each function of the descent owes for a given fuel.\<close>

definition line_sound :: "nat \<Rightarrow> bool" where
  "line_sound n \<longleftrightarrow> (\<forall>commands l c l'. parse_command_line n commands l = Some (Ok (c, l')) \<longrightarrow>
     (\<exists>ts cs. reads l ts l' \<and> g_items ts cs \<and> c = flatten (commands @ cs)))"

definition list_sound :: "nat \<Rightarrow> bool" where
  "list_sound n \<longleftrightarrow> (\<forall>l c l'. parse_list n l = Some (Ok (c, l')) \<longrightarrow> (\<exists>ts. reads l ts l' \<and> g_list ts c))"

definition list_loop_sound :: "nat \<Rightarrow> bool" where
  "list_loop_sound n \<longleftrightarrow> (\<forall>left l c l' us. list_loop n left l = Some (Ok (c, l')) \<longrightarrow> g_list us left \<longrightarrow>
     (\<exists>ts. reads l ts l' \<and> g_list (us @ ts) c))"

definition pipeline_sound :: "nat \<Rightarrow> bool" where
  "pipeline_sound n \<longleftrightarrow> (\<forall>l c l'. parse_pipeline n l = Some (Ok (c, l')) \<longrightarrow>
     (\<exists>ts cs. reads l ts l' \<and> g_pipeline ts cs \<and> c = pipeline cs))"

definition pipeline_loop_sound :: "nat \<Rightarrow> bool" where
  "pipeline_loop_sound n \<longleftrightarrow> (\<forall>commands l c l' us. pipeline_loop n commands l = Some (Ok (c, l')) \<longrightarrow>
     g_pipeline us commands \<longrightarrow>
     (\<exists>ts cs. reads l ts l' \<and> g_pipeline (us @ ts) cs \<and> c = pipeline cs))"

definition command_sound :: "nat \<Rightarrow> bool" where
  "command_sound n \<longleftrightarrow>
     (\<forall>l c l'. parse_command n l = Some (Ok (c, l')) \<longrightarrow> (\<exists>ts. reads l ts l' \<and> g_command ts c))"

lemmas sound_defs = line_sound_def list_sound_def list_loop_sound_def pipeline_sound_def
  pipeline_loop_sound_def command_sound_def

lemma parse_simple_sound:
  assumes "parse_simple_command l = Ok (c, l')"
  shows "\<exists>ts. reads l ts l' \<and> g_command ts c"
proof -
  from assms obtain argv rs where p: "simple_parts [] [] l = Ok ((argv, rs), l')"
    "\<not> (argv = [] \<and> rs = [])" "c = Simple (if argv = [] then [[unquoted '':'']] else argv) rs"
    by (auto simp: parse_simple_command_def split: if_splits)
  from simple_parts_reads [OF p(1) g_simple.intros(1)] obtain ts where
    "reads l ts l'" "g_simple ts argv rs" by auto
  with p(2,3) show ?thesis
    by (cases "argv = []") (auto intro: command_simple command_redirects)
qed

lemma command_sound_Suc: "line_sound n \<Longrightarrow> command_sound (Suc n)"
  unfolding command_sound_def
proof (intro allI impI)
  fix l c l'
  assume line: "line_sound n" and p: "parse_command (Suc n) l = Some (Ok (c, l'))"
  then obtain t l1 where t: "lex_peek l = Ok (t, l1)" by auto
  show "\<exists>ts. reads l ts l' \<and> g_command ts c"
  proof (cases "t = TLParen")
    case False
    with p t have "parse_simple_command l1 = Ok (c, l')" by simp
    from parse_simple_sound [OF this] obtain ts where "reads l1 ts l'" "g_command ts c" by blast
    with reads.on [OF reads.look [OF t]] show ?thesis by fastforce
  next
    case True
    with p t obtain l2 d l3 where l2: "next_skip l1 = Ok l2"
      "parse_command_line n [] l2 = Some (Ok (d, l3))" "expect TRParen l3 = Ok l'" "c = Subshell d"
      by (auto split: sum.splits)
    from line l2(2) obtain ts cs where ts: "reads l2 ts l3" "g_items ts cs" "d = flatten cs"
      by (force simp: line_sound_def)
    from next_skip_reads [OF t _ l2(1)] True obtain k where k: "reads l (TLParen # newlines k) l2" by auto
    from reads.on [OF k reads.on [OF ts(1) expect_reads [OF l2(3)]]] command_subshell [OF ts(2), of k] ts(3) l2(4)
    show ?thesis by auto
  qed
qed

lemma pipeline_loop_sound_Suc:
  "command_sound n \<Longrightarrow> pipeline_loop_sound n \<Longrightarrow> pipeline_loop_sound (Suc n)"
  unfolding pipeline_loop_sound_def [of "Suc n"]
proof (intro allI impI)
  fix commands l c l' us
  assume IH: "command_sound n" "pipeline_loop_sound n"
    and p: "pipeline_loop (Suc n) commands l = Some (Ok (c, l'))" and us: "g_pipeline us commands"
  from p obtain t l1 where t: "lex_peek l = Ok (t, l1)" by auto
  show "\<exists>ts cs. reads l ts l' \<and> g_pipeline (us @ ts) cs \<and> c = pipeline cs"
  proof (cases "t = TPipe")
    case False
    with p t us reads.look [OF t] show ?thesis
      by (auto intro!: exI [of _ "[]"] exI [of _ commands])
  next
    case True
    with p t obtain l2 d l3 where l2: "next_skip l1 = Ok l2" "parse_command n l2 = Some (Ok (d, l3))"
      "pipeline_loop n (commands @ [d]) l3 = Some (Ok (c, l'))"
      by (auto split: sum.splits)
    from IH(1) l2(2) obtain ts where ts: "reads l2 ts l3" "g_command ts d"
      unfolding command_sound_def by blast
    from next_skip_reads [OF t _ l2(1)] True obtain k where k: "reads l (TPipe # newlines k) l2" by auto
    from IH(2) l2(3) pipeline_more [OF us ts(2), of k] obtain vs cs where
      "reads l3 vs l'" "g_pipeline ((us @ TPipe # newlines k @ ts) @ vs) cs" "c = pipeline cs"
      unfolding pipeline_loop_sound_def by blast
    with reads.on [OF k reads.on [OF ts(1)]] show ?thesis
      by (intro exI [of _ "(TPipe # newlines k) @ ts @ vs"]) auto
  qed
qed

lemma pipeline_sound_Suc:
  assumes "command_sound n" "pipeline_loop_sound n"
  shows "pipeline_sound (Suc n)"
  unfolding pipeline_sound_def
proof (intro allI impI)
  fix l c l'
  assume "parse_pipeline (Suc n) l = Some (Ok (c, l'))"
  then obtain d l1 where d: "parse_command n l = Some (Ok (d, l1))"
    "pipeline_loop n [d] l1 = Some (Ok (c, l'))"
    by auto
  from assms(1) d(1) obtain us where us: "reads l us l1" "g_command us d"
    unfolding command_sound_def by blast
  from assms(2) d(2) pipeline_one [OF us(2)] obtain ts cs where
    "reads l1 ts l'" "g_pipeline (us @ ts) cs" "c = pipeline cs"
    unfolding pipeline_loop_sound_def by blast
  with reads.on [OF us(1)] show "\<exists>ts cs. reads l ts l' \<and> g_pipeline ts cs \<and> c = pipeline cs" by blast
qed

lemma list_loop_sound_Suc:
  assumes "pipeline_sound n" "list_loop_sound n"
  shows "list_loop_sound (Suc n)"
  unfolding list_loop_sound_def
proof (intro allI impI)
  fix left l c l' us
  assume p: "list_loop (Suc n) left l = Some (Ok (c, l'))" and us: "g_list us left"
  from p obtain t l1 where t: "lex_peek l = Ok (t, l1)" by auto
  show "\<exists>ts. reads l ts l' \<and> g_list (us @ ts) c"
  proof (cases "t = TAnd \<or> t = TOr")
    case False
    with p t us reads.look [OF t] show ?thesis by (intro exI [of _ "[]"]) auto
  next
    case True
    define f where "f = (if t = TAnd then AndList else OrList)"
    from True p t obtain l2 d l3 where l2: "next_skip l1 = Ok l2" "parse_pipeline n l2 = Some (Ok (d, l3))"
      "list_loop n (f left d) l3 = Some (Ok (c, l'))"
      by (auto simp: f_def split: sum.splits)
    from assms(1) l2(2) obtain ts cs where ts: "reads l2 ts l3" "g_pipeline ts cs" "d = pipeline cs"
      unfolding pipeline_sound_def by blast
    from True have "t \<noteq> TEof" by auto
    from next_skip_reads [OF t this l2(1)] obtain k where k: "reads l (t # newlines k) l2" by auto
    have "g_list (us @ t # newlines k @ ts) (f left d)"
      using True list_and [OF us ts(2), of k] list_or [OF us ts(2), of k] ts(3) by (auto simp: f_def)
    with assms(2) l2(3) obtain vs where
      "reads l3 vs l'" "g_list ((us @ t # newlines k @ ts) @ vs) c"
      unfolding list_loop_sound_def by blast
    with reads.on [OF k reads.on [OF ts(1)]] show ?thesis
      by (intro exI [of _ "(t # newlines k) @ ts @ vs"]) auto
  qed
qed

lemma list_sound_Suc:
  assumes "pipeline_sound n" "list_loop_sound n"
  shows "list_sound (Suc n)"
  unfolding list_sound_def
proof (intro allI impI)
  fix l c l'
  assume "parse_list (Suc n) l = Some (Ok (c, l'))"
  then obtain d l1 where d: "parse_pipeline n l = Some (Ok (d, l1))" "list_loop n d l1 = Some (Ok (c, l'))"
    by auto
  from assms(1) d(1) obtain us cs where us: "reads l us l1" "g_pipeline us cs" "d = pipeline cs"
    unfolding pipeline_sound_def by blast
  from assms(2) d(2) list_one [OF us(2)] us(3) obtain ts where "reads l1 ts l'" "g_list (us @ ts) c"
    unfolding list_loop_sound_def by blast
  with reads.on [OF us(1)] show "\<exists>ts. reads l ts l' \<and> g_list ts c" by blast
qed

lemma line_continue:
  assumes "line_sound n" "reads l ts l1" "g_list ts d" "reads l1 us l2" "g_separator us f"
    and "c = flatten (commands @ [f d]) \<and> l' = l2 \<or>
      parse_command_line n (commands @ [f d]) l2 = Some (Ok (c, l'))"
  shows "\<exists>ts cs. reads l ts l' \<and> g_items ts cs \<and> c = flatten (commands @ cs)"
  using assms(6)
proof
  assume "c = flatten (commands @ [f d]) \<and> l' = l2"
  with reads.on [OF assms(2,4)] items_closed [OF assms(3,5)] show ?thesis by blast
next
  assume "parse_command_line n (commands @ [f d]) l2 = Some (Ok (c, l'))"
  with assms(1) obtain vs cs where "reads l2 vs l'" "g_items vs cs" "c = flatten (commands @ f d # cs)"
    unfolding line_sound_def by fastforce
  with reads.on [OF assms(2) reads.on [OF assms(4)]] items_more [OF assms(3,5)] show ?thesis by blast
qed

lemma line_sound_Suc:
  assumes "list_sound n" "line_sound n"
  shows "line_sound (Suc n)"
  unfolding line_sound_def [of "Suc n"]
proof (intro allI impI)
  fix commands l c l'
  assume p: "parse_command_line (Suc n) commands l = Some (Ok (c, l'))"
  then obtain d l1 t l2 where d: "parse_list n l = Some (Ok (d, l1))" "lex_peek l1 = Ok (t, l2)"
    by auto
  from assms(1) d(1) obtain ts where ts: "reads l ts l1" "g_list ts d"
    unfolding list_sound_def by blast
  note go_on = line_continue [OF assms(2) ts]
  consider "t = TSemi" | "t = TAmp" | "t \<noteq> TSemi" "t \<noteq> TAmp" by blast
  then show "\<exists>ts cs. reads l ts l' \<and> g_items ts cs \<and> c = flatten (commands @ cs)"
  proof cases
    case 1
    with p d obtain u l3 where u: "skip_peek l2 = Ok (u, l3)" by auto
    from skip_peek_reads [OF d(2) _ u] 1 obtain k where
      k: "reads l1 (TSemi # newlines k) l3" "lex_peek l3 = Ok (u, l3)" by auto
    show ?thesis
    proof (cases "u = TAmp \<and> \<not> ends_line u")
      case False
      with p d 1 u k(2) show ?thesis
        by (intro go_on [OF k(1) g_separator.intros(1)]) (auto simp: ends_line_def split: if_splits)
    next
      case True
      with p d 1 u obtain v l4 where v: "skip_peek l3 = Ok (v, l4)" by auto
      from skip_peek_reads [OF k(2) _ v] True obtain m where
        m: "reads l3 (TAmp # newlines m) l4" by auto
      have "reads l1 (TSemi # newlines k @ TAmp # newlines m) l4"
        using reads.on [OF k(1) m] by simp
      from go_on [OF this g_separator.intros(2)] p d 1 u True v show ?thesis
        by (auto split: if_splits)
    qed
  next
    case 2
    with p d obtain u l3 where u: "skip_peek l2 = Ok (u, l3)" by auto
    from skip_peek_reads [OF d(2) _ u] 2 obtain k where k: "reads l1 (TAmp # newlines k) l3" by auto
    from go_on [OF k g_separator.intros(3)] p d 2 u show ?thesis by (auto split: if_splits)
  next
    case 3
    with p d have "c = flatten (commands @ [d])" "l' = l2" by simp_all
    with reads.on [OF ts(1) reads.look [OF d(2)]] items_last [OF ts(2)] show ?thesis by auto
  qed
qed

lemma sound_all:
  "line_sound n \<and> list_sound n \<and> list_loop_sound n \<and> pipeline_sound n \<and> pipeline_loop_sound n \<and>
     command_sound n"
proof (induction n)
  case 0
  show ?case by (simp add: sound_defs)
next
  case (Suc n)
  then show ?case
    by (simp add: line_sound_Suc list_sound_Suc list_loop_sound_Suc pipeline_sound_Suc
        pipeline_loop_sound_Suc command_sound_Suc)
qed

section \<open>Enough fuel\<close>

lemma g_simple_empty: "g_simple [] argv rs \<Longrightarrow> argv = [] \<and> rs = []"
  by (erule g_simple.cases) simp_all

lemma grammar_nonempty:
  "g_command ts c \<Longrightarrow> ts \<noteq> []" "g_pipeline ts cs \<Longrightarrow> ts \<noteq> []" "g_list ts c \<Longrightarrow> ts \<noteq> []"
  "g_items ts cs \<Longrightarrow> ts \<noteq> []"
  by (induction rule: g_command_g_pipeline_g_list_g_items.inducts) (auto dest: g_simple_empty)

lemma reads_below: "reads l ts l' \<Longrightarrow> ts \<noteq> [] \<Longrightarrow> lex_size l' < lex_size l"
  using reads_size [of l ts l'] by (cases ts) auto

lemma descent_size:
  "parse_command n l = Some (Ok (c, l')) \<Longrightarrow> lex_size l' < lex_size l"
  "parse_pipeline n l = Some (Ok (c, l')) \<Longrightarrow> lex_size l' < lex_size l"
  "parse_list n l = Some (Ok (c, l')) \<Longrightarrow> lex_size l' < lex_size l"
  using sound_all [of n] grammar_nonempty reads_below
  unfolding command_sound_def pipeline_sound_def list_sound_def by blast+

lemma pbind_total:
  "m \<noteq> None \<Longrightarrow> (\<And>x l. m = Some (Ok (x, l)) \<Longrightarrow> f x l \<noteq> None) \<Longrightarrow> pbind m f \<noteq> None"
  by (auto simp: pbind_def split: option.split sum.split)

text \<open>The fuel for a lexer of size \<open>s\<close>: eight calls for each unit of size, and the rank of the
  function among those that call each other without reading.\<close>

definition fuel_for :: "nat \<Rightarrow> nat \<Rightarrow> nat" where
  "fuel_for rank s = 8 * s + rank"

lemma next_skip_size: "lex_peek l = Ok (t, l1) \<Longrightarrow> t \<noteq> TEof \<Longrightarrow> next_skip l1 = Ok l2 \<Longrightarrow>
    lex_size l2 < lex_size l"
  using next_skip_reads [of l t l1 l2] reads_below [of l _ l2] by fastforce

lemma skip_peek_size: "lex_peek l = Ok (t, l1) \<Longrightarrow> t \<noteq> TEof \<Longrightarrow> skip_peek l1 = Ok (u, l2) \<Longrightarrow>
    lex_size l2 < lex_size l \<and> lex_peek l2 = Ok (u, l2)"
  using skip_peek_reads [of l t l1 u l2] reads_below [of l _ l2] by fastforce

definition fuel_ok :: "nat \<Rightarrow> bool" where
  "fuel_ok n \<longleftrightarrow>
     (\<forall>l. fuel_for 1 (lex_size l) \<le> n \<longrightarrow> parse_command n l \<noteq> None) \<and>
     (\<forall>cs l. fuel_for 1 (lex_size l) \<le> n \<longrightarrow> pipeline_loop n cs l \<noteq> None) \<and>
     (\<forall>l. fuel_for 2 (lex_size l) \<le> n \<longrightarrow> parse_pipeline n l \<noteq> None) \<and>
     (\<forall>c l. fuel_for 1 (lex_size l) \<le> n \<longrightarrow> list_loop n c l \<noteq> None) \<and>
     (\<forall>l. fuel_for 3 (lex_size l) \<le> n \<longrightarrow> parse_list n l \<noteq> None) \<and>
     (\<forall>cs l. fuel_for 4 (lex_size l) \<le> n \<longrightarrow> parse_command_line n cs l \<noteq> None)"

lemma fuel_SucE:
  assumes "fuel_for r s \<le> n" "0 < r"
  obtains m where "n = Suc m" "fuel_for (r - 1) s \<le> m"
  using assms by (cases n) (auto simp: fuel_for_def)

lemma fuel_smaller: "fuel_for 0 s \<le> n \<Longrightarrow> s' < s \<Longrightarrow> r \<le> 8 \<Longrightarrow> fuel_for r s' \<le> n"
  unfolding fuel_for_def by simp

lemma fuel_below:
  assumes "fuel_ok n" "fuel_for r s \<le> Suc n" "0 < r" "lex_size l < s"
  shows "parse_command n l \<noteq> None" "pipeline_loop n cs l \<noteq> None" "parse_pipeline n l \<noteq> None"
    "list_loop n c l \<noteq> None" "parse_list n l \<noteq> None" "parse_command_line n cs l \<noteq> None"
proof -
  have "fuel_for k (lex_size l) \<le> n" if "k \<le> 8" for k
    using assms(2-4) that by (simp add: fuel_for_def)
  from this [of 1] this [of 2] this [of 3] this [of 4] assms(1)
  show "parse_command n l \<noteq> None" "pipeline_loop n cs l \<noteq> None" "parse_pipeline n l \<noteq> None"
    "list_loop n c l \<noteq> None" "parse_list n l \<noteq> None" "parse_command_line n cs l \<noteq> None"
    unfolding fuel_ok_def by auto
qed

text \<open>An operator, the newlines after it, an operand, and the rest of the loop.\<close>

lemma operand_total:
  assumes "lex_peek l = Ok (t, l1)" "t \<noteq> TEof"
    and "\<And>l2. lex_size l2 < lex_size l \<Longrightarrow> p l2 \<noteq> None"
    and "\<And>l2 x l3. p l2 = Some (Ok (x, l3)) \<Longrightarrow> lex_size l3 \<le> lex_size l2"
    and "\<And>x l3. lex_size l3 < lex_size l \<Longrightarrow> f x l3 \<noteq> None"
  shows "(case next_skip l1 of Inl e \<Rightarrow> Some (Err e) | Inr l2 \<Rightarrow> pbind (p l2) f) \<noteq> None"
proof (cases "next_skip l1")
  case (Inr l2)
  with next_skip_size [OF assms(1,2)] have l2: "lex_size l2 < lex_size l" by simp
  have "pbind (p l2) f \<noteq> None"
  proof (rule pbind_total [OF assms(3) [OF l2]])
    fix x l3
    assume "p l2 = Some (Ok (x, l3))"
    from assms(4) [OF this] l2 show "f x l3 \<noteq> None" by (intro assms(5)) simp
  qed
  with Inr show ?thesis by simp
qed simp

lemma command_fuel:
  assumes "fuel_ok n" "fuel_for 1 (lex_size l) \<le> Suc n"
  shows "parse_command (Suc n) l \<noteq> None"
  unfolding parse_command.simps
proof (intro pbind_total)
  fix t l1
  assume "Some (lex_peek l) = Some (Ok (t, l1))"
  then have t: "lex_peek l = Ok (t, l1)" by simp
  show "(if t = TLParen then (case next_skip l1 of Inl e \<Rightarrow> Some (Err e)
      | Inr l \<Rightarrow> pbind (parse_command_line n [] l) (\<lambda>c l. Some (map_ok (\<lambda>l. (Subshell c, l)) (expect TRParen l))))
    else Some (parse_simple_command l1)) \<noteq> None"
  proof (cases "t = TLParen \<and> (\<exists>l2. next_skip l1 = Ok l2)")
    case True
    then obtain l2 where l2: "next_skip l1 = Ok l2" and tp: "t = TLParen" by blast
    have "parse_command_line n [] l2 \<noteq> None"
      using next_skip_size [OF t _ l2] tp fuel_below(6) [OF assms, of l2] by simp
    then have "pbind (parse_command_line n [] l2)
        (\<lambda>c l. Some (map_ok (\<lambda>l. (Subshell c, l)) (expect TRParen l))) \<noteq> None"
      by (rule pbind_total) simp
    with l2 tp show ?thesis by simp
  qed (auto split: sum.split)
qed simp

lemma pipeline_loop_fuel:
  assumes "fuel_ok n" "fuel_for 1 (lex_size l) \<le> Suc n"
  shows "pipeline_loop (Suc n) cs l \<noteq> None"
  unfolding pipeline_loop.simps
proof (intro pbind_total)
  fix t l1
  assume "Some (lex_peek l) = Some (Ok (t, l1))"
  then have t: "lex_peek l = Ok (t, l1)" by simp
  show "(if t = TPipe then (case next_skip l1 of Inl e \<Rightarrow> Some (Err e)
      | Inr l \<Rightarrow> pbind (parse_command n l) (\<lambda>c l. pipeline_loop n (cs @ [c]) l))
    else Some (Ok (pipeline cs, l1))) \<noteq> None"
  proof (cases "t = TPipe")
    case True
    then have "t \<noteq> TEof" by simp
    from operand_total [OF t this fuel_below(1) [OF assms] descent_size(1) [THEN less_imp_le]
        fuel_below(2) [OF assms]]
    have "(case next_skip l1 of Inl e \<Rightarrow> Some (Err e)
      | Inr l \<Rightarrow> pbind (parse_command n l) (\<lambda>c l. pipeline_loop n (cs @ [c]) l)) \<noteq> None"
      by simp
    with True show ?thesis by (simp only: if_True simp_thms)
  qed simp
qed simp

lemma list_loop_fuel:
  assumes "fuel_ok n" "fuel_for 1 (lex_size l) \<le> Suc n"
  shows "list_loop (Suc n) c l \<noteq> None"
  unfolding list_loop.simps
proof (intro pbind_total)
  fix t l1
  assume "Some (lex_peek l) = Some (Ok (t, l1))"
  then have t: "lex_peek l = Ok (t, l1)" by simp
  have go: "t = TAnd \<or> t = TOr \<Longrightarrow> (case next_skip l1 of Inl e \<Rightarrow> Some (Err e)
      | Inr l \<Rightarrow> pbind (parse_pipeline n l) (\<lambda>right l. list_loop n (f right) l)) \<noteq> None" for f
    by (rule operand_total [OF t _ fuel_below(3) [OF assms] descent_size(2) [THEN less_imp_le]
          fuel_below(4) [OF assms]]) auto
  show "(if t = TAnd then (case next_skip l1 of Inl e \<Rightarrow> Some (Err e)
      | Inr l \<Rightarrow> pbind (parse_pipeline n l) (\<lambda>right l. list_loop n (AndList c right) l))
    else if t = TOr then (case next_skip l1 of Inl e \<Rightarrow> Some (Err e)
      | Inr l \<Rightarrow> pbind (parse_pipeline n l) (\<lambda>right l. list_loop n (OrList c right) l))
    else Some (Ok (c, l1))) \<noteq> None"
    using go [of "AndList c"] go [of "OrList c"] by simp
qed simp

lemma pipeline_fuel:
  assumes "fuel_ok n" "fuel_for 2 (lex_size l) \<le> Suc n"
  shows "parse_pipeline (Suc n) l \<noteq> None"
proof -
  have "parse_command n l \<noteq> None" using assms by (auto simp: fuel_ok_def fuel_for_def)
  then show ?thesis
    unfolding parse_pipeline.simps
    by (intro pbind_total) (auto dest!: descent_size(1) intro!: fuel_below(2) [OF assms, simplified])
qed

lemma list_fuel:
  assumes "fuel_ok n" "fuel_for 3 (lex_size l) \<le> Suc n"
  shows "parse_list (Suc n) l \<noteq> None"
proof -
  have "parse_pipeline n l \<noteq> None" using assms by (auto simp: fuel_ok_def fuel_for_def)
  then show ?thesis
    unfolding parse_list.simps
    by (intro pbind_total) (auto dest!: descent_size(2) intro!: fuel_below(4) [OF assms, simplified])
qed

lemma skip_peek_total:
  assumes "lex_peek l = Ok (t, l1)" "t \<noteq> TEof"
    and "\<And>u l2. lex_peek l2 = Ok (u, l2) \<Longrightarrow> lex_size l2 < lex_size l \<Longrightarrow> f u l2 \<noteq> None"
  shows "pbind (Some (skip_peek l1)) f \<noteq> None"
  using skip_peek_size [OF assms(1,2)] assms(3) by (intro pbind_total) auto

lemma line_fuel:
  assumes "fuel_ok n" "fuel_for 4 (lex_size l) \<le> Suc n"
  shows "parse_command_line (Suc n) cs l \<noteq> None"
  unfolding parse_command_line.simps
proof (intro pbind_total)
  show "parse_list n l \<noteq> None" using assms by (auto simp: fuel_ok_def fuel_for_def)
next
  fix d l1 t l2
  assume "parse_list n l = Some (Ok (d, l1))" and "Some (lex_peek l1) = Some (Ok (t, l2))"
  then have l1: "lex_size l1 < lex_size l" and t: "lex_peek l1 = Ok (t, l2)"
    using descent_size(3) by simp_all
  have more: "lex_size m < lex_size l1 \<Longrightarrow> parse_command_line n ds m \<noteq> None" for m ds
    using fuel_below(6) [OF assms] l1 by simp
  have last: "pbind (Some (skip_peek l3))
      (\<lambda>t l. if ends_line t then Some (Ok (ds, l)) else parse_command_line n es l) \<noteq> None"
    if "lex_peek m = Ok (TAmp, l3)" "lex_size m \<le> lex_size l1" for m l3 ds es
    by (rule skip_peek_total [OF that(1)]) (use more that(2) in auto)
  have semi: "pbind (Some (skip_peek l2))
      (\<lambda>t l. if ends_line t then Some (Ok (ds, l))
        else if t = TAmp then pbind (Some (skip_peek l))
          (\<lambda>t l. if ends_line t then Some (Ok (ds, l)) else parse_command_line n es l)
        else parse_command_line n es l) \<noteq> None" if "t = TSemi" for ds es
    by (rule skip_peek_total [OF t]) (use more last that in auto)
  show "(if t = TSemi then
         pbind (Some (skip_peek l2)) (\<lambda>t l.
           if ends_line t then Some (Ok (flatten (cs @ [d]), l))
           else if t = TAmp then
             pbind (Some (skip_peek l)) (\<lambda>t l.
               if ends_line t then Some (Ok (flatten (cs @ [d]), l))
               else parse_command_line n (cs @ [d]) l)
           else parse_command_line n (cs @ [d]) l)
       else if t = TAmp then
         pbind (Some (skip_peek l2)) (\<lambda>t l.
           if ends_line t then Some (Ok (flatten (cs @ [Background d]), l))
           else parse_command_line n (cs @ [Background d]) l)
       else Some (Ok (flatten (cs @ [d]), l2))) \<noteq> None"
    using semi [of "flatten (cs @ [d])" "cs @ [d]"] t
      last [of l1 l2 "flatten (cs @ [Background d])" "cs @ [Background d]"]
    by (simp only: if_True if_False simp_thms split: if_split) blast
qed simp

lemma fuel_enough: "fuel_ok n"
proof (induction n)
  case 0
  show ?case by (simp add: fuel_ok_def fuel_for_def)
next
  case (Suc n)
  then show ?case
    unfolding fuel_ok_def [of "Suc n"]
    by (intro conjI allI impI command_fuel pipeline_loop_fuel list_loop_fuel pipeline_fuel list_fuel line_fuel)
qed

section \<open>The parser\<close>

lemma skip_newlines_first: "skip_newlines l = Ok l' \<Longrightarrow> \<exists>t. lex_peek l' = Ok (t, l') \<and> t \<noteq> TNewline"
proof (induction l rule: skip_newlines.induct)
  case (1 l)
  from "1.prems" obtain t l1 where t: "lex_peek l = Ok (t, l1)"
    by (subst (asm) skip_newlines.simps) auto
  show ?case
  proof (cases "t = TNewline")
    case False
    with "1.prems" t lex_peek_size [OF t] show ?thesis
      by (auto simp: skip_newlines.simps [of l] lex_peek_def)
  next
    case True
    with "1.prems" t obtain u l2 where "lex_next l1 = Ok (u, l2)" "skip_newlines l2 = Ok l'"
      by (auto simp: skip_newlines.simps [of l])
    with "1.IH" [OF t refl True] show ?thesis by blast
  qed
qed

lemma token_stream_peek:
  "lex_peek l = Ok (t, l) \<Longrightarrow> token_stream l = (if t = TEof then ([], None) else (t # fst (all_tokens l), snd (all_tokens l)))"
  using lex_peek_size [of l t l] by (auto simp: token_stream_def split: prod.split)

lemma parse_returns: "parse s \<noteq> None"
proof -
  have "parse_from s \<noteq> None"
  proof (cases "skip_newlines (lexer_new s)")
    case (Inr l)
    with skip_newlines_reads reads_size have l: "lex_size l \<le> 2 * length s"
      by (fastforce simp: lex_size_def lexer_new_def)
    have line: "parse_command_line (parse_fuel s) [] m \<noteq> None" if "at_end l = Ok (e, m)" for e m
    proof -
      from that lex_peek_size have "lex_size m \<le> lex_size l"
        unfolding at_end_def by (cases "lex_peek l") fastforce+
      with l have "fuel_for 4 (lex_size m) \<le> parse_fuel s" by (simp add: fuel_for_def parse_fuel_def)
      with fuel_enough [of "parse_fuel s"] show ?thesis by (simp add: fuel_ok_def)
    qed
    have "pbind (Some (at_end l)) (\<lambda>e m. if e then Some (Ok (Empty, m))
        else pbind (parse_command_line (parse_fuel s) [] m)
          (\<lambda>c m. Some (map_ok (\<lambda>m. (c, m)) (skip_newlines m)))) \<noteq> None"
    proof (rule pbind_total)
      fix e m
      assume "Some (at_end l) = Some (Ok (e, m))"
      then have "at_end l = Ok (e, m)" by simp
      from pbind_total [OF line [OF this], of "\<lambda>c m. Some (map_ok (\<lambda>m. (c, m)) (skip_newlines m))"]
      show "(if e then Some (Ok (Empty, m)) else pbind (parse_command_line (parse_fuel s) [] m)
          (\<lambda>c m. Some (map_ok (\<lambda>m. (c, m)) (skip_newlines m)))) \<noteq> None" by simp
    qed simp
    with Inr show ?thesis unfolding parse_from_def by simp
  qed (simp add: parse_from_def)
  then show ?thesis by (simp add: parse_def)
qed

text \<open>C33. The parser returns on every text: the descent ends within its fuel.\<close>

theorem parse_total: "parse s \<noteq> None"
  by (rule parse_returns)

lemma parse_derives:
  assumes "parse s = Some (Ok c)"
  shows "(\<exists>k. all_tokens (lexer_new s) = (newlines k, None)) \<and> c = Empty \<or>
    (\<exists>k ts cs m rest e. all_tokens (lexer_new s) = (newlines k @ ts @ newlines m @ rest, e) \<and>
      (rest = [] \<or> hd rest \<noteq> TNewline) \<and> g_items ts cs \<and> c = flatten cs)"
proof -
  have new: "token_stream (lexer_new s) = all_tokens (lexer_new s)"
    by (simp add: token_stream_def lexer_new_def)
  from assms obtain l' where "parse_from s = Some (Ok (c, l'))"
    by (auto simp: parse_def split: sum.splits)
  then obtain l e m where l: "skip_newlines (lexer_new s) = Ok l" and e: "at_end l = Ok (e, m)"
    and c: "if e then c = Empty else \<exists>n. parse_command_line (parse_fuel s) [] m = Some (Ok (c, n)) \<and>
      skip_newlines n = Ok l'"
    by (cases "skip_newlines (lexer_new s)") (fastforce simp: parse_from_def split: if_splits sum.splits)+
  from skip_newlines_first [OF l] obtain t where t: "lex_peek l = Ok (t, l)" by blast
  with e have m: "m = l" "e = (t = TEof)" by (simp_all add: at_end_def)
  from skip_newlines_reads [OF l] obtain k where k: "reads (lexer_new s) (newlines k) l" ..
  show ?thesis
  proof (cases e)
    case True
    with m t reads_stream [OF k] c show ?thesis by (auto simp: new token_stream_peek)
  next
    case False
    with c m(1) obtain n where n: "parse_command_line (parse_fuel s) [] l = Some (Ok (c, n))"
      "skip_newlines n = Ok l'" by auto
    from sound_all [of "parse_fuel s"] n(1) obtain ts cs where
      ts: "reads l ts n" "g_items ts cs" "c = flatten cs"
      unfolding line_sound_def by fastforce
    from skip_newlines_reads [OF n(2)] obtain j where j: "reads n (newlines j) l'" ..
    from skip_newlines_first [OF n(2)] have "fst (token_stream l') = [] \<or> hd (fst (token_stream l')) \<noteq> TNewline"
      by (auto simp: token_stream_peek split: if_splits)
    moreover have "all_tokens (lexer_new s) =
        (newlines k @ ts @ newlines j @ fst (token_stream l'), snd (token_stream l'))"
      using reads_stream [OF reads.on [OF k reads.on [OF ts(1) j]]] by (simp add: new)
    ultimately show ?thesis using ts(2,3) by blast
  qed
qed

text \<open>C32. What the parser returns is derived by the grammar: the tokens of the text are newlines only
  and the command is empty, or they are newlines, the items of one command line, newlines, and a rest
  that does not begin with a newline; the command is that of the items.\<close>

theorem parse_sound:
  assumes "parse s = Some (Ok c)"
  shows "(\<exists>k. all_tokens (lexer_new s) = (newlines k, None)) \<and> c = Empty \<or>
    (\<exists>k ts cs m rest e. all_tokens (lexer_new s) = (newlines k @ ts @ newlines m @ rest, e) \<and>
      (rest = [] \<or> hd rest \<noteq> TNewline) \<and> g_items ts cs \<and> c = flatten cs)"
  by (rule parse_derives [OF assms])

theorem parse_sound_witness:
  "\<exists>k ts cs m rest e. all_tokens (lexer_new ''true && (a; b) & c'') =
      (newlines k @ ts @ newlines m @ rest, e) \<and> (rest = [] \<or> hd rest \<noteq> TNewline) \<and> g_items ts cs \<and>
      Sequence [Background (AndList (Simple [[unquoted ''true'']] [])
        (Subshell (Sequence [Simple [[unquoted ''a'']] [], Simple [[unquoted ''b'']] []]))),
        Simple [[unquoted ''c'']] []] = flatten cs"
proof -
  have "parse ''true && (a; b) & c'' =
    Some (Ok (Sequence [Background (AndList (Simple [[unquoted ''true'']] [])
      (Subshell (Sequence [Simple [[unquoted ''a'']] [], Simple [[unquoted ''b'']] []]))),
      Simple [[unquoted ''c'']] []]))"
    by code_simp
  from parse_sound [OF this] show ?thesis by simp
qed

text \<open>The rest of a text is dropped without an error: a second line, what follows an unmatched
  parenthesis, and a redirection of a subshell are not in the result.\<close>

theorem parse_drops_rest:
  "parse (''echo a'' @ [CHR 0x0A] @ ''echo b'') = parse ''echo a'' \<and>
    parse ''echo a) echo b'' = parse ''echo a'' \<and>
    parse ''(echo a) > log'' = parse ''(echo a)''"
proof -
  have a: "parse ''echo a'' = Some (Ok (Simple [[unquoted ''echo''], [unquoted ''a'']] []))"
    by code_simp
  have b: "parse ''(echo a)'' = Some (Ok (Subshell (Simple [[unquoted ''echo''], [unquoted ''a'']] [])))"
    by code_simp
  have "parse (''echo a'' @ [CHR 0x0A] @ ''echo b'') =
      Some (Ok (Simple [[unquoted ''echo''], [unquoted ''a'']] []))"
    "parse ''echo a) echo b'' = Some (Ok (Simple [[unquoted ''echo''], [unquoted ''a'']] []))"
    "parse ''(echo a) > log'' = Some (Ok (Subshell (Simple [[unquoted ''echo''], [unquoted ''a'']] [])))"
    by code_simp+
  with a b show ?thesis by simp
qed

end
