(* ===== verification/Pipe.thy ===== *)
theory Pipe
  imports Prelude
begin

text \<open>
  The bounded pipe between pipeline stages, \<open>crates/amla-sandbox-scheduler/src/pipe.rs\<close>: a ring
  buffer with the wakers of a blocked reader and a blocked writer. A waker is the number of the
  task it wakes (\<open>will_wake\<close> is equality); an operation returns the wakers it called, in order,
  beside its result and the pipe after it. Sizes are natural numbers: a capacity is the length of
  an allocated buffer, so \<open>capacity * 25\<close> stays far below the range of \<open>usize\<close>.
\<close>

section \<open>The ring buffer\<close>

type_synonym waker = nat

record pipe =
  buffer :: bytes
  head :: nat
  tail :: nat
  len :: nat
  closed :: bool
  read_waker :: "waker option"
  write_waker :: "waker option"
  writer_blocked :: bool
  was_full :: bool
  reader_blocked :: bool

definition default_capacity :: nat where
  "default_capacity = 64 * 1024"

definition low_watermark_percent :: nat where
  "low_watermark_percent = 25"

definition pipe_new :: "nat \<Rightarrow> pipe" where
  "pipe_new cap = \<lparr>buffer = replicate cap 0, head = 0, tail = 0, len = 0, closed = False,
     read_waker = None, write_waker = None, writer_blocked = False, was_full = False,
     reader_blocked = False\<rparr>"

definition capacity :: "pipe \<Rightarrow> nat" where
  "capacity p = length (buffer p)"

definition is_empty :: "pipe \<Rightarrow> bool" where
  "is_empty p = (len p = 0)"

definition is_full :: "pipe \<Rightarrow> bool" where
  "is_full p = (len p = capacity p)"

definition available_write :: "pipe \<Rightarrow> nat" where
  "available_write p = capacity p - len p"

definition is_below_low_watermark :: "pipe \<Rightarrow> bool" where
  "is_below_low_watermark p = (len p \<le> capacity p * low_watermark_percent div 100)"

text \<open>\<open>read_into\<close> with a buffer of \<open>n\<close> bytes: the bytes copied into it.\<close>

definition read_into :: "nat \<Rightarrow> pipe \<Rightarrow> bytes \<times> pipe" where
  "read_into n p =
     (let to_read = min n (len p) in
      if to_read = 0 then ([], p)
      else
        (let cap = capacity p;
             out = (if head p + to_read \<le> cap then take to_read (drop (head p) (buffer p))
               else (let first = cap - head p
                 in drop (head p) (buffer p) @ take (to_read - first) (buffer p)))
         in (out, p\<lparr>head := (head p + to_read) mod cap, len := len p - to_read\<rparr>)))"

text \<open>\<open>copy_from_slice\<close> into the part of a slice that starts at \<open>i\<close>.\<close>

definition splice :: "'a list \<Rightarrow> nat \<Rightarrow> 'a list \<Rightarrow> 'a list" where
  "splice xs i ys = take i xs @ ys @ drop (i + length ys) xs"

definition write_from :: "bytes \<Rightarrow> pipe \<Rightarrow> nat \<times> pipe" where
  "write_from data p =
     (let to_write = min (length data) (available_write p) in
      if to_write = 0 then (0, p)
      else
        (let cap = capacity p;
             buf = (if tail p + to_write \<le> cap then splice (buffer p) (tail p) (take to_write data)
               else (let first = cap - tail p
                 in splice (splice (buffer p) (tail p) (take first data)) 0
                      (drop first (take to_write data))))
         in (to_write,
             p\<lparr>buffer := buf, tail := (tail p + to_write) mod cap, len := len p + to_write\<rparr>)))"

section \<open>Operations\<close>

datatype io_error = BrokenPipe | WouldBlock

definition wake_reader :: "pipe \<Rightarrow> waker list \<times> pipe" where
  "wake_reader p = (take_waker (read_waker p), p\<lparr>read_waker := None\<rparr>)"

definition wake_writer :: "pipe \<Rightarrow> waker list \<times> pipe" where
  "wake_writer p = (take_waker (write_waker p), p\<lparr>writer_blocked := False, write_waker := None\<rparr>)"

definition pipe_close :: "pipe \<Rightarrow> waker list \<times> pipe" where
  "pipe_close p = wake_reader (p\<lparr>closed := True, reader_blocked := False\<rparr>)"

definition drain :: "pipe \<Rightarrow> bytes \<times> waker list \<times> pipe" where
  "drain p =
     (if len p = 0 then ([], [], p)
      else
        (let (out, p) = read_into (len p) p
         in if writer_blocked p then (let (ws, p) = wake_writer p in (out, ws, p))
            else (out, [], p)))"

definition push :: "bytes \<Rightarrow> pipe \<Rightarrow> nat \<times> waker list \<times> pipe" where
  "push data p =
     (let (n, p) = write_from data p
      in if n > 0 then (let (ws, p) = wake_reader (p\<lparr>reader_blocked := False\<rparr>) in (n, ws, p))
         else (n, [], p))"

function push_all :: "bytes \<Rightarrow> pipe \<Rightarrow> (unit, io_error) result \<times> waker list \<times> pipe" where
  "push_all data p =
     (if data = [] then (Ok (), [], p)
      else
        (let (n, ws, p) = push data p
         in if n = 0 then (if closed p then (Err BrokenPipe, ws, p) else (Err WouldBlock, ws, p))
            else (let (r, ws', p) = push_all (drop n data) p in (r, ws @ ws', p))))"
  by pat_completeness auto
termination
  by (relation "measure (\<lambda>(data, p). length data)") auto

declare push_all.simps [simp del]

definition register :: "waker \<Rightarrow> waker option \<Rightarrow> waker option" where
  "register w old = (if old = None \<or> old \<noteq> Some w then Some w else old)"

definition poll_read ::
  "waker \<Rightarrow> nat \<Rightarrow> pipe \<Rightarrow> (bytes, io_error) result poll \<times> waker list \<times> pipe" where
  "poll_read w n p =
     (if \<not> is_empty p then
        (let full = was_full p;
             (out, p) = read_into n p;
             p = p\<lparr>was_full := False, reader_blocked := False\<rparr>
         in if writer_blocked p \<and> (is_below_low_watermark p \<or> full) then
              (let (ws, p) = wake_writer p in (Ready (Ok out), ws, p))
            else (Ready (Ok out), [], p))
      else if closed p then (Ready (Ok []), [], p\<lparr>reader_blocked := False\<rparr>)
      else (Pending, [],
        p\<lparr>reader_blocked := True, read_waker := register w (read_waker p)\<rparr>))"

definition poll_write ::
  "waker \<Rightarrow> bytes \<Rightarrow> pipe \<Rightarrow> (nat, io_error) result poll \<times> waker list \<times> pipe" where
  "poll_write w data p =
     (if closed p then (Ready (Err BrokenPipe), [], p)
      else if \<not> is_full p then
        (let (n, p) = write_from data (p\<lparr>writer_blocked := False\<rparr>);
             p = (if is_full p then p\<lparr>was_full := True\<rparr> else p);
             p = (if n > 0 then p\<lparr>reader_blocked := False\<rparr> else p);
             (ws, p) = wake_reader p
         in (Ready (Ok n), ws, p))
      else (Pending, [],
        p\<lparr>writer_blocked := True, was_full := True, write_waker := register w (write_waker p)\<rparr>))"

text \<open>The futures \<open>PipeRead\<close> and \<open>PipeWrite\<close>: \<open>registered\<close> tells whether the last poll was pending.\<close>

definition pipe_read_drop :: "bool \<Rightarrow> pipe \<Rightarrow> pipe" where
  "pipe_read_drop registered p = (if registered then p\<lparr>read_waker := None\<rparr> else p)"

definition pipe_write_drop :: "bool \<Rightarrow> pipe \<Rightarrow> pipe" where
  "pipe_write_drop registered p =
     (if registered then p\<lparr>write_waker := None, writer_blocked := False\<rparr> else p)"

section \<open>The ring as a queue\<close>

text \<open>What the ring promises its users: it behaves as a bounded queue of bytes.\<close>

locale byte_queue =
  fixes inv :: "'s \<Rightarrow> bool"
    and cap :: "'s \<Rightarrow> nat"
    and contents :: "'s \<Rightarrow> bytes"
    and deq :: "nat \<Rightarrow> 's \<Rightarrow> bytes \<times> 's"
    and enq :: "bytes \<Rightarrow> 's \<Rightarrow> nat \<times> 's"
  assumes deq_out: "inv s \<Longrightarrow> fst (deq n s) = take n (contents s)"
    and deq_rest: "inv s \<Longrightarrow> contents (snd (deq n s)) = drop n (contents s)"
    and deq_inv: "inv s \<Longrightarrow> inv (snd (deq n s)) \<and> cap (snd (deq n s)) = cap s"
    and enq_count: "inv s \<Longrightarrow> fst (enq d s) = min (length d) (cap s - length (contents s))"
    and enq_rest: "inv s \<Longrightarrow> contents (snd (enq d s)) = contents s @ take (fst (enq d s)) d"
    and enq_inv: "inv s \<Longrightarrow> inv (snd (enq d s)) \<and> cap (snd (enq d s)) = cap s"
begin

text \<open>Any sequence of reads (a size) and writes (a block of bytes): the bytes taken out and put in.\<close>

fun flow :: "(nat + bytes) list \<Rightarrow> 's \<Rightarrow> bytes \<times> bytes \<times> 's" where
  "flow [] s = ([], [], s)"
| "flow (Inl n # ops) s =
     (let (out, s) = deq n s; (outs, ins, s) = flow ops s in (out @ outs, ins, s))"
| "flow (Inr d # ops) s =
     (let (n, s) = enq d s; (outs, ins, s) = flow ops s in (outs, take n d @ ins, s))"

lemma flow_fifo:
  "inv s \<Longrightarrow> flow ops s = (outs, ins, s') \<Longrightarrow>
     contents s @ ins = outs @ contents s' \<and> inv s' \<and> cap s' = cap s"
proof (induction ops s arbitrary: outs ins rule: flow.induct)
  case (2 n ops s)
  obtain out t where deq: "deq n s = (out, t)" by fastforce
  obtain outs' ins' where flow: "flow ops t = (outs', ins', s')" "outs = out @ outs'" "ins = ins'"
    using "2.prems"(2) by (auto simp: deq split: prod.splits)
  have t: "out = take n (contents s)" "contents t = drop n (contents s)" "inv t" "cap t = cap s"
    using deq_out [of s n] deq_rest [of s n] deq_inv [of s n] "2.prems"(1) deq by simp_all
  from "2.IH" [of _ _ t] deq t flow show ?case by (metis append.assoc append_take_drop_id)
next
  case (3 d ops s)
  obtain n t where enq: "enq d s = (n, t)" by fastforce
  obtain outs' ins' where flow: "flow ops t = (outs', ins', s')" "outs = outs'" "ins = take n d @ ins'"
    using "3.prems"(2) by (auto simp: enq split: prod.splits)
  have t: "contents t = contents s @ take n d" "inv t" "cap t = cap s"
    using enq_rest [of s d] enq_inv [of s d] "3.prems"(1) enq by simp_all
  from "3.IH" [of _ _ t] enq t flow show ?case by (metis append.assoc)
qed simp

end

definition pipe_ok :: "pipe \<Rightarrow> bool" where
  "pipe_ok p \<longleftrightarrow> 0 < capacity p \<and> head p < capacity p \<and> len p \<le> capacity p \<and>
     tail p = (head p + len p) mod capacity p"

definition pipe_contents :: "pipe \<Rightarrow> bytes" where
  "pipe_contents p = map (\<lambda>i. buffer p ! ((head p + i) mod capacity p)) [0 ..< len p]"

end
