(* ===== verification/PipeSafe.thy ===== *)
theory PipeSafe
  imports Pipe
begin

text \<open>
  The ring buffer implements a bounded first-in first-out queue, and a blocked writer is never
  forgotten.
\<close>

section \<open>Ring arithmetic\<close>

lemma ring_mod:
  "h < cap \<Longrightarrow> i \<le> cap \<Longrightarrow> (h + i) mod cap = (if h + i < cap then h + i else h + i - cap)" for h :: nat
  by (simp add: mod_if le_mod_geq)

lemma ring_mod_inject:
  fixes h :: nat
  assumes "i < cap" "j < cap" "(h + i) mod cap = (h + j) mod cap"
  shows "i = j"
proof -
  from assms(1) have pos: "0 < cap" by simp
  have "(h mod cap + i) mod cap = (h mod cap + j) mod cap" using assms(3) by (simp add: mod_simps)
  then show ?thesis
    using ring_mod [of "h mod cap" cap i] ring_mod [of "h mod cap" cap j] assms(1,2) pos
    by (auto split: if_splits)
qed

lemma ring_slice:
  assumes "h < length buf" "n \<le> length buf"
  shows "(if h + n \<le> length buf then take n (drop h buf)
      else drop h buf @ take (n - (length buf - h)) buf) =
    map (\<lambda>i. buf ! ((h + i) mod length buf)) [0 ..< n]"
proof (rule nth_equalityI)
  fix i
  assume "i < length (if h + n \<le> length buf then take n (drop h buf)
      else drop h buf @ take (n - (length buf - h)) buf)"
  with assms have i: "i < n" "i \<le> length buf" "i < length buf" by (auto split: if_splits)
  with assms ring_mod [OF assms(1) i(2)]
  show "(if h + n \<le> length buf then take n (drop h buf)
      else drop h buf @ take (n - (length buf - h)) buf) ! i =
    map (\<lambda>i. buf ! ((h + i) mod length buf)) [0 ..< n] ! i"
    by (auto simp: nth_append add.commute)
qed (use assms in auto)

lemma length_splice [simp]: "i + length ys \<le> length xs \<Longrightarrow> length (splice xs i ys) = length xs"
  by (simp add: splice_def)

lemma nth_splice:
  "i + length ys \<le> length xs \<Longrightarrow> j < length xs \<Longrightarrow>
     splice xs i ys ! j = (if i \<le> j \<and> j < i + length ys then ys ! (j - i) else xs ! j)"
  by (auto simp: splice_def nth_append)

definition ring_write :: "bytes \<Rightarrow> nat \<Rightarrow> bytes \<Rightarrow> bytes" where
  "ring_write buf t d =
     (if t + length d \<le> length buf then splice buf t d
      else splice (splice buf t (take (length buf - t) d)) 0 (drop (length buf - t) d))"

lemma length_ring_write [simp]:
  "t < length buf \<Longrightarrow> length d \<le> length buf \<Longrightarrow> length (ring_write buf t d) = length buf"
  by (simp add: ring_write_def)

lemma nth_ring_write_new:
  assumes "t < length buf" "length d \<le> length buf" "k < length d"
  shows "ring_write buf t d ! ((t + k) mod length buf) = d ! k"
  using assms by (auto simp: ring_write_def ring_mod nth_splice)

lemma nth_ring_write_old:
  assumes "t < length buf" "length d \<le> length buf" "j < length buf"
    "\<And>k. k < length d \<Longrightarrow> j \<noteq> (t + k) mod length buf"
  shows "ring_write buf t d ! j = buf ! j"
proof -
  have 1: "\<not> (t \<le> j \<and> j < t + length d)"
    using assms(4) [of "j - t"] assms(3) by (auto simp: less_diff_conv2)
  have 2: "\<not> j < length d - (length buf - t)" if "length buf < t + length d"
  proof
    let ?k = "j + (length buf - t)"
    assume "j < length d - (length buf - t)"
    then have k: "?k < length d" by linarith
    have "(t + ?k) mod length buf = j" using assms(1,3) by simp
    with assms(4) [OF k] show False by simp
  qed
  show ?thesis
    using 1 2 assms(1-3) by (auto simp: ring_write_def nth_splice)
qed

section \<open>Refinement of the queue\<close>

lemma length_pipe_contents [simp]: "length (pipe_contents p) = len p"
  by (simp add: pipe_contents_def)

lemma pipe_contents_cong:
  "buffer p = buffer q \<Longrightarrow> head p = head q \<Longrightarrow> len p = len q \<Longrightarrow> pipe_contents p = pipe_contents q"
  by (simp add: pipe_contents_def capacity_def)

lemma read_into_refines:
  assumes "pipe_ok p"
  shows "fst (read_into n p) = take n (pipe_contents p) \<and>
    pipe_contents (snd (read_into n p)) = drop n (pipe_contents p) \<and>
    pipe_ok (snd (read_into n p)) \<and> capacity (snd (read_into n p)) = capacity p"
proof (cases "min n (len p) = 0")
  case True
  then have "n = 0 \<or> pipe_contents p = []" by (auto simp: min_def pipe_contents_def split: if_splits)
  with assms True show ?thesis by (auto simp: read_into_def)
next
  case False
  let ?m = "min n (len p)" and ?cap = "capacity p"
  have ok: "head p < length (buffer p)" "?m \<le> length (buffer p)" "len p \<le> ?cap"
    using assms by (auto simp: pipe_ok_def capacity_def)
  have "fst (read_into n p) = map (\<lambda>i. buffer p ! ((head p + i) mod length (buffer p))) [0 ..< ?m]"
    using False unfolding ring_slice [OF ok(1,2), symmetric]
    by (simp add: read_into_def Let_def capacity_def)
  then have out: "fst (read_into n p) = take n (pipe_contents p)"
    by (simp add: pipe_contents_def capacity_def take_map min_def)
  have rest: "pipe_contents (snd (read_into n p)) = drop n (pipe_contents p)"
    using False
    by (intro nth_equalityI)
      (auto simp: read_into_def Let_def pipe_contents_def capacity_def mod_simps add.assoc min_def
        split: if_splits)
  have "((head p + ?m) mod ?cap + (len p - ?m)) mod ?cap =
      (head p + ?m + (len p - ?m)) mod ?cap"
    by (rule mod_add_left_eq)
  moreover have "head p + ?m + (len p - ?m) = head p + len p" by simp
  moreover have "snd (read_into n p) = p\<lparr>head := (head p + ?m) mod ?cap, len := len p - ?m\<rparr>"
    using False unfolding read_into_def Let_def by (simp only: if_False snd_conv)
  ultimately have "pipe_ok (snd (read_into n p)) \<and> capacity (snd (read_into n p)) = ?cap"
    using assms by (auto simp: pipe_ok_def capacity_def)
  with out rest show ?thesis by blast
qed

lemma write_from_ring:
  assumes "pipe_ok p" "m = min (length d) (available_write p)" "m \<noteq> 0"
  shows "write_from d p = (m, p\<lparr>buffer := ring_write (buffer p) (tail p) (take m d),
    tail := (tail p + m) mod capacity p, len := len p + m\<rparr>)"
proof -
  have "take (capacity p - tail p) d = take (capacity p - tail p) (take m d)"
    if "capacity p < tail p + m"
  proof -
    from that have "capacity p - tail p \<le> m" by linarith
    then show ?thesis by (simp add: min_absorb1)
  qed
  moreover have "m \<le> length d" using assms(2) by simp
  ultimately show ?thesis
    using assms(3)
    by (auto simp: write_from_def Let_def assms(2) [symmetric] ring_write_def capacity_def)
qed

lemma write_from_refines:
  assumes "pipe_ok p"
  shows "fst (write_from d p) = min (length d) (capacity p - length (pipe_contents p)) \<and>
    pipe_contents (snd (write_from d p)) = pipe_contents p @ take (fst (write_from d p)) d \<and>
    pipe_ok (snd (write_from d p)) \<and> capacity (snd (write_from d p)) = capacity p"
proof (cases "min (length d) (available_write p) = 0")
  case True
  with assms show ?thesis by (auto simp: write_from_def Let_def available_write_def min_def)
next
  case False
  define m where "m = min (length d) (available_write p)"
  let ?cap = "length (buffer p)" and ?d = "take m d"
  let ?buf = "ring_write (buffer p) (tail p) ?d"
  have m: "m \<noteq> 0" "m \<le> length d" "len p + m \<le> ?cap"
    using False assms by (auto simp: m_def available_write_def capacity_def pipe_ok_def)
  have t: "tail p < ?cap" "tail p = (head p + len p) mod ?cap"
    using assms by (auto simp: pipe_ok_def capacity_def)
  note w = write_from_ring [OF assms m_def m(1)]
  have len: "length ?buf = ?cap" using t(1) m by simp
  have "?buf ! ((head p + i) mod ?cap) = (pipe_contents p @ ?d) ! i" if i: "i < len p + m" for i
  proof (cases "i < len p")
    case True
    have "(head p + i) mod ?cap \<noteq> (tail p + k) mod ?cap" if "k < length ?d" for k
      using ring_mod_inject [of i ?cap "len p + k" "head p"] True that m t(2)
      by (auto simp: mod_simps add.assoc)
    then have "?buf ! ((head p + i) mod ?cap) = buffer p ! ((head p + i) mod ?cap)"
      using t(1) m(2,3) by (intro nth_ring_write_old) (auto simp: Suc_le_eq intro: mod_less_divisor)
    with True show ?thesis by (simp add: nth_append pipe_contents_def capacity_def)
  next
    case False
    then obtain k where k: "i = len p + k" by (metis le_add_diff_inverse not_le)
    with i m have "?buf ! ((tail p + k) mod ?cap) = ?d ! k"
      using t(1) by (intro nth_ring_write_new) auto
    with k t(2) show ?thesis by (simp add: nth_append mod_simps add.assoc)
  qed
  then have "pipe_contents (snd (write_from d p)) = pipe_contents p @ ?d"
    using m len by (intro nth_equalityI) (auto simp: w pipe_contents_def capacity_def)
  with assms m len t show ?thesis
    by (auto simp: w m_def [symmetric] available_write_def capacity_def pipe_ok_def mod_simps
        add.assoc m_def)
qed

interpretation ring: byte_queue pipe_ok capacity pipe_contents read_into write_from
  using read_into_refines write_from_refines by unfold_locales blast+

section \<open>The asynchronous operations\<close>

lemma ring_flags [simp]:
  "closed (snd (read_into n p)) = closed p" "writer_blocked (snd (read_into n p)) = writer_blocked p"
  "was_full (snd (read_into n p)) = was_full p"
  "write_waker (snd (read_into n p)) = write_waker p"
  "read_waker (snd (read_into n p)) = read_waker p"
  "reader_blocked (snd (read_into n p)) = reader_blocked p"
  "closed (snd (write_from d p)) = closed p"
  "writer_blocked (snd (write_from d p)) = writer_blocked p"
  "was_full (snd (write_from d p)) = was_full p"
  "write_waker (snd (write_from d p)) = write_waker p"
  "read_waker (snd (write_from d p)) = read_waker p"
  "reader_blocked (snd (write_from d p)) = reader_blocked p"
  by (simp_all add: read_into_def write_from_def Let_def)

lemma pipe_ok_cong:
  "buffer p = buffer q \<Longrightarrow> head p = head q \<Longrightarrow> tail p = tail q \<Longrightarrow> len p = len q \<Longrightarrow>
     pipe_ok p = pipe_ok q"
  by (simp add: pipe_ok_def capacity_def)

lemma pipe_new_ok: "0 < cap \<Longrightarrow> pipe_ok (pipe_new cap)"
  by (simp add: pipe_ok_def pipe_new_def capacity_def)

datatype pipe_op =
    PollRead waker nat
  | PollWrite waker bytes
  | Push bytes
  | Drain
  | Close
  | DropRead bool
  | DropWrite bool

fun run_pipe :: "pipe_op \<Rightarrow> pipe \<Rightarrow> pipe" where
  "run_pipe (PollRead w n) p = snd (snd (poll_read w n p))"
| "run_pipe (PollWrite w d) p = snd (snd (poll_write w d p))"
| "run_pipe (Push d) p = snd (snd (push d p))"
| "run_pipe Drain p = snd (snd (drain p))"
| "run_pipe Close p = snd (pipe_close p)"
| "run_pipe (DropRead r) p = pipe_read_drop r p"
| "run_pipe (DropWrite r) p = pipe_write_drop r p"

inductive pipe_reachable :: "nat \<Rightarrow> pipe \<Rightarrow> bool" for cap where
  start: "pipe_reachable cap (pipe_new cap)"
| step: "pipe_reachable cap p \<Longrightarrow> pipe_reachable cap (run_pipe op p)"

text \<open>A blocked writer has left its waker, and the pipe is full and marked as such. The mark makes
  the next read wake the writer.\<close>

definition writer_ok :: "pipe \<Rightarrow> bool" where
  "writer_ok p \<longleftrightarrow> (writer_blocked p \<longrightarrow> was_full p \<and> write_waker p \<noteq> None \<and> is_full p)"

lemma read_into_empty: "len p = 0 \<Longrightarrow> read_into n p = ([], p)"
  by (simp add: read_into_def)

lemma write_from_full: "is_full p \<Longrightarrow> write_from d p = (0, p)"
  by (simp add: write_from_def available_write_def is_full_def)

lemma writer_ok_step: "writer_ok p \<Longrightarrow> writer_ok (run_pipe op p)"
proof (cases op)
  case (PollRead w n)
  obtain out q where r: "read_into n p = (out, q)" by fastforce
  with ring_flags(1-6) [of n p] have "writer_blocked q = writer_blocked p" by simp
  moreover assume "writer_ok p"
  ultimately show ?thesis
    using PollRead by (auto simp: poll_read_def r writer_ok_def wake_writer_def is_full_def
        is_empty_def capacity_def)
next
  case (PollWrite w d)
  assume "writer_ok p"
  moreover obtain n q where r: "write_from d (p\<lparr>writer_blocked := False\<rparr>) = (n, q)" by fastforce
  with ring_flags(7-12) [of d "p\<lparr>writer_blocked := False\<rparr>"] have "\<not> writer_blocked q"
    by simp
  ultimately show ?thesis
    using PollWrite by (auto simp: poll_write_def r writer_ok_def wake_reader_def Let_def
        is_full_def capacity_def register_def)
next
  case (Push d)
  assume ok: "writer_ok p"
  show ?thesis
  proof (cases "is_full p")
    case True
    with ok Push show ?thesis by (simp add: push_def write_from_full)
  next
    case False
    with ok have "\<not> writer_blocked p" by (auto simp: writer_ok_def)
    moreover obtain n q where r: "write_from d p = (n, q)" by fastforce
    with ring_flags(7-12) [of d p] have "writer_blocked q = writer_blocked p" by simp
    ultimately show ?thesis using Push by (auto simp: push_def r writer_ok_def wake_reader_def)
  qed
next
  case Drain
  assume ok: "writer_ok p"
  obtain out q where r: "read_into (len p) p = (out, q)" by fastforce
  with ring_flags(1-6) [of "len p" p] have "writer_blocked q = writer_blocked p" by simp
  with ok Drain show ?thesis by (auto simp: drain_def r writer_ok_def wake_writer_def)
next
  case Close
  assume "writer_ok p"
  with Close show ?thesis
    by (simp add: pipe_close_def wake_reader_def writer_ok_def is_full_def capacity_def)
next
  case (DropRead r)
  assume "writer_ok p"
  with DropRead show ?thesis
    by (simp add: pipe_read_drop_def writer_ok_def is_full_def capacity_def)
next
  case (DropWrite r)
  assume "writer_ok p"
  with DropWrite show ?thesis by (simp add: pipe_write_drop_def writer_ok_def)
qed

lemma writer_ok_reachable: "pipe_reachable cap p \<Longrightarrow> writer_ok p"
proof (induction rule: pipe_reachable.induct)
  case start
  show ?case by (simp add: writer_ok_def pipe_new_def)
qed (rule writer_ok_step)

section \<open>Properties\<close>

text \<open>C4. The ring buffer is a bounded first-in first-out queue: along any sequence of reads and
  writes, what the pipe held followed by all accepted bytes is all bytes read followed by what it
  holds in the end; nothing is lost, duplicated or reordered, across every wrap-around.\<close>

theorem pipe_fifo:
  assumes "pipe_ok p" and "ring.flow ops p = (outs, ins, q)"
  shows "pipe_contents p @ ins = outs @ pipe_contents q \<and> pipe_ok q \<and> len q \<le> capacity p"
  using ring.flow_fifo [OF assms] by (auto simp: pipe_ok_def)

theorem pipe_fifo_witness:
  "\<exists>q. ring.flow [Inr [1, 2, 3], Inl 2, Inr [4, 5]] (pipe_new 3) = ([1, 2], [1, 2, 3, 4, 5], q) \<and>
     pipe_contents q = [3, 4, 5]"
proof -
  obtain q where q: "ring.flow [Inr [1, 2, 3], Inl 2, Inr [4, 5]] (pipe_new 3) =
      ([1, 2], [1, 2, 3, 4, 5], q)"
    by (simp add: write_from_def read_into_def Let_def available_write_def capacity_def pipe_new_def
        splice_def)
  from pipe_fifo [OF pipe_new_ok q] have "pipe_contents q = [3, 4, 5]"
    by (simp add: pipe_contents_def pipe_new_def)
  with q show ?thesis by blast
qed

text \<open>C28. A blocked writer is never forgotten: in every reachable pipe whose writer is blocked, the next
  poll of the reader finds bytes and wakes that writer, however few bytes it takes.\<close>

theorem blocked_writer_woken:
  assumes "pipe_reachable cap p" and "writer_blocked p" and "0 < cap" and "capacity p = cap"
  shows "fst (snd (poll_read w n p)) = [the (write_waker p)] \<and>
    \<not> writer_blocked (snd (snd (poll_read w n p)))"
proof -
  from writer_ok_reachable [OF assms(1)] assms(2) have ok: "was_full p" "is_full p"
    "write_waker p \<noteq> None" by (simp_all add: writer_ok_def)
  obtain out q where r: "read_into n p = (out, q)" by fastforce
  with ring_flags(1-6) [of n p] have "writer_blocked q = writer_blocked p" "write_waker q = write_waker p"
    by simp_all
  with ok assms(2-4) show ?thesis
    by (auto simp: poll_read_def r is_empty_def is_full_def wake_writer_def take_waker_def)
qed

theorem blocked_writer_woken_witness:
  "fst (snd (poll_read 7 0 (run_pipe (PollWrite 3 [1]) (run_pipe (PollWrite 3 [1, 2]) (pipe_new 2))))) = [3]"
proof -
  let ?p = "run_pipe (PollWrite 3 [1]) (run_pipe (PollWrite 3 [1, 2]) (pipe_new 2))"
  have "pipe_reachable 2 ?p" by (intro pipe_reachable.intros)
  moreover have "writer_blocked ?p" "capacity ?p = 2" "write_waker ?p = Some 3" by code_simp+
  ultimately show ?thesis using blocked_writer_woken [of 2 ?p] by (metis option.sel zero_less_numeral)
qed

text \<open>The low watermark never decides: in every reachable pipe the test of the watermark can be left
  out of the reader's poll without any difference.\<close>

theorem low_watermark_redundant:
  assumes "pipe_reachable cap p"
  shows "(writer_blocked p \<and> (is_below_low_watermark (snd (read_into n p)) \<or> was_full p)) =
    writer_blocked p"
  using writer_ok_reachable [OF assms] by (auto simp: writer_ok_def)

theorem low_watermark_redundant_witness:
  "(writer_blocked (pipe_new 2) \<and>
     (is_below_low_watermark (snd (read_into 1 (pipe_new 2))) \<or> was_full (pipe_new 2))) =
   writer_blocked (pipe_new 2)"
  by (rule low_watermark_redundant [OF pipe_reachable.start])

text \<open>\<open>push_all\<close> does not look at the closed flag as long as the bytes fit: it succeeds exactly when
  they do, also on a pipe whose write end is closed, and otherwise it keeps the part that fits.\<close>

theorem push_all_exact:
  assumes "pipe_ok p"
  shows "(fst (push_all d p) = Ok ()) = (length d \<le> capacity p - len p) \<and>
    pipe_contents (snd (snd (push_all d p))) = pipe_contents p @ take (capacity p - len p) d"
proof (cases "d = []")
  case True
  then show ?thesis by (simp add: push_all.simps)
next
  case False
  have no_room: "push_all e q = (if closed q then (Err BrokenPipe, [], q) else (Err WouldBlock, [], q))"
    if "e \<noteq> []" "is_full q" for e q
    using that by (subst push_all.simps) (simp add: push_def write_from_full)
  obtain n q where w: "write_from d p = (n, q)" by fastforce
  have q: "n = min (length d) (capacity p - len p)"
    "pipe_contents q = pipe_contents p @ take n d" "pipe_ok q" "capacity q = capacity p"
    using write_from_refines [OF assms, of d] w by simp_all
  have "n \<le> length d" using q(1) by simp
  with arg_cong [OF q(2), of length] have len: "len q = len p + n" by simp
  show ?thesis
  proof (cases "n = 0")
    case True
    with q(1) False assms have "is_full p" by (auto simp: is_full_def pipe_ok_def min_def split: if_splits)
    with no_room [OF False] False show ?thesis by (simp add: is_full_def)
  next
    case n: False
    define q' where "q' = q\<lparr>reader_blocked := False, read_waker := None\<rparr>"
    have push: "push d p = (n, take_waker (read_waker q), q')"
      using n by (simp add: push_def w wake_reader_def q'_def)
    have q': "pipe_contents q' = pipe_contents q" "len q' = len q" "capacity q' = capacity q"
      by (simp_all add: q'_def pipe_contents_def capacity_def)
    show ?thesis
    proof (cases "length d \<le> capacity p - len p")
      case True
      with q(1) have "drop n d = []" "take (capacity p - len p) d = d" "take n d = d" by simp_all
      with True False n q(2) q' show ?thesis
        by (subst (1 2) push_all.simps) (simp add: push push_all.simps [of "[]"])
    next
      case False
      with q(1) len q' q(4) assms have "drop n d \<noteq> []" "is_full q'" "n = capacity p - len p"
        by (auto simp: is_full_def pipe_ok_def)
      with no_room [of "drop n d" q'] False n \<open>d \<noteq> []\<close> q(2) q' show ?thesis
        by (subst (1 2) push_all.simps) (simp add: push)
    qed
  qed
qed

theorem push_all_exact_witness:
  "fst (push_all [1, 2] (snd (pipe_close (pipe_new 4)))) = Ok ()"
  using push_all_exact [of "snd (pipe_close (pipe_new 4))" "[1, 2]"]
  by (simp add: pipe_close_def wake_reader_def pipe_new_def pipe_ok_def capacity_def)

end
