(* ===== verification/HostChannel.thy ===== *)
theory HostChannel
  imports Prelude
begin

unbundle bit_operations_syntax

text \<open>
  The channel for host operations, \<open>crates/amla-sandbox-scheduler/src/host_channel.rs\<close>: a bounded
  queue of requests, slots for the results that are reused under a new generation, and futures that
  submit a request, wait for its result and cancel it when they are dropped. An operation returns the
  wakers it called, in order. Wakers are those of \<open>waker.rs\<close>: every clone of a task's waker is boxed
  on its own, and \<open>Waker::will_wake\<close> compares the data pointers, so two wakers of a task are never
  recognised as the same; the waker of the timers (\<open>noop_waker\<close>) has no data.
\<close>

section \<open>State\<close>

datatype raw_waker = TaskWaker nat | NoopWaker

definition will_wake :: "raw_waker \<Rightarrow> raw_waker \<Rightarrow> bool" where
  "will_wake a b = (a = NoopWaker \<and> b = NoopWaker)"

record task_id =
  id_slot :: nat
  id_gen :: nat

datatype host_op_kind =
    FileRead string
  | FileReadRange string u64 u64
  | Custom string bytes
  | WakeAt u64
  | Print u8 bytes
  | CommandExit int
  | ReadStdin nat

record host_request =
  req_id :: u64
  req_kind :: host_op_kind
  req_task :: "task_id option"

definition default_chunk_buffer_limit :: nat where
  "default_chunk_buffer_limit = 10 * 1024 * 1024"

text \<open>The errors of the channel itself, and those the host answers with.\<close>

datatype host_error =
    StaleOperationId
  | OperationSlotNotFound
  | OperationCancelled
  | ResultTooLarge nat
  | BufferOverflow
  | PolledAfterCompletion
  | AllOperationsCancelled
  | HostError string
  | SubmitPanicked

type_synonym host_result = "(bytes, host_error) result"

record pending_slot =
  slot_result :: "host_result option"
  slot_buffer :: bytes
  buffer_limit :: nat
  slot_waker :: "raw_waker option"
  slot_cancelled :: bool

record host_channel =
  pending_requests :: "host_request list"
  max_pending :: nat
  chan_slots :: "pending_slot option list"
  slot_info :: "u32 list"
  chan_free :: "nat list"
  submit_wakers :: "raw_waker list"
  chan_task :: "task_id option"

definition channel_new :: "nat \<Rightarrow> host_channel" where
  "channel_new m = \<lparr>pending_requests = [], max_pending = m, chan_slots = [], slot_info = [],
     chan_free = [], submit_wakers = [], chan_task = None\<rparr>"

section \<open>Identifiers\<close>

definition id_to_index :: "u64 \<Rightarrow> nat" where
  "id_to_index i = unat (i AND 0xFFFFFFFF)"

definition id_to_generation :: "u64 \<Rightarrow> u32" where
  "id_to_generation i = ucast (drop_bit 32 i)"

definition encode_id :: "u32 \<Rightarrow> nat \<Rightarrow> u64" where
  "encode_id g idx = push_bit 32 (ucast g) OR of_nat idx"

definition is_valid_id :: "host_channel \<Rightarrow> u64 \<Rightarrow> bool" where
  "is_valid_id c i =
     (id_to_index i < length (slot_info c) \<and> slot_info c ! id_to_index i = id_to_generation i)"

text \<open>\<open>slots.get(idx)\<close> with its two levels of absence as one.\<close>

definition slot_at :: "host_channel \<Rightarrow> nat \<Rightarrow> pending_slot option" where
  "slot_at c idx = (if idx < length (chan_slots c) then chan_slots c ! idx else None)"

definition put_slot :: "nat \<Rightarrow> pending_slot option \<Rightarrow> host_channel \<Rightarrow> host_channel" where
  "put_slot idx s c = c\<lparr>chan_slots := (chan_slots c)[idx := s]\<rparr>"

text \<open>\<open>free_slots\<close> is a stack with its top at the end.\<close>

definition allocate_id :: "host_channel \<Rightarrow> u64 \<times> host_channel" where
  "allocate_id c =
     (if chan_free c \<noteq> [] then
        (let idx = last (chan_free c);
             g = slot_info c ! idx + 1
         in (encode_id g idx,
             c\<lparr>chan_free := butlast (chan_free c), slot_info := (slot_info c)[idx := g]\<rparr>))
      else
        (let idx = length (chan_slots c)
         in (encode_id 1 idx,
             c\<lparr>chan_slots := chan_slots c @ [None], slot_info := slot_info c @ [1]\<rparr>)))"

definition free_slot :: "u64 \<Rightarrow> host_channel \<Rightarrow> host_channel" where
  "free_slot i c =
     (let idx = id_to_index i
      in if idx < length (chan_slots c) \<and> is_valid_id c i
         then c\<lparr>chan_slots := (chan_slots c)[idx := None], chan_free := chan_free c @ [idx]\<rparr>
         else c)"

section \<open>The side of the host\<close>

function take_pending :: "host_channel \<Rightarrow> host_request option \<times> raw_waker list \<times> host_channel" where
  "take_pending c =
     (case pending_requests c of
        [] \<Rightarrow> (None, [], c)
      | req # rest \<Rightarrow>
          (let c1 = c\<lparr>pending_requests := rest, submit_wakers := drop 1 (submit_wakers c)\<rparr>;
               ws = take 1 (submit_wakers c)
           in case slot_at c1 (id_to_index (req_id req)) of
                Some s \<Rightarrow>
                  if slot_cancelled s then
                    (let (r, ws', c2) = take_pending (free_slot (req_id req) c1) in (r, ws @ ws', c2))
                  else (Some req, ws, c1)
              | None \<Rightarrow> (Some req, ws, c1)))"
  by pat_completeness auto
termination
  by (relation "measure (\<lambda>c. length (pending_requests c))") (auto simp: free_slot_def Let_def)

declare take_pending.simps [simp del]

definition is_live_request :: "host_channel \<Rightarrow> host_request \<Rightarrow> bool" where
  "is_live_request c req =
     (case slot_at c (id_to_index (req_id req)) of Some s \<Rightarrow> \<not> slot_cancelled s | None \<Rightarrow> False)"

definition has_pending :: "host_channel \<Rightarrow> bool" where
  "has_pending c = list_ex (is_live_request c) (pending_requests c)"

definition pending_count :: "host_channel \<Rightarrow> nat" where
  "pending_count c = length (filter (is_live_request c) (pending_requests c))"

definition complete_result :: "u64 \<Rightarrow> host_result \<Rightarrow> host_channel \<Rightarrow> raw_waker list \<times> host_channel" where
  "complete_result i r c =
     (if \<not> is_valid_id c i then ([], c)
      else (case slot_at c (id_to_index i) of
          None \<Rightarrow> ([], c)
        | Some s \<Rightarrow>
            if slot_cancelled s then ([], free_slot i c)
            else (take_waker (slot_waker s),
              put_slot (id_to_index i) (Some (s\<lparr>slot_result := Some r, slot_waker := None\<rparr>)) c)))"

definition append_chunk ::
  "u64 \<Rightarrow> bytes \<Rightarrow> bool \<Rightarrow> host_channel \<Rightarrow> (bool, host_error) result \<times> raw_waker list \<times> host_channel" where
  "append_chunk i data eof c =
     (if \<not> is_valid_id c i then (Err StaleOperationId, [], c)
      else (case slot_at c (id_to_index i) of
          None \<Rightarrow> (Err OperationSlotNotFound, [], c)
        | Some s \<Rightarrow>
            if slot_cancelled s then (Err OperationCancelled, [], free_slot i c)
            else if length (slot_buffer s) + length data > buffer_limit s then
              (Err BufferOverflow, take_waker (slot_waker s),
               put_slot (id_to_index i)
                 (Some (s\<lparr>slot_result := Some (Err (ResultTooLarge (buffer_limit s))),
                    slot_waker := None\<rparr>)) c)
            else
              (let buf = slot_buffer s @ data
               in if eof then
                    (Ok True, take_waker (slot_waker s),
                     put_slot (id_to_index i)
                       (Some (s\<lparr>slot_buffer := [], slot_result := Some (Ok buf),
                          slot_waker := None\<rparr>)) c)
                  else (Ok False, [], put_slot (id_to_index i) (Some (s\<lparr>slot_buffer := buf\<rparr>)) c))))"

definition complete :: "u64 \<Rightarrow> bytes \<Rightarrow> host_channel \<Rightarrow> raw_waker list \<times> host_channel" where
  "complete i data c = complete_result i (Ok data) c"

definition complete_err :: "u64 \<Rightarrow> host_error \<Rightarrow> host_channel \<Rightarrow> raw_waker list \<times> host_channel" where
  "complete_err i e c = complete_result i (Err e) c"

definition clear_buffer :: "u64 \<Rightarrow> host_channel \<Rightarrow> host_channel" where
  "clear_buffer i c =
     (if \<not> is_valid_id c i then c
      else (case slot_at c (id_to_index i) of
          None \<Rightarrow> c
        | Some s \<Rightarrow> put_slot (id_to_index i) (Some (s\<lparr>slot_buffer := []\<rparr>)) c))"

definition set_current_task :: "task_id option \<Rightarrow> host_channel \<Rightarrow> host_channel" where
  "set_current_task t c = c\<lparr>chan_task := t\<rparr>"

section \<open>The side of the tasks\<close>

definition can_submit :: "host_channel \<Rightarrow> bool" where
  "can_submit c = (length (pending_requests c) < max_pending c)"

definition new_slot :: pending_slot where
  "new_slot = \<lparr>slot_result = None, slot_buffer = [], buffer_limit = default_chunk_buffer_limit,
     slot_waker = None, slot_cancelled = False\<rparr>"

text \<open>\<open>None\<close> is the panic of the assertion.\<close>

definition submit_op :: "host_op_kind \<Rightarrow> host_channel \<Rightarrow> (u64 \<times> host_channel) option" where
  "submit_op kind c =
     (if length (pending_requests c) < max_pending c then
        (let (i, c1) = allocate_id c;
             req = \<lparr>req_id = i, req_kind = kind, req_task = chan_task c1\<rparr>;
             c2 = c1\<lparr>pending_requests := pending_requests c1 @ [req]\<rparr>
         in Some (i, put_slot (id_to_index i) (Some new_slot) c2))
      else None)"

definition register_submit_waker :: "raw_waker \<Rightarrow> host_channel \<Rightarrow> host_channel" where
  "register_submit_waker w c =
     (if \<not> list_ex (\<lambda>v. will_wake v w) (submit_wakers c)
      then c\<lparr>submit_wakers := submit_wakers c @ [w]\<rparr>
      else c)"

definition poll_result :: "raw_waker \<Rightarrow> u64 \<Rightarrow> host_channel \<Rightarrow> host_result poll \<times> host_channel" where
  "poll_result w i c =
     (if \<not> is_valid_id c i then (Ready (Err StaleOperationId), c)
      else (case slot_at c (id_to_index i) of
          None \<Rightarrow> (Ready (Err OperationSlotNotFound), c)
        | Some s \<Rightarrow>
            (case slot_result s of
               Some r \<Rightarrow> (Ready r, free_slot i c)
             | None \<Rightarrow>
                 (Pending,
                  if slot_waker s = None \<or> \<not> will_wake (the (slot_waker s)) w
                  then put_slot (id_to_index i) (Some (s\<lparr>slot_waker := Some w\<rparr>)) c
                  else c))))"

definition cancel_op :: "u64 \<Rightarrow> host_channel \<Rightarrow> host_channel" where
  "cancel_op i c =
     (if \<not> is_valid_id c i then c
      else (case slot_at c (id_to_index i) of
          None \<Rightarrow> c
        | Some s \<Rightarrow>
            if slot_result s \<noteq> None then free_slot i c
            else put_slot (id_to_index i) (Some (s\<lparr>slot_cancelled := True\<rparr>)) c))"

subsection \<open>Futures\<close>

datatype host_op =
    OpPending host_op_kind
  | OpSubmitted u64
  | OpDone

definition file_read :: "string \<Rightarrow> host_op" where
  "file_read path = OpPending (FileRead path)"

definition file_read_range :: "string \<Rightarrow> u64 \<Rightarrow> u64 \<Rightarrow> host_op" where
  "file_read_range path off len = OpPending (FileReadRange path off len)"

definition custom :: "string \<Rightarrow> bytes \<Rightarrow> host_op" where
  "custom name data = OpPending (Custom name data)"

definition wake_at :: "u64 \<Rightarrow> host_op" where
  "wake_at deadline = OpPending (WakeAt deadline)"

definition host_print :: "u8 \<Rightarrow> bytes \<Rightarrow> host_op" where
  "host_print stream data = OpPending (Print stream data)"

definition command_exit :: "int \<Rightarrow> host_op" where
  "command_exit code = OpPending (CommandExit code)"

definition read_stdin :: "nat \<Rightarrow> host_op" where
  "read_stdin n = OpPending (ReadStdin n)"

definition op_kind :: "host_op \<Rightarrow> host_op_kind option" where
  "op_kind f = (case f of OpPending kind \<Rightarrow> Some kind | _ \<Rightarrow> None)"

definition poll_submitted :: "raw_waker \<Rightarrow> u64 \<Rightarrow> host_channel \<Rightarrow> host_result poll \<times> host_op \<times> host_channel" where
  "poll_submitted w i c = (let (p, c) = poll_result w i c in (p, OpSubmitted i, c))"

definition poll_op :: "raw_waker \<Rightarrow> host_op \<Rightarrow> host_channel \<Rightarrow> host_result poll \<times> host_op \<times> host_channel" where
  "poll_op w f c =
     (case f of
        OpPending kind \<Rightarrow>
          if \<not> can_submit c then (Pending, f, register_submit_waker w c)
          else (case submit_op kind c of
              Some (i, c) \<Rightarrow> poll_submitted w i c
            | None \<Rightarrow> (Ready (Err SubmitPanicked), OpDone, c))
      | OpSubmitted i \<Rightarrow> poll_submitted w i c
      | OpDone \<Rightarrow> (Ready (Err PolledAfterCompletion), f, c))"

definition drop_op :: "host_op \<Rightarrow> host_channel \<Rightarrow> host_channel" where
  "drop_op f c = (case f of OpSubmitted i \<Rightarrow> cancel_op i c | _ \<Rightarrow> c)"

text \<open>\<open>drop\<close> of the futures left in a list, and the two combinators over lists of futures.\<close>

definition drop_ops :: "host_op option list \<Rightarrow> host_channel \<Rightarrow> host_channel" where
  "drop_ops fs c = fold (\<lambda>f c. case f of None \<Rightarrow> c | Some f \<Rightarrow> drop_op f c) fs c"

text \<open>The loop of \<open>SelectFirstFuture::poll\<close>: the futures already looked at, and those to come. A future
  that is taken out after its result is dropped as well.\<close>

fun select_loop ::
  "raw_waker \<Rightarrow> host_op option list \<Rightarrow> host_op option list \<Rightarrow> host_channel \<Rightarrow>
     (nat \<times> host_result) option \<times> host_op option list \<times> host_channel" where
  "select_loop w done [] c = (None, done, c)"
| "select_loop w done (None # fs) c = select_loop w (done @ [None]) fs c"
| "select_loop w done (Some f # fs) c =
     (case poll_op w f c of
        (Ready r, f, c) \<Rightarrow>
          (Some (length done, r), map (\<lambda>_. None) (done @ None # fs),
           drop_ops (done @ fs) (drop_op f c))
      | (Pending, f, c) \<Rightarrow> select_loop w (done @ [Some f]) fs c)"

definition select_first :: "host_op list \<Rightarrow> host_op option list" where
  "select_first fs = map Some fs"

definition poll_select_first ::
  "raw_waker \<Rightarrow> host_op option list \<Rightarrow> host_channel \<Rightarrow>
     (nat \<times> host_result) poll \<times> host_op option list \<times> host_channel" where
  "poll_select_first w fs c =
     (case select_loop w [] fs c of
        (Some r, fs, c) \<Rightarrow> (Ready r, fs, c)
      | (None, fs, c) \<Rightarrow>
          if list_all (\<lambda>f. f = None) fs then (Ready (0, Err AllOperationsCancelled), fs, c)
          else (Pending, fs, c))"

text \<open>The loop of \<open>JoinAllFuture::poll\<close> over pairs of a future and its result.\<close>

fun join_loop ::
  "raw_waker \<Rightarrow> (host_op option \<times> host_result option) list \<Rightarrow> host_channel \<Rightarrow>
     bool \<times> (host_op option \<times> host_result option) list \<times> host_channel" where
  "join_loop w [] c = (True, [], c)"
| "join_loop w ((f, Some r) # fs) c =
     (let (d, fs, c) = join_loop w fs c in (d, (f, Some r) # fs, c))"
| "join_loop w ((None, None) # fs) c =
     (let (d, fs, c) = join_loop w fs c in (d, (None, Some (Err OperationCancelled)) # fs, c))"
| "join_loop w ((Some f, None) # fs) c =
     (case poll_op w f c of
        (Ready r, f, c) \<Rightarrow>
          (let (d, fs, c) = join_loop w fs (drop_op f c) in (d, (None, Some r) # fs, c))
      | (Pending, f, c) \<Rightarrow>
          (let (d, fs, c) = join_loop w fs c in (False, (Some f, None) # fs, c)))"

definition join_all :: "host_op list \<Rightarrow> (host_op option \<times> host_result option) list" where
  "join_all fs = map (\<lambda>f. (Some f, None)) fs"

definition poll_join_all ::
  "raw_waker \<Rightarrow> (host_op option \<times> host_result option) list \<Rightarrow> host_channel \<Rightarrow>
     host_result list poll \<times> (host_op option \<times> host_result option) list \<times> host_channel" where
  "poll_join_all w fs c =
     (let (d, fs, c) = join_loop w fs c
      in if d then (Ready (map (\<lambda>x. the (snd x)) fs), map (\<lambda>x. (fst x, None)) fs, c)
         else (Pending, fs, c))"

end
