(* ===== verification/HostChannelSound.thy ===== *)
theory HostChannelSound
  imports HostChannel
begin

unbundle bit_operations_syntax

text \<open>
  The host channel against its specification: a map from the operations ever submitted, each under
  an identifier of its own, to their slots. The slots of the code are reused, and a generation in the
  identifier tells the uses apart, so the two agree as long as the generations do not wrap.
\<close>

section \<open>Identifiers\<close>

lemma and_low: "(i :: 64 word) AND 0xFFFFFFFF = take_bit 32 i"
  by (simp add: take_bit_eq_mask mask_eq_exp_minus_1 ac_simps)

lemma take_push: "take_bit 32 (push_bit 32 (x :: 64 word)) = 0"
  by (rule bit_word_eqI) (auto simp: bit_take_bit_iff bit_push_bit_iff)

lemma index_encode [simp]: "idx < 2 ^ 32 \<Longrightarrow> id_to_index (encode_id g idx) = idx"
  by (simp add: id_to_index_def encode_id_def and_low take_bit_or take_push unsigned_take_bit_eq
      unat_of_nat take_bit_nat_def)

lemma generation_encode [simp]: "idx < 2 ^ 32 \<Longrightarrow> id_to_generation (encode_id g idx) = g"
proof -
  assume idx: "idx < 2 ^ 32"
  have "drop_bit 32 (of_nat idx :: 64 word) = 0"
  proof (rule bit_word_eqI)
    fix n
    have "idx < 2 ^ (32 + n)" using idx power_increasing [of 32 "32 + n" "2 :: nat"] by simp
    then have "\<not> bit idx (32 + n)" by (simp add: bit_iff_odd)
    then show "bit (drop_bit 32 (of_nat idx :: 64 word)) n = bit (0 :: 64 word) n"
      by (simp add: bit_drop_bit_eq bit_of_nat_iff)
  qed
  moreover have "ucast (drop_bit 32 (push_bit 32 (ucast g :: 64 word))) = g"
    by (rule bit_word_eqI) (auto simp: bit_ucast_iff bit_drop_bit_eq bit_push_bit_iff)
  ultimately show ?thesis by (simp add: id_to_generation_def encode_id_def drop_bit_or)
qed

lemma id_eqI:
  assumes "id_to_index i = id_to_index j" "id_to_generation i = id_to_generation j"
  shows "i = j"
proof (rule bit_word_eqI)
  fix n
  assume n: "n < LENGTH(64)"
  have low: "take_bit 32 i = take_bit 32 j"
    using assms(1) by (simp add: id_to_index_def and_low word_unat_eq_iff)
  have high: "ucast (drop_bit 32 i) = (ucast (drop_bit 32 j) :: u32)"
    using assms(2) by (simp add: id_to_generation_def)
  show "bit i n = bit j n"
  proof (cases "n < 32")
    case True
    with arg_cong [OF low, of "\<lambda>w. bit w n"] show ?thesis by (simp add: bit_take_bit_iff)
  next
    case False
    have "n - 32 < 32" using n by simp
    with arg_cong [OF high, of "\<lambda>w. bit w (n - 32)"] False show ?thesis
      by (simp add: bit_ucast_iff bit_drop_bit_eq)
  qed
qed

lemma index_range: "id_to_index i < 2 ^ 32"
  by (simp add: id_to_index_def and_low unsigned_take_bit_eq) (use take_bit_nat_less_exp [of 32 "unat i"] in simp)

section \<open>The slot of an operation\<close>

definition lookup_op :: "host_channel \<Rightarrow> u64 \<Rightarrow> pending_slot option" where
  "lookup_op c i = (if is_valid_id c i then slot_at c (id_to_index i) else None)"

definition slots_ok :: "host_channel \<Rightarrow> bool" where
  "slots_ok c \<longleftrightarrow>
     length (chan_slots c) = length (slot_info c) \<and> distinct (chan_free c) \<and>
     set (chan_free c) = {idx. idx < length (chan_slots c) \<and> chan_slots c ! idx = None}"

lemma lookup_op_cong:
  "chan_slots c = chan_slots d \<Longrightarrow> slot_info c = slot_info d \<Longrightarrow> lookup_op c = lookup_op d"
  by (rule ext) (simp add: lookup_op_def is_valid_id_def slot_at_def)

lemma slots_ok_cong:
  "chan_slots c = chan_slots d \<Longrightarrow> slot_info c = slot_info d \<Longrightarrow> chan_free c = chan_free d \<Longrightarrow>
     slots_ok c = slots_ok d"
  by (simp add: slots_ok_def)

lemma lookup_valid: "lookup_op c i = Some s \<Longrightarrow> is_valid_id c i \<and> slot_at c (id_to_index i) = Some s"
  by (simp add: lookup_op_def split: if_splits)

lemma valid_index: "slots_ok c \<Longrightarrow> is_valid_id c i \<Longrightarrow> id_to_index i < length (chan_slots c)"
  by (simp add: slots_ok_def is_valid_id_def)

lemma valid_unique: "is_valid_id c i \<Longrightarrow> is_valid_id c j \<Longrightarrow> id_to_index i = id_to_index j \<Longrightarrow> i = j"
  by (auto simp: is_valid_id_def intro: id_eqI)

lemma put_slot_ok:
  assumes "slots_ok c" "lookup_op c i = Some s"
  shows "slots_ok (put_slot (id_to_index i) (Some s') c)"
    and "lookup_op (put_slot (id_to_index i) (Some s') c) = (lookup_op c)(i \<mapsto> s')"
proof -
  let ?c = "put_slot (id_to_index i) (Some s') c"
  from assms(2) have i: "is_valid_id c i" "slot_at c (id_to_index i) = Some s"
    by (simp_all add: lookup_valid)
  then have idx: "id_to_index i < length (chan_slots c)" "chan_slots c ! id_to_index i = Some s"
    using valid_index [OF assms(1)] by (simp_all add: slot_at_def)
  show "slots_ok ?c"
  proof -
    have "{k. k < length (chan_slots c) \<and> (chan_slots c)[id_to_index i := Some s'] ! k = None} =
        {k. k < length (chan_slots c) \<and> chan_slots c ! k = None}"
      using idx by (metis nth_list_update option.distinct(1))
    with assms(1) show ?thesis by (simp add: slots_ok_def put_slot_def)
  qed
  show "lookup_op ?c = (lookup_op c)(i \<mapsto> s')"
  proof
    fix j
    have "is_valid_id ?c j = is_valid_id c j" by (simp add: is_valid_id_def put_slot_def)
    moreover have "id_to_index j = id_to_index i \<Longrightarrow> is_valid_id c j \<Longrightarrow> j = i"
      using valid_unique [OF _ i(1)] by simp
    ultimately show "lookup_op ?c j = ((lookup_op c)(i \<mapsto> s')) j"
      using idx(1) i(1) by (auto simp: lookup_op_def slot_at_def put_slot_def nth_list_update)
  qed
qed

lemma free_slot_ok:
  assumes "slots_ok c" "lookup_op c i = Some s"
  shows "slots_ok (free_slot i c)" "lookup_op (free_slot i c) = (lookup_op c)(i := None)"
proof -
  let ?c = "free_slot i c"
  from assms(2) have i: "is_valid_id c i" "slot_at c (id_to_index i) = Some s"
    by (simp_all add: lookup_valid)
  then have idx: "id_to_index i < length (chan_slots c)" "chan_slots c ! id_to_index i = Some s"
    using valid_index [OF assms(1)] by (simp_all add: slot_at_def)
  have c: "?c = c\<lparr>chan_slots := (chan_slots c)[id_to_index i := None],
      chan_free := chan_free c @ [id_to_index i]\<rparr>"
    using idx(1) i(1) by (simp add: free_slot_def Let_def)
  show "slots_ok ?c"
  proof -
    have "{k. k < length (chan_slots c) \<and> (chan_slots c)[id_to_index i := None] ! k = None} =
        insert (id_to_index i) {k. k < length (chan_slots c) \<and> chan_slots c ! k = None}"
      using idx by (auto simp: nth_list_update split: if_splits)
    with assms(1) idx show ?thesis by (simp add: slots_ok_def c)
  qed
  show "lookup_op ?c = (lookup_op c)(i := None)"
  proof
    fix j
    have "is_valid_id ?c j = is_valid_id c j" by (simp add: is_valid_id_def c)
    moreover have "id_to_index j = id_to_index i \<Longrightarrow> is_valid_id c j \<Longrightarrow> j = i"
      using valid_unique [OF _ i(1)] by simp
    ultimately show "lookup_op ?c j = ((lookup_op c)(i := None)) j"
      using idx(1) by (auto simp: lookup_op_def slot_at_def c nth_list_update)
  qed
qed

section \<open>Identifiers are not used twice\<close>

text \<open>The bound on the number of operations submitted in the life of a channel.\<close>

definition max_issued :: nat where
  "max_issued = 2 ^ 32 - 1"

definition issued_ok :: "u64 list \<Rightarrow> host_channel \<Rightarrow> bool" where
  "issued_ok ids c \<longleftrightarrow>
     length (chan_slots c) \<le> length ids \<and>
     (\<forall>g \<in> set (slot_info c). unat g \<le> length ids) \<and>
     (\<forall>i \<in> set ids. id_to_index i < length (slot_info c) \<and> id_to_generation i \<noteq> 0 \<and>
        unat (id_to_generation i) \<le> unat (slot_info c ! id_to_index i))"

lemma issued_ok_cong:
  "chan_slots c = chan_slots d \<Longrightarrow> slot_info c = slot_info d \<Longrightarrow> issued_ok ids c = issued_ok ids d"
  by (simp add: issued_ok_def)

lemma unat_Suc: "unat (g :: u32) < max_issued \<Longrightarrow> unat (g + 1) = Suc (unat g)"
  by (simp add: max_issued_def unat_word_ariths)

lemma allocate_reuse:
  assumes ok: "slots_ok c" "issued_ok ids c" "length ids < max_issued" and free: "chan_free c \<noteq> []"
    and "allocate_id c = (i, c1)"
  shows "i \<notin> set ids \<and> i \<noteq> 0 \<and> issued_ok (i # ids) c1 \<and> is_valid_id c1 i \<and>
    lookup_op c1 = lookup_op c \<and> slot_at c1 (id_to_index i) = None \<and>
    id_to_index i < length (chan_slots c1) \<and> length (chan_slots c1) = length (slot_info c1) \<and>
    distinct (chan_free c1) \<and> set (chan_free c1) =
      {k. k < length (chan_slots c1) \<and> chan_slots c1 ! k = None} - {id_to_index i}"
proof -
  define idx where "idx = last (chan_free c)"
  define g where "g = slot_info c ! idx"
  have "idx \<in> set (chan_free c)" unfolding idx_def using free by simp
  then have idx: "idx < length (chan_slots c)" "chan_slots c ! idx = None" "idx < length (slot_info c)"
    using ok(1) by (auto simp: slots_ok_def)
  have range: "idx < 2 ^ 32" using idx(1) ok(2,3) by (simp add: issued_ok_def max_issued_def)
  have g: "unat g \<le> length ids" using ok(2) idx(3) by (simp add: issued_ok_def g_def)
  then have Suc: "unat (g + 1) = Suc (unat g)" using ok(3) by (intro unat_Suc) simp
  have i: "i = encode_id (g + 1) idx"
    and c1: "c1 = c\<lparr>chan_free := butlast (chan_free c), slot_info := (slot_info c)[idx := g + 1]\<rparr>"
    using assms(5) free by (simp_all add: allocate_id_def Let_def idx_def g_def)
  have index: "id_to_index i = idx" "id_to_generation i = g + 1" using range i by simp_all
  have new: "i \<notin> set ids"
  proof
    assume "i \<in> set ids"
    with ok(2) have "unat (id_to_generation i) \<le> unat g" by (auto simp: issued_ok_def index g_def)
    with Suc show False by (simp add: index)
  qed
  have nonzero: "g + 1 \<noteq> 0" using Suc by (metis nat.distinct(1) unat_0)
  have "i \<noteq> 0" using index nonzero by (auto simp: id_to_generation_def)
  have gens: "\<forall>h \<in> set ((slot_info c)[idx := g + 1]). unat h \<le> length (i # ids)"
  proof
    fix h
    assume "h \<in> set ((slot_info c)[idx := g + 1])"
    then have "h \<in> insert (g + 1) (set (slot_info c))" by (rule set_update_subset_insert [THEN subsetD])
    with ok(2) g Suc show "unat h \<le> length (i # ids)" by (auto simp: issued_ok_def)
  qed
  have "unat (id_to_generation j) \<le> unat ((slot_info c)[idx := g + 1] ! id_to_index j)" if "j \<in> set ids" for j
    using that ok(2) Suc idx(3) unfolding issued_ok_def g_def by (cases "id_to_index j = idx") force+
  then have issued: "issued_ok (i # ids) c1"
    using ok(2) index nonzero idx(3) gens unfolding issued_ok_def c1 by auto
  have lookup: "lookup_op c1 = lookup_op c"
  proof
    fix j
    show "lookup_op c1 j = lookup_op c j"
      using idx by (cases "id_to_index j = idx")
        (auto simp: lookup_op_def is_valid_id_def slot_at_def c1)
  qed
  have d: "distinct (chan_free c)" using ok(1) by (simp add: slots_ok_def)
  then have "set (butlast (chan_free c)) = set (chan_free c) - {idx}"
    using free unfolding idx_def by (cases "chan_free c" rule: rev_cases) auto
  with d ok(1) idx index new \<open>i \<noteq> 0\<close> issued lookup show ?thesis
    by (simp add: c1 slots_ok_def is_valid_id_def slot_at_def distinct_butlast)
qed

lemma allocate_grow:
  assumes ok: "slots_ok c" "issued_ok ids c" "length ids < max_issued" and free: "chan_free c = []"
    and "allocate_id c = (i, c1)"
  shows "i \<notin> set ids \<and> i \<noteq> 0 \<and> issued_ok (i # ids) c1 \<and> is_valid_id c1 i \<and>
    lookup_op c1 = lookup_op c \<and> slot_at c1 (id_to_index i) = None \<and>
    id_to_index i < length (chan_slots c1) \<and> length (chan_slots c1) = length (slot_info c1) \<and>
    distinct (chan_free c1) \<and> set (chan_free c1) =
      {k. k < length (chan_slots c1) \<and> chan_slots c1 ! k = None} - {id_to_index i}"
proof -
  define idx where "idx = length (chan_slots c)"
  have range: "idx < 2 ^ 32" using ok(2,3) by (simp add: issued_ok_def max_issued_def idx_def)
  have len: "length (slot_info c) = idx" using ok(1) by (simp add: slots_ok_def idx_def)
  have i: "i = encode_id 1 idx"
    and c1: "c1 = c\<lparr>chan_slots := chan_slots c @ [None], slot_info := slot_info c @ [1]\<rparr>"
    using assms(5) free by (simp_all add: allocate_id_def Let_def idx_def)
  have index: "id_to_index i = idx" "id_to_generation i = 1" using range i by simp_all
  have new: "i \<notin> set ids" using ok(2) len index by (auto simp: issued_ok_def)
  have "i \<noteq> 0" using index by (auto simp: id_to_generation_def)
  have issued: "issued_ok (i # ids) c1"
    using ok(2) len index unfolding issued_ok_def c1 by (auto simp: nth_append idx_def)
  have lookup: "lookup_op c1 = lookup_op c"
    by (rule ext) (auto simp: lookup_op_def is_valid_id_def slot_at_def c1 nth_append len idx_def)
  have full: "{k. k < length (chan_slots c) \<and> chan_slots c ! k = None} = {}"
    using ok(1) free by (simp add: slots_ok_def)
  have "{k. k < Suc idx \<and> (chan_slots c @ [None]) ! k = None} - {idx} = {}"
    using full by (auto simp: nth_append idx_def less_Suc_eq)
  with len index new \<open>i \<noteq> 0\<close> issued lookup free show ?thesis
    by (simp add: c1 is_valid_id_def slot_at_def nth_append idx_def [symmetric])
qed

lemma submit_ok:
  assumes "slots_ok c" "issued_ok ids c" "length ids < max_issued" "submit_op kind c = Some (i, c')"
  shows "i \<notin> set ids" "i \<noteq> 0" "slots_ok c'" "issued_ok (i # ids) c'"
    "lookup_op c' = (lookup_op c)(i \<mapsto> new_slot)"
    "pending_requests c' = pending_requests c @
      [\<lparr>req_id = i, req_kind = kind, req_task = chan_task c\<rparr>]"
    "max_pending c' = max_pending c" "submit_wakers c' = submit_wakers c" "chan_task c' = chan_task c"
proof -
  obtain c1 where c1: "allocate_id c = (i, c1)"
    and c': "c' = put_slot (id_to_index i) (Some new_slot) (c1\<lparr>pending_requests := pending_requests c1 @
      [\<lparr>req_id = i, req_kind = kind, req_task = chan_task c1\<rparr>]\<rparr>)"
    using assms(4) by (auto simp: submit_op_def Let_def split: if_splits prod.splits)
  have same: "pending_requests c1 = pending_requests c" "max_pending c1 = max_pending c"
    "submit_wakers c1 = submit_wakers c" "chan_task c1 = chan_task c"
    using c1 by (auto simp: allocate_id_def Let_def split: if_splits)
  have a: "i \<notin> set ids \<and> i \<noteq> 0 \<and> issued_ok (i # ids) c1 \<and> is_valid_id c1 i \<and>
      lookup_op c1 = lookup_op c \<and> slot_at c1 (id_to_index i) = None \<and>
      id_to_index i < length (chan_slots c1) \<and> length (chan_slots c1) = length (slot_info c1) \<and>
      distinct (chan_free c1) \<and> set (chan_free c1) =
        {k. k < length (chan_slots c1) \<and> chan_slots c1 ! k = None} - {id_to_index i}"
    using allocate_reuse [OF assms(1-3) _ c1] allocate_grow [OF assms(1-3) _ c1] by blast
  then have len: "id_to_index i < length (chan_slots c1)" and valid: "is_valid_id c1 i" by simp_all
  show "i \<notin> set ids" "i \<noteq> 0" using a by simp_all
  have "{k. k < length (chan_slots c1) \<and> (chan_slots c1)[id_to_index i := Some new_slot] ! k = None} =
      {k. k < length (chan_slots c1) \<and> chan_slots c1 ! k = None} - {id_to_index i}"
    using a by (auto simp: nth_list_update split: if_splits)
  with a show "slots_ok c'" by (simp add: c' slots_ok_def put_slot_def)
  show "issued_ok (i # ids) c'" using a by (simp add: c' issued_ok_def put_slot_def)
  show "lookup_op c' = (lookup_op c)(i \<mapsto> new_slot)"
  proof
    fix j
    have j: "is_valid_id c' j = is_valid_id c1 j" by (simp add: is_valid_id_def c' put_slot_def)
    have "id_to_index j = id_to_index i \<Longrightarrow> is_valid_id c1 j \<Longrightarrow> j = i"
      using a valid_unique [of c1 j i] by simp
    then have "lookup_op c' j = ((lookup_op c1)(i \<mapsto> new_slot)) j"
      using len valid j by (auto simp: lookup_op_def slot_at_def c' put_slot_def nth_list_update)
    then show "lookup_op c' j = ((lookup_op c)(i \<mapsto> new_slot)) j" using a by simp
  qed
  show "pending_requests c' = pending_requests c @
      [\<lparr>req_id = i, req_kind = kind, req_task = chan_task c\<rparr>]"
    "max_pending c' = max_pending c" "submit_wakers c' = submit_wakers c" "chan_task c' = chan_task c"
    by (simp_all add: c' put_slot_def same)
qed

end
