(* ===== verification/HostChannelSpec.thy ===== *)
theory HostChannelSpec
  imports HostChannelSound
begin

text \<open>
  The specification of the host channel and the proof that the code implements it. The specification
  keeps one slot for each operation under an identifier that is never used again; it knows neither
  generations nor free slots. The steps are those of the tasks (polling and dropping a future, any
  number of times, also after its end) and of the host, which answers requests it has taken.
\<close>

section \<open>Steps\<close>

datatype chan_op =
    PollFuture raw_waker host_op
  | DropFuture host_op
  | TakeRequest
  | CompleteOp u64 host_result
  | AppendChunk u64 bytes bool
  | ClearBuffer u64
  | SetTask "task_id option"

datatype chan_out =
    Polled "host_result poll" host_op
  | Taken "host_request option"
  | Chunked "(bool, host_error) result"
  | Silent

fun chan_step :: "chan_op \<Rightarrow> host_channel \<Rightarrow> chan_out \<times> raw_waker list \<times> host_channel" where
  "chan_step (PollFuture w f) c = (let (p, f, c) = poll_op w f c in (Polled p f, [], c))"
| "chan_step (DropFuture f) c = (Silent, [], drop_op f c)"
| "chan_step TakeRequest c = (let (r, ws, c) = take_pending c in (Taken r, ws, c))"
| "chan_step (CompleteOp i r) c = (let (ws, c) = complete_result i r c in (Silent, ws, c))"
| "chan_step (AppendChunk i d eof) c = (let (r, ws, c) = append_chunk i d eof c in (Chunked r, ws, c))"
| "chan_step (ClearBuffer i) c = (Silent, [], clear_buffer i c)"
| "chan_step (SetTask t) c = (Silent, [], set_current_task t c)"

text \<open>The host answers operations it has taken from the queue.\<close>

fun host_allowed :: "chan_op \<Rightarrow> host_channel \<Rightarrow> bool" where
  "host_allowed (CompleteOp i r) c = (i \<notin> req_id ` set (pending_requests c))"
| "host_allowed (AppendChunk i d eof) c = (i \<notin> req_id ` set (pending_requests c))"
| "host_allowed _ c = True"

fun issued_by :: "chan_op \<Rightarrow> chan_out \<Rightarrow> u64 list" where
  "issued_by (PollFuture w (OpPending k)) (Polled p (OpSubmitted i)) = [i]"
| "issued_by _ _ = []"

text \<open>A channel in use, with the identifiers of the operations submitted so far.\<close>

inductive chan_run :: "nat \<Rightarrow> u64 list \<Rightarrow> host_channel \<Rightarrow> bool" where
  chan_start: "chan_run m [] (channel_new m)"
| chan_next:
    "chan_run m ids c \<Longrightarrow> host_allowed op c \<Longrightarrow> length ids < max_issued \<Longrightarrow>
       chan_step op c = (out, ws, c') \<Longrightarrow> chan_run m (issued_by op out @ ids) c'"

section \<open>The specification\<close>

record host_spec =
  spec_queue :: "host_request list"
  spec_max :: nat
  spec_ops :: "u64 \<rightharpoonup> pending_slot"
  spec_submitters :: "raw_waker list"
  spec_task :: "task_id option"

definition spec_poll :: "raw_waker \<Rightarrow> u64 \<Rightarrow> host_spec \<Rightarrow> host_result poll \<times> host_spec" where
  "spec_poll w i a =
     (case spec_ops a i of
        None \<Rightarrow> (Ready (Err OperationSlotNotFound), a)
      | Some s \<Rightarrow>
          (case slot_result s of
             Some r \<Rightarrow> (Ready r, a\<lparr>spec_ops := (spec_ops a)(i := None)\<rparr>)
           | None \<Rightarrow> (Pending, a\<lparr>spec_ops := (spec_ops a)(i \<mapsto> s\<lparr>slot_waker := Some w\<rparr>)\<rparr>)))"

fun spec_take ::
  "host_request list \<Rightarrow> raw_waker list \<Rightarrow> (u64 \<rightharpoonup> pending_slot) \<Rightarrow>
     host_request option \<times> raw_waker list \<times> host_request list \<times> raw_waker list \<times> (u64 \<rightharpoonup> pending_slot)" where
  "spec_take [] subs ops = (None, [], [], subs, ops)"
| "spec_take (req # rest) subs ops =
     (case ops (req_id req) of
        Some s \<Rightarrow>
          if slot_cancelled s then
            (let (r, ws, q, subs', ops') = spec_take rest (drop 1 subs) (ops(req_id req := None))
             in (r, take 1 subs @ ws, q, subs', ops'))
          else (Some req, take 1 subs, rest, drop 1 subs, ops)
      | None \<Rightarrow> (Some req, take 1 subs, rest, drop 1 subs, ops))"

text \<open>One step; the first argument is the identifier for an operation submitted in it.\<close>

fun spec_step :: "u64 \<Rightarrow> chan_op \<Rightarrow> host_spec \<Rightarrow> chan_out \<times> raw_waker list \<times> host_spec" where
  "spec_step new (PollFuture w f) a =
     (case f of
        OpPending kind \<Rightarrow>
          if length (spec_queue a) < spec_max a then
            (Polled Pending (OpSubmitted new), [],
             a\<lparr>spec_queue := spec_queue a @ [\<lparr>req_id = new, req_kind = kind, req_task = spec_task a\<rparr>],
               spec_ops := (spec_ops a)(new \<mapsto> new_slot\<lparr>slot_waker := Some w\<rparr>)\<rparr>)
          else
            (Polled Pending f, [],
             if list_ex (\<lambda>v. will_wake v w) (spec_submitters a) then a
             else a\<lparr>spec_submitters := spec_submitters a @ [w]\<rparr>)
      | OpSubmitted i \<Rightarrow> (let (p, a) = spec_poll w i a in (Polled p f, [], a))
      | OpDone \<Rightarrow> (Polled (Ready (Err PolledAfterCompletion)) f, [], a))"
| "spec_step new (DropFuture f) a =
     (case f of
        OpSubmitted i \<Rightarrow>
          (case spec_ops a i of
             None \<Rightarrow> (Silent, [], a)
           | Some s \<Rightarrow>
               (Silent, [], a\<lparr>spec_ops := (spec_ops a)(i :=
                 if slot_result s = None then Some (s\<lparr>slot_cancelled := True\<rparr>) else None)\<rparr>))
      | _ \<Rightarrow> (Silent, [], a))"
| "spec_step new TakeRequest a =
     (let (r, ws, q, subs, ops) = spec_take (spec_queue a) (spec_submitters a) (spec_ops a)
      in (Taken r, ws, a\<lparr>spec_queue := q, spec_submitters := subs, spec_ops := ops\<rparr>))"
| "spec_step new (CompleteOp i r) a =
     (case spec_ops a i of
        None \<Rightarrow> (Silent, [], a)
      | Some s \<Rightarrow>
          if slot_cancelled s then (Silent, [], a\<lparr>spec_ops := (spec_ops a)(i := None)\<rparr>)
          else (Silent, take_waker (slot_waker s), a\<lparr>spec_ops := (spec_ops a)(i \<mapsto>
            s\<lparr>slot_result := Some r, slot_waker := None\<rparr>)\<rparr>))"
| "spec_step new (AppendChunk i data eof) a =
     (case spec_ops a i of
        None \<Rightarrow> (Chunked (Err OperationSlotNotFound), [], a)
      | Some s \<Rightarrow>
          (let buf = slot_buffer s @ data in
           if slot_cancelled s then
             (Chunked (Err OperationCancelled), [], a\<lparr>spec_ops := (spec_ops a)(i := None)\<rparr>)
           else if length buf > buffer_limit s then
             (Chunked (Err BufferOverflow), take_waker (slot_waker s),
              a\<lparr>spec_ops := (spec_ops a)(i \<mapsto> s\<lparr>slot_result := Some (Err (ResultTooLarge (buffer_limit s))),
                slot_waker := None\<rparr>)\<rparr>)
           else if eof then
             (Chunked (Ok True), take_waker (slot_waker s),
              a\<lparr>spec_ops := (spec_ops a)(i \<mapsto> s\<lparr>slot_result := Some (Ok buf), slot_buffer := [],
                slot_waker := None\<rparr>)\<rparr>)
           else (Chunked (Ok False), [], a\<lparr>spec_ops := (spec_ops a)(i \<mapsto> s\<lparr>slot_buffer := buf\<rparr>)\<rparr>)))"
| "spec_step new (ClearBuffer i) a =
     (case spec_ops a i of
        None \<Rightarrow> (Silent, [], a)
      | Some s \<Rightarrow> (Silent, [], a\<lparr>spec_ops := (spec_ops a)(i \<mapsto> s\<lparr>slot_buffer := []\<rparr>)\<rparr>))"
| "spec_step new (SetTask t) a = (Silent, [], a\<lparr>spec_task := t\<rparr>)"

definition abs_channel :: "host_channel \<Rightarrow> host_spec" where
  "abs_channel c = \<lparr>spec_queue = pending_requests c, spec_max = max_pending c, spec_ops = lookup_op c,
     spec_submitters = submit_wakers c, spec_task = chan_task c\<rparr>"

text \<open>The code has two errors for an operation that is over: its slot is free, or in use again.\<close>

fun one_error :: "chan_out \<Rightarrow> chan_out" where
  "one_error (Polled (Ready (Inl StaleOperationId)) f) = Polled (Ready (Inl OperationSlotNotFound)) f"
| "one_error (Chunked (Inl StaleOperationId)) = Chunked (Inl OperationSlotNotFound)"
| "one_error out = out"

section \<open>The invariant\<close>

definition queued :: "host_channel \<Rightarrow> u64 set" where
  "queued c = req_id ` set (pending_requests c)"

definition buffer_ok :: "pending_slot \<Rightarrow> bool" where
  "buffer_ok s = (buffer_limit s = default_chunk_buffer_limit \<and> length (slot_buffer s) \<le> buffer_limit s)"

definition chan_ok :: "nat \<Rightarrow> u64 list \<Rightarrow> host_channel \<Rightarrow> bool" where
  "chan_ok m ids c \<longleftrightarrow>
     slots_ok c \<and> issued_ok ids c \<and> max_pending c = m \<and> length (pending_requests c) \<le> m \<and>
     distinct (map req_id (pending_requests c)) \<and> queued c \<subseteq> set ids \<and>
     (\<forall>i \<in> queued c. \<exists>s. lookup_op c i = Some s \<and> slot_result s = None) \<and>
     (\<forall>i s. lookup_op c i = Some s \<longrightarrow> buffer_ok s)"

lemma put_slot_fields [simp]:
  "pending_requests (put_slot k x c) = pending_requests c" "max_pending (put_slot k x c) = max_pending c"
  "slot_info (put_slot k x c) = slot_info c" "chan_free (put_slot k x c) = chan_free c"
  "submit_wakers (put_slot k x c) = submit_wakers c" "chan_task (put_slot k x c) = chan_task c"
  "length (chan_slots (put_slot k x c)) = length (chan_slots c)" "queued (put_slot k x c) = queued c"
  by (simp_all add: put_slot_def queued_def)

lemma free_slot_fields [simp]:
  "pending_requests (free_slot i c) = pending_requests c" "max_pending (free_slot i c) = max_pending c"
  "slot_info (free_slot i c) = slot_info c" "submit_wakers (free_slot i c) = submit_wakers c"
  "chan_task (free_slot i c) = chan_task c" "queued (free_slot i c) = queued c"
  "length (chan_slots (free_slot i c)) = length (chan_slots c)"
  by (simp_all add: free_slot_def Let_def queued_def)

lemma issued_ok_same:
  "length (chan_slots c) = length (chan_slots d) \<Longrightarrow> slot_info c = slot_info d \<Longrightarrow>
     issued_ok ids c = issued_ok ids d"
  by (simp add: issued_ok_def)

lemma put_slot_step:
  assumes "chan_ok m ids c" "lookup_op c i = Some s" "buffer_ok s'"
    and "i \<in> queued c \<longrightarrow> slot_result s' = None"
  shows "chan_ok m ids (put_slot (id_to_index i) (Some s') c)"
    "abs_channel (put_slot (id_to_index i) (Some s') c) =
      (abs_channel c)\<lparr>spec_ops := (lookup_op c)(i \<mapsto> s')\<rparr>"
proof -
  have ok: "slots_ok c" using assms(1) by (simp add: chan_ok_def)
  note put = put_slot_ok [OF ok assms(2), of s']
  show "chan_ok m ids (put_slot (id_to_index i) (Some s') c)"
    using assms put issued_ok_same [of "put_slot (id_to_index i) (Some s') c" c]
    by (auto simp: chan_ok_def)
  show "abs_channel (put_slot (id_to_index i) (Some s') c) =
      (abs_channel c)\<lparr>spec_ops := (lookup_op c)(i \<mapsto> s')\<rparr>"
    by (simp add: abs_channel_def put(2))
qed

lemma free_slot_step:
  assumes "chan_ok m ids c" "lookup_op c i = Some s" "i \<notin> queued c"
  shows "chan_ok m ids (free_slot i c)"
    "abs_channel (free_slot i c) = (abs_channel c)\<lparr>spec_ops := (lookup_op c)(i := None)\<rparr>"
proof -
  have ok: "slots_ok c" using assms(1) by (simp add: chan_ok_def)
  note free = free_slot_ok [OF ok assms(2)]
  show "chan_ok m ids (free_slot i c)"
    using assms free issued_ok_same [of "free_slot i c" c] by (auto simp: chan_ok_def)
  show "abs_channel (free_slot i c) = (abs_channel c)\<lparr>spec_ops := (lookup_op c)(i := None)\<rparr>"
    by (simp add: abs_channel_def free(2))
qed

lemma slot_at_lookup: "is_valid_id c i \<Longrightarrow> slot_at c (id_to_index i) = lookup_op c i"
  by (simp add: lookup_op_def)

lemma lookup_invalid: "\<not> is_valid_id c i \<Longrightarrow> lookup_op c i = None"
  by (simp add: lookup_op_def)

section \<open>Each step\<close>

lemma complete_step:
  assumes "chan_ok m ids c" "i \<notin> queued c" "complete_result i r c = (ws, c')"
  shows "chan_ok m ids c' \<and> spec_step new (CompleteOp i r) (abs_channel c) = (Silent, ws, abs_channel c')"
proof (cases "lookup_op c i")
  case None
  with assms(3) have "ws = [] \<and> c' = c"
    by (auto simp: complete_result_def lookup_op_def split: if_splits)
  with None assms(1) show ?thesis by (simp add: abs_channel_def)
next
  case (Some s)
  then have v: "is_valid_id c i" "slot_at c (id_to_index i) = Some s" by (simp_all add: lookup_valid)
  have "buffer_ok s" using assms(1) Some by (simp add: chan_ok_def)
  then have b: "buffer_ok (s\<lparr>slot_result := Some r, slot_waker := None\<rparr>)" by (simp add: buffer_ok_def)
  show ?thesis
    using assms(3) v Some free_slot_step [OF assms(1) Some assms(2)]
      put_slot_step [OF assms(1) Some b] assms(2)
    by (auto simp: complete_result_def abs_channel_def split: if_splits)
qed

lemma chunk_step:
  assumes "chan_ok m ids c" "i \<notin> queued c" "append_chunk i d eof c = (r, ws, c')"
  shows "chan_ok m ids c' \<and>
    (\<exists>r'. spec_step new (AppendChunk i d eof) (abs_channel c) = (Chunked r', ws, abs_channel c') \<and>
      one_error (Chunked r) = one_error (Chunked r'))"
proof (cases "lookup_op c i")
  case None
  with assms(3) have "ws = [] \<and> c' = c \<and> (r = Err StaleOperationId \<or> r = Err OperationSlotNotFound)"
    by (auto simp: append_chunk_def lookup_op_def split: if_splits)
  with None assms(1) show ?thesis by (auto simp: abs_channel_def)
next
  case (Some s)
  then have v: "is_valid_id c i" "slot_at c (id_to_index i) = Some s" by (simp_all add: lookup_valid)
  have ok: "buffer_ok s" using assms(1) Some by (simp add: chan_ok_def)
  show ?thesis
    using assms(3) v Some free_slot_step [OF assms(1) Some assms(2)] assms(2)
      put_slot_step [OF assms(1) Some, of "s\<lparr>slot_result := Some (Err (ResultTooLarge (buffer_limit s))), slot_waker := None\<rparr>"]
      put_slot_step [OF assms(1) Some, of "s\<lparr>slot_buffer := [], slot_result := Some (Ok (slot_buffer s @ d)), slot_waker := None\<rparr>"]
      put_slot_step [OF assms(1) Some, of "s\<lparr>slot_buffer := slot_buffer s @ d\<rparr>"] ok
    by (auto simp: append_chunk_def abs_channel_def Let_def buffer_ok_def split: if_splits)
qed

lemma poll_submitted_step:
  assumes "chan_ok m ids c" "poll_result w i c = (p, c')"
  shows "chan_ok m ids c' \<and> (\<exists>p'. spec_poll w i (abs_channel c) = (p', abs_channel c') \<and>
    one_error (Polled p f) = one_error (Polled p' f))"
proof (cases "lookup_op c i")
  case None
  with assms(2) have "c' = c \<and> (p = Ready (Err StaleOperationId) \<or> p = Ready (Err OperationSlotNotFound))"
    by (auto simp: poll_result_def lookup_op_def split: if_splits)
  with None assms(1) show ?thesis by (auto simp: spec_poll_def abs_channel_def)
next
  case (Some s)
  then have v: "is_valid_id c i" "slot_at c (id_to_index i) = Some s" by (simp_all add: lookup_valid)
  have ok: "buffer_ok s" using assms(1) Some by (simp add: chan_ok_def)
  show ?thesis
  proof (cases "slot_result s")
    case None
    have "slot_waker s \<noteq> None \<Longrightarrow> will_wake (the (slot_waker s)) w \<Longrightarrow> s\<lparr>slot_waker := Some w\<rparr> = s"
      by (cases s) (auto simp: will_wake_def)
    then have "p = Pending \<and> (c' = put_slot (id_to_index i) (Some (s\<lparr>slot_waker := Some w\<rparr>)) c \<or>
        c' = c \<and> s\<lparr>slot_waker := Some w\<rparr> = s)"
      using assms(2) v None by (auto simp: poll_result_def split: if_splits)
    with put_slot_step [OF assms(1) Some, of "s\<lparr>slot_waker := Some w\<rparr>"] None ok Some assms(1)
    show ?thesis by (auto simp: spec_poll_def abs_channel_def buffer_ok_def fun_upd_idem)
  next
    case (Some r)
    with assms(1) \<open>lookup_op c i = Some s\<close> have "i \<notin> queued c" by (auto simp: chan_ok_def)
    with assms(2) v Some free_slot_step [OF assms(1) \<open>lookup_op c i = Some s\<close>] \<open>lookup_op c i = Some s\<close>
    show ?thesis by (auto simp: poll_result_def spec_poll_def abs_channel_def)
  qed
qed

lemma submit_step:
  assumes "chan_ok m ids c" "length ids < max_issued" "submit_op kind c = Some (i, c1)"
  shows "chan_ok m (i # ids) c1 \<and> i \<notin> set ids \<and> i \<noteq> 0 \<and> abs_channel c1 =
    (abs_channel c)\<lparr>spec_queue := pending_requests c @
      [\<lparr>req_id = i, req_kind = kind, req_task = chan_task c\<rparr>],
      spec_ops := (lookup_op c)(i \<mapsto> new_slot)\<rparr>"
proof -
  have ok: "slots_ok c" "issued_ok ids c" using assms(1) by (simp_all add: chan_ok_def)
  note s = submit_ok [OF ok assms(2,3)]
  have room: "length (pending_requests c) < m"
    using assms(1,3) by (auto simp: submit_op_def chan_ok_def split: if_splits)
  have "i \<notin> queued c" using assms(1) s(1) by (auto simp: chan_ok_def)
  moreover have "queued c1 = insert i (queued c)" by (simp add: queued_def s(6))
  moreover have "buffer_ok new_slot" "slot_result new_slot = None" by (simp_all add: buffer_ok_def new_slot_def)
  ultimately have "chan_ok m (i # ids) c1"
    using assms(1) s room unfolding chan_ok_def queued_def by auto
  with s show ?thesis by (simp add: abs_channel_def)
qed

lemma poll_step:
  assumes "chan_ok m ids c" "length ids < max_issued" "poll_op w f c = (p, f', c')"
  shows "chan_ok m (issued_by (PollFuture w f) (Polled p f') @ ids) c' \<and>
    (\<exists>new out. new \<notin> set ids \<and> new \<noteq> 0 \<and>
      spec_step new (PollFuture w f) (abs_channel c) = (out, [], abs_channel c') \<and>
      one_error (Polled p f') = one_error out)"
proof -
  have "card (set ids) < card (UNIV :: u64 set) - 1"
    using card_length [of ids] assms(2) by (simp add: card_word max_issued_def)
  then have "\<not> UNIV - {0} \<subseteq> set ids"
    using card_mono [of "set ids" "UNIV - {0 :: u64}"] by (auto simp: card_Diff_singleton)
  then obtain other :: u64 where other: "other \<notin> set ids" "other \<noteq> 0" by blast
  show ?thesis
  proof (cases f)
    case f: (OpPending kind)
    show ?thesis
    proof (cases "submit_op kind c")
      case None
      then have full: "\<not> can_submit c" by (auto simp: submit_op_def can_submit_def Let_def split: if_splits prod.splits)
      have same: "lookup_op (c\<lparr>submit_wakers := x\<rparr>) = lookup_op c" for x by (rule lookup_op_cong) simp_all
      have "chan_ok m ids (c\<lparr>submit_wakers := x\<rparr>)" for x
        using assms(1) by (simp add: chan_ok_def same slots_ok_def issued_ok_def queued_def)
      with full assms(1,3) f other same show ?thesis
        by (intro conjI exI [of _ other])
          (auto simp: poll_op_def register_submit_waker_def can_submit_def abs_channel_def)
    next
      case (Some x)
      then obtain i c1 where x: "submit_op kind c = Some (i, c1)" by (cases x) auto
      then have room: "can_submit c" by (auto simp: submit_op_def can_submit_def split: if_splits)
      note one = submit_step [OF assms(1,2) x]
      have look: "lookup_op c1 i = Some new_slot"
        using submit_ok(5) [OF _ _ assms(2) x] assms(1) by (simp add: chan_ok_def)
      with poll_submitted_step [of m "i # ids" c1 w i] one obtain p' c2 where
        r: "poll_result w i c1 = (p', c2)" "chan_ok m (i # ids) c2"
        "\<exists>p''. spec_poll w i (abs_channel c1) = (p'', abs_channel c2) \<and>
          one_error (Polled p' f) = one_error (Polled p'' f)"
        by (cases "poll_result w i c1") auto
      have "p' = Pending" using r(1) look by (auto simp: poll_result_def lookup_op_def new_slot_def split: if_splits)
      moreover have "p = p' \<and> f' = OpSubmitted i \<and> c' = c2"
        using assms(3) f room x r(1) by (simp add: poll_op_def poll_submitted_def)
      moreover have "spec_step i (PollFuture w f) (abs_channel c) = (Polled Pending (OpSubmitted i), [], abs_channel c2)"
      proof -
        have "spec_poll w i (abs_channel c1) =
            (Pending, (abs_channel c1)\<lparr>spec_ops := (lookup_op c1)(i \<mapsto> new_slot\<lparr>slot_waker := Some w\<rparr>)\<rparr>)"
          using look by (simp add: spec_poll_def abs_channel_def new_slot_def)
        with r(3) have c2: "abs_channel c2 =
            (abs_channel c1)\<lparr>spec_ops := (lookup_op c1)(i \<mapsto> new_slot\<lparr>slot_waker := Some w\<rparr>)\<rparr>"
          by auto
        have "lookup_op c1 = (lookup_op c)(i \<mapsto> new_slot)"
          using submit_ok(5) [OF _ _ assms(2) x] assms(1) by (simp add: chan_ok_def)
        then show ?thesis
          using one f room unfolding c2 by (simp add: can_submit_def) (simp add: abs_channel_def)
      qed
      ultimately show ?thesis using one r(2) f by (intro conjI exI [of _ i]) auto
    qed
  next
    case f: (OpSubmitted i)
    obtain q c1 where q: "poll_result w i c = (q, c1)" by fastforce
    from poll_submitted_step [OF assms(1) q, of f] q assms(3) f other show ?thesis
      by (intro conjI exI [of _ other]) (auto simp: poll_op_def poll_submitted_def)
  next
    case OpDone
    with assms other show ?thesis by (intro conjI exI [of _ other]) (auto simp: poll_op_def)
  qed
qed

lemma drop_step:
  assumes "chan_ok m ids c"
  shows "chan_ok m ids (drop_op f c) \<and>
    spec_step new (DropFuture f) (abs_channel c) = (Silent, [], abs_channel (drop_op f c))"
proof (cases f)
  case f: (OpSubmitted i)
  show ?thesis
  proof (cases "lookup_op c i")
    case None
    then have "cancel_op i c = c" by (auto simp: cancel_op_def lookup_op_def split: if_splits)
    with None assms f show ?thesis by (simp add: drop_op_def abs_channel_def)
  next
    case (Some s)
    then have v: "is_valid_id c i" "slot_at c (id_to_index i) = Some s" by (simp_all add: lookup_valid)
    have ok: "buffer_ok s" using assms Some by (simp add: chan_ok_def)
    have q: "slot_result s \<noteq> None \<Longrightarrow> i \<notin> queued c" using assms Some by (auto simp: chan_ok_def)
    show ?thesis
      using v Some f free_slot_step [OF assms Some q] ok
        put_slot_step [OF assms Some, of "s\<lparr>slot_cancelled := True\<rparr>"]
      by (auto simp: drop_op_def cancel_op_def abs_channel_def buffer_ok_def)
  qed
qed (use assms in \<open>simp_all add: drop_op_def\<close>)

lemma clear_step:
  assumes "chan_ok m ids c"
  shows "chan_ok m ids (clear_buffer i c) \<and>
    spec_step new (ClearBuffer i) (abs_channel c) = (Silent, [], abs_channel (clear_buffer i c))"
proof (cases "lookup_op c i")
  case None
  then have "clear_buffer i c = c" by (auto simp: clear_buffer_def lookup_op_def split: if_splits)
  with None assms show ?thesis by (simp add: abs_channel_def)
next
  case (Some s)
  then have v: "is_valid_id c i" "slot_at c (id_to_index i) = Some s" by (simp_all add: lookup_valid)
  have ok: "buffer_ok s" "i \<in> queued c \<longrightarrow> slot_result s = None"
    using assms Some by (auto simp: chan_ok_def)
  with put_slot_step [OF assms Some, of "s\<lparr>slot_buffer := []\<rparr>"] v Some show ?thesis
    by (auto simp: clear_buffer_def abs_channel_def buffer_ok_def)
qed

lemma take_step:
  assumes "chan_ok m ids c" "take_pending c = (r, ws, c')"
  shows "chan_ok m ids c' \<and> max_pending c' = max_pending c \<and> chan_task c' = chan_task c \<and>
    spec_take (pending_requests c) (submit_wakers c) (lookup_op c) =
      (r, ws, pending_requests c', submit_wakers c', lookup_op c')"
  using assms
proof (induction c arbitrary: r ws c' rule: take_pending.induct)
  case (1 c)
  show ?case
  proof (cases "pending_requests c")
    case Nil
    with 1 show ?thesis by (simp add: take_pending.simps [of c])
  next
    case (Cons req rest)
    define c1 where "c1 = c\<lparr>pending_requests := rest, submit_wakers := drop 1 (submit_wakers c)\<rparr>"
    have look: "lookup_op c1 = lookup_op c" by (rule lookup_op_cong) (simp_all add: c1_def)
    have qs: "queued c = insert (req_id req) (queued c1)" by (simp add: queued_def Cons c1_def)
    have "slots_ok c1 = slots_ok c" "issued_ok ids c1 = issued_ok ids c"
      by (simp_all add: slots_ok_def issued_ok_def c1_def)
    then have ok1: "chan_ok m ids c1" and out: "req_id req \<notin> queued c1"
      using "1.prems"(1) Cons look by (auto simp: chan_ok_def qs queued_def c1_def)
    obtain s where s: "lookup_op c1 (req_id req) = Some s"
      using "1.prems"(1) qs look by (auto simp: chan_ok_def)
    then have at: "slot_at c1 (id_to_index (req_id req)) = Some s" by (simp add: lookup_valid)
    show ?thesis
    proof (cases "slot_cancelled s")
      case False
      then have "take_pending c = (Some req, take 1 (submit_wakers c), c1)"
        using Cons at by (simp add: take_pending.simps [of c] c1_def)
      with False "1.prems"(2) Cons s ok1 look show ?thesis by (auto simp: c1_def)
    next
      case True
      obtain r1 ws1 c2 where next1: "take_pending (free_slot (req_id req) c1) = (r1, ws1, c2)"
        by (cases "take_pending (free_slot (req_id req) c1)") auto
      note free = free_slot_step [OF ok1 s out]
      from "1.IH" [OF Cons c1_def refl at True free(1) next1] free(2)
      have "chan_ok m ids c2" "max_pending c2 = max_pending c" "chan_task c2 = chan_task c"
        "spec_take rest (drop 1 (submit_wakers c)) ((lookup_op c)(req_id req := None)) =
          (r1, ws1, pending_requests c2, submit_wakers c2, lookup_op c2)"
        using free_slot_ok(2) [OF _ s] ok1 look by (simp_all add: c1_def chan_ok_def)
      moreover have "take_pending c = (r1, take 1 (submit_wakers c) @ ws1, c2)"
        using Cons at True next1 by (simp add: take_pending.simps [of c] c1_def)
      ultimately show ?thesis using "1.prems"(2) Cons True s look by simp
    qed
  qed
qed

lemma chan_step_ok:
  assumes "chan_ok m ids c" "host_allowed op c" "length ids < max_issued" "chan_step op c = (out, ws, c')"
  shows "chan_ok m (issued_by op out @ ids) c' \<and>
    (\<exists>new out'. new \<notin> set ids \<and> new \<noteq> 0 \<and>
      spec_step new op (abs_channel c) = (out', ws, abs_channel c') \<and> one_error out = one_error out')"
proof (cases op)
  case (PollFuture w f)
  then obtain p f' where "poll_op w f c = (p, f', c')" "out = Polled p f'" "ws = []"
    using assms(4) by (auto split: prod.splits)
  with poll_step [OF assms(1,3)] show ?thesis unfolding PollFuture by blast
next
  case (SetTask t)
  have "lookup_op (c\<lparr>chan_task := t\<rparr>) = lookup_op c" by (rule lookup_op_cong) simp_all
  moreover obtain new where "new \<notin> set ids \<and> new \<noteq> 0"
    using poll_step [OF assms(1,3), of NoopWaker OpDone] by (auto simp: poll_op_def)
  ultimately show ?thesis using assms SetTask
    by (auto simp: set_current_task_def abs_channel_def chan_ok_def slots_ok_def issued_ok_def queued_def)
next
  case (DropFuture f)
  obtain new where "new \<notin> set ids \<and> new \<noteq> 0"
    using poll_step [OF assms(1,3), of NoopWaker OpDone] by (auto simp: poll_op_def)
  with assms DropFuture drop_step [OF assms(1)] show ?thesis by auto
next
  case TakeRequest
  obtain new where "new \<notin> set ids \<and> new \<noteq> 0"
    using poll_step [OF assms(1,3), of NoopWaker OpDone] by (auto simp: poll_op_def)
  moreover obtain r where "take_pending c = (r, ws, c')" "out = Taken r"
    using assms(4) TakeRequest by (auto split: prod.splits)
  ultimately show ?thesis using take_step [OF assms(1)] TakeRequest by (auto simp: abs_channel_def)
next
  case (CompleteOp i r)
  obtain new where "new \<notin> set ids \<and> new \<noteq> 0"
    using poll_step [OF assms(1,3), of NoopWaker OpDone] by (auto simp: poll_op_def)
  with assms CompleteOp complete_step [OF assms(1), of i r] show ?thesis
    by (auto simp: queued_def split: prod.splits)
next
  case (AppendChunk i d eof)
  obtain new where "new \<notin> set ids \<and> new \<noteq> 0"
    using poll_step [OF assms(1,3), of NoopWaker OpDone] by (auto simp: poll_op_def)
  with assms AppendChunk chunk_step [OF assms(1), of i d eof] show ?thesis
    by (auto simp: queued_def split: prod.splits)
next
  case (ClearBuffer i)
  obtain new where "new \<notin> set ids \<and> new \<noteq> 0"
    using poll_step [OF assms(1,3), of NoopWaker OpDone] by (auto simp: poll_op_def)
  with assms ClearBuffer clear_step [OF assms(1)] show ?thesis by auto
qed

lemma chan_run_ok: "chan_run m ids c \<Longrightarrow> chan_ok m ids c"
proof (induction rule: chan_run.induct)
  case (chan_start m)
  show ?case
    by (simp add: chan_ok_def channel_new_def slots_ok_def issued_ok_def queued_def lookup_op_def is_valid_id_def)
next
  case (chan_next m ids c op out ws c')
  with chan_step_ok show ?case by blast
qed

lemma issued_fresh:
  assumes "chan_ok m ids c" "length ids < max_issued" "chan_step op c = (out, ws, c')" "distinct ids" "0 \<notin> set ids"
  shows "distinct (issued_by op out @ ids) \<and> 0 \<notin> set (issued_by op out @ ids)"
proof (cases "\<exists>w k. op = PollFuture w (OpPending k)")
  case True
  then obtain w k where op: "op = PollFuture w (OpPending k)" by blast
  show ?thesis
  proof (cases "submit_op k c")
    case None
    with assms op show ?thesis by (auto simp: poll_op_def split: prod.splits if_splits)
  next
    case (Some x)
    then obtain i c1 where "submit_op k c = Some (i, c1)" by (cases x) auto
    with assms op submit_step [OF assms(1,2) this] show ?thesis
      by (auto simp: poll_op_def poll_submitted_def split: prod.splits if_splits)
  qed
next
  case False
  then have "issued_by op out = []" by (cases "(op, out)" rule: issued_by.cases) auto
  with assms(4,5) show ?thesis by simp
qed

lemma length_issued: "length (issued_by op out) \<le> 1"
  by (cases "(op, out)" rule: issued_by.cases) auto

lemma chan_run_length: "chan_run m ids c \<Longrightarrow> length ids \<le> max_issued"
proof (induction rule: chan_run.induct)
  case (chan_next m ids c op out ws c')
  with length_issued [of op out] show ?case by simp
qed simp

text \<open>The operation that a step is about.\<close>

fun names :: "chan_op \<Rightarrow> u64 set" where
  "names (PollFuture w (OpSubmitted i)) = {i}"
| "names (DropFuture (OpSubmitted i)) = {i}"
| "names (CompleteOp i r) = {i}"
| "names (AppendChunk i d eof) = {i}"
| "names (ClearBuffer i) = {i}"
| "names _ = {}"

lemma spec_take_other:
  "spec_take q subs ops = (r, ws, q', subs', ops') \<Longrightarrow> i \<notin> req_id ` set q \<Longrightarrow>
     ops' i = ops i \<and> i \<notin> req_id ` set q'"
  by (induction q subs ops arbitrary: r ws q' subs' ops' rule: spec_take.induct)
    (auto split: option.splits if_splits prod.splits)

lemma spec_other:
  assumes "spec_step new op a = (out, ws, a')" "new \<noteq> i" "i \<notin> req_id ` set (spec_queue a)"
    and "i \<notin> names op"
  shows "spec_ops a' i = spec_ops a i \<and> i \<notin> req_id ` set (spec_queue a')"
proof (cases op)
  case TakeRequest
  then obtain r q subs ops where "spec_take (spec_queue a) (spec_submitters a) (spec_ops a) = (r, ws, q, subs, ops)"
    "a' = a\<lparr>spec_queue := q, spec_submitters := subs, spec_ops := ops\<rparr>"
    using assms(1) by (auto split: prod.splits)
  with spec_take_other [OF this(1) assms(3)] show ?thesis by simp
next
  case (PollFuture w f)
  with assms show ?thesis
    by (cases f) (auto simp: spec_poll_def split: option.splits if_splits prod.splits)
next
  case (DropFuture f)
  with assms show ?thesis by (cases f) (auto split: option.splits if_splits)
qed (use assms in \<open>auto simp: Let_def split: option.splits if_splits\<close>)

lemma step_other:
  assumes "chan_ok m ids c" "host_allowed op c" "length ids < max_issued" "chan_step op c = (out, ws, c')"
    and "lookup_op c i = Some s" "i \<in> set ids" "i \<notin> queued c"
    and "i \<notin> names op"
  shows "lookup_op c' i = Some s \<and> i \<notin> queued c'"
proof -
  from chan_step_ok [OF assms(1-4)] obtain new out' where new: "new \<notin> set ids"
    "spec_step new op (abs_channel c) = (out', ws, abs_channel c')" by blast
  with assms(6) have other: "new \<noteq> i" by auto
  have abs: "spec_ops (abs_channel x) = lookup_op x" "spec_queue (abs_channel x) = pending_requests x" for x
    by (simp_all add: abs_channel_def)
  from spec_other [OF new(2) other _ assms(8)] assms(5,7) show ?thesis by (simp add: abs queued_def)
qed

section \<open>A channel with one operation in the hands of the host\<close>

definition sample_slot :: pending_slot where
  "sample_slot = new_slot\<lparr>slot_waker := Some (TaskWaker 3)\<rparr>"

definition sample_channel :: host_channel where
  "sample_channel = \<lparr>pending_requests = [], max_pending = 2, chan_slots = [Some sample_slot],
     slot_info = [1], chan_free = [], submit_wakers = [], chan_task = None\<rparr>"

lemma sample_run: "chan_run 2 [encode_id 1 0] sample_channel"
proof -
  define c where "c = sample_channel\<lparr>pending_requests :=
    [\<lparr>req_id = encode_id 1 0, req_kind = ReadStdin 10, req_task = None\<rparr>]\<rparr>"
  have "chan_step (PollFuture (TaskWaker 3) (OpPending (ReadStdin 10))) (channel_new 2) =
      (Polled Pending (OpSubmitted (encode_id 1 0)), [], c)"
    by (simp add: poll_op_def can_submit_def channel_new_def submit_op_def allocate_id_def poll_submitted_def
        poll_result_def is_valid_id_def slot_at_def put_slot_def new_slot_def c_def sample_channel_def
        sample_slot_def)
  from chan_next [OF chan_start _ _ this] have "chan_run 2 [encode_id 1 0] c" by (simp add: max_issued_def)
  moreover have "chan_step TakeRequest c =
      (Taken (Some \<lparr>req_id = encode_id 1 0, req_kind = ReadStdin 10, req_task = None\<rparr>), [], sample_channel)"
    by (simp add: c_def sample_channel_def take_pending.simps slot_at_def sample_slot_def new_slot_def)
  ultimately show ?thesis using chan_next [of 2 "[encode_id 1 0]" c TakeRequest] by (simp add: max_issued_def)
qed

lemma sample_lookup: "lookup_op sample_channel (encode_id 1 0) = Some sample_slot"
  by (simp add: lookup_op_def is_valid_id_def slot_at_def sample_channel_def)

lemma sample_valid: "is_valid_id sample_channel (encode_id 1 0)" "slot_at sample_channel 0 = Some sample_slot"
  by (simp_all add: is_valid_id_def slot_at_def sample_channel_def)

section \<open>Properties\<close>

text \<open>C35. The channel with its reused slots implements the map from operations to slots: every step
  of a task or of the host has the outcome of the specification, calls the same wakers in the same
  order and leads to the specified state, as long as less than 2^32 - 1 operations are submitted; an
  operation gets an identifier that was never used and is not zero, that of notifications.\<close>

theorem channel_refines:
  assumes "chan_run m ids c" "host_allowed op c" "length ids < max_issued" "chan_step op c = (out, ws, c')"
  shows "\<exists>new out'. new \<notin> set ids \<and> new \<noteq> 0 \<and>
    spec_step new op (abs_channel c) = (out', ws, abs_channel c') \<and> one_error out = one_error out'"
  using chan_step_ok [OF chan_run_ok [OF assms(1)] assms(2-4)] by blast

theorem channel_refines_witness:
  "\<exists>new out'. new \<notin> set [] \<and> new \<noteq> 0 \<and>
    spec_step new (PollFuture (TaskWaker 3) (OpPending (ReadStdin 10))) (abs_channel (channel_new 2)) =
      (out', [], abs_channel (snd (snd (chan_step (PollFuture (TaskWaker 3) (OpPending (ReadStdin 10))) (channel_new 2))))) \<and>
    one_error (fst (chan_step (PollFuture (TaskWaker 3) (OpPending (ReadStdin 10))) (channel_new 2))) = one_error out'"
  by (rule channel_refines [OF chan_start]) (auto simp: max_issued_def split: prod.split)

text \<open>C36. What a channel holds is bounded: at most as many requests as it was made for, at most ten
  megabytes of chunks for an operation; no two operations ever have the same identifier.\<close>

theorem channel_bounds:
  assumes "chan_run m ids c"
  shows "length (pending_requests c) \<le> m \<and> distinct ids \<and> 0 \<notin> set ids \<and>
    (\<forall>k s. slot_at c k = Some s \<longrightarrow> length (slot_buffer s) \<le> 10 * 1024 * 1024)"
proof -
  have ok: "chan_ok m ids c" using assms by (rule chan_run_ok)
  have "distinct ids \<and> 0 \<notin> set ids"
    using assms
  proof (induction rule: chan_run.induct)
    case (chan_next m ids c op out ws c')
    with issued_fresh [OF chan_run_ok] show ?case by blast
  qed simp
  moreover have "length (slot_buffer s) \<le> 10 * 1024 * 1024" if s: "slot_at c k = Some s" for k s
  proof -
    define i where "i = encode_id (slot_info c ! k) k"
    have k: "k < length (slot_info c)" "k < length (chan_slots c)"
      using s ok by (auto simp: slot_at_def chan_ok_def slots_ok_def split: if_splits)
    moreover have "length ids \<le> max_issued" using assms by (rule chan_run_length)
    ultimately have "k < 2 ^ 32" using ok by (auto simp: chan_ok_def issued_ok_def max_issued_def)
    with s k have "lookup_op c i = Some s" by (simp add: lookup_op_def is_valid_id_def i_def)
    with ok have "buffer_ok s" unfolding chan_ok_def by blast
    then show ?thesis by (simp add: buffer_ok_def default_chunk_buffer_limit_def)
  qed
  ultimately show ?thesis using ok by (simp add: chan_ok_def)
qed

theorem channel_bounds_witness:
  "length (pending_requests sample_channel) \<le> 2 \<and> distinct [encode_id 1 0] \<and> 0 \<notin> set [encode_id 1 0] \<and>
    slot_at sample_channel 0 = Some sample_slot \<and> length (slot_buffer sample_slot) \<le> 10 * 1024 * 1024"
proof -
  have "slot_at sample_channel 0 = Some sample_slot" by (simp add: slot_at_def sample_channel_def)
  with channel_bounds [OF sample_run] show ?thesis by blast
qed

text \<open>Steps in which no one touches operation \<open>i\<close>.\<close>

inductive chan_others :: "u64 \<Rightarrow> u64 list \<times> host_channel \<Rightarrow> u64 list \<times> host_channel \<Rightarrow> bool" for i where
  others_none: "chan_others i x x"
| others_step:
    "chan_others i x (ids, c) \<Longrightarrow> host_allowed op c \<Longrightarrow> length ids < max_issued \<Longrightarrow> i \<notin> names op \<Longrightarrow>
       chan_step op c = (out, ws, c') \<Longrightarrow> chan_others i x (issued_by op out @ ids, c')"

lemma chan_others_keep:
  assumes "chan_others i x y" "chan_run m (fst x) (snd x)" "lookup_op (snd x) i = Some s" "i \<in> set (fst x)"
    "i \<notin> queued (snd x)"
  shows "chan_run m (fst y) (snd y) \<and> lookup_op (snd y) i = Some s \<and> i \<in> set (fst y) \<and> i \<notin> queued (snd y)"
  using assms
proof (induction rule: chan_others.induct)
  case (others_step x ids c op out ws c')
  then have now: "chan_run m ids c" "lookup_op c i = Some s" "i \<in> set ids" "i \<notin> queued c" by simp_all
  with step_other [OF chan_run_ok [OF now(1)] others_step.hyps(2,3,5) now(2-4) others_step.hyps(4)]
    chan_run.chan_next [OF now(1) others_step.hyps(2,3,5)] show ?case by simp
qed simp

lemma chan_others_room: "chan_others i x y \<Longrightarrow> y = x \<or> length (fst x) < max_issued"
  by (induction rule: chan_others.induct) auto

text \<open>C37. The answer reaches the future it is meant for: when the host completes an operation that is
  waiting, the waker registered last for it is called, and after any steps of other futures and of the
  host for other operations, slots reused in between, polling the future gives exactly that answer.\<close>

theorem answer_delivered:
  assumes "chan_run m ids c" "i \<in> set ids" "lookup_op c i = Some s" "\<not> slot_cancelled s" "i \<notin> queued c"
    and "complete_result i r c = (ws, c1)" "chan_others i (ids, c1) (ids', c2)"
  shows "ws = take_waker (slot_waker s) \<and> fst (poll_op w (OpSubmitted i) c2) = Ready r"
proof -
  have ok: "chan_ok m ids c" using assms(1) by (rule chan_run_ok)
  have v: "is_valid_id c i" "slot_at c (id_to_index i) = Some s" using assms(3) by (simp_all add: lookup_valid)
  define s' where "s' = s\<lparr>slot_result := Some r, slot_waker := None\<rparr>"
  have c1: "c1 = put_slot (id_to_index i) (Some s') c" and ws: "ws = take_waker (slot_waker s)"
    using assms(4,6) v by (simp_all add: complete_result_def s'_def)
  have "lookup_op c1 i = Some s'" using put_slot_ok(2) [OF _ assms(3), of s'] ok c1 by (simp add: chan_ok_def)
  moreover have "length ids < max_issued \<Longrightarrow> chan_run m ids c1"
    using chan_next [OF assms(1), of "CompleteOp i r" Silent ws c1] assms(5,6) by (simp add: queued_def)
  moreover have "c1 = c2" if "\<not> length ids < max_issued"
    using chan_others_room [OF assms(7)] that by simp
  ultimately have "lookup_op c2 i = Some s'"
    using chan_others_keep [OF assms(7), of m s'] assms(2,5) c1 by (cases "length ids < max_issued") auto
  then have "is_valid_id c2 i" "slot_at c2 (id_to_index i) = Some s'" by (simp_all add: lookup_valid)
  then have "fst (poll_result w i c2) = Ready r" by (simp add: poll_result_def s'_def)
  with ws show ?thesis by (simp add: poll_op_def poll_submitted_def split_beta)
qed

theorem answer_delivered_witness:
  "\<exists>ws c1. complete_result (encode_id 1 0) (Ok [7]) sample_channel = (ws, c1) \<and> ws = [TaskWaker 3] \<and>
    fst (poll_op (TaskWaker 5) (OpSubmitted (encode_id 1 0)) c1) = Ready (Ok [7])"
proof -
  obtain ws c1 where c: "complete_result (encode_id 1 0) (Ok [7]) sample_channel = (ws, c1)"
    by (cases "complete_result (encode_id 1 0) (Ok [7]) sample_channel")
  from answer_delivered [OF sample_run _ sample_lookup _ _ c others_none, of "TaskWaker 5"] c show ?thesis
    by (auto simp: sample_slot_def new_slot_def queued_def sample_channel_def)
qed

text \<open>Too large a chunk is not the end of the answer, as the documentation has it: when a smaller
  last chunk follows before the future is polled, the answer is a success, without the refused chunk.\<close>

theorem refused_chunk_lost:
  assumes "chan_run m ids c" "lookup_op c i = Some s" "\<not> slot_cancelled s" "i \<notin> queued c"
    and "append_chunk i d eof c = (Err BufferOverflow, ws, c1)" "length (slot_buffer s) + length e \<le> buffer_limit s"
  shows "\<exists>c2. append_chunk i e True c1 = (Ok True, [], c2) \<and>
    fst (poll_op w (OpSubmitted i) c2) = Ready (Ok (slot_buffer s @ e))"
proof -
  have ok: "chan_ok m ids c" using assms(1) by (rule chan_run_ok)
  have b: "buffer_ok s" using ok assms(2) by (simp add: chan_ok_def)
  define s1 where "s1 = s\<lparr>slot_result := Some (Err (ResultTooLarge (buffer_limit s))), slot_waker := None\<rparr>"
  define s2 where "s2 = s1\<lparr>slot_buffer := [], slot_result := Some (Ok (slot_buffer s @ e)), slot_waker := None\<rparr>"
  have v: "is_valid_id c i" "slot_at c (id_to_index i) = Some s" using assms(2) by (simp_all add: lookup_valid)
  then have "length (slot_buffer s) + length d > buffer_limit s"
    using assms(3,5) by (simp add: append_chunk_def Let_def split: if_splits)
  with v have put: "c1 = put_slot (id_to_index i) (Some s1) c"
    using assms(3,5) by (simp add: append_chunk_def s1_def)
  have b1: "buffer_ok s1" using b by (simp add: buffer_ok_def s1_def)
  have slots: "slots_ok c" using ok by (simp add: chan_ok_def)
  have c1: "chan_ok m ids c1" "lookup_op c1 i = Some s1"
    using put_slot_step(1) [OF ok assms(2) b1] put_slot_ok(2) [OF slots assms(2), of s1] assms(4)
    by (simp_all add: put)
  then have v1: "is_valid_id c1 i" "slot_at c1 (id_to_index i) = Some s1" by (simp_all add: lookup_valid)
  define c2 where "c2 = put_slot (id_to_index i) (Some s2) c1"
  have "append_chunk i e True c1 = (Ok True, [], c2)"
    using v1 assms(3,6) by (simp add: append_chunk_def s1_def s2_def c2_def Let_def)
  moreover have "lookup_op c2 i = Some s2"
    using put_slot_ok(2) [OF put_slot_ok(1) [OF slots assms(2), of s1, folded put] c1(2), of s2]
    by (simp add: c2_def)
  then have "is_valid_id c2 i" "slot_at c2 (id_to_index i) = Some s2" by (simp_all add: lookup_valid)
  then have "fst (poll_op w (OpSubmitted i) c2) = Ready (Ok (slot_buffer s @ e))"
    by (simp add: poll_op_def poll_submitted_def poll_result_def s2_def)
  ultimately show ?thesis by blast
qed

theorem refused_chunk_lost_witness:
  "\<exists>ws c1 c2. append_chunk (encode_id 1 0) (replicate (10 * 1024 * 1024 + 1) 0) False sample_channel =
      (Err BufferOverflow, ws, c1) \<and>
    append_chunk (encode_id 1 0) [7] True c1 = (Ok True, [], c2) \<and>
    fst (poll_op (TaskWaker 3) (OpSubmitted (encode_id 1 0)) c2) = Ready (Ok [7])"
proof -
  have buf: "slot_buffer sample_slot = []" "buffer_limit sample_slot = 10 * 1024 * 1024" "\<not> slot_cancelled sample_slot"
    by (simp_all add: sample_slot_def new_slot_def default_chunk_buffer_limit_def)
  obtain ws c1 where c: "append_chunk (encode_id 1 0) (replicate (10 * 1024 * 1024 + 1) 0) False sample_channel =
      (Err BufferOverflow, ws, c1)"
    using sample_valid buf by (simp add: append_chunk_def del: replicate.simps)
  from refused_chunk_lost [OF sample_run sample_lookup buf(3) _ c, of "[7]" "TaskWaker 3"] c buf show ?thesis
    by (auto simp: queued_def sample_channel_def)
qed

text \<open>A channel with an empty queue in which a task waits for a place.\<close>

definition stranded :: "nat \<Rightarrow> host_channel \<Rightarrow> bool" where
  "stranded t c \<longleftrightarrow> pending_requests c = [] \<and> submit_wakers c = [TaskWaker t] \<and>
     (\<forall>s. Some s \<in> set (chan_slots c) \<longrightarrow> slot_waker s \<noteq> Some (TaskWaker t))"

fun chan_steps :: "chan_op list \<Rightarrow> host_channel \<Rightarrow> raw_waker list \<times> host_channel" where
  "chan_steps [] c = ([], c)"
| "chan_steps (op # ops) c =
     (let (out, ws, c) = chan_step op c; (ws', c) = chan_steps ops c in (ws @ ws', c))"

lemma slot_at_member: "slot_at c k = Some s \<Longrightarrow> Some s \<in> set (chan_slots c)"
  by (auto simp: slot_at_def in_set_conv_nth split: if_splits)

lemma stranded_put:
  "stranded t c \<Longrightarrow> slot_waker s \<noteq> Some (TaskWaker t) \<Longrightarrow> stranded t (put_slot k (Some s) c)"
  unfolding stranded_def put_slot_def
  using set_update_subset_insert [of "chan_slots c" k "Some s"] by auto

lemma stranded_free: "stranded t c \<Longrightarrow> stranded t (free_slot i c)"
  unfolding stranded_def free_slot_def Let_def
  using set_update_subset_insert [of "chan_slots c" "id_to_index i" None] by auto

lemma stranded_step:
  assumes "stranded t c" "chan_step op c = (out, ws, c')" "\<forall>w f. op \<noteq> PollFuture w f"
  shows "stranded t c' \<and> TaskWaker t \<notin> set ws"
proof -
  have slot: "slot_at c k = Some s \<Longrightarrow> slot_waker s \<noteq> Some (TaskWaker t)" for k s
    using assms(1) slot_at_member [of c k s] by (auto simp: stranded_def)
  then have wake: "slot_at c k = Some s \<Longrightarrow> TaskWaker t \<notin> set (take_waker (slot_waker s))" for k s
    by (cases "slot_waker s") fastforce+
  show ?thesis
  proof (cases op)
    case (DropFuture f)
    with assms slot show ?thesis
      by (cases f) (auto simp: drop_op_def cancel_op_def intro!: stranded_put stranded_free split: option.split)
  next
    case TakeRequest
    with assms show ?thesis by (auto simp: take_pending.simps [of c] stranded_def)
  next
    case (CompleteOp i r)
    with assms slot wake show ?thesis
      by (auto simp: complete_result_def intro!: stranded_put stranded_free split: option.splits if_splits)
  next
    case (AppendChunk i d eof)
    with assms slot wake show ?thesis
      by (auto simp: append_chunk_def Let_def intro!: stranded_put stranded_free split: option.splits if_splits)
  next
    case (ClearBuffer i)
    with assms slot show ?thesis by (auto simp: clear_buffer_def intro!: stranded_put split: option.splits)
  next
    case (SetTask x)
    with assms show ?thesis by (auto simp: set_current_task_def stranded_def)
  qed (use assms in auto)
qed

lemma stranded_steps:
  "stranded t c \<Longrightarrow> \<forall>op \<in> set ops. \<forall>w f. op \<noteq> PollFuture w f \<Longrightarrow> TaskWaker t \<notin> set (fst (chan_steps ops c))"
proof (induction ops arbitrary: c)
  case (Cons op ops)
  obtain out ws c' where step: "chan_step op c = (out, ws, c')" by (cases "chan_step op c") auto
  from stranded_step [OF Cons.prems(1) step] Cons have "stranded t c'" "TaskWaker t \<notin> set ws"
    by simp_all
  with Cons.IH [of c'] Cons.prems(2) step show ?case by (auto split: prod.splits)
qed simp

text \<open>A wakeup for a free place in the queue is lost when it goes to a future that no longer wants
  it: of two tasks waiting for the one place, the first drops its future before the host takes the
  request; only its waker is called, and the second task stays asleep beside an empty queue whatever
  the host does from then on.\<close>

theorem submit_wakeup_lost:
  assumes "poll_op (TaskWaker a) (OpPending k) (channel_new 1) = (p, f, c1)"
    and "poll_op (TaskWaker b) (OpPending k) c1 = (q, g, c2)"
    and "poll_op (TaskWaker t) (OpPending k) c2 = (r, h, c3)"
    and "take_pending (drop_op g c3) = (req, ws, c4)" "a \<noteq> t"
  shows "q = Pending \<and> r = Pending \<and> ws = [TaskWaker b] \<and> can_submit c4 \<and>
    (\<forall>ops. (\<forall>op \<in> set ops. \<forall>w f. op \<noteq> PollFuture w f) \<longrightarrow> TaskWaker t \<notin> set (fst (chan_steps ops c4)))"
proof -
  define s where "s = new_slot\<lparr>slot_waker := Some (TaskWaker a)\<rparr>"
  define rq where "rq = \<lparr>req_id = encode_id 1 0, req_kind = k, req_task = None\<rparr>"
  define ch where "ch q ws = \<lparr>pending_requests = q, max_pending = 1, chan_slots = [Some s], slot_info = [1],
    chan_free = [], submit_wakers = ws, chan_task = None\<rparr>" for q ws
  have c1: "c1 = ch [rq] []"
    using assms(1) by (simp add: poll_op_def can_submit_def channel_new_def submit_op_def allocate_id_def
        poll_submitted_def poll_result_def is_valid_id_def slot_at_def put_slot_def ch_def rq_def s_def
        new_slot_def)
  have c2: "q = Pending" "g = OpPending k" "c2 = ch [rq] [TaskWaker b]"
    using assms(2) by (simp_all add: c1 poll_op_def can_submit_def ch_def register_submit_waker_def)
  have c3: "r = Pending" "c3 = ch [rq] [TaskWaker b, TaskWaker t]"
    using assms(3) by (simp_all add: c2 poll_op_def can_submit_def ch_def register_submit_waker_def will_wake_def)
  have c4: "ws = [TaskWaker b]" "c4 = ch [] [TaskWaker t]"
    using assms(4) by (simp_all add: c2 c3 drop_op_def take_pending.simps slot_at_def ch_def rq_def s_def new_slot_def)
  have "stranded t c4" using assms(5) by (simp add: c4 stranded_def ch_def s_def)
  with stranded_steps c2(1) c3(1) c4 show ?thesis by (auto simp: can_submit_def ch_def)
qed

theorem submit_wakeup_lost_witness:
  "\<exists>p q r f g h c1 c2 c3 req ws c4.
    poll_op (TaskWaker 0) (OpPending (ReadStdin 1)) (channel_new 1) = (p, f, c1) \<and>
    poll_op (TaskWaker 1) (OpPending (ReadStdin 1)) c1 = (q, g, c2) \<and>
    poll_op (TaskWaker 2) (OpPending (ReadStdin 1)) c2 = (r, h, c3) \<and>
    take_pending (drop_op g c3) = (req, ws, c4) \<and> q = Pending \<and> r = Pending \<and> ws = [TaskWaker 1] \<and> can_submit c4"
proof -
  obtain p f c1 where 1: "poll_op (TaskWaker 0) (OpPending (ReadStdin 1)) (channel_new 1) = (p, f, c1)"
    by (cases "poll_op (TaskWaker 0) (OpPending (ReadStdin 1)) (channel_new 1)")
  obtain q g c2 where 2: "poll_op (TaskWaker 1) (OpPending (ReadStdin 1)) c1 = (q, g, c2)"
    by (cases "poll_op (TaskWaker 1) (OpPending (ReadStdin 1)) c1")
  obtain r h c3 where 3: "poll_op (TaskWaker 2) (OpPending (ReadStdin 1)) c2 = (r, h, c3)"
    by (cases "poll_op (TaskWaker 2) (OpPending (ReadStdin 1)) c2")
  obtain req ws c4 where 4: "take_pending (drop_op g c3) = (req, ws, c4)"
    by (cases "take_pending (drop_op g c3)")
  from submit_wakeup_lost [OF 1 2 3 4] 1 2 3 4 show ?thesis by simp
qed

end
