(* ===== verification/Timer.thy ===== *)
theory Timer
  imports HostChannelSpec
begin

unbundle bit_operations_syntax

text \<open>
  The timers of the scheduler, \<open>crates/amla-sandbox-scheduler/src/timer.rs\<close>: a heap of deadlines, a
  slot for each sleep, and one \<open>WakeAt\<close> operation with the host for the earliest deadline. The heap
  is the list of its entries by deadline, the first registered first among equals; nothing below
  depends on that choice. The shared state of the code is passed along, with the host channel it
  holds a clone of as a second state; an operation returns the wakers it called.
\<close>

section \<open>State\<close>

type_synonym time_nanos = u64

record timer_slot =
  timer_fired :: bool
  timer_waker :: "raw_waker option"
  timer_cancelled :: bool

definition default_timer_slot :: timer_slot where
  "default_timer_slot = \<lparr>timer_fired = False, timer_waker = None, timer_cancelled = False\<rparr>"

datatype wake_at_state = WakeIdle | WakePending time_nanos host_op

type_synonym timer_entry = "time_nanos \<times> nat"

record timers =
  timer_heap :: "timer_entry list"
  timer_slots :: "timer_slot option list"
  timer_free :: "nat list"
  wake_state :: wake_at_state

definition timers_new :: timers where
  "timers_new = \<lparr>timer_heap = [], timer_slots = [], timer_free = [], wake_state = WakeIdle\<rparr>"

section \<open>Operations\<close>

fun heap_push :: "timer_entry \<Rightarrow> timer_entry list \<Rightarrow> timer_entry list" where
  "heap_push e [] = [e]"
| "heap_push e (x # h) = (if fst x \<le> fst e then x # heap_push e h else e # x # h)"

definition timer_at :: "timers \<Rightarrow> nat \<Rightarrow> timer_slot option" where
  "timer_at t i = (if i < length (timer_slots t) then timer_slots t ! i else None)"

definition allocate_timer :: "timers \<Rightarrow> nat \<times> timers" where
  "allocate_timer t =
     (if timer_free t \<noteq> [] then
        (let i = last (timer_free t)
         in (i, t\<lparr>timer_free := butlast (timer_free t),
                timer_slots := (timer_slots t)[i := Some default_timer_slot]\<rparr>))
      else (length (timer_slots t), t\<lparr>timer_slots := timer_slots t @ [Some default_timer_slot]\<rparr>))"

text \<open>The \<open>WakeAt\<close> that is replaced by one for an earlier deadline is dropped, and so cancelled.\<close>

definition timer_register :: "time_nanos \<Rightarrow> timers \<Rightarrow> host_channel \<Rightarrow> nat \<times> timers \<times> host_channel" where
  "timer_register deadline t c =
     (let (i, t) = allocate_timer t;
          t = t\<lparr>timer_heap := heap_push (deadline, i) (timer_heap t)\<rparr>;
          request = t\<lparr>wake_state := WakePending deadline (OpPending (WakeAt deadline))\<rparr>
      in case wake_state t of
           WakeIdle \<Rightarrow> (i, request, c)
         | WakePending current future \<Rightarrow>
             if deadline < current then (i, request, drop_op future c) else (i, t, c))"

definition timer_cancel :: "nat \<Rightarrow> timers \<Rightarrow> timers" where
  "timer_cancel i t =
     (case timer_at t i of
        None \<Rightarrow> t
      | Some s \<Rightarrow> t\<lparr>timer_slots := (timer_slots t)[i := Some (s\<lparr>timer_cancelled := True\<rparr>)]\<rparr>)"

definition is_fired :: "nat \<Rightarrow> timers \<Rightarrow> bool" where
  "is_fired i t = (case timer_at t i of None \<Rightarrow> False | Some s \<Rightarrow> timer_fired s)"

definition register_timer_waker :: "nat \<Rightarrow> raw_waker \<Rightarrow> timers \<Rightarrow> timers" where
  "register_timer_waker i w t =
     (case timer_at t i of
        None \<Rightarrow> t
      | Some s \<Rightarrow> t\<lparr>timer_slots := (timer_slots t)[i := Some (s\<lparr>timer_waker := Some w\<rparr>)]\<rparr>)"

definition timer_cleanup :: "nat \<Rightarrow> timers \<Rightarrow> timers" where
  "timer_cleanup i t =
     (if i < length (timer_slots t)
      then t\<lparr>timer_slots := (timer_slots t)[i := None], timer_free := timer_free t @ [i]\<rparr>
      else t)"

text \<open>One entry taken from the heap: the waker to call, and the state after it.\<close>

definition fire_entry :: "timer_entry \<Rightarrow> timers \<Rightarrow> raw_waker list \<times> timers" where
  "fire_entry e t =
     (case timer_at t (snd e) of
        None \<Rightarrow> ([], t)
      | Some s \<Rightarrow>
          if timer_cancelled s then
            ([], t\<lparr>timer_slots := (timer_slots t)[snd e := None], timer_free := timer_free t @ [snd e]\<rparr>)
          else
            (take_waker (timer_waker s),
             t\<lparr>timer_slots := (timer_slots t)[snd e := Some (s\<lparr>timer_fired := True, timer_waker := None\<rparr>)]\<rparr>))"

fun fire_loop :: "time_nanos \<Rightarrow> timer_entry list \<Rightarrow> timers \<Rightarrow> raw_waker list \<times> timers" where
  "fire_loop now [] t = ([], t\<lparr>timer_heap := []\<rparr>)"
| "fire_loop now (e # h) t =
     (if fst e > now then ([], t\<lparr>timer_heap := e # h\<rparr>)
      else
        (let (ws, t) = fire_entry e t;
             (ws', t) = fire_loop now h t
         in (ws @ ws', t)))"

definition fire_expired :: "time_nanos \<Rightarrow> timers \<Rightarrow> raw_waker list \<times> timers" where
  "fire_expired now t = fire_loop now (timer_heap t) t"

text \<open>\<open>u64::from_le_bytes\<close> of the first eight bytes, zero when there are fewer.\<close>

definition from_le_bytes :: "bytes \<Rightarrow> u64" where
  "from_le_bytes bs = foldr (\<lambda>b n. push_bit 8 n OR ucast b) bs 0"

definition reported_time :: "bytes \<Rightarrow> time_nanos" where
  "reported_time bs = (if length bs \<ge> 8 then from_le_bytes (take 8 bs) else 0)"

text \<open>The loop of \<open>process\<close> with fuel for its rounds; the future that is polled in place and then
  replaced is dropped.\<close>

fun process_loop :: "nat \<Rightarrow> timers \<Rightarrow> host_channel \<Rightarrow> (raw_waker list \<times> timers \<times> host_channel) option" where
  "process_loop 0 t c = None"
| "process_loop (Suc n) t c =
     (case wake_state t of
        WakeIdle \<Rightarrow>
          (case timer_heap t of
             [] \<Rightarrow> Some ([], t, c)
           | (deadline, i) # h \<Rightarrow>
               process_loop n (t\<lparr>wake_state := WakePending deadline (OpPending (WakeAt deadline))\<rparr>) c)
      | WakePending deadline future \<Rightarrow>
          (case poll_op NoopWaker future c of
             (Ready (Inr bs), future, c) \<Rightarrow>
               (let (ws, t) = fire_expired (reported_time bs) t
                in map_option (\<lambda>(ws', t, c). (ws @ ws', t, c))
                     (process_loop n (t\<lparr>wake_state := WakeIdle\<rparr>) (drop_op future c)))
           | (Ready (Inl e), future, c) \<Rightarrow>
               process_loop n (t\<lparr>wake_state := WakeIdle\<rparr>) (drop_op future c)
           | (Pending, future, c) \<Rightarrow> Some ([], t\<lparr>wake_state := WakePending deadline future\<rparr>, c)))"

definition timer_process :: "timers \<Rightarrow> host_channel \<Rightarrow> (raw_waker list \<times> timers \<times> host_channel) option" where
  "timer_process t c = process_loop 4 t c"

definition has_timers :: "timers \<Rightarrow> bool" where
  "has_timers t = (timer_heap t \<noteq> [])"

definition earliest_deadline :: "timers \<Rightarrow> time_nanos option" where
  "earliest_deadline t = (case timer_heap t of [] \<Rightarrow> None | e # h \<Rightarrow> Some (fst e))"

section \<open>Sleeping\<close>

record sleep_future =
  sleep_id :: nat
  sleep_deadline :: time_nanos
  sleep_registered :: bool

definition sleep_new :: "time_nanos \<Rightarrow> timers \<Rightarrow> host_channel \<Rightarrow> sleep_future \<times> timers \<times> host_channel" where
  "sleep_new deadline t c =
     (let (i, t, c) = timer_register deadline t c
      in (\<lparr>sleep_id = i, sleep_deadline = deadline, sleep_registered = True\<rparr>, t, c))"

definition sleep_poll :: "raw_waker \<Rightarrow> sleep_future \<Rightarrow> timers \<Rightarrow> unit poll \<times> sleep_future \<times> timers" where
  "sleep_poll w f t =
     (if is_fired (sleep_id f) t
      then (Ready (), f\<lparr>sleep_registered := False\<rparr>, timer_cleanup (sleep_id f) t)
      else (Pending, f, register_timer_waker (sleep_id f) w t))"

definition sleep_drop :: "sleep_future \<Rightarrow> timers \<Rightarrow> timers" where
  "sleep_drop f t = (if sleep_registered f then timer_cancel (sleep_id f) t else t)"

end
