(* ===== verification/TimerSafe.thy ===== *)
theory TimerSafe
  imports Timer
begin

text \<open>
  Timers as a state machine: the steps of the sleeping tasks, of the scheduler's \<open>process\<close>, and of
  everyone else on the host channel. A sleep ends only when the host has reported a time at or after
  its deadline, and as long as one has not ended, a \<open>WakeAt\<close> for its deadline or an earlier one is
  with the host or waits for a place in its queue.
\<close>

section \<open>The state machine\<close>

record timer_system =
  tsteps :: nat
  reported :: "time_nanos set"
  sleepers :: "nat \<rightharpoonup> time_nanos"
  tstate :: timers
  tchannel :: host_channel

text \<open>The time the host reports when the scheduler polls its \<open>WakeAt\<close>.\<close>

definition answered_times :: "timers \<Rightarrow> host_channel \<Rightarrow> time_nanos set" where
  "answered_times t c =
     {reported_time bs | bs. \<exists>d f. wake_state t = WakePending d f \<and>
       fst (poll_op NoopWaker f c) = Ready (Ok bs)}"

text \<open>\<open>sleepers\<close> are the sleeps that have neither ended nor been dropped; each step submits at most
  one operation.\<close>

inductive timer_step :: "timer_system \<Rightarrow> timer_system \<Rightarrow> bool" where
  step_channel:
    "host_allowed op (tchannel x) \<Longrightarrow> chan_step op (tchannel x) = (out, ws, c) \<Longrightarrow>
       timer_step x (x\<lparr>tsteps := Suc (tsteps x), tchannel := c\<rparr>)"
| step_sleep:
    "sleep_new d (tstate x) (tchannel x) = (f, t, c) \<Longrightarrow>
       timer_step x (x\<lparr>tsteps := Suc (tsteps x), sleepers := (sleepers x)(sleep_id f \<mapsto> d), tstate := t,
         tchannel := c\<rparr>)"
| step_poll_pending:
    "sleepers x (sleep_id f) = Some (sleep_deadline f) \<Longrightarrow>
       sleep_poll w f (tstate x) = (Pending, f', t) \<Longrightarrow>
       timer_step x (x\<lparr>tsteps := Suc (tsteps x), tstate := t\<rparr>)"
| step_poll_ready:
    "sleepers x (sleep_id f) = Some (sleep_deadline f) \<Longrightarrow>
       sleep_poll w f (tstate x) = (Ready (), f', t) \<Longrightarrow>
       timer_step x (x\<lparr>tsteps := Suc (tsteps x), sleepers := (sleepers x)(sleep_id f := None), tstate := t\<rparr>)"
| step_drop:
    "sleepers x (sleep_id f) = Some (sleep_deadline f) \<Longrightarrow> sleep_registered f \<Longrightarrow>
       timer_step x (x\<lparr>tsteps := Suc (tsteps x), sleepers := (sleepers x)(sleep_id f := None),
         tstate := sleep_drop f (tstate x)\<rparr>)"
| step_process:
    "timer_process (tstate x) (tchannel x) = Some (ws, t, c) \<Longrightarrow>
       timer_step x (x\<lparr>tsteps := Suc (tsteps x),
         reported := reported x \<union> answered_times (tstate x) (tchannel x), tstate := t, tchannel := c\<rparr>)"

definition timer_init :: "nat \<Rightarrow> timer_system" where
  "timer_init m = \<lparr>tsteps = 0, reported = {}, sleepers = Map.empty, tstate = timers_new,
     tchannel = channel_new m\<rparr>"

inductive timer_run :: "nat \<Rightarrow> timer_system \<Rightarrow> bool" for m where
  run_init: "timer_run m (timer_init m)"
| run_step: "timer_run m x \<Longrightarrow> tsteps x < max_issued \<Longrightarrow> timer_step x y \<Longrightarrow> timer_run m y"

section \<open>The invariant of the timers\<close>

definition entry_good :: "(nat \<rightharpoonup> time_nanos) \<Rightarrow> (nat \<rightharpoonup> timer_slot) \<Rightarrow> timer_entry \<Rightarrow> bool" where
  "entry_good live at e \<longleftrightarrow>
     (case at (snd e) of
        None \<Rightarrow> False
      | Some s \<Rightarrow> \<not> timer_fired s \<and> (timer_cancelled s \<or> live (snd e) = Some (fst e)))"

definition sleeper_good ::
  "time_nanos set \<Rightarrow> timer_entry set \<Rightarrow> (nat \<rightharpoonup> timer_slot) \<Rightarrow> nat \<Rightarrow> time_nanos \<Rightarrow> bool" where
  "sleeper_good seen es at i d \<longleftrightarrow>
     (case at i of
        None \<Rightarrow> False
      | Some s \<Rightarrow> \<not> timer_cancelled s \<and>
          (if timer_fired s then i \<notin> snd ` es \<and> (\<exists>now \<in> seen. d \<le> now) else (d, i) \<in> es))"

definition slot_ok :: "(nat \<rightharpoonup> time_nanos) \<Rightarrow> time_nanos set \<Rightarrow> timers \<Rightarrow> bool" where
  "slot_ok live seen t \<longleftrightarrow>
     (\<forall>e \<in> set (timer_heap t). entry_good live (timer_at t) e) \<and>
     (\<forall>i d. live i = Some d \<longrightarrow> sleeper_good seen (set (timer_heap t)) (timer_at t) i d)"

definition heap_ok :: "timers \<Rightarrow> bool" where
  "heap_ok t \<longleftrightarrow>
     sorted_wrt (\<lambda>a b. fst a \<le> fst b) (timer_heap t) \<and> distinct (map snd (timer_heap t)) \<and>
     distinct (timer_free t) \<and>
     (\<forall>i. i \<in> set (timer_free t) \<longleftrightarrow> i < length (timer_slots t) \<and> timer_at t i = None)"

definition wake_ok :: "timers \<Rightarrow> bool" where
  "wake_ok t \<longleftrightarrow>
     (case wake_state t of
        WakeIdle \<Rightarrow> timer_heap t = []
      | WakePending d f \<Rightarrow> \<forall>e \<in> set (timer_heap t). d \<le> fst e)"

lemma timer_at_update:
  "timer_at (t\<lparr>timer_slots := (timer_slots t)[i := x]\<rparr>) j =
     (if j = i \<and> i < length (timer_slots t) then x else timer_at t j)"
  by (auto simp: timer_at_def)

lemma timer_at_length: "timer_at t i = Some s \<Longrightarrow> i < length (timer_slots t)"
  by (simp add: timer_at_def split: if_splits)

lemma timer_at_cong [simp]:
  "timer_at (t\<lparr>timer_heap := h\<rparr>) = timer_at t" "timer_at (t\<lparr>timer_free := fr\<rparr>) = timer_at t"
  "timer_at (t\<lparr>wake_state := w\<rparr>) = timer_at t"
  by (rule ext, simp add: timer_at_def)+

lemma set_heap_push [simp]: "set (heap_push e h) = insert e (set h)"
  by (induction e h rule: heap_push.induct) auto

lemma distinct_heap_push: "distinct (map snd (heap_push e h)) = distinct (map snd (e # h))"
  by (induction e h rule: heap_push.induct) auto

lemma sorted_heap_push:
  "sorted_wrt (\<lambda>a b. fst a \<le> fst b) h \<Longrightarrow> sorted_wrt (\<lambda>a b. fst a \<le> fst b) (heap_push e h)"
proof (induction e h rule: heap_push.induct)
  case (2 e x h)
  then show ?case by (auto simp: not_le intro: order_trans [OF less_imp_le])
qed simp

lemma slots_update_ok:
  assumes "heap_ok t" "timer_at t i = Some s"
  shows "heap_ok (t\<lparr>timer_slots := (timer_slots t)[i := Some s']\<rparr>)"
  using assms timer_at_length [OF assms(2)] by (auto simp: heap_ok_def timer_at_update)

lemma allocate_timer_ok:
  assumes "heap_ok t" "allocate_timer t = (i, t')"
  shows "timer_at t i = None \<and> timer_at t' = (timer_at t)(i \<mapsto> default_timer_slot) \<and>
    timer_heap t' = timer_heap t \<and> wake_state t' = wake_state t \<and> heap_ok t'"
proof (cases "timer_free t = []")
  case True
  with assms(2) have t': "i = length (timer_slots t)"
    "t' = t\<lparr>timer_slots := timer_slots t @ [Some default_timer_slot]\<rparr>"
    by (simp_all add: allocate_timer_def)
  then have at: "timer_at t' = (timer_at t)(i \<mapsto> default_timer_slot)"
    by (auto simp: timer_at_def nth_append fun_eq_iff)
  with True t' assms(1) show ?thesis
    unfolding heap_ok_def by (auto simp: timer_at_def less_Suc_eq)
next
  case False
  define r where "r = butlast (timer_free t)"
  from assms(2) False have i: "i = last (timer_free t)"
    and t': "t' = t\<lparr>timer_free := r, timer_slots := (timer_slots t)[i := Some default_timer_slot]\<rparr>"
    by (auto simp: allocate_timer_def Let_def r_def)
  have split: "timer_free t = r @ [i]" using False i by (simp add: r_def)
  have free: "i < length (timer_slots t)" "timer_at t i = None"
    using assms(1) split unfolding heap_ok_def by auto
  have at: "timer_at t' = (timer_at t)(i \<mapsto> default_timer_slot)"
    using free(1) by (rule_tac ext) (simp add: t' timer_at_def)
  have "\<forall>j. j \<in> set r \<longleftrightarrow> j < length (timer_slots t) \<and> timer_at t' j = None"
    using assms(1) split at unfolding heap_ok_def by auto
  with at free assms(1) split show ?thesis by (auto simp: heap_ok_def t')
qed

definition timers_ok :: "(nat \<rightharpoonup> time_nanos) \<Rightarrow> time_nanos set \<Rightarrow> timers \<Rightarrow> bool" where
  "timers_ok live seen t \<longleftrightarrow> heap_ok t \<and> slot_ok live seen t \<and> wake_ok t"

lemma slot_ok_live: "slot_ok live seen t \<Longrightarrow> live i = Some d \<Longrightarrow> \<exists>s. timer_at t i = Some s \<and> \<not> timer_cancelled s"
  unfolding slot_ok_def sleeper_good_def by (fastforce split: option.splits)

lemma entry_good_other: "snd e \<noteq> i \<Longrightarrow> entry_good live (at(i := x)) e = entry_good live at e"
  by (simp add: entry_good_def)

lemma entry_good_live: "snd e \<noteq> i \<Longrightarrow> entry_good (live(i := x)) at e = entry_good live at e"
  by (auto simp: entry_good_def split: option.split)

lemma sleeper_good_other: "j \<noteq> i \<Longrightarrow> sleeper_good seen es (at(i := x)) j d = sleeper_good seen es at j d"
  by (simp add: sleeper_good_def)

lemma sleeper_good_insert:
  "j \<noteq> snd e \<Longrightarrow> sleeper_good seen es at j d \<Longrightarrow> sleeper_good seen (insert e es) at j d"
  by (auto simp: sleeper_good_def split: option.splits if_splits)

lemma sleeper_good_mono: "sleeper_good seen es at i d \<Longrightarrow> seen \<subseteq> seen' \<Longrightarrow> sleeper_good seen' es at i d"
  by (auto simp: sleeper_good_def split: option.splits) blast

lemma sleep_ok:
  assumes "timers_ok live seen t" "sleep_new d t c = (f, t', c')"
  shows "timers_ok (live(sleep_id f \<mapsto> d)) seen t' \<and> sleep_deadline f = d \<and> sleep_registered f \<and>
    (c' = c \<or> (\<exists>g. c' = drop_op g c))"
proof -
  have ok: "heap_ok t" "slot_ok live seen t" "wake_ok t" using assms(1) by (simp_all add: timers_ok_def)
  obtain i t1 where t1: "allocate_timer t = (i, t1)" by fastforce
  from allocate_timer_ok [OF ok(1) t1] have
    new: "timer_at t i = None" and at: "timer_at t1 = (timer_at t)(i \<mapsto> default_timer_slot)" and
    same: "timer_heap t1 = timer_heap t" "wake_state t1 = wake_state t" and ok1: "heap_ok t1"
    by simp_all
  define t2 where "t2 = t1\<lparr>timer_heap := heap_push (d, i) (timer_heap t)\<rparr>"
  have f: "f = \<lparr>sleep_id = i, sleep_deadline = d, sleep_registered = True\<rparr>"
    and t': "timer_heap t' = timer_heap t2" "timer_slots t' = timer_slots t2" "timer_free t' = timer_free t2"
    and c': "c' = c \<or> (\<exists>g. c' = drop_op g c)"
    using assms(2) t1 by (auto simp: sleep_new_def timer_register_def Let_def t2_def same(1)
        split: wake_at_state.splits if_splits)
  have w': "wake_ok t'"
  proof (cases "wake_state t")
    case WakeIdle
    with assms(2) t1 ok(3) same show ?thesis
      by (auto simp: sleep_new_def timer_register_def Let_def wake_ok_def)
  next
    case (WakePending e g)
    with ok(3) have e: "\<And>x. x \<in> set (timer_heap t) \<Longrightarrow> e \<le> fst x" by (simp add: wake_ok_def)
    then have "\<And>x. x \<in> set (timer_heap t) \<Longrightarrow> d < e \<Longrightarrow> d \<le> fst x" by (meson less_le_trans less_imp_le)
    with e WakePending assms(2) t1 same show ?thesis
      by (auto simp: sleep_new_def timer_register_def Let_def wake_ok_def split: if_splits)
  qed
  have at': "timer_at t' = timer_at t2" by (simp add: timer_at_def fun_eq_iff t')
  have at2: "timer_at t2 = (timer_at t)(i \<mapsto> default_timer_slot)" using at by (simp add: t2_def)
  have notin: "\<And>e. e \<in> set (timer_heap t) \<Longrightarrow> snd e \<noteq> i"
    using ok(2) new by (auto simp: slot_ok_def entry_good_def split: option.splits)
  have "heap_ok t2"
    using ok1 notin same(1) unfolding t2_def heap_ok_def
    by (auto simp: distinct_heap_push sorted_heap_push)
  moreover have "slot_ok (live(i \<mapsto> d)) seen t2"
    unfolding slot_ok_def at2
  proof (intro conjI ballI allI impI)
    fix e
    assume "e \<in> set (timer_heap t2)"
    then consider "e = (d, i)" | "e \<in> set (timer_heap t)" by (auto simp: t2_def)
    then show "entry_good (live(i \<mapsto> d)) ((timer_at t)(i \<mapsto> default_timer_slot)) e"
      using ok(2) notin
      by cases (auto simp: entry_good_def default_timer_slot_def slot_ok_def split: option.splits)
  next
    fix j e
    assume "(live(i \<mapsto> d)) j = Some e"
    then consider "j = i" "e = d" | "j \<noteq> i" "live j = Some e" by (auto split: if_splits)
    then show "sleeper_good seen (set (timer_heap t2)) ((timer_at t)(i \<mapsto> default_timer_slot)) j e"
      using ok(2) by cases (auto simp: sleeper_good_other t2_def slot_ok_def intro: sleeper_good_insert,
        auto simp: sleeper_good_def default_timer_slot_def t2_def)
  qed
  ultimately show ?thesis using t' f c' w' at' by (simp add: timers_ok_def heap_ok_def slot_ok_def)
qed

lemma slot_updated: "timer_at t i = Some s \<Longrightarrow>
    timer_at (t\<lparr>timer_slots := (timer_slots t)[i := x]\<rparr>) = (timer_at t)(i := x)"
  using timer_at_length [of t i s] by (auto simp: timer_at_update fun_eq_iff)

lemma update_ok:
  assumes "timers_ok live seen t" "timer_at t i = Some s"
    and "timer_fired s' = timer_fired s" "timer_cancelled s' = timer_cancelled s"
  shows "timers_ok live seen (t\<lparr>timer_slots := (timer_slots t)[i := Some s']\<rparr>)"
proof -
  have "entry_good live ((timer_at t)(i \<mapsto> s')) e = entry_good live (timer_at t) e" for e
    using assms(2-) by (auto simp: entry_good_def)
  moreover have "sleeper_good seen es ((timer_at t)(i \<mapsto> s')) j d = sleeper_good seen es (timer_at t) j d" for es j d
    using assms(2-) by (auto simp: sleeper_good_def)
  ultimately have "slot_ok live seen (t\<lparr>timer_slots := (timer_slots t)[i := Some s']\<rparr>)"
    using assms(1) unfolding timers_ok_def slot_ok_def slot_updated [OF assms(2)] by simp
  with assms slots_update_ok [of t i s s'] show ?thesis by (auto simp: timers_ok_def wake_ok_def split: wake_at_state.splits)
qed

lemma register_waker_ok: "timers_ok live seen t \<Longrightarrow> timers_ok live seen (register_timer_waker i w t)"
  by (auto simp: register_timer_waker_def intro: update_ok split: option.split)

lemma cancel_ok:
  assumes "timers_ok live seen t" "live i = Some d"
  shows "timers_ok (live(i := None)) seen (timer_cancel i t)"
proof -
  have ok: "slot_ok live seen t" "heap_ok t" "wake_ok t" using assms(1) by (simp_all add: timers_ok_def)
  then obtain s where s: "timer_at t i = Some s" using slot_ok_live [OF ok(1) assms(2)] by blast
  let ?at = "(timer_at t)(i \<mapsto> s\<lparr>timer_cancelled := True\<rparr>)"
  have "entry_good live (timer_at t) e \<Longrightarrow> entry_good (live(i := None)) ?at e" for e
    using s by (auto simp: entry_good_def split: option.splits)
  then have "slot_ok (live(i := None)) seen (t\<lparr>timer_slots := (timer_slots t)[i := Some (s\<lparr>timer_cancelled := True\<rparr>)]\<rparr>)"
    using ok(1) unfolding slot_ok_def slot_updated [OF s] by (auto simp: sleeper_good_other)
  with slots_update_ok [OF ok(2) s] ok(3) show ?thesis
    by (auto simp: timer_cancel_def s timers_ok_def wake_ok_def split: wake_at_state.splits)
qed

lemma free_timer_ok:
  assumes "heap_ok t" "timer_at t i = Some s"
  shows "heap_ok (t\<lparr>timer_slots := (timer_slots t)[i := None], timer_free := timer_free t @ [i]\<rparr>)"
proof -
  have "i < length (timer_slots t)" using timer_at_length [OF assms(2)] .
  moreover have "timer_at (t\<lparr>timer_slots := (timer_slots t)[i := None], timer_free := x\<rparr>) = (timer_at t)(i := None)" for x
    using slot_updated [OF assms(2), of None] by simp
  ultimately show ?thesis using assms unfolding heap_ok_def by auto
qed

lemma cleanup_ok:
  assumes "timers_ok live seen t" "live i = Some d" "is_fired i t"
  shows "timers_ok (live(i := None)) seen (timer_cleanup i t)" "\<exists>now \<in> seen. d \<le> now"
proof -
  have ok: "slot_ok live seen t" "heap_ok t" "wake_ok t" using assms(1) by (simp_all add: timers_ok_def)
  obtain s where s: "timer_at t i = Some s" "timer_fired s"
    using assms(3) by (auto simp: is_fired_def split: option.splits)
  have "sleeper_good seen (set (timer_heap t)) (timer_at t) i d" using ok(1) assms(2) by (simp add: slot_ok_def)
  with s have out: "\<And>e. e \<in> set (timer_heap t) \<Longrightarrow> snd e \<noteq> i" and "\<exists>now \<in> seen. d \<le> now"
    by (auto simp: sleeper_good_def)
  then show "\<exists>now \<in> seen. d \<le> now" by simp
  let ?t = "t\<lparr>timer_slots := (timer_slots t)[i := None], timer_free := timer_free t @ [i]\<rparr>"
  have at: "timer_at ?t = (timer_at t)(i := None)" using slot_updated [OF s(1), of None] by simp
  have "slot_ok (live(i := None)) seen ?t"
    using ok(1) out unfolding slot_ok_def at by (auto simp: entry_good_other entry_good_live sleeper_good_other)
  with free_timer_ok [OF ok(2) s(1)] ok(3) timer_at_length [OF s(1)]
  show "timers_ok (live(i := None)) seen (timer_cleanup i t)"
    by (auto simp: timer_cleanup_def timers_ok_def wake_ok_def split: wake_at_state.splits)
qed

section \<open>Firing\<close>

lemma fire_entry_heap: "fire_entry e t = (ws, t') \<Longrightarrow> timer_heap t' = timer_heap t \<and> wake_state t' = wake_state t"
  by (auto simp: fire_entry_def split: option.splits if_splits)

lemma fire_entry_other: "fire_entry e t = (ws, t') \<Longrightarrow> i \<noteq> snd e \<Longrightarrow> timer_at t' i = timer_at t i"
  by (auto simp: fire_entry_def timer_at_def split: option.splits if_splits)

lemma heap_ok_tail: "heap_ok (t\<lparr>timer_heap := e # h\<rparr>) \<Longrightarrow> heap_ok (t\<lparr>timer_heap := h\<rparr>)"
  by (simp add: heap_ok_def)

lemma fire_entry_ok:
  assumes "heap_ok (t\<lparr>timer_heap := e # h\<rparr>)" "slot_ok live seen (t\<lparr>timer_heap := e # h\<rparr>)"
    and "fst e \<le> now" "now \<in> seen" "fire_entry e t = (ws, t')"
  shows "heap_ok (t'\<lparr>timer_heap := h\<rparr>)" "slot_ok live seen (t'\<lparr>timer_heap := h\<rparr>)"
    "live (snd e) = Some d \<Longrightarrow> timer_at t (snd e) = Some s \<Longrightarrow> ws = take_waker (timer_waker s)"
proof -
  have out: "\<And>x. x \<in> set h \<Longrightarrow> snd x \<noteq> snd e" and out': "snd e \<notin> snd ` set h"
    using assms(1) by (simp_all add: heap_ok_def) (metis image_eqI)
  have "entry_good live (timer_at t) e" using assms(2) by (simp add: slot_ok_def)
  then obtain s0 where s0: "timer_at t (snd e) = Some s0" "\<not> timer_fired s0"
    "timer_cancelled s0 \<or> live (snd e) = Some (fst e)"
    by (auto simp: entry_good_def split: option.splits)
  have live: "live (snd e) = Some d \<Longrightarrow> \<not> timer_cancelled s0 \<and> d = fst e" for d
    using assms(2) s0 out by (fastforce simp: slot_ok_def sleeper_good_def)
  show "live (snd e) = Some d \<Longrightarrow> timer_at t (snd e) = Some s \<Longrightarrow> ws = take_waker (timer_waker s)"
    using live assms(5) s0(1) by (auto simp: fire_entry_def split: if_splits)
  define x where "x = (if timer_cancelled s0 then None else Some (s0\<lparr>timer_fired := True, timer_waker := None\<rparr>))"
  have at: "timer_at t' = (timer_at t)(snd e := x)"
    using assms(5) s0(1) slot_updated [OF s0(1), of x] by (auto simp: fire_entry_def x_def split: if_splits)
  have sleeper: "live i = Some d \<Longrightarrow> sleeper_good seen (set h) ((timer_at t)(snd e := x)) i d" for i d
  proof (cases "i = snd e")
    case True
    assume "live i = Some d"
    with True live [of d] out' assms(3,4) show ?thesis by (auto simp: sleeper_good_def x_def)
  next
    case False
    assume "live i = Some d"
    with assms(2) have "sleeper_good seen (insert e (set h)) (timer_at t) i d" by (simp add: slot_ok_def)
    with False show ?thesis by (auto simp: sleeper_good_def split: option.splits if_splits)
  qed
  have "entry_good live (timer_at t') y" if "y \<in> set h" for y
    using assms(2) that out [OF that] unfolding at by (simp add: slot_ok_def entry_good_other)
  with sleeper show "slot_ok live seen (t'\<lparr>timer_heap := h\<rparr>)" by (simp add: slot_ok_def at)
  show "heap_ok (t'\<lparr>timer_heap := h\<rparr>)"
  proof (cases "timer_cancelled s0")
    case True
    with assms(5) s0(1) have "t' = t\<lparr>timer_slots := (timer_slots t)[snd e := None], timer_free := timer_free t @ [snd e]\<rparr>"
      by (auto simp: fire_entry_def)
    with free_timer_ok [OF heap_ok_tail [OF assms(1)], of "snd e" s0] s0(1) show ?thesis by (cases t) (simp add: timer_at_def split: if_splits)
  next
    case False
    with assms(5) s0(1) have "t' = t\<lparr>timer_slots := (timer_slots t)[snd e :=
        Some (s0\<lparr>timer_fired := True, timer_waker := None\<rparr>)]\<rparr>"
      by (auto simp: fire_entry_def)
    with slots_update_ok [OF heap_ok_tail [OF assms(1)], of "snd e" s0] s0(1) show ?thesis by (cases t) (simp add: timer_at_def split: if_splits)
  qed
qed

lemma fire_loop_ok:
  assumes "heap_ok (t\<lparr>timer_heap := h\<rparr>)" "slot_ok live seen (t\<lparr>timer_heap := h\<rparr>)" "now \<in> seen"
    and "fire_loop now h t = (ws, t')"
  shows "heap_ok t' \<and> slot_ok live seen t' \<and> wake_state t' = wake_state t \<and> (\<forall>e \<in> set (timer_heap t'). now < fst e) \<and>
    (\<forall>i d s w. (d, i) \<in> set h \<and> d \<le> now \<and> live i = Some d \<and> timer_at t i = Some s \<and> timer_waker s = Some w \<longrightarrow> w \<in> set ws)"
  using assms
proof (induction now h t arbitrary: ws rule: fire_loop.induct)
  case (2 now e h t)
  have sorted: "\<And>x. x \<in> set h \<Longrightarrow> fst e \<le> fst x" using "2.prems"(1) by (auto simp: heap_ok_def)
  show ?case
  proof (cases "fst e > now")
    case True
    have later: "now < fst x" if "x \<in> set h" for x using less_le_trans [OF True sorted [OF that]] .
    have "ws = []" "t' = t\<lparr>timer_heap := e # h\<rparr>" using "2.prems"(4) True by simp_all
    moreover have "\<not> d \<le> now" if "(d, i) \<in> set (e # h)" for d i
      using that True later [of "(d, i)"] by auto
    ultimately show ?thesis using "2.prems"(1,2) True later by auto
  next
    case False
    obtain ws1 t1 where t1: "fire_entry e t = (ws1, t1)" by fastforce
    obtain ws2 where ws2: "fire_loop now h t1 = (ws2, t')" "ws = ws1 @ ws2"
      using "2.prems"(4) False t1 by (auto split: prod.splits)
    have le: "fst e \<le> now" using False by simp
    note one = fire_entry_ok [OF "2.prems"(1,2) le "2.prems"(3) t1]
    from "2.IH" [OF False t1 [symmetric] refl one(1,2) "2.prems"(3) ws2(1)] have IH:
      "heap_ok t'" "slot_ok live seen t'" "wake_state t' = wake_state t1" "\<forall>e \<in> set (timer_heap t'). now < fst e"
      "\<And>i d s w. (d, i) \<in> set h \<Longrightarrow> d \<le> now \<Longrightarrow> live i = Some d \<Longrightarrow> timer_at t1 i = Some s \<Longrightarrow>
        timer_waker s = Some w \<Longrightarrow> w \<in> set ws2"
      by blast+
    have "w \<in> set ws" if "(d, i) \<in> set (e # h)" "d \<le> now" "live i = Some d" "timer_at t i = Some s"
      "timer_waker s = Some w" for i d s w
    proof (cases "i = snd e")
      case True
      with one(3) that ws2(2) show ?thesis by auto
    next
      case False
      with that IH(5) [of d i s w] fire_entry_other [OF t1 False] ws2(2) show ?thesis by auto
    qed
    moreover have "wake_state t' = wake_state t" using IH(3) fire_entry_heap [OF t1] by simp
    ultimately show ?thesis using IH(1,2,4) by blast
  qed
qed auto

section \<open>The channel below\<close>

definition chan_within :: "nat \<Rightarrow> nat \<Rightarrow> host_channel \<Rightarrow> bool" where
  "chan_within m n c \<longleftrightarrow> (\<exists>ids. chan_ok m ids c \<and> length ids \<le> n)"

lemma chan_within_mono: "chan_within m n c \<Longrightarrow> n \<le> k \<Longrightarrow> chan_within m k c"
  unfolding chan_within_def using le_trans by blast

lemma chan_within_step:
  assumes "chan_within m n c" "n < max_issued" "host_allowed op c" "chan_step op c = (out, ws, c')"
  shows "chan_within m (Suc n) c'"
proof -
  from assms(1) obtain ids where ids: "chan_ok m ids c" "length ids \<le> n" unfolding chan_within_def by blast
  have "length ids < max_issued" using ids(2) assms(2) by simp
  from chan_step_ok [OF ids(1) assms(3) this assms(4)] length_issued [of op out] ids(2) show ?thesis
    unfolding chan_within_def by (intro exI [of _ "issued_by op out @ ids"]) simp
qed

lemma chan_within_drop: "chan_within m n c \<Longrightarrow> chan_within m n (drop_op f c)"
  unfolding chan_within_def using drop_step by blast

lemma poll_new:
  assumes "chan_within m n c" "n < max_issued" "poll_op w (OpPending k) c = (p, f, c')"
  shows "p = Pending \<and> chan_within m (Suc n) c'"
proof -
  from assms(1) obtain ids where ids: "chan_ok m ids c" "length ids \<le> n" unfolding chan_within_def by blast
  have len: "length ids < max_issued" using ids(2) assms(2) by simp
  have "p = Pending"
  proof (cases "submit_op k c")
    case None
    with assms(3) show ?thesis by (auto simp: poll_op_def submit_op_def can_submit_def split: if_splits prod.splits)
  next
    case (Some x)
    then obtain i c1 where x: "submit_op k c = Some (i, c1)" by (cases x) auto
    have "lookup_op c1 i = Some new_slot"
      using submit_ok(5) [OF _ _ len x] ids(1) by (simp add: chan_ok_def)
    then have "fst (poll_result w i c1) = Pending"
      by (auto simp: poll_result_def lookup_op_def new_slot_def split: if_splits)
    with assms(3) x show ?thesis
      by (auto simp: poll_op_def poll_submitted_def split: if_splits prod.splits)
  qed
  moreover have "chan_within m (Suc n) c'"
    using chan_within_step [OF assms(1,2), of "PollFuture w (OpPending k)"] assms(3) by simp
  ultimately show ?thesis ..
qed

lemma poll_old:
  assumes "chan_within m n c" "poll_op w f c = (Ready r, f', c')" "n < max_issued"
  shows "chan_within m n c'"
proof -
  from assms(1) obtain ids where ids: "chan_ok m ids c" "length ids \<le> n" unfolding chan_within_def by blast
  have len: "length ids < max_issued" using ids(2) assms(3) by simp
  show ?thesis
  proof (cases f)
    case (OpPending k)
    with poll_new [OF assms(1,3), of w k] assms(2) show ?thesis by auto
  next
    case (OpSubmitted i)
    with poll_step [OF ids(1) len assms(2)] ids(2) show ?thesis unfolding chan_within_def by auto
  next
    case OpDone
    with assms(1,2) show ?thesis by (simp add: poll_op_def)
  qed
qed

section \<open>Processing\<close>

lemma process_idle:
  assumes "heap_ok t" "slot_ok live seen t" "wake_state t = WakeIdle" "chan_within m n c" "n < max_issued"
  shows "\<exists>t' c'. process_loop (Suc (Suc k)) t c = Some ([], t', c') \<and> timers_ok live seen t' \<and>
    chan_within m (Suc n) c' \<and> timer_heap t' = timer_heap t \<and> timer_at t' = timer_at t"
proof (cases "timer_heap t")
  case Nil
  with assms chan_within_mono [OF assms(4), of "Suc n"] show ?thesis
    by (auto simp: timers_ok_def wake_ok_def)
next
  case (Cons e h)
  obtain p f c' where poll: "poll_op NoopWaker (OpPending (WakeAt (fst e))) c = (p, f, c')" by (metis prod_cases3)
  with poll_new [OF assms(4,5) poll] have p: "p = Pending" "chan_within m (Suc n) c'" by simp_all
  have "\<forall>x \<in> set (e # h). fst e \<le> fst x" using assms(1) Cons by (auto simp: heap_ok_def)
  then have "timers_ok live seen (t\<lparr>wake_state := WakePending (fst e) f\<rparr>)"
    using assms(1,2) Cons by (simp add: timers_ok_def wake_ok_def heap_ok_def slot_ok_def)
  with p poll Cons assms(3) show ?thesis by (cases e) simp
qed

lemma process_unfold: "timer_process t c = process_loop (Suc (Suc (Suc (Suc 0)))) t c"
  by (simp add: timer_process_def numeral_eq_Suc)

lemma process_ok:
  assumes "timers_ok live seen t" "chan_within m n c" "n < max_issued" "seen' = seen \<union> answered_times t c"
  shows "\<exists>ws t' c'. timer_process t c = Some (ws, t', c') \<and> timers_ok live seen' t' \<and> chan_within m (Suc n) c' \<and>
    (\<forall>now \<in> answered_times t c. \<forall>i d. live i = Some d \<and> d \<le> now \<longrightarrow> is_fired i t' \<and>
      (\<forall>s w. timer_at t i = Some s \<and> timer_waker s = Some w \<and> \<not> timer_fired s \<longrightarrow> w \<in> set ws))"
proof -
  have ok: "heap_ok t" "slot_ok live seen t" "wake_ok t" using assms(1) by (simp_all add: timers_ok_def)
  have more: "slot_ok live seen u \<Longrightarrow> slot_ok live seen' u" for u
    using assms(4) unfolding slot_ok_def by (blast intro: sleeper_good_mono)
  note fuel = process_unfold
  show ?thesis
  proof (cases "wake_state t")
    case WakeIdle
    then have "answered_times t c = {}" by (simp add: answered_times_def)
    moreover have "timer_heap t = []" using WakeIdle ok(3) by (simp add: wake_ok_def)
    ultimately show ?thesis
      using WakeIdle assms chan_within_mono [OF assms(2), of "Suc n"] by (simp add: fuel)
  next
    case (WakePending d f)
    obtain p f' c1 where poll: "poll_op NoopWaker f c = (p, f', c1)" by (metis prod_cases3)
    show ?thesis
    proof (cases p)
      case Pending
      with WakePending poll have none: "answered_times t c = {}" by (simp add: answered_times_def)
      have "chan_within m (Suc n) c1"
        using chan_within_step [OF assms(2,3), of "PollFuture NoopWaker f"] poll by simp
      moreover have "timers_ok live seen' (t\<lparr>wake_state := WakePending d f'\<rparr>)"
        using assms(1,4) none WakePending
        by (simp add: timers_ok_def wake_ok_def heap_ok_def slot_ok_def)
      ultimately show ?thesis using WakePending poll Pending none by (simp add: fuel)
    next
      case ready: (Ready r)
      have c1: "chan_within m n (drop_op f' c1)"
        using chan_within_drop poll_old [OF assms(2) _ assms(3)] poll ready by blast
      show ?thesis
      proof (cases r)
        case (Inl e)
        with ready WakePending poll have none: "answered_times t c = {}" by (simp add: answered_times_def)
        have "heap_ok (t\<lparr>wake_state := WakeIdle\<rparr>)" "slot_ok live seen (t\<lparr>wake_state := WakeIdle\<rparr>)"
          using ok by (simp_all add: heap_ok_def slot_ok_def)
        from process_idle [OF this _ c1 assms(3), of "Suc 0"] none WakePending poll ready Inl assms(4)
        show ?thesis by (auto simp: fuel)
      next
        case (Inr bs)
        define now where "now = reported_time bs"
        with ready WakePending poll Inr have one: "answered_times t c = {now}" by (simp add: answered_times_def)
        obtain ws t1 where fire: "fire_expired now t = (ws, t1)" by fastforce
        have "now \<in> seen'" using one assms(4) by simp
        from fire_loop_ok [of "timer_heap t" t live seen' now ws t1] this ok(1) more [OF ok(2)] fire
        have t1: "heap_ok t1" "slot_ok live seen' t1" "\<forall>e \<in> set (timer_heap t1). now < fst e"
          "\<And>i d s w. (d, i) \<in> set (timer_heap t) \<Longrightarrow> d \<le> now \<Longrightarrow> live i = Some d \<Longrightarrow>
            timer_at t i = Some s \<Longrightarrow> timer_waker s = Some w \<Longrightarrow> w \<in> set ws"
          by (auto simp: fire_expired_def)
        have "heap_ok (t1\<lparr>wake_state := WakeIdle\<rparr>)" "slot_ok live seen' (t1\<lparr>wake_state := WakeIdle\<rparr>)"
          using t1 by (simp_all add: heap_ok_def slot_ok_def)
        from process_idle [OF this _ c1 assms(3), of "Suc 0"] obtain t2 c2 where
          rest: "process_loop (Suc (Suc (Suc 0))) (t1\<lparr>wake_state := WakeIdle\<rparr>) (drop_op f' c1) = Some ([], t2, c2)"
            "timers_ok live seen' t2" "chan_within m (Suc n) c2" "timer_heap t2 = timer_heap t1" "timer_at t2 = timer_at t1"
          by auto
        have all: "is_fired i t2" if "live i = Some e" "e \<le> now" for i e
        proof -
          have "sleeper_good seen' (set (timer_heap t1)) (timer_at t1) i e" using t1(2) that(1) by (simp add: slot_ok_def)
          with t1(3) that(2) rest(5) show ?thesis
            by (fastforce simp: sleeper_good_def is_fired_def split: option.splits if_splits)
        qed
        have waiting: "(e, i) \<in> set (timer_heap t)" if "live i = Some e" "timer_at t i = Some s" "\<not> timer_fired s" for i e s
          using ok(2) that by (force simp: slot_ok_def sleeper_good_def split: option.splits if_splits)
        have woken: "w \<in> set ws" if "live i = Some e" "e \<le> now" "timer_at t i = Some s"
          "timer_waker s = Some w" "\<not> timer_fired s" for i e s w
          using t1(4) [OF waiting [OF that(1,3,5)] that(2,1,3,4)] .
        have "timer_process t c = Some (ws, t2, c2)"
          using rest(1) fire WakePending poll ready Inr by (simp add: fuel now_def del: process_loop.simps(2))
            (simp add: process_loop.simps(2) [of _ t])
        with rest(2,3) all woken show ?thesis unfolding one by blast
      qed
    qed
  qed
qed

section \<open>Every state of the machine\<close>

definition system_ok :: "nat \<Rightarrow> timer_system \<Rightarrow> bool" where
  "system_ok m x \<longleftrightarrow> timers_ok (sleepers x) (reported x) (tstate x) \<and> chan_within m (tsteps x) (tchannel x)"

lemma sleep_poll_cases:
  assumes "sleep_poll w f t = (p, f', t')"
  shows "p = Ready () \<and> is_fired (sleep_id f) t \<and> t' = timer_cleanup (sleep_id f) t \<or>
    p = Pending \<and> t' = register_timer_waker (sleep_id f) w t"
  using assms by (auto simp: sleep_poll_def split: if_splits)

lemma timer_step_ok:
  assumes "timer_step x y" "system_ok m x" "tsteps x < max_issued"
  shows "system_ok m y"
  using assms
proof (cases rule: timer_step.cases)
  case (step_channel op out ws c)
  with assms(2,3) chan_within_step [of m "tsteps x" "tchannel x" op out ws c] show ?thesis
    by (simp add: system_ok_def)
next
  case (step_sleep d f t c)
  have "timers_ok (sleepers x) (reported x) (tstate x)" "chan_within m (tsteps x) (tchannel x)"
    using assms(2) by (simp_all add: system_ok_def)
  moreover from sleep_ok [OF this(1) step_sleep(2)] have
    "timers_ok ((sleepers x)(sleep_id f \<mapsto> d)) (reported x) t" "c = tchannel x \<or> (\<exists>g. c = drop_op g (tchannel x))"
    by simp_all
  ultimately have "chan_within m (Suc (tsteps x)) c"
    using chan_within_drop chan_within_mono [of m "tsteps x" _ "Suc (tsteps x)"] by auto
  with \<open>timers_ok ((sleepers x)(sleep_id f \<mapsto> d)) (reported x) t\<close> step_sleep(1) show ?thesis
    by (simp add: system_ok_def)
next
  case (step_poll_pending f w f' t)
  with sleep_poll_cases [OF step_poll_pending(3)] assms(2) chan_within_mono [of m "tsteps x" _ "Suc (tsteps x)"]
  show ?thesis by (auto simp: system_ok_def intro: register_waker_ok)
next
  case (step_poll_ready f w f' t)
  with sleep_poll_cases [OF step_poll_ready(3)] assms(2) chan_within_mono [of m "tsteps x" _ "Suc (tsteps x)"]
    cleanup_ok(1) [of "sleepers x" "reported x" "tstate x" "sleep_id f" "sleep_deadline f"] step_poll_ready(2)
  show ?thesis by (auto simp: system_ok_def)
next
  case (step_drop f)
  with assms(2) chan_within_mono [of m "tsteps x" _ "Suc (tsteps x)"] 
    cancel_ok [of "sleepers x" "reported x" "tstate x" "sleep_id f" "sleep_deadline f"] step_drop(2)
  show ?thesis by (simp add: system_ok_def sleep_drop_def)
next
  case (step_process ws t c)
  with assms(2,3) process_ok [OF _ _ assms(3) refl, of "sleepers x" "reported x" "tstate x" m "tchannel x"]
  show ?thesis by (auto simp: system_ok_def)
qed

lemma timer_run_ok: "timer_run m x \<Longrightarrow> system_ok m x"
proof (induction rule: timer_run.induct)
  case run_init
  have "chan_ok m [] (channel_new m)" by (rule chan_run_ok [OF chan_start])
  then show ?case
    by (auto simp: system_ok_def timer_init_def timers_ok_def heap_ok_def slot_ok_def wake_ok_def
        timers_new_def timer_at_def chan_within_def)
qed (rule timer_step_ok)

section \<open>A sleep until time five, ended at time nine\<close>

lemmas timer_sample_defs = sleep_new_def timer_register_def allocate_timer_def timers_new_def channel_new_def
  poll_op_def can_submit_def submit_op_def allocate_id_def poll_submitted_def poll_result_def is_valid_id_def
  slot_at_def put_slot_def new_slot_def Let_def process_unfold

lemma sample_sleep: "\<exists>x. timer_run 1 x \<and> tsteps x < max_issued \<and> sleepers x = [0 \<mapsto> 5] \<and> is_fired 0 (tstate x)"
proof -
  define i where "i = encode_id 1 0"
  define q where "q = [\<lparr>req_id = i, req_kind = WakeAt 5, req_task = None\<rparr>]"
  define t where "t w s h = \<lparr>timer_heap = h, timer_slots = [Some s], timer_free = [], wake_state = w\<rparr>"
    for w h and s :: timer_slot
  define c where "c q s g fr = \<lparr>pending_requests = q, max_pending = 1, chan_slots = [s], slot_info = [g],
    chan_free = fr, submit_wakers = [], chan_task = None\<rparr>" for q s g fr
  define x where "x n seen ts ch = \<lparr>tsteps = n, reported = seen, sleepers = [0 \<mapsto> 5], tstate = ts, tchannel = ch\<rparr>"
    for n seen ts ch
  let ?t1 = "t (WakePending 5 (OpPending (WakeAt 5))) default_timer_slot [(5, 0)]"
  let ?t2 = "t (WakePending 5 (OpSubmitted i)) default_timer_slot [(5, 0)]"
  let ?s = "new_slot\<lparr>slot_waker := Some NoopWaker\<rparr>"
  let ?r = "[9, 0, 0, 0, 0, 0, 0, 0] :: bytes"
  have n: "n \<le> 9 \<Longrightarrow> n < max_issued" for n by (simp add: max_issued_def)
  have chan: "timer_run 1 (x (Suc k) seen ts ch')"
    if "timer_run 1 (x k seen ts ch)" "k \<le> 9" "host_allowed op ch" "chan_step op ch = (out, ws, ch')"
    for k seen ts ch ch' op out ws
    using run_step [OF that(1) _ step_channel [of op "x k seen ts ch" out ws ch']] n that by (simp add: x_def)
  have proc: "\<exists>more. timer_run 1 (x (Suc k) more ts' ch')"
    if "timer_run 1 (x k seen ts ch)" "k \<le> 9" "timer_process ts ch = Some (ws, ts', ch')"
    for k seen ts ts' ch ch' ws
    using run_step [OF that(1) _ step_process [of "x k seen ts ch" ws ts' ch']] n that by (auto simp: x_def)
  have "sleep_new 5 timers_new (channel_new 1) =
      (\<lparr>sleep_id = 0, sleep_deadline = 5, sleep_registered = True\<rparr>, ?t1, channel_new 1)"
    by (simp add: timer_sample_defs t_def)
  from step_sleep [of 5 "timer_init 1", simplified timer_init_def timer_system.simps, OF this]
  have 1: "timer_run 1 (x (Suc 0) {} ?t1 (channel_new 1))"
    using run_step [OF run_init, of 1 "x (Suc 0) {} ?t1 (channel_new 1)"]
    by (simp add: timer_init_def x_def max_issued_def)
  have "timer_process ?t1 (channel_new 1) = Some ([], ?t2, c q (Some ?s) 1 [])"
    by (simp add: timer_sample_defs t_def c_def i_def q_def)
  from proc [OF 1 _ this] obtain s2 where 2: "timer_run 1 (x (Suc (Suc 0)) s2 ?t2 (c q (Some ?s) 1 []))"
    by auto
  have "chan_step TakeRequest (c q (Some ?s) 1 []) = (Taken (Some (hd q)), [], c [] (Some ?s) 1 [])"
    by (simp add: c_def q_def i_def take_pending.simps slot_at_def new_slot_def)
  from chan [OF 2 _ _ this] have 3: "timer_run 1 (x (Suc (Suc (Suc 0))) s2 ?t2 (c [] (Some ?s) 1 []))" by simp
  have "chan_step (CompleteOp i (Ok ?r)) (c [] (Some ?s) 1 []) =
      (Silent, [NoopWaker], c [] (Some (new_slot\<lparr>slot_result := Some (Ok ?r)\<rparr>)) 1 [])"
    by (simp add: c_def i_def complete_result_def timer_sample_defs)
  from chan [OF 3 _ _ this] have 4: "timer_run 1 (x (Suc (Suc (Suc (Suc 0)))) s2 ?t2
      (c [] (Some (new_slot\<lparr>slot_result := Some (Ok ?r)\<rparr>)) 1 []))"
    by (simp add: c_def)
  have nine: "reported_time ?r = 9" by (simp add: reported_time_def from_le_bytes_def)
  have p: "poll_op NoopWaker (OpSubmitted i) (c [] (Some (new_slot\<lparr>slot_result := Some (Ok ?r)\<rparr>)) 1 []) =
      (Ready (Ok ?r), OpSubmitted i, c [] None 1 [0])"
    by (simp add: c_def i_def free_slot_def timer_sample_defs)
  have d: "drop_op (OpSubmitted i) (c [] None 1 [0]) = c [] None 1 [0]"
    by (simp add: drop_op_def cancel_op_def c_def i_def is_valid_id_def slot_at_def)
  have f: "fire_expired 9 ?t2 = ([], t (WakePending 5 (OpSubmitted i)) (default_timer_slot\<lparr>timer_fired := True\<rparr>) [])"
    by (simp add: fire_expired_def t_def fire_entry_def timer_at_def default_timer_slot_def)
  have "timer_process ?t2 (c [] (Some (new_slot\<lparr>slot_result := Some (Ok ?r)\<rparr>)) 1 []) =
      Some ([], t WakeIdle (default_timer_slot\<lparr>timer_fired := True\<rparr>) [], c [] None 1 [0])"
    using p d f nine by (simp add: process_unfold t_def)
  from proc [OF 4 _ this] obtain seen where
    5: "timer_run 1 (x (Suc (Suc (Suc (Suc (Suc 0))))) seen
      (t WakeIdle (default_timer_slot\<lparr>timer_fired := True\<rparr>) []) (c [] None 1 [0]))"
    by auto
  show ?thesis
    by (rule exI, intro conjI, rule 5) (simp_all add: n x_def t_def is_fired_def timer_at_def)
qed

section \<open>Properties\<close>

text \<open>C38. A sleep never ends early: when polling it returns, the host has reported a time at or after
  its deadline, whatever happened in between, timer slots reused by other sleeps included.\<close>

theorem sleep_not_early:
  assumes "timer_run m x" "sleepers x (sleep_id f) = Some (sleep_deadline f)"
    and "sleep_poll w f (tstate x) = (Ready (), f', t)"
  shows "\<exists>now \<in> reported x. sleep_deadline f \<le> now"
  using cleanup_ok(2) [of "sleepers x" "reported x" "tstate x" "sleep_id f" "sleep_deadline f"] assms(2) timer_run_ok [OF assms(1)] sleep_poll_cases [OF assms(3)]
  by (auto simp: system_ok_def timers_ok_def)

theorem sleep_not_early_witness:
  "\<exists>x :: timer_system. sleepers x 0 = Some 5 \<and> (\<exists>now \<in> reported x. 5 \<le> now)"
proof -
  obtain x where x: "timer_run 1 x" "sleepers x = [0 \<mapsto> 5]" "is_fired 0 (tstate x)" using sample_sleep by blast
  define f where "f = \<lparr>sleep_id = 0, sleep_deadline = 5, sleep_registered = True\<rparr>"
  have "sleepers x (sleep_id f) = Some (sleep_deadline f)" by (simp add: x f_def)
  moreover have "sleep_poll NoopWaker f (tstate x) =
      (Ready (), f\<lparr>sleep_registered := False\<rparr>, timer_cleanup 0 (tstate x))"
    using x(3) by (simp add: sleep_poll_def f_def)
  ultimately have "\<exists>now \<in> reported x. sleep_deadline f \<le> now" by (rule sleep_not_early [OF x(1)])
  then have "sleepers x 0 = Some 5 \<and> (\<exists>now \<in> reported x. 5 \<le> now)" using x(2) by (simp add: f_def)
  then show ?thesis ..
qed

text \<open>A sleep is not forgotten: as long as it has not fired, a \<open>WakeAt\<close> for its deadline or an
  earlier one is with the host channel; and processing returns, and when the host has answered it fires
  every sleep that is due by the reported time and wakes its task.\<close>

theorem sleep_covered:
  assumes "timer_run m x" "tsteps x < max_issued"
  shows "(\<forall>i d. sleepers x i = Some d \<and> \<not> is_fired i (tstate x) \<longrightarrow>
      (\<exists>e f. wake_state (tstate x) = WakePending e f \<and> e \<le> d)) \<and>
    (\<exists>ws t c. timer_process (tstate x) (tchannel x) = Some (ws, t, c) \<and>
      (\<forall>now \<in> answered_times (tstate x) (tchannel x). \<forall>i d. sleepers x i = Some d \<and> d \<le> now \<longrightarrow>
        is_fired i t \<and>
        (\<forall>s w. timer_at (tstate x) i = Some s \<and> timer_waker s = Some w \<and> \<not> timer_fired s \<longrightarrow> w \<in> set ws)))"
proof -
  have ok: "timers_ok (sleepers x) (reported x) (tstate x)" "chan_within m (tsteps x) (tchannel x)"
    using timer_run_ok [OF assms(1)] by (simp_all add: system_ok_def)
  have "\<exists>e f. wake_state (tstate x) = WakePending e f \<and> e \<le> d"
    if "sleepers x i = Some d" "\<not> is_fired i (tstate x)" for i d
  proof -
    have "(d, i) \<in> set (timer_heap (tstate x))"
      using ok(1) that
      by (force simp: timers_ok_def slot_ok_def sleeper_good_def is_fired_def split: option.splits if_splits)
    with ok(1) show ?thesis by (force simp: timers_ok_def wake_ok_def split: wake_at_state.splits)
  qed
  moreover from process_ok [OF ok assms(2) refl] obtain ws t c where
    "timer_process (tstate x) (tchannel x) = Some (ws, t, c)"
    "\<forall>now \<in> answered_times (tstate x) (tchannel x). \<forall>i d. sleepers x i = Some d \<and> d \<le> now \<longrightarrow>
      is_fired i t \<and>
      (\<forall>s w. timer_at (tstate x) i = Some s \<and> timer_waker s = Some w \<and> \<not> timer_fired s \<longrightarrow> w \<in> set ws)"
    by blast
  ultimately show ?thesis by blast
qed

theorem sleep_covered_witness:
  "\<exists>x :: timer_system. sleepers x 0 = Some 5 \<and> (\<exists>ws t c. timer_process (tstate x) (tchannel x) = Some (ws, t, c))"
proof -
  obtain x where x: "timer_run 1 x" "tsteps x < max_issued" "sleepers x = [0 \<mapsto> 5]" using sample_sleep by blast
  from sleep_covered [OF x(1,2)] x(3)
  have "sleepers x 0 = Some 5 \<and> (\<exists>ws t c. timer_process (tstate x) (tchannel x) = Some (ws, t, c))" by auto
  then show ?thesis ..
qed

text \<open>A slot that is cancelled after it has fired.\<close>

definition leaked :: "nat \<Rightarrow> timer_system \<Rightarrow> bool" where
  "leaked i x \<longleftrightarrow> sleepers x i = None \<and> i \<notin> snd ` set (timer_heap (tstate x)) \<and> timer_at (tstate x) i \<noteq> None"

lemma fire_loop_other:
  "fire_loop now h t = (ws, t') \<Longrightarrow> i \<notin> snd ` set h \<Longrightarrow> timer_at t' i = timer_at t i \<and> set (timer_heap t') \<subseteq> set h"
proof (induction now h t arbitrary: ws rule: fire_loop.induct)
  case (2 now e h t)
  show ?case
  proof (cases "fst e > now")
    case False
    obtain ws1 t1 where t1: "fire_entry e t = (ws1, t1)" by fastforce
    then obtain ws2 where "fire_loop now h t1 = (ws2, t')"
      using "2.prems"(1) False by (auto split: prod.splits)
    with "2.IH" [OF False t1 [symmetric] refl this] fire_entry_other [OF t1, of i] "2.prems"(2) show ?thesis by auto
  qed (use "2.prems" in auto)
qed auto

lemma process_other:
  "process_loop n t c = Some (ws, t', c') \<Longrightarrow> i \<notin> snd ` set (timer_heap t) \<Longrightarrow>
     timer_at t' i = timer_at t i \<and> set (timer_heap t') \<subseteq> set (timer_heap t)"
proof (induction n t c arbitrary: ws rule: process_loop.induct)
  case (2 n t c)
  show ?case
  proof (cases "wake_state t")
    case WakeIdle
    show ?thesis
    proof (cases "timer_heap t")
      case (Cons e h)
      obtain d j where e: "e = (d, j)" by fastforce
      from 2(1) [OF WakeIdle Cons e [symmetric], of ws] 2(4,5) WakeIdle Cons e show ?thesis by simp
    qed (use 2(4) WakeIdle in auto)
  next
    case (WakePending d f)
    obtain p f' c1 where poll: "poll_op NoopWaker f c = (p, f', c1)" by (metis prod_cases3)
    show ?thesis
    proof (cases p)
      case Pending
      with 2 WakePending poll show ?thesis by auto
    next
      case ready: (Ready r)
      show ?thesis
      proof (cases r)
        case (Inl e)
        with 2 WakePending poll ready show ?thesis by simp
      next
        case (Inr bs)
        obtain ws1 t1 where fire: "fire_expired (reported_time bs) t = (ws1, t1)" by fastforce
        then have keep: "timer_at t1 i = timer_at t i" "set (timer_heap t1) \<subseteq> set (timer_heap t)"
          using fire_loop_other [of _ "timer_heap t" t ws1 t1 i] "2.prems"(2) by (simp_all add: fire_expired_def)
        from "2.prems"(1) WakePending poll ready Inr fire obtain ws2 where
          "process_loop n (t1\<lparr>wake_state := WakeIdle\<rparr>) (drop_op f' c1) = Some (ws2, t', c')" by auto
        with 2(3) [OF WakePending poll [symmetric] ready Inr refl refl fire [symmetric] this] keep "2.prems"(2)
        show ?thesis by auto
      qed
    qed
  qed
qed simp

inductive timer_later :: "timer_system \<Rightarrow> timer_system \<Rightarrow> bool" where
  later_now: "timer_later x x"
| later_step: "timer_later x y \<Longrightarrow> tsteps y < max_issued \<Longrightarrow> timer_step y z \<Longrightarrow> timer_later x z"

lemma sleep_new_fields:
  assumes "heap_ok t" "sleep_new d t c = (f, t', c')"
  shows "timer_at t (sleep_id f) = None \<and> timer_at t' = (timer_at t)(sleep_id f \<mapsto> default_timer_slot) \<and>
    set (timer_heap t') = insert (d, sleep_id f) (set (timer_heap t))"
proof -
  obtain i t1 where t1: "allocate_timer t = (i, t1)" by fastforce
  have "sleep_id f = i \<and> timer_at t' = timer_at t1 \<and> set (timer_heap t') = insert (d, i) (set (timer_heap t1))"
    using assms(2) t1 by (auto simp: sleep_new_def timer_register_def Let_def split: wake_at_state.splits if_splits)
  with allocate_timer_ok [OF assms(1) t1] show ?thesis by simp
qed

lemma leaked_step:
  assumes "timer_step x y" "system_ok m x" "leaked i x"
  shows "leaked i y"
  using assms
proof (cases rule: timer_step.cases)
  case (step_sleep d f t c)
  have "heap_ok (tstate x)" using assms(2) by (simp add: system_ok_def timers_ok_def)
  from sleep_new_fields [OF this step_sleep(2)] assms(3) step_sleep(1) show ?thesis by (auto simp: leaked_def)
next
  case (step_poll_pending f w f' t)
  with sleep_poll_cases [OF step_poll_pending(3)] assms(3) show ?thesis
    by (auto simp: leaked_def register_timer_waker_def timer_at_update split: option.splits)
next
  case (step_poll_ready f w f' t)
  with assms(3) have "sleep_id f \<noteq> i" by (auto simp: leaked_def)
  moreover have "t = timer_cleanup (sleep_id f) (tstate x)" using sleep_poll_cases [OF step_poll_ready(3)] by simp
  ultimately show ?thesis using step_poll_ready(1) assms(3) by (auto simp: leaked_def timer_cleanup_def timer_at_def)
next
  case (step_drop f)
  with assms(3) show ?thesis
    by (auto simp: leaked_def sleep_drop_def timer_cancel_def timer_at_update split: option.splits)
next
  case (step_process ws t c)
  with assms(3) process_other [of 4 "tstate x" "tchannel x" ws t c i] show ?thesis
    by (auto simp: leaked_def timer_process_def)
qed (use assms(3) in \<open>auto simp: leaked_def\<close>)

text \<open>A sleep that is dropped between its firing and its next poll leaks its slot: the drop marks
  the slot as cancelled, but only the heap, which the entry has left, would free it; it is never used
  again and never freed, whatever happens.\<close>

theorem fired_drop_leaks:
  assumes "timer_run m x" "sleepers x (sleep_id f) = Some (sleep_deadline f)" "sleep_registered f"
    and "is_fired (sleep_id f) (tstate x)" "tsteps x < max_issued"
    and "timer_later (x\<lparr>tsteps := Suc (tsteps x), sleepers := (sleepers x)(sleep_id f := None),
         tstate := sleep_drop f (tstate x)\<rparr>) y"
  shows "timer_at (tstate y) (sleep_id f) \<noteq> None \<and> sleep_id f \<notin> set (timer_free (tstate y)) \<and>
    sleepers y (sleep_id f) = None"
proof -
  let ?y = "x\<lparr>tsteps := Suc (tsteps x), sleepers := (sleepers x)(sleep_id f := None),
         tstate := sleep_drop f (tstate x)\<rparr>"
  have ok: "system_ok m x" using assms(1) by (rule timer_run_ok)
  have run: "timer_run m ?y" using run_step [OF assms(1,5) step_drop [OF assms(2,3)]] .
  have "sleeper_good (reported x) (set (timer_heap (tstate x))) (timer_at (tstate x)) (sleep_id f) (sleep_deadline f)"
    using ok assms(2) by (simp add: system_ok_def timers_ok_def slot_ok_def)
  then have "leaked (sleep_id f) ?y"
    using assms(3,4)
    by (auto simp: leaked_def sleeper_good_def is_fired_def sleep_drop_def timer_cancel_def timer_at_update
        dest: timer_at_length split: option.splits)
  with assms(6) run have "leaked (sleep_id f) y \<and> timer_run m y"
  proof (induction "?y" y rule: timer_later.induct)
    case (later_step y z)
    then show ?case using leaked_step timer_run_ok run_step by blast
  qed simp
  moreover from this have "heap_ok (tstate y)" using timer_run_ok by (auto simp: system_ok_def timers_ok_def)
  ultimately show ?thesis by (auto simp: leaked_def heap_ok_def)
qed

theorem fired_drop_leaks_witness:
  "\<exists>x. timer_run 1 x \<and> timer_at (sleep_drop \<lparr>sleep_id = 0, sleep_deadline = 5, sleep_registered = True\<rparr>
      (tstate x)) 0 \<noteq> None"
proof -
  obtain x where x: "timer_run 1 x" "tsteps x < max_issued" "sleepers x = [0 \<mapsto> 5]" "is_fired 0 (tstate x)"
    using sample_sleep by blast
  define f where "f = \<lparr>sleep_id = 0, sleep_deadline = 5, sleep_registered = True\<rparr>"
  have f: "sleepers x (sleep_id f) = Some (sleep_deadline f)" "sleep_registered f" "is_fired (sleep_id f) (tstate x)"
    using x by (simp_all add: f_def)
  from fired_drop_leaks [OF x(1) f x(2) later_now] have "timer_at (sleep_drop f (tstate x)) 0 \<noteq> None"
    by (simp add: f_def)
  with x(1) show ?thesis unfolding f_def by blast
qed

end
