(* ===== verification/Scheduler.thy ===== *)
theory Scheduler
  imports Timer
begin

text \<open>
  The task scheduler, \<open>crates/amla-sandbox-scheduler/src/scheduler.rs\<close>: tasks in slots that are reused
  under a new generation, a queue of woken tasks, a queue of spawned ones, children that are cancelled
  with their parent, and the host channel and the timers below. The future of a task is code; here it
  is what it owns of the scheduler's resources, the operations and sleeps that are dropped with it,
  and a poll of it is a list of calls (\<open>task_act\<close>) with an outcome. \<open>Rc<RefCell<TaskSlot>>\<close> is an
  index into a store of completion slots, with the flag of its one \<open>TaskHandle\<close> beside it.
\<close>

section \<open>State\<close>

datatype task_error =
    TaskCancelled
  | ResultTaken
  | AllTasksGone
  | TaskFailed string

text \<open>\<open>Exit\<close> and \<open>SideEffects\<close> of \<open>lib.rs\<close>: what a command returns, and what the shell applies.\<close>

record side_effects =
  effect_cwd :: "string option"
  env_sets :: "(string \<times> string) list"
  env_unsets :: "string list"
  effect_pipefail :: "bool option"

record exit =
  exit_code :: int
  exit_effects :: side_effects

definition no_effects :: side_effects where
  "no_effects = \<lparr>effect_cwd = None, env_sets = [], env_unsets = [], effect_pipefail = None\<rparr>"

definition exit_with :: "int \<Rightarrow> exit" where
  "exit_with c = \<lparr>exit_code = c, exit_effects = no_effects\<rparr>"

definition exit_success :: exit where
  "exit_success = exit_with 0"

definition exit_with_cwd :: "string \<Rightarrow> exit" where
  "exit_with_cwd p = \<lparr>exit_code = 0, exit_effects = no_effects\<lparr>effect_cwd := Some p\<rparr>\<rparr>"

type_synonym task_result = "(exit, task_error) result"

record task_future =
  held_ops :: "host_op list"
  held_sleeps :: "sleep_future list"

record completion =
  done_result :: "task_result option"
  done_waker :: "raw_waker option"
  done_task :: "task_id option"
  done_taken :: bool

record task =
  task_future :: task_future
  task_slot :: nat
  task_parent :: "task_id option"
  task_root :: "task_id option"
  task_children :: "task_id list"

record scheduler =
  tasks :: "task option list"
  generations :: "nat list"
  ready_queue :: "nat list"
  spawn_queue :: "task list"
  sched_channel :: host_channel
  sched_timers :: timers
  active_count :: nat
  free_tasks :: "nat list"
  current_task :: "task_id option"
  current_root :: "task_id option"
  completions :: "completion list"

datatype scheduler_state = AllDone | Blocked | Progress

definition scheduler_new :: "nat \<Rightarrow> scheduler" where
  "scheduler_new n = \<lparr>tasks = [], generations = [], ready_queue = [], spawn_queue = [],
     sched_channel = channel_new n, sched_timers = timers_new, active_count = 0, free_tasks = [],
     current_task = None, current_root = None, completions = []\<rparr>"

definition task_at :: "scheduler \<Rightarrow> nat \<Rightarrow> task option" where
  "task_at s i = (if i < length (tasks s) then tasks s ! i else None)"

definition put_task :: "nat \<Rightarrow> task option \<Rightarrow> scheduler \<Rightarrow> scheduler" where
  "put_task i t s = s\<lparr>tasks := (tasks s)[i := t]\<rparr>"

definition put_completion :: "nat \<Rightarrow> completion \<Rightarrow> scheduler \<Rightarrow> scheduler" where
  "put_completion h x s = s\<lparr>completions := (completions s)[h := x]\<rparr>"

text \<open>\<open>generations.get(slot).copied().unwrap_or(0)\<close>; where the code indexes, the slot is in range.\<close>

definition generation_at :: "scheduler \<Rightarrow> nat \<Rightarrow> nat" where
  "generation_at s i = (if i < length (generations s) then generations s ! i else 0)"

section \<open>Wakers\<close>

fun wake :: "raw_waker \<Rightarrow> scheduler \<Rightarrow> scheduler" where
  "wake (TaskWaker i) s = s\<lparr>ready_queue := ready_queue s @ [i]\<rparr>"
| "wake NoopWaker s = s"

definition wake_all :: "raw_waker list \<Rightarrow> scheduler \<Rightarrow> scheduler" where
  "wake_all ws s = fold wake ws s"

section \<open>Spawning\<close>

definition spawn :: "task_future \<Rightarrow> scheduler \<Rightarrow> nat \<times> scheduler" where
  "spawn f s =
     (let h = length (completions s);
          t = \<lparr>task_future = f, task_slot = h, task_parent = current_task s, task_root = current_root s,
            task_children = []\<rparr>
      in (h, s\<lparr>completions := completions s @
             [\<lparr>done_result = None, done_waker = None, done_task = None, done_taken = False\<rparr>],
           spawn_queue := spawn_queue s @ [t]\<rparr>))"

definition own_root :: "task_id \<Rightarrow> task \<Rightarrow> task" where
  "own_root i t = (if task_root t = None then t\<lparr>task_root := Some i\<rparr> else t)"

definition place_task :: "task \<Rightarrow> scheduler \<Rightarrow> task_id \<times> scheduler" where
  "place_task t s =
     (if free_tasks s \<noteq> [] then
        (let i = last (free_tasks s);
             g = generations s ! i + 1;
             a = \<lparr>id_slot = i, id_gen = g\<rparr>
         in (a, s\<lparr>free_tasks := butlast (free_tasks s), generations := (generations s)[i := g],
               tasks := (tasks s)[i := Some (own_root a t)]\<rparr>))
      else
        (let a = \<lparr>id_slot = length (tasks s), id_gen = 0\<rparr>
         in (a, s\<lparr>tasks := tasks s @ [Some (own_root a t)], generations := generations s @ [0]\<rparr>)))"

definition adopt :: "task_id option \<Rightarrow> task_id \<Rightarrow> scheduler \<Rightarrow> scheduler" where
  "adopt p a s =
     (case p of
        None \<Rightarrow> s
      | Some p \<Rightarrow>
          if generation_at s (id_slot p) = id_gen p then
            (case task_at s (id_slot p) of
               None \<Rightarrow> s
             | Some t \<Rightarrow> put_task (id_slot p) (Some (t\<lparr>task_children := task_children t @ [a]\<rparr>)) s)
          else s)"

definition assign_task :: "task \<Rightarrow> scheduler \<Rightarrow> scheduler" where
  "assign_task t s =
     (let (a, s) = place_task t s;
          s = put_completion (task_slot t) ((completions s ! task_slot t)\<lparr>done_task := Some a\<rparr>) s;
          s = adopt (task_parent t) a s
      in s\<lparr>active_count := active_count s + 1, ready_queue := ready_queue s @ [id_slot a]\<rparr>)"

definition process_spawn_queue :: "scheduler \<Rightarrow> scheduler" where
  "process_spawn_queue s = fold assign_task (spawn_queue s) (s\<lparr>spawn_queue := []\<rparr>)"

section \<open>Cancellation\<close>

text \<open>Dropping a future drops what it owns.\<close>

definition drop_future :: "task_future \<Rightarrow> scheduler \<Rightarrow> scheduler" where
  "drop_future f s = s\<lparr>sched_channel := fold drop_op (held_ops f) (sched_channel s),
     sched_timers := fold sleep_drop (held_sleeps f) (sched_timers s)\<rparr>"

text \<open>Clearing an occupied slot, as completion and cancellation do.\<close>

definition remove_task :: "nat \<Rightarrow> scheduler \<Rightarrow> scheduler" where
  "remove_task i s =
     (case task_at s i of
        None \<Rightarrow> s
      | Some t \<Rightarrow> drop_future (task_future t)
          ((put_task i None s)\<lparr>free_tasks := free_tasks s @ [i], active_count := active_count s - 1\<rparr>))"

definition set_cancelled :: "completion \<Rightarrow> completion" where
  "set_cancelled x =
     x\<lparr>done_result := (case done_result x of None \<Rightarrow> Some (Err TaskCancelled) | Some r \<Rightarrow> Some r),
       done_waker := None\<rparr>"

text \<open>The first half of \<open>cancel_task_internal\<close>: the result is set, the waker and the children are taken.\<close>

definition begin_cancel :: "nat \<Rightarrow> task \<Rightarrow> scheduler \<Rightarrow> scheduler" where
  "begin_cancel i t s =
     put_completion (task_slot t) (set_cancelled (completions s ! task_slot t))
       (put_task i (Some (t\<lparr>task_children := []\<rparr>)) s)"

function cancel_task_internal :: "task_id \<Rightarrow> scheduler \<Rightarrow> scheduler"
  and cancel_children :: "task_id list \<Rightarrow> scheduler \<Rightarrow> scheduler" where
  "cancel_task_internal a s =
     (if generation_at s (id_slot a) \<noteq> id_gen a then s
      else (case task_at s (id_slot a) of
          None \<Rightarrow> s
        | Some t \<Rightarrow>
            wake_all (take_waker (done_waker (completions s ! task_slot t)))
              (remove_task (id_slot a)
                (cancel_children (task_children t) (begin_cancel (id_slot a) t s)))))"
| "cancel_children [] s = s"
| "cancel_children (a # as) s = cancel_children as (cancel_task_internal a s)"
  by pat_completeness auto

text \<open>The number of links to children, which a cancellation never increases.\<close>

definition child_links :: "scheduler \<Rightarrow> nat" where
  "child_links s = (\<Sum>t \<leftarrow> tasks s. case t of None \<Rightarrow> 0 | Some t \<Rightarrow> length (task_children t))"

lemma sum_list_put:
  "i < length xs \<Longrightarrow> sum_list (map f (xs[i := x])) + (f (xs ! i) :: nat) = sum_list (map f xs) + f x"
  by (induction xs arbitrary: i) (auto simp: nth_Cons split: nat.splits)

lemma links_put:
  assumes "task_at s i = Some t"
  shows "child_links (put_task i x s) + length (task_children t) =
    child_links s + (case x of None \<Rightarrow> 0 | Some t \<Rightarrow> length (task_children t))"
proof -
  have i: "i < length (tasks s)" "tasks s ! i = Some t"
    using assms by (simp_all add: task_at_def split: if_splits)
  with sum_list_put [OF i(1), of "\<lambda>t. case t of None \<Rightarrow> 0 | Some t \<Rightarrow> length (task_children t)" x]
  show ?thesis by (simp add: child_links_def put_task_def)
qed

lemma links_drop [simp]: "child_links (drop_future f s) = child_links s"
  by (simp add: child_links_def drop_future_def)

lemma links_wake [simp]: "child_links (wake w s) = child_links s"
  by (cases w) (simp_all add: child_links_def)

lemma links_wake_all [simp]: "child_links (wake_all ws s) = child_links s"
proof (induction ws arbitrary: s)
  case (Cons w ws)
  then show ?case by (simp add: wake_all_def)
qed (simp add: wake_all_def)

lemma links_begin_cancel:
  "task_at s i = Some t \<Longrightarrow> child_links (begin_cancel i t s) + length (task_children t) = child_links s"
  using links_put [of s i t "Some (t\<lparr>task_children := []\<rparr>)"]
  by (simp add: begin_cancel_def put_completion_def child_links_def)

lemma links_remove: "child_links (remove_task i s) \<le> child_links s"
proof (cases "task_at s i")
  case (Some t)
  with links_put [OF Some, of None] show ?thesis
    by (simp add: remove_task_def) (simp add: child_links_def)
qed (simp add: remove_task_def)

lemma cancel_links:
  "cancel_task_internal_cancel_children_dom (Inl (a, s)) \<Longrightarrow> child_links (cancel_task_internal a s) \<le> child_links s"
  "cancel_task_internal_cancel_children_dom (Inr (as, s)) \<Longrightarrow> child_links (cancel_children as s) \<le> child_links s"
proof (induction a s and as s rule: cancel_task_internal_cancel_children.pinduct)
  case (1 a s)
  show ?case
  proof (cases "task_at s (id_slot a)")
    case None
    with 1(1) show ?thesis by (simp add: cancel_task_internal.psimps)
  next
    case (Some t)
    show ?thesis
    proof (cases "generation_at s (id_slot a) = id_gen a")
      case True
      let ?s = "cancel_children (task_children t) (begin_cancel (id_slot a) t s)"
      have "child_links ?s \<le> child_links (begin_cancel (id_slot a) t s)"
        using 1(2) True Some by simp
      with links_begin_cancel [OF Some] links_remove [of "id_slot a" ?s] True Some 1(1) show ?thesis
        by (simp add: cancel_task_internal.psimps)
    qed (use 1(1) in \<open>simp add: cancel_task_internal.psimps\<close>)
  qed
next
  case (2 s)
  then show ?case by (simp add: cancel_children.psimps)
next
  case (3 a as s)
  then show ?case by (simp add: cancel_children.psimps)
qed

termination cancel_task_internal
proof (relation "measure (\<lambda>x. case x of Inl (a, s) \<Rightarrow> 3 * child_links s + 1
    | Inr (as, s) \<Rightarrow> 3 * child_links s + 2 * length as)", goal_cases)
  case (2 a s t)
  with links_begin_cancel [OF 2(2)] show ?case by simp
next
  case (4 a as s)
  with cancel_links(1) [OF 4] show ?case by simp
qed auto

declare cancel_task_internal.simps [simp del]

text \<open>\<open>cancel_task\<close>: the task is taken off its parent's list first, and the ready queue is cleaned up.\<close>

definition disown :: "nat \<Rightarrow> task_id \<Rightarrow> scheduler \<Rightarrow> scheduler" where
  "disown i a s =
     (case task_at s i of
        None \<Rightarrow> s
      | Some t \<Rightarrow> put_task i (Some (t\<lparr>task_children := filter (\<lambda>c. c \<noteq> a) (task_children t)\<rparr>)) s)"

definition cancel_task :: "task_id \<Rightarrow> scheduler \<Rightarrow> bool \<times> scheduler" where
  "cancel_task a s =
     (if generation_at s (id_slot a) \<noteq> id_gen a then (False, s)
      else (case task_at s (id_slot a) of
          None \<Rightarrow> (False, s)
        | Some t \<Rightarrow>
            (let s = (case task_parent t of None \<Rightarrow> s | Some p \<Rightarrow> disown (id_slot p) a s);
                 s = cancel_task_internal a s
             in (True, s\<lparr>ready_queue := filter (\<lambda>i. task_at s i \<noteq> None) (ready_queue s)\<rparr>))))"

section \<open>Polling a task\<close>

text \<open>The choice of the task: entries of empty slots are skipped.\<close>

fun next_ready :: "scheduler \<Rightarrow> nat list \<Rightarrow> (nat \<times> nat list) option" where
  "next_ready s [] = None"
| "next_ready s (i # q) = (if task_at s i = None then next_ready s q else Some (i, q))"

definition begin_poll :: "scheduler \<Rightarrow> nat option \<times> scheduler" where
  "begin_poll s =
     (case next_ready s (ready_queue s) of
        None \<Rightarrow> (None, s\<lparr>ready_queue := []\<rparr>)
      | Some (i, q) \<Rightarrow>
          (let r = (case task_at s i of None \<Rightarrow> None | Some t \<Rightarrow> task_root t)
           in (Some i, s\<lparr>ready_queue := q, current_task := Some \<lparr>id_slot = i, id_gen = generation_at s i\<rparr>,
                 current_root := r, sched_channel := set_current_task r (sched_channel s)\<rparr>)))"

definition clear_context :: "scheduler \<Rightarrow> scheduler" where
  "clear_context s = s\<lparr>current_task := None, current_root := None,
     sched_channel := set_current_task None (sched_channel s)\<rparr>"

definition leave_parent :: "nat \<Rightarrow> task_id option \<Rightarrow> scheduler \<Rightarrow> scheduler" where
  "leave_parent i p s =
     (case p of
        None \<Rightarrow> s
      | Some p \<Rightarrow>
          if generation_at s (id_slot p) = id_gen p
          then disown (id_slot p) \<lparr>id_slot = i, id_gen = generation_at s i\<rparr> s
          else s)"

definition finish_poll :: "nat \<Rightarrow> task_result poll \<Rightarrow> scheduler \<Rightarrow> scheduler" where
  "finish_poll i p s =
     (let s = clear_context s
      in case p of
        Pending \<Rightarrow> s
      | Ready r \<Rightarrow>
          (case task_at s i of
             None \<Rightarrow> s
           | Some t \<Rightarrow>
               (let x = completions s ! task_slot t;
                    s = put_completion (task_slot t) (x\<lparr>done_result := Some r, done_waker := None\<rparr>) s;
                    s = cancel_children (task_children t) s;
                    s = leave_parent i (task_parent t) s
                in wake_all (take_waker (done_waker x)) (remove_task i s))))"

section \<open>Handles\<close>

text \<open>Taking the result of a slot or leaving a waker in it, as the handle and both combinators do.\<close>

definition await_slot :: "raw_waker \<Rightarrow> nat \<Rightarrow> scheduler \<Rightarrow> task_result option \<times> scheduler" where
  "await_slot w h s =
     (let x = completions s ! h
      in case done_result x of
        Some r \<Rightarrow> (Some r, put_completion h (x\<lparr>done_result := None\<rparr>) s)
      | None \<Rightarrow>
          (None, if done_waker x = None \<or> \<not> will_wake (the (done_waker x)) w
             then put_completion h (x\<lparr>done_waker := Some w\<rparr>) s else s))"

definition poll_handle :: "raw_waker \<Rightarrow> nat \<Rightarrow> scheduler \<Rightarrow> task_result poll \<times> scheduler" where
  "poll_handle w h s =
     (if done_taken (completions s ! h) then (Ready (Err ResultTaken), s)
      else (case await_slot w h s of
          (Some r, s) \<Rightarrow> (Ready r, s)
        | (None, s) \<Rightarrow> (Pending, s)))"

definition is_complete :: "nat \<Rightarrow> scheduler \<Rightarrow> bool" where
  "is_complete h s = (done_result (completions s ! h) \<noteq> None)"

definition handle_id :: "nat \<Rightarrow> scheduler \<Rightarrow> task_id option" where
  "handle_id h s = done_task (completions s ! h)"

definition try_get :: "nat \<Rightarrow> scheduler \<Rightarrow> task_result option \<times> scheduler" where
  "try_get h s =
     (let x = completions s ! h
      in case done_result x of
        None \<Rightarrow> (None, s)
      | Some r \<Rightarrow> (Some r, put_completion h (x\<lparr>done_result := None, done_taken := True\<rparr>) s))"

definition cancel_handle :: "nat \<Rightarrow> scheduler \<Rightarrow> bool \<times> scheduler" where
  "cancel_handle h s =
     (case done_task (completions s ! h) of None \<Rightarrow> (False, s) | Some a \<Rightarrow> cancel_task a s)"

fun select_tasks_loop ::
  "raw_waker \<Rightarrow> nat option list \<Rightarrow> nat option list \<Rightarrow> scheduler \<Rightarrow>
     (nat \<times> task_result) option \<times> nat option list \<times> scheduler" where
  "select_tasks_loop w done [] s = (None, done, s)"
| "select_tasks_loop w done (None # hs) s = select_tasks_loop w (done @ [None]) hs s"
| "select_tasks_loop w done (Some h # hs) s =
     (case await_slot w h s of
        (Some r, s) \<Rightarrow> (Some (length done, r), done @ None # hs, s)
      | (None, s) \<Rightarrow> select_tasks_loop w (done @ [Some h]) hs s)"

definition poll_select_tasks ::
  "raw_waker \<Rightarrow> nat option list \<Rightarrow> scheduler \<Rightarrow> (nat \<times> task_result) poll \<times> nat option list \<times> scheduler" where
  "poll_select_tasks w hs s =
     (case select_tasks_loop w [] hs s of
        (Some r, hs, s) \<Rightarrow> (Ready r, hs, s)
      | (None, hs, s) \<Rightarrow>
          if list_all (\<lambda>h. h = None) hs then (Ready (0, Err AllTasksGone), hs, s) else (Pending, hs, s))"

fun join_tasks_loop ::
  "raw_waker \<Rightarrow> (nat option \<times> task_result option) list \<Rightarrow> scheduler \<Rightarrow>
     bool \<times> (nat option \<times> task_result option) list \<times> scheduler" where
  "join_tasks_loop w [] s = (True, [], s)"
| "join_tasks_loop w ((Some h, None) # hs) s =
     (case await_slot w h s of
        (Some r, s) \<Rightarrow> (let (d, hs, s) = join_tasks_loop w hs s in (d, (None, Some r) # hs, s))
      | (None, s) \<Rightarrow> (let (d, hs, s) = join_tasks_loop w hs s in (False, (Some h, None) # hs, s)))"
| "join_tasks_loop w (x # hs) s =
     (let (d, hs, s) = join_tasks_loop w hs s in (d, x # hs, s))"

definition poll_join_tasks ::
  "raw_waker \<Rightarrow> (nat option \<times> task_result option) list \<Rightarrow> scheduler \<Rightarrow>
     task_result list poll \<times> (nat option \<times> task_result option) list \<times> scheduler" where
  "poll_join_tasks w hs s =
     (let (d, hs, s) = join_tasks_loop w hs s
      in if d then (Ready (map (\<lambda>x. the (snd x)) hs), map (\<lambda>x. (fst x, None)) hs, s)
         else (Pending, hs, s))"

section \<open>Host operations\<close>

definition take_host_op :: "scheduler \<Rightarrow> host_request option \<times> scheduler" where
  "take_host_op s =
     (let (r, ws, c) = take_pending (sched_channel s) in (r, wake_all ws (s\<lparr>sched_channel := c\<rparr>)))"

definition complete_host_op :: "u64 \<Rightarrow> bytes \<Rightarrow> scheduler \<Rightarrow> scheduler" where
  "complete_host_op i data s =
     (let (ws, c) = complete i data (sched_channel s) in wake_all ws (s\<lparr>sched_channel := c\<rparr>))"

definition complete_host_op_err :: "u64 \<Rightarrow> host_error \<Rightarrow> scheduler \<Rightarrow> scheduler" where
  "complete_host_op_err i e s =
     (let (ws, c) = complete_err i e (sched_channel s) in wake_all ws (s\<lparr>sched_channel := c\<rparr>))"

definition append_host_chunk ::
  "u64 \<Rightarrow> bytes \<Rightarrow> bool \<Rightarrow> scheduler \<Rightarrow> (bool, host_error) result \<times> scheduler" where
  "append_host_chunk i data eof s =
     (let (r, ws, c) = append_chunk i data eof (sched_channel s)
      in (r, wake_all ws (s\<lparr>sched_channel := c\<rparr>)))"

definition clear_chunk_buffer :: "u64 \<Rightarrow> scheduler \<Rightarrow> scheduler" where
  "clear_chunk_buffer i s = s\<lparr>sched_channel := clear_buffer i (sched_channel s)\<rparr>"

section \<open>What a task does while it is polled\<close>

datatype task_act =
    Spawn task_future
  | Await nat
  | TryGet nat
  | CancelHandle nat
  | StartOp host_op_kind
  | PollOp nat
  | DropOp nat
  | StartSleep time_nanos
  | PollSleep nat
  | DropSleep nat
  | WakeTask nat

text \<open>Operations and sleeps that are kept in the future of the task in slot \<open>i\<close>.\<close>

definition with_future ::
  "nat \<Rightarrow> (task_future \<Rightarrow> scheduler \<Rightarrow> task_future \<times> scheduler) \<Rightarrow> scheduler \<Rightarrow> scheduler" where
  "with_future i f s =
     (case task_at s i of
        None \<Rightarrow> s
      | Some t \<Rightarrow> (let (x, s) = f (task_future t) s in put_task i (Some (t\<lparr>task_future := x\<rparr>)) s))"

definition remove_nth :: "nat \<Rightarrow> 'a list \<Rightarrow> 'a list" where
  "remove_nth n xs = take n xs @ drop (Suc n) xs"

fun do_act :: "nat \<Rightarrow> task_act \<Rightarrow> scheduler \<Rightarrow> scheduler" where
  "do_act i (Spawn f) s = snd (spawn f s)"
| "do_act i (Await h) s = (if h < length (completions s) then snd (poll_handle (TaskWaker i) h s) else s)"
| "do_act i (TryGet h) s = (if h < length (completions s) then snd (try_get h s) else s)"
| "do_act i (CancelHandle h) s = (if h < length (completions s) then snd (cancel_handle h s) else s)"
| "do_act i (StartOp k) s =
     with_future i (\<lambda>f s. (f\<lparr>held_ops := held_ops f @ [OpPending k]\<rparr>, s)) s"
| "do_act i (PollOp n) s =
     with_future i (\<lambda>f s.
       if n < length (held_ops f) then
         (let (p, x, c) = poll_op (TaskWaker i) (held_ops f ! n) (sched_channel s)
          in (f\<lparr>held_ops := (held_ops f)[n := x]\<rparr>, s\<lparr>sched_channel := c\<rparr>))
       else (f, s)) s"
| "do_act i (DropOp n) s =
     with_future i (\<lambda>f s.
       if n < length (held_ops f) then
         (f\<lparr>held_ops := remove_nth n (held_ops f)\<rparr>,
          s\<lparr>sched_channel := drop_op (held_ops f ! n) (sched_channel s)\<rparr>)
       else (f, s)) s"
| "do_act i (StartSleep d) s =
     with_future i (\<lambda>f s.
       (let (x, t, c) = sleep_new d (sched_timers s) (sched_channel s)
        in (f\<lparr>held_sleeps := held_sleeps f @ [x]\<rparr>, s\<lparr>sched_timers := t, sched_channel := c\<rparr>))) s"
| "do_act i (PollSleep n) s =
     with_future i (\<lambda>f s.
       if n < length (held_sleeps f) then
         (let (p, x, t) = sleep_poll (TaskWaker i) (held_sleeps f ! n) (sched_timers s)
          in (f\<lparr>held_sleeps := (held_sleeps f)[n := x]\<rparr>, s\<lparr>sched_timers := t\<rparr>))
       else (f, s)) s"
| "do_act i (DropSleep n) s =
     with_future i (\<lambda>f s.
       if n < length (held_sleeps f) then
         (f\<lparr>held_sleeps := remove_nth n (held_sleeps f)\<rparr>,
          s\<lparr>sched_timers := sleep_drop (held_sleeps f ! n) (sched_timers s)\<rparr>)
       else (f, s)) s"
| "do_act i (WakeTask j) s = wake (TaskWaker j) s"

type_synonym task_poll = "task_act list \<times> task_result poll"

section \<open>The scheduler loop\<close>

text \<open>\<open>poll_ready_tasks\<close>: the poll is given by what the task in the slot would do.\<close>

definition poll_ready_tasks :: "(nat \<Rightarrow> task_poll) \<Rightarrow> scheduler \<Rightarrow> bool \<times> scheduler" where
  "poll_ready_tasks does s =
     (case begin_poll s of
        (None, s) \<Rightarrow> (False, s)
      | (Some i, s) \<Rightarrow> (True, finish_poll i (snd (does i)) (fold (do_act i) (fst (does i)) s)))"

definition process_timers :: "scheduler \<Rightarrow> scheduler option" where
  "process_timers s =
     map_option (\<lambda>(ws, t, c). wake_all ws (s\<lparr>sched_timers := t, sched_channel := c\<rparr>))
       (timer_process (sched_timers s) (sched_channel s))"

definition has_ready_tasks :: "scheduler \<Rightarrow> bool" where
  "has_ready_tasks s = (ready_queue s \<noteq> [] \<or> spawn_queue s \<noteq> [])"

definition run_step :: "(nat \<Rightarrow> task_poll) \<Rightarrow> scheduler \<Rightarrow> (scheduler_state \<times> scheduler) option" where
  "run_step does s =
     (case process_timers s of
        None \<Rightarrow> None
      | Some s \<Rightarrow>
          (let (progress, s) = poll_ready_tasks does (process_spawn_queue s)
           in map_option (\<lambda>s.
                (if active_count s = 0 then AllDone
                 else if progress \<or> has_ready_tasks s then Progress else Blocked, s))
              (process_timers s)))"

text \<open>\<open>run\<close> goes on until the tasks are done or wait for the host, which they may never be; the list
  gives what the tasks do in each round.\<close>

fun run_loop :: "(nat \<Rightarrow> task_poll) list \<Rightarrow> scheduler \<Rightarrow> (scheduler_state \<times> scheduler) option" where
  "run_loop [] s = None"
| "run_loop (does # ds) s =
     (case run_step does s of
        None \<Rightarrow> None
      | Some (Progress, s) \<Rightarrow> run_loop ds s
      | Some (st, s) \<Rightarrow> Some (st, s))"

definition sched_run :: "(nat \<Rightarrow> task_poll) list \<Rightarrow> scheduler \<Rightarrow> (scheduler_state \<times> scheduler) option" where
  "sched_run ds s =
     map_option (\<lambda>(st, s'). (st, s'\<lparr>current_task := current_task s, current_root := current_root s,
         sched_channel := set_current_task (current_root s) (sched_channel s')\<rparr>))
       (run_loop ds s)"

text \<open>The walk up the parents, at most a hundred of them.\<close>

definition root_task_max_depth :: nat where
  "root_task_max_depth = 100"

fun root_walk :: "nat \<Rightarrow> task_id \<Rightarrow> scheduler \<Rightarrow> task_id option" where
  "root_walk 0 a s = None"
| "root_walk (Suc n) a s =
     (if length (tasks s) \<le> id_slot a \<or> generation_at s (id_slot a) \<noteq> id_gen a then None
      else (case task_at s (id_slot a) of
          None \<Rightarrow> None
        | Some t \<Rightarrow> (case task_parent t of None \<Rightarrow> Some a | Some p \<Rightarrow> root_walk n p s)))"

definition root_task :: "task_id \<Rightarrow> scheduler \<Rightarrow> task_id option" where
  "root_task a s = root_walk root_task_max_depth a s"

definition is_done :: "scheduler \<Rightarrow> bool" where
  "is_done s = (active_count s = 0)"

end
