(* ===== verification/SchedulerTree.thy ===== *)
theory SchedulerTree
  imports Scheduler
begin

text \<open>
  Cancellation of a tree of tasks. The recursion of \<open>cancel_task_internal\<close> ends the task and its
  descendants one by one, each after its children, and touches nothing else.
\<close>

section \<open>Live tasks and their descendants\<close>

definition live :: "scheduler \<Rightarrow> task_id \<Rightarrow> bool" where
  "live s a \<longleftrightarrow> generation_at s (id_slot a) = id_gen a \<and> task_at s (id_slot a) \<noteq> None"

definition the_task :: "scheduler \<Rightarrow> task_id \<Rightarrow> task" where
  "the_task s a = the (task_at s (id_slot a))"

definition kid :: "scheduler \<Rightarrow> task_id \<Rightarrow> task_id \<Rightarrow> bool" where
  "kid s a b \<longleftrightarrow> live s a \<and> live s b \<and> b \<in> set (task_children (the_task s a))"

definition subtree :: "scheduler \<Rightarrow> task_id set \<Rightarrow> task_id set" where
  "subtree s as = {b. \<exists>a \<in> as. live s a \<and> (kid s)\<^sup>*\<^sup>* a b}"

lemma task_id_eqI: "id_slot a = id_slot b \<Longrightarrow> id_gen a = id_gen b \<Longrightarrow> a = (b :: task_id)"
  by simp

lemma live_slot_inj: "live s a \<Longrightarrow> live s b \<Longrightarrow> id_slot a = id_slot b \<Longrightarrow> a = b"
  by (rule task_id_eqI) (auto simp: live_def)

lemma kid_live: "(kid s)\<^sup>*\<^sup>* a b \<Longrightarrow> live s a \<Longrightarrow> live s b"
  by (induction rule: rtranclp_induct) (auto simp: kid_def)

lemma subtree_live: "b \<in> subtree s as \<Longrightarrow> live s b"
  by (auto simp: subtree_def intro: kid_live)

lemma subtree_closed: "b \<in> subtree s as \<Longrightarrow> kid s b c \<Longrightarrow> c \<in> subtree s as"
  by (auto simp: subtree_def intro: rtranclp.rtrancl_into_rtrancl)

lemma subtree_path: "b \<in> subtree s as \<Longrightarrow> (kid s)\<^sup>*\<^sup>* b c \<Longrightarrow> c \<in> subtree s as"
  by (auto simp: subtree_def intro: rtranclp_trans)

lemma subtree_empty [simp]: "subtree s {} = {}"
  by (simp add: subtree_def)

lemma subtree_insert: "subtree s (insert a as) = subtree s {a} \<union> subtree s as"
  by (auto simp: subtree_def)

text \<open>Completion slots are given out in order, so that of a child is above that of its parent.\<close>

definition tree_ok :: "scheduler \<Rightarrow> bool" where
  "tree_ok s \<longleftrightarrow>
     length (generations s) = length (tasks s) \<and>
     (\<forall>a. live s a \<longrightarrow> task_slot (the_task s a) < length (completions s)) \<and>
     (\<forall>a b. live s a \<and> live s b \<and> task_slot (the_task s a) = task_slot (the_task s b) \<longrightarrow> a = b) \<and>
     (\<forall>a b. kid s a b \<longrightarrow> task_slot (the_task s a) < task_slot (the_task s b))"

lemma kid_above:
  assumes "(kid s)\<^sup>*\<^sup>* a b" "tree_ok s"
  shows "a = b \<or> task_slot (the_task s a) < task_slot (the_task s b)"
  using assms(1)
proof (induction rule: rtranclp_induct)
  case (step b c)
  have "task_slot (the_task s b) < task_slot (the_task s c)" using step(2) assms(2) by (simp add: tree_ok_def)
  with step(3) show ?case by auto
qed simp

section \<open>Ending one task\<close>

definition end_task :: "task_id \<Rightarrow> scheduler \<Rightarrow> scheduler" where
  "end_task a s =
     (let h = task_slot (the_task s a)
      in wake_all (take_waker (done_waker (completions s ! h)))
           (remove_task (id_slot a) (put_completion h (set_cancelled (completions s ! h)) s)))"

lemma wake_fields [simp]:
  "tasks (wake w s) = tasks s" "generations (wake w s) = generations s" "spawn_queue (wake w s) = spawn_queue s"
  "sched_channel (wake w s) = sched_channel s" "sched_timers (wake w s) = sched_timers s"
  "active_count (wake w s) = active_count s" "free_tasks (wake w s) = free_tasks s"
  "current_task (wake w s) = current_task s" "current_root (wake w s) = current_root s"
  "completions (wake w s) = completions s"
  by (cases w; simp)+

lemma wake_all_simps [simp]: "wake_all [] s = s" "wake_all (w # ws) s = wake_all ws (wake w s)"
  by (simp_all add: wake_all_def)

lemma wake_all_fields [simp]:
  "tasks (wake_all ws s) = tasks s" "generations (wake_all ws s) = generations s"
  "spawn_queue (wake_all ws s) = spawn_queue s" "sched_channel (wake_all ws s) = sched_channel s"
  "sched_timers (wake_all ws s) = sched_timers s" "active_count (wake_all ws s) = active_count s"
  "free_tasks (wake_all ws s) = free_tasks s" "current_task (wake_all ws s) = current_task s"
  "current_root (wake_all ws s) = current_root s" "completions (wake_all ws s) = completions s"
  by (induction ws arbitrary: s; simp)+

fun waker_slots :: "raw_waker list \<Rightarrow> nat list" where
  "waker_slots [] = []"
| "waker_slots (TaskWaker i # ws) = i # waker_slots ws"
| "waker_slots (NoopWaker # ws) = waker_slots ws"

lemma wake_all_queue [simp]: "ready_queue (wake_all ws s) = ready_queue s @ waker_slots ws"
proof (induction ws arbitrary: s)
  case (Cons w ws)
  then show ?case by (cases w) simp_all
qed simp

lemma wake_all_update: "wake_all ws s = s\<lparr>ready_queue := ready_queue s @ waker_slots ws\<rparr>"
  by (rule scheduler.equality) simp_all

lemma task_at_simps [simp]:
  "task_at (wake_all ws s) = task_at s" "task_at (put_completion h x s) = task_at s"
  "task_at (drop_future f s) = task_at s"
  "task_at (put_task i t s) j = (if j = i \<and> i < length (tasks s) then t else task_at s j)"
  by (auto simp: task_at_def put_completion_def drop_future_def put_task_def fun_eq_iff)

lemma remove_task_fields [simp]:
  "length (tasks (remove_task i s)) = length (tasks s)" "generations (remove_task i s) = generations s"
  "spawn_queue (remove_task i s) = spawn_queue s" "completions (remove_task i s) = completions s"
  "current_task (remove_task i s) = current_task s" "current_root (remove_task i s) = current_root s"
  "ready_queue (remove_task i s) = ready_queue s"
  by (auto simp: remove_task_def drop_future_def put_task_def split: option.splits)

lemma task_at_remove [simp]: "task_at (remove_task i s) j = (if j = i then None else task_at s j)"
  by (auto simp: remove_task_def split: option.splits)
    (auto simp: task_at_def put_task_def split: if_splits)

lemma task_at_beyond: "task_at s i = Some t \<Longrightarrow> i < length (tasks s)"
  by (simp add: task_at_def split: if_splits)

lemma end_task_fields [simp]:
  "length (tasks (end_task a s)) = length (tasks s)" "generations (end_task a s) = generations s"
  "spawn_queue (end_task a s) = spawn_queue s" "length (completions (end_task a s)) = length (completions s)"
  "current_task (end_task a s) = current_task s" "current_root (end_task a s) = current_root s"
  by (simp_all add: end_task_def Let_def put_completion_def)

lemma generation_at_end [simp]: "generation_at (end_task a s) = generation_at s"
  by (simp add: generation_at_def fun_eq_iff)

lemma task_at_end [simp]: "task_at (end_task a s) j = (if j = id_slot a then None else task_at s j)"
  by (simp add: end_task_def Let_def)

lemma live_end [simp]: "live (end_task a s) b \<longleftrightarrow> live s b \<and> id_slot b \<noteq> id_slot a"
  by (auto simp: live_def)

lemma the_task_end [simp]: "id_slot b \<noteq> id_slot a \<Longrightarrow> the_task (end_task a s) b = the_task s b"
  by (simp add: the_task_def)

lemma completions_end:
  "completions (end_task a s) =
     (completions s)[task_slot (the_task s a) := set_cancelled (completions s ! task_slot (the_task s a))]"
  by (simp add: end_task_def Let_def put_completion_def)

lemma kid_end [simp]:
  "live s a \<Longrightarrow> kid (end_task a s) b c \<longleftrightarrow> kid s b c \<and> b \<noteq> a \<and> c \<noteq> a"
  using live_slot_inj [of s] by (auto simp: kid_def the_task_def)

lemma tree_ok_end:
  assumes "tree_ok s"
  shows "tree_ok (end_task a s)"
  using assms by (auto simp: tree_ok_def kid_def)

section \<open>Ending a list of tasks\<close>

lemma fold_end_live:
  "live (fold end_task xs s) b \<longleftrightarrow> live s b \<and> id_slot b \<notin> id_slot ` set xs"
  by (induction xs arbitrary: s) auto

lemma fold_end_live_ids:
  "(\<forall>x \<in> set xs. live s x) \<Longrightarrow> live (fold end_task xs s) b \<longleftrightarrow> live s b \<and> b \<notin> set xs"
  using live_slot_inj [of s b] by (auto simp: fold_end_live)

lemma fold_end_at: "task_at (fold end_task xs s) i = (if i \<in> id_slot ` set xs then None else task_at s i)"
  by (induction xs arbitrary: s) auto

lemma fold_end_fields [simp]:
  "length (tasks (fold end_task xs s)) = length (tasks s)"
  "generations (fold end_task xs s) = generations s"
  "spawn_queue (fold end_task xs s) = spawn_queue s"
  "length (completions (fold end_task xs s)) = length (completions s)"
  "current_task (fold end_task xs s) = current_task s"
  "current_root (fold end_task xs s) = current_root s"
  by (induction xs arbitrary: s; simp)+

lemma fold_end_task: "live (fold end_task xs s) b \<Longrightarrow> the_task (fold end_task xs s) b = the_task s b"
  unfolding fold_end_live by (simp add: the_task_def fold_end_at)

lemma fold_end_kid:
  assumes "\<forall>x \<in> set xs. live s x"
  shows "kid (fold end_task xs s) b c \<longleftrightarrow> kid s b c \<and> b \<notin> set xs \<and> c \<notin> set xs"
  using fold_end_task [of xs s b] by (auto simp: kid_def fold_end_live_ids [OF assms])

lemma fold_end_tree_ok: "tree_ok s \<Longrightarrow> tree_ok (fold end_task xs s)"
  by (induction xs arbitrary: s) (simp_all add: tree_ok_end)

text \<open>Without the descendants of some tasks, the others keep theirs.\<close>

lemma subtree_rest:
  assumes "set xs = subtree s as"
  shows "subtree s (as \<union> bs) = subtree s as \<union> subtree (fold end_task xs s) bs"
proof -
  have live: "\<forall>x \<in> set xs. live s x" using assms subtree_live by blast
  note facts = fold_end_kid [OF live] fold_end_live_ids [OF live]
  have "c \<in> set xs \<or> (kid (fold end_task xs s))\<^sup>*\<^sup>* b c" if "(kid s)\<^sup>*\<^sup>* b c" "b \<notin> set xs" for b c
    using that
  proof (induction rule: rtranclp_induct)
    case (step c d)
    from step(3) [OF step(4)] show ?case
    proof
      assume "c \<in> set xs"
      with step(2) assms subtree_closed [of c s as d] show ?thesis by simp
    next
      assume path: "(kid (fold end_task xs s))\<^sup>*\<^sup>* b c"
      show ?thesis
      proof (cases "d \<in> set xs \<or> c \<in> set xs")
        case True
        with step(2) assms subtree_closed [of c s as d] show ?thesis by auto
      next
        case False
        with step(2) have "kid (fold end_task xs s) c d" by (simp add: facts)
        with path show ?thesis by (blast intro: rtranclp.rtrancl_into_rtrancl)
      qed
    qed
  qed simp
  then have paths: "c \<in> set xs \<or> (kid (fold end_task xs s))\<^sup>*\<^sup>* b c" if "(kid s)\<^sup>*\<^sup>* b c" for b c
    using that subtree_path [of b s as c] assms by blast
  have "subtree s bs \<subseteq> set xs \<union> subtree (fold end_task xs s) bs"
  proof
    fix c
    assume c: "c \<in> subtree s bs"
    then obtain b where b: "b \<in> bs" "live s b" "(kid s)\<^sup>*\<^sup>* b c" by (auto simp: subtree_def)
    show "c \<in> set xs \<union> subtree (fold end_task xs s) bs"
    proof (cases "b \<in> set xs")
      case True
      with b(3) subtree_path [of b s as c] assms show ?thesis by simp
    next
      case False
      with b(2) have "live (fold end_task xs s) b" by (simp add: facts)
      with paths [OF b(3)] b(1) show ?thesis by (auto simp: subtree_def)
    qed
  qed
  moreover have "(kid s)\<^sup>*\<^sup>* b c" if "(kid (fold end_task xs s))\<^sup>*\<^sup>* b c" for b c
    using that by (rule rtranclp_mono [THEN predicate2D, rotated]) (auto simp: facts)
  then have "subtree (fold end_task xs s) bs \<subseteq> subtree s bs"
    unfolding subtree_def facts by blast
  moreover have "subtree s (as \<union> bs) = subtree s as \<union> subtree s bs" by (auto simp: subtree_def)
  ultimately show ?thesis using assms by blast
qed

section \<open>The recursion\<close>

lemma begin_cancel_fields [simp]:
  "length (tasks (begin_cancel i t s)) = length (tasks s)" "generations (begin_cancel i t s) = generations s"
  "length (completions (begin_cancel i t s)) = length (completions s)"
  "task_at (begin_cancel i t s) j =
     (if j = i \<and> i < length (tasks s) then Some (t\<lparr>task_children := []\<rparr>) else task_at s j)"
  by (simp_all add: begin_cancel_def put_completion_def put_task_def) 
    (simp add: task_at_def)

lemma begin_cancel_facts:
  assumes "live s a"
  shows "live (begin_cancel (id_slot a) (the_task s a) s) b \<longleftrightarrow> live s b"
    and "task_slot (the_task (begin_cancel (id_slot a) (the_task s a) s) b) = task_slot (the_task s b)"
    and "kid (begin_cancel (id_slot a) (the_task s a) s) b c \<longleftrightarrow> kid s b c \<and> b \<noteq> a"
proof -
  have len: "id_slot a < length (tasks s)" using assms task_at_beyond by (auto simp: live_def)
  show l: "live (begin_cancel (id_slot a) (the_task s a) s) b \<longleftrightarrow> live s b" for b
    using assms len by (auto simp: live_def generation_at_def)
  show "task_slot (the_task (begin_cancel (id_slot a) (the_task s a) s) b) = task_slot (the_task s b)"
    using len by (simp add: the_task_def)
  show "kid (begin_cancel (id_slot a) (the_task s a) s) b c \<longleftrightarrow> kid s b c \<and> b \<noteq> a"
    using len live_slot_inj [OF assms, of b] unfolding kid_def l by (auto simp: the_task_def)
qed

lemma begin_cancel_tree_ok:
  assumes "tree_ok s" "live s a"
  shows "tree_ok (begin_cancel (id_slot a) (the_task s a) s)"
  using assms(1) unfolding tree_ok_def begin_cancel_facts [OF assms(2)] by auto

text \<open>Ending another task commutes with the first half of a cancellation.\<close>

lemma remove_begin_cancel:
  assumes "i \<noteq> j"
  shows "remove_task j (begin_cancel i t s) = begin_cancel i t (remove_task j s)"
proof (cases "task_at s j")
  case None
  with assms show ?thesis by (simp add: remove_task_def)
next
  case (Some u)
  with assms show ?thesis
    by (simp add: remove_task_def) (simp add: begin_cancel_def put_task_def put_completion_def drop_future_def
        list_update_swap)
qed

lemma end_begin_cancel:
  assumes "id_slot b \<noteq> i" "task_slot (the_task s b) \<noteq> task_slot t" "task_at s i \<noteq> None"
  shows "end_task b (begin_cancel i t s) = begin_cancel i t (end_task b s)"
proof -
  define h where "h = task_slot (the_task s b)"
  define x where "x = completions s ! h"
  have i: "i < length (tasks s)" using assms(3) task_at_beyond by blast
  have same: "the_task (begin_cancel i t s) b = the_task s b" using assms(1) by (simp add: the_task_def)
  have x': "completions (begin_cancel i t s) ! h = x"
    using assms(2) by (simp add: begin_cancel_def put_completion_def put_task_def x_def h_def)
  have "put_completion h (set_cancelled x) (begin_cancel i t s) =
      begin_cancel i t (put_completion h (set_cancelled x) s)"
    using assms(2) by (simp add: begin_cancel_def put_completion_def put_task_def h_def list_update_swap)
  then have "end_task b (begin_cancel i t s) = wake_all (take_waker (done_waker x))
      (begin_cancel i t (remove_task (id_slot b) (put_completion h (set_cancelled x) s)))"
    unfolding end_task_def same h_def [symmetric] x' Let_def by (simp add: remove_begin_cancel [OF assms(1) [symmetric]])
  also have "\<dots> = begin_cancel i t (end_task b s)"
    unfolding end_task_def h_def [symmetric] x_def [symmetric] Let_def
    by (simp add: wake_all_update begin_cancel_def put_completion_def put_task_def)
  finally show ?thesis .
qed

lemma fold_end_begin_cancel:
  assumes "tree_ok s" "live s a" "\<forall>x \<in> set xs. live s x" "a \<notin> set xs" "distinct xs"
  shows "fold end_task xs (begin_cancel (id_slot a) (the_task s a) s) =
    begin_cancel (id_slot a) (the_task s a) (fold end_task xs s)"
  using assms
proof (induction xs arbitrary: s)
  case (Cons x xs)
  have slots: "id_slot x \<noteq> id_slot a" using Cons.prems live_slot_inj [of s x a] by auto
  have "task_slot (the_task s x) \<noteq> task_slot (the_task s a)" using Cons.prems by (auto simp: tree_ok_def)
  with slots Cons.prems(2) have one: "end_task x (begin_cancel (id_slot a) (the_task s a) s) =
      begin_cancel (id_slot a) (the_task s a) (end_task x s)"
    by (intro end_begin_cancel) (auto simp: live_def)
  have rest: "\<forall>y \<in> set xs. live (end_task x s) y"
    using Cons.prems(3,5) live_slot_inj [of s x] by (metis distinct.simps(2) list.set_intros live_end)
  have "the_task (end_task x s) a = the_task s a" "live (end_task x s) a" using slots Cons.prems(2) by simp_all
  with Cons.IH [of "end_task x s"] Cons.prems rest one tree_ok_end show ?case by simp
qed simp

lemma cancel_last:
  assumes "live s a"
  shows "wake_all (take_waker (done_waker (completions s ! task_slot (the_task s a))))
      (remove_task (id_slot a) (begin_cancel (id_slot a) (the_task s a) s)) = end_task a s"
proof -
  obtain t where t: "task_at s (id_slot a) = Some t" "the_task s a = t"
    using assms by (auto simp: live_def the_task_def)
  with task_at_beyond [OF t(1)] show ?thesis
    by (simp add: end_task_def remove_task_def)
      (simp add: begin_cancel_def put_task_def put_completion_def drop_future_def Let_def)
qed

text \<open>The order: a task comes after its children.\<close>

definition children_first :: "scheduler \<Rightarrow> task_id list \<Rightarrow> bool" where
  "children_first s xs \<longleftrightarrow> (\<forall>ys a zs. xs = ys @ a # zs \<longrightarrow> (\<forall>b. kid s a b \<longrightarrow> b \<in> set ys))"

lemma children_first_snoc:
  assumes "children_first s xs" "\<And>b. kid s a b \<Longrightarrow> b \<in> set xs"
  shows "children_first s (xs @ [a])"
  using assms unfolding children_first_def
  by (metis append_Cons append_Nil2 append_eq_append_conv2 append_is_Nil_conv butlast.simps(2) butlast_append
      last_append last_snoc list.distinct(1))

lemma subtree_begin_cancel:
  assumes "tree_ok s" "live s a"
  shows "subtree s {a} =
    insert a (subtree (begin_cancel (id_slot a) (the_task s a) s) (set (task_children (the_task s a))))"
proof -
  let ?s = "begin_cancel (id_slot a) (the_task s a) s"
  note facts = begin_cancel_facts [OF assms(2)]
  have down: "(kid ?s)\<^sup>*\<^sup>* b c \<Longrightarrow> (kid s)\<^sup>*\<^sup>* b c" for b c
    by (rule rtranclp_mono [THEN predicate2D, rotated]) (auto simp: facts)
  have up: "(kid ?s)\<^sup>*\<^sup>* b c" if "(kid s)\<^sup>*\<^sup>* b c" "task_slot (the_task s a) < task_slot (the_task s b)" for b c
    using that(1)
  proof (induction rule: rtranclp_induct)
    case (step c d)
    have "a \<noteq> c" using kid_above [OF step(1) assms(1)] that(2) by auto
    with step(2,3) show ?case by (auto simp: facts intro: rtranclp.rtrancl_into_rtrancl)
  qed simp
  have "c = a \<or> c \<in> subtree ?s (set (task_children (the_task s a)))" if "(kid s)\<^sup>*\<^sup>* a c" for c
    using that
  proof (cases rule: converse_rtranclpE)
    case (step b)
    then have "task_slot (the_task s a) < task_slot (the_task s b)" using assms(1) by (simp add: tree_ok_def)
    with step up [of b c] show ?thesis by (auto simp: subtree_def facts kid_def)
  qed simp
  moreover have "(kid s)\<^sup>*\<^sup>* a c" if "c \<in> subtree ?s (set (task_children (the_task s a)))" for c
    using that down assms(2) by (auto simp: subtree_def facts kid_def intro: converse_rtranclp_into_rtranclp)
  ultimately show ?thesis using assms(2) unfolding subtree_def [of s "{a}"] by auto
qed

lemma nth_update: "j < length xs \<Longrightarrow> xs[i := x] ! j = (if i = j then x else xs ! j)"
  by auto

lemma completions_fold_end:
  assumes "\<forall>x \<in> set xs. live s x" "distinct xs" "h < length (completions s)"
  shows "completions (fold end_task xs s) ! h =
    (if h \<in> (\<lambda>x. task_slot (the_task s x)) ` set xs then set_cancelled (completions s ! h) else completions s ! h)"
  using assms
proof (induction xs arbitrary: s)
  case (Cons x xs)
  have rest: "\<forall>y \<in> set xs. live (end_task x s) y \<and> the_task (end_task x s) y = the_task s y"
    using Cons.prems(1,2) live_slot_inj [of s x] by (metis distinct.simps(2) list.set_intros live_end the_task_end)
  have twice: "set_cancelled (set_cancelled c) = set_cancelled c" for c
    by (simp add: set_cancelled_def split: option.split)
  have "(\<lambda>y. task_slot (the_task (end_task x s) y)) ` set xs = (\<lambda>y. task_slot (the_task s y)) ` set xs"
    using rest by (auto intro!: image_cong)
  with Cons.IH [of "end_task x s"] rest Cons.prems(2,3) show ?case
    by (auto simp: completions_end nth_update twice)
qed simp

text \<open>Cancelling is ending the subtree.\<close>

lemma cancel_live:
  assumes ok: "tree_ok s" and l: "live s a"
    and xs: "distinct xs" "children_first (begin_cancel (id_slot a) (the_task s a) s) xs"
      "set xs = subtree (begin_cancel (id_slot a) (the_task s a) s) (set (task_children (the_task s a)))"
      "cancel_children (task_children (the_task s a)) (begin_cancel (id_slot a) (the_task s a) s) =
        fold end_task xs (begin_cancel (id_slot a) (the_task s a) s)"
  shows "distinct (xs @ [a]) \<and> set (xs @ [a]) = subtree s {a} \<and> children_first s (xs @ [a]) \<and>
    cancel_task_internal a s = fold end_task (xs @ [a]) s"
proof -
  let ?s = "begin_cancel (id_slot a) (the_task s a) s"
  note facts = begin_cancel_facts [OF l]
  have sub: "subtree s {a} = insert a (set xs)" using subtree_begin_cancel [OF ok l] xs(3) by simp
  have lives: "\<forall>x \<in> set xs. live s x" using sub subtree_live [of _ s "{a}"] by auto
  have above: "task_slot (the_task s a) < task_slot (the_task s x)" if x: "x \<in> set xs" for x
  proof -
    from x xs(3) obtain c where c: "c \<in> set (task_children (the_task s a))" "live s c" "(kid ?s)\<^sup>*\<^sup>* c x"
      by (auto simp: subtree_def facts)
    have "kid s a c" using c(1,2) l by (simp add: kid_def)
    then have "task_slot (the_task s a) < task_slot (the_task s c)" using ok by (simp add: tree_ok_def)
    with kid_above [OF c(3) begin_cancel_tree_ok [OF ok l]] show ?thesis unfolding facts by auto
  qed
  have a: "a \<notin> set xs" using above by blast
  have d: "distinct (xs @ [a])" using xs(1) a by simp
  have kids: "b \<in> set xs" if "kid s a b" for b
    using that sub subtree_closed [of a s "{a}" b] l above ok by (auto simp: subtree_def tree_ok_def)
  have "children_first s xs"
    unfolding children_first_def
  proof (intro allI impI)
    fix ys b zs c
    assume split: "xs = ys @ b # zs" and k: "kid s b c"
    then have "kid ?s b c" using a by (auto simp: facts)
    with split xs(2) show "c \<in> set ys" unfolding children_first_def by blast
  qed
  then have first: "children_first s (xs @ [a])" using kids by (rule children_first_snoc)
  define s1 where "s1 = fold end_task xs s"
  have l1: "live s1 a" using l a by (simp add: s1_def fold_end_live_ids [OF lives])
  have t1: "the_task s1 a = the_task s a" using l1 unfolding s1_def by (rule fold_end_task)
  have "task_slot (the_task s a) < length (completions s)" using ok l by (simp add: tree_ok_def)
  then have c1: "completions s1 ! task_slot (the_task s a) = completions s ! task_slot (the_task s a)"
    using completions_fold_end [OF lives xs(1)] above unfolding s1_def by fastforce
  obtain t where t: "task_at s (id_slot a) = Some t" "the_task s a = t"
    using l by (auto simp: live_def the_task_def)
  have "cancel_task_internal a s = wake_all (take_waker (done_waker (completions s ! task_slot t)))
      (remove_task (id_slot a) (cancel_children (task_children t) (begin_cancel (id_slot a) t s)))"
    using l t by (subst cancel_task_internal.simps) (simp add: live_def)
  also have "cancel_children (task_children t) (begin_cancel (id_slot a) t s) = begin_cancel (id_slot a) t s1"
    using fold_end_begin_cancel [OF ok l lives a xs(1)] xs(4) t(2) by (simp add: s1_def)
  also have "wake_all (take_waker (done_waker (completions s ! task_slot t)))
      (remove_task (id_slot a) (begin_cancel (id_slot a) t s1)) = end_task a s1"
    using cancel_last [OF l1] c1 t1 t(2) by simp
  finally show ?thesis using d sub first by (simp add: s1_def)
qed

lemma cancel_list:
  assumes xs: "distinct xs" "set xs = subtree s {a}" "children_first s xs"
    and ys: "distinct ys" "set ys = subtree (fold end_task xs s) (set as)" "children_first (fold end_task xs s) ys"
  shows "distinct (xs @ ys) \<and> set (xs @ ys) = subtree s (set (a # as)) \<and> children_first s (xs @ ys)"
proof -
  have lives: "\<forall>x \<in> set xs. live s x" using xs(2) subtree_live by blast
  note facts = fold_end_kid [OF lives] fold_end_live_ids [OF lives]
  have apart: "y \<notin> set xs" if "y \<in> set ys" for y
    using that ys(2) subtree_live [of y "fold end_task xs s"] by (simp add: facts)
  have "children_first s (xs @ ys)"
    unfolding children_first_def
  proof (intro allI impI)
    fix us b vs c
    assume split: "xs @ ys = us @ b # vs" and k: "kid s b c"
    from split consider ws where "xs = us @ b # ws" | ws where "us = xs @ ws" "ys = ws @ b # vs"
      by (auto simp: append_eq_append_conv2 append_eq_Cons_conv)
    then show "c \<in> set us"
    proof cases
      case 1
      with xs(3) k show ?thesis unfolding children_first_def by blast
    next
      case (2 ws)
      show ?thesis
      proof (cases "c \<in> set xs")
        case False
        have "b \<notin> set xs" using apart 2(2) by simp
        with False k have "kid (fold end_task xs s) b c" by (simp add: facts)
        with ys(3) 2 show ?thesis unfolding children_first_def by auto
      qed (use 2 in simp)
    qed
  qed
  moreover have "set (xs @ ys) = subtree s (set (a # as))"
    using subtree_rest [OF xs(2), of "set as"] xs(2) ys(2) by simp
  moreover have "distinct (xs @ ys)" using xs(1) ys(1) apart by auto
  ultimately show ?thesis by blast
qed

lemma cancel_ends:
  "tree_ok s \<Longrightarrow> \<exists>xs. distinct xs \<and> set xs = subtree s {a} \<and> children_first s xs \<and>
     cancel_task_internal a s = fold end_task xs s"
  "tree_ok s \<Longrightarrow> \<exists>xs. distinct xs \<and> set xs = subtree s (set as) \<and> children_first s xs \<and>
     cancel_children as s = fold end_task xs s"
proof (induction a s and as s rule: cancel_task_internal_cancel_children.induct)
  case (1 a s)
  show ?case
  proof (cases "live s a")
    case True
    then have t: "task_at s (id_slot a) = Some (the_task s a)" "\<not> generation_at s (id_slot a) \<noteq> id_gen a"
      by (auto simp: live_def the_task_def)
    from 1(1) [OF t(2,1) begin_cancel_tree_ok [OF 1(2) True]] show ?thesis
      using cancel_live [OF 1(2) True] by blast
  next
    case False
    then have "subtree s {a} = {}" "cancel_task_internal a s = s"
      by (auto simp: subtree_def live_def cancel_task_internal.simps)
    then show ?thesis by (intro exI [of _ "[]"]) (simp add: children_first_def)
  qed
next
  case (2 s)
  show ?case by (intro exI [of _ "[]"]) (simp add: children_first_def)
next
  case (3 a as s)
  from 3(1,3) obtain xs where xs: "distinct xs" "set xs = subtree s {a}" "children_first s xs"
    "cancel_task_internal a s = fold end_task xs s" by blast
  with 3(2,3) fold_end_tree_ok obtain ys where ys: "distinct ys"
    "set ys = subtree (fold end_task xs s) (set as)" "children_first (fold end_task xs s) ys"
    "cancel_children as (fold end_task xs s) = fold end_task ys (fold end_task xs s)" by metis
  from cancel_list [OF xs(1-3) ys(1-3)] xs(4) ys(4) show ?case by (intro exI [of _ "xs @ ys"]) simp
qed

end
