(* ===== verification/SchedulerInv.thy ===== *)
theory SchedulerInv
  imports SchedulerTree TimerSafe
begin

text \<open>
  The invariant of the scheduler: the free list is the list of empty slots and the counter that of
  the occupied ones, every task that exists or is queued has a completion slot of its own without a
  result, the lists of children and the links to parents agree, and all tasks below one share its root.
\<close>

section \<open>The invariant\<close>

definition id_at :: "scheduler \<Rightarrow> nat \<Rightarrow> task_id" where
  "id_at s i = \<lparr>id_slot = i, id_gen = generation_at s i\<rparr>"

definition issued :: "scheduler \<Rightarrow> task_id \<Rightarrow> bool" where
  "issued s a \<longleftrightarrow> id_slot a < length (tasks s) \<and> id_gen a \<le> generation_at s (id_slot a)"

definition occupied :: "scheduler \<Rightarrow> nat set" where
  "occupied s = {i. task_at s i \<noteq> None}"

definition slots_fine :: "scheduler \<Rightarrow> bool" where
  "slots_fine s \<longleftrightarrow> length (generations s) = length (tasks s) \<and> distinct (free_tasks s) \<and>
     set (free_tasks s) = {..<length (tasks s)} - occupied s \<and> active_count s = card (occupied s)"

text \<open>The set \<open>A\<close> holds a task that is about to end: it may have a result and be off its parent's list.\<close>

definition completions_fine :: "task_id set \<Rightarrow> scheduler \<Rightarrow> bool" where
  "completions_fine A s \<longleftrightarrow>
     (\<forall>a. live s a \<longrightarrow> task_slot (the_task s a) < length (completions s) \<and>
        done_task (completions s ! task_slot (the_task s a)) = Some a \<and>
        (a \<in> A \<or> done_result (completions s ! task_slot (the_task s a)) = None)) \<and>
     (\<forall>t \<in> set (spawn_queue s). task_slot t < length (completions s) \<and>
        done_task (completions s ! task_slot t) = None \<and> done_result (completions s ! task_slot t) = None) \<and>
     distinct (map task_slot (spawn_queue s)) \<and>
     (\<forall>h a. h < length (completions s) \<and> done_task (completions s ! h) = Some a \<longrightarrow> issued s a)"

definition parent_fine :: "scheduler \<Rightarrow> task \<Rightarrow> bool" where
  "parent_fine s t \<longleftrightarrow> (\<forall>p. task_parent t = Some p \<longrightarrow>
     issued s p \<and> (live s p \<longrightarrow> task_slot (the_task s p) < task_slot t))"

definition family_fine :: "task_id set \<Rightarrow> scheduler \<Rightarrow> bool" where
  "family_fine A s \<longleftrightarrow>
     (\<forall>a c. live s a \<and> c \<in> set (task_children (the_task s a)) \<longrightarrow>
        live s c \<and> task_parent (the_task s c) = Some a) \<and>
     (\<forall>a. live s a \<longrightarrow> distinct (task_children (the_task s a)) \<and> parent_fine s (the_task s a)) \<and>
     (\<forall>a p. live s a \<and> task_parent (the_task s a) = Some p \<and> live s p \<and> a \<notin> A \<longrightarrow>
        a \<in> set (task_children (the_task s p))) \<and>
     (\<forall>t \<in> set (spawn_queue s). parent_fine s t \<and> task_children t = []) \<and>
     (\<forall>a. current_task s = Some a \<longrightarrow> issued s a)"

definition root_fine :: "scheduler \<Rightarrow> bool" where
  "root_fine s \<longleftrightarrow>
     (\<forall>a. live s a \<longrightarrow> task_root (the_task s a) \<noteq> None \<and>
        (task_parent (the_task s a) = None \<longrightarrow> task_root (the_task s a) = Some a) \<and>
        (\<forall>p. task_parent (the_task s a) = Some p \<and> live s p \<longrightarrow>
           task_root (the_task s a) = task_root (the_task s p))) \<and>
     (\<forall>t \<in> set (spawn_queue s). (task_root t = None \<longleftrightarrow> task_parent t = None) \<and>
        (\<forall>p. task_parent t = Some p \<and> live s p \<longrightarrow> task_root t = task_root (the_task s p))) \<and>
     (current_root s = None \<longleftrightarrow> current_task s = None) \<and>
     (\<forall>a. current_task s = Some a \<and> live s a \<longrightarrow> current_root s = task_root (the_task s a)) \<and>
     chan_task (sched_channel s) = current_root s"

definition sched_ok_but :: "task_id set \<Rightarrow> scheduler \<Rightarrow> bool" where
  "sched_ok_but A s \<longleftrightarrow> slots_fine s \<and> completions_fine A s \<and> family_fine A s \<and> root_fine s"

abbreviation sched_ok :: "scheduler \<Rightarrow> bool" where
  "sched_ok \<equiv> sched_ok_but {}"

lemmas fine_defs = completions_fine_def family_fine_def root_fine_def parent_fine_def

lemma id_at_simps [simp]: "id_slot (id_at s i) = i" "id_gen (id_at s i) = generation_at s i"
  by (simp_all add: id_at_def)

lemma live_id_at: "live s (id_at s i) \<longleftrightarrow> task_at s i \<noteq> None"
  by (simp add: live_def)

lemma the_task_id_at: "task_at s i = Some t \<Longrightarrow> the_task s (id_at s i) = t"
  by (simp add: the_task_def)

lemma live_at: "live s a \<Longrightarrow> task_at s (id_slot a) = Some (the_task s a)"
  by (auto simp: live_def the_task_def)

lemma live_is_at: "live s a \<Longrightarrow> a = id_at s (id_slot a)"
  by (rule task_id_eqI) (simp_all add: live_def)

lemma live_issued: "live s a \<Longrightarrow> issued s a"
  using task_at_beyond [OF live_at] by (auto simp: issued_def live_def)

lemma sched_new_ok: "sched_ok (scheduler_new n)"
  by (simp add: sched_ok_but_def slots_fine_def fine_defs scheduler_new_def live_def task_at_def channel_new_def occupied_def)

lemma ok_slots: "sched_ok_but A s \<Longrightarrow> slots_fine s"
  by (simp add: sched_ok_but_def)

lemma ok_lengths: "sched_ok_but A s \<Longrightarrow> length (generations s) = length (tasks s)"
  by (simp add: sched_ok_but_def slots_fine_def)

lemma ok_completion:
  "sched_ok_but A s \<Longrightarrow> live s a \<Longrightarrow> task_slot (the_task s a) < length (completions s)"
  "sched_ok_but A s \<Longrightarrow> live s a \<Longrightarrow> done_task (completions s ! task_slot (the_task s a)) = Some a"
  "sched_ok_but A s \<Longrightarrow> live s a \<Longrightarrow> a \<notin> A \<Longrightarrow> done_result (completions s ! task_slot (the_task s a)) = None"
  unfolding sched_ok_but_def completions_fine_def by blast+

lemma ok_queued:
  "sched_ok_but A s \<Longrightarrow> t \<in> set (spawn_queue s) \<Longrightarrow> task_slot t < length (completions s)"
  "sched_ok_but A s \<Longrightarrow> t \<in> set (spawn_queue s) \<Longrightarrow> done_task (completions s ! task_slot t) = None"
  "sched_ok_but A s \<Longrightarrow> t \<in> set (spawn_queue s) \<Longrightarrow> done_result (completions s ! task_slot t) = None"
  "sched_ok_but A s \<Longrightarrow> t \<in> set (spawn_queue s) \<Longrightarrow> parent_fine s t"
  "sched_ok_but A s \<Longrightarrow> distinct (map task_slot (spawn_queue s))"
  "sched_ok_but A s \<Longrightarrow> t \<in> set (spawn_queue s) \<Longrightarrow> task_children t = []"
  unfolding sched_ok_but_def completions_fine_def family_fine_def by blast+

lemma ok_child:
  "sched_ok_but A s \<Longrightarrow> live s a \<Longrightarrow> c \<in> set (task_children (the_task s a)) \<Longrightarrow>
     live s c \<and> task_parent (the_task s c) = Some a"
  "sched_ok_but A s \<Longrightarrow> live s a \<Longrightarrow> distinct (task_children (the_task s a))"
  "sched_ok_but A s \<Longrightarrow> live s a \<Longrightarrow> parent_fine s (the_task s a)"
  "sched_ok_but A s \<Longrightarrow> live s a \<Longrightarrow> task_parent (the_task s a) = Some p \<Longrightarrow> live s p \<Longrightarrow> a \<notin> A \<Longrightarrow>
     a \<in> set (task_children (the_task s p))"
  unfolding sched_ok_but_def family_fine_def by blast+

lemma ok_issued:
  "sched_ok_but A s \<Longrightarrow> h < length (completions s) \<Longrightarrow> done_task (completions s ! h) = Some a \<Longrightarrow> issued s a"
  "sched_ok_but A s \<Longrightarrow> current_task s = Some a \<Longrightarrow> issued s a"
  unfolding sched_ok_but_def completions_fine_def family_fine_def by blast+

lemma ok_root:
  "sched_ok_but A s \<Longrightarrow> live s a \<Longrightarrow> task_root (the_task s a) \<noteq> None"
  "sched_ok_but A s \<Longrightarrow> live s a \<Longrightarrow> task_parent (the_task s a) = None \<Longrightarrow> task_root (the_task s a) = Some a"
  "sched_ok_but A s \<Longrightarrow> live s a \<Longrightarrow> task_parent (the_task s a) = Some p \<Longrightarrow> live s p \<Longrightarrow>
     task_root (the_task s a) = task_root (the_task s p)"
  "sched_ok_but A s \<Longrightarrow> t \<in> set (spawn_queue s) \<Longrightarrow> task_root t = None \<longleftrightarrow> task_parent t = None"
  "sched_ok_but A s \<Longrightarrow> t \<in> set (spawn_queue s) \<Longrightarrow> task_parent t = Some p \<Longrightarrow> live s p \<Longrightarrow>
     task_root t = task_root (the_task s p)"
  "sched_ok_but A s \<Longrightarrow> current_root s = None \<longleftrightarrow> current_task s = None"
  "sched_ok_but A s \<Longrightarrow> current_task s = Some a \<Longrightarrow> live s a \<Longrightarrow> current_root s = task_root (the_task s a)"
  "sched_ok_but A s \<Longrightarrow> chan_task (sched_channel s) = current_root s"
  unfolding sched_ok_but_def root_fine_def by blast+

lemma ok_tree_ok:
  assumes "sched_ok_but A s"
  shows "tree_ok s"
  unfolding tree_ok_def
proof (intro conjI allI impI; (elim conjE)?)
  show "length (generations s) = length (tasks s)" using assms by (rule ok_lengths)
  show "task_slot (the_task s a) < length (completions s)" if "live s a" for a
    using ok_completion(1) [OF assms that] .
  show "a = b" if "live s a" "live s b" "task_slot (the_task s a) = task_slot (the_task s b)" for a b
    using ok_completion(2) [OF assms that(1)] ok_completion(2) [OF assms that(2)] that(3) by (metis option.inject)
  show "task_slot (the_task s a) < task_slot (the_task s b)" if "kid s a b" for a b
  proof -
    have "live s a" "live s b" "b \<in> set (task_children (the_task s a))" using that by (simp_all add: kid_def)
    then have "task_parent (the_task s b) = Some a" "parent_fine s (the_task s b)"
      using ok_child(1,3) [OF assms] by blast+
    with \<open>live s a\<close> show ?thesis by (simp add: parent_fine_def)
  qed
qed

section \<open>Steps that leave the tasks alone\<close>

definition same_task :: "task \<Rightarrow> task \<Rightarrow> bool" where
  "same_task t t' \<longleftrightarrow> task_slot t' = task_slot t \<and> task_parent t' = task_parent t \<and> task_root t' = task_root t \<and>
     task_children t' = task_children t"

definition same_frame :: "scheduler \<Rightarrow> scheduler \<Rightarrow> bool" where
  "same_frame s s' \<longleftrightarrow> generations s' = generations s \<and> free_tasks s' = free_tasks s \<and>
     active_count s' = active_count s \<and> spawn_queue s' = spawn_queue s \<and> current_task s' = current_task s \<and>
     current_root s' = current_root s \<and> chan_task (sched_channel s') = chan_task (sched_channel s) \<and>
     length (tasks s') = length (tasks s) \<and>
     (\<forall>i. rel_option same_task (task_at s i) (task_at s' i)) \<and>
     length (completions s') = length (completions s) \<and>
     (\<forall>h < length (completions s). done_task (completions s' ! h) = done_task (completions s ! h) \<and>
        (done_result (completions s ! h) = None \<longrightarrow> done_result (completions s' ! h) = None))"

lemma same_frame_refl [simp]: "same_frame s s"
  by (auto simp: same_frame_def same_task_def intro: option.rel_refl)

lemma same_frame_facts:
  assumes "same_frame s s'"
  shows "task_at s' i = None \<longleftrightarrow> task_at s i = None" "live s' a \<longleftrightarrow> live s a" "issued s' a \<longleftrightarrow> issued s a"
    "generation_at s' i = generation_at s i" "occupied s' = occupied s"
    "live s a \<Longrightarrow> same_task (the_task s a) (the_task s' a)"
proof -
  have rel: "rel_option same_task (task_at s i) (task_at s' i)" for i
    using assms by (simp add: same_frame_def)
  from rel show 1: "task_at s' i = None \<longleftrightarrow> task_at s i = None" for i
    using rel [of i] by (cases "task_at s i"; cases "task_at s' i") simp_all
  show g: "generation_at s' i = generation_at s i" for i
    using assms by (simp add: generation_at_def same_frame_def)
  show "occupied s' = occupied s" by (simp add: occupied_def 1 del: not_None_eq)
  show "live s' a \<longleftrightarrow> live s a" by (simp add: live_def 1 g)
  show "issued s' a \<longleftrightarrow> issued s a" using assms by (simp add: issued_def g same_frame_def)
  show "live s a \<Longrightarrow> same_task (the_task s a) (the_task s' a)"
    using rel [of "id_slot a"] by (cases "task_at s (id_slot a)"; cases "task_at s' (id_slot a)")
      (simp_all add: live_def the_task_def)
qed

lemma same_frame_task:
  assumes "same_frame s s'" "live s a"
  shows "task_slot (the_task s' a) = task_slot (the_task s a)" "task_parent (the_task s' a) = task_parent (the_task s a)"
    "task_root (the_task s' a) = task_root (the_task s a)" "task_children (the_task s' a) = task_children (the_task s a)"
  using same_frame_facts(6) [OF assms] by (simp_all add: same_task_def)

lemma same_frame_ok:
  assumes "same_frame s s'" "sched_ok_but A s"
  shows "sched_ok_but A s'"
proof -
  note f = same_frame_facts(1-5) [OF assms(1)] and t = same_frame_task [OF assms(1)]
  have eqs: "generations s' = generations s" "free_tasks s' = free_tasks s" "active_count s' = active_count s"
    "spawn_queue s' = spawn_queue s" "current_task s' = current_task s" "current_root s' = current_root s"
    "chan_task (sched_channel s') = chan_task (sched_channel s)" "length (tasks s') = length (tasks s)"
    "length (completions s') = length (completions s)"
    "\<And>h. h < length (completions s) \<Longrightarrow> done_task (completions s' ! h) = done_task (completions s ! h)"
    "\<And>h. h < length (completions s) \<Longrightarrow> done_result (completions s ! h) = None \<Longrightarrow> done_result (completions s' ! h) = None"
    using assms(1) unfolding same_frame_def by blast+
  have p: "parent_fine s' u \<longleftrightarrow> parent_fine s v" if "same_task v u" for u v
    using that by (simp add: parent_fine_def same_task_def f t eqs cong: imp_cong)
  have "slots_fine s'" using ok_slots [OF assms(2)] by (simp add: slots_fine_def f eqs)
  moreover have "completions_fine A s'"
    unfolding completions_fine_def f eqs
  proof (intro conjI allI impI ballI)
    show "task_slot (the_task s' a) < length (completions s)" if "live s a" for a
      using ok_completion(1) [OF assms(2) that] that by (simp add: t)
    show "done_task (completions s' ! task_slot (the_task s' a)) = Some a" if "live s a" for a
      using ok_completion(1,2) [OF assms(2) that] that by (simp add: t eqs)
    show "a \<in> A \<or> done_result (completions s' ! task_slot (the_task s' a)) = None" if "live s a" for a
      using ok_completion(1,3) [OF assms(2) that] that by (cases "a \<in> A") (simp_all add: t eqs)
    show "issued s a" if "h < length (completions s) \<and> done_task (completions s' ! h) = Some a" for h a
      using ok_issued(1) [OF assms(2), of h a] eqs(10) [of h] that by simp
  qed (use ok_queued [OF assms(2)] in \<open>auto simp: eqs\<close>)
  moreover have "family_fine A s' \<longleftrightarrow> family_fine A s"
    using p [OF same_frame_facts(6) [OF assms(1)]] p [of u u for u]
    by (simp add: family_fine_def f t eqs same_task_def cong: conj_cong)
  moreover have "root_fine s' \<longleftrightarrow> root_fine s"
    by (simp add: root_fine_def f t eqs cong: conj_cong)
  ultimately show ?thesis using assms(2) by (simp add: sched_ok_but_def)
qed

lemma same_frame_trans: "same_frame s s' \<Longrightarrow> same_frame s' s'' \<Longrightarrow> same_frame s s''"
proof -
  assume a: "same_frame s s'" "same_frame s' s''"
  have "rel_option same_task (task_at s i) (task_at s'' i)" for i
  proof -
    have "rel_option same_task (task_at s i) (task_at s' i)" "rel_option same_task (task_at s' i) (task_at s'' i)"
      using a by (simp_all add: same_frame_def)
    then show ?thesis
      by (cases "task_at s i"; cases "task_at s' i"; cases "task_at s'' i") (simp_all add: same_task_def)
  qed
  with a show ?thesis by (simp add: same_frame_def)
qed

text \<open>The operations below the scheduler do not touch the task they are attributed to.\<close>

lemma chan_task_slots [simp]:
  "chan_task (put_slot k x c) = chan_task c" "chan_task (free_slot i c) = chan_task c"
  "chan_task (snd (allocate_id c)) = chan_task c" "chan_task (register_submit_waker w c) = chan_task c"
  "chan_task (cancel_op i c) = chan_task c" "chan_task (clear_buffer i c) = chan_task c"
  "chan_task (snd (poll_result w i c)) = chan_task c" "chan_task (snd (complete_result i r c)) = chan_task c"
  "chan_task (snd (snd (append_chunk i d eof c))) = chan_task c"
  by (simp_all add: put_slot_def free_slot_def allocate_id_def register_submit_waker_def cancel_op_def
      clear_buffer_def poll_result_def complete_result_def append_chunk_def Let_def split: option.split)

lemma chan_task_complete: "complete_result i r c = (ws, c') \<Longrightarrow> chan_task c' = chan_task c"
  by (metis chan_task_slots(8) snd_conv)

lemma chan_task_append: "append_chunk i d eof c = (r, ws, c') \<Longrightarrow> chan_task c' = chan_task c"
  by (metis chan_task_slots(9) snd_conv)

lemma chan_task_submit: "submit_op k c = Some (i, c') \<Longrightarrow> chan_task c' = chan_task c"
  by (auto simp: submit_op_def allocate_id_def put_slot_def Let_def split: if_splits)

lemma chan_task_submitted: "poll_submitted w i c = (p, f, c') \<Longrightarrow> chan_task c' = chan_task c"
  using chan_task_slots(7) [of w i c] by (cases "poll_result w i c") (simp add: poll_submitted_def)

lemma chan_task_poll:
  assumes "poll_op w f c = (p, f', c')"
  shows "chan_task c' = chan_task c"
proof (cases f)
  case (OpPending k)
  show ?thesis
  proof (cases "can_submit c")
    case True
    show ?thesis
    proof (cases "submit_op k c")
      case None
      with True OpPending assms show ?thesis by (simp add: poll_op_def)
    next
      case (Some x)
      then obtain i c1 where x: "submit_op k c = Some (i, c1)" by (cases x) auto
      with True OpPending assms have "poll_submitted w i c1 = (p, f', c')" by (simp add: poll_op_def)
      from chan_task_submitted [OF this] chan_task_submit [OF x] show ?thesis by simp
    qed
  next
    case False
    with OpPending assms show ?thesis by (auto simp: poll_op_def)
  qed
next
  case (OpSubmitted i)
  with assms show ?thesis by (auto simp: poll_op_def dest: chan_task_submitted)
qed (use assms in \<open>simp add: poll_op_def\<close>)

lemma chan_task_drop [simp]: "chan_task (drop_op f c) = chan_task c"
  by (simp add: drop_op_def split: host_op.split)

lemma chan_task_drops [simp]: "chan_task (fold drop_op fs c) = chan_task c"
  by (induction fs arbitrary: c) simp_all

lemma chan_task_take: "take_pending c = (r, ws, c') \<Longrightarrow> chan_task c' = chan_task c"
proof (induction c arbitrary: r ws c' rule: take_pending.induct)
  case (1 c)
  from 1(2) show ?case
    by (subst (asm) take_pending.simps)
      (auto simp: Let_def split: list.splits option.splits if_splits prod.splits dest: 1(1) [rotated -1])
qed

lemma chan_task_sleep: "sleep_new d t c = (f, t', c') \<Longrightarrow> chan_task c' = chan_task c"
  by (auto simp: sleep_new_def timer_register_def Let_def split: prod.splits if_splits wake_at_state.splits)

lemma chan_task_process: "process_loop n t c = Some (ws, t', c') \<Longrightarrow> chan_task c' = chan_task c"
proof (induction n arbitrary: t c ws t' c')
  case (Suc n)
  from Suc.prems show ?case
    by (auto simp: Let_def split: wake_at_state.splits list.splits prod.splits poll.splits sum.splits
        dest!: chan_task_poll Suc.IH)
qed simp

section \<open>Which steps these are\<close>

lemma frame_update:
  assumes "generations s' = generations s" "free_tasks s' = free_tasks s" "active_count s' = active_count s"
    "spawn_queue s' = spawn_queue s" "current_task s' = current_task s" "current_root s' = current_root s"
    "chan_task (sched_channel s') = chan_task (sched_channel s)" "tasks s' = tasks s" "completions s' = completions s"
  shows "same_frame s s'"
proof -
  have "task_at s' = task_at s" using assms by (simp add: task_at_def fun_eq_iff)
  with assms show ?thesis by (auto simp: same_frame_def same_task_def intro: option.rel_refl)
qed

lemma frame_wake [simp]: "same_frame s (wake_all ws s)" "same_frame s (wake w s)"
  by (rule frame_update; simp)+

lemma frame_queue [simp]: "same_frame s (s\<lparr>ready_queue := q\<rparr>)"
  by (rule frame_update) simp_all

lemma frame_channel: "chan_task c = chan_task (sched_channel s) \<Longrightarrow> same_frame s (s\<lparr>sched_channel := c\<rparr>)"
  by (rule frame_update) simp_all

lemma frame_both:
  "chan_task c = chan_task (sched_channel s) \<Longrightarrow> same_frame s (s\<lparr>sched_timers := t, sched_channel := c\<rparr>)"
  by (rule frame_update) simp_all

lemma frame_completion:
  assumes "done_task x = done_task (completions s ! h)"
    and "done_result (completions s ! h) = None \<Longrightarrow> done_result x = None"
  shows "same_frame s (put_completion h x s)"
proof -
  have "task_at (put_completion h x s) = task_at s" by simp
  with assms show ?thesis
    by (auto simp: same_frame_def same_task_def put_completion_def nth_update intro: option.rel_refl)
qed

lemma frame_await: "await_slot w h s = (r, s') \<Longrightarrow> same_frame s s'"
  by (auto simp: await_slot_def Let_def intro!: frame_completion split: option.splits if_splits)

lemma frame_poll_handle: "poll_handle w h s = (p, s') \<Longrightarrow> same_frame s s'"
  by (auto simp: poll_handle_def split: if_splits prod.splits option.splits dest: frame_await)

lemma frame_try_get: "try_get h s = (r, s') \<Longrightarrow> same_frame s s'"
  by (auto simp: try_get_def Let_def intro!: frame_completion split: option.splits)

lemma frame_take: "take_host_op s = (r, s') \<Longrightarrow> same_frame s s'"
  by (auto simp: take_host_op_def split: prod.splits
      intro!: same_frame_trans [OF frame_channel frame_wake(1)] dest: chan_task_take)

lemma frame_complete [simp]: "same_frame s (complete_host_op i d s)" "same_frame s (complete_host_op_err i e s)"
  by (auto simp: complete_host_op_def complete_host_op_err_def complete_def complete_err_def split: prod.splits
      intro!: same_frame_trans [OF frame_channel frame_wake(1)] dest: chan_task_complete)

lemma frame_append: "append_host_chunk i d eof s = (r, s') \<Longrightarrow> same_frame s s'"
  by (auto simp: append_host_chunk_def split: prod.splits
      intro!: same_frame_trans [OF frame_channel frame_wake(1)] dest: chan_task_append)

lemma frame_clear [simp]: "same_frame s (clear_chunk_buffer i s)"
  by (simp add: clear_chunk_buffer_def frame_channel)

lemma frame_timers: "process_timers s = Some s' \<Longrightarrow> same_frame s s'"
  by (auto simp: process_timers_def timer_process_def intro!: same_frame_trans [OF frame_both frame_wake(1)]
      dest: chan_task_process)

text \<open>A change of a future, with one of the channel and the timers.\<close>

lemma frame_future:
  assumes "\<And>f x u. h f s = (x, u) \<Longrightarrow> same_frame s u \<and> tasks u = tasks s"
  shows "same_frame s (with_future i h s)"
proof (cases "task_at s i")
  case (Some t)
  obtain x u where u: "h (task_future t) s = (x, u)" by (cases "h (task_future t) s")
  from assms [OF u] have su: "same_frame s u" "tasks u = tasks s" by simp_all
  then have "task_at u = task_at s" by (simp add: task_at_def fun_eq_iff)
  then have "task_at u i = Some t" using Some by simp
  then have "same_frame u (put_task i (Some (t\<lparr>task_future := x\<rparr>)) u)"
    by (auto simp: same_frame_def same_task_def intro: option.rel_refl) 
      (auto simp: put_task_def option.rel_refl)
  with su(1) have "same_frame s (put_task i (Some (t\<lparr>task_future := x\<rparr>)) u)" by (rule same_frame_trans)
  with Some u show ?thesis by (simp add: with_future_def)
qed (simp add: with_future_def)

fun in_frame :: "task_act \<Rightarrow> bool" where
  "in_frame (Spawn f) = False"
| "in_frame (CancelHandle h) = False"
| "in_frame a = True"

lemma frame_act: "in_frame a \<Longrightarrow> same_frame s (do_act i a s)"
proof (cases a)
  case (Await h)
  then show ?thesis using frame_poll_handle [of "TaskWaker i" h s] by (cases "poll_handle (TaskWaker i) h s") auto
next
  case (TryGet h)
  then show ?thesis using frame_try_get [of h s] by (cases "try_get h s") auto
next
  case (PollOp n)
  then show ?thesis
    by (auto split: if_splits prod.splits intro!: frame_future frame_channel dest: chan_task_poll)
next
  case (StartSleep d)
  then show ?thesis
    by (auto split: if_splits prod.splits intro!: frame_future frame_both dest: chan_task_sleep)
qed (auto split: if_splits prod.splits intro!: frame_future frame_channel frame_update simp del: wake.simps)

end
