(* ===== verification/SchedulerOps.thy ===== *)
theory SchedulerOps
  imports SchedulerInv
begin

text \<open>The invariant is kept by spawning, by placing the spawned tasks, by polling and by cancelling.\<close>

section \<open>Spawning\<close>

lemma live_cong: "tasks s' = tasks s \<Longrightarrow> generations s' = generations s \<Longrightarrow> live s' = live s"
  by (auto simp: live_def task_at_def generation_at_def fun_eq_iff)

lemma the_task_cong: "tasks s' = tasks s \<Longrightarrow> the_task s' = the_task s"
  by (auto simp: the_task_def task_at_def fun_eq_iff)

lemma issued_cong: "tasks s' = tasks s \<Longrightarrow> generations s' = generations s \<Longrightarrow> issued s' = issued s"
  by (auto simp: issued_def generation_at_def fun_eq_iff)

lemma occupied_cong: "tasks s' = tasks s \<Longrightarrow> occupied s' = occupied s"
  by (auto simp: occupied_def task_at_def)

lemmas tree_congs = live_cong the_task_cong issued_cong occupied_cong

lemma spawn_ok:
  assumes "sched_ok s" "spawn f s = (h, s')"
  shows "sched_ok s'"
proof -
  define t where "t = \<lparr>task_future = f, task_slot = length (completions s), task_parent = current_task s,
    task_root = current_root s, task_children = []\<rparr>"
  define x where "x = \<lparr>done_result = None, done_waker = None, done_task = None, done_taken = False\<rparr>"
  have s': "s' = s\<lparr>completions := completions s @ [x], spawn_queue := spawn_queue s @ [t]\<rparr>"
    using assms(2) by (auto simp: spawn_def Let_def t_def x_def)
  have tree: "live s' = live s" "the_task s' = the_task s" "issued s' = issued s" "occupied s' = occupied s"
    unfolding s' by (rule tree_congs; simp)+
  have p: "parent_fine s' u \<longleftrightarrow> parent_fine s u" for u by (simp add: parent_fine_def tree)
  have "parent_fine s t"
    using ok_issued(2) [OF assms(1)] ok_completion(1) [OF assms(1)] by (simp add: parent_fine_def t_def)
  have q: "set (spawn_queue s') = insert t (set (spawn_queue s))" "current_task s' = current_task s"
    "current_root s' = current_root s" "sched_channel s' = sched_channel s" "task_children t = []"
    by (simp_all add: s' t_def)
  from \<open>parent_fine s t\<close> have "family_fine {} s'"
    using assms(1) q(5) unfolding sched_ok_but_def family_fine_def tree p q(1-4) by blast
  moreover have "slots_fine s'"
    using assms(1) by (simp add: sched_ok_but_def slots_fine_def tree) (simp add: s')
  moreover have "root_fine s'"
  proof -
    have tt: "task_root t = current_root s" "task_parent t = current_task s" by (simp_all add: t_def)
    have "(task_root t = None \<longleftrightarrow> task_parent t = None) \<and>
        (\<forall>p. task_parent t = Some p \<and> live s p \<longrightarrow> task_root t = task_root (the_task s p))"
      unfolding tt by (intro conjI allI impI ok_root(6) [OF assms(1)] ok_root(7) [OF assms(1)]) auto
    with assms(1) show ?thesis unfolding sched_ok_but_def root_fine_def tree q(1-4) ball_simps
      by (elim conjE) (intro conjI; assumption)
  qed
  moreover have "completions_fine {} s'"
    unfolding completions_fine_def tree
  proof (intro conjI allI impI ballI)
    fix a
    assume l: "live s a"
    show "task_slot (the_task s a) < length (completions s')"
      "done_task (completions s' ! task_slot (the_task s a)) = Some a"
      "a \<in> {} \<or> done_result (completions s' ! task_slot (the_task s a)) = None"
      using ok_completion [OF assms(1) l] by (simp_all add: s' nth_append)
  next
    fix u
    assume "u \<in> set (spawn_queue s')"
    then have "u \<in> set (spawn_queue s) \<or> u = t" by (auto simp: s')
    with ok_queued(1-3) [OF assms(1), of u]
    show "task_slot u < length (completions s')" "done_task (completions s' ! task_slot u) = None"
      "done_result (completions s' ! task_slot u) = None"
      by (auto simp: s' nth_append t_def x_def)
  next
    show "distinct (map task_slot (spawn_queue s'))"
      using ok_queued(1,5) [OF assms(1)] by (fastforce simp: s' t_def)
  next
    fix h a
    assume "h < length (completions s') \<and> done_task (completions s' ! h) = Some a"
    with ok_issued(1) [OF assms(1), of h a] show "issued s a"
      by (auto simp: s' nth_append x_def less_Suc_eq split: if_splits)
  qed
  ultimately show ?thesis by (simp add: sched_ok_but_def)
qed

section \<open>Placing a spawned task\<close>

lemma place_facts:
  assumes "slots_fine s" "place_task t s = (a, s')"
  shows "task_at s (id_slot a) = None" "\<not> issued s a"
    "task_at s' j = (if j = id_slot a then Some (own_root a t) else task_at s j)"
    "generation_at s' j = (if j = id_slot a then id_gen a else generation_at s j)"
    "issued s b \<Longrightarrow> issued s' b" "issued s' a"
    "slots_fine (s'\<lparr>active_count := active_count s + 1\<rparr>)"
    "completions s' = completions s" "spawn_queue s' = spawn_queue s" "current_task s' = current_task s"
    "current_root s' = current_root s" "sched_channel s' = sched_channel s" "sched_timers s' = sched_timers s"
    "ready_queue s' = ready_queue s" "active_count s' = active_count s"
proof -
  have len: "length (generations s) = length (tasks s)" using assms(1) by (simp add: slots_fine_def)
  have fin: "finite (occupied s)"
    by (rule finite_subset [of _ "{..<length (tasks s)}"]) (auto simp: occupied_def dest: task_at_beyond)
  consider (reuse) "free_tasks s \<noteq> []" | (new) "free_tasks s = []" by blast
  then have "task_at s (id_slot a) = None \<and> \<not> issued s a \<and>
    (\<forall>j. task_at s' j = (if j = id_slot a then Some (own_root a t) else task_at s j)) \<and>
    (\<forall>j. generation_at s' j = (if j = id_slot a then id_gen a else generation_at s j)) \<and>
    length (tasks s) \<le> length (tasks s') \<and> id_slot a < length (tasks s') \<and>
    (id_slot a < length (tasks s) \<longrightarrow> generation_at s (id_slot a) \<le> id_gen a) \<and>
    length (generations s') = length (tasks s') \<and> distinct (free_tasks s') \<and>
    set (free_tasks s') = {..<length (tasks s')} - insert (id_slot a) (occupied s)"
  proof cases
    case reuse
    then obtain ys i where free: "free_tasks s = ys @ [i]" by (metis rev_exhaust)
    then have i: "i < length (tasks s)" "task_at s i = None" "distinct ys" "i \<notin> set ys"
      "set ys = {..<length (tasks s)} - insert i (occupied s)"
      using assms(1) by (auto simp: slots_fine_def occupied_def)
    define g where "g = generations s ! i + 1"
    from free assms(2) have a: "a = \<lparr>id_slot = i, id_gen = g\<rparr>"
      and s': "s' = s\<lparr>free_tasks := ys, generations := (generations s)[i := g],
        tasks := (tasks s)[i := Some (own_root a t)]\<rparr>"
      by (auto simp: place_task_def Let_def g_def)
    show ?thesis
    proof (intro conjI allI)
      show "task_at s' j = (if j = id_slot a then Some (own_root a t) else task_at s j)" for j
        using i(1) by (simp add: s' a task_at_def)
      show "generation_at s' j = (if j = id_slot a then id_gen a else generation_at s j)" for j
        using i(1) len by (simp add: s' a generation_at_def)
      show "\<not> issued s a" using i(1) len by (simp add: a issued_def generation_at_def g_def)
      show "id_slot a < length (tasks s) \<longrightarrow> generation_at s (id_slot a) \<le> id_gen a"
        using i(1) len by (simp add: a generation_at_def g_def)
    qed (use i len in \<open>simp_all add: s' a\<close>)
  next
    case new
    then have "{..<length (tasks s)} \<subseteq> occupied s" using assms(1) by (auto simp: slots_fine_def)
    then have "{..<Suc (length (tasks s))} - insert (length (tasks s)) (occupied s) = {}"
      by (auto simp: less_Suc_eq)
    with new assms len show ?thesis
      by (auto simp: place_task_def Let_def issued_def task_at_def generation_at_def nth_append)
  qed
  then have f: "task_at s (id_slot a) = None" "\<not> issued s a"
    "\<And>j. task_at s' j = (if j = id_slot a then Some (own_root a t) else task_at s j)"
    "\<And>j. generation_at s' j = (if j = id_slot a then id_gen a else generation_at s j)"
    "length (tasks s) \<le> length (tasks s')" "id_slot a < length (tasks s')"
    "id_slot a < length (tasks s) \<Longrightarrow> generation_at s (id_slot a) \<le> id_gen a"
    "length (generations s') = length (tasks s')" "distinct (free_tasks s')"
    "set (free_tasks s') = {..<length (tasks s')} - insert (id_slot a) (occupied s)"
    by blast+
  show "task_at s (id_slot a) = None" "\<not> issued s a"
    "task_at s' j = (if j = id_slot a then Some (own_root a t) else task_at s j)"
    "generation_at s' j = (if j = id_slot a then id_gen a else generation_at s j)"
    by (rule f)+
  show "issued s b \<Longrightarrow> issued s' b" using f(5,7) by (auto simp: issued_def f(4))
  show "issued s' a" using f(6) by (simp add: issued_def f(4))
  have occ: "occupied s' = insert (id_slot a) (occupied s)" by (auto simp: occupied_def f(3))
  have "id_slot a \<notin> occupied s" using f(1) by (simp add: occupied_def)
  then have "card (occupied s') = active_count s + 1" using assms(1) fin occ by (simp add: slots_fine_def)
  moreover have "occupied (s'\<lparr>active_count := active_count s + 1\<rparr>) = occupied s'" by (rule occupied_cong) simp
  ultimately show "slots_fine (s'\<lparr>active_count := active_count s + 1\<rparr>)"
    using f(8-10) occ by (simp add: slots_fine_def)
  show "completions s' = completions s" "spawn_queue s' = spawn_queue s" "current_task s' = current_task s"
    "current_root s' = current_root s" "sched_channel s' = sched_channel s" "sched_timers s' = sched_timers s"
    "ready_queue s' = ready_queue s" "active_count s' = active_count s"
    using assms(2) by (auto simp: place_task_def Let_def split: if_splits)
qed

text \<open>What placing does to the tasks.\<close>

lemma assign_facts:
  assumes "sched_ok s" "spawn_queue s = t # q" "assign_task t (s\<lparr>spawn_queue := q\<rparr>) = s'"
  obtains a where "\<not> issued s a" "issued s' a" "\<And>b. issued s b \<Longrightarrow> issued s' b"
    "\<And>b. live s' b \<longleftrightarrow> b = a \<or> live s b" "\<And>b. live s b \<Longrightarrow> b \<noteq> a" "slots_fine s'"
    "same_task (own_root a t) (the_task s' a)"
    "\<And>b. live s b \<Longrightarrow> the_task s' b = (if task_parent t = Some b
       then (the_task s b)\<lparr>task_children := task_children (the_task s b) @ [a]\<rparr> else the_task s b)"
    "completions s' = (completions s)[task_slot t := (completions s ! task_slot t)\<lparr>done_task := Some a\<rparr>]"
    "spawn_queue s' = q" "current_task s' = current_task s" "current_root s' = current_root s"
    "sched_channel s' = sched_channel s" "sched_timers s' = sched_timers s"
    "ready_queue s' = ready_queue s @ [id_slot a]"
proof -
  let ?s = "s\<lparr>spawn_queue := q\<rparr>"
  obtain a u where u: "place_task t ?s = (a, u)" by (cases "place_task t ?s")
  have cong: "live ?s = live s" "the_task ?s = the_task s" "issued ?s = issued s" "occupied ?s = occupied s"
    "task_at ?s = task_at s" "generation_at ?s = generation_at s"
    by (rule tree_congs; simp)+ (simp_all add: task_at_def generation_at_def fun_eq_iff)
  have "slots_fine ?s" using ok_slots [OF assms(1)] by (simp add: slots_fine_def cong)
  note f = place_facts [OF this u, unfolded cong, simplified]
  define v where "v = put_completion (task_slot t) ((completions s ! task_slot t)\<lparr>done_task := Some a\<rparr>) u"
  have s': "s' = (adopt (task_parent t) a v)\<lparr>active_count := active_count s + 1,
      ready_queue := ready_queue s @ [id_slot a]\<rparr>"
    using assms(3) u f(8,14,15)
    by (auto simp: assign_task_def v_def Let_def put_completion_def adopt_def put_task_def split: option.splits)
  have liveu: "live u b \<longleftrightarrow> b = a \<or> live s b" for b
    using f(1) task_id_eqI [of b a] by (auto simp: live_def f(3,4))
  have taskv: "task_at v = task_at u" "generation_at v = generation_at u"
    by (simp_all add: v_def put_completion_def generation_at_def task_at_def fun_eq_iff)
  have livev: "live v b \<longleftrightarrow> b = a \<or> live s b" for b
    using liveu unfolding live_def taskv .
  have neq: "live s b \<Longrightarrow> b \<noteq> a" for b using f(2) live_issued by blast
  have the_taskv: "live s b \<Longrightarrow> the_task v b = the_task s b" for b
    using f(1) by (auto simp: the_task_def taskv f(3) live_def)
  have new: "the_task v a = own_root a t" by (simp add: the_task_def taskv f(3))
  have t: "t \<in> set (spawn_queue s)" using assms(2) by simp
  have parent: "p \<noteq> a" "issued s p" if "task_parent t = Some p" for p
    using that ok_queued(4) [OF assms(1) t] f(2) by (auto simp: parent_fine_def)
  define w where "w = adopt (task_parent t) a v"
  have adopt: "w = (case task_parent t of None \<Rightarrow> v | Some p \<Rightarrow> if live s p then put_task (id_slot p)
      (Some ((the_task s p)\<lparr>task_children := task_children (the_task s p) @ [a]\<rparr>)) v else v)"
  proof (cases "task_parent t")
    case (Some p)
    have "live v p \<longleftrightarrow> live s p" using parent(1) [OF Some] livev by simp
    then show ?thesis
      using Some the_taskv [of p] by (auto simp: w_def adopt_def live_def the_task_def split: option.splits)
  qed (simp add: w_def adopt_def)
  have fields: "completions w = completions v" "spawn_queue w = q" "current_task w = current_task s"
    "current_root w = current_root s" "sched_channel w = sched_channel s" "sched_timers w = sched_timers s"
    "generations w = generations u" "length (tasks w) = length (tasks u)" "free_tasks w = free_tasks u"
    using f(9-13) by (simp_all add: adopt v_def put_completion_def put_task_def split: option.split)
  have at: "task_at w j = (case task_parent t of Some p \<Rightarrow> if j = id_slot p \<and> live s p
      then Some ((the_task s p)\<lparr>task_children := task_children (the_task s p) @ [a]\<rparr>) else task_at v j
    | None \<Rightarrow> task_at v j)" for j
  proof (cases "task_parent t")
    case (Some p)
    have "live s p \<Longrightarrow> id_slot p < length (tasks v)"
      using livev [of p] task_at_beyond [OF live_at, of v p] by simp
    with Some show ?thesis by (simp add: adopt)
  qed (simp add: adopt)
  have occw: "task_at w j = None \<longleftrightarrow> task_at v j = None" for j
    using livev by (auto simp: at live_def split: option.splits)
  have genw: "generation_at w = generation_at v"
    by (simp add: generation_at_def fun_eq_iff fields(7) v_def put_completion_def)
  have livew: "live w b \<longleftrightarrow> b = a \<or> live s b" for b
    using livev [of b] unfolding live_def genw occw by simp
  have s'w: "s' = w\<lparr>active_count := active_count s + 1, ready_queue := ready_queue s @ [id_slot a]\<rparr>"
    by (simp add: s' w_def)
  have congw: "live s' = live w" "the_task s' = the_task w" "issued s' = issued w" "occupied s' = occupied w"
    unfolding s'w by (rule tree_congs; simp)+
  have issw: "issued w = issued u"
    by (simp add: issued_def fields generation_at_def fun_eq_iff)
  show thesis
  proof (rule that)
    show "\<not> issued s a" by (rule f(2))
    show "issued s' a" using f(6) by (simp add: congw issw)
    show "issued s b \<Longrightarrow> issued s' b" for b using f(5) by (simp add: congw issw)
    show "live s' b \<longleftrightarrow> b = a \<or> live s b" for b by (simp add: congw livew)
    show "live s b \<Longrightarrow> b \<noteq> a" for b by (rule neq)
    have "occupied w = occupied u" by (simp add: occupied_def occw taskv del: not_None_eq)
    moreover have "occupied (u\<lparr>active_count := Suc (active_count s)\<rparr>) = occupied u" by (rule occupied_cong) simp
    ultimately show "slots_fine s'" using f(7) by (simp add: slots_fine_def congw) (simp add: s'w fields)
    have "a \<noteq> p" if "task_parent t = Some p" for p using parent(1) [OF that] by simp
    then have "task_at w (id_slot a) = task_at v (id_slot a)"
      using f(1) by (auto simp: at live_def split: option.splits)
    then show "same_task (own_root a t) (the_task s' a)"
      using new by (simp add: congw the_task_def same_task_def)
    show "the_task s' b = (if task_parent t = Some b
       then (the_task s b)\<lparr>task_children := task_children (the_task s b) @ [a]\<rparr> else the_task s b)"
      if "live s b" for b
      using the_taskv [OF that] that live_slot_inj [OF that]
      by (auto simp: congw the_task_def at split: option.splits)
  qed (simp_all add: s'w fields v_def put_completion_def f(8))
qed

lemma assign_ok:
  assumes ok: "sched_ok s" and q: "spawn_queue s = t # q" and s': "assign_task t (s\<lparr>spawn_queue := q\<rparr>) = s'"
  shows "sched_ok s'"
proof -
  obtain a where f: "\<not> issued s a" "issued s' a" "\<And>b. issued s b \<Longrightarrow> issued s' b"
    "\<And>b. live s' b \<longleftrightarrow> b = a \<or> live s b" "\<And>b. live s b \<Longrightarrow> b \<noteq> a" "slots_fine s'"
    "same_task (own_root a t) (the_task s' a)"
    "\<And>b. live s b \<Longrightarrow> the_task s' b = (if task_parent t = Some b
       then (the_task s b)\<lparr>task_children := task_children (the_task s b) @ [a]\<rparr> else the_task s b)"
    "completions s' = (completions s)[task_slot t := (completions s ! task_slot t)\<lparr>done_task := Some a\<rparr>]"
    "spawn_queue s' = q" "current_task s' = current_task s" "current_root s' = current_root s"
    "sched_channel s' = sched_channel s" "sched_timers s' = sched_timers s"
    "ready_queue s' = ready_queue s @ [id_slot a]"
    by (rule assign_facts [OF ok q s'], rule that)
  have t: "t \<in> set (spawn_queue s)" using q by simp
  note tq = ok_queued(1-4) [OF ok t] ok_queued(6) [OF ok t]
  have new: "task_slot (the_task s' a) = task_slot t" "task_parent (the_task s' a) = task_parent t"
    "task_children (the_task s' a) = []"
    "task_root (the_task s' a) = (if task_root t = None then Some a else task_root t)"
    using f(7) tq(5) by (auto simp: same_task_def own_root_def)
  have old: "task_slot (the_task s' b) = task_slot (the_task s b)"
    "task_parent (the_task s' b) = task_parent (the_task s b)"
    "task_root (the_task s' b) = task_root (the_task s b)"
    "task_children (the_task s' b) =
      task_children (the_task s b) @ (if task_parent t = Some b then [a] else [])" if "live s b" for b
    using f(8) [OF that] by simp_all
  have apart: "task_slot (the_task s b) \<noteq> task_slot t" if "live s b" for b
    using ok_completion(2) [OF ok that] tq(2) by auto
  have apartq: "task_slot u \<noteq> task_slot t" "u \<in> set (spawn_queue s)" if "u \<in> set q" for u
    using ok_queued(5) [OF ok] that q by (auto simp: image_iff)
  have len: "length (completions s') = length (completions s)" by (simp add: f(9))
  have keep: "completions s' ! h = completions s ! h" if "h \<noteq> task_slot t" for h using that by (simp add: f(9))
  have put: "completions s' ! task_slot t = (completions s ! task_slot t)\<lparr>done_task := Some a\<rparr>"
    using tq(1) by (simp add: f(9))
  have parent: "p \<noteq> a" "issued s p" if "parent_fine s u" "task_parent u = Some p" for u p
    using that f(1) by (auto simp: parent_fine_def)
  have pf: "parent_fine s' v" if "parent_fine s u" "task_parent v = task_parent u" "task_slot v = task_slot u" for u v
    using that parent [OF that(1)] f(3,4) old(1) by (auto simp: parent_fine_def)
  have "completions_fine {} s'"
    unfolding completions_fine_def f(10) len
  proof (intro conjI allI impI ballI)
    fix b
    assume "live s' b"
    then consider "b = a" | "live s b" using f(4) by blast
    then have "task_slot (the_task s' b) < length (completions s) \<and>
      done_task (completions s' ! task_slot (the_task s' b)) = Some b \<and>
      done_result (completions s' ! task_slot (the_task s' b)) = None"
    proof cases
      case 1
      with tq put new(1) show ?thesis by simp
    next
      case 2
      with ok_completion [OF ok 2] keep [OF apart [OF 2]] old(1) [OF 2] show ?thesis by simp
    qed
    then show "task_slot (the_task s' b) < length (completions s)"
      "done_task (completions s' ! task_slot (the_task s' b)) = Some b"
      "b \<in> {} \<or> done_result (completions s' ! task_slot (the_task s' b)) = None" by simp_all
  next
    fix u
    assume "u \<in> set q"
    from apartq [OF this] ok_queued(1-3) [OF ok, of u] keep [of "task_slot u"]
    show "task_slot u < length (completions s)" "done_task (completions s' ! task_slot u) = None"
      "done_result (completions s' ! task_slot u) = None" by simp_all
  next
    show "distinct (map task_slot q)" using ok_queued(5) [OF ok] q by simp
  next
    fix h b
    assume "h < length (completions s) \<and> done_task (completions s' ! h) = Some b"
    with ok_issued(1) [OF ok, of h b] f(2,3) keep [of h] put show "issued s' b"
      by (cases "h = task_slot t") auto
  qed
  moreover have "family_fine {} s'"
    unfolding family_fine_def f(10,11)
  proof (intro conjI allI impI ballI)
    fix b c
    assume "live s' b \<and> c \<in> set (task_children (the_task s' b))"
    then have b: "live s b" "c = a \<and> task_parent t = Some b \<or> c \<in> set (task_children (the_task s b))"
      using f(4) new(3) old(4) by (auto split: if_splits)
    from b(2) show "live s' c" using f(4) ok_child(1) [OF ok b(1)] by blast
    from b(2) show "task_parent (the_task s' c) = Some b"
      using new(2) ok_child(1) [OF ok b(1), of c] old(2) [of c] by auto
  next
    fix b
    assume "live s' b"
    then consider "b = a" | "live s b" using f(4) by blast
    then show "distinct (task_children (the_task s' b))"
    proof cases
      case 2
      have "a \<notin> set (task_children (the_task s b))" using ok_child(1) [OF ok 2] f(5) by blast
      with ok_child(2) [OF ok 2] old(4) [OF 2] show ?thesis by simp
    qed (simp add: new)
    from \<open>live s' b\<close> consider "b = a" | "live s b" using f(4) by blast
    then show "parent_fine s' (the_task s' b)"
      by cases (use pf [OF tq(4)] new(1,2) pf [OF ok_child(3) [OF ok]] old(1,2) in simp_all)
  next
    fix b p
    assume b: "live s' b \<and> task_parent (the_task s' b) = Some p \<and> live s' p \<and> b \<notin> {}"
    show "b \<in> set (task_children (the_task s' p))"
    proof (cases "b = a")
      case True
      with b new(2) parent [OF tq(4)] f(4) have "live s p" "task_parent t = Some p" by auto
      with True old(4) show ?thesis by simp
    next
      case False
      with b f(4) have l: "live s b" "task_parent (the_task s b) = Some p" using old(2) by auto
      with parent(1) [OF ok_child(3) [OF ok l(1)] l(2)] b f(4) have p: "live s p" by blast
      from ok_child(4) [OF ok l p] old(4) [OF p] show ?thesis by simp
    qed
  next
    fix u
    assume "u \<in> set q"
    with apartq(2) have u: "u \<in> set (spawn_queue s)" by blast
    show "parent_fine s' u" using pf [OF ok_queued(4) [OF ok u]] by simp
    show "task_children u = []" using ok_queued(6) [OF ok u] .
  next
    show "current_task s = Some b \<Longrightarrow> issued s' b" for b using ok_issued(2) [OF ok] f(3) by blast
  qed
  moreover have "root_fine s'"
    unfolding root_fine_def f(10-13)
  proof (intro conjI allI impI ballI)
    fix b
    assume "live s' b"
    then consider "b = a" | "live s b" "b \<noteq> a" using f(4,5) by blast
    then have "task_root (the_task s' b) \<noteq> None \<and>
        (task_parent (the_task s' b) = None \<longrightarrow> task_root (the_task s' b) = Some b) \<and>
        (\<forall>p. task_parent (the_task s' b) = Some p \<and> live s' p \<longrightarrow>
           task_root (the_task s' b) = task_root (the_task s' p))"
    proof cases
      case 1
      have "task_root (the_task s' p) = task_root t" "task_root t \<noteq> None"
        if "task_parent t = Some p" "live s' p" for p
        using that parent(1) [OF tq(4)] f(4) ok_root(4,5) [OF ok t] old(3) by auto
      with 1 new ok_root(4) [OF ok t] show ?thesis by auto
    next
      case 2
      have "live s p" if "task_parent (the_task s b) = Some p" "live s' p" for p
        using that parent(1) [OF ok_child(3) [OF ok 2(1)]] f(4) by blast
      with ok_root(1-3) [OF ok 2(1)] old(2,3) 2(1) show ?thesis by simp
    qed
    then show "task_root (the_task s' b) \<noteq> None"
      "task_parent (the_task s' b) = None \<Longrightarrow> task_root (the_task s' b) = Some b"
      "\<And>p. task_parent (the_task s' b) = Some p \<and> live s' p \<Longrightarrow>
         task_root (the_task s' b) = task_root (the_task s' p)" by blast+
  next
    fix u
    assume "u \<in> set q"
    with apartq(2) have u: "u \<in> set (spawn_queue s)" by blast
    show "task_root u = None \<longleftrightarrow> task_parent u = None" by (rule ok_root(4) [OF ok u])
    show "task_root u = task_root (the_task s' p)" if "task_parent u = Some p \<and> live s' p" for p
      using that parent(1) [OF ok_queued(4) [OF ok u]] f(4) ok_root(5) [OF ok u] old(3) by auto
  next
    show "current_root s = None \<longleftrightarrow> current_task s = None" by (rule ok_root(6) [OF ok])
    show "current_root s = task_root (the_task s' b)" if "current_task s = Some b \<and> live s' b" for b
      using that ok_issued(2) [OF ok] f(1,4) ok_root(7) [OF ok] old(3) by auto
    show "chan_task (sched_channel s) = current_root s" by (rule ok_root(8) [OF ok])
  qed
  ultimately show ?thesis using f(6) by (simp add: sched_ok_but_def)
qed

end
