(* ===== verification/SchedulerEnd.thy ===== *)
theory SchedulerEnd
  imports SchedulerOps
begin

text \<open>The invariant is kept when tasks are placed, chosen and polled, and when they end.\<close>

section \<open>The spawn queue\<close>

lemma place_commute:
  assumes "place_task t s = (a, s')"
  shows "place_task t (s\<lparr>spawn_queue := q\<rparr>) = (a, s'\<lparr>spawn_queue := q\<rparr>)"
  using assms by (auto simp: place_task_def Let_def split: if_splits)

lemma adopt_commute: "adopt p a (s\<lparr>spawn_queue := q\<rparr>) = (adopt p a s)\<lparr>spawn_queue := q\<rparr>"
  by (simp add: adopt_def generation_at_def task_at_def put_task_def split: option.split)

lemma assign_commute: "assign_task t (s\<lparr>spawn_queue := q\<rparr>) = (assign_task t s)\<lparr>spawn_queue := q\<rparr>"
proof -
  obtain a u where u: "place_task t s = (a, u)" by (cases "place_task t s")
  have "put_completion h x (u\<lparr>spawn_queue := q\<rparr>) = (put_completion h x u)\<lparr>spawn_queue := q\<rparr>" for h x
    by (simp add: put_completion_def)
  with u place_commute [OF u, of q] adopt_commute [of "task_parent t" a q] show ?thesis
    by (simp add: assign_task_def Let_def)
qed

lemma process_spawn_Cons:
  assumes "spawn_queue s = t # q"
  shows "process_spawn_queue s = process_spawn_queue (assign_task t (s\<lparr>spawn_queue := q\<rparr>))"
proof -
  have "spawn_queue (assign_task t (s\<lparr>spawn_queue := q\<rparr>)) = q"
    using assign_commute [of t q s] by simp
  moreover have "(assign_task t (s\<lparr>spawn_queue := q\<rparr>))\<lparr>spawn_queue := []\<rparr> = assign_task t (s\<lparr>spawn_queue := []\<rparr>)"
    unfolding assign_commute by simp
  ultimately show ?thesis using assms by (simp add: process_spawn_queue_def)
qed

lemma process_spawn_Nil: "spawn_queue s = [] \<Longrightarrow> process_spawn_queue s = s"
  by (simp add: process_spawn_queue_def)

lemma process_spawn_ok: "sched_ok s \<Longrightarrow> sched_ok (process_spawn_queue s)"
proof (induction "spawn_queue s" arbitrary: s)
  case Nil
  then show ?case by (simp add: process_spawn_Nil)
next
  case (Cons t q)
  have "spawn_queue (assign_task t (s\<lparr>spawn_queue := q\<rparr>)) = q" using assign_commute [of t q s] by simp
  with Cons(1) [of "assign_task t (s\<lparr>spawn_queue := q\<rparr>)"] assign_ok [OF Cons(3) Cons(2) [symmetric] refl]
  show ?case by (simp add: process_spawn_Cons [OF Cons(2) [symmetric]])
qed

section \<open>The context of a poll\<close>

text \<open>The task that is set as the current one, with its root.\<close>

definition context_ok :: "task_id option \<Rightarrow> task_id option \<Rightarrow> scheduler \<Rightarrow> bool" where
  "context_ok t r s \<longleftrightarrow> (\<forall>a. t = Some a \<longrightarrow> issued s a) \<and> (r = None \<longleftrightarrow> t = None) \<and>
     (\<forall>a. t = Some a \<and> live s a \<longrightarrow> r = task_root (the_task s a))"

definition set_context :: "task_id option \<Rightarrow> task_id option \<Rightarrow> scheduler \<Rightarrow> scheduler" where
  "set_context t r s = s\<lparr>current_task := t, current_root := r,
     sched_channel := set_current_task r (sched_channel s)\<rparr>"

lemma set_context_ok:
  assumes "sched_ok_but A s" "context_ok t r s"
  shows "sched_ok_but A (set_context t r s)"
proof -
  let ?s = "set_context t r s"
  have tree: "live ?s = live s" "the_task ?s = the_task s" "issued ?s = issued s" "occupied ?s = occupied s"
    unfolding set_context_def by (rule tree_congs; simp)+
  have f: "completions ?s = completions s" "spawn_queue ?s = spawn_queue s" "current_task ?s = t"
    "current_root ?s = r" "chan_task (sched_channel ?s) = r" "tasks ?s = tasks s" "generations ?s = generations s"
    "free_tasks ?s = free_tasks s" "active_count ?s = active_count s"
    by (simp_all add: set_context_def set_current_task_def)
  have p: "parent_fine ?s u \<longleftrightarrow> parent_fine s u" for u by (simp add: parent_fine_def tree)
  have "slots_fine ?s" using ok_slots [OF assms(1)] by (simp add: slots_fine_def tree f)
  moreover have "completions_fine A ?s"
    using assms(1) unfolding sched_ok_but_def completions_fine_def tree f by (elim conjE) (intro conjI; assumption)
  moreover have "family_fine A ?s"
    using assms unfolding sched_ok_but_def context_ok_def family_fine_def tree f p
    by (elim conjE) (intro conjI; assumption)
  moreover have "root_fine ?s"
    using assms unfolding sched_ok_but_def context_ok_def root_fine_def tree f
    by (elim conjE) (intro conjI refl; assumption)
  ultimately show ?thesis by (simp add: sched_ok_but_def)
qed

lemma clear_context_set: "clear_context s = set_context None None s"
  by (simp add: clear_context_def set_context_def)

lemma clear_context_ok: "sched_ok_but A s \<Longrightarrow> sched_ok_but A (clear_context s)"
  unfolding clear_context_set by (rule set_context_ok) (simp_all add: context_ok_def)

lemma next_ready_live: "next_ready s q = Some (i, q') \<Longrightarrow> task_at s i \<noteq> None"
  by (induction q) (auto split: if_splits)

lemma begin_poll_live:
  assumes "begin_poll s = (Some i, s')"
  shows "live s (id_at s i)" "\<exists>q. s' = (set_context (Some (id_at s i)) (task_root (the_task s (id_at s i))) s)\<lparr>ready_queue := q\<rparr>"
proof -
  from assms obtain q where q: "next_ready s (ready_queue s) = Some (i, q)"
    by (auto simp: begin_poll_def Let_def split: option.splits prod.splits)
  from next_ready_live [OF this] obtain t where t: "task_at s i = Some t" by auto
  then show "live s (id_at s i)" by (simp add: live_id_at)
  have "s' = (set_context (Some (id_at s i)) (task_root (the_task s (id_at s i))) s)\<lparr>ready_queue := q\<rparr>"
    using assms q t the_task_id_at [OF t]
    by (intro scheduler.equality) (auto simp: begin_poll_def set_context_def id_at_def Let_def)
  then show "\<exists>q. s' = (set_context (Some (id_at s i)) (task_root (the_task s (id_at s i))) s)\<lparr>ready_queue := q\<rparr>"
    by blast
qed

lemma begin_poll_ok:
  assumes "sched_ok s" "begin_poll s = (x, s')"
  shows "sched_ok s'"
proof (cases x)
  case None
  with assms(2) have "s' = s\<lparr>ready_queue := []\<rparr>"
    by (auto simp: begin_poll_def Let_def split: option.splits prod.splits)
  with same_frame_ok [OF frame_queue assms(1)] show ?thesis by simp
next
  case (Some i)
  from begin_poll_live [OF assms(2) [unfolded Some]] obtain q where
    l: "live s (id_at s i)" and s': "s' = (set_context (Some (id_at s i)) (task_root (the_task s (id_at s i))) s)\<lparr>ready_queue := q\<rparr>"
    by blast
  have "context_ok (Some (id_at s i)) (task_root (the_task s (id_at s i))) s"
    using live_issued [OF l] ok_root(1) [OF assms(1) l] by (simp add: context_ok_def)
  from same_frame_ok [OF frame_queue set_context_ok [OF assms(1) this]] show ?thesis by (simp add: s')
qed

section \<open>The end of a subtree\<close>

lemma finite_occupied: "finite (occupied s)"
  by (rule finite_subset [of _ "{..<length (tasks s)}"]) (auto simp: occupied_def dest: task_at_beyond)

lemma remove_slots_fine:
  assumes "slots_fine s"
  shows "slots_fine (remove_task i s)"
proof (cases "task_at s i")
  case (Some t)
  have i: "i < length (tasks s)" "i \<in> occupied s" using task_at_beyond [OF Some] Some by (simp_all add: occupied_def)
  have "occupied (remove_task i s) = occupied s - {i}" by (auto simp: occupied_def)
  moreover have "free_tasks (remove_task i s) = free_tasks s @ [i]"
    "active_count (remove_task i s) = active_count s - 1"
    using Some by (simp_all add: remove_task_def drop_future_def)
  ultimately show ?thesis
    using assms i finite_occupied [of s] by (auto simp: slots_fine_def)
qed (use assms in \<open>simp add: remove_task_def\<close>)

lemma slots_fine_completions: "slots_fine (put_completion h x s) \<longleftrightarrow> slots_fine s"
  by (simp add: slots_fine_def occupied_def) (simp add: put_completion_def)

lemma slots_fine_wake: "slots_fine (wake_all ws s) \<longleftrightarrow> slots_fine s"
  by (simp add: slots_fine_def occupied_def)

lemma end_slots_fine: "slots_fine s \<Longrightarrow> slots_fine (end_task a s)"
  by (simp add: end_task_def Let_def slots_fine_wake slots_fine_completions remove_slots_fine)

lemma fold_end_slots_fine: "slots_fine s \<Longrightarrow> slots_fine (fold end_task zs s)"
  by (induction zs arbitrary: s) (simp_all add: end_slots_fine)

lemma chan_task_remove [simp]: "chan_task (sched_channel (remove_task i s)) = chan_task (sched_channel s)"
  by (simp add: remove_task_def drop_future_def put_task_def split: option.split)

lemma chan_task_end [simp]: "chan_task (sched_channel (fold end_task zs s)) = chan_task (sched_channel s)"
  by (induction zs arbitrary: s) (simp_all add: end_task_def Let_def put_completion_def)

lemma done_task_cancelled [simp]: "done_task (set_cancelled x) = done_task x"
  by (simp add: set_cancelled_def)

lemma subtree_root: "live s a \<Longrightarrow> a \<in> subtree s {a}"
  by (auto simp: subtree_def)

text \<open>A task of the subtree other than its root is a child of one in it.\<close>

lemma subtree_parent:
  assumes "sched_ok_but A s" "c \<in> subtree s {a}" "c \<noteq> a"
  shows "\<exists>b \<in> subtree s {a}. task_parent (the_task s c) = Some b"
proof -
  from assms(2) have path: "live s a" "(kid s)\<^sup>*\<^sup>* a c" by (auto simp: subtree_def)
  from path(2) show ?thesis
  proof (cases rule: rtranclp.cases)
    case (rtrancl_into_rtrancl b)
    have "b \<in> subtree s {a}" using rtrancl_into_rtrancl(1) path(1) by (auto simp: subtree_def)
    moreover have "task_parent (the_task s c) = Some b"
      using rtrancl_into_rtrancl(2) ok_child(1) [OF assms(1)] by (auto simp: kid_def)
    ultimately show ?thesis by blast
  qed (use assms(3) in simp)
qed

lemma end_subtree_ok:
  assumes ok: "sched_ok_but {a} s" and a: "live s a"
    and unlisted: "\<And>b. live s b \<Longrightarrow> a \<notin> set (task_children (the_task s b))"
    and zs: "distinct zs" "set zs = subtree s {a}"
  shows "sched_ok (fold end_task zs s)"
proof -
  let ?s = "fold end_task zs s"
  have lives: "\<forall>x \<in> set zs. live s x" using zs(2) subtree_live by blast
  have f: "live ?s b \<longleftrightarrow> live s b \<and> b \<notin> set zs" for b by (rule fold_end_live_ids [OF lives])
  have t: "the_task ?s b = the_task s b" if "live s b" "b \<notin> set zs" for b
    using that fold_end_task f by blast
  have iss: "issued ?s = issued s" by (simp add: issued_def generation_at_def fun_eq_iff)
  have at: "a \<in> set zs" using subtree_root [OF a] zs(2) by simp
  note c = completions_fold_end [OF lives zs(1)]
  have dt: "done_task (completions ?s ! h) = done_task (completions s ! h)" if "h < length (completions s)" for h
    by (simp add: c [OF that])
  have slots: "done_task (completions s ! h) = Some b \<Longrightarrow> h < length (completions s) \<Longrightarrow> b \<notin> set zs \<Longrightarrow>
      completions ?s ! h = completions s ! h"
    "done_task (completions s ! h) = None \<Longrightarrow> h < length (completions s) \<Longrightarrow>
      completions ?s ! h = completions s ! h" for h b
    using c ok_completion(2) [OF ok] lives by (metis (no_types, lifting) image_iff option.inject option.distinct(1))+
  have pf: "parent_fine ?s u" if "parent_fine s u" for u
    using that t by (auto simp: parent_fine_def iss f)
  have "completions_fine {} ?s"
    unfolding completions_fine_def iss f
  proof (intro conjI allI impI ballI)
    fix b
    assume b: "live s b \<and> b \<notin> set zs"
    have l: "live s b" "b \<notin> set zs" "b \<noteq> a" "b \<notin> {a}" using b at by auto
    from slots(1) [OF ok_completion(2,1) [OF ok l(1)] l(2)]
    show "task_slot (the_task ?s b) < length (completions ?s)"
      "done_task (completions ?s ! task_slot (the_task ?s b)) = Some b"
      "b \<in> {} \<or> done_result (completions ?s ! task_slot (the_task ?s b)) = None"
      using ok_completion [OF ok l(1)] l(4) by (simp_all add: t [OF l(1,2)])
  next
    fix u
    assume "u \<in> set (spawn_queue ?s)"
    then have u: "u \<in> set (spawn_queue s)" by simp
    from slots(2) [OF ok_queued(2,1) [OF ok u]] ok_queued(1-3) [OF ok u]
    show "task_slot u < length (completions ?s)" "done_task (completions ?s ! task_slot u) = None"
      "done_result (completions ?s ! task_slot u) = None" by simp_all
  next
    show "distinct (map task_slot (spawn_queue ?s))" using ok_queued(5) [OF ok] by simp
  next
    fix h b
    assume "h < length (completions ?s) \<and> done_task (completions ?s ! h) = Some b"
    then show "issued s b" using ok_issued(1) [OF ok, of h b] dt [of h] by simp
  qed
  moreover have "family_fine {} ?s"
    unfolding family_fine_def iss f
  proof (intro conjI allI impI ballI)
    fix b d
    assume bd: "(live s b \<and> b \<notin> set zs) \<and> d \<in> set (task_children (the_task ?s b))"
    then have l: "live s b" "b \<notin> set zs" "d \<in> set (task_children (the_task s b))" using t by auto
    have child: "live s d" "task_parent (the_task s d) = Some b" using ok_child(1) [OF ok l(1,3)] by auto
    have "d \<noteq> a" using unlisted [OF l(1)] l(3) by auto
    with subtree_parent [OF ok, of d a] l(2) child(2) zs(2) have "d \<notin> set zs" by auto
    with child show "live s d" "d \<notin> set zs" "task_parent (the_task ?s d) = Some b" by (simp_all add: t)
  next
    fix b
    assume "live s b \<and> b \<notin> set zs"
    then show "distinct (task_children (the_task ?s b))" "parent_fine ?s (the_task ?s b)"
      using ok_child(2,3) [OF ok, of b] pf by (simp_all add: t)
  next
    fix b p
    assume bp: "(live s b \<and> b \<notin> set zs) \<and> task_parent (the_task ?s b) = Some p \<and>
      (live s p \<and> p \<notin> set zs) \<and> b \<notin> {}"
    then have l: "live s b" "task_parent (the_task s b) = Some p" "live s p" "b \<notin> {a}" using t at by auto
    from ok_child(4) [OF ok l] bp show "b \<in> set (task_children (the_task ?s p))" by (simp add: t)
  next
    fix u
    assume "u \<in> set (spawn_queue ?s)"
    then show "parent_fine ?s u" "task_children u = []" using ok_queued(4,6) [OF ok, of u] pf by simp_all
  next
    show "current_task ?s = Some b \<Longrightarrow> issued s b" for b using ok_issued(2) [OF ok] by simp
  qed
  moreover have "root_fine ?s"
    unfolding root_fine_def f
  proof (intro conjI allI impI ballI)
    fix b
    assume "live s b \<and> b \<notin> set zs"
    then have l: "live s b" and tb: "the_task ?s b = the_task s b" using t by auto
    show "task_root (the_task ?s b) \<noteq> None" using ok_root(1) [OF ok l] by (simp add: tb)
    show "task_root (the_task ?s b) = Some b" if "task_parent (the_task ?s b) = None"
      using ok_root(2) [OF ok l] that by (simp add: tb)
    show "task_root (the_task ?s b) = task_root (the_task ?s p)"
      if "task_parent (the_task ?s b) = Some p \<and> live s p \<and> p \<notin> set zs" for p
      using ok_root(3) [OF ok l, of p] that t [of p] by (simp add: tb)
  next
    fix u
    assume "u \<in> set (spawn_queue ?s)"
    then have u: "u \<in> set (spawn_queue s)" by simp
    show "task_root u = None \<longleftrightarrow> task_parent u = None" by (rule ok_root(4) [OF ok u])
    show "task_root u = task_root (the_task ?s p)"
      if "task_parent u = Some p \<and> live s p \<and> p \<notin> set zs" for p
      using ok_root(5) [OF ok u, of p] that t [of p] by simp
  next
    show "current_root ?s = None \<longleftrightarrow> current_task ?s = None" using ok_root(6) [OF ok] by simp
    show "current_root ?s = task_root (the_task ?s b)"
      if "current_task ?s = Some b \<and> live s b \<and> b \<notin> set zs" for b
      using ok_root(7) [OF ok, of b] that t [of b] by simp
    show "chan_task (sched_channel ?s) = current_root ?s" using ok_root(8) [OF ok] by simp
  qed
  ultimately show ?thesis
    using fold_end_slots_fine [OF ok_slots [OF ok]] by (simp add: sched_ok_but_def)
qed

section \<open>Taking a task off its parent's list\<close>

lemma disown_fields [simp]:
  "length (tasks (disown p a s)) = length (tasks s)" "generations (disown p a s) = generations s"
  "completions (disown p a s) = completions s" "spawn_queue (disown p a s) = spawn_queue s"
  "free_tasks (disown p a s) = free_tasks s" "active_count (disown p a s) = active_count s"
  "current_task (disown p a s) = current_task s" "current_root (disown p a s) = current_root s"
  "sched_channel (disown p a s) = sched_channel s" "sched_timers (disown p a s) = sched_timers s"
  "ready_queue (disown p a s) = ready_queue s"
  by (simp_all add: disown_def put_task_def split: option.split)

lemma disown_at:
  "task_at (disown p a s) j = (if j = p then map_option (\<lambda>t. t\<lparr>task_children := filter (\<lambda>c. c \<noteq> a) (task_children t)\<rparr>)
     (task_at s p) else task_at s j)"
  using task_at_beyond [of s p] by (auto simp: disown_def split: option.split)

lemma disown_generation [simp]: "generation_at (disown p a s) = generation_at s"
  by (simp add: generation_at_def fun_eq_iff)

lemma disown_live [simp]: "live (disown p a s) b \<longleftrightarrow> live s b"
  by (auto simp: live_def disown_at)

lemma disown_issued [simp]: "issued (disown p a s) b \<longleftrightarrow> issued s b"
  by (simp add: issued_def)

lemma disown_task:
  assumes "live s b"
  shows "task_slot (the_task (disown p a s) b) = task_slot (the_task s b)"
    "task_parent (the_task (disown p a s) b) = task_parent (the_task s b)"
    "task_root (the_task (disown p a s) b) = task_root (the_task s b)"
    "task_children (the_task (disown p a s) b) =
      (if id_slot b = p then filter (\<lambda>c. c \<noteq> a) (task_children (the_task s b)) else task_children (the_task s b))"
proof -
  obtain t where "task_at s (id_slot b) = Some t" using live_at [OF assms] by blast
  then show "task_slot (the_task (disown p a s) b) = task_slot (the_task s b)"
    "task_parent (the_task (disown p a s) b) = task_parent (the_task s b)"
    "task_root (the_task (disown p a s) b) = task_root (the_task s b)"
    "task_children (the_task (disown p a s) b) =
      (if id_slot b = p then filter (\<lambda>c. c \<noteq> a) (task_children (the_task s b)) else task_children (the_task s b))"
    by (auto simp: the_task_def disown_at)
qed

lemma disown_ok:
  assumes ok: "sched_ok_but A s" and a: "a \<in> A"
  shows "sched_ok_but A (disown p a s)"
proof -
  let ?s = "disown p a s"
  note t = disown_task [of s _ p a]
  have pf: "parent_fine ?s u \<longleftrightarrow> parent_fine s v" if "task_slot u = task_slot v" "task_parent u = task_parent v" for u v
    using that by (auto simp: parent_fine_def t)
  have sub: "set (task_children (the_task ?s b)) \<subseteq> set (task_children (the_task s b))" if "live s b" for b
    using t(4) [OF that] by auto
  have "occupied ?s = occupied s" by (auto simp: occupied_def disown_at)
  then have "slots_fine ?s" using ok_slots [OF ok] by (simp add: slots_fine_def)
  moreover have "completions_fine A ?s"
    unfolding completions_fine_def disown_live disown_issued disown_fields
  proof (intro conjI allI impI ballI)
    show "task_slot (the_task ?s b) < length (completions s)"
      "done_task (completions s ! task_slot (the_task ?s b)) = Some b"
      if "live s b" for b
      using ok_completion(1,2) [OF ok that] t(1) [OF that] by simp_all
    show "b \<in> A \<or> done_result (completions s ! task_slot (the_task ?s b)) = None" if "live s b" for b
      using ok_completion(3) [OF ok that] t(1) [OF that] by (cases "b \<in> A") simp_all
    show "issued s b" if "h < length (completions s) \<and> done_task (completions s ! h) = Some b" for h b
      using ok_issued(1) [OF ok] that by blast
  qed (use ok_queued [OF ok] in auto)
  moreover have "family_fine A ?s"
    unfolding family_fine_def disown_live disown_issued disown_fields
  proof (intro conjI allI impI ballI)
    fix b c
    assume bc: "live s b \<and> c \<in> set (task_children (the_task ?s b))"
    then have "c \<in> set (task_children (the_task s b))" using sub by blast
    with ok_child(1) [OF ok, of b c] bc show "live s c" "task_parent (the_task ?s c) = Some b"
      by (simp_all add: t)
  next
    show "distinct (task_children (the_task ?s b))" "parent_fine ?s (the_task ?s b)" if "live s b" for b
      using ok_child(2,3) [OF ok that] pf [OF t(1,2) [OF that]] by (simp_all add: t(4) [OF that])
  next
    fix b q
    assume "live s b \<and> task_parent (the_task ?s b) = Some q \<and> live s q \<and> b \<notin> A"
    then have l: "live s b" "task_parent (the_task s b) = Some q" "live s q" "b \<notin> A" using t(2) by auto
    then have "b \<noteq> a" using a by auto
    with ok_child(4) [OF ok l] show "b \<in> set (task_children (the_task ?s q))" by (simp add: t(4) [OF l(3)])
  next
    show "parent_fine ?s u" "task_children u = []" if "u \<in> set (spawn_queue s)" for u
      using ok_queued(4,6) [OF ok that] pf [of u u] by simp_all
    show "current_task s = Some b \<Longrightarrow> issued s b" for b by (rule ok_issued(2) [OF ok])
  qed
  moreover have "root_fine ?s"
    unfolding root_fine_def disown_live disown_fields
  proof (intro conjI allI impI ballI)
    fix b
    assume l: "live s b"
    show "task_root (the_task ?s b) \<noteq> None" using ok_root(1) [OF ok l] by (simp add: t l)
    show "task_root (the_task ?s b) = Some b" if "task_parent (the_task ?s b) = None"
      using ok_root(2) [OF ok l] that by (simp add: t l)
    show "task_root (the_task ?s b) = task_root (the_task ?s q)"
      if "task_parent (the_task ?s b) = Some q \<and> live s q" for q
      using ok_root(3) [OF ok l, of q] that by (simp add: t l)
  next
    fix u
    assume u: "u \<in> set (spawn_queue s)"
    show "task_root u = None \<longleftrightarrow> task_parent u = None" by (rule ok_root(4) [OF ok u])
    show "task_root u = task_root (the_task ?s q)" if "task_parent u = Some q \<and> live s q" for q
      using ok_root(5) [OF ok u, of q] that by (simp add: t)
  next
    show "current_root s = None \<longleftrightarrow> current_task s = None" by (rule ok_root(6) [OF ok])
    show "current_root s = task_root (the_task ?s b)" if "current_task s = Some b \<and> live s b" for b
      using ok_root(7) [OF ok, of b] that by (simp add: t)
    show "chan_task (sched_channel s) = current_root s" by (rule ok_root(8) [OF ok])
  qed
  ultimately show ?thesis by (simp add: sched_ok_but_def)
qed

text \<open>\<open>disown\<close> and the end of a task commute.\<close>

lemma end_task_Some:
  assumes "task_at s (id_slot b) = Some t"
  shows "end_task b s = s\<lparr>tasks := (tasks s)[id_slot b := None],
    completions := (completions s)[task_slot t := set_cancelled (completions s ! task_slot t)],
    free_tasks := free_tasks s @ [id_slot b], active_count := active_count s - 1,
    ready_queue := ready_queue s @ waker_slots (take_waker (done_waker (completions s ! task_slot t))),
    sched_channel := fold drop_op (held_ops (task_future t)) (sched_channel s),
    sched_timers := fold sleep_drop (held_sleeps (task_future t)) (sched_timers s)\<rparr>"
proof -
  have "the_task s b = t" using assms by (simp add: the_task_def)
  with assms show ?thesis
    unfolding end_task_def Let_def wake_all_update remove_task_def task_at_simps
    by (simp add: put_completion_def put_task_def drop_future_def)
qed

lemma end_task_None:
  "task_at s (id_slot b) = None \<Longrightarrow> end_task b s = s\<lparr>
    completions := (completions s)[task_slot (the_task s b) := set_cancelled (completions s ! task_slot (the_task s b))],
    ready_queue := ready_queue s @ waker_slots (take_waker (done_waker (completions s ! task_slot (the_task s b))))\<rparr>"
  unfolding end_task_def Let_def wake_all_update remove_task_def task_at_simps
  by (simp add: put_completion_def)

lemma disown_end: "disown p a (end_task b s) = end_task b (disown p a s)"
proof (cases "task_at s p")
  case None
  then show ?thesis by (simp add: disown_def)
next
  case (Some t)
  let ?t = "t\<lparr>task_children := filter (\<lambda>c. c \<noteq> a) (task_children t)\<rparr>"
  have d: "disown p a s = s\<lparr>tasks := (tasks s)[p := Some ?t]\<rparr>" using Some by (simp add: disown_def put_task_def)
  show ?thesis
  proof (cases "p = id_slot b")
    case True
    have "task_at (disown p a s) (id_slot b) = Some ?t" using Some True by (simp add: disown_at)
    note e1 = end_task_Some [OF this]
    have e2: "end_task b s = s\<lparr>tasks := (tasks s)[id_slot b := None],
      completions := (completions s)[task_slot t := set_cancelled (completions s ! task_slot t)],
      free_tasks := free_tasks s @ [id_slot b], active_count := active_count s - 1,
      ready_queue := ready_queue s @ waker_slots (take_waker (done_waker (completions s ! task_slot t))),
      sched_channel := fold drop_op (held_ops (task_future t)) (sched_channel s),
      sched_timers := fold sleep_drop (held_sleeps (task_future t)) (sched_timers s)\<rparr>"
      using Some True by (intro end_task_Some) simp
    have "disown p a (end_task b s) = end_task b s" using True by (simp add: disown_def)
    then show ?thesis unfolding e1 e2 unfolding d using True by simp
  next
    case False
    have same: "task_at (disown p a s) (id_slot b) = task_at s (id_slot b)" using False by (simp add: disown_at)
    then have the: "the_task (disown p a s) b = the_task s b" by (simp add: the_task_def)
    have p: "task_at (end_task b s) p = Some t" using Some False by simp
    have d': "disown p a (end_task b s) = (end_task b s)\<lparr>tasks := (tasks (end_task b s))[p := Some ?t]\<rparr>"
      using p by (simp add: disown_def put_task_def)
    show ?thesis
    proof (cases "task_at s (id_slot b)")
      case None
      with end_task_None [of "disown p a s" b] end_task_None [of s b] same the show ?thesis
        unfolding d' by (simp add: d)
    next
      case (Some u)
      with end_task_Some [of "disown p a s" b u] end_task_Some [of s b u] same False show ?thesis
        unfolding d' by (simp add: d list_update_swap)
    qed
  qed
qed

lemma disown_fold_end: "disown p a (fold end_task zs s) = fold end_task zs (disown p a s)"
  by (induction zs arbitrary: s) (simp_all add: disown_end)

lemma disown_kid: "kid (disown p a s) b c \<longleftrightarrow> kid s b c \<and> \<not> (id_slot b = p \<and> c = a)"
  by (auto simp: kid_def disown_task split: if_splits)

lemma subtree_disown:
  assumes "tree_ok s"
  shows "subtree (disown p a s) {a} = subtree s {a}"
proof -
  have "(kid (disown p a s))\<^sup>*\<^sup>* a c" if "(kid s)\<^sup>*\<^sup>* a c" for c
    using that
  proof (induction rule: rtranclp_induct)
    case (step b c)
    have "task_slot (the_task s b) < task_slot (the_task s c)" using step(2) assms by (simp add: tree_ok_def)
    with kid_above [OF step(1) assms] have "c \<noteq> a" by auto
    with step(2,3) show ?case by (auto simp: disown_kid intro: rtranclp.rtrancl_into_rtrancl)
  qed simp
  moreover have "(kid s)\<^sup>*\<^sup>* a c" if "(kid (disown p a s))\<^sup>*\<^sup>* a c" for c
    using that by (rule rtranclp_mono [THEN predicate2D, rotated]) (auto simp: disown_kid)
  ultimately show ?thesis by (auto simp: subtree_def)
qed

end
