(* ===== verification/SchedulerCancel.thy ===== *)
theory SchedulerCancel
  imports SchedulerEnd
begin

text \<open>Cancelling a task and finishing a poll as the end of a subtree; both keep the invariant.\<close>

section \<open>Cancelling\<close>

text \<open>The state in which the task is off its parent's list.\<close>

definition unlinked :: "task_id \<Rightarrow> scheduler \<Rightarrow> scheduler" where
  "unlinked a s = (case task_parent (the_task s a) of None \<Rightarrow> s | Some p \<Rightarrow> disown (id_slot p) a s)"

lemma sched_ok_but_mono: "sched_ok s \<Longrightarrow> sched_ok_but A s"
  unfolding sched_ok_but_def completions_fine_def family_fine_def by (elim conjE) (intro conjI; (assumption | metis empty_iff))

lemma unlinked_ok: "sched_ok_but A s \<Longrightarrow> a \<in> A \<Longrightarrow> sched_ok_but A (unlinked a s)"
  by (simp add: unlinked_def disown_ok split: option.split)

lemma unlinked_live [simp]: "live (unlinked a s) b \<longleftrightarrow> live s b"
  by (simp add: unlinked_def split: option.split)

lemma unlinked_fields [simp]:
  "length (tasks (unlinked a s)) = length (tasks s)" "generations (unlinked a s) = generations s"
  "completions (unlinked a s) = completions s" "spawn_queue (unlinked a s) = spawn_queue s"
  "sched_channel (unlinked a s) = sched_channel s" "sched_timers (unlinked a s) = sched_timers s"
  "ready_queue (unlinked a s) = ready_queue s" "current_task (unlinked a s) = current_task s"
  by (simp_all add: unlinked_def split: option.split)

lemma unlinked_task:
  assumes "live s b"
  shows "task_slot (the_task (unlinked a s) b) = task_slot (the_task s b)"
    "task_parent (the_task (unlinked a s) b) = task_parent (the_task s b)"
    "task_root (the_task (unlinked a s) b) = task_root (the_task s b)"
  using disown_task [OF assms] by (simp_all add: unlinked_def split: option.split)

lemma unlinked_unlisted:
  assumes "sched_ok_but A s" "live s b"
  shows "a \<notin> set (task_children (the_task (unlinked a s) b))"
proof
  assume mem: "a \<in> set (task_children (the_task (unlinked a s) b))"
  then have "a \<in> set (task_children (the_task s b))"
    by (auto simp: unlinked_def disown_task(4) [OF assms(2)] split: option.splits if_splits)
  from ok_child(1) [OF assms this] have "task_parent (the_task s a) = Some b" by simp
  with mem show False by (simp add: unlinked_def disown_task(4) [OF assms(2)])
qed

lemma subtree_unlinked: "tree_ok s \<Longrightarrow> subtree (unlinked a s) {a} = subtree s {a}"
  by (simp add: unlinked_def subtree_disown split: option.split)

lemma children_first_disown:
  assumes "children_first (unlinked a s) zs" "tree_ok s" "set zs = subtree s {a}"
  shows "children_first s zs"
  unfolding children_first_def
proof (intro allI impI)
  fix ys b ws c
  assume zs: "zs = ys @ b # ws" and k: "kid s b c"
  have "b \<in> subtree s {a}" using zs assms(3) [symmetric] by simp
  then have "(kid s)\<^sup>*\<^sup>* a b" by (auto simp: subtree_def)
  moreover have "task_slot (the_task s b) < task_slot (the_task s c)" using k assms(2) by (simp add: tree_ok_def)
  ultimately have "c \<noteq> a" using kid_above [OF _ assms(2)] by fastforce
  with k have "kid (unlinked a s) b c" by (simp add: unlinked_def disown_kid split: option.split)
  with assms(1) zs show "c \<in> set ys" unfolding children_first_def by blast
qed

lemma cancel_task_cases:
  assumes "sched_ok s"
  shows "\<not> live s a \<and> cancel_task a s = (False, s) \<or>
    live s a \<and> (\<exists>zs. distinct zs \<and> set zs = subtree s {a} \<and> children_first s zs \<and>
      cancel_task a s = (True, (let u = fold end_task zs (unlinked a s)
        in u\<lparr>ready_queue := filter (\<lambda>i. task_at u i \<noteq> None) (ready_queue u)\<rparr>)) \<and>
      sched_ok (fold end_task zs (unlinked a s)))"
proof (cases "live s a")
  case True
  have tree: "tree_ok s" by (rule ok_tree_ok [OF assms])
  have ok: "sched_ok_but {a} (unlinked a s)" by (rule unlinked_ok [OF sched_ok_but_mono [OF assms]]) simp
  from cancel_ends(1) [OF ok_tree_ok [OF ok], of a] subtree_unlinked [OF tree] obtain zs where
    zs: "distinct zs" "set zs = subtree s {a}" "children_first (unlinked a s) zs"
      "cancel_task_internal a (unlinked a s) = fold end_task zs (unlinked a s)" by metis
  have "cancel_task a s = (True, (let u = fold end_task zs (unlinked a s)
        in u\<lparr>ready_queue := filter (\<lambda>i. task_at u i \<noteq> None) (ready_queue u)\<rparr>))"
    using True live_at [OF True] zs(4) by (simp add: cancel_task_def live_def unlinked_def Let_def split: option.splits)
  moreover have "sched_ok (fold end_task zs (unlinked a s))"
    using end_subtree_ok [OF ok _ _ zs(1)] True unlinked_unlisted [OF assms] zs(2) subtree_unlinked [OF tree] by simp
  ultimately show ?thesis using True zs children_first_disown [OF zs(3) tree zs(2)] by blast
next
  case False
  then show ?thesis by (auto simp: live_def cancel_task_def)
qed

lemma cancel_task_ok: "sched_ok s \<Longrightarrow> cancel_task a s = (b, s') \<Longrightarrow> sched_ok s'"
  using cancel_task_cases [of s a] same_frame_ok [OF frame_queue] by (auto simp: Let_def)

lemma cancel_handle_ok: "sched_ok s \<Longrightarrow> cancel_handle h s = (b, s') \<Longrightarrow> sched_ok s'"
  using cancel_task_ok by (auto simp: cancel_handle_def split: option.splits)

section \<open>Finishing a poll\<close>

lemma leave_parent_unlinked:
  assumes "sched_ok_but A s" "live s (id_at s i)" "a = id_at s i" "generations u = generations s"
  shows "leave_parent i (task_parent (the_task s a)) u =
    (case task_parent (the_task s a) of None \<Rightarrow> u
     | Some p \<Rightarrow> if generation_at s (id_slot p) = id_gen p then disown (id_slot p) a u else u)"
  using assms by (simp add: leave_parent_def id_at_def generation_at_def split: option.split)

text \<open>The slot gets the result, and the task is taken off its parent's list when that is still there.\<close>

definition with_result :: "task_id \<Rightarrow> task_result \<Rightarrow> scheduler \<Rightarrow> scheduler" where
  "with_result a r s = put_completion (task_slot (the_task s a))
     ((completions s ! task_slot (the_task s a))\<lparr>done_result := Some r, done_waker := None\<rparr>) s"

lemma put_completion_tree:
  "live (put_completion h x s) = live s" "the_task (put_completion h x s) = the_task s"
  "issued (put_completion h x s) = issued s" "occupied (put_completion h x s) = occupied s"
  unfolding put_completion_def by (rule tree_congs; simp)+

lemma with_result_ok:
  assumes ok: "sched_ok s" and a: "live s a"
  shows "sched_ok_but {a} (with_result a r s)"
proof -
  let ?h = "task_slot (the_task s a)"
  let ?s = "with_result a r s"
  note tree = put_completion_tree [of ?h _ s, folded with_result_def]
  have tree: "live ?s = live s" "the_task ?s = the_task s" "issued ?s = issued s"
    unfolding with_result_def by (rule put_completion_tree)+
  have f: "spawn_queue ?s = spawn_queue s" "current_task ?s = current_task s" "current_root ?s = current_root s"
    "sched_channel ?s = sched_channel s" "length (completions ?s) = length (completions s)"
    by (simp_all add: with_result_def put_completion_def)
  have p: "parent_fine ?s u \<longleftrightarrow> parent_fine s u" for u by (simp add: parent_fine_def tree)
  have other: "completions ?s ! h = completions s ! h" if "h \<noteq> ?h" for h
    using that by (simp add: with_result_def put_completion_def)
  have done_task: "done_task (completions ?s ! h) = done_task (completions s ! h)" if "h < length (completions s)" for h
    using that by (auto simp: with_result_def put_completion_def nth_update)
  have "slots_fine ?s" using ok_slots [OF ok] by (simp add: with_result_def slots_fine_completions)
  moreover have "completions_fine {a} ?s"
    unfolding completions_fine_def tree f
  proof (intro conjI allI impI ballI)
    fix b
    assume l: "live s b"
    note c = ok_completion [OF ok l]
    show "task_slot (the_task s b) < length (completions s)"
      "done_task (completions ?s ! task_slot (the_task s b)) = Some b" using c done_task by simp_all
    show "b \<in> {a} \<or> done_result (completions ?s ! task_slot (the_task s b)) = None"
    proof (cases "b = a")
      case False
      then have "task_slot (the_task s b) \<noteq> ?h" using ok_tree_ok [OF ok] l a by (auto simp: tree_ok_def)
      with c other show ?thesis by simp
    qed simp
  next
    fix u
    assume "u \<in> set (spawn_queue s)"
    note c = ok_queued(1-3) [OF ok this]
    then have "task_slot u \<noteq> ?h" using ok_completion(2) [OF ok a] by auto
    with c other show "task_slot u < length (completions s)" "done_task (completions ?s ! task_slot u) = None"
      "done_result (completions ?s ! task_slot u) = None" by simp_all
  next
    show "distinct (map task_slot (spawn_queue s))" by (rule ok_queued(5) [OF ok])
    show "issued s b" if "h < length (completions s) \<and> done_task (completions ?s ! h) = Some b" for h b
      using that done_task [of h] ok_issued(1) [OF ok, of h b] by simp
  qed
  moreover have "family_fine {a} ?s"
    using sched_ok_but_mono [OF ok, of "{a}"] unfolding sched_ok_but_def family_fine_def tree f p by blast
  moreover have "root_fine ?s"
    using ok unfolding sched_ok_but_def root_fine_def tree f by blast
  ultimately show ?thesis by (simp add: sched_ok_but_def)
qed

lemma subtree_cong: "live s' = live s \<Longrightarrow> the_task s' = the_task s \<Longrightarrow> subtree s' = subtree s"
proof -
  assume eq: "live s' = live s" "the_task s' = the_task s"
  then have "kid s' = kid s" by (intro ext) (simp add: kid_def)
  with eq show ?thesis by (intro ext) (simp add: subtree_def)
qed

lemma children_first_cong:
  "live s' = live s \<Longrightarrow> the_task s' = the_task s \<Longrightarrow> children_first s' zs \<longleftrightarrow> children_first s zs"
  by (simp add: children_first_def kid_def)

lemma tree_ok_cong:
  "live s' = live s \<Longrightarrow> the_task s' = the_task s \<Longrightarrow> length (tasks s') = length (tasks s) \<Longrightarrow>
     length (generations s') = length (generations s) \<Longrightarrow> length (completions s') = length (completions s) \<Longrightarrow>
     tree_ok s' \<longleftrightarrow> tree_ok s"
  by (simp add: tree_ok_def kid_def)

lemma subtree_children:
  assumes "live s a"
  shows "subtree s {a} = insert a (subtree s (set (task_children (the_task s a))))"
proof -
  have "c = a \<or> c \<in> subtree s (set (task_children (the_task s a)))" if "(kid s)\<^sup>*\<^sup>* a c" for c
    using that by (cases rule: converse_rtranclpE) (auto simp: subtree_def kid_def)
  moreover have "(kid s)\<^sup>*\<^sup>* a c" if "c \<in> subtree s (set (task_children (the_task s a)))" for c
    using that assms by (auto simp: subtree_def kid_def intro: converse_rtranclp_into_rtranclp)
  ultimately show ?thesis using assms unfolding subtree_def [of s "{a}"] by auto
qed

lemma leave_parent_end: "leave_parent i p (fold end_task zs s) = fold end_task zs (leave_parent i p s)"
  by (simp add: leave_parent_def generation_at_def disown_fold_end split: option.split)

lemma disown_unlisted:
  assumes "\<And>t. task_at s p = Some t \<Longrightarrow> a \<notin> set (task_children t)"
  shows "disown p a s = s"
proof (cases "task_at s p")
  case (Some t)
  have "filter (\<lambda>c. c \<noteq> a) (task_children t) = task_children t"
    using assms [OF Some] by (auto simp: filter_id_conv)
  with Some task_at_beyond [OF Some] show ?thesis
    by (simp add: disown_def put_task_def task_at_def list_update_same_conv)
qed (simp add: disown_def)

lemma leave_parent_is_unlinked:
  assumes "sched_ok_but A s" "live s a"
  shows "leave_parent (id_slot a) (task_parent (the_task s a)) s = unlinked a s"
proof (cases "task_parent (the_task s a)")
  case (Some p)
  have a: "\<lparr>id_slot = id_slot a, id_gen = generation_at s (id_slot a)\<rparr> = a"
    using assms(2) by (simp add: live_def)
  have "disown (id_slot p) a s = s" if "generation_at s (id_slot p) \<noteq> id_gen p"
  proof (rule disown_unlisted)
    fix t
    assume t: "task_at s (id_slot p) = Some t"
    have "live s (id_at s (id_slot p))" using t by (simp add: live_id_at)
    from ok_child(1) [OF assms(1) this, of a] the_task_id_at [OF t] Some that
    show "a \<notin> set (task_children t)" by (metis id_at_simps(2) option.inject)
  qed
  with Some show ?thesis by (simp add: leave_parent_def unlinked_def a)
qed (simp add: leave_parent_def unlinked_def)

lemma fold_end_unlinked: "fold end_task zs (unlinked a s) = (case task_parent (the_task s a) of
    None \<Rightarrow> fold end_task zs s | Some p \<Rightarrow> disown (id_slot p) a (fold end_task zs s))"
  by (simp add: unlinked_def disown_fold_end split: option.split)

lemma remove_is_end:
  assumes "done_result (completions s ! task_slot (the_task s a)) \<noteq> None"
    "done_waker (completions s ! task_slot (the_task s a)) = None"
  shows "remove_task (id_slot a) s = end_task a s"
proof -
  let ?h = "task_slot (the_task s a)"
  have "set_cancelled (completions s ! ?h) = completions s ! ?h"
    using assms by (auto simp: set_cancelled_def)
  then have "put_completion ?h (set_cancelled (completions s ! ?h)) s = s" by (simp add: put_completion_def)
  with assms(2) show ?thesis by (simp add: end_task_def Let_def)
qed

lemma finish_poll_ready:
  assumes ok: "sched_ok s" and t: "live s a"
  shows "\<exists>zs. distinct zs \<and> set zs = subtree s {a} \<and> children_first s zs \<and>
    finish_poll (id_slot a) (Ready r) s = wake_all (take_waker (done_waker (completions s ! task_slot (the_task s a))))
      (fold end_task zs (unlinked a (with_result a r (clear_context s)))) \<and>
    sched_ok (fold end_task zs (unlinked a (with_result a r (clear_context s))))"
proof -
  define c where "c = clear_context s"
  have c: "sched_ok c" unfolding c_def by (rule clear_context_ok [OF ok])
  have cc: "live c = live s" "the_task c = the_task s" "completions c = completions s"
    unfolding c_def clear_context_def by (rule tree_congs; simp)+ simp
  let ?t = "the_task s a"
  let ?h = "task_slot ?t"
  define s1 where "s1 = with_result a r c"
  have ca: "live c a" using t cc by simp
  have ok1: "sched_ok_but {a} s1" unfolding s1_def by (rule with_result_ok [OF c ca])
  have tree1: "live s1 = live s" "the_task s1 = the_task s"
    unfolding s1_def with_result_def by (simp_all add: put_completion_tree cc)
  note sub1 = subtree_cong [OF tree1]
  define s2 where "s2 = unlinked a s1"
  have ok2: "sched_ok_but {a} s2" unfolding s2_def by (rule unlinked_ok [OF ok1]) simp
  obtain xs where xs: "distinct xs" "set xs = subtree s (set (task_children ?t))" "children_first s xs"
      "cancel_children (task_children ?t) s1 = fold end_task xs s1"
    using cancel_ends(2) [OF ok_tree_ok [OF ok1], of "task_children ?t"]
    unfolding sub1 children_first_cong [OF tree1] by blast
  have set: "subtree s {a} = insert a (set xs)" using subtree_children [OF t] xs(2) by simp
  have lives: "\<forall>x \<in> set xs. live s2 x" using xs(2) subtree_live [of _ s] by (simp add: s2_def tree1)
  have above: "?h < task_slot (the_task s x)" if x: "x \<in> set xs" for x
  proof -
    from x xs(2) obtain b where b: "b \<in> set (task_children ?t)" "live s b" "(kid s)\<^sup>*\<^sup>* b x"
      by (auto simp: subtree_def)
    then have "kid s a b" using t by (simp add: kid_def)
    then have "?h < task_slot (the_task s b)" using ok_tree_ok [OF ok] by (simp add: tree_ok_def)
    with kid_above [OF b(3) ok_tree_ok [OF ok]] show ?thesis by auto
  qed
  then have a: "a \<notin> set xs" by blast
  have zs: "distinct (xs @ [a])" "set (xs @ [a]) = subtree s {a}" using xs(1) a set by simp_all
  have "b \<in> set xs" if "kid s a b" for b
    using that set subtree_closed [of a s "{a}" b] subtree_root [OF t] ok_tree_ok [OF ok]
    by (auto simp: tree_ok_def)
  then have first: "children_first s (xs @ [a])" by (rule children_first_snoc [OF xs(3)])
  define u where "u = fold end_task xs s2"
  have ua: "live u a" using t a unfolding u_def fold_end_live_ids [OF lives] by (simp add: s2_def tree1)
  then have uh: "task_slot (the_task u a) = ?h"
    using fold_end_task [of xs s2 a] t by (simp add: u_def s2_def unlinked_task tree1)
  have h: "?h < length (completions s)" by (rule ok_completion(1) [OF ok t])
  have slots: "?h \<notin> (\<lambda>x. task_slot (the_task s2 x)) ` set xs"
    using above lives by (fastforce simp: s2_def unlinked_task tree1)
  have "completions u ! ?h = completions s1 ! ?h"
    using completions_fold_end [OF lives xs(1), of ?h] h slots
    by (simp add: u_def s2_def s1_def with_result_def put_completion_def cc)
  then have "done_result (completions u ! ?h) \<noteq> None" "done_waker (completions u ! ?h) = None"
    using h by (simp_all add: s1_def with_result_def put_completion_def cc)
  then have last: "remove_task (id_slot a) u = end_task a u" by (intro remove_is_end) (simp_all add: uh)
  have "leave_parent (id_slot a) (task_parent ?t) (fold end_task xs s1) = u"
    using leave_parent_is_unlinked [OF ok1, of a] t by (simp add: leave_parent_end u_def s2_def tree1)
  moreover have "task_at c (id_slot a) = Some ?t" using live_at [OF ca] cc by simp
  ultimately have "finish_poll (id_slot a) (Ready r) s =
      wake_all (take_waker (done_waker (completions s ! ?h))) (remove_task (id_slot a) u)"
    using xs(4) by (simp add: finish_poll_def Let_def c_def [symmetric] cc s1_def with_result_def)
  then have "finish_poll (id_slot a) (Ready r) s =
      wake_all (take_waker (done_waker (completions s ! ?h))) (fold end_task (xs @ [a]) s2)"
    using last by (simp add: u_def)
  moreover have "sched_ok (fold end_task (xs @ [a]) s2)"
  proof (rule end_subtree_ok [OF ok2 _ _ zs(1)])
    show "live s2 a" using t by (simp add: s2_def tree1)
    show "a \<notin> set (task_children (the_task s2 b))" if "live s2 b" for b
      using that unlinked_unlisted [OF ok1, of b a] by (simp add: s2_def)
    show "set (xs @ [a]) = subtree s2 {a}"
      using zs(2) subtree_unlinked [OF ok_tree_ok [OF ok1], of a] by (simp add: s2_def sub1)
  qed
  ultimately show ?thesis using zs first unfolding s2_def s1_def c_def by blast
qed

lemma finish_poll_idle: "finish_poll i Pending s = clear_context s"
  "task_at s i = None \<Longrightarrow> finish_poll i p s = clear_context s"
proof -
  have "task_at (clear_context s) = task_at s" by (simp add: clear_context_def task_at_def fun_eq_iff)
  then show "finish_poll i Pending s = clear_context s" "task_at s i = None \<Longrightarrow> finish_poll i p s = clear_context s"
    by (simp_all add: finish_poll_def Let_def split: poll.split)
qed

lemma finish_poll_ok:
  assumes "sched_ok s"
  shows "sched_ok (finish_poll i p s)"
proof (cases "task_at s i = None \<or> p = Pending")
  case True
  with clear_context_ok [OF assms] show ?thesis by (auto simp: finish_poll_idle)
next
  case False
  then obtain r where "live s (id_at s i)" "p = Ready r" by (cases p) (auto simp: live_id_at)
  with finish_poll_ready [OF assms, of "id_at s i" r] same_frame_ok [OF frame_wake(1)] show ?thesis by auto
qed

end
