(* ===== verification/SchedulerRun.thy ===== *)
theory SchedulerRun
  imports SchedulerCancel
begin

text \<open>
  The scheduler as a state machine. A step is one call of its interface, by a task that is polled or
  from outside, or one half of a poll; a nested \<open>run\<close> is a poll inside a poll with the context put
  back after it. Each step submits at most one host operation.
\<close>

section \<open>Steps\<close>

text \<open>The first argument holds the slots whose result the step may take.\<close>

fun taken_by :: "task_act \<Rightarrow> nat set" where
  "taken_by (Await h) = {h}"
| "taken_by (TryGet h) = {h}"
| "taken_by a = {}"

inductive sched_step :: "nat set \<Rightarrow> scheduler \<Rightarrow> scheduler \<Rightarrow> bool" where
  step_spawn: "spawn f s = (h, s') \<Longrightarrow> sched_step {} s s'"
| step_place: "sched_step {} s (process_spawn_queue s)"
| step_cancel: "cancel_task a s = (b, s') \<Longrightarrow> sched_step {} s s'"
| step_await: "await_slot w h s = (r, s') \<Longrightarrow> sched_step {h} s s'"
| step_handle: "poll_handle w h s = (r, s') \<Longrightarrow> sched_step {h} s s'"
| step_get: "try_get h s = (r, s') \<Longrightarrow> sched_step {h} s s'"
| step_act: "sched_step (taken_by a) s (do_act i a s)"
| step_wake: "sched_step {} s (wake w s)"
| step_begin: "begin_poll s = (x, s') \<Longrightarrow> sched_step {} s s'"
| step_finish: "sched_step {} s (finish_poll i p s)"
| step_context: "context_ok t r s \<Longrightarrow> sched_step {} s (set_context t r s)"
| step_timers: "process_timers s = Some s' \<Longrightarrow> sched_step {} s s'"
| step_take: "take_host_op s = (r, s') \<Longrightarrow> sched_step {} s s'"
| step_complete: "i \<notin> queued (sched_channel s) \<Longrightarrow> sched_step {} s (complete_host_op i d s)"
| step_fail: "i \<notin> queued (sched_channel s) \<Longrightarrow> sched_step {} s (complete_host_op_err i e s)"
| step_chunk: "i \<notin> queued (sched_channel s) \<Longrightarrow> append_host_chunk i d eof s = (r, s') \<Longrightarrow> sched_step {} s s'"
| step_clear: "sched_step {} s (clear_chunk_buffer i s)"

inductive sched_reach :: "nat \<Rightarrow> nat \<Rightarrow> scheduler \<Rightarrow> bool" for m where
  reach_new: "sched_reach m 0 (scheduler_new m)"
| reach_step: "sched_reach m n s \<Longrightarrow> n < max_issued \<Longrightarrow> sched_step hs s s' \<Longrightarrow> sched_reach m (Suc n) s'"

text \<open>Steps that do not take the result in slot \<open>h\<close>.\<close>

inductive sched_later :: "nat \<Rightarrow> nat \<times> scheduler \<Rightarrow> nat \<times> scheduler \<Rightarrow> bool" for h where
  later_same: "sched_later h x x"
| later_step: "sched_later h x (n, s) \<Longrightarrow> n < max_issued \<Longrightarrow> sched_step hs s s' \<Longrightarrow> h \<notin> hs \<Longrightarrow>
    sched_later h x (Suc n, s')"

section \<open>The invariant\<close>

lemma act_ok: "sched_ok s \<Longrightarrow> sched_ok (do_act i a s)"
proof (cases "in_frame a")
  case True
  then show "sched_ok s \<Longrightarrow> sched_ok (do_act i a s)" by (rule same_frame_ok [OF frame_act])
next
  case False
  then show "sched_ok s \<Longrightarrow> sched_ok (do_act i a s)"
  proof (cases a)
    case (Spawn f)
    then show "sched_ok s \<Longrightarrow> sched_ok (do_act i a s)" using spawn_ok by (cases "spawn f s") auto
  next
    case (CancelHandle h)
    then show "sched_ok s \<Longrightarrow> sched_ok (do_act i a s)" using cancel_handle_ok by (cases "cancel_handle h s") auto
  qed simp_all
qed

lemma step_ok: "sched_step hs s s' \<Longrightarrow> sched_ok s \<Longrightarrow> sched_ok s'"
proof (induction rule: sched_step.cases)
  case step_spawn
  then show ?case using spawn_ok by blast
next
  case step_place
  then show ?case using process_spawn_ok by blast
next
  case step_cancel
  then show ?case using cancel_task_ok by blast
next
  case step_await
  then show ?case using frame_await same_frame_ok by blast
next
  case step_handle
  then show ?case using frame_poll_handle same_frame_ok by blast
next
  case step_get
  then show ?case using frame_try_get same_frame_ok by blast
next
  case step_act
  then show ?case using act_ok by blast
next
  case step_wake
  then show ?case using frame_wake(2) same_frame_ok by blast
next
  case step_begin
  then show ?case using begin_poll_ok by blast
next
  case step_finish
  then show ?case using finish_poll_ok by blast
next
  case step_context
  then show ?case using set_context_ok by blast
next
  case step_timers
  then show ?case using frame_timers same_frame_ok by blast
next
  case step_take
  then show ?case using frame_take same_frame_ok by blast
next
  case step_complete
  then show ?case using frame_complete(1) same_frame_ok by blast
next
  case step_fail
  then show ?case using frame_complete(2) same_frame_ok by blast
next
  case step_chunk
  then show ?case using frame_append same_frame_ok by blast
next
  case step_clear
  then show ?case using frame_clear same_frame_ok by blast
qed

lemma reach_ok: "sched_reach m n s \<Longrightarrow> sched_ok s"
  by (induction rule: sched_reach.induct) (auto intro: sched_new_ok step_ok)

section \<open>The channel below\<close>

lemma within_op:
  assumes "chan_within m n c" "n < max_issued" "host_allowed op c"
  shows "chan_within m (Suc n) (snd (snd (chan_step op c)))"
  using chan_within_step [OF assms(1,2,3)] by (cases "chan_step op c") (auto split: prod.splits)

lemma within_drops: "chan_within m n c \<Longrightarrow> chan_within m n (fold drop_op fs c)"
  by (induction fs arbitrary: c) (simp_all add: chan_within_drop)

lemma within_end: "chan_within m n (sched_channel s) \<Longrightarrow> chan_within m n (sched_channel (fold end_task zs s))"
proof (induction zs arbitrary: s)
  case (Cons z zs)
  have "sched_channel (end_task z s) = sched_channel s \<or>
      (\<exists>fs. sched_channel (end_task z s) = fold drop_op fs (sched_channel s))"
    by (cases "task_at s (id_slot z)") (auto simp: end_task_None end_task_Some)
  with Cons.prems within_drops have "chan_within m n (sched_channel (end_task z s))" by metis
  with Cons.IH show ?case by simp
qed simp

lemma process_total:
  assumes "chan_within m n c" "n < max_issued"
  shows "\<exists>ws t' c'. timer_process t c = Some (ws, t', c') \<and> chan_within m (Suc n) c'"
proof -
  have idle: "\<exists>t' c'. process_loop (Suc (Suc k)) t c = Some ([], t', c') \<and> chan_within m (Suc n) c'"
    if "wake_state t = WakeIdle" "chan_within m n c" for k t c
  proof (cases "timer_heap t")
    case Nil
    with that chan_within_mono [OF that(2), of "Suc n"] show ?thesis by simp
  next
    case (Cons e h)
    obtain p f c' where "poll_op NoopWaker (OpPending (WakeAt (fst e))) c = (p, f, c')" by (metis prod_cases3)
    with poll_new [OF that(2) assms(2) this] that Cons show ?thesis by (cases e) simp
  qed
  show ?thesis
  proof (cases "wake_state t")
    case WakeIdle
    with idle [OF _ assms(1), of t "Suc (Suc 0)"] show ?thesis by (auto simp: process_unfold)
  next
    case (WakePending d f)
    obtain p f' c1 where poll: "poll_op NoopWaker f c = (p, f', c1)" by (metis prod_cases3)
    show ?thesis
    proof (cases p)
      case Pending
      have "chan_within m (Suc n) c1" using within_op [OF assms, of "PollFuture NoopWaker f"] poll by simp
      with WakePending poll Pending show ?thesis by (simp add: process_unfold)
    next
      case (Ready r)
      have c1: "chan_within m n (drop_op f' c1)"
        using chan_within_drop poll_old [OF assms(1) _ assms(2)] poll Ready by blast
      show ?thesis
      proof (cases r)
        case (Inl e)
        with idle [OF _ c1, of "t\<lparr>wake_state := WakeIdle\<rparr>" "Suc 0"] WakePending poll Ready
        show ?thesis by (auto simp: process_unfold)
      next
        case (Inr bs)
        obtain ws t1 where fire: "fire_expired (reported_time bs) t = (ws, t1)" by fastforce
        with idle [OF _ c1, of "t1\<lparr>wake_state := WakeIdle\<rparr>" "Suc 0"] WakePending poll Ready Inr
        show ?thesis by (auto simp: process_unfold)
      qed
    qed
  qed
qed

lemma spawn_channel [simp]:
  "spawn f s = (h, s') \<Longrightarrow> sched_channel s' = sched_channel s"
  "sched_channel (process_spawn_queue s) = sched_channel s"
proof -
  show "spawn f s = (h, s') \<Longrightarrow> sched_channel s' = sched_channel s" by (auto simp: spawn_def Let_def)
  have "sched_channel (assign_task t u) = sched_channel u" for t u
    by (auto simp: assign_task_def place_task_def adopt_def put_task_def put_completion_def Let_def
        split: option.split if_split)
  then have "sched_channel (fold assign_task ts u) = sched_channel u" for ts u
    by (induction ts arbitrary: u) simp_all
  then show "sched_channel (process_spawn_queue s) = sched_channel s" by (simp add: process_spawn_queue_def)
qed

lemma handle_channel:
  "await_slot w h s = (r, s') \<Longrightarrow> sched_channel s' = sched_channel s"
  "poll_handle w h s = (p, s') \<Longrightarrow> sched_channel s' = sched_channel s"
  "try_get h s = (r, s') \<Longrightarrow> sched_channel s' = sched_channel s"
proof -
  show a: "await_slot w h s = (r, s') \<Longrightarrow> sched_channel s' = sched_channel s" for r s'
    by (auto simp: await_slot_def Let_def put_completion_def split: option.splits if_splits)
  show "poll_handle w h s = (p, s') \<Longrightarrow> sched_channel s' = sched_channel s"
    by (auto simp: poll_handle_def split: if_splits prod.splits option.splits dest: a)
  show "try_get h s = (r, s') \<Longrightarrow> sched_channel s' = sched_channel s"
    by (auto simp: try_get_def Let_def put_completion_def split: option.splits)
qed

lemma cancel_within:
  assumes "sched_ok s" "chan_within m n (sched_channel s)" "cancel_task a s = (b, s')"
  shows "chan_within m n (sched_channel s')"
  using cancel_task_cases [OF assms(1), of a] assms(2,3) within_end [of m n "unlinked a s"]
  by (auto simp: Let_def)

lemma context_within:
  assumes "chan_within m n (sched_channel s)" "n < max_issued"
  shows "chan_within m n (sched_channel (set_context t r s))"
proof -
  from assms(1) obtain ids where ids: "chan_ok m ids (sched_channel s)" "length ids \<le> n" unfolding chan_within_def by blast
  have "length ids < max_issued" using ids(2) assms(2) by simp
  from chan_step_ok [OF ids(1), of "SetTask r", OF _ this] ids(2) show ?thesis
    unfolding chan_within_def by (auto simp: set_context_def)
qed

lemma begin_within:
  assumes "chan_within m n (sched_channel s)" "n < max_issued" "begin_poll s = (x, s')"
  shows "chan_within m n (sched_channel s')"
proof (cases x)
  case None
  with assms show ?thesis by (auto simp: begin_poll_def Let_def split: option.splits prod.splits)
next
  case (Some i)
  from begin_poll_live(2) [OF assms(3) [unfolded Some]] context_within [OF assms(1,2)] show ?thesis by auto
qed

lemma finish_within:
  assumes "sched_ok s" "chan_within m n (sched_channel s)" "n < max_issued"
  shows "chan_within m n (sched_channel (finish_poll i p s))"
proof -
  have c: "chan_within m n (sched_channel (clear_context s))"
    unfolding clear_context_set by (rule context_within [OF assms(2,3)])
  show ?thesis
  proof (cases "task_at s i = None \<or> p = Pending")
    case True
    with c show ?thesis by (auto simp: finish_poll_idle)
  next
    case False
    then obtain r where "live s (id_at s i)" "p = Ready r" by (cases p) (auto simp: live_id_at)
    moreover have "sched_channel (unlinked a (with_result a r u)) = sched_channel u" for a r u
      by (simp add: with_result_def put_completion_def)
    ultimately show ?thesis
      using finish_poll_ready [OF assms(1), of "id_at s i" r] c within_end by fastforce
  qed
qed

lemma with_future_channel:
  assumes "\<And>f. chan_within m n (sched_channel (snd (h f s)))" "chan_within m n (sched_channel s)"
  shows "chan_within m n (sched_channel (with_future i h s))"
  using assms(2) assms(1)
  by (auto simp: with_future_def put_task_def Let_def split: option.split prod.split) (metis snd_conv)

lemma sleep_within:
  "chan_within m n c \<Longrightarrow> sleep_new d t c = (f, t', c') \<Longrightarrow> chan_within m n c'"
  by (auto simp: sleep_new_def timer_register_def Let_def chan_within_drop
      split: prod.splits if_splits wake_at_state.splits)

lemma act_within:
  assumes "sched_ok s" "chan_within m n (sched_channel s)" "n < max_issued"
  shows "chan_within m (Suc n) (sched_channel (do_act i a s))"
proof -
  have more: "chan_within m (Suc n) c" if "chan_within m n c" for c
    using chan_within_mono [OF that, of "Suc n"] by simp
  show ?thesis
  proof (cases a)
    case (Spawn f)
    with assms(2) more show ?thesis by (cases "spawn f s") simp
  next
    case (Await h)
    with assms(2) more show ?thesis
      using handle_channel(2) [of "TaskWaker i" h s] by (cases "poll_handle (TaskWaker i) h s") simp
  next
    case (TryGet h)
    with assms(2) more show ?thesis using handle_channel(3) [of h s] by (cases "try_get h s") simp
  next
    case (CancelHandle h)
    have "chan_within m n (sched_channel (snd (cancel_handle h s)))"
      using cancel_within [OF assms(1,2)] assms(2)
      by (auto simp: cancel_handle_def split: option.split) (metis prod.collapse)
    with CancelHandle assms(2) more show ?thesis by simp
  next
    case (PollOp k)
    have "chan_within m (Suc n) c" if "poll_op w f (sched_channel s) = (p, x, c)" for w f p x c
      using within_op [OF assms(2,3), of "PollFuture w f"] that by simp
    with PollOp more [OF assms(2)] show ?thesis
      by (auto intro!: with_future_channel split: prod.split)
  next
    case (DropOp k)
    with more assms(2) chan_within_drop show ?thesis by (auto intro!: with_future_channel)
  next
    case (StartSleep d)
    with more assms(2) sleep_within [OF assms(2)] show ?thesis
      by (auto intro!: with_future_channel split: prod.split)
  qed (use more [OF assms(2)] in \<open>auto intro!: with_future_channel split: prod.split\<close>)
qed

lemma step_within:
  assumes "sched_step hs s s'" "sched_ok s" "chan_within m n (sched_channel s)" "n < max_issued"
  shows "chan_within m (Suc n) (sched_channel s')"
proof -
  have more: "chan_within m (Suc n) c" if "chan_within m n c" for c
    using chan_within_mono [OF that, of "Suc n"] by simp
  note op = within_op [OF assms(3,4)]
  from assms(1) show ?thesis
  proof cases
    case step_spawn
    with more assms(3) show ?thesis by simp
  next
    case step_place
    with more assms(3) show ?thesis by simp
  next
    case step_cancel
    with more cancel_within [OF assms(2,3)] show ?thesis by blast
  next
    case step_await
    with more assms(3) handle_channel(1) show ?thesis by metis
  next
    case step_handle
    with more assms(3) handle_channel(2) show ?thesis by metis
  next
    case step_get
    with more assms(3) handle_channel(3) show ?thesis by metis
  next
    case step_act
    with act_within [OF assms(2-4)] show ?thesis by simp
  next
    case step_wake
    with more assms(3) show ?thesis by simp
  next
    case step_begin
    with more begin_within [OF assms(3,4)] show ?thesis by blast
  next
    case step_finish
    with more finish_within [OF assms(2-4)] show ?thesis by blast
  next
    case step_context
    with more context_within [OF assms(3,4)] show ?thesis by blast
  next
    case step_timers
    with process_total [OF assms(3,4), of "sched_timers s"] show ?thesis by (auto simp: process_timers_def)
  next
    case step_take
    with op [of TakeRequest] show ?thesis by (auto simp: take_host_op_def split: prod.splits)
  next
    case (step_complete i d)
    with op [of "CompleteOp i (Ok d)"] show ?thesis
      by (auto simp: complete_host_op_def complete_def queued_def split: prod.splits)
  next
    case (step_fail i e)
    with op [of "CompleteOp i (Err e)"] show ?thesis
      by (auto simp: complete_host_op_err_def complete_err_def queued_def split: prod.splits)
  next
    case (step_chunk i d eof)
    with op [of "AppendChunk i d eof"] show ?thesis
      by (auto simp: append_host_chunk_def queued_def split: prod.splits)
  next
    case (step_clear i)
    with op [of "ClearBuffer i"] show ?thesis by (simp add: clear_chunk_buffer_def)
  qed
qed

lemma reach_within: "sched_reach m n s \<Longrightarrow> chan_within m n (sched_channel s)"
proof (induction rule: sched_reach.induct)
  case reach_new
  have "chan_ok m [] (channel_new m)" by (rule chan_run_ok [OF chan_start])
  then show ?case by (auto simp: chan_within_def scheduler_new_def)
next
  case (reach_step n s hs s')
  then show ?case using step_within reach_ok by blast
qed

end
