(* ===== verification/SchedulerSpec.thy ===== *)
theory SchedulerSpec
  imports SchedulerSafe
begin

text \<open>The properties of the scheduler, over all the states its steps reach.\<close>

section \<open>A parent with a child it waits for\<close>

definition idle_future :: task_future where
  "idle_future = \<lparr>held_ops = [], held_sleeps = []\<rparr>"

definition sample_parent :: task_id where
  "sample_parent = \<lparr>id_slot = 0, id_gen = 0\<rparr>"

definition sample_sub :: task_id where
  "sample_sub = \<lparr>id_slot = 1, id_gen = 0\<rparr>"

definition sample_family :: scheduler where
  "sample_family = \<lparr>tasks =
      [Some \<lparr>task_future = idle_future, task_slot = 0, task_parent = None, task_root = Some sample_parent,
         task_children = [sample_sub]\<rparr>,
       Some \<lparr>task_future = idle_future, task_slot = 1, task_parent = Some sample_parent,
         task_root = Some sample_parent, task_children = []\<rparr>],
     generations = [0, 0], ready_queue = [1], spawn_queue = [], sched_channel = channel_new 4,
     sched_timers = timers_new, active_count = 2, free_tasks = [], current_task = None, current_root = None,
     completions =
      [\<lparr>done_result = None, done_waker = None, done_task = Some sample_parent, done_taken = False\<rparr>,
       \<lparr>done_result = None, done_waker = Some (TaskWaker 0), done_task = Some sample_sub, done_taken = False\<rparr>]\<rparr>"

lemmas sample_tasks = idle_future_def sample_parent_def sample_sub_def

lemma sample_family_reach: "sched_reach 4 7 sample_family"
proof -
  define s1 where "s1 = snd (spawn idle_future (scheduler_new 4))"
  define s2 where "s2 = process_spawn_queue s1"
  define s3 where "s3 = snd (begin_poll s2)"
  define s4 where "s4 = do_act 0 (Spawn idle_future) s3"
  define s5 where "s5 = do_act 0 (Await 1) s4"
  define s6 where "s6 = finish_poll 0 Pending s5"
  have n: "k < 10 \<Longrightarrow> k < max_issued" for k by (simp add: max_issued_def)
  have "sched_step {} (scheduler_new 4) s1"
    by (rule step_spawn [of idle_future _ "fst (spawn idle_future (scheduler_new 4))"]) (simp add: s1_def)
  from reach_step [OF reach_new n this] have 1: "sched_reach 4 (Suc 0) s1" by simp
  from reach_step [OF 1 n step_place] have 2: "sched_reach 4 (Suc (Suc 0)) s2" by (simp add: s2_def)
  have "sched_step {} s2 s3" by (rule step_begin [of _ "fst (begin_poll s2)"]) (simp add: s3_def)
  from reach_step [OF 2 n this] have 3: "sched_reach 4 (Suc (Suc (Suc 0))) s3" by simp
  have 4: "sched_reach 4 (Suc (Suc (Suc (Suc 0)))) s4"
    unfolding s4_def by (rule reach_step [OF 3 n step_act]) simp
  have 5: "sched_reach 4 (Suc (Suc (Suc (Suc (Suc 0))))) s5"
    unfolding s5_def by (rule reach_step [OF 4 n step_act]) simp
  have 6: "sched_reach 4 (Suc (Suc (Suc (Suc (Suc (Suc 0)))))) s6"
    unfolding s6_def by (rule reach_step [OF 5 n step_finish]) simp
  from reach_step [OF 6 n step_place]
  have 7: "sched_reach 4 (Suc (Suc (Suc (Suc (Suc (Suc (Suc 0))))))) (process_spawn_queue s6)" by simp
  define c where "c p q = \<lparr>done_result = None, done_waker = q, done_task = p, done_taken = False\<rparr>"
    for p :: "task_id option" and q
  have s2: "s2 = (scheduler_new 4)\<lparr>tasks := [Some \<lparr>task_future = idle_future, task_slot = 0, task_parent = None,
      task_root = Some sample_parent, task_children = []\<rparr>], generations := [0], ready_queue := [0],
      active_count := 1, completions := [c (Some sample_parent) None]\<rparr>"
    by (simp add: s2_def s1_def spawn_def process_spawn_queue_def assign_task_def place_task_def own_root_def
        put_completion_def adopt_def scheduler_new_def sample_parent_def c_def Let_def)
  have s6: "s6 = s2\<lparr>ready_queue := [], spawn_queue := [\<lparr>task_future = idle_future, task_slot = 1,
      task_parent = Some sample_parent, task_root = Some sample_parent, task_children = []\<rparr>],
      completions := [c (Some sample_parent) None, c None (Some (TaskWaker 0))]\<rparr>"
    by (simp add: s6_def s5_def s4_def s3_def s2 begin_poll_def task_at_def generation_at_def scheduler_new_def
        spawn_def poll_handle_def await_slot_def put_completion_def finish_poll_def clear_context_def c_def
        set_current_task_def channel_new_def sample_parent_def Let_def)
  have "process_spawn_queue s6 = sample_family"
    by (simp add: s6 s2 process_spawn_queue_def assign_task_def place_task_def own_root_def put_completion_def
        adopt_def generation_at_def task_at_def put_task_def scheduler_new_def sample_family_def sample_parent_def
        sample_sub_def c_def Let_def)
  with 7 show ?thesis by (simp add: eval_nat_numeral)
qed

lemma sample_live:
  "live sample_family sample_parent" "live sample_family sample_sub" "issued sample_family sample_sub"
  "the_task sample_family sample_sub = \<lparr>task_future = idle_future, task_slot = 1,
     task_parent = Some sample_parent, task_root = Some sample_parent, task_children = []\<rparr>"
  by (simp_all add: live_def issued_def the_task_def task_at_def generation_at_def sample_family_def sample_parent_def
      sample_sub_def)

definition sample_polled :: scheduler where
  "sample_polled = snd (begin_poll sample_family)"

lemma sample_polled:
  "sched_reach 4 8 sample_polled" "current_task sample_polled = Some sample_sub" "spawn_queue sample_polled = []"
  "live sample_polled = live sample_family" "the_task sample_polled = the_task sample_family"
  "chan_task (sched_channel sample_polled) = Some sample_parent" "handle_id 0 sample_polled = Some sample_parent"
  "pending_requests (sched_channel sample_polled) = []" "max_pending (sched_channel sample_polled) = 4"
proof -
  have b: "begin_poll sample_family = (Some 1, sample_polled)"
    by (simp add: sample_polled_def begin_poll_def sample_family_def task_at_def Let_def)
  have "sched_reach 4 (Suc 7) sample_polled"
    by (rule reach_step [OF sample_family_reach _ step_begin [OF b]]) (simp add: max_issued_def)
  then show "sched_reach 4 8 sample_polled" by simp
  show "current_task sample_polled = Some sample_sub" "spawn_queue sample_polled = []"
    "chan_task (sched_channel sample_polled) = Some sample_parent" "handle_id 0 sample_polled = Some sample_parent"
    "pending_requests (sched_channel sample_polled) = []" "max_pending (sched_channel sample_polled) = 4"
    by (simp_all add: sample_polled_def begin_poll_def sample_family_def task_at_def generation_at_def sample_sub_def
        handle_id_def Let_def set_current_task_def channel_new_def)
  have t: "tasks sample_polled = tasks sample_family" "generations sample_polled = generations sample_family"
    by (simp_all add: sample_polled_def begin_poll_def sample_family_def task_at_def Let_def)
  show "live sample_polled = live sample_family" "the_task sample_polled = the_task sample_family"
    by (rule live_cong [OF t], rule the_task_cong [OF t(1)])
qed

lemma sample_kid: "sample_sub \<in> subtree sample_family {sample_parent}"
proof -
  have "kid sample_family sample_parent sample_sub"
    using sample_live by (simp add: kid_def the_task_def task_at_def sample_family_def sample_parent_def)
  then show ?thesis using sample_live(1) by (auto simp: subtree_def)
qed

section \<open>Invariant\<close>

text \<open>C13. The bookkeeping of the scheduler agrees with its tasks: the free list is exactly the empty
  slots and the counter the number of occupied ones; each task has a completion slot of its own, without
  a result; the children of a task are exactly the tasks in its list, and every task has its tree's root.\<close>

theorem sched_invariant:
  assumes "sched_reach m n s"
  shows "distinct (free_tasks s) \<and> set (free_tasks s) = {i. i < length (tasks s) \<and> task_at s i = None} \<and>
    active_count s = card {i. task_at s i \<noteq> None} \<and>
    (\<forall>a. live s a \<longrightarrow> done_task (completions s ! task_slot (the_task s a)) = Some a \<and>
      done_result (completions s ! task_slot (the_task s a)) = None) \<and>
    (\<forall>a b. live s a \<longrightarrow> (b \<in> set (task_children (the_task s a))) =
      (live s b \<and> task_parent (the_task s b) = Some a)) \<and>
    (\<forall>a b. live s a \<and> live s b \<and> task_parent (the_task s b) = Some a \<longrightarrow>
      task_root (the_task s b) = task_root (the_task s a))"
proof -
  have ok: "sched_ok s" by (rule reach_ok [OF assms])
  have "distinct (free_tasks s)" "set (free_tasks s) = {i. i < length (tasks s) \<and> task_at s i = None}"
    "active_count s = card {i. task_at s i \<noteq> None}"
    using ok_slots [OF ok] by (auto simp: slots_fine_def occupied_def)
  moreover have "(b \<in> set (task_children (the_task s a))) = (live s b \<and> task_parent (the_task s b) = Some a)"
    if "live s a" for a b
    using ok_child(1,4) [OF ok] that by blast
  ultimately show ?thesis using ok_completion(2,3) [OF ok] ok_root(3) [OF ok] by blast
qed

theorem sched_invariant_witness:
  "active_count sample_family = card {i. task_at sample_family i \<noteq> None} \<and>
    done_task (completions sample_family ! 1) = Some sample_sub"
proof -
  from sched_invariant [OF sample_family_reach] have
    "active_count sample_family = card {i. task_at sample_family i \<noteq> None}"
    "done_task (completions sample_family ! task_slot (the_task sample_family sample_sub)) = Some sample_sub"
    using sample_live(2) by blast+
  then show ?thesis by (simp add: sample_live(4))
qed

section \<open>Cancelling\<close>

lemma fold_end_channel:
  assumes "\<forall>x \<in> set zs. live s x" "distinct zs" "tree_ok s"
  shows "sched_channel (fold end_task zs s) =
      fold drop_op (concat (map (\<lambda>x. held_ops (task_future (the_task s x))) zs)) (sched_channel s) \<and>
    sched_timers (fold end_task zs s) =
      fold sleep_drop (concat (map (\<lambda>x. held_sleeps (task_future (the_task s x))) zs)) (sched_timers s) \<and>
    ready_queue (fold end_task zs s) = ready_queue s @
      concat (map (\<lambda>x. waker_slots (take_waker (done_waker (completions s ! task_slot (the_task s x))))) zs)"
  using assms
proof (induction zs arbitrary: s)
  case (Cons z zs)
  have z: "task_at s (id_slot z) = Some (the_task s z)" using Cons.prems(1) live_at by simp
  have tree: "tree_ok (end_task z s)" by (rule tree_ok_end [OF Cons.prems(3)])
  have zs: "live (end_task z s) y" "the_task (end_task z s) y = the_task s y" "live s y"
    "completions (end_task z s) ! task_slot (the_task s y) = completions s ! task_slot (the_task s y)" if "y \<in> set zs" for y
  proof -
    have ne: "id_slot y \<noteq> id_slot z" "y \<noteq> z"
      using that Cons.prems(1,2) live_slot_inj [of s z y] by (metis distinct.simps(2) list.set_intros)+
    show "live s y" using that Cons.prems(1) by simp
    with ne show "live (end_task z s) y" "the_task (end_task z s) y = the_task s y" by simp_all
    have "task_slot (the_task s y) \<noteq> task_slot (the_task s z)"
      using Cons.prems(1,3) that ne(2) by (auto simp: tree_ok_def)
    then show "completions (end_task z s) ! task_slot (the_task s y) = completions s ! task_slot (the_task s y)"
      by (simp add: completions_end)
  qed
  have maps: "map (\<lambda>x. held_ops (task_future (the_task (end_task z s) x))) zs =
      map (\<lambda>x. held_ops (task_future (the_task s x))) zs"
    "map (\<lambda>x. held_sleeps (task_future (the_task (end_task z s) x))) zs =
      map (\<lambda>x. held_sleeps (task_future (the_task s x))) zs"
    "map (\<lambda>x. waker_slots (take_waker (done_waker (completions (end_task z s) ! task_slot (the_task (end_task z s) x))))) zs =
      map (\<lambda>x. waker_slots (take_waker (done_waker (completions s ! task_slot (the_task s x))))) zs"
    using zs by simp_all
  have "\<forall>x \<in> set zs. live (end_task z s) x" "distinct zs" using zs(1) Cons.prems(2) by simp_all
  from Cons.IH [OF this tree] end_task_Some [OF z] show ?case
    unfolding maps by simp
qed simp_all

lemma unlinked_future: "live s b \<Longrightarrow> task_future (the_task (unlinked a s) b) = task_future (the_task s b)"
proof -
  assume "live s b"
  then obtain t where "task_at s (id_slot b) = Some t" using live_at by blast
  then show ?thesis by (auto simp: unlinked_def the_task_def disown_at split: option.split)
qed

text \<open>What ending tasks of a tree, once the first is off its parent's list, does to the slots, the wakers
  and the channel.\<close>

lemma ended_fields:
  assumes "x \<in> set zs" "\<forall>x \<in> set zs. live s x"
  shows "task_slot (the_task (unlinked a s) x) = task_slot (the_task s x)"
    "task_future (the_task (unlinked a s) x) = task_future (the_task s x)"
  using assms unlinked_task(1) unlinked_future by blast+

lemma ended_completions:
  assumes "\<forall>x \<in> set zs. live s x" "distinct zs" "h < length (completions s)"
  shows "completions (fold end_task zs (unlinked a s)) ! h =
    (if h \<in> (\<lambda>x. task_slot (the_task s x)) ` set zs then set_cancelled (completions s ! h) else completions s ! h)"
proof -
  have "(\<lambda>x. task_slot (the_task (unlinked a s) x)) ` set zs = (\<lambda>x. task_slot (the_task s x)) ` set zs"
    using ended_fields(1) [OF _ assms(1)] by (auto intro!: image_cong)
  with completions_fold_end [of zs "unlinked a s" h] assms show ?thesis by simp
qed

lemma ended_wakes:
  assumes "\<forall>x \<in> set zs. live s x" "distinct zs" "tree_ok (unlinked a s)"
    and c: "c \<in> set zs" "done_waker (completions s ! task_slot (the_task s c)) = Some (TaskWaker j)"
  shows "j \<in> set (ready_queue (fold end_task zs (unlinked a s)))"
proof -
  have "j \<in> set (waker_slots (take_waker (done_waker (completions (unlinked a s) ! task_slot (the_task (unlinked a s) c)))))"
    using c(2) ended_fields(1) [OF c(1) assms(1)] by simp
  with c(1) have "j \<in> set (concat (map (\<lambda>x. waker_slots (take_waker (done_waker
      (completions (unlinked a s) ! task_slot (the_task (unlinked a s) x))))) zs))"
    unfolding set_concat set_map by blast
  then show ?thesis using fold_end_channel [OF _ assms(2,3)] assms(1) by simp
qed

lemma ended_channel:
  assumes "\<forall>x \<in> set zs. live s x" "distinct zs" "tree_ok (unlinked a s)"
  shows "sched_channel (fold end_task zs (unlinked a s)) =
    fold drop_op (concat (map (\<lambda>x. held_ops (task_future (the_task s x))) zs)) (sched_channel s)"
proof -
  have "map (\<lambda>x. held_ops (task_future (the_task (unlinked a s) x))) zs =
      map (\<lambda>x. held_ops (task_future (the_task s x))) zs" using ended_fields(2) [OF _ assms(1)] by simp
  with fold_end_channel [OF _ assms(2,3)] assms(1) show ?thesis by simp
qed

text \<open>C12. Cancelling is structured: it ends the task and all the tasks below it and no other, drops
  their host operations, children before parents, leaves the error in their slots, wakes the tasks that
  wait for them, and changes no other slot; with a stale identifier it does nothing.\<close>

theorem cancel_exact:
  assumes "sched_reach m n s" "cancel_task a s = (b, s')"
  shows "b = live s a \<and> (\<not> b \<longrightarrow> s' = s) \<and> (\<forall>c. live s' c = (live s c \<and> c \<notin> subtree s {a})) \<and>
    (\<forall>c \<in> subtree s {a}. done_result (completions s' ! task_slot (the_task s c)) = Some (Err TaskCancelled)) \<and>
    (\<forall>c \<in> subtree s {a}. \<forall>j. done_waker (completions s ! task_slot (the_task s c)) = Some (TaskWaker j) \<and>
       task_at s' j \<noteq> None \<longrightarrow> j \<in> set (ready_queue s')) \<and>
    (\<forall>h < length (completions s). (\<forall>c \<in> subtree s {a}. h \<noteq> task_slot (the_task s c)) \<longrightarrow>
       completions s' ! h = completions s ! h) \<and>
    (\<exists>zs. set zs = subtree s {a} \<and> children_first s zs \<and>
       sched_channel s' = fold drop_op (concat (map (\<lambda>x. held_ops (task_future (the_task s x))) zs)) (sched_channel s))"
proof (cases "live s a")
  case False
  then have "subtree s {a} = {}" by (simp add: subtree_def)
  with False cancel_task_cases [OF reach_ok [OF assms(1)], of a] assms(2) show ?thesis
    by (auto simp: children_first_def intro: exI [of _ "[]"])
next
  case True
  have ok: "sched_ok s" by (rule reach_ok [OF assms(1)])
  from cancel_task_cases [OF ok, of a] True assms(2) obtain zs where
    zs: "distinct zs" "set zs = subtree s {a}" "children_first s zs" "b"
      and s': "s' = (let u = fold end_task zs (unlinked a s)
        in u\<lparr>ready_queue := filter (\<lambda>i. task_at u i \<noteq> None) (ready_queue u)\<rparr>)" by auto
  let ?u = "fold end_task zs (unlinked a s)"
  have lives: "\<forall>x \<in> set zs. live s x" using zs(2) subtree_live by blast
  have tree: "tree_ok (unlinked a s)"
    by (rule ok_tree_ok [OF unlinked_ok [OF sched_ok_but_mono [OF ok, of "{a}"]]]) simp
  have f: "tasks s' = tasks ?u" "generations s' = generations ?u" "completions s' = completions ?u"
    "sched_channel s' = sched_channel ?u" "ready_queue s' = filter (\<lambda>i. task_at ?u i \<noteq> None) (ready_queue ?u)"
    by (simp_all add: s' Let_def)
  have at: "task_at s' = task_at ?u" using f(1) by (simp add: task_at_def fun_eq_iff)
  have r1: "done_result (completions s' ! task_slot (the_task s c)) = Some (Err TaskCancelled)" if "c \<in> set zs" for c
    using ended_completions [OF lives zs(1), of "task_slot (the_task s c)"] ok_completion [OF ok, of c] lives that
    by (simp add: f set_cancelled_def)
  have r2: "j \<in> set (ready_queue s')"
    if "c \<in> set zs" "done_waker (completions s ! task_slot (the_task s c)) = Some (TaskWaker j)" "task_at s' j \<noteq> None" for c j
    using ended_wakes [OF lives zs(1) tree that(1,2)] that(3) by (simp add: f(5) at)
  have r4: "live s' c = (live s c \<and> c \<notin> set zs)" for c
    using fold_end_live_ids [of zs "unlinked a s" c] lives live_cong [OF f(1,2)] by simp
  have r5: "completions s' ! h = completions s ! h"
    if "h < length (completions s)" "\<forall>c \<in> set zs. h \<noteq> task_slot (the_task s c)" for h
    using ended_completions [OF lives zs(1) that(1)] that(2) by (auto simp: f)
  show ?thesis
    unfolding zs(2) [symmetric] using True zs(3,4) r1 r2 ended_channel [OF lives zs(1) tree, folded f(4)] r4 r5
    by (intro conjI exI [of _ zs]) blast+
qed

theorem cancel_exact_witness:
  "\<exists>s'. cancel_task sample_parent sample_family = (True, s') \<and> \<not> live s' sample_sub \<and>
    done_result (completions s' ! 1) = Some (Err TaskCancelled)"
proof -
  obtain b s' where c: "cancel_task sample_parent sample_family = (b, s')" by fastforce
  from cancel_exact [OF sample_family_reach c] sample_live(1) sample_kid have
    "b" "\<not> live s' sample_sub"
    "done_result (completions s' ! task_slot (the_task sample_family sample_sub)) = Some (Err TaskCancelled)"
    by blast+
  with c show ?thesis by (auto simp: sample_live(4))
qed

section \<open>Completion\<close>

lemma finish_slot:
  assumes "sched_ok s" "live s a"
  shows "done_result (completions (finish_poll (id_slot a) (Ready r) s) ! task_slot (the_task s a)) = Some r"
    "task_slot (the_task s a) < length (completions (finish_poll (id_slot a) (Ready r) s))"
    "done_waker (completions s ! task_slot (the_task s a)) = Some (TaskWaker j) \<Longrightarrow>
      j \<in> set (ready_queue (finish_poll (id_slot a) (Ready r) s))"
    "live (finish_poll (id_slot a) (Ready r) s) c \<longleftrightarrow> live s c \<and> c \<notin> subtree s {a}"
    "done_taken (completions (finish_poll (id_slot a) (Ready r) s) ! task_slot (the_task s a)) =
      done_taken (completions s ! task_slot (the_task s a))"
proof -
  let ?h = "task_slot (the_task s a)"
  define u where "u = with_result a r (clear_context s)"
  obtain zs where zs: "set zs = subtree s {a}" "distinct zs"
    and f: "finish_poll (id_slot a) (Ready r) s = wake_all (take_waker (done_waker (completions s ! ?h)))
      (fold end_task zs (unlinked a u))"
    using finish_poll_ready [OF assms, of r] by (auto simp: u_def)
  have cc: "live (clear_context s) = live s" "the_task (clear_context s) = the_task s"
    "completions (clear_context s) = completions s"
    unfolding clear_context_def by (rule tree_congs; simp)+ simp
  have tu: "live u = live s" "the_task u = the_task s"
    unfolding u_def with_result_def by (simp_all add: put_completion_tree cc)
  have h: "?h < length (completions s)" by (rule ok_completion(1) [OF assms])
  have cu: "completions u = (completions s)[?h := (completions s ! ?h)\<lparr>done_result := Some r, done_waker := None\<rparr>]"
    by (simp add: u_def with_result_def put_completion_def cc)
  have lives: "\<forall>x \<in> set zs. live (unlinked a u) x" using zs(1) subtree_live [of _ s] by (simp add: tu)
  have k: "kept ?h u (fold end_task zs (unlinked a u))" by (rule kept_trans [OF kept_same kept_end]) simp
  show "done_result (completions (finish_poll (id_slot a) (Ready r) s) ! ?h) = Some r"
    "?h < length (completions (finish_poll (id_slot a) (Ready r) s))"
    "done_taken (completions (finish_poll (id_slot a) (Ready r) s) ! ?h) = done_taken (completions s ! ?h)"
    using k h by (auto simp: f kept_def cu)
  show "j \<in> set (ready_queue (finish_poll (id_slot a) (Ready r) s))"
    if "done_waker (completions s ! ?h) = Some (TaskWaker j)"
    by (simp add: f that)
  have "live (finish_poll (id_slot a) (Ready r) s) c \<longleftrightarrow> live (fold end_task zs (unlinked a u)) c"
    unfolding f by (simp add: live_cong [OF wake_all_fields(1,2)])
  then show "live (finish_poll (id_slot a) (Ready r) s) c \<longleftrightarrow> live s c \<and> c \<notin> subtree s {a}"
    using fold_end_live_ids [OF lives, of c] by (simp add: tu zs(1))
qed

text \<open>C14. A result reaches the task that waits for it: when the poll of a task returns a result, the
  task and all below it have ended, the waiting task is woken, and after any further steps that do not
  take the result, its next poll of the handle returns it.\<close>

theorem result_delivered:
  assumes "sched_reach m n s" "n < max_issued" "live s a" "h = task_slot (the_task s a)"
    and "\<not> done_taken (completions s ! h)" "s1 = finish_poll (id_slot a) (Ready r) s"
    and "sched_later h (Suc n, s1) (k, s2)"
  shows "(\<forall>c. live s1 c = (live s c \<and> c \<notin> subtree s {a})) \<and>
    (\<forall>j. done_waker (completions s ! h) = Some (TaskWaker j) \<longrightarrow> j \<in> set (ready_queue s1)) \<and>
    fst (poll_handle w h s2) = Ready r"
proof -
  have ok: "sched_ok s" by (rule reach_ok [OF assms(1)])
  note f = finish_slot [where r = r, OF ok assms(3), folded assms(4,6)]
  have "sched_reach m (Suc n) s1" unfolding assms(6) by (rule reach_step [OF assms(1,2) step_finish])
  then have "kept h s1 s2" using later_kept [OF assms(7)] by simp
  with f(1,2,5) assms(5) have "done_result (completions s2 ! h) = Some r" "\<not> done_taken (completions s2 ! h)"
    by (auto simp: kept_def)
  then have "fst (poll_handle w h s2) = Ready r" by (simp add: poll_handle_def await_slot_def Let_def)
  with f(3,4) show ?thesis by blast
qed

theorem result_delivered_witness:
  "0 \<in> set (ready_queue (finish_poll 1 (Ready (Ok (exit_with 7))) sample_family)) \<and>
    fst (poll_handle (TaskWaker 0) 1 (finish_poll 1 (Ready (Ok (exit_with 7))) sample_family)) = Ready (Ok (exit_with 7))"
proof -
  have s: "\<not> done_taken (completions sample_family ! 1)"
    "done_waker (completions sample_family ! 1) = Some (TaskWaker 0)"
    by (simp_all add: sample_family_def)
  have slot: "1 = task_slot (the_task sample_family sample_sub)" by (simp add: sample_live(4))
  have "finish_poll 1 (Ready (Ok (exit_with 7))) sample_family = finish_poll (id_slot sample_sub) (Ready (Ok (exit_with 7))) sample_family"
    by (simp add: sample_sub_def)
  from result_delivered [OF sample_family_reach _ sample_live(2) slot s(1) this later_same, of "TaskWaker 0"] s(2)
  show ?thesis by (auto simp: max_issued_def)
qed

section \<open>Identifiers\<close>

text \<open>An identifier is used for one task only: once its task has ended it never becomes live
  again, whatever happens to the slot, and to cancel by it does nothing.\<close>

theorem no_reuse:
  assumes "sched_reach m n s" "issued s a" "\<not> live s a" "sched_later h (n, s) (k, s')"
  shows "\<not> live s' a \<and> cancel_task a s' = (False, s')"
proof -
  have "stays_dead s s'" using later_stays_dead [OF assms(4)] assms(1) by simp
  with assms(2,3) have "\<not> live s' a" by (auto simp: stays_dead_def)
  moreover have "sched_ok s'" using later_reach [OF assms(4)] assms(1) reach_ok by auto
  ultimately show ?thesis using cancel_task_cases by blast
qed

theorem no_reuse_witness:
  "\<not> live (finish_poll 1 (Ready (Ok (exit_with 7))) sample_family) sample_sub \<and>
    fst (cancel_task sample_sub (finish_poll 1 (Ready (Ok (exit_with 7))) sample_family)) = False"
proof -
  let ?s = "finish_poll 1 (Ready (Ok (exit_with 7))) sample_family"
  have r: "sched_reach 4 (Suc 7) ?s"
    by (rule reach_step [OF sample_family_reach _ step_finish]) (simp add: max_issued_def)
  have "?s = finish_poll (id_slot sample_sub) (Ready (Ok (exit_with 7))) sample_family" by (simp add: sample_sub_def)
  with finish_slot(4) [OF reach_ok [OF sample_family_reach] sample_live(2)] subtree_root [OF sample_live(2)]
  have "\<not> live ?s sample_sub" by simp
  moreover have "issued ?s sample_sub"
    using finish_stays_dead [OF reach_ok [OF sample_family_reach]] sample_live(3) by (simp add: stays_dead_def)
  ultimately show ?thesis using no_reuse [OF r _ _ later_same, of sample_sub] by simp
qed

section \<open>Fairness\<close>

text \<open>Steps in which task \<open>a\<close> is not polled; the number counts the polls of other tasks.\<close>

inductive others_polled :: "task_id \<Rightarrow> nat \<Rightarrow> nat \<times> scheduler \<Rightarrow> nat \<times> scheduler \<Rightarrow> bool" for a where
  others_same: "others_polled a 0 x x"
| others_step: "others_polled a r x (n, s) \<Longrightarrow> n < max_issued \<Longrightarrow> sched_step hs s s' \<Longrightarrow>
    (\<forall>i. begin_poll s \<noteq> (Some i, s')) \<Longrightarrow> others_polled a r x (Suc n, s')"
| others_begin: "others_polled a r x (n, s) \<Longrightarrow> n < max_issued \<Longrightarrow> begin_poll s = (Some i, s') \<Longrightarrow>
    i \<noteq> id_slot a \<Longrightarrow> others_polled a (Suc r) x (Suc n, s')"

lemma step_waiting:
  assumes "sched_step hs s s'" "sched_ok s" "issued s a" "waiting s a k" "\<forall>i. begin_poll s \<noteq> (Some i, s')"
  shows "waiting s' a k"
  using assms(1)
proof cases
  case (step_spawn f h)
  then show ?thesis
    using live_cong [of s' s] by (intro waiting_same [OF assms(4)]) (auto simp: spawn_def Let_def)
next
  case step_place
  with waiting_place [OF assms(2-4)] show ?thesis by simp
next
  case step_cancel
  with waiting_cancel [OF assms(2,4)] show ?thesis by blast
next
  case step_await
  with waiting_frame [OF frame_await assms(4)] handle_queue(1) show ?thesis by fastforce
next
  case step_handle
  with waiting_frame [OF frame_poll_handle assms(4)] handle_queue(2) show ?thesis by fastforce
next
  case step_get
  with waiting_frame [OF frame_try_get assms(4)] handle_queue(3) show ?thesis by fastforce
next
  case step_act
  with waiting_act [OF assms(2,4)] show ?thesis by simp
next
  case (step_wake w)
  have "\<exists>ws. ready_queue (wake w s) = ready_queue s @ ws" by (cases w) simp_all
  with waiting_frame [OF frame_wake(2) assms(4)] step_wake show ?thesis by simp
next
  case (step_begin x)
  with assms(5) have x: "x = None" by (cases x) auto
  have "\<not> live s a" using waiting_begin [OF _ assms(4)] step_begin x by blast
  moreover have "stays_dead s s'" by (rule step_stays_dead [OF assms(1,2)])
  ultimately show ?thesis using assms(3) by (auto simp: waiting_def stays_dead_def)
next
  case step_finish
  with waiting_finish_poll [OF assms(2,4)] show ?thesis by simp
next
  case step_context
  then show ?thesis
    using live_cong [of s' s] by (intro waiting_same [OF assms(4)]) (auto simp: set_context_def)
next
  case step_timers
  from waiting_frame [OF frame_timers [OF step_timers(2)] assms(4)] step_timers show ?thesis
    by (auto simp: process_timers_def)
next
  case step_take
  from waiting_frame [OF frame_take [OF step_take(2)] assms(4)] step_take show ?thesis
    by (auto simp: take_host_op_def split: prod.splits)
next
  case (step_complete i d)
  from waiting_frame [OF frame_complete(1) assms(4), of i d] step_complete show ?thesis
    by (auto simp: complete_host_op_def split: prod.splits)
next
  case (step_fail i e)
  from waiting_frame [OF frame_complete(2) assms(4), of i e] step_fail show ?thesis
    by (auto simp: complete_host_op_err_def split: prod.splits)
next
  case (step_chunk i d eof)
  from waiting_frame [OF frame_append [OF step_chunk(3)] assms(4)] step_chunk show ?thesis
    by (auto simp: append_host_chunk_def split: prod.splits)
next
  case (step_clear i)
  from waiting_frame [OF frame_clear assms(4), of i] step_clear show ?thesis
    by (auto simp: clear_chunk_buffer_def)
qed

text \<open>C15. Scheduling is fair: a task with \<open>k\<close> entries before its own in the ready queue is polled
  after at most \<open>k\<close> polls of other tasks, or has ended, however the tasks spawn, wake and cancel.\<close>

theorem woken_task_polled:
  assumes "sched_reach m n s" "live s a" "ready_queue s = p @ id_slot a # q"
    and "others_polled a r (n, s) (n', s')"
  shows "r \<le> length p \<or> \<not> live s' a"
proof -
  have "sched_reach m n' s' \<and> issued s' a \<and> (live s' a \<longrightarrow> r \<le> length p \<and> waiting s' a (length p - r))"
    using assms(4)
  proof (induction r "(n, s)" "(n', s')" arbitrary: n' s' rule: others_polled.induct)
    case others_same
    then show ?case using assms(1-3) live_issued by (auto simp: waiting_def)
  next
    case (others_step r k t hs t')
    then have t: "sched_reach m k t" "issued t a" "live t a \<longrightarrow> r \<le> length p \<and> waiting t a (length p - r)" by blast+
    have ok: "sched_ok t" by (rule reach_ok [OF t(1)])
    have d: "stays_dead t t'" by (rule step_stays_dead [OF others_step(4) ok])
    with t(2) have i: "issued t' a" "live t' a \<Longrightarrow> live t a" by (auto simp: stays_dead_def)
    from step_waiting [OF others_step(4) ok t(2) _ others_step(5)] t(3) i
    show ?case using reach_step [OF t(1) others_step(3,4)] by blast
  next
    case (others_begin r k t i t')
    then have t: "sched_reach m k t" "issued t a" "live t a \<longrightarrow> r \<le> length p \<and> waiting t a (length p - r)" by blast+
    have step: "sched_step {} t t'" by (rule sched_step.step_begin [OF others_begin(4)])
    have d: "stays_dead t t'" by (rule step_stays_dead [OF step reach_ok [OF t(1)]])
    with t(2) have i: "issued t' a" "live t' a \<Longrightarrow> live t a" by (auto simp: stays_dead_def)
    have "Suc r \<le> length p \<and> waiting t' a (length p - Suc r)" if l: "live t' a"
    proof -
      obtain k' where k': "length p - r = Suc k'" "waiting t' a k'"
        using waiting_begin [OF others_begin(4), of a "length p - r"] t(3) i(2) [OF l] others_begin(5) by auto
      have "k' = length p - Suc r" using k'(1) by simp
      with k' show ?thesis by simp
    qed
    with i show ?case using reach_step [OF t(1) others_begin(3) step] by blast
  qed
  then show ?thesis by blast
qed

theorem woken_task_polled_witness:
  "\<exists>s'. begin_poll (wake (TaskWaker 0) sample_family) = (Some 1, s') \<and>
    (1 \<le> length [1 :: nat] \<or> \<not> live s' sample_parent)"
proof -
  let ?s = "wake (TaskWaker 0) sample_family"
  have r: "sched_reach 4 (Suc 7) ?s"
    by (rule reach_step [OF sample_family_reach _ step_wake]) (simp add: max_issued_def)
  have q: "ready_queue ?s = [1] @ id_slot sample_parent # []" by (simp add: sample_family_def sample_parent_def)
  have l: "live ?s sample_parent"
    by (simp add: live_def task_at_def generation_at_def sample_family_def sample_parent_def)
  obtain s' where b: "begin_poll ?s = (Some 1, s')"
    by (simp add: begin_poll_def sample_family_def task_at_def Let_def)
  have "others_polled sample_parent (Suc 0) (8, ?s) (Suc 8, s')"
    by (rule others_begin [OF others_same _ b]) (simp_all add: max_issued_def sample_parent_def)
  from woken_task_polled [OF r l q, of "Suc 0"] this b show ?thesis by auto
qed

section \<open>The scheduler loop\<close>

lemma no_task: "sched_ok s \<Longrightarrow> active_count s = 0 \<longleftrightarrow> (\<forall>a. \<not> live s a)"
proof -
  assume ok: "sched_ok s"
  have "active_count s = 0 \<longleftrightarrow> occupied s = {}"
    using ok_slots [OF ok] finite_occupied [of s] by (simp add: slots_fine_def)
  also have "\<dots> \<longleftrightarrow> (\<forall>a. \<not> live s a)"
  proof
    assume "occupied s = {}"
    then show "\<forall>a. \<not> live s a" by (auto simp: occupied_def live_def)
  next
    assume "\<forall>a. \<not> live s a"
    then have "\<not> live s (id_at s i)" for i by blast
    then show "occupied s = {}" by (simp add: live_id_at occupied_def)
  qed
  finally show ?thesis .
qed

lemma reach_acts:
  "sched_reach m n s \<Longrightarrow> n + length as \<le> max_issued \<Longrightarrow> sched_reach m (n + length as) (fold (do_act i) as s)"
proof (induction as arbitrary: n s)
  case (Cons a as)
  have "sched_reach m (Suc n) (do_act i a s)" using reach_step [OF Cons.prems(1) _ step_act] Cons.prems(2) by simp
  from Cons.IH [OF this] Cons.prems(2) show ?case by simp
qed simp

lemma reach_poll:
  assumes "sched_reach m n s" "\<forall>i. length (fst (does i)) \<le> k" "n + k + 2 \<le> max_issued"
    and "poll_ready_tasks does s = (b, s')"
  shows "\<exists>n' \<le> n + k + 2. sched_reach m n' s'"
proof -
  obtain x u where x: "begin_poll s = (x, u)" by (cases "begin_poll s")
  have u: "sched_reach m (Suc n) u" using reach_step [OF assms(1) _ step_begin [OF x]] assms(3) by simp
  show ?thesis
  proof (cases x)
    case None
    with x u assms(4) show ?thesis by (intro exI [of _ "Suc n"]) (simp add: poll_ready_tasks_def)
  next
    case (Some i)
    let ?as = "fst (does i)"
    have len: "length ?as \<le> k" using assms(2) by simp
    then have "sched_reach m (Suc n + length ?as) (fold (do_act i) ?as u)"
      using reach_acts [OF u] assms(3) by simp
    from reach_step [OF this _ step_finish [of _ i "snd (does i)"]] len assms(3) Some x assms(4)
    show ?thesis by (intro exI [of _ "Suc (Suc n + length ?as)"]) (simp add: poll_ready_tasks_def)
  qed
qed

lemma reach_timers:
  assumes "sched_reach m n s" "n < max_issued"
  obtains s' where "process_timers s = Some s'" "sched_reach m (Suc n) s'"
proof -
  obtain ws t c where "timer_process (sched_timers s) (sched_channel s) = Some (ws, t, c)"
    using process_total [OF reach_within [OF assms(1)] assms(2)] by blast
  then obtain s' where "process_timers s = Some s'" by (simp add: process_timers_def)
  with reach_step [OF assms step_timers [OF this]] that show thesis by blast
qed

text \<open>A task that a round can poll: it is placed and its slot is queued.\<close>

definition ready_task :: "scheduler \<Rightarrow> bool" where
  "ready_task s \<longleftrightarrow> (\<exists>a. live s a \<and> id_slot a \<in> set (ready_queue s))"

lemma begin_poll_none:
  assumes "begin_poll s = (None, s')"
  shows "\<not> ready_task s"
proof -
  have "next_ready s q = None \<Longrightarrow> i \<in> set q \<Longrightarrow> task_at s i = None" for q i
    by (induction q) (auto split: if_splits)
  moreover have "next_ready s (ready_queue s) = None"
    using assms by (auto simp: begin_poll_def Let_def split: option.splits)
  ultimately show ?thesis by (auto simp: ready_task_def live_def)
qed

lemma process_spawn_ready: "sched_ok s \<Longrightarrow> ready_task s \<or> spawn_queue s \<noteq> [] \<Longrightarrow> ready_task (process_spawn_queue s)"
proof (induction "spawn_queue s" arbitrary: s)
  case Nil
  then show ?case by (simp add: process_spawn_Nil)
next
  case (Cons t q)
  let ?s = "assign_task t (s\<lparr>spawn_queue := q\<rparr>)"
  obtain b where b: "\<And>c. live ?s c \<longleftrightarrow> c = b \<or> live s c" "ready_queue ?s = ready_queue s @ [id_slot b]"
    and q: "spawn_queue ?s = q"
    using assign_facts [OF Cons(3) Cons(2) [symmetric] refl] by metis
  then have "ready_task ?s" by (auto simp: ready_task_def)
  with Cons(1) [OF q [symmetric] assign_ok [OF Cons(3) Cons(2) [symmetric] refl]]
  show ?case by (simp add: process_spawn_Cons [OF Cons(2) [symmetric]])
qed

lemma process_timers_ready:
  assumes "process_timers s = Some s'"
  shows "ready_task s \<Longrightarrow> ready_task s'" "spawn_queue s' = spawn_queue s"
proof -
  obtain ws t c where "s' = wake_all ws (s\<lparr>sched_timers := t, sched_channel := c\<rparr>)"
    using assms by (auto simp: process_timers_def)
  then show "spawn_queue s' = spawn_queue s" "ready_task s \<Longrightarrow> ready_task s'"
    using same_frame_facts(2) [OF frame_timers [OF assms]] by (auto simp: ready_task_def)
qed

text \<open>C34. A round of the scheduler returns, whatever the task it polls does, and leads to a reachable state.
  It reports Done exactly when no task has a slot when it ends; a task that was spawned in the round and still
  waits in the spawn queue does not count (\<open>last_poll_orphan\<close> shows one). It reports Blocked only if it began with no
  task to poll, neither a spawned one nor one that was ready, and ends with none ready or spawned.\<close>

theorem run_step_total:
  assumes "sched_reach m n s" "\<forall>i. length (fst (does i)) \<le> k" "n + k + 5 \<le> max_issued"
  shows "\<exists>st s'. run_step does s = Some (st, s') \<and> (\<exists>n' \<le> n + k + 5. sched_reach m n' s') \<and>
    (st = AllDone) = (\<forall>a. \<not> live s' a) \<and>
    (st = Blocked \<longrightarrow> \<not> ready_task s \<and> spawn_queue s = [] \<and> ready_queue s' = [] \<and> spawn_queue s' = [])"
proof -
  have "n < max_issued" using assms(3) by simp
  then obtain s1 where s1: "process_timers s = Some s1" "sched_reach m (Suc n) s1"
    using reach_timers [OF assms(1)] by blast
  define s2 where "s2 = process_spawn_queue s1"
  have s2: "sched_reach m (Suc (Suc n)) s2"
    unfolding s2_def by (rule reach_step [OF s1(2) _ step_place]) (use assms(3) in simp)
  obtain b s3 where s3: "poll_ready_tasks does s2 = (b, s3)" by (cases "poll_ready_tasks does s2")
  have "Suc (Suc n) + k + 2 \<le> max_issued" using assms(3) by simp
  then obtain n3 where "n3 \<le> Suc (Suc n) + k + 2" "sched_reach m n3 s3"
    using reach_poll [OF s2 assms(2) _ s3] by blast
  then have n3: "n3 \<le> n + k + 4" "sched_reach m n3 s3" by simp_all
  then have "n3 < max_issued" using assms(3) by simp
  then obtain s4 where s4: "process_timers s3 = Some s4" "sched_reach m (Suc n3) s4"
    using reach_timers [OF n3(2)] by blast
  define st where "st = (if active_count s4 = 0 then AllDone else if b \<or> has_ready_tasks s4 then Progress else Blocked)"
  have run: "run_step does s = Some (st, s4)"
    using s1(1) s3 s4(1) by (simp add: run_step_def s2_def st_def)
  have "(st = AllDone) = (\<forall>a. \<not> live s4 a)" using no_task [OF reach_ok [OF s4(2)]] by (simp add: st_def)
  moreover have "\<not> ready_task s2" if "\<not> b"
    using s3 that begin_poll_none [of s2] by (cases "begin_poll s2") (auto simp: poll_ready_tasks_def split: option.splits)
  then have "st = Blocked \<longrightarrow> \<not> ready_task s \<and> spawn_queue s = []"
    using process_spawn_ready [OF reach_ok [OF s1(2)]] process_timers_ready [OF s1(1)]
    by (auto simp: st_def s2_def)
  moreover have "st = Blocked \<longrightarrow> ready_queue s4 = [] \<and> spawn_queue s4 = []"
    by (auto simp: st_def has_ready_tasks_def split: if_splits)
  moreover have "Suc n3 \<le> n + k + 5" using n3(1) by simp
  ultimately show ?thesis using run s4(2) by blast
qed

theorem run_step_total_witness:
  "\<exists>st s'. run_step (\<lambda>i. ([Spawn idle_future, CancelHandle 0], Pending)) sample_family = Some (st, s')"
proof -
  have "\<forall>i :: nat. length (fst ([Spawn idle_future, CancelHandle 0], Pending :: task_result poll)) \<le> 2" by simp
  from run_step_total [OF sample_family_reach this] show ?thesis by (auto simp: max_issued_def)
qed

section \<open>Attribution\<close>

lemma root_walk_root:
  "sched_ok s \<Longrightarrow> root_walk n a s = Some r \<Longrightarrow> task_root (the_task s a) = Some r \<and> live s a"
proof (induction n arbitrary: a)
  case (Suc n)
  from Suc.prems(2) have l: "live s a" by (auto simp: live_def split: if_splits option.splits)
  then have t: "task_at s (id_slot a) = Some (the_task s a)" by (rule live_at)
  show ?case
  proof (cases "task_parent (the_task s a)")
    case None
    with Suc.prems(2) t ok_root(2) [OF Suc.prems(1) l] l show ?thesis by (auto split: if_splits)
  next
    case (Some p)
    with Suc.prems(2) t have "root_walk n p s = Some r" by (auto split: if_splits)
    from Suc.IH [OF Suc.prems(1) this] ok_root(3) [OF Suc.prems(1) l Some] l show ?thesis by simp
  qed
qed simp

text \<open>Host operations are attributed to the tree they come from: an operation that is submitted
  while a task is polled carries the root kept in the task, the one all tasks of its tree share, and
  \<open>root_task\<close>, which walks up the parents, answers nothing else.\<close>

theorem ops_attributed:
  assumes "sched_reach m n s" "current_task s = Some a" "live s a"
    and "submit_op k (sched_channel s) = Some (i, c)"
  shows "req_task (last (pending_requests c)) = task_root (the_task s a) \<and>
    (\<forall>b. kid s a b \<longrightarrow> task_root (the_task s b) = task_root (the_task s a)) \<and>
    (root_task a s = None \<or> root_task a s = task_root (the_task s a))"
proof -
  have ok: "sched_ok s" by (rule reach_ok [OF assms(1)])
  have "req_task (last (pending_requests c)) = chan_task (sched_channel s)"
    using assms(4) by (auto simp: submit_op_def allocate_id_def put_slot_def Let_def split: if_splits)
  also have "\<dots> = task_root (the_task s a)" using ok_root(7) [OF ok assms(2,3)] ok_root(8) [OF ok] by simp
  finally have "req_task (last (pending_requests c)) = task_root (the_task s a)" .
  moreover have "task_root (the_task s b) = task_root (the_task s a)" if "kid s a b" for b
    using that ok_child(1) [OF ok, of a b] ok_root(3) [OF ok, of b a] by (auto simp: kid_def)
  moreover have "root_task a s = None \<or> root_task a s = task_root (the_task s a)"
    using root_walk_root [OF ok, of root_task_max_depth a]
    by (cases "root_task a s") (simp_all add: root_task_def)
  ultimately show ?thesis by blast
qed

theorem ops_attributed_witness:
  "\<exists>i c. submit_op (ReadStdin 1) (sched_channel sample_polled) = Some (i, c) \<and>
    req_task (last (pending_requests c)) = Some sample_parent"
proof -
  note s = sample_polled
  have l: "live sample_polled sample_sub" using sample_live(2) by (simp add: s)
  obtain i c where c: "submit_op (ReadStdin 1) (sched_channel sample_polled) = Some (i, c)"
    using s(8,9) by (cases "submit_op (ReadStdin 1) (sched_channel sample_polled)")
      (auto simp: submit_op_def split: prod.splits)
  from ops_attributed [OF s(1,2) l c] c s(5) show ?thesis by (auto simp: sample_live(4))
qed

section \<open>What is not kept\<close>

lemma finish_spawn_queue: "sched_ok s \<Longrightarrow> live s a \<Longrightarrow> spawn_queue (finish_poll (id_slot a) (Ready r) s) = spawn_queue s"
  using finish_poll_ready [of s a r] by (auto simp: with_result_def put_completion_def clear_context_def)

text \<open>The children of a task do not always end with it: one that is spawned in the poll in which
  its parent returns is not yet on the parent's list, is placed after the parent has ended, and runs on;
  and if nothing else is left the scheduler calls itself done although that task waits to be placed.\<close>

theorem last_poll_orphan:
  assumes "sched_reach m n s" "n < max_issued" "Suc n < max_issued" "current_task s = Some a" "live s a"
    "spawn_queue s = []"
    and "spawn f s = (h, u)" "s1 = finish_poll (id_slot a) (Ready r) u" "s2 = process_spawn_queue s1"
  shows "\<exists>b. live s2 b \<and> task_parent (the_task s2 b) = Some a \<and> \<not> live s2 a \<and>
    done_result (completions s2 ! h) = None \<and>
    ((\<forall>c. live s c \<longrightarrow> c \<in> subtree s {a}) \<longrightarrow> is_done s1 \<and> spawn_queue s1 \<noteq> [])"
proof -
  have u: "sched_reach m (Suc n) u" using reach_step [OF assms(1,2) step_spawn [OF assms(7)]] .
  have oku: "sched_ok u" by (rule reach_ok [OF u])
  define t where "t = \<lparr>task_future = f, task_slot = h, task_parent = Some a, task_root = current_root s,
    task_children = []\<rparr>"
  have same: "tasks u = tasks s" "generations u = generations s" and q: "spawn_queue u = [t]"
    using assms(4,6,7) by (auto simp: spawn_def Let_def t_def)
  have lu: "live u = live s" "the_task u = the_task s"
    using live_cong [OF same] the_task_cong [OF same(1)] by simp_all
  have la: "live u a" using assms(5) by (simp add: lu)
  have r1: "sched_reach m (Suc (Suc n)) s1" unfolding assms(8) by (rule reach_step [OF u assms(3) step_finish])
  have ok1: "sched_ok s1" by (rule reach_ok [OF r1])
  have l1: "live s1 c \<longleftrightarrow> live s c \<and> c \<notin> subtree s {a}" for c
    using finish_slot(4) [OF oku la, of r c] by (simp add: assms(8) lu subtree_cong [OF lu])
  have dead: "\<not> live s1 a" using l1 subtree_root [OF assms(5)] by simp
  have q1: "spawn_queue s1 = [t]" using finish_spawn_queue [OF oku la] q by (simp add: assms(8))
  have "issued s1 a"
    using finish_stays_dead [OF oku] live_issued [OF la] by (simp add: stays_dead_def assms(8))
  obtain b where b: "\<not> issued s1 b" "\<And>c. live s2 c \<longleftrightarrow> c = b \<or> live s1 c" "same_task (own_root b t) (the_task s2 b)"
    by (rule assign_facts [OF ok1 q1 refl])
      (rule that, simp_all add: assms(9) process_spawn_Cons [OF q1] process_spawn_Nil assign_commute)
  have ok2: "sched_ok s2" unfolding assms(9) by (rule process_spawn_ok [OF ok1])
  have tb: "task_parent (the_task s2 b) = Some a" "task_slot (the_task s2 b) = h"
    using b(3) by (auto simp: same_task_def own_root_def t_def split: if_splits)
  have "live s2 b" using b(2) by simp
  moreover have "a \<noteq> b" using b(1) \<open>issued s1 a\<close> by blast
  then have "\<not> live s2 a" using b(2) dead by blast
  moreover have "done_result (completions s2 ! h) = None"
    using ok_completion(3) [OF ok2 \<open>live s2 b\<close>] tb(2) by simp
  moreover have "is_done s1 \<and> spawn_queue s1 \<noteq> []" if "\<forall>c. live s c \<longrightarrow> c \<in> subtree s {a}"
    using that no_task [OF ok1] l1 q1 by (simp add: is_done_def)
  ultimately show ?thesis using tb(1) by blast
qed

theorem last_poll_orphan_witness:
  "\<exists>s b. live s b \<and> task_parent (the_task s b) = Some sample_sub \<and> \<not> live s sample_sub"
proof -
  have l: "live sample_polled sample_sub" using sample_live(2) by (simp add: sample_polled)
  obtain h u where "spawn idle_future sample_polled = (h, u)" by fastforce
  from last_poll_orphan [OF sample_polled(1) _ _ sample_polled(2) l sample_polled(3) this refl refl, of "Ok exit_success"]
  show ?thesis by (simp add: max_issued_def) blast
qed

text \<open>The future that is being polled can be dropped under its own poll: a task that cancels
  itself or a task above it, as a shell command may that kills its own job, has its slot emptied
  although it is still the current task.\<close>

theorem cancelled_while_polled:
  assumes "sched_reach m n s" "current_task s = Some a" "handle_id h s = Some b" "a \<in> subtree s {b}"
    and "cancel_handle h s = (r, s')"
  shows "current_task s' = Some a \<and> task_at s' (id_slot a) = None"
proof -
  have l: "live s b" using assms(4) by (auto simp: subtree_def)
  have "cancel_task b s = (r, s')" using assms(3,5) by (simp add: handle_id_def cancel_handle_def)
  with cancel_task_cases [OF reach_ok [OF assms(1)], of b] l obtain zs where
    zs: "set zs = subtree s {b}" "s' = (let u = fold end_task zs (unlinked b s)
        in u\<lparr>ready_queue := filter (\<lambda>i. task_at u i \<noteq> None) (ready_queue u)\<rparr>)" by auto
  have "task_at (u\<lparr>ready_queue := q\<rparr>) = task_at u" for u q by (simp add: task_at_def fun_eq_iff)
  with zs assms(2,4) show ?thesis by (auto simp: Let_def fold_end_at)
qed

theorem cancelled_while_polled_witness:
  "\<exists>r s'. cancel_handle 0 sample_polled = (r, s') \<and> current_task s' = Some sample_sub \<and> task_at s' 1 = None"
proof -
  have "sample_sub \<in> subtree sample_polled {sample_parent}"
    using sample_kid by (simp add: subtree_cong [OF sample_polled(4,5)])
  moreover obtain r s' where "cancel_handle 0 sample_polled = (r, s')" by fastforce
  ultimately show ?thesis
    using cancelled_while_polled [OF sample_polled(1,2,7)] by (auto simp: sample_sub_def)
qed

end
