(* ===== verification/Act.thy ===== *)
theory Act
  imports Prelude
begin

text \<open>
  Code that runs inside a task, as a function of the state it shares with the other tasks: it returns a
  value and the state after it, or \<open>None\<close> when it never comes back: it waits for something that
  does not happen, or the program is stopped by a panic in another task while it waits. \<open>act_try\<close> is the operator \<open>?\<close>. An \<open>await\<close> polls until the value is there; between
  two polls the other tasks run, which an argument stands for.
\<close>

section \<open>Sequences\<close>

type_synonym ('s, 'a) act = "'s \<Rightarrow> ('a \<times> 's) option"

definition act_ret :: "'a \<Rightarrow> ('s, 'a) act" where
  "act_ret x s = Some (x, s)"

definition act_bind :: "('s, 'a) act \<Rightarrow> ('a \<Rightarrow> ('s, 'b) act) \<Rightarrow> ('s, 'b) act" where
  "act_bind m f s = (case m s of None \<Rightarrow> None | Some (x, s) \<Rightarrow> f x s)"

definition act_try :: "('s, ('a, 'e) result) act \<Rightarrow> ('a \<Rightarrow> ('s, ('b, 'e) result) act) \<Rightarrow> ('s, ('b, 'e) result) act" where
  "act_try m f = act_bind m (\<lambda>r. case r of Inl e \<Rightarrow> act_ret (Err e) | Inr x \<Rightarrow> f x)"

definition act_get :: "('s \<Rightarrow> 'a) \<Rightarrow> ('s, 'a) act" where
  "act_get f s = Some (f s, s)"

definition act_do :: "('s \<Rightarrow> 'a \<times> 's) \<Rightarrow> ('s, 'a) act" where
  "act_do f s = Some (f s)"

definition act_set :: "('s \<Rightarrow> 's) \<Rightarrow> ('s, unit) act" where
  "act_set f s = Some ((), f s)"

lemma act_simps [simp]:
  "act_ret x s = Some (x, s)" "act_get g s = Some (g s, s)" "act_do h s = Some (h s)" "act_set k s = Some ((), k s)"
  by (simp_all add: act_ret_def act_get_def act_do_def act_set_def)

lemma act_bind_eq [simp]:
  "m s = None \<Longrightarrow> act_bind m f s = None"
  "m s = Some (x, s') \<Longrightarrow> act_bind m f s = f x s'"
  by (simp_all add: act_bind_def)

lemma act_try_eq [simp]:
  "m s = None \<Longrightarrow> act_try m f s = None"
  "m s = Some (Inr x, s') \<Longrightarrow> act_try m f s = f x s'"
  "m s = Some (Inl e, s') \<Longrightarrow> act_try m f s = Some (Inl e, s')"
  by (simp_all add: act_try_def)

lemma act_bind_Some:
  "act_bind m f s = Some (y, t) \<longleftrightarrow> (\<exists>x s'. m s = Some (x, s') \<and> f x s' = Some (y, t))"
  by (auto simp: act_bind_def split: option.split)

lemma act_try_Some:
  "act_try m f s = Some (y, t) \<longleftrightarrow>
     (\<exists>e. m s = Some (Inl e, t) \<and> y = Inl e) \<or> (\<exists>x s'. m s = Some (Inr x, s') \<and> f x s' = Some (y, t))"
proof (cases "m s")
  case (Some p)
  then show ?thesis by (cases p, cases "fst p") (auto simp: act_try_def act_bind_def)
qed (simp add: act_try_def)

lemma act_laws [simp]:
  "act_bind (act_ret x) f = f x"
  "act_bind m act_ret = m"
  "act_bind (act_bind m f) g = act_bind m (\<lambda>x. act_bind (f x) g)"
  "act_try (act_ret (Inr y)) k = k y"
  "act_try (act_ret (Inl e)) k = act_ret (Inl e)"
  by (auto simp: act_bind_def act_try_def fun_eq_iff split: option.split)

lemma act_bind_cong [fundef_cong]:
  "m = m' \<Longrightarrow> s = s' \<Longrightarrow> (\<And>x t. m' s' = Some (x, t) \<Longrightarrow> f x t = f' x t) \<Longrightarrow> act_bind m f s = act_bind m' f' s'"
  by (auto simp: act_bind_def split: option.split)

section \<open>Loops over a list\<close>

fun act_map :: "('a \<Rightarrow> ('s, ('b, 'e) result) act) \<Rightarrow> 'a list \<Rightarrow> ('s, ('b list, 'e) result) act" where
  "act_map f [] = act_ret (Ok [])"
| "act_map f (x # xs) = act_try (f x) (\<lambda>y. act_try (act_map f xs) (\<lambda>ys. act_ret (Ok (y # ys))))"

fun act_fold :: "('a \<Rightarrow> 'b \<Rightarrow> ('s, ('b, 'e) result) act) \<Rightarrow> 'a list \<Rightarrow> 'b \<Rightarrow> ('s, ('b, 'e) result) act" where
  "act_fold f [] b = act_ret (Ok b)"
| "act_fold f (x # xs) b = act_try (f x b) (act_fold f xs)"

section \<open>Waiting\<close>

text \<open>\<open>p\<close> polls with the state of the future; \<open>others\<close> is what happens until the task is polled again.\<close>

partial_function (option) await ::
  "('s \<Rightarrow> 's option) \<Rightarrow> ('f \<Rightarrow> 's \<Rightarrow> 'a poll \<times> 'f \<times> 's) \<Rightarrow> 'f \<Rightarrow> 's \<Rightarrow> ('a \<times> 's) option" where
  "await others p f s =
     (case p f s of
        (Ready x, f, s) \<Rightarrow> Some (x, s)
      | (Pending, f, s) \<Rightarrow> Option.bind (others s) (await others p f))"

lemma await_Ready [simp]: "p f s = (Ready x, f', s') \<Longrightarrow> await others p f s = Some (x, s')"
  by (simp add: await.simps)

lemma await_Pending:
  "p f s = (Pending, f', s') \<Longrightarrow> await others p f s = Option.bind (others s') (await others p f')"
  by (simp add: await.simps)

text \<open>What an \<open>await\<close> keeps: an invariant of the polls and of the other tasks.\<close>

lemma await_inv:
  assumes "await others p f s = Some (x, t)" "I s"
    and "\<And>f s r f' s'. I s \<Longrightarrow> p f s = (r, f', s') \<Longrightarrow> I s'"
    and "\<And>s s'. I s \<Longrightarrow> others s = Some s' \<Longrightarrow> I s'"
  shows "I t"
proof -
  have "u = others \<and> q = p \<longrightarrow> I s \<longrightarrow> I (snd y)" if "await u q f s = Some y" for u q f s y
  proof (rule await.raw_induct [OF _ that], goal_cases)
    case (1 await u q f s y)
    obtain r f' s' where r: "q f s = (r, f', s')" by (metis prod_cases3)
    show ?case
    proof (cases r)
      case Ready
      with 1(2) r assms(3) show ?thesis by auto
    next
      case Pending
      with 1(2) r obtain s'' where "u s' = Some s''" "await u q f' s'' = Some y"
        by (auto simp: bind_eq_Some_conv)
      with 1(1) [OF this(2)] r assms(3,4) show ?thesis by blast
    qed
  qed
  with assms(1,2) show ?thesis by fastforce
qed


section \<open>Loops that need not end\<close>

text \<open>Rounds until one returns: a round goes on with a new value of the loop's variable, or returns.\<close>

partial_function (option) act_loop :: "('c \<Rightarrow> ('s, 'c + 'a) act) \<Rightarrow> 'c \<Rightarrow> 's \<Rightarrow> ('a \<times> 's) option" where
  "act_loop round c s =
     Option.bind (round c s) (\<lambda>x. case fst x of Inl c \<Rightarrow> act_loop round c (snd x) | Inr r \<Rightarrow> Some (r, snd x))"

declare await.simps [code] act_loop.simps [code]

lemma bind_SomeE: "Option.bind m g = Some y \<Longrightarrow> (\<And>x. m = Some x \<Longrightarrow> g x = Some y \<Longrightarrow> P) \<Longrightarrow> P"
  by (cases m) auto

lemma act_loop_inv:
  assumes "act_loop round c s = Some (r, t)" "I s" "\<And>c s x s'. I s \<Longrightarrow> round c s = Some (x, s') \<Longrightarrow> I s'"
  shows "I t"
proof -
  have "q = round \<longrightarrow> I s \<longrightarrow> I (snd y)" if "act_loop q c s = Some y" for q c s y
  proof (rule act_loop.raw_induct [OF _ that], goal_cases)
    case (1 loop q c s y)
    from 1(2) show ?case
    proof (rule bind_SomeE)
      fix x assume x: "q c s = Some x" "(case fst x of Inl c \<Rightarrow> loop q c (snd x) | Inr r \<Rightarrow> Some (r, snd x)) = Some y"
      have "I (snd x)" if "q = round" "I s" using assms(3) [of s c "fst x" "snd x"] that x(1) by simp
      moreover have "q = round \<longrightarrow> I (snd x) \<longrightarrow> I (snd y)"
      proof (cases "fst x")
        case (Inl d)
        with x(2) 1(1) [of q d "snd x" y] show ?thesis by simp
      next
        case (Inr r)
        with x(2) show ?thesis by auto
      qed
      ultimately show ?thesis by blast
    qed
  qed
  with assms(1,2) show ?thesis by fastforce
qed

end
