(* ===== verification/IoHandle.thy ===== *)
theory IoHandle
  imports Act VfsTree PipeSafe Scheduler Env
begin

text \<open>
  The handles through which commands read and write,
  \<open>crates/amla-sandbox-shell/src/io_handle.rs\<close>. The cells that clones of a handle share
  (\<open>Rc<Cell<usize>>\<close>, \<open>Rc<RefCell<Vec<u8>>>\<close> and the pipes) are indices into a store, the \<open>world\<close>,
  beside the file system and the scheduler. A handle of a host stream has its text in a buffer of the
  store. The texts of errors are rendered as the code does.
\<close>

section \<open>The store\<close>

datatype io_handle =
    PipeHandle nat
  | FileHandle string nat bool bool bool
  | BufferHandle nat
  | NullHandle
  | HostStream u8 nat nat

record cmd_ctx =
  ctx_argv :: "string list"
  ctx_stdin :: io_handle
  ctx_stdout :: io_handle
  ctx_stderr :: io_handle
  ctx_cwd :: string
  ctx_env :: env
  ctx_tools :: bool

text \<open>What a task spawned by the shell runs: a command, or the blocks a builtin writes to a handle before it
  exits with a code. \<open>w_spawned\<close> tells it by the completion slot; \<open>w_console\<close> is what \<open>println!\<close> wrote.\<close>

datatype spawned = RunCommand cmd_ctx | WriteBlocks io_handle "string list" int

record world =
  w_vfs :: vfs
  w_cells :: "nat list"
  w_buffers :: "(bytes \<times> nat) list"
  w_pipes :: "pipe list"
  w_sched :: scheduler
  w_spawned :: "(nat \<times> spawned) list"
  w_console :: "string list"

text \<open>What surrounds a task: its slot, what happens until it is polled again, a run of the scheduler from
  inside the task, and the clock. The other tasks run in \<open>rt_others\<close> and \<open>rt_nested\<close>, the bodies of the
  shell's commands among them; both are \<open>None\<close> when one of these tasks never gives the control back or
  panics, which stops the whole program. The body of \<open>sh\<close>, for one, runs a shell of its own and so the lexer
  with its panic (\<open>comment_panics\<close>). A theorem about code that came back is about the other cases.\<close>

record runtime =
  rt_self :: nat
  rt_others :: "world \<Rightarrow> world option"
  rt_nested :: "world \<Rightarrow> world option"
  rt_clock :: "world \<Rightarrow> u64"

definition new_cell :: "nat \<Rightarrow> world \<Rightarrow> nat \<times> world" where
  "new_cell n w = (length (w_cells w), w\<lparr>w_cells := w_cells w @ [n]\<rparr>)"

definition set_cell :: "nat \<Rightarrow> nat \<Rightarrow> world \<Rightarrow> world" where
  "set_cell i n w = w\<lparr>w_cells := (w_cells w)[i := n]\<rparr>"

definition new_buffer :: "bytes \<Rightarrow> world \<Rightarrow> io_handle \<times> world" where
  "new_buffer b w = (BufferHandle (length (w_buffers w)), w\<lparr>w_buffers := w_buffers w @ [(b, 0)]\<rparr>)"

definition set_buffer :: "nat \<Rightarrow> bytes \<Rightarrow> nat \<Rightarrow> world \<Rightarrow> world" where
  "set_buffer i b n w = w\<lparr>w_buffers := (w_buffers w)[i := (b, n)]\<rparr>"

definition set_data :: "nat \<Rightarrow> bytes \<Rightarrow> world \<Rightarrow> world" where
  "set_data i b w = set_buffer i b (snd (w_buffers w ! i)) w"

definition new_pipe :: "nat \<Rightarrow> world \<Rightarrow> nat \<times> world" where
  "new_pipe cap w = (length (w_pipes w), w\<lparr>w_pipes := w_pipes w @ [pipe_new cap]\<rparr>)"

definition wake_tasks :: "nat list \<Rightarrow> world \<Rightarrow> world" where
  "wake_tasks ws w = w\<lparr>w_sched := wake_all (map TaskWaker ws) (w_sched w)\<rparr>"

definition with_pipe :: "nat \<Rightarrow> (pipe \<Rightarrow> 'a \<times> nat list \<times> pipe) \<Rightarrow> world \<Rightarrow> 'a \<times> world" where
  "with_pipe i f w =
     (let (x, ws, p) = f (w_pipes w ! i) in (x, wake_tasks ws (w\<lparr>w_pipes := (w_pipes w)[i := p]\<rparr>)))"

section \<open>Errors\<close>

datatype handle_error =
    IoNotFound string
  | IoIsDir string
  | IoNotDir string
  | IoPermission string
  | IoExists string
  | InvalidSeek
  | IoMessage string
  | IoVfs vfs_error

definition show_vfs_error :: "vfs_error \<Rightarrow> string" where
  "show_vfs_error e =
     (case e of
        NotFound p \<Rightarrow> ''File not found: '' @ p
      | PermissionDenied p \<Rightarrow> ''Permission denied: '' @ p
      | NotADirectory p \<Rightarrow> ''Not a directory: '' @ p
      | NotAFile p \<Rightarrow> ''Not a file: '' @ p
      | AlreadyExists p \<Rightarrow> ''Path exists: '' @ p
      | InvalidPath p \<Rightarrow> ''Invalid path: '' @ p)"

definition show_handle_error :: "handle_error \<Rightarrow> string" where
  "show_handle_error e =
     (case e of
        IoNotFound p \<Rightarrow> ''no such file or directory: '' @ p
      | IoIsDir p \<Rightarrow> ''is a directory: '' @ p
      | IoNotDir p \<Rightarrow> ''not a directory: '' @ p
      | IoPermission p \<Rightarrow> ''permission denied: '' @ p
      | IoExists p \<Rightarrow> ''file exists: '' @ p
      | InvalidSeek \<Rightarrow> ''invalid seek''
      | IoMessage m \<Rightarrow> ''I/O error: '' @ m
      | IoVfs e \<Rightarrow> show_vfs_error e)"

definition show_host_error :: "host_error \<Rightarrow> string" where
  "show_host_error e =
     (case e of
        StaleOperationId \<Rightarrow> ''operation ID is stale (slot reused)''
      | OperationSlotNotFound \<Rightarrow> ''operation slot not found''
      | OperationCancelled \<Rightarrow> ''operation cancelled''
      | ResultTooLarge n \<Rightarrow> ''chunked result exceeded maximum size ('' @ show_nat n @ '' bytes)''
      | BufferOverflow \<Rightarrow> ''buffer overflow''
      | PolledAfterCompletion \<Rightarrow> ''future polled after completion''
      | AllOperationsCancelled \<Rightarrow> ''all operations cancelled''
      | HostError m \<Rightarrow> m
      | SubmitPanicked \<Rightarrow> ''panicked'')"

definition show_pipe_error :: "io_error \<Rightarrow> string" where
  "show_pipe_error e = (case e of BrokenPipe \<Rightarrow> ''pipe closed'' | WouldBlock \<Rightarrow> ''pipe full'')"

definition to_task_error :: "handle_error \<Rightarrow> task_error" where
  "to_task_error e = TaskFailed (show_handle_error e)"

section \<open>Opening\<close>

definition open_read :: "string \<Rightarrow> world \<Rightarrow> (io_handle, handle_error) result \<times> world" where
  "open_read path w =
     (if \<not> exists_path (w_vfs w) path then (Err (IoNotFound path), w)
      else if is_dir (w_vfs w) path then (Err (IoIsDir path), w)
      else (let (i, w) = new_cell 0 w in (Ok (FileHandle path i True False False), w)))"

definition open_write :: "string \<Rightarrow> world \<Rightarrow> (io_handle, handle_error) result \<times> world" where
  "open_write path w =
     (if is_dir (w_vfs w) path then (Err (IoIsDir path), w)
      else (let (r, v) = write_file path [] ReadWrite (w_vfs w); w = w\<lparr>w_vfs := v\<rparr>
            in case r of
                 Inl e \<Rightarrow> (Err (IoVfs e), w)
               | Inr _ \<Rightarrow> (let (i, w) = new_cell 0 w in (Ok (FileHandle path i False True False), w))))"

definition file_size :: "vfs \<Rightarrow> string \<Rightarrow> nat" where
  "file_size v path = (case read_file v path of Inl _ \<Rightarrow> 0 | Inr c \<Rightarrow> length c)"

definition open_append :: "string \<Rightarrow> world \<Rightarrow> (io_handle, handle_error) result \<times> world" where
  "open_append path w =
     (if is_dir (w_vfs w) path then (Err (IoIsDir path), w)
      else (let (r, v) = (if exists_path (w_vfs w) path then (Ok (), w_vfs w)
                          else write_file path [] ReadWrite (w_vfs w));
                w = w\<lparr>w_vfs := v\<rparr>
            in case r of
                 Inl e \<Rightarrow> (Err (IoVfs e), w)
               | Inr _ \<Rightarrow> (let (i, w) = new_cell (file_size v path) w
                           in (Ok (FileHandle path i False True True), w))))"

definition open_file_or_stdin ::
  "string \<Rightarrow> io_handle \<Rightarrow> world \<Rightarrow> (io_handle, handle_error) result \<times> world" where
  "open_file_or_stdin path h w = (if path = ''-'' then (Ok h, w) else open_read path w)"

section \<open>Awaiting\<close>

definition poll_world_op ::
  "runtime \<Rightarrow> host_op \<Rightarrow> world \<Rightarrow> host_result poll \<times> host_op \<times> world" where
  "poll_world_op rt f w =
     (let (r, f, c) = poll_op (TaskWaker (rt_self rt)) f (sched_channel (w_sched w))
      in (r, f, w\<lparr>w_sched := (w_sched w)\<lparr>sched_channel := c\<rparr>\<rparr>))"

definition host_await :: "runtime \<Rightarrow> host_op \<Rightarrow> (world, (bytes, handle_error) result) act" where
  "host_await rt f =
     act_bind (await (rt_others rt) (poll_world_op rt) f)
       (\<lambda>r. act_ret (map_err (\<lambda>e. IoMessage (show_host_error e)) r))"

definition pipe_await ::
  "runtime \<Rightarrow> nat \<Rightarrow> (pipe \<Rightarrow> ('a, io_error) result poll \<times> nat list \<times> pipe) \<Rightarrow>
     (world, ('a, handle_error) result) act" where
  "pipe_await rt i poll =
     act_bind (await (rt_others rt) (\<lambda>u w. let (r, w) = with_pipe i poll w in (r, u, w)) ())
       (\<lambda>r. act_ret (map_err (\<lambda>e. IoMessage (show_pipe_error e)) r))"

section \<open>Reading\<close>

text \<open>The part of a text that a read of \<open>n\<close> bytes at a position copies.\<close>

definition window :: "nat \<Rightarrow> nat \<Rightarrow> bytes \<Rightarrow> bytes" where
  "window n pos b = take n (drop pos b)"

definition read_file_at :: "string \<Rightarrow> nat \<Rightarrow> nat \<Rightarrow> world \<Rightarrow> (bytes, handle_error) result \<times> world" where
  "read_file_at path i n w =
     (case read_file (w_vfs w) path of
        Inl e \<Rightarrow> (Err (IoVfs e), w)
      | Inr c \<Rightarrow>
          (let pos = w_cells w ! i
           in if pos \<ge> length c then (Ok [], w)
              else (Ok (window n pos c), set_cell i (pos + length (window n pos c)) w)))"

definition read_buffer_at :: "nat \<Rightarrow> nat \<Rightarrow> world \<Rightarrow> (bytes, handle_error) result \<times> world" where
  "read_buffer_at i n w =
     (let (b, pos) = w_buffers w ! i
      in if pos \<ge> length b then (Ok [], w)
         else (Ok (window n pos b), set_buffer i b (pos + length (window n pos b)) w))"

definition read_host :: "runtime \<Rightarrow> nat \<Rightarrow> nat \<Rightarrow> (world, (bytes, handle_error) result) act" where
  "read_host rt i n =
     act_bind (act_get (\<lambda>w. fst (w_buffers w ! i))) (\<lambda>b.
       if b \<noteq> [] then act_do (\<lambda>w. (Ok (take n b), set_data i (drop n b) w))
       else act_try (host_await rt (read_stdin n)) (\<lambda>data.
         if data = [] then act_ret (Ok [])
         else act_do (\<lambda>w. (Ok (take n data), set_data i (fst (w_buffers w ! i) @ drop n data) w))))"

definition io_read :: "runtime \<Rightarrow> io_handle \<Rightarrow> nat \<Rightarrow> (world, (bytes, handle_error) result) act" where
  "io_read rt h n =
     (case h of
        PipeHandle i \<Rightarrow> pipe_await rt i (poll_read (rt_self rt) n)
      | FileHandle path i r _ _ \<Rightarrow>
          if \<not> r then act_ret (Err (IoPermission path)) else act_do (read_file_at path i n)
      | BufferHandle i \<Rightarrow> act_do (read_buffer_at i n)
      | NullHandle \<Rightarrow> act_ret (Ok [])
      | HostStream s i _ \<Rightarrow>
          if s = 0 then read_host rt i n
          else act_ret (Err (IoPermission ''cannot read from stdout/stderr'')))"

section \<open>Writing\<close>

text \<open>A text with a block written at a position; a gap is filled with zeros.\<close>

definition overlay :: "bytes \<Rightarrow> nat \<Rightarrow> bytes \<Rightarrow> bytes" where
  "overlay b pos d =
     (let b = b @ replicate (pos + length d - length b) 0 in take pos b @ d @ drop (pos + length d) b)"

definition write_file_at :: "string \<Rightarrow> nat \<Rightarrow> bytes \<Rightarrow> world \<Rightarrow> (nat, handle_error) result \<times> world" where
  "write_file_at path i d w =
     (let pos = w_cells w ! i;
          c = (case read_file (w_vfs w) path of Inl _ \<Rightarrow> [] | Inr c \<Rightarrow> c);
          (r, v) = write_file path (overlay c pos d) ReadWrite (w_vfs w);
          w = w\<lparr>w_vfs := v\<rparr>
      in case r of
           Inl e \<Rightarrow> (Err (IoVfs e), w)
         | Inr _ \<Rightarrow> (Ok (length d), set_cell i (pos + length d) w))"

definition append_file_at :: "string \<Rightarrow> nat \<Rightarrow> bytes \<Rightarrow> world \<Rightarrow> (nat, handle_error) result \<times> world" where
  "append_file_at path i d w =
     (let (r, v) = append_file path d (w_vfs w); w = w\<lparr>w_vfs := v\<rparr>
      in case r of
           Inl e \<Rightarrow> (Err (IoVfs e), w)
         | Inr _ \<Rightarrow> (Ok (length d), set_cell i (file_size v path) w))"

definition write_buffer_at :: "nat \<Rightarrow> bytes \<Rightarrow> world \<Rightarrow> (nat, handle_error) result \<times> world" where
  "write_buffer_at i d w =
     (let (b, pos) = w_buffers w ! i
      in (Ok (length d), set_buffer i (overlay b pos d) (pos + length d) w))"

text \<open>Line buffering: what is taken off the buffer of a host stream and printed next.\<close>

definition newline :: u8 where
  "newline = 10"

definition next_flush :: "nat \<Rightarrow> bytes \<Rightarrow> (bytes \<times> bytes) option" where
  "next_flush m b =
     (if newline \<in> set b then
        Some (takeWhile (\<lambda>c. c \<noteq> newline) b @ [newline], tl (dropWhile (\<lambda>c. c \<noteq> newline) b))
      else if m \<le> length b then Some (take m b, drop m b)
      else None)"

partial_function (option) flush_loop ::
  "runtime \<Rightarrow> u8 \<Rightarrow> nat \<Rightarrow> nat \<Rightarrow> world \<Rightarrow> ((unit, handle_error) result \<times> world) option" where
  "flush_loop rt s i m w =
     (case next_flush m (fst (w_buffers w ! i)) of
        None \<Rightarrow> Some (Ok (), w)
      | Some (chunk, rest) \<Rightarrow>
          Option.bind (host_await rt (host_print s chunk) (set_data i rest w))
            (\<lambda>x. case fst x of
                Inl e \<Rightarrow> Some (Err e, snd x)
              | Inr _ \<Rightarrow> flush_loop rt s i m (snd x)))"

definition write_host :: "runtime \<Rightarrow> u8 \<Rightarrow> nat \<Rightarrow> nat \<Rightarrow> bytes \<Rightarrow> (world, (nat, handle_error) result) act" where
  "write_host rt s i m d =
     act_bind (act_set (\<lambda>w. set_data i (fst (w_buffers w ! i) @ d) w)) (\<lambda>_.
     act_try (flush_loop rt s i m) (\<lambda>_. act_ret (Ok (length d))))"

definition io_write :: "runtime \<Rightarrow> io_handle \<Rightarrow> bytes \<Rightarrow> (world, (nat, handle_error) result) act" where
  "io_write rt h d =
     (case h of
        PipeHandle i \<Rightarrow>
          act_try (pipe_await rt i (poll_write (rt_self rt) d)) (\<lambda>_. act_ret (Ok (length d)))
      | FileHandle path i _ wr app \<Rightarrow>
          if \<not> wr then act_ret (Err (IoPermission path))
          else if app then act_do (append_file_at path i d)
          else act_do (write_file_at path i d)
      | BufferHandle i \<Rightarrow> act_do (write_buffer_at i d)
      | NullHandle \<Rightarrow> act_ret (Ok (length d))
      | HostStream s i m \<Rightarrow>
          if s = 0 then act_ret (Err (IoPermission ''cannot write to stdin''))
          else write_host rt s i m d)"

partial_function (option) write_all ::
  "runtime \<Rightarrow> io_handle \<Rightarrow> bytes \<Rightarrow> world \<Rightarrow> ((unit, handle_error) result \<times> world) option" where
  "write_all rt h d w =
     (if d = [] then Some (Ok (), w)
      else Option.bind (io_write rt h d w)
        (\<lambda>x. case fst x of Inl e \<Rightarrow> Some (Err e, snd x) | Inr n \<Rightarrow> write_all rt h (drop n d) (snd x)))"

definition io_flush :: "runtime \<Rightarrow> io_handle \<Rightarrow> (world, (unit, handle_error) result) act" where
  "io_flush rt h =
     (case h of
        HostStream s i _ \<Rightarrow>
          if s = 0 then act_ret (Ok ())
          else act_bind (act_get (\<lambda>w. fst (w_buffers w ! i))) (\<lambda>b.
            if b = [] then act_ret (Ok ())
            else act_bind (act_set (set_data i [])) (\<lambda>_.
              act_try (host_await rt (host_print s b)) (\<lambda>_. act_ret (Ok ()))))
      | _ \<Rightarrow> act_ret (Ok ()))"

section \<open>Operations that do not wait\<close>

definition take_buffer :: "io_handle \<Rightarrow> world \<Rightarrow> bytes \<times> world" where
  "take_buffer h w = (case h of BufferHandle i \<Rightarrow> (fst (w_buffers w ! i), set_buffer i [] 0 w) | _ \<Rightarrow> ([], w))"

definition take_buffered_output :: "io_handle \<Rightarrow> world \<Rightarrow> (u8 \<times> bytes) option \<times> world" where
  "take_buffered_output h w =
     (case h of
        HostStream s i _ \<Rightarrow>
          if s = 0 \<or> fst (w_buffers w ! i) = [] then (None, w)
          else (Some (s, fst (w_buffers w ! i)), set_data i [] w)
      | _ \<Rightarrow> (None, w))"

definition get_buffer :: "io_handle \<Rightarrow> world \<Rightarrow> bytes option" where
  "get_buffer h w =
     (case h of
        BufferHandle i \<Rightarrow> Some (fst (w_buffers w ! i))
      | HostStream _ i _ \<Rightarrow> Some (fst (w_buffers w ! i))
      | _ \<Rightarrow> None)"

definition io_drain :: "io_handle \<Rightarrow> world \<Rightarrow> bytes option \<times> world" where
  "io_drain h w =
     (case h of
        PipeHandle i \<Rightarrow> (let (b, w) = with_pipe i drain w in (Some b, w))
      | BufferHandle i \<Rightarrow> (Some (fst (w_buffers w ! i)), set_buffer i [] 0 w)
      | HostStream _ i _ \<Rightarrow> (Some (fst (w_buffers w ! i)), set_data i [] w)
      | _ \<Rightarrow> (None, w))"

definition io_close :: "io_handle \<Rightarrow> world \<Rightarrow> world" where
  "io_close h w =
     (case h of PipeHandle i \<Rightarrow> snd (with_pipe i (\<lambda>p. ((), pipe_close p)) w) | _ \<Rightarrow> w)"

definition is_pipe :: "io_handle \<Rightarrow> bool" where
  "is_pipe h = (case h of PipeHandle _ \<Rightarrow> True | _ \<Rightarrow> False)"

definition is_reader_blocked :: "io_handle \<Rightarrow> world \<Rightarrow> bool" where
  "is_reader_blocked h w = (case h of PipeHandle i \<Rightarrow> reader_blocked (w_pipes w ! i) | _ \<Rightarrow> False)"

definition write_sync :: "io_handle \<Rightarrow> bytes \<Rightarrow> world \<Rightarrow> (nat, handle_error) result \<times> world" where
  "write_sync h d w =
     (case h of
        BufferHandle i \<Rightarrow> write_buffer_at i d w
      | NullHandle \<Rightarrow> (Ok (length d), w)
      | PipeHandle _ \<Rightarrow> (Err (IoMessage ''cannot write synchronously to pipe''), w)
      | FileHandle path _ _ _ _ \<Rightarrow> (Err (IoMessage (''cannot write synchronously to file: '' @ path)), w)
      | HostStream _ _ _ \<Rightarrow> (Err (IoMessage ''cannot write synchronously to host stream''), w))"

text \<open>The loop ends after one round, as a synchronous write takes all or fails; the fuel is a round more.\<close>

fun write_sync_loop :: "nat \<Rightarrow> io_handle \<Rightarrow> bytes \<Rightarrow> world \<Rightarrow> ((unit, handle_error) result \<times> world) option" where
  "write_sync_loop n h [] w = Some (Ok (), w)"
| "write_sync_loop 0 h d w = None"
| "write_sync_loop (Suc n) h d w =
     (case write_sync h d w of
        (Inl e, w) \<Rightarrow> Some (Err e, w)
      | (Inr k, w) \<Rightarrow> write_sync_loop n h (drop k d) w)"

definition write_all_sync :: "io_handle \<Rightarrow> bytes \<Rightarrow> (world, (unit, handle_error) result) act" where
  "write_all_sync h d = write_sync_loop 1 h d"

definition println_sync :: "io_handle \<Rightarrow> bytes \<Rightarrow> (world, (unit, handle_error) result) act" where
  "println_sync h b = act_try (write_all_sync h b) (\<lambda>_. write_all_sync h [newline])"

definition io_push :: "io_handle \<Rightarrow> bytes \<Rightarrow> world \<Rightarrow> (nat, handle_error) result \<times> world" where
  "io_push h d w =
     (case h of
        PipeHandle i \<Rightarrow> (let (n, w) = with_pipe i (push d) w in (Ok n, w))
      | NullHandle \<Rightarrow> (Ok (length d), w)
      | _ \<Rightarrow> (Err (IoMessage ''push only works on pipes''), w))"

definition io_push_all :: "io_handle \<Rightarrow> bytes \<Rightarrow> world \<Rightarrow> (unit, handle_error) result \<times> world" where
  "io_push_all h d w =
     (case h of
        PipeHandle i \<Rightarrow>
          (let (r, w) = with_pipe i (push_all d) w in (map_err (\<lambda>e. IoMessage (show_pipe_error e)) r, w))
      | NullHandle \<Rightarrow> (Ok (), w)
      | _ \<Rightarrow> (Err (IoMessage ''push only works on pipes''), w))"

declare flush_loop.simps [code] write_all.simps [code]

end
