(* ===== verification/IoHandleSound.thy ===== *)
theory IoHandleSound
  imports IoHandle
begin

text \<open>
  What the handles promise: a file handle keeps what is written through it in order, a read gives back the
  file from the handle's position, a host stream prints lines, and what a pipe handle does not promise,
  that a write that it reports as complete has reached the pipe.
\<close>

section \<open>The store\<close>

lemma set_cell_simps [simp]:
  "w_vfs (set_cell i n w) = w_vfs w" "w_buffers (set_cell i n w) = w_buffers w"
  "w_pipes (set_cell i n w) = w_pipes w" "w_sched (set_cell i n w) = w_sched w"
  "w_cells (set_cell i n w) = (w_cells w)[i := n]"
  by (simp_all add: set_cell_def)

lemma set_buffer_simps [simp]:
  "w_vfs (set_buffer i b n w) = w_vfs w" "w_cells (set_buffer i b n w) = w_cells w"
  "w_pipes (set_buffer i b n w) = w_pipes w" "w_sched (set_buffer i b n w) = w_sched w"
  "w_buffers (set_buffer i b n w) = (w_buffers w)[i := (b, n)]"
  by (simp_all add: set_buffer_def)

lemma wake_tasks_simps [simp]:
  "w_vfs (wake_tasks ws w) = w_vfs w" "w_cells (wake_tasks ws w) = w_cells w"
  "w_buffers (wake_tasks ws w) = w_buffers w" "w_pipes (wake_tasks ws w) = w_pipes w"
  by (simp_all add: wake_tasks_def)

section \<open>Writing a text at a position\<close>

lemma overlay_end: "overlay b (length b) d = b @ d"
  by (simp add: overlay_def)

lemma length_overlay: "length (overlay b pos d) = max (length b) (pos + length d)"
  by (auto simp: overlay_def)

lemma overlay_window: "window (length d) pos (overlay b pos d) = d"
  by (simp add: window_def overlay_def)

lemma overlay_nth:
  assumes "i < length b" "i < pos \<or> pos + length d \<le> i"
  shows "overlay b pos d ! i = b ! i"
  using assms by (auto simp: overlay_def nth_append min_def)

section \<open>A write to a file\<close>

text \<open>A handle whose position is the end of the file.\<close>

definition at_file_end :: "string \<Rightarrow> nat \<Rightarrow> bytes \<Rightarrow> world \<Rightarrow> bool" where
  "at_file_end path i c w \<longleftrightarrow> i < length (w_cells w) \<and> w_cells w ! i = length c \<and>
     (\<exists>p. normalize path = Ok p \<and> lookup (w_vfs w) p = Some (File c ReadWrite))"

lemma open_write_end:
  assumes "open_write path w = (Ok h, w')"
  shows "\<exists>i. h = FileHandle path i False True False \<and> at_file_end path i [] w'"
proof -
  from assms have "\<not> is_dir (w_vfs w) path" by (auto simp: open_write_def)
  moreover obtain r v where r: "write_file path [] ReadWrite (w_vfs w) = (r, v)" by fastforce
  ultimately have "r = Ok ()" "h = FileHandle path (length (w_cells w)) False True False"
    "w' = w\<lparr>w_vfs := v, w_cells := w_cells w @ [0]\<rparr>"
    using assms by (cases r; auto simp: open_write_def new_cell_def Let_def)+
  moreover from this(1) r obtain p where "normalize path = Ok p" "v = insert_entry p (File [] ReadWrite) (w_vfs w)"
    by (cases "normalize path"; cases "check_mutation (w_vfs w) (projr (normalize path)) Overwrite")
      (auto simp: write_file_def)
  ultimately show ?thesis by (auto simp: at_file_end_def)
qed

lemma write_end:
  assumes "at_file_end path i c w"
  shows "\<exists>w'. io_write rt (FileHandle path i r True False) d w = Some (Ok (length d), w') \<and>
    at_file_end path i (c @ d) w'"
proof -
  from assms obtain p where p: "i < length (w_cells w)" "w_cells w ! i = length c" "normalize path = Ok p"
    "lookup (w_vfs w) p = Some (File c ReadWrite)" by (auto simp: at_file_end_def)
  have "check_mutation (w_vfs w) p Overwrite = Ok ()" by (simp add: check_overwrite p(4))
  then have "write_file path (c @ d) ReadWrite (w_vfs w) = (Ok (), insert_entry p (File (c @ d) ReadWrite) (w_vfs w))"
    by (simp add: write_file_def p(3))
  moreover have "read_file (w_vfs w) path = Ok c" by (simp add: read_file_def p(3,4))
  ultimately show ?thesis
    using p by (simp add: io_write_def write_file_at_def Let_def overlay_end at_file_end_def)
qed

lemma write_all_full:
  assumes "\<And>d w. d \<noteq> [] \<Longrightarrow> I w \<Longrightarrow> \<exists>w'. io_write rt h d w = Some (Ok (length d), w') \<and> J d w'" "I w" "d \<noteq> []"
  shows "\<exists>w'. write_all rt h d w = Some (Ok (), w') \<and> J d w'"
proof -
  from assms obtain w' where "io_write rt h d w = Some (Ok (length d), w')" "J d w'" by blast
  then show ?thesis using assms(3) by (simp add: write_all.simps)
qed

lemma write_all_end:
  assumes "at_file_end path i c w"
  shows "\<exists>w'. write_all rt (FileHandle path i r True False) d w = Some (Ok (), w') \<and> at_file_end path i (c @ d) w'"
proof (cases "d = []")
  case True
  with assms show ?thesis by (simp add: write_all.simps)
next
  case False
  with write_all_full [of "at_file_end path i c" rt "FileHandle path i r True False"
      "\<lambda>d. at_file_end path i (c @ d)", OF write_end [of path i c _ rt r] assms False]
  show ?thesis by blast
qed

lemma write_all_sequence:
  "at_file_end path i c w \<Longrightarrow>
     \<exists>w'. act_fold (\<lambda>d u. write_all rt (FileHandle path i r True False) d) ds () w = Some (Ok (), w') \<and>
       at_file_end path i (c @ concat ds) w'"
proof (induction ds arbitrary: c w)
  case (Cons d ds)
  from write_all_end [OF Cons.prems, of rt r d] obtain w1 where
    "write_all rt (FileHandle path i r True False) d w = Some (Ok (), w1)" "at_file_end path i (c @ d) w1"
    by blast
  with Cons.IH [OF this(2)] show ?case by simp
qed simp

section \<open>A write to a pipe\<close>

lemma with_pipe_eq:
  "f (w_pipes w ! i) = (x, ws, p) \<Longrightarrow> with_pipe i f w = (x, wake_tasks ws (w\<lparr>w_pipes := (w_pipes w)[i := p]\<rparr>))"
  by (simp add: with_pipe_def)

lemma poll_write_open:
  assumes "pipe_ok p" "\<not> closed p" "len p < capacity p"
  obtains ws q where "poll_write me d p = (Ready (Ok (min (length d) (capacity p - len p))), ws, q)"
    "pipe_contents q = pipe_contents p @ take (capacity p - len p) d"
proof -
  let ?p = "p\<lparr>writer_blocked := False\<rparr>"
  have ok: "pipe_ok ?p" using assms(1) pipe_ok_cong [of ?p p] by (simp add: pipe_ok_def capacity_def)
  have c: "pipe_contents ?p = pipe_contents p" "capacity ?p = capacity p"
    by (rule pipe_contents_cong) (simp_all add: capacity_def)
  obtain n q where q: "write_from d ?p = (n, q)" by fastforce
  from write_from_refines [OF ok, of d] q c have n: "n = min (length d) (capacity p - len p)"
    "pipe_contents q = pipe_contents p @ take n d" by simp_all
  have t: "take n d = take (capacity p - len p) d" by (simp add: n(1) min_def)
  let ?q = "if is_full q then q\<lparr>was_full := True\<rparr> else q"
  let ?r = "if n > 0 then ?q\<lparr>reader_blocked := False\<rparr> else ?q"
  have r: "poll_write me d p = (Ready (Ok n), take_waker (read_waker ?r), ?r\<lparr>read_waker := None\<rparr>)"
    using assms(2,3) q by (simp add: poll_write_def is_full_def wake_reader_def Let_def)
  have "pipe_contents (?r\<lparr>read_waker := None\<rparr>) = pipe_contents q"
    by (rule pipe_contents_cong) simp_all
  with n(2) t have "pipe_contents (?r\<lparr>read_waker := None\<rparr>) = pipe_contents p @ take (capacity p - len p) d"
    by (simp only:)
  from that [OF r [unfolded n(1)] this [unfolded n(1)]] show ?thesis .
qed

lemma pipe_write:
  assumes "i < length (w_pipes w)" "pipe_ok (w_pipes w ! i)" "\<not> closed (w_pipes w ! i)"
    "len (w_pipes w ! i) < capacity (w_pipes w ! i)"
  shows "\<exists>w'. io_write rt (PipeHandle i) d w = Some (Ok (length d), w') \<and>
    pipe_contents (w_pipes w' ! i) =
      pipe_contents (w_pipes w ! i) @ take (capacity (w_pipes w ! i) - len (w_pipes w ! i)) d"
proof -
  let ?p = "w_pipes w ! i"
  obtain ws q where q: "poll_write (rt_self rt) d ?p = (Ready (Ok (min (length d) (capacity ?p - len ?p))), ws, q)"
    "pipe_contents q = pipe_contents ?p @ take (capacity ?p - len ?p) d"
    using poll_write_open [OF assms(2-4)] by blast
  from with_pipe_eq [of "poll_write (rt_self rt) d", OF q(1)] have
    "pipe_await rt i (poll_write (rt_self rt) d) w = Some (Ok (min (length d) (capacity ?p - len ?p)),
       wake_tasks ws (w\<lparr>w_pipes := (w_pipes w)[i := q]\<rparr>))"
    by (simp add: pipe_await_def)
  with assms(1) q(2) show ?thesis by (simp add: io_write_def)
qed

section \<open>Line buffering\<close>

lemma next_flush_exact:
  assumes "next_flush m b = Some (chunk, rest)" "0 < m"
  shows "chunk @ rest = b \<and> chunk \<noteq> [] \<and> newline \<notin> set (butlast chunk) \<and>
    (last chunk = newline \<or> length chunk = m \<and> newline \<notin> set b)"
proof (cases "newline \<in> set b")
  case True
  let ?l = "takeWhile (\<lambda>c. c \<noteq> newline) b" and ?r = "dropWhile (\<lambda>c. c \<noteq> newline) b"
  from True have "?r = newline # tl ?r"
    by (metis (mono_tags, lifting) dropWhile_eq_Nil_conv hd_dropWhile list.collapse)
  then have "?l @ newline # tl ?r = b" using takeWhile_dropWhile_id [of "\<lambda>c. c \<noteq> newline" b] by simp
  moreover have "chunk = ?l @ [newline]" "rest = tl ?r" using True assms(1) by (simp_all add: next_flush_def)
  moreover have "newline \<notin> set ?l" by (auto dest: set_takeWhileD)
  ultimately show ?thesis by (simp add: butlast_append)
next
  case False
  with assms show ?thesis
    by (auto simp: next_flush_def split: if_splits dest: in_set_takeD in_set_butlastD)
qed

lemma next_flush_None: "next_flush m b = None \<longleftrightarrow> newline \<notin> set b \<and> length b < m"
  by (auto simp: next_flush_def)

lemma flush_loop_Ok:
  assumes "flush_loop rt s i m w = Some (Ok (), w')"
  shows "next_flush m (fst (w_buffers w' ! i)) = None"
proof -
  have "fst y = Ok () \<longrightarrow> next_flush k (fst (w_buffers (snd y) ! j)) = None"
    if "flush_loop rt t j k v = Some y" for rt t j k v y
  proof (rule flush_loop.raw_induct [OF _ that], goal_cases)
    case (1 loop rt t j k v y)
    show ?case
    proof (cases "next_flush k (fst (w_buffers v ! j))")
      case None
      with 1(2) show ?thesis by auto
    next
      case (Some p)
      then obtain c r where "next_flush k (fst (w_buffers v ! j)) = Some (c, r)" by (cases p) simp
      with 1(2) obtain x :: "(bytes, handle_error) result \<times> world"
        where x: "(case fst x of Inl e \<Rightarrow> Some (Err e, snd x) | Inr _ \<Rightarrow> loop rt t j k (snd x)) = Some y"
        by (simp add: bind_eq_Some_conv del: split_paired_Ex split_paired_All) blast
      show ?thesis
      proof (cases "fst x")
        case (Inr u)
        with x 1(1) show ?thesis by simp
      qed (use x in auto)
    qed
  qed
  from this [OF assms] show ?thesis by simp
qed

section \<open>Properties\<close>

text \<open>C25. A write through a pipe handle reports all bytes as written, also when only a part of them fits:
  the rest is lost, and \<open>write_all\<close>, which goes on after a short write, is told that there was none.\<close>

theorem pipe_write_loses:
  assumes "i < length (w_pipes w)" "pipe_ok (w_pipes w ! i)" "\<not> closed (w_pipes w ! i)"
    and "len (w_pipes w ! i) < capacity (w_pipes w ! i)" "d \<noteq> []"
  shows "\<exists>w'. write_all rt (PipeHandle i) d w = Some (Ok (), w') \<and>
    pipe_contents (w_pipes w' ! i) =
      pipe_contents (w_pipes w ! i) @ take (capacity (w_pipes w ! i) - len (w_pipes w ! i)) d"
proof -
  from pipe_write [OF assms(1-4), of rt d] obtain w' where
    "io_write rt (PipeHandle i) d w = Some (Ok (length d), w')"
    "pipe_contents (w_pipes w' ! i) =
      pipe_contents (w_pipes w ! i) @ take (capacity (w_pipes w ! i) - len (w_pipes w ! i)) d" by blast
  with assms(5) show ?thesis by (simp add: write_all.simps)
qed

definition empty_world :: "vfs \<Rightarrow> world" where
  "empty_world v = \<lparr>w_vfs = v, w_cells = [], w_buffers = [], w_pipes = [], w_sched = scheduler_new 16,
     w_spawned = [], w_console = []\<rparr>"

definition alone :: runtime where
  "alone = \<lparr>rt_self = 0, rt_others = (\<lambda>w. None), rt_nested = Some, rt_clock = (\<lambda>w. 0)\<rparr>"

theorem pipe_write_loses_witness:
  "\<exists>w'. write_all alone (PipeHandle 0) [1, 2, 3, 4, 5] (snd (new_pipe 3 (empty_world vfs_new))) = Some (Ok (), w') \<and>
    pipe_contents (w_pipes w' ! 0) = [1, 2, 3]"
proof -
  let ?w = "snd (new_pipe 3 (empty_world vfs_new))"
  have p: "w_pipes ?w = [pipe_new 3]" by (simp add: new_pipe_def empty_world_def)
  have "pipe_contents (pipe_new 3) = []" "len (pipe_new 3) = 0" "capacity (pipe_new 3) = 3" "\<not> closed (pipe_new 3)"
    by (simp_all add: pipe_contents_def pipe_new_def capacity_def)
  with pipe_write_loses [of 0 ?w "[1, 2, 3, 4, 5]" alone] pipe_new_ok [of 3] show ?thesis by (simp add: p)
qed

text \<open>C23. A file opened for writing holds, after any sequence of writes through the handle, exactly their
  concatenation, and no such write fails; the file that was there before is gone.\<close>

theorem file_holds_writes:
  assumes "open_write path w = (Ok h, w1)"
  shows "\<exists>w2. act_fold (\<lambda>d u. write_all rt h d) ds () w1 = Some (Ok (), w2) \<and>
    read_file (w_vfs w2) path = Ok (concat ds)"
proof -
  from open_write_end [OF assms] obtain i where i: "h = FileHandle path i False True False" "at_file_end path i [] w1"
    by blast
  with write_all_sequence [OF i(2), of rt False ds] show ?thesis
    by (auto simp: at_file_end_def read_file_def)
qed

theorem file_holds_writes_witness:
  "\<exists>h w1 w2. open_write ''/workspace/a'' (empty_world vfs_new) = (Ok h, w1) \<and>
    act_fold (\<lambda>d u. write_all alone h d) [[1, 2], [], [3]] () w1 = Some (Ok (), w2) \<and>
    read_file (w_vfs w2) ''/workspace/a'' = Ok [1, 2, 3]"
proof -
  have "is_ok (fst (open_write ''/workspace/a'' (empty_world vfs_new)))" by code_simp
  then obtain h w1 where "open_write ''/workspace/a'' (empty_world vfs_new) = (Ok h, w1)"
    by (metis is_ok_iff prod.collapse)
  with file_holds_writes [OF this, of alone "[[1, 2], [], [3]]"] show ?thesis by auto
qed

text \<open>Line buffering of a host stream: each block that is printed is the front of the buffer up to the
  first newline, or \<open>m\<close> bytes when there is none; when a write returns, the buffer is shorter than \<open>m\<close> and
  holds no newline, so with a limit of zero no write ever returns.\<close>

lemma host_stream_lines:
  "(\<forall>b chunk rest. 0 < m \<longrightarrow> next_flush m b = Some (chunk, rest) \<longrightarrow> chunk @ rest = b \<and> chunk \<noteq> [] \<and>
      newline \<notin> set (butlast chunk) \<and> (last chunk = newline \<or> length chunk = m \<and> newline \<notin> set b)) \<and>
   (s \<noteq> 0 \<longrightarrow> io_write rt (HostStream s i m) d w = Some (Ok n, w') \<longrightarrow>
      newline \<notin> set (fst (w_buffers w' ! i)) \<and> length (fst (w_buffers w' ! i)) < m)"
proof -
  have "newline \<notin> set (fst (w_buffers w' ! i)) \<and> length (fst (w_buffers w' ! i)) < m"
    if "s \<noteq> 0" "io_write rt (HostStream s i m) d w = Some (Ok n, w')"
  proof -
    from that obtain v where "flush_loop rt s i m v = Some (Ok (), w')"
      by (auto simp: io_write_def write_host_def act_bind_Some act_try_Some)
    from flush_loop_Ok [OF this] show ?thesis by (simp add: next_flush_None)
  qed
  with next_flush_exact show ?thesis by blast
qed

end
