(* ===== verification/Context.thy ===== *)
theory Context
  imports IoHandleSound
begin

text \<open>
  The context of a command, \<open>crates/amla-sandbox-shell/src/context.rs\<close>: its arguments, its handles, its
  directory and its environment, and the operations on files with paths taken relative to the directory.
  A command is an action on the world with its \<open>Exit\<close> or error as result. \<open>normalize_path\<close> is the
  function of that name in \<open>context.rs\<close> and in \<open>lib.rs\<close>.
\<close>

section \<open>Paths and arguments\<close>

fun normalize_parts :: "string list \<Rightarrow> string list \<Rightarrow> string list" where
  "normalize_parts acc [] = acc"
| "normalize_parts acc (p # ps) =
     (if p = [] \<or> p = ''.'' then normalize_parts acc ps
      else if p = ''..'' then normalize_parts (butlast acc) ps
      else normalize_parts (acc @ [p]) ps)"

definition normalize_path :: "string \<Rightarrow> string" where
  "normalize_path path =
     (let parts = normalize_parts [] (split_on CHR ''/'' path)
      in if parts = [] then ''/'' else CHR ''/'' # join_on CHR ''/'' parts)"

definition resolve_in :: "string \<Rightarrow> string \<Rightarrow> string" where
  "resolve_in cwd path =
     (if starts_with path ''/'' then normalize_path path
      else normalize_path (if ends_with cwd ''/'' then cwd @ path else cwd @ ''/'' @ path))"

definition command_name :: "cmd_ctx \<Rightarrow> string" where
  "command_name c = (case ctx_argv c of [] \<Rightarrow> [] | a # as \<Rightarrow> a)"

definition ctx_args :: "cmd_ctx \<Rightarrow> string list" where
  "ctx_args c = (if ctx_argv c = [] then [] else tl (ctx_argv c))"

definition ctx_resolve :: "cmd_ctx \<Rightarrow> string \<Rightarrow> string" where
  "ctx_resolve c path = resolve_in (ctx_cwd c) path"

section \<open>Input and output\<close>

definition write_line :: "runtime \<Rightarrow> io_handle \<Rightarrow> string \<Rightarrow> (world, (unit, handle_error) result) act" where
  "write_line rt h s = act_try (write_all rt h (ascii s)) (\<lambda>_. write_all rt h [newline])"

definition ctx_println :: "runtime \<Rightarrow> cmd_ctx \<Rightarrow> string \<Rightarrow> (world, (unit, handle_error) result) act" where
  "ctx_println rt c s = write_line rt (ctx_stdout c) s"

definition ctx_eprintln :: "runtime \<Rightarrow> cmd_ctx \<Rightarrow> string \<Rightarrow> (world, (unit, handle_error) result) act" where
  "ctx_eprintln rt c s = write_line rt (ctx_stderr c) s"

section \<open>Files\<close>

text \<open>The content of a mounted file, asked of the host.\<close>

definition host_file :: "runtime \<Rightarrow> string \<Rightarrow> (world, (bytes, handle_error) result) act" where
  "host_file rt path =
     act_bind (await (rt_others rt) (poll_world_op rt) (file_read path))
       (\<lambda>r. act_ret (map_err (\<lambda>e. IoMessage (''host read failed: '' @ show_host_error e)) r))"

definition ctx_open_read :: "runtime \<Rightarrow> cmd_ctx \<Rightarrow> string \<Rightarrow> (world, (io_handle, handle_error) result) act" where
  "ctx_open_read rt c path w =
     (let path = ctx_resolve c path
      in case get_host_path (w_vfs w) path of
           Some hp \<Rightarrow> act_try (host_file rt hp) (\<lambda>d. act_do (\<lambda>w. map_prod Ok id (new_buffer d w))) w
         | None \<Rightarrow> Some (open_read path w))"

definition ctx_open_or_stdin :: "runtime \<Rightarrow> cmd_ctx \<Rightarrow> string \<Rightarrow> (world, (io_handle, handle_error) result) act" where
  "ctx_open_or_stdin rt c path = (if path = ''-'' then act_ret (Ok (ctx_stdin c)) else ctx_open_read rt c path)"

definition ctx_open_write :: "cmd_ctx \<Rightarrow> string \<Rightarrow> world \<Rightarrow> (io_handle, handle_error) result \<times> world" where
  "ctx_open_write c path w = open_write (ctx_resolve c path) w"

definition ctx_open_append :: "cmd_ctx \<Rightarrow> string \<Rightarrow> world \<Rightarrow> (io_handle, handle_error) result \<times> world" where
  "ctx_open_append c path w = open_append (ctx_resolve c path) w"

definition ctx_read_file :: "runtime \<Rightarrow> cmd_ctx \<Rightarrow> string \<Rightarrow> (world, (bytes, handle_error) result) act" where
  "ctx_read_file rt c path w =
     (let path = ctx_resolve c path
      in case get_host_path (w_vfs w) path of
           Some hp \<Rightarrow> host_file rt hp w
         | None \<Rightarrow> Some (map_err IoVfs (read_file (w_vfs w) path), w))"

text \<open>An operation of the file system, with its error as an \<open>IoError\<close>.\<close>

definition on_vfs :: "(vfs \<Rightarrow> ('a, vfs_error) result \<times> vfs) \<Rightarrow> world \<Rightarrow> ('a, handle_error) result \<times> world" where
  "on_vfs f w = (let (r, v) = f (w_vfs w) in (map_err IoVfs r, w\<lparr>w_vfs := v\<rparr>))"

definition ctx_write_file :: "cmd_ctx \<Rightarrow> string \<Rightarrow> bytes \<Rightarrow> world \<Rightarrow> (unit, handle_error) result \<times> world" where
  "ctx_write_file c path b = on_vfs (write_file (ctx_resolve c path) b ReadWrite)"

definition ctx_append_file :: "cmd_ctx \<Rightarrow> string \<Rightarrow> bytes \<Rightarrow> world \<Rightarrow> (unit, handle_error) result \<times> world" where
  "ctx_append_file c path b = on_vfs (append_file (ctx_resolve c path) b)"

definition ctx_list_dir :: "cmd_ctx \<Rightarrow> string \<Rightarrow> world \<Rightarrow> ((string \<times> bool) list, handle_error) result" where
  "ctx_list_dir c path w =
     (let path = ctx_resolve c path; v = w_vfs w
      in if \<not> exists_path v path then Err (IoNotFound path)
         else if \<not> is_dir v path then Err (IoNotDir path)
         else map_err IoVfs (map_ok (map (\<lambda>e. (de_name e, de_is_dir e))) (list_dir v path)))"

text \<open>\<open>Stat\<close> with its size, and whether it is a directory or a file.\<close>

definition ctx_stat :: "cmd_ctx \<Rightarrow> string \<Rightarrow> world \<Rightarrow> (u64 \<times> bool \<times> bool, handle_error) result" where
  "ctx_stat c path w =
     (let path = ctx_resolve c path; v = w_vfs w
      in if is_mounted v path then Ok (0, False, True)
         else if \<not> exists_path v path then Err (IoNotFound path)
         else Ok (if is_file v path then of_nat (file_size v path) else 0, is_dir v path, is_file v path))"

definition ctx_exists :: "cmd_ctx \<Rightarrow> string \<Rightarrow> world \<Rightarrow> bool" where
  "ctx_exists c path w =
     (let path = ctx_resolve c path in exists_path (w_vfs w) path \<or> is_mounted (w_vfs w) path)"

definition ctx_is_dir :: "cmd_ctx \<Rightarrow> string \<Rightarrow> world \<Rightarrow> bool" where
  "ctx_is_dir c path w = is_dir (w_vfs w) (ctx_resolve c path)"

definition ctx_is_file :: "cmd_ctx \<Rightarrow> string \<Rightarrow> world \<Rightarrow> bool" where
  "ctx_is_file c path w =
     (let path = ctx_resolve c path in is_file (w_vfs w) path \<or> is_mounted (w_vfs w) path)"

definition ctx_mkdir :: "cmd_ctx \<Rightarrow> string \<Rightarrow> world \<Rightarrow> (unit, handle_error) result \<times> world" where
  "ctx_mkdir c path = on_vfs (create_dir (ctx_resolve c path) ReadWrite)"

definition ctx_mkdir_p :: "cmd_ctx \<Rightarrow> string \<Rightarrow> world \<Rightarrow> (unit, handle_error) result \<times> world" where
  "ctx_mkdir_p c path = on_vfs (create_dir_all (ctx_resolve c path) ReadWrite)"

definition ctx_remove :: "cmd_ctx \<Rightarrow> string \<Rightarrow> world \<Rightarrow> (unit, handle_error) result \<times> world" where
  "ctx_remove c path = on_vfs (vfs_remove (ctx_resolve c path))"

definition ctx_remove_recursive :: "cmd_ctx \<Rightarrow> string \<Rightarrow> world \<Rightarrow> (unit, handle_error) result \<times> world" where
  "ctx_remove_recursive c path = on_vfs (remove_recursive (ctx_resolve c path))"

text \<open>\<open>sleep_until\<close>: the timer is registered when the future is made.\<close>

definition poll_world_sleep :: "runtime \<Rightarrow> sleep_future \<Rightarrow> world \<Rightarrow> unit poll \<times> sleep_future \<times> world" where
  "poll_world_sleep rt f w =
     (let (r, f, t) = sleep_poll (TaskWaker (rt_self rt)) f (sched_timers (w_sched w))
      in (r, f, w\<lparr>w_sched := (w_sched w)\<lparr>sched_timers := t\<rparr>\<rparr>))"

definition sleep_until :: "runtime \<Rightarrow> time_nanos \<Rightarrow> (world, unit) act" where
  "sleep_until rt d =
     act_bind (act_do (\<lambda>w.
         let (f, t, c) = sleep_new d (sched_timers (w_sched w)) (sched_channel (w_sched w))
         in (f, w\<lparr>w_sched := (w_sched w)\<lparr>sched_timers := t, sched_channel := c\<rparr>\<rparr>)))
       (await (rt_others rt) (poll_world_sleep rt))"

section \<open>Facts about paths\<close>

lemma normalize_parts_valid:
  "list_all valid_name acc \<Longrightarrow> \<forall>p \<in> set ps. CHR ''/'' \<notin> set p \<and> CHR 0x00 \<notin> set p \<Longrightarrow>
     list_all valid_name (normalize_parts acc ps)"
proof (induction acc ps rule: normalize_parts.induct)
  case (2 acc p ps)
  have "list_all valid_name (butlast acc)" using 2(4) by (auto simp: list_all_iff dest: in_set_butlastD)
  moreover have "\<forall>q \<in> set ps. CHR ''/'' \<notin> set q \<and> CHR 0x00 \<notin> set q" using 2(5) by simp
  moreover have "p \<noteq> [] \<Longrightarrow> p \<noteq> ''.'' \<Longrightarrow> p \<noteq> ''..'' \<Longrightarrow> valid_name p" using 2(5) by (simp add: valid_name_def)
  ultimately show ?case using 2(1,2,3,4) by (simp del: split_paired_All)
qed simp

lemma normalize_parts_names:
  "list_all valid_name ps \<Longrightarrow> normalize_parts acc ps = acc @ ps"
  by (induction ps arbitrary: acc) (auto simp: valid_name_def)

lemma normalize_path_of: "normalize_path path = path_of (normalize_parts [] (split_on CHR ''/'' path))"
  by (simp add: normalize_path_def path_of_def Let_def)

lemma split_on_set: "p \<in> set (split_on c s) \<Longrightarrow> set p \<subseteq> set s"
proof (induction s arbitrary: p)
  case step: (Cons x s)
  show ?case
  proof (cases "split_on c s")
    case (Cons q qs)
    have "set r \<subseteq> set s" if "r \<in> set (q # qs)" for r using step.IH that by (simp add: Cons)
    with Cons step.prems show ?thesis by (fastforce split: if_splits)
  qed (use step.prems in \<open>auto split: if_splits\<close>)
qed simp

lemma normalize_path_canonical:
  assumes "CHR 0x00 \<notin> set path"
  shows "canonical (normalize_path path)"
proof -
  have "\<forall>p \<in> set (split_on CHR ''/'' path). CHR ''/'' \<notin> set p \<and> CHR 0x00 \<notin> set p"
    using split_on_no_sep [of _ "CHR ''/''" path] split_on_set [of _ "CHR ''/''" path] assms by fastforce
  from normalize_parts_valid [OF _ this, of "[]"] show ?thesis
    by (auto simp: canonical_def normalize_path_of)
qed

lemma split_path_of:
  assumes "list_all valid_name cs" "cs \<noteq> []"
  shows "split_on CHR ''/'' (path_of cs) = [] # cs"
proof -
  have "\<forall>p \<in> set ([] # cs). CHR ''/'' \<notin> set p" using assms(1) by (auto simp: valid_name_def list_all_iff)
  from split_on_join_on [OF _ this] assms(2) show ?thesis by (simp add: path_of_def join_on_Cons)
qed

lemma normalize_path_fixed:
  assumes "canonical p"
  shows "normalize_path p = p"
proof -
  from assms obtain cs where cs: "list_all valid_name cs" "p = path_of cs" by (auto simp: canonical_def)
  show ?thesis
  proof (cases "cs = []")
    case True
    then have "p = ''/''" using cs(2) by simp
    then show ?thesis by (simp add: normalize_path_def)
  next
    case False
    with normalize_parts_names [OF cs(1), of "[]"] split_path_of [OF cs(1)] show ?thesis
      by (simp add: normalize_path_of cs(2))
  qed
qed

lemma resolve_in_canonical:
  assumes "CHR 0x00 \<notin> set path" "CHR 0x00 \<notin> set cwd"
  shows "canonical (resolve_in cwd path)"
  using assms by (auto simp: resolve_in_def intro!: normalize_path_canonical)

text \<open>Relative paths are resolved to canonical absolute ones, whatever they contain: the result has no
  empty, \<open>.\<close> or \<open>..\<close> components, resolving it again from anywhere gives it back, and \<open>..\<close> at the root
  stays there.\<close>

theorem resolve_in_form:
  assumes "CHR 0x00 \<notin> set path" "CHR 0x00 \<notin> set cwd"
  shows "canonical (resolve_in cwd path) \<and> resolve_in dir (resolve_in cwd path) = resolve_in cwd path \<and>
    resolve_in ''/'' (''../'' @ path) = resolve_in ''/'' path"
proof -
  have c: "canonical (resolve_in cwd path)" by (rule resolve_in_canonical [OF assms])
  moreover from c have "starts_with (resolve_in cwd path) ''/''"
    by (auto simp: canonical_def path_of_def starts_with_def)
  moreover have "resolve_in ''/'' (''../'' @ path) = resolve_in ''/'' path"
    by (simp add: resolve_in_def starts_with_def ends_with_def normalize_path_def)
  ultimately show ?thesis using normalize_path_fixed [OF c] by (simp add: resolve_in_def)
qed

theorem resolve_in_form_witness:
  "resolve_in ''/'' ''../../etc/./x//y'' = ''/etc/x/y'' \<and> canonical ''/etc/x/y''"
proof -
  have "resolve_in ''/'' ''../../etc/./x//y'' = ''/etc/x/y''" by code_simp
  with resolve_in_form [of "''../../etc/./x//y''" "''/''" "''/''"] show ?thesis by simp
qed

end
