(* ===== verification/Jobs.thy ===== *)
theory Jobs
  imports SchedulerSpec
begin

text \<open>
  Background jobs, \<open>crates/amla-sandbox-shell/src/jobs.rs\<close>, over the model of the scheduler: a handle is
  the index of a completion slot. What \<open>get_mut\<close> gives out is the first job with the number, so an
  update through it is \<open>update_job\<close>. The number of a job is a \<open>usize\<close> that \<open>add\<close> counts up without a check, so it
  wraps around at \<open>2 ^ 32\<close>.
\<close>

section \<open>Definitions\<close>

datatype job_state = Running | JobDone int

record job =
  job_id :: nat
  job_command :: string
  job_handles :: "nat list"
  job_status :: job_state

record job_table =
  job_slots :: "job option list"
  last_job :: nat

definition job_table_new :: job_table where
  "job_table_new = \<lparr>job_slots = [], last_job = 0\<rparr>"

definition job_is_complete :: "job \<Rightarrow> scheduler \<Rightarrow> bool" where
  "job_is_complete j s = list_all (\<lambda>h. is_complete h s) (job_handles j)"

definition result_code :: "task_result \<Rightarrow> int" where
  "result_code r = (case r of Inl _ \<Rightarrow> 1 | Inr x \<Rightarrow> exit_code x)"

definition update_state :: "job \<Rightarrow> scheduler \<Rightarrow> job \<times> scheduler" where
  "update_state j s =
     (if job_is_complete j s then
        (if job_handles j = [] then (j\<lparr>job_status := JobDone 0\<rparr>, s)
         else (case try_get (last (job_handles j)) s of
             (None, s) \<Rightarrow> (j, s)
           | (Some r, s) \<Rightarrow> (j\<lparr>job_status := JobDone (result_code r)\<rparr>, s)))
      else (j, s))"

definition job_kill :: "job \<Rightarrow> scheduler \<Rightarrow> scheduler" where
  "job_kill j s = fold (\<lambda>h s. snd (cancel_handle h s)) (job_handles j) s"

fun put_in_first_slot :: "job \<Rightarrow> job option list \<Rightarrow> job option list" where
  "put_in_first_slot j [] = [Some j]"
| "put_in_first_slot j (None # js) = Some j # js"
| "put_in_first_slot j (Some k # js) = Some k # put_in_first_slot j js"

definition add_job :: "string \<Rightarrow> nat list \<Rightarrow> job_table \<Rightarrow> nat \<times> job_table" where
  "add_job cmd hs t =
     (let i = usize_wrap (last_job t + 1);
          j = \<lparr>job_id = i, job_command = cmd, job_handles = hs, job_status = Running\<rparr>
      in (i, \<lparr>job_slots = put_in_first_slot j (job_slots t), last_job = i\<rparr>))"

text \<open>\<open>iter().flatten()\<close>.\<close>

fun present :: "'a option list \<Rightarrow> 'a list" where
  "present [] = []"
| "present (None # xs) = present xs"
| "present (Some x # xs) = x # present xs"

definition iter_jobs :: "job_table \<Rightarrow> job list" where
  "iter_jobs t = present (job_slots t)"

definition get_job :: "nat \<Rightarrow> job_table \<Rightarrow> job option" where
  "get_job i t = find (\<lambda>j. job_id j = i) (iter_jobs t)"

fun update_slots :: "nat \<Rightarrow> (job \<Rightarrow> job) \<Rightarrow> job option list \<Rightarrow> job option list" where
  "update_slots i f [] = []"
| "update_slots i f (None # js) = None # update_slots i f js"
| "update_slots i f (Some j # js) = (if job_id j = i then Some (f j) # js else Some j # update_slots i f js)"

definition update_job :: "nat \<Rightarrow> (job \<Rightarrow> job) \<Rightarrow> job_table \<Rightarrow> job_table" where
  "update_job i f t = t\<lparr>job_slots := update_slots i f (job_slots t)\<rparr>"

fun remove_slot :: "nat \<Rightarrow> job option list \<Rightarrow> job option \<times> job option list" where
  "remove_slot i [] = (None, [])"
| "remove_slot i (Some j # js) =
     (if job_id j = i then (Some j, None # js)
      else (let (r, js) = remove_slot i js in (r, Some j # js)))"
| "remove_slot i (None # js) = (let (r, js) = remove_slot i js in (r, None # js))"

definition remove_job :: "nat \<Rightarrow> job_table \<Rightarrow> job option \<times> job_table" where
  "remove_job i t = (let (r, js) = remove_slot i (job_slots t) in (r, t\<lparr>job_slots := js\<rparr>))"

definition kill_job :: "nat \<Rightarrow> job_table \<Rightarrow> scheduler \<Rightarrow> bool \<times> job_table \<times> scheduler" where
  "kill_job i t s =
     (let s = (case get_job i t of None \<Rightarrow> s | Some j \<Rightarrow> job_kill j s);
          (r, t) = remove_job i t
      in (r \<noteq> None, t, s))"

fun reap_slots :: "job option list \<Rightarrow> scheduler \<Rightarrow> (nat \<times> int) list \<times> job option list \<times> scheduler" where
  "reap_slots [] s = ([], [], s)"
| "reap_slots (None # js) s = (let (c, js, s) = reap_slots js s in (c, None # js, s))"
| "reap_slots (Some j # js) s =
     (let (j, s) = update_state j s;
          (c, js, s) = reap_slots js s
      in ((case job_status j of JobDone n \<Rightarrow> (job_id j, n) # c | Running \<Rightarrow> c), Some j # js, s))"

definition reap :: "job_table \<Rightarrow> scheduler \<Rightarrow> (nat \<times> int) list \<times> job_table \<times> scheduler" where
  "reap t s =
     (let (c, js, s) = reap_slots (job_slots t) s
      in (c, fold (\<lambda>x t. snd (remove_job (fst x) t)) c (t\<lparr>job_slots := js\<rparr>), s))"

definition jobs_len :: "job_table \<Rightarrow> nat" where
  "jobs_len t = length (filter (\<lambda>j. j \<noteq> None) (job_slots t))"

definition jobs_is_empty :: "job_table \<Rightarrow> bool" where
  "jobs_is_empty t = (jobs_len t = 0)"

section \<open>Numbers of jobs\<close>

definition numbers :: "job_table \<Rightarrow> nat list" where
  "numbers t = map job_id (iter_jobs t)"

definition jobs_ok :: "job_table \<Rightarrow> bool" where
  "jobs_ok t \<longleftrightarrow> distinct (numbers t) \<and> (\<forall>i \<in> set (numbers t). 0 < i \<and> i \<le> last_job t)"

lemma put_in_first_slot_set:
  "set (present (put_in_first_slot j js)) = insert j (set (present js))"
  "job_id j \<notin> job_id ` set (present js) \<Longrightarrow> distinct (map job_id (present js)) \<Longrightarrow>
     distinct (map job_id (present (put_in_first_slot j js)))"
proof (induction j js rule: put_in_first_slot.induct)
  case (3 j k js)
  {
    case 1
    show ?case using 3(1) by auto
  next
    case 2
    then show ?case using 3 by (auto simp: image_iff)
  }
qed (auto simp: image_iff)

lemma remove_slot_facts:
  assumes "remove_slot i js = (r, js')" "distinct (map job_id (present js))"
  shows "present js' = filter (\<lambda>j. job_id j \<noteq> i) (present js)"
    "r = find (\<lambda>j. job_id j = i) (present js)"
  using assms
proof (induction i js arbitrary: r js' rule: remove_slot.induct)
  case (2 i j js)
  {
    case 1
    have "filter (\<lambda>k. job_id k \<noteq> i) (present js) = present js" if "job_id j = i"
      using that 1(2) by (intro filter_True) (auto simp: image_iff)
    with 1 "2.IH"(1) show ?case by (auto split: if_splits prod.splits)
  next
    case 2
    with "2.IH"(2) show ?case by (auto split: if_splits prod.splits)
  }
qed (auto split: prod.splits)

lemma remove_job_facts:
  assumes "jobs_ok t" "remove_job i t = (r, t')"
  shows "iter_jobs t' = filter (\<lambda>j. job_id j \<noteq> i) (iter_jobs t)" "r = get_job i t" "last_job t' = last_job t"
    "jobs_ok t'"
proof -
  obtain js where js: "remove_slot i (job_slots t) = (r, js)" "t' = t\<lparr>job_slots := js\<rparr>"
    using assms(2) by (auto simp: remove_job_def split: prod.splits)
  have d: "distinct (map job_id (present (job_slots t)))"
    using assms(1) by (simp add: jobs_ok_def numbers_def iter_jobs_def)
  from remove_slot_facts [OF js(1) d] show f: "iter_jobs t' = filter (\<lambda>j. job_id j \<noteq> i) (iter_jobs t)"
    "r = get_job i t" by (simp_all add: js(2) iter_jobs_def get_job_def)
  show l: "last_job t' = last_job t" by (simp add: js(2))
  from assms(1) f(1) l show "jobs_ok t'"
    by (auto simp: jobs_ok_def numbers_def intro: distinct_map_filter)
qed


lemma add_job_ok:
  assumes "jobs_ok t" "add_job cmd hs t = (i, t')" "Suc (last_job t) < 2 ^ 32"
  shows "jobs_ok t' \<and> i = Suc (last_job t) \<and> last_job t' = i \<and>
    set (iter_jobs t') = insert \<lparr>job_id = i, job_command = cmd, job_handles = hs, job_status = Running\<rparr> (set (iter_jobs t))"
proof -
  let ?j = "\<lparr>job_id = Suc (last_job t), job_command = cmd, job_handles = hs, job_status = Running\<rparr>"
  have e: "i = Suc (last_job t)" "t' = \<lparr>job_slots = put_in_first_slot ?j (job_slots t), last_job = i\<rparr>"
    using assms(2) by (auto simp: add_job_def Let_def usize_wrap_small [OF assms(3)])
  have "job_id ?j \<notin> job_id ` set (present (job_slots t))"
    using assms(1) by (fastforce simp: jobs_ok_def numbers_def iter_jobs_def)
  with put_in_first_slot_set [of ?j "job_slots t"] assms(1) e show ?thesis
    by (auto simp: jobs_ok_def numbers_def iter_jobs_def)
qed

section \<open>Reaping\<close>

lemma update_state_same [simp]:
  "update_state j s = (j', s') \<Longrightarrow> job_id j' = job_id j"
  by (auto simp: update_state_def split: if_splits option.splits prod.splits)

lemma reap_slots_facts:
  "reap_slots js s = (c, js', s') \<Longrightarrow>
     map job_id (present js') = map job_id (present js) \<and>
     c = [(job_id j, n). j \<leftarrow> present js', n \<leftarrow> (case job_status j of JobDone n \<Rightarrow> [n] | Running \<Rightarrow> [])]"
proof (induction js s arbitrary: c js' s' rule: reap_slots.induct)
  case (3 j js s)
  obtain j1 s1 where u: "update_state j s = (j1, s1)" by fastforce
  obtain c2 js2 s2 where r: "reap_slots js s1 = (c2, js2, s2)" by (metis prod_cases3)
  from 3(1) [OF u [symmetric] refl r] 3(2) u r show ?case by (auto split: job_state.splits)
qed (auto split: prod.splits)

lemma remove_all_facts:
  "jobs_ok t \<Longrightarrow> iter_jobs (fold (\<lambda>x t. snd (remove_job (fst x) t)) c t) =
       filter (\<lambda>j. job_id j \<notin> fst ` set c) (iter_jobs t) \<and>
     jobs_ok (fold (\<lambda>x t. snd (remove_job (fst x) t)) c t)"
proof (induction c arbitrary: t)
  case (Cons x c)
  obtain r t' where r: "remove_job (fst x) t = (r, t')" by fastforce
  note f = remove_job_facts [OF Cons.prems r]
  from Cons.IH [OF f(4)] show ?case
    by (auto simp: r f(1) intro: filter_cong)
qed simp


text \<open>What a running job has come to: the code of its last task, once all of its tasks are complete.\<close>

definition finished :: "scheduler \<Rightarrow> job \<Rightarrow> int option" where
  "finished s j =
     (if list_all (\<lambda>h. done_result (completions s ! h) \<noteq> None) (job_handles j)
      then Some (if job_handles j = [] then 0
        else result_code (the (done_result (completions s ! last (job_handles j)))))
      else None)"

lemma finished_cong:
  "(\<And>h. h \<in> set (job_handles j) \<Longrightarrow> completions s' ! h = completions s ! h) \<Longrightarrow> finished s' j = finished s j"
  by (simp add: finished_def list_all_iff)

lemma update_state_finished:
  assumes "update_state j s = (j', s')" "job_status j = Running"
  shows "j' = (case finished s j of None \<Rightarrow> j | Some n \<Rightarrow> j\<lparr>job_status := JobDone n\<rparr>)"
    "h \<notin> set (job_handles j) \<Longrightarrow> completions s' ! h = completions s ! h"
proof -
  have c: "job_is_complete j s \<longleftrightarrow> list_all (\<lambda>h. done_result (completions s ! h) \<noteq> None) (job_handles j)"
    by (simp add: job_is_complete_def is_complete_def)
  have l: "last (job_handles j) \<in> set (job_handles j)" if "job_handles j \<noteq> []" using that by simp
  have "j' = (case finished s j of None \<Rightarrow> j | Some n \<Rightarrow> j\<lparr>job_status := JobDone n\<rparr>) \<and>
    (h \<notin> set (job_handles j) \<longrightarrow> completions s' ! h = completions s ! h)"
  proof (cases "job_is_complete j s \<and> job_handles j \<noteq> []")
    case True
    let ?k = "last (job_handles j)"
    have k: "?k \<in> set (job_handles j)" using True by simp
    have "list_all (\<lambda>h. done_result (completions s ! h) \<noteq> None) (job_handles j)" using True c by simp
    with k obtain r where r: "done_result (completions s ! ?k) = Some r" unfolding list_all_iff by blast
    have "finished s j = Some (result_code r)" using True c r by (simp add: finished_def)
    moreover have "update_state j s = (j\<lparr>job_status := JobDone (result_code r)\<rparr>,
        put_completion ?k ((completions s ! ?k)\<lparr>done_result := None, done_taken := True\<rparr>) s)"
      using True r by (simp add: update_state_def try_get_def Let_def)
    then have "j' = j\<lparr>job_status := JobDone (result_code r)\<rparr>"
      "s' = put_completion ?k ((completions s ! ?k)\<lparr>done_result := None, done_taken := True\<rparr>) s"
      unfolding assms(1) prod.inject by blast+
    moreover have "h \<noteq> ?k" if "h \<notin> set (job_handles j)" using that k by blast
    ultimately show ?thesis by (intro conjI impI) (simp_all add: put_completion_def)
  next
    case False
    show ?thesis
    proof (cases "job_is_complete j s")
      case True
      with False have u: "update_state j s = (j\<lparr>job_status := JobDone 0\<rparr>, s)" and n: "finished s j = Some 0"
        by (simp_all add: update_state_def finished_def)
      from u have "j' = j\<lparr>job_status := JobDone 0\<rparr> \<and> s' = s" unfolding assms(1) prod.inject by blast
      then show ?thesis unfolding n by simp
    next
      case False
      then have u: "update_state j s = (j, s)" and n: "finished s j = None"
        using c by (simp_all add: update_state_def finished_def)
      from u have "j' = j \<and> s' = s" unfolding assms(1) prod.inject by blast
      then show ?thesis unfolding n by simp
    qed
  qed
  then show "j' = (case finished s j of None \<Rightarrow> j | Some n \<Rightarrow> j\<lparr>job_status := JobDone n\<rparr>)"
    "h \<notin> set (job_handles j) \<Longrightarrow> completions s' ! h = completions s ! h" by blast+
qed

definition apart :: "job list \<Rightarrow> bool" where
  "apart js \<longleftrightarrow> distinct (concat (map (\<lambda>j. remdups (job_handles j)) js))"

lemma apart_Cons:
  "apart (j # js) \<longleftrightarrow> apart js \<and> (\<forall>k \<in> set js. set (job_handles j) \<inter> set (job_handles k) = {})"
  by (auto simp: apart_def)

lemma reap_slots_finished:
  "reap_slots js s = (c, js', s') \<Longrightarrow> apart (present js) \<Longrightarrow> \<forall>j \<in> set (present js). job_status j = Running \<Longrightarrow>
     present js' = map (\<lambda>j. case finished s j of None \<Rightarrow> j | Some n \<Rightarrow> j\<lparr>job_status := JobDone n\<rparr>) (present js)"
proof (induction js s arbitrary: c js' s' rule: reap_slots.induct)
  case (3 j js s)
  obtain j1 s1 where u: "update_state j s = (j1, s1)" by fastforce
  obtain c2 js2 s2 where r: "reap_slots js s1 = (c2, js2, s2)" by (metis prod_cases3)
  have run: "job_status j = Running" using 3(4) by simp
  have "finished s1 k = finished s k" if "k \<in> set (present js)" for k
  proof (rule finished_cong)
    fix h assume "h \<in> set (job_handles k)"
    with that 3(3) have "h \<notin> set (job_handles j)" by (auto simp: apart_Cons)
    with update_state_finished(2) [OF u run] show "completions s1 ! h = completions s ! h" by blast
  qed
  moreover have "present js2 =
      map (\<lambda>j. case finished s1 j of None \<Rightarrow> j | Some n \<Rightarrow> j\<lparr>job_status := JobDone n\<rparr>) (present js)"
    using 3(1) [OF u [symmetric] refl r] 3(3,4) by (simp add: apart_Cons)
  ultimately have "present js2 =
      map (\<lambda>j. case finished s j of None \<Rightarrow> j | Some n \<Rightarrow> j\<lparr>job_status := JobDone n\<rparr>) (present js)"
    by (simp cong: map_cong)
  with 3(2) u r update_state_finished(1) [OF u run] show ?case by (auto split: job_state.splits)
qed (auto split: prod.splits)

section \<open>Killing\<close>

text \<open>What a cancellation does to the tree and to the slots.\<close>

lemma cancel_facts:
  assumes "sched_ok s" "cancel_task a s = (b, s')"
  shows "length (completions s') = length (completions s)"
    "k < length (completions s) \<Longrightarrow> done_task (completions s' ! k) = done_task (completions s ! k)"
    "live s' c \<longleftrightarrow> live s c \<and> c \<notin> subtree s {a}"
    "kid s' c d \<Longrightarrow> kid s c d"
proof -
  have "length (completions s') = length (completions s) \<and>
    (k < length (completions s) \<longrightarrow> done_task (completions s' ! k) = done_task (completions s ! k)) \<and>
    (live s' c \<longleftrightarrow> live s c \<and> c \<notin> subtree s {a}) \<and> (kid s' c d \<longrightarrow> kid s c d)"
  proof (cases "live s a")
    case False
    then have "subtree s {a} = {}" by (simp add: subtree_def)
    with False cancel_task_cases [OF assms(1), of a] assms(2) show ?thesis by simp
  next
    case True
    with cancel_task_cases [OF assms(1), of a] assms(2) obtain zs where
      zs: "distinct zs" "set zs = subtree s {a}"
        and s': "s' = (let u = fold end_task zs (unlinked a s)
          in u\<lparr>ready_queue := filter (\<lambda>i. task_at u i \<noteq> None) (ready_queue u)\<rparr>)" by auto
    let ?u = "fold end_task zs (unlinked a s)"
    have lives: "\<forall>x \<in> set zs. live (unlinked a s) x" using zs(2) subtree_live by auto
    have f: "tasks s' = tasks ?u" "generations s' = generations ?u" "completions s' = completions ?u"
      by (simp_all add: s' Let_def)
    have lk: "live s' = live ?u" "the_task s' = the_task ?u"
      by (rule live_cong [OF f(1,2)], rule the_task_cong [OF f(1)])
    then have "kid s' c d = kid ?u c d" by (simp add: kid_def)
    moreover have "kid (unlinked a s) c d \<longrightarrow> kid s c d" by (auto simp: unlinked_def disown_kid split: option.splits)
    ultimately have "kid s' c d \<longrightarrow> kid s c d" by (simp add: fold_end_kid [OF lives])
    moreover have "live s' c \<longleftrightarrow> live s c \<and> c \<notin> subtree s {a}"
      by (simp add: lk fold_end_live_ids [OF lives] zs(2))
    moreover have "done_task (completions s' ! k) = done_task (completions s ! k)" if "k < length (completions s)"
      using completions_fold_end [OF lives zs(1), of k] that by (simp add: f set_cancelled_def)
    ultimately show ?thesis by (simp add: f)
  qed
  then show "length (completions s') = length (completions s)"
    "k < length (completions s) \<Longrightarrow> done_task (completions s' ! k) = done_task (completions s ! k)"
    "live s' c \<longleftrightarrow> live s c \<and> c \<notin> subtree s {a}" "kid s' c d \<Longrightarrow> kid s c d" by blast+
qed

text \<open>The tasks behind a list of handles, those that have been placed.\<close>

definition placed :: "nat list \<Rightarrow> scheduler \<Rightarrow> task_id set" where
  "placed hs s = {a. \<exists>h \<in> set hs. done_task (completions s ! h) = Some a}"

lemma subtree_below:
  assumes "\<And>c d. kid s' c d \<Longrightarrow> kid s c d" "\<And>c. live s' c \<Longrightarrow> live s c"
  shows "subtree s' as \<subseteq> subtree s as"
  using rtranclp_mono [of "kid s'" "kid s"] assms by (fastforce simp: subtree_def)

lemma subtree_root_in: "live s a \<Longrightarrow> a \<in> as \<Longrightarrow> a \<in> subtree s as"
  by (auto simp: subtree_def)

lemma subtree_kid: "b \<in> subtree s as \<Longrightarrow> kid s b c \<Longrightarrow> c \<in> subtree s as"
  by (auto simp: subtree_def intro: rtranclp.rtrancl_into_rtrancl)

lemma cancel_kid:
  assumes "sched_ok s" "cancel_task a s = (b, s')" "kid s c d" "d \<notin> subtree s {a}"
  shows "kid s' c d"
proof (cases "live s a")
  case False
  with cancel_task_cases [OF assms(1), of a] assms(2,3) show ?thesis by simp
next
  case True
  with cancel_task_cases [OF assms(1), of a] assms(2) obtain zs where
    zs: "set zs = subtree s {a}"
      and s': "s' = (let u = fold end_task zs (unlinked a s)
        in u\<lparr>ready_queue := filter (\<lambda>i. task_at u i \<noteq> None) (ready_queue u)\<rparr>)" by auto
  let ?u = "fold end_task zs (unlinked a s)"
  have lives: "\<forall>x \<in> set zs. live (unlinked a s) x" using zs subtree_live by auto
  have f: "tasks s' = tasks ?u" "generations s' = generations ?u" by (simp_all add: s' Let_def)
  have "kid s' c d = kid ?u c d" using live_cong [OF f] the_task_cong [OF f(1)] by (simp add: kid_def)
  moreover have "c \<notin> set zs" using subtree_kid assms(3,4) by (auto simp: zs)
  moreover have "d \<noteq> a" using subtree_root [OF True] assms(4) by auto
  then have "kid (unlinked a s) c d" using assms(3) by (simp add: unlinked_def disown_kid split: option.split)
  ultimately show ?thesis using assms(4) by (simp add: fold_end_kid [OF lives] zs)
qed

lemma subtree_cancelled:
  assumes "sched_ok s" "cancel_task a s = (b, s')"
  shows "subtree s' as = subtree s as - subtree s {a}"
proof
  note f = cancel_facts [OF assms]
  have "subtree s' as \<subseteq> subtree s as" by (rule subtree_below) (use f(3,4) in blast)+
  moreover have "live s' c" if "c \<in> subtree s' as" for c using that subtree_live by blast
  ultimately show "subtree s' as \<subseteq> subtree s as - subtree s {a}" using f(3) by blast
  have path: "(kid s')\<^sup>*\<^sup>* r c \<and> r \<notin> subtree s {a}" if "(kid s)\<^sup>*\<^sup>* r c" "c \<notin> subtree s {a}" for r c
    using that
  proof (induction rule: rtranclp_induct)
    case (step c d)
    then have "c \<notin> subtree s {a}" using subtree_kid by blast
    with step cancel_kid [OF assms step(2)] show ?case by (auto intro: rtranclp.rtrancl_into_rtrancl)
  qed simp
  show "subtree s as - subtree s {a} \<subseteq> subtree s' as"
  proof
    fix c assume c: "c \<in> subtree s as - subtree s {a}"
    then obtain r where r: "r \<in> as" "live s r" "(kid s)\<^sup>*\<^sup>* r c" by (auto simp: subtree_def)
    with path c f(3) show "c \<in> subtree s' as" by (auto simp: subtree_def)
  qed
qed

lemma cancel_all_exact:
  "sched_ok s \<Longrightarrow> \<forall>h \<in> set hs. h < length (completions s) \<Longrightarrow> s' = fold (\<lambda>h s. snd (cancel_handle h s)) hs s \<Longrightarrow>
     sched_ok s' \<and> (\<forall>c. live s' c \<longleftrightarrow> live s c \<and> c \<notin> subtree s (placed hs s))"
proof (induction hs arbitrary: s)
  case (Cons h hs)
  obtain b s1 where s1: "cancel_handle h s = (b, s1)" by fastforce
  have ok: "sched_ok s1" by (rule cancel_handle_ok [OF Cons(2) s1])
  show ?case
  proof (cases "done_task (completions s ! h)")
    case None
    then have "s1 = s" "placed (h # hs) s = placed hs s" using s1 by (auto simp: cancel_handle_def placed_def)
    with Cons.IH [OF Cons(2)] Cons(3,4) s1 show ?thesis by simp
  next
    case (Some a)
    then have c: "cancel_task a s = (b, s1)" using s1 by (simp add: cancel_handle_def)
    note f = cancel_facts [OF Cons(2) c]
    have p: "placed hs s1 = placed hs s" using f(2) Cons(3) by (auto simp: placed_def)
    have hs: "placed (h # hs) s = insert a (placed hs s)" using Some by (auto simp: placed_def)
    have "sched_ok s' \<and> (\<forall>c. live s' c \<longleftrightarrow> live s1 c \<and> c \<notin> subtree s1 (placed hs s1))"
      using Cons.IH [OF ok] Cons(3,4) f(1) s1 by simp
    then show ?thesis
      using f(3) unfolding hs p subtree_cancelled [OF Cons(2) c] subtree_insert [of s a "placed hs s"] by blast
  qed
qed (simp add: placed_def subtree_def)

section \<open>Properties\<close>

datatype job_op =
    AddJob string "nat list"
  | RemoveJob nat
  | KillJob nat
  | ReapJobs
  | RefreshJob nat

definition refresh_job :: "nat \<Rightarrow> job_table \<Rightarrow> scheduler \<Rightarrow> job_table \<times> scheduler" where
  "refresh_job i t s =
     (case get_job i t of
        None \<Rightarrow> (t, s)
      | Some j \<Rightarrow> (let (j, s) = update_state j s in (update_job i (\<lambda>k. j) t, s)))"

fun run_job_op :: "job_op \<Rightarrow> job_table \<times> scheduler \<Rightarrow> nat list \<times> job_table \<times> scheduler" where
  "run_job_op (AddJob cmd hs) (t, s) = (let (i, t) = add_job cmd hs t in ([i], t, s))"
| "run_job_op (RemoveJob i) (t, s) = ([], snd (remove_job i t), s)"
| "run_job_op (KillJob i) (t, s) = ([], snd (kill_job i t s))"
| "run_job_op ReapJobs (t, s) = ([], snd (reap t s))"
| "run_job_op (RefreshJob i) (t, s) = ([], refresh_job i t s)"

fun run_job_ops :: "job_op list \<Rightarrow> job_table \<times> scheduler \<Rightarrow> nat list \<times> job_table \<times> scheduler" where
  "run_job_ops [] x = ([], x)"
| "run_job_ops (op # ops) x = (let (ns, x) = run_job_op op x; (ms, x) = run_job_ops ops x in (ns @ ms, x))"

lemma update_slots_numbers:
  "(\<And>j. job_id j = i \<Longrightarrow> job_id (f j) = i) \<Longrightarrow>
     map job_id (present (update_slots i f js)) = map job_id (present js)"
  by (induction i f js rule: update_slots.induct) auto

lemma refresh_job_ok:
  assumes "jobs_ok t" "refresh_job i t s = (t', s')"
  shows "jobs_ok t' \<and> last_job t' = last_job t"
proof (cases "get_job i t")
  case None
  with assms show ?thesis by (simp add: refresh_job_def)
next
  case (Some j)
  obtain j' s1 where u: "update_state j s = (j', s1)" by fastforce
  from Some have "job_id j = i" by (auto simp: get_job_def find_Some_iff)
  with update_state_same [OF u] have "map job_id (present (update_slots i (\<lambda>k. j') (job_slots t))) =
      map job_id (present (job_slots t))" by (intro update_slots_numbers) simp
  moreover have "t' = update_job i (\<lambda>k. j') t" using assms(2) Some u by (simp add: refresh_job_def)
  ultimately have "numbers t' = numbers t" "last_job t' = last_job t"
    by (simp_all add: numbers_def iter_jobs_def update_job_def)
  with assms(1) show ?thesis by (simp add: jobs_ok_def)
qed

lemma reap_facts:
  assumes "jobs_ok t" "reap t s = (c, t', s')" "reap_slots (job_slots t) s = (c, js, s')"
  shows "iter_jobs t' = filter (\<lambda>j. job_id j \<notin> fst ` set c) (present js) \<and> jobs_ok t' \<and> last_job t' = last_job t"
proof -
  let ?t = "t\<lparr>job_slots := js\<rparr>"
  have t': "t' = fold (\<lambda>x t. snd (remove_job (fst x) t)) c ?t" using assms(2,3) by (simp add: reap_def)
  have "jobs_ok ?t" using assms(1) reap_slots_facts [OF assms(3)] by (simp add: jobs_ok_def numbers_def iter_jobs_def)
  moreover have "last_job (fold (\<lambda>x t. snd (remove_job (fst x) t)) c u) = last_job u" for u
    by (induction c arbitrary: u) (auto simp: remove_job_def split: prod.split)
  ultimately show ?thesis using remove_all_facts [of ?t c] by (simp add: t' iter_jobs_def)
qed

lemma last_job_kept:
  "last_job (snd (remove_job i t)) = last_job t" "last_job (fst (snd (kill_job i t s))) = last_job t"
  "last_job (fst (snd (reap t s))) = last_job t" "last_job (fst (refresh_job i t s)) = last_job t"
proof -
  have r: "last_job (snd (remove_job i t)) = last_job t" for i and t :: job_table
    by (simp add: remove_job_def split: prod.split)
  then show "last_job (snd (remove_job i t)) = last_job t" .
  from r show "last_job (fst (snd (kill_job i t s))) = last_job t" by (simp add: kill_job_def Let_def split_beta)
  have "last_job (fold (\<lambda>x t. snd (remove_job (fst x) t)) c u) = last_job u" for c :: "(nat \<times> int) list" and u
    by (induction c arbitrary: u) (simp_all add: r)
  then show "last_job (fst (snd (reap t s))) = last_job t" by (simp add: reap_def split: prod.split)
  show "last_job (fst (refresh_job i t s)) = last_job t"
    by (simp add: refresh_job_def update_job_def split: option.split prod.split)
qed

text \<open>The numbers given out, wrap-around included, whatever the operations are.\<close>

lemma run_job_op_numbers:
  assumes "last_job t < 2 ^ 32" "run_job_op op (t, s) = (ns, t', s')"
  shows "ns = map usize_wrap [Suc (last_job t) ..< Suc (last_job t + length ns)] \<and>
    last_job t' = usize_wrap (last_job t + length ns)"
proof (cases "\<exists>cmd hs. op = AddJob cmd hs")
  case True
  with assms show ?thesis by (auto simp: add_job_def Let_def)
next
  case False
  have "ns = [] \<and> last_job t' = last_job t"
  proof (cases op)
    case (KillJob i)
    with assms(2) last_job_kept(2) [of i t s] show ?thesis by simp
  next
    case ReapJobs
    with assms(2) last_job_kept(3) [of t s] show ?thesis by simp
  next
    case (RefreshJob i)
    with assms(2) last_job_kept(4) [of i t s] show ?thesis by simp
  qed (use assms(2) False last_job_kept(1) in auto)
  with assms(1) show ?thesis by simp
qed

lemma upt_join: "i \<le> j \<Longrightarrow> j \<le> k \<Longrightarrow> [i ..< j] @ [j ..< k] = [i ..< k]"
  using upt_add_eq_append [of i j "k - j"] by simp

lemma map_usize_wrap_upt:
  "map usize_wrap [Suc (usize_wrap m) ..< Suc (usize_wrap m + k)] = map usize_wrap [Suc m ..< Suc (m + k)]"
proof (induction k)
  case (Suc k)
  have "usize_wrap (usize_wrap m + Suc k) = usize_wrap (m + Suc k)" by (rule usize_wrap_add)
  with Suc show ?case by simp
qed simp

lemma run_job_ops_numbers:
  "last_job t < 2 ^ 32 \<Longrightarrow> run_job_ops ops (t, s) = (ns, t', s') \<Longrightarrow>
     ns = map usize_wrap [Suc (last_job t) ..< Suc (last_job t + length ns)] \<and>
     last_job t' = usize_wrap (last_job t + length ns)"
proof (induction ops arbitrary: t s ns)
  case (Cons op ops)
  obtain ns1 t1 s1 where a: "run_job_op op (t, s) = (ns1, t1, s1)" by (metis prod_cases3)
  obtain ns2 where b: "run_job_ops ops (t1, s1) = (ns2, t', s')" "ns = ns1 @ ns2"
    using Cons.prems(2) a by (auto split: prod.splits)
  note one = run_job_op_numbers [OF Cons.prems(1) a]
  then have "last_job t1 < 2 ^ 32" using usize_wrap_less by metis
  note two = Cons.IH [OF this b(1)]
  have "ns2 = map usize_wrap [Suc (last_job t + length ns1) ..< Suc (last_job t + length ns1 + length ns2)]"
    using two one map_usize_wrap_upt by metis
  then have "ns = map usize_wrap ([Suc (last_job t) ..< Suc (last_job t + length ns1)] @
      [Suc (last_job t + length ns1) ..< Suc (last_job t + length ns1 + length ns2)])"
    using one b(2) by (metis map_append)
  moreover have "last_job t' = usize_wrap (last_job t + length ns1 + length ns2)"
    using two one usize_wrap_add by metis
  ultimately show ?case using b(2) by (simp add: upt_join add.assoc del: upt_Suc)
qed simp

lemma run_job_op_ok:
  assumes "jobs_ok t" "run_job_op op (t, s) = (ns, t', s')" "last_job t + length ns < 2 ^ 32"
  shows "jobs_ok t'"
proof (cases op)
  case (AddJob cmd hs)
  with assms add_job_ok [OF assms(1), of cmd hs] show ?thesis by (auto split: prod.splits)
next
  case (RemoveJob i)
  with assms remove_job_facts [OF assms(1), of i] show ?thesis by (cases "remove_job i t") auto
next
  case (KillJob i)
  with assms remove_job_facts [OF assms(1), of i] show ?thesis
    by (cases "remove_job i t") (auto simp: kill_job_def Let_def)
next
  case ReapJobs
  obtain c js s1 where r: "reap_slots (job_slots t) s = (c, js, s1)" by (metis prod_cases3)
  then obtain t1 where t1: "reap t s = (c, t1, s1)" by (simp add: reap_def)
  from reap_facts [OF assms(1) this r] assms(2) t1 ReapJobs show ?thesis by simp
next
  case (RefreshJob i)
  with assms refresh_job_ok [OF assms(1), of i s t' s'] show ?thesis by simp
qed

lemma run_job_ops_ok:
  "jobs_ok t \<Longrightarrow> run_job_ops ops (t, s) = (ns, t', s') \<Longrightarrow> last_job t + length ns < 2 ^ 32 \<Longrightarrow> jobs_ok t'"
proof (induction ops arbitrary: t s ns)
  case (Cons op ops)
  obtain ns1 t1 s1 where a: "run_job_op op (t, s) = (ns1, t1, s1)" by (metis prod_cases3)
  obtain ns2 where b: "run_job_ops ops (t1, s1) = (ns2, t', s')" "ns = ns1 @ ns2"
    using Cons.prems(2) a by (auto split: prod.splits)
  have n: "last_job t + length ns1 + length ns2 < 2 ^ 32" using Cons.prems(3) b(2) by simp
  then have "last_job t1 = last_job t + length ns1"
    using run_job_op_numbers [OF _ a] by (metis add_lessD1 usize_wrap_small)
  with n run_job_op_ok [OF Cons.prems(1) a] Cons.IH [OF _ b(1)] show ?case by simp
qed simp

text \<open>C27. Jobs are numbered 1, 2, 3 and so on in the order they are added, whatever operations come in
  between, with the wrap-around of the counter: the k-th job added has the number \<open>k mod 2 ^ 32\<close>. While fewer
  than \<open>2 ^ 32\<close> jobs have been added, no number is given twice, also when a slot is used again, no two jobs of
  the table share one, and the table holds no other number. From the \<open>2 ^ 32\<close>-th job on the numbers 0, 1, 2
  are given again.\<close>

theorem job_numbers:
  assumes "run_job_ops ops (job_table_new, s) = (ns, t, s')"
  shows "ns = map (\<lambda>k. k mod 2 ^ 32) [1 ..< Suc (length ns)] \<and>
    (length ns < 2 ^ 32 \<longrightarrow> distinct ns \<and> distinct (numbers t) \<and> set (numbers t) \<subseteq> set ns)"
proof (intro conjI impI)
  have "usize_wrap = (\<lambda>k. k mod 2 ^ 32)" by (simp add: fun_eq_iff usize_wrap_def)
  then show ns: "ns = map (\<lambda>k. k mod 2 ^ 32) [1 ..< Suc (length ns)]"
    using run_job_ops_numbers [OF _ assms] by (simp add: job_table_new_def)
  assume n: "length ns < 2 ^ 32"
  then have "map (\<lambda>k. k mod 2 ^ 32) [1 ..< Suc (length ns)] = [1 ..< Suc (length ns)]" by (intro map_idI) auto
  with ns have eq: "ns = [1 ..< Suc (length ns)]" by simp
  then show "distinct ns" by (metis distinct_upt)
  have ok: "jobs_ok t" using run_job_ops_ok [OF _ assms] n
    by (simp add: job_table_new_def jobs_ok_def numbers_def iter_jobs_def)
  then show "distinct (numbers t)" by (simp add: jobs_ok_def)
  have "last_job t = length ns" using run_job_ops_numbers [OF _ assms] n by (simp add: job_table_new_def)
  with ok have "set (numbers t) \<subseteq> set [1 ..< Suc (length ns)]" by (auto simp: jobs_ok_def)
  with eq show "set (numbers t) \<subseteq> set ns" by metis
qed

definition sample_ops :: "job_op list" where
  "sample_ops = [AddJob ''a'' [], AddJob ''b'' [], ReapJobs, AddJob ''c'' []]"

theorem job_numbers_witness:
  "fst (run_job_ops sample_ops (job_table_new, scheduler_new 1)) = [1, 2, 3] \<and>
    distinct (numbers (fst (snd (run_job_ops sample_ops (job_table_new, scheduler_new 1)))))"
proof -
  let ?r = "run_job_ops sample_ops (job_table_new, scheduler_new 1)"
  have r: "?r = (fst ?r, fst (snd ?r), snd (snd ?r))" by simp
  have l: "length (fst ?r) = 3" by code_simp
  note n = job_numbers [OF r, unfolded l]
  have "map (\<lambda>k. k mod 2 ^ 32) [1 ..< Suc 3] = [1, 2, 3 :: nat]" by (simp add: upt_rec)
  then have "fst ?r = [1, 2, 3]" using conjunct1 [OF n] by (rule trans [rotated])
  moreover have "(3 :: nat) < 2 ^ 32" by simp
  then have "distinct (numbers (fst (snd ?r)))" using conjunct2 [OF n] by blast
  ultimately show ?thesis ..
qed

text \<open>The number after the last one is 0, and the numbers start again: a job that is still in the table may
  then share its number with a new one, and everything that looks it up finds the first of the two.\<close>

lemma job_number_reused:
  assumes "last_job t = 2 ^ 32 - 1"
  shows "fst (add_job cmd hs t) = 0"
    "fst (add_job cmd' hs' (snd (add_job cmd hs t))) = 1"
  using assms by (simp_all add: add_job_def Let_def usize_wrap_def)

lemma reported_ids:
  "fst ` set (concat (map (\<lambda>j. map (Pair (f j)) (case g j of None \<Rightarrow> [] | Some n \<Rightarrow> [n])) js)) =
     f ` {k \<in> set js. g k \<noteq> None}"
proof (induction js)
  case (Cons j js)
  then show ?case by (cases "g j") (auto simp: Collect_conj_eq)
qed simp

text \<open>Reaping reports each running job whose tasks are all complete, once and in the order of the table,
  with the exit code of its last task (1 when that task failed), removes exactly these and keeps the others
  as they were.\<close>

theorem reap_exact:
  assumes "jobs_ok t" "apart (iter_jobs t)" "\<forall>j \<in> set (iter_jobs t). job_status j = Running"
    and "reap t s = (c, t', s')"
  shows "c = [(job_id j, n). j \<leftarrow> iter_jobs t, n \<leftarrow> (case finished s j of None \<Rightarrow> [] | Some n \<Rightarrow> [n])] \<and>
    iter_jobs t' = filter (\<lambda>j. finished s j = None) (iter_jobs t)"
proof -
  let ?u = "\<lambda>j. case finished s j of None \<Rightarrow> j | Some n \<Rightarrow> j\<lparr>job_status := JobDone n\<rparr>"
  obtain js where r: "reap_slots (job_slots t) s = (c, js, s')"
    using assms(4) by (auto simp: reap_def split: prod.splits)
  have js: "present js = map ?u (iter_jobs t)"
    using reap_slots_finished [OF r] assms(2,3) by (simp add: iter_jobs_def)
  have c: "c = concat (map (\<lambda>j. map (Pair (job_id j)) (case finished s j of None \<Rightarrow> [] | Some n \<Rightarrow> [n])) (iter_jobs t))"
    using reap_slots_facts [OF r] assms(3) js
    by (auto simp: comp_def intro!: arg_cong [of _ _ concat] split: option.split)
  have "iter_jobs t' = filter (\<lambda>j. finished s j = None) (iter_jobs t)"
  proof -
    have ok: "iter_jobs t' = filter (\<lambda>j. job_id j \<notin> fst ` set c) (map ?u (iter_jobs t))"
      using reap_facts [OF assms(1,4) r] js by simp
    have "filter (\<lambda>j. job_id j \<notin> fst ` set c) (map ?u js) = filter (\<lambda>j. finished s j = None) js"
      if "\<And>j. j \<in> set js \<Longrightarrow> job_id j \<in> fst ` set c \<longleftrightarrow> finished s j \<noteq> None" for js
      using that by (induction js) (auto split: option.splits)
    moreover have "job_id j \<in> fst ` set c \<longleftrightarrow> finished s j \<noteq> None" if "j \<in> set (iter_jobs t)" for j
    proof -
      have "fst ` set c = job_id ` {k \<in> set (iter_jobs t). finished s k \<noteq> None}"
        unfolding c by (rule reported_ids)
      moreover have "inj_on job_id (set (iter_jobs t))"
        using assms(1) by (simp add: jobs_ok_def numbers_def distinct_map)
      ultimately show ?thesis using that by (simp add: inj_on_image_mem_iff [of _ "set (iter_jobs t)"])
    qed
    ultimately show ?thesis using ok by simp
  qed
  with c show ?thesis by simp
qed


definition sample_jobs :: job_table where
  "sample_jobs = snd (add_job ''b'' [1] (snd (add_job ''a'' [0] job_table_new)))"

definition sample_slots :: scheduler where
  "sample_slots = (scheduler_new 1)\<lparr>completions :=
     [\<lparr>done_result = Some (Ok (exit_with 3)), done_waker = None, done_task = None, done_taken = False\<rparr>,
      \<lparr>done_result = None, done_waker = None, done_task = None, done_taken = False\<rparr>]\<rparr>"

theorem reap_exact_witness:
  "fst (reap sample_jobs sample_slots) = [(1, 3)] \<and>
    map job_id (iter_jobs (fst (snd (reap sample_jobs sample_slots)))) = [2]"
proof -
  have "list_all (\<lambda>j. job_status j = Running) (iter_jobs sample_jobs)" "distinct (numbers sample_jobs)"
    "list_all (\<lambda>i. 0 < i \<and> i \<le> last_job sample_jobs) (numbers sample_jobs)"
    "distinct (concat (map (\<lambda>j. remdups (job_handles j)) (iter_jobs sample_jobs)))"
    "[(job_id j, n). j \<leftarrow> iter_jobs sample_jobs,
       n \<leftarrow> (case finished sample_slots j of None \<Rightarrow> [] | Some n \<Rightarrow> [n])] = [(1, 3)]"
    "map job_id (filter (\<lambda>j. finished sample_slots j = None) (iter_jobs sample_jobs)) = [2]"
    by code_simp+
  with reap_exact [of sample_jobs sample_slots "fst (reap sample_jobs sample_slots)"
      "fst (snd (reap sample_jobs sample_slots))" "snd (snd (reap sample_jobs sample_slots))"]
  show ?thesis by (simp add: jobs_ok_def apart_def list_all_iff)
qed

lemma get_job_removed:
  assumes "jobs_ok t" "kill_job i t s = (b, t', s')"
  shows "b \<longleftrightarrow> get_job i t \<noteq> None" "get_job i t' = None" "iter_jobs t' = filter (\<lambda>j. job_id j \<noteq> i) (iter_jobs t)"
    "s' = (case get_job i t of None \<Rightarrow> s | Some j \<Rightarrow> job_kill j s)"
proof -
  obtain r t1 where r: "remove_job i t = (r, t1)" by fastforce
  note f = remove_job_facts [OF assms(1) r]
  have k: "b = (r \<noteq> None)" "t' = t1" "s' = (case get_job i t of None \<Rightarrow> s | Some j \<Rightarrow> job_kill j s)"
    using assms(2) r by (auto simp: kill_job_def)
  show "b \<longleftrightarrow> get_job i t \<noteq> None" by (simp add: k f(2))
  show i: "iter_jobs t' = filter (\<lambda>j. job_id j \<noteq> i) (iter_jobs t)" by (simp add: k f(1))
  show "get_job i t' = None" by (simp add: get_job_def i find_None_iff)
  show "s' = (case get_job i t of None \<Rightarrow> s | Some j \<Rightarrow> job_kill j s)" by (rule k(3))
qed

text \<open>C24. Killing a job takes it off the table, leaves the other jobs, and ends exactly the tasks of the job
  that the scheduler has placed and all the tasks below these in the tree: every other task stays. A task of the
  job that still waits in the spawn queue is not placed, and is not ended (\<open>kill_misses_unplaced\<close>).\<close>

theorem kill_job_exact:
  assumes "jobs_ok t" "sched_ok s" "get_job i t = Some j" "\<forall>h \<in> set (job_handles j). h < length (completions s)"
    and "kill_job i t s = (b, t', s')"
  shows "b \<and> get_job i t' = None \<and> iter_jobs t' = filter (\<lambda>k. job_id k \<noteq> i) (iter_jobs t) \<and> sched_ok s' \<and>
    (\<forall>c. live s' c \<longleftrightarrow> live s c \<and> c \<notin> subtree s (placed (job_handles j) s))"
proof -
  note k = get_job_removed [OF assms(1,5)]
  have "s' = fold (\<lambda>h s. snd (cancel_handle h s)) (job_handles j) s" using k(4) assms(3) by (simp add: job_kill_def)
  from cancel_all_exact [OF assms(2,4) this] k assms(3) show ?thesis by auto
qed

theorem kill_job_exact_witness:
  "fst (kill_job 1 (snd (add_job ''sleep 9'' [1] job_table_new)) sample_family) \<and>
    \<not> live (snd (snd (kill_job 1 (snd (add_job ''sleep 9'' [1] job_table_new)) sample_family))) sample_sub"
proof -
  let ?t = "snd (add_job ''sleep 9'' [1] job_table_new)"
  let ?j = "\<lparr>job_id = 1, job_command = ''sleep 9'', job_handles = [1], job_status = Running\<rparr>"
  have t: "iter_jobs ?t = [?j]" "last_job ?t = 1" by (simp_all add: add_job_def job_table_new_def iter_jobs_def)
  then have "jobs_ok ?t" "get_job 1 ?t = Some ?j" by (simp_all add: jobs_ok_def numbers_def get_job_def)
  moreover have "sample_sub \<in> placed [1] sample_family" "1 < length (completions sample_family)"
    by (simp_all add: placed_def sample_family_def)
  moreover have "sample_sub \<in> subtree sample_family (placed [1] sample_family)"
    by (rule subtree_root_in [OF sample_live(2) calculation(3)])
  ultimately show ?thesis
    using kill_job_exact [of ?t sample_family 1 ?j "fst (kill_job 1 ?t sample_family)"
      "fst (snd (kill_job 1 ?t sample_family))" "snd (snd (kill_job 1 ?t sample_family))"]
      reach_ok [OF sample_family_reach] by simp
qed

text \<open>A task that still waits in the spawn queue has no identifier, so killing its job does not cancel
  it: the job leaves the table, the scheduler is unchanged and goes on to run the task.\<close>

theorem kill_misses_unplaced:
  assumes "jobs_ok t" "get_job i t = Some j" "\<forall>h \<in> set (job_handles j). done_task (completions s ! h) = None"
    and "kill_job i t s = (b, t', s')"
  shows "b \<and> get_job i t' = None \<and> s' = s"
proof -
  note k = get_job_removed [OF assms(1,4)]
  have "fold (\<lambda>h s. snd (cancel_handle h s)) hs s = s"
    if "\<forall>h \<in> set hs. done_task (completions s ! h) = None" for hs
    using that by (induction hs) (auto simp: cancel_handle_def)
  with assms(3) k assms(2) show ?thesis by (simp add: job_kill_def)
qed


theorem kill_misses_unplaced_witness:
  "kill_job 1 (snd (add_job ''sleep 9'' [0] job_table_new)) (snd (spawn idle_future (scheduler_new 4))) =
     (True, fst (snd (kill_job 1 (snd (add_job ''sleep 9'' [0] job_table_new)) (scheduler_new 4))),
      snd (spawn idle_future (scheduler_new 4))) \<and>
    length (spawn_queue (snd (spawn idle_future (scheduler_new 4)))) = 1"
proof -
  let ?t = "snd (add_job ''sleep 9'' [0] job_table_new)" and ?s = "snd (spawn idle_future (scheduler_new 4))"
  let ?j = "\<lparr>job_id = 1, job_command = ''sleep 9'', job_handles = [0], job_status = Running\<rparr>"
  have t: "iter_jobs ?t = [?j]" "last_job ?t = 1" by (simp_all add: add_job_def job_table_new_def iter_jobs_def)
  then have ok: "jobs_ok ?t" "get_job 1 ?t = Some ?j" by (simp_all add: jobs_ok_def numbers_def get_job_def)
  have s: "\<forall>h \<in> set (job_handles ?j). done_task (completions ?s ! h) = None" "length (spawn_queue ?s) = 1"
    by (simp_all add: spawn_def scheduler_new_def Let_def)
  obtain b t' s' where k: "kill_job 1 ?t ?s = (b, t', s')" by (metis prod_cases3)
  have "t' = fst (snd (kill_job 1 ?t (scheduler_new 4)))"
    using k by (auto simp: kill_job_def Let_def split: prod.splits)
  with kill_misses_unplaced [OF ok s(1) k] k s(2) show ?thesis by simp
qed

end
