(* ===== verification/Utf8.thy ===== *)
theory Utf8
  imports Prelude
begin

text \<open>
  UTF-8 in byte strings, as the standard library of Rust decodes it: \<open>String::from_utf8\<close> accepts the
  well-formed ones, \<open>from_utf8_lossy\<close> replaces each maximal ill-formed piece by U+FFFD.
\<close>

definition in_range :: "u8 \<Rightarrow> nat \<Rightarrow> nat \<Rightarrow> bool" where
  "in_range b l h \<longleftrightarrow> l \<le> unat b \<and> unat b \<le> h"

text \<open>The first continuation byte that may follow a leading byte, and the number of continuation bytes.\<close>

definition lead_width :: "u8 \<Rightarrow> nat option" where
  "lead_width b =
     (if in_range b 0x00 0x7F then Some 0
      else if in_range b 0xC2 0xDF then Some 1
      else if in_range b 0xE0 0xEF then Some 2
      else if in_range b 0xF0 0xF4 then Some 3
      else None)"

definition first_ok :: "u8 \<Rightarrow> u8 \<Rightarrow> bool" where
  "first_ok b c =
     (if b = 0xE0 then in_range c 0xA0 0xBF
      else if b = 0xED then in_range c 0x80 0x9F
      else if b = 0xF0 then in_range c 0x90 0xBF
      else if b = 0xF4 then in_range c 0x80 0x8F
      else in_range c 0x80 0xBF)"

fun continuations :: "nat \<Rightarrow> bytes \<Rightarrow> nat" where
  "continuations (Suc n) (c # cs) = (if in_range c 0x80 0xBF then Suc (continuations n cs) else 0)"
| "continuations _ _ = 0"

text \<open>The length of the piece at the front, and whether it is a character.\<close>

definition next_char :: "u8 \<Rightarrow> bytes \<Rightarrow> nat \<times> bool" where
  "next_char b rest =
     (case lead_width b of
        None \<Rightarrow> (1, False)
      | Some 0 \<Rightarrow> (1, True)
      | Some (Suc n) \<Rightarrow>
          (case rest of
             [] \<Rightarrow> (1, False)
           | c # cs \<Rightarrow>
               if first_ok b c then (let k = continuations n cs in (2 + k, k = n)) else (1, False)))"

lemma next_char_pos: "0 < fst (next_char b rest)"
  by (auto simp: next_char_def Let_def split: option.split nat.split list.split)

definition replacement :: bytes where
  "replacement = [0xEF, 0xBF, 0xBD]"

function from_utf8_lossy :: "bytes \<Rightarrow> bytes" where
  "from_utf8_lossy [] = []"
| "from_utf8_lossy (b # bs) =
     (let (n, ok) = next_char b bs
      in (if ok then take n (b # bs) else replacement) @ from_utf8_lossy (drop n (b # bs)))"
  by pat_completeness auto
termination
proof (relation "measure length", goal_cases)
  case (2 b bs x n ok)
  with next_char_pos [of b bs] show ?case by (metis fst_conv in_measure length_drop diff_less length_greater_0_conv list.discI)
qed simp

function valid_utf8 :: "bytes \<Rightarrow> bool" where
  "valid_utf8 [] = True"
| "valid_utf8 (b # bs) = (let (n, ok) = next_char b bs in ok \<and> valid_utf8 (drop n (b # bs)))"
  by pat_completeness auto
termination
proof (relation "measure length", goal_cases)
  case (2 b bs x n ok)
  with next_char_pos [of b bs] show ?case by (metis fst_conv in_measure length_drop diff_less length_greater_0_conv list.discI)
qed simp

text \<open>Decoding keeps what is well formed.\<close>

lemma lossy_valid: "valid_utf8 b \<Longrightarrow> from_utf8_lossy b = b"
  by (induction b rule: valid_utf8.induct) (auto simp: Let_def split: prod.splits simp del: drop.simps take.simps)

lemma ascii_valid: "\<forall>b \<in> set bs. unat b < 0x80 \<Longrightarrow> valid_utf8 bs"
  by (induction bs) (auto simp: next_char_def lead_width_def in_range_def)

end
