(* ===== verification/Shell.thy ===== *)
theory Shell
  imports Jobs Context Utf8 GlobExpand ParserSound
begin

text \<open>
  The interpreter of the shell, \<open>crates/amla-sandbox-shell/src/lib.rs\<close>, and the table of its commands,
  \<open>commands/mod.rs\<close>. The state is the shell's own beside the world. A command runs in a task of its own:
  here it is spawned with its context on record, and what it does until the shell is polled again belongs
  to the surroundings (\<open>runtime\<close>). Command substitution starts the interpreter again on a part of the
  text; the recursion is cut at a depth (\<open>capture_output\<close>).
\<close>

section \<open>State\<close>

record shell =
  sh_cwd :: string
  sh_env :: env
  sh_jobs :: job_table
  sh_last_exit :: int
  sh_stdin :: io_handle
  sh_stdout :: io_handle
  sh_stderr :: io_handle
  sh_tools :: bool
  sh_pipefail :: bool

type_synonym shell_state = "shell \<times> world"

type_synonym 'a shell_act = "(shell_state, ('a, shell_error) result) act"

definition shell_in :: "string \<Rightarrow> env \<Rightarrow> io_handle \<Rightarrow> io_handle \<Rightarrow> io_handle \<Rightarrow> shell" where
  "shell_in cwd env i out err =
     \<lparr>sh_cwd = cwd, sh_env = env, sh_jobs = job_table_new, sh_last_exit = 0, sh_stdin = i, sh_stdout = out,
       sh_stderr = err, sh_tools = False, sh_pipefail = False\<rparr>"

definition on_world :: "(world, 'a) act \<Rightarrow> (shell_state, 'a) act" where
  "on_world m s = map_option (\<lambda>(x, w). (x, (fst s, w))) (m (snd s))"

definition on_shell :: "(shell \<Rightarrow> shell) \<Rightarrow> (shell_state, unit) act" where
  "on_shell f s = Some ((), (f (fst s), snd s))"

definition ok_code :: "int \<Rightarrow> int shell_act" where
  "ok_code c = act_ret (Ok c)"

section \<open>The table of commands\<close>

definition command_table :: "string list" where
  "command_table =
     ['':'', ''cd'', ''env'', ''exit'', ''export'', ''false'', ''pwd'', ''set'', ''true'', ''unset'',
      ''cat'', ''find'', ''ls'', ''mkdir'', ''rm'', ''touch'', ''cut'', ''echo'', ''grep'', ''head'', ''jq'',
      ''printf'', ''sort'', ''tail'', ''tee'', ''tr'', ''uniq'', ''wc'', ''xxd'', ''test'', ''['', ''sh'',
      ''bash'', ''date'', ''sleep'', ''time'', ''help'', ''node'', ''tool'', ''tools'']"

definition is_command :: "string \<Rightarrow> bool" where
  "is_command name = (name \<in> set command_table)"

section \<open>Expansion\<close>

text \<open>\<open>&rest[slash_pos..]\<close> of the text after \<open>~\<close>: from the first slash on, if there is one.\<close>

definition after_user :: "string \<Rightarrow> string option" where
  "after_user rest =
     (if CHR ''/'' \<in> set rest then Some (dropWhile (\<lambda>c. c \<noteq> CHR ''/'') rest) else None)"

definition expand_tilde :: "env \<Rightarrow> string \<Rightarrow> string" where
  "expand_tilde env t =
     (let home = env_get env ''HOME'';
          or_empty = (case home of None \<Rightarrow> [] | Some h \<Rightarrow> h)
      in if t = ''~'' then or_empty
         else case strip_prefix t ''~/'' of
           Some rest \<Rightarrow> (case home of Some h \<Rightarrow> h @ ''/'' @ rest | None \<Rightarrow> t)
         | None \<Rightarrow>
             (case strip_prefix t ''~'' of
                Some rest \<Rightarrow>
                  (case after_user rest of
                     Some path \<Rightarrow> (case home of Some h \<Rightarrow> h @ path | None \<Rightarrow> t)
                   | None \<Rightarrow> or_empty)
              | None \<Rightarrow> t))"

definition expand_text :: "word_segment \<Rightarrow> shell \<Rightarrow> string" where
  "expand_text g sh =
     (if expand_vars g then expand (sh_env sh) (sh_last_exit sh) (expand_tilde (sh_env sh) (seg_text g))
      else seg_text g)"

definition expand_segment :: "(string \<Rightarrow> string shell_act) \<Rightarrow> word_segment \<Rightarrow> string shell_act" where
  "expand_segment capture g =
     (case command_substitution g of
        Some cmd \<Rightarrow> capture cmd
      | None \<Rightarrow> act_get (\<lambda>s. Ok (expand_text g (fst s))))"

definition expand_word :: "(string \<Rightarrow> string shell_act) \<Rightarrow> shell_word \<Rightarrow> (string \<times> bool) shell_act" where
  "expand_word capture wd =
     act_fold (\<lambda>g (r, can_glob).
         act_try (expand_segment capture g) (\<lambda>t.
         act_ret (Ok (r @ t, can_glob \<or> expand_globs g \<and> command_substitution g = None))))
       wd ([], False)"

definition expand_redirect_path :: "(string \<Rightarrow> string shell_act) \<Rightarrow> shell_word \<Rightarrow> string shell_act" where
  "expand_redirect_path capture wd = act_try (expand_word capture wd) (\<lambda>(t, g). act_ret (Ok t))"

definition expand_argv :: "(string \<Rightarrow> string shell_act) \<Rightarrow> shell_word list \<Rightarrow> string list shell_act" where
  "expand_argv capture argv =
     act_bind (act_get (\<lambda>s. sh_cwd (fst s))) (\<lambda>cwd.
       act_fold (\<lambda>wd r.
           act_try (expand_word capture wd) (\<lambda>(t, can_glob).
           act_get (\<lambda>s. Ok (r @ (if can_glob \<and> is_glob_pattern t
             then expand_glob (w_vfs (snd s)) cwd t else [t])))))
         argv [])"

section \<open>Redirections\<close>

definition resolve_path :: "shell \<Rightarrow> string \<Rightarrow> string" where
  "resolve_path sh path = resolve_in (sh_cwd sh) path"

definition redirect_open ::
  "(string \<Rightarrow> string shell_act) \<Rightarrow> (string \<Rightarrow> world \<Rightarrow> (io_handle, handle_error) result \<times> world) \<Rightarrow>
     shell_word \<Rightarrow> io_handle shell_act" where
  "redirect_open capture open wd =
     act_try (expand_redirect_path capture wd) (\<lambda>p.
     act_do (\<lambda>(sh, w).
       let (r, w) = open (resolve_path sh p) w
       in (map_err (\<lambda>e. RedirectError (show_handle_error e)) r, (sh, w))))"

definition heredoc_text :: "string \<Rightarrow> string" where
  "heredoc_text c = (if c \<noteq> [] \<and> \<not> ends_with c [CHR 0x0A] then c @ [CHR 0x0A] else c)"

type_synonym streams = "io_handle \<times> io_handle \<times> io_handle"

fun apply_redirect :: "(string \<Rightarrow> string shell_act) \<Rightarrow> redirect \<Rightarrow> streams \<Rightarrow> streams shell_act" where
  "apply_redirect capture r (i, out, err) =
     (case (redirect_kind r, redirect_target r, source_fd r) of
        (RWrite, RFile p, fd) \<Rightarrow>
          if fd = 1 then act_try (redirect_open capture open_write p) (\<lambda>h. act_ret (Ok (i, h, err)))
          else if fd = 2 then act_try (redirect_open capture open_write p) (\<lambda>h. act_ret (Ok (i, out, h)))
          else act_ret (Ok (i, out, err))
      | (RAppend, RFile p, fd) \<Rightarrow>
          if fd = 1 then act_try (redirect_open capture open_append p) (\<lambda>h. act_ret (Ok (i, h, err)))
          else if fd = 2 then act_try (redirect_open capture open_append p) (\<lambda>h. act_ret (Ok (i, out, h)))
          else act_ret (Ok (i, out, err))
      | (RRead, RFile p, fd) \<Rightarrow>
          if fd = 0 then act_try (redirect_open capture open_read p) (\<lambda>h. act_ret (Ok (h, out, err)))
          else act_ret (Ok (i, out, err))
      | (_, RFd t, fd) \<Rightarrow>
          if t = 1 \<and> fd = 2 then act_ret (Ok (i, out, out))
          else if t = 2 \<and> fd = 1 then act_ret (Ok (i, err, err))
          else act_ret (Ok (i, out, err))
      | (RRead, RHereDoc c _, fd) \<Rightarrow>
          if fd = 0 then
            act_bind (on_world (act_do (new_buffer (ascii (heredoc_text c)))))
              (\<lambda>h. act_ret (Ok (h, out, err)))
          else act_ret (Ok (i, out, err))
      | _ \<Rightarrow> act_ret (Ok (i, out, err)))"

definition apply_redirects :: "(string \<Rightarrow> string shell_act) \<Rightarrow> redirect list \<Rightarrow> streams \<Rightarrow> streams shell_act" where
  "apply_redirects capture rs io = act_fold (apply_redirect capture) rs io"

section \<open>Tasks\<close>

definition spawn_task :: "spawned \<Rightarrow> world \<Rightarrow> nat \<times> world" where
  "spawn_task x w =
     (let (h, s) = spawn idle_future (w_sched w)
      in (h, w\<lparr>w_sched := s, w_spawned := w_spawned w @ [(h, x)]\<rparr>))"

definition poll_world_handle :: "runtime \<Rightarrow> nat \<Rightarrow> unit \<Rightarrow> world \<Rightarrow> task_result poll \<times> unit \<times> world" where
  "poll_world_handle rt h u w =
     (let (r, s) = poll_handle (TaskWaker (rt_self rt)) h (w_sched w) in (r, u, w\<lparr>w_sched := s\<rparr>))"

definition await_task :: "runtime \<Rightarrow> nat \<Rightarrow> (shell_state, task_result) act" where
  "await_task rt h = on_world (await (rt_others rt) (poll_world_handle rt h) ())"

text \<open>The context of a command, from the shell's state at the time it is spawned.\<close>

definition context_of :: "string list \<Rightarrow> streams \<Rightarrow> shell \<Rightarrow> cmd_ctx" where
  "context_of argv io sh =
     \<lparr>ctx_argv = argv, ctx_stdin = fst io, ctx_stdout = fst (snd io), ctx_stderr = snd (snd io),
       ctx_cwd = sh_cwd sh, ctx_env = sh_env sh, ctx_tools = sh_tools sh\<rparr>"

definition spawn_command :: "string list \<Rightarrow> streams \<Rightarrow> (shell_state, nat) act" where
  "spawn_command argv io s =
     (let (h, w) = spawn_task (RunCommand (context_of argv io (fst s))) (snd s) in Some (h, (fst s, w)))"

definition apply_effects :: "side_effects \<Rightarrow> shell \<Rightarrow> shell" where
  "apply_effects e sh =
     (let sh = (case effect_cwd e of None \<Rightarrow> sh | Some d \<Rightarrow> sh\<lparr>sh_cwd := d\<rparr>);
          sh = sh\<lparr>sh_env := fold (\<lambda>(k, v). env_set k v) (env_sets e) (sh_env sh)\<rparr>;
          sh = sh\<lparr>sh_env := fold env_unset (env_unsets e) (sh_env sh)\<rparr>
      in case effect_pipefail e of None \<Rightarrow> sh | Some b \<Rightarrow> sh\<lparr>sh_pipefail := b\<rparr>)"

definition shell_streams :: "shell \<Rightarrow> streams" where
  "shell_streams sh = (sh_stdin sh, sh_stdout sh, sh_stderr sh)"

end
