(* ===== verification/Interp.thy ===== *)
theory Interp
  imports Shell
begin

text \<open>
  Running commands, \<open>crates/amla-sandbox-shell/src/lib.rs\<close>: simple commands, pipelines, lists, subshells,
  background jobs, command substitution, and the builtins over the job table.
\<close>

section \<open>Jobs\<close>

definition nested_run :: "runtime \<Rightarrow> (shell_state, unit) act" where
  "nested_run rt s = map_option (\<lambda>w. ((), (fst s, w))) (rt_nested rt (snd s))"

definition with_jobs :: "(job_table \<Rightarrow> scheduler \<Rightarrow> 'a \<times> job_table \<times> scheduler) \<Rightarrow> (shell_state, 'a) act" where
  "with_jobs f s =
     (let (x, t, c) = f (sh_jobs (fst s)) (w_sched (snd s))
      in Some (x, ((fst s)\<lparr>sh_jobs := t\<rparr>, (snd s)\<lparr>w_sched := c\<rparr>)))"

definition refresh_all :: "nat list \<Rightarrow> job_table \<Rightarrow> scheduler \<Rightarrow> job_table \<times> scheduler" where
  "refresh_all is t s = fold (\<lambda>i (t, s). refresh_job i t s) is (t, s)"

definition update_job_states :: "(shell_state, unit) act" where
  "update_job_states = with_jobs (\<lambda>t s. ((), refresh_all (map job_id (iter_jobs t)) t s))"

text \<open>A task of a builtin that writes to a handle: \<open>spawn_blocks\<close> only starts it.\<close>

definition spawn_blocks :: "io_handle \<Rightarrow> string list \<Rightarrow> int \<Rightarrow> (shell_state, nat) act" where
  "spawn_blocks h bs c = on_world (act_do (spawn_task (WriteBlocks h bs c)))"

definition complain :: "runtime \<Rightarrow> io_handle \<Rightarrow> string \<Rightarrow> (shell_state, unit) act" where
  "complain rt h msg = act_bind (spawn_blocks h [msg] 1) (\<lambda>_. nested_run rt)"

definition job_line :: "job \<Rightarrow> string" where
  "job_line j =
     ''['' @ show_nat (job_id j) @ ''] '' @
       (case job_status j of Running \<Rightarrow> ''Running'' | JobDone c \<Rightarrow> if c = 0 then ''Done'' else ''Exit'') @
       '' '' @ job_command j"

definition run_builtin_jobs :: "runtime \<Rightarrow> io_handle \<Rightarrow> int shell_act" where
  "run_builtin_jobs rt out =
     act_bind (nested_run rt) (\<lambda>_.
     act_bind update_job_states (\<lambda>_.
     act_bind (act_get (\<lambda>s. concat (map (\<lambda>j. [job_line j, [CHR 0x0A]]) (iter_jobs (sh_jobs (fst s)))))) (\<lambda>bs.
     act_bind (spawn_blocks out bs 0) (\<lambda>h.
     act_bind (await_task rt h) (\<lambda>r. ok_code (result_code r))))))"

definition parse_usize :: "string \<Rightarrow> nat option" where
  "parse_usize s = (case read_nat s of Some n \<Rightarrow> if n < 2 ^ 32 then Some n else None | None \<Rightarrow> None)"

lemma parse_usize_code [code]:
  "parse_usize s = (case read_nat s of Some n \<Rightarrow> if int n < 4294967296 then Some n else None | None \<Rightarrow> None)"
  by (simp add: parse_usize_def split: option.split)

definition parse_job_id :: "string \<Rightarrow> nat option" where
  "parse_job_id arg = parse_usize (dropWhile (\<lambda>c. c = CHR ''%'') arg)"

definition poll_interval :: u64 where
  "poll_interval = 1000000"

definition poll_pause :: "runtime \<Rightarrow> (shell_state, unit) act" where
  "poll_pause rt s = on_world (sleep_until rt (rt_clock rt (snd s) + poll_interval)) s"

definition fg_round :: "runtime \<Rightarrow> nat \<Rightarrow> (shell_state, unit + (int, shell_error) result) act" where
  "fg_round rt i =
     act_bind (nested_run rt) (\<lambda>_.
     act_bind (with_jobs (\<lambda>t s. ((), refresh_job i t s))) (\<lambda>_.
     act_bind (act_get (\<lambda>s. map_option job_status (get_job i (sh_jobs (fst s))))) (\<lambda>st. case st of
         None \<Rightarrow> act_ret (Inr (Ok 0))
       | Some (JobDone c) \<Rightarrow>
           act_bind (with_jobs (\<lambda>t s. ((), snd (remove_job i t), s))) (\<lambda>_. act_ret (Inr (Ok c)))
       | Some Running \<Rightarrow> act_bind (poll_pause rt) (\<lambda>_. act_ret (Inl ())))))"

definition fg_loop :: "runtime \<Rightarrow> nat \<Rightarrow> int shell_act" where
  "fg_loop rt i = act_loop (\<lambda>_. fg_round rt i) ()"

definition running_ids :: "job_table \<Rightarrow> nat list" where
  "running_ids t = map job_id (filter (\<lambda>j. job_status j = Running) (iter_jobs t))"

definition most_recent :: "job_table \<Rightarrow> nat option" where
  "most_recent t = (if running_ids t = [] then None else Some (Max (set (running_ids t))))"

definition run_builtin_fg :: "runtime \<Rightarrow> string list \<Rightarrow> io_handle \<Rightarrow> io_handle \<Rightarrow> int shell_act" where
  "run_builtin_fg rt argv out err =
     act_bind (act_get (\<lambda>s. if length argv > 1 then parse_job_id (argv ! 1) else most_recent (sh_jobs (fst s))))
       (\<lambda>i. case i of
          None \<Rightarrow> act_bind (complain rt err (''fg: no current job'' @ [CHR 0x0A])) (\<lambda>_. ok_code 1)
        | Some i \<Rightarrow>
            act_bind (act_get (\<lambda>s. get_job i (sh_jobs (fst s)))) (\<lambda>j. case j of
              None \<Rightarrow>
                act_bind (complain rt err (''fg: %'' @ show_nat i @ '': no such job'' @ [CHR 0x0A])) (\<lambda>_. ok_code 1)
            | Some j \<Rightarrow>
                (case job_status j of
                   JobDone c \<Rightarrow> act_bind (with_jobs (\<lambda>t s. ((), snd (remove_job i t), s))) (\<lambda>_. ok_code c)
                 | Running \<Rightarrow>
                     act_bind (spawn_blocks out [job_command j, [CHR 0x0A]] 0) (\<lambda>_.
                     act_bind (nested_run rt) (\<lambda>_. fg_loop rt i)))))"

text \<open>A round of \<open>wait\<close>: the states of the jobs are updated in order; the code of the last finished one is
  kept from round to round.\<close>

fun wait_round :: "nat list \<Rightarrow> bool \<times> int \<Rightarrow> job_table \<Rightarrow> scheduler \<Rightarrow> (bool \<times> int) \<times> job_table \<times> scheduler" where
  "wait_round [] r t s = (r, t, s)"
| "wait_round (i # is) (all_done, last_code) t s =
     (let (t, s) = refresh_job i t s
      in wait_round is
           (case map_option job_status (get_job i t) of
              None \<Rightarrow> (all_done, last_code)
            | Some (JobDone c) \<Rightarrow> (all_done, c)
            | Some Running \<Rightarrow> (False, last_code)) t s)"

definition wait_again :: "runtime \<Rightarrow> nat list \<Rightarrow> int \<Rightarrow> (shell_state, int + (int, shell_error) result) act" where
  "wait_again rt is c =
     act_bind (nested_run rt) (\<lambda>_.
     act_bind (with_jobs (wait_round is (True, c))) (\<lambda>(all_done, c).
       if all_done then
         act_bind (with_jobs (\<lambda>t s. ((), fold (\<lambda>i t. snd (remove_job i t)) is t, s))) (\<lambda>_. act_ret (Inr (Ok c)))
       else act_bind (poll_pause rt) (\<lambda>_. act_ret (Inl c))))"

definition wait_loop :: "runtime \<Rightarrow> nat list \<Rightarrow> int \<Rightarrow> int shell_act" where
  "wait_loop rt is c = act_loop (wait_again rt is) c"

definition run_builtin_wait :: "runtime \<Rightarrow> string list \<Rightarrow> int shell_act" where
  "run_builtin_wait rt argv =
     act_bind (act_get (\<lambda>s. if length argv > 1 then List.map_filter parse_job_id (tl argv)
         else map job_id (iter_jobs (sh_jobs (fst s)))))
       (\<lambda>is. if is = [] then ok_code 0 else wait_loop rt is 0)"

fun kill_args :: "runtime \<Rightarrow> io_handle \<Rightarrow> string list \<Rightarrow> int \<Rightarrow> int shell_act" where
  "kill_args rt err [] c = ok_code c"
| "kill_args rt err (arg # args) c =
     (case parse_job_id arg of
        None \<Rightarrow>
          act_bind (complain rt err (''kill: '' @ arg @ '': arguments must be job IDs'' @ [CHR 0x0A]))
            (\<lambda>_. kill_args rt err args 1)
      | Some i \<Rightarrow>
          act_bind (with_jobs (kill_job i)) (\<lambda>killed.
            if killed then kill_args rt err args c
            else act_bind (complain rt err (''kill: %'' @ show_nat i @ '': no such job'' @ [CHR 0x0A]))
              (\<lambda>_. kill_args rt err args 1)))"

definition run_builtin_kill :: "runtime \<Rightarrow> string list \<Rightarrow> io_handle \<Rightarrow> int shell_act" where
  "run_builtin_kill rt argv err =
     (if length argv < 2 then
        act_bind (complain rt err (''kill: usage: kill %jobspec or kill jobid'' @ [CHR 0x0A])) (\<lambda>_. ok_code 1)
      else kill_args rt err (tl argv) 0)"

definition reap_line :: "nat \<times> int \<Rightarrow> string" where
  "reap_line x =
     ''['' @ show_nat (fst x) @ '']+ '' @ (if snd x = 0 then ''Done'' else ''Exit '' @ show_int (snd x)) @ [CHR 0x0A]"

definition reap_completed_jobs :: "runtime \<Rightarrow> io_handle \<Rightarrow> (shell_state, (nat \<times> int) list) act" where
  "reap_completed_jobs rt err =
     act_bind (nested_run rt) (\<lambda>_.
     act_bind update_job_states (\<lambda>_.
     act_bind (with_jobs reap) (\<lambda>done_jobs.
       if done_jobs = [] then act_ret []
       else act_bind (spawn_blocks err (map reap_line done_jobs) 0) (\<lambda>_.
         act_bind (nested_run rt) (\<lambda>_. act_ret done_jobs)))))"

definition running_job_count :: "runtime \<Rightarrow> (shell_state, nat) act" where
  "running_job_count rt =
     act_bind (nested_run rt) (\<lambda>_. act_get (\<lambda>s. length (running_ids (sh_jobs (fst s)))))"

definition has_running_jobs :: "runtime \<Rightarrow> (shell_state, bool) act" where
  "has_running_jobs rt =
     act_bind (nested_run rt) (\<lambda>_.
       act_get (\<lambda>s. list_ex (\<lambda>j. job_status j = Running) (iter_jobs (sh_jobs (fst s)))))"

section \<open>Simple commands\<close>

definition run_spawned :: "runtime \<Rightarrow> string list \<Rightarrow> streams \<Rightarrow> int shell_act" where
  "run_spawned rt argv io =
     act_bind (spawn_command argv io) (\<lambda>h.
     act_bind (await_task rt h) (\<lambda>r.
       case r of
         Inl e \<Rightarrow> ok_code 1
       | Inr x \<Rightarrow> act_bind (on_shell (apply_effects (exit_effects x))) (\<lambda>_. ok_code (exit_code x))))"

definition run_named :: "runtime \<Rightarrow> string list \<Rightarrow> streams \<Rightarrow> int shell_act" where
  "run_named rt argv io =
     (case argv of
        [] \<Rightarrow> act_ret (Err Panicked)
      | name # args \<Rightarrow>
          if name = ''jobs'' then run_builtin_jobs rt (fst (snd io))
          else if name = ''fg'' then run_builtin_fg rt argv (fst (snd io)) (snd (snd io))
          else if name = ''wait'' then run_builtin_wait rt argv
          else if name = ''kill'' then run_builtin_kill rt argv (snd (snd io))
          else if \<not> is_command name then act_ret (Err (CommandNotFound name))
          else run_spawned rt argv io)"

definition execute_simple ::
  "runtime \<Rightarrow> (string \<Rightarrow> string shell_act) \<Rightarrow> shell_word list \<Rightarrow> redirect list \<Rightarrow> int shell_act" where
  "execute_simple rt capture argv rs =
     (if argv = [] then ok_code 0
      else act_try (expand_argv capture argv) (\<lambda>argv.
        act_bind (act_get (\<lambda>s. shell_streams (fst s))) (\<lambda>io.
        act_try (apply_redirects capture rs io) (\<lambda>io. run_named rt argv io))))"

section \<open>Pipelines\<close>

definition pipe_size :: nat where
  "pipe_size = 4096"

text \<open>The pipes of a pipeline of \<open>n\<close> stages get consecutive numbers; \<open>b\<close> is the first.\<close>

definition new_pipes :: "nat \<Rightarrow> (shell_state, nat) act" where
  "new_pipes n =
     on_world (act_do (\<lambda>w. (length (w_pipes w), w\<lparr>w_pipes := w_pipes w @ replicate n (pipe_new pipe_size)\<rparr>)))"

definition stage_streams :: "nat \<Rightarrow> nat \<Rightarrow> nat \<Rightarrow> shell \<Rightarrow> streams" where
  "stage_streams b n i sh =
     (if i = 0 then sh_stdin sh else PipeHandle (b + i - 1),
      if i < n - 1 then PipeHandle (b + i) else sh_stdout sh, sh_stderr sh)"

text \<open>A stage that is no simple command is an error in the foreground (\<open>strict\<close>) and skipped in the
  background. The name of the command is not looked up before the task runs.\<close>

fun spawn_stages ::
  "bool \<Rightarrow> (string \<Rightarrow> string shell_act) \<Rightarrow> nat \<Rightarrow> nat \<Rightarrow> nat \<Rightarrow> command list \<Rightarrow> nat list shell_act" where
  "spawn_stages strict capture b n i [] = act_ret (Ok [])"
| "spawn_stages strict capture b n i (c # cs) =
     (case c of
        Simple argv rs \<Rightarrow>
          act_bind (act_get (\<lambda>s. stage_streams b n i (fst s))) (\<lambda>io.
          act_try (expand_argv capture argv) (\<lambda>argv.
          act_try (apply_redirects capture rs io) (\<lambda>io.
          act_bind (spawn_command argv io) (\<lambda>h.
          act_try (spawn_stages strict capture b n (Suc i) cs) (\<lambda>hs. act_ret (Ok (h # hs)))))))
      | _ \<Rightarrow>
          if strict then act_ret (Err (Syntax NestedPipeline 0))
          else spawn_stages strict capture b n (Suc i) cs)"

definition close_pipe :: "nat \<Rightarrow> (shell_state, unit) act" where
  "close_pipe i = on_world (act_set (io_close (PipeHandle i)))"

text \<open>The stages are awaited in order, and the pipe after each is closed; \<open>f\<close> is the first failure.\<close>

fun await_stages ::
  "runtime \<Rightarrow> bool \<Rightarrow> nat \<Rightarrow> nat \<Rightarrow> nat \<Rightarrow> nat list \<Rightarrow> int \<times> int option \<Rightarrow> int shell_act" where
  "await_stages rt pipefail b k i [] (last_code, f) = ok_code (case f of None \<Rightarrow> last_code | Some c \<Rightarrow> c)"
| "await_stages rt pipefail b k i (h # hs) (last_code, f) =
     act_bind (await_task rt h) (\<lambda>r.
     act_bind (if i < k then close_pipe (b + i) else act_ret ()) (\<lambda>_.
       await_stages rt pipefail b k (Suc i) hs
         (result_code r, if pipefail \<and> result_code r \<noteq> 0 \<and> f = None then Some (result_code r) else f)))"

definition execute_stages :: "runtime \<Rightarrow> (string \<Rightarrow> string shell_act) \<Rightarrow> command list \<Rightarrow> int shell_act" where
  "execute_stages rt capture cs =
     act_bind (new_pipes (length cs - 1)) (\<lambda>b.
     act_try (spawn_stages True capture b (length cs) 0 cs) (\<lambda>hs.
     act_bind (act_get (\<lambda>s. sh_pipefail (fst s))) (\<lambda>pf.
       await_stages rt pf b (length cs - 1) 0 hs (0, None))))"


section \<open>Background commands\<close>

fun join_with :: "string \<Rightarrow> string list \<Rightarrow> string" where
  "join_with sep [] = []"
| "join_with sep [x] = x"
| "join_with sep (x # y # ys) = x @ sep @ join_with sep (y # ys)"

fun format_command :: "command \<Rightarrow> string" where
  "format_command Empty = []"
| "format_command (Simple argv rs) = join_with '' '' (map word_text argv)"
| "format_command (Pipeline cs) = join_with '' | '' (map format_command cs)"
| "format_command (AndList l r) = format_command l @ '' && '' @ format_command r"
| "format_command (OrList l r) = format_command l @ '' || '' @ format_command r"
| "format_command (Sequence cs) = join_with ''; '' (map format_command cs)"
| "format_command (Background c) = format_command c @ '' &''"
| "format_command (Subshell c) = ''('' @ format_command c @ '')''"

definition spawn_background_simple ::
  "(string \<Rightarrow> string shell_act) \<Rightarrow> shell_word list \<Rightarrow> redirect list \<Rightarrow> nat list shell_act" where
  "spawn_background_simple capture argv rs =
     (if argv = [] then act_ret (Ok [])
      else act_try (expand_argv capture argv) (\<lambda>argv.
        case argv of
          [] \<Rightarrow> act_ret (Err Panicked)
        | name # args \<Rightarrow>
            if \<not> is_command name then act_ret (Err (CommandNotFound name))
            else act_bind (act_get (\<lambda>s. shell_streams (fst s))) (\<lambda>io.
              act_try (apply_redirects capture rs io) (\<lambda>io.
              act_bind (spawn_command argv io) (\<lambda>h. act_ret (Ok [h]))))))"

fun close_pipes :: "nat \<Rightarrow> nat \<Rightarrow> (shell_state, unit) act" where
  "close_pipes b 0 = act_ret ()"
| "close_pipes b (Suc k) = act_bind (close_pipe b) (\<lambda>_. close_pipes (Suc b) k)"

definition spawn_background_pipeline ::
  "(string \<Rightarrow> string shell_act) \<Rightarrow> command list \<Rightarrow> nat list shell_act" where
  "spawn_background_pipeline capture cs =
     (if cs = [] then act_ret (Ok [])
      else act_bind (new_pipes (length cs - 1)) (\<lambda>b.
        act_try (spawn_stages False capture b (length cs) 0 cs) (\<lambda>hs.
        act_bind (close_pipes b (length cs - 1)) (\<lambda>_. act_ret (Ok hs)))))"

fun spawn_background :: "(string \<Rightarrow> string shell_act) \<Rightarrow> command \<Rightarrow> nat list shell_act" where
  "spawn_background capture Empty = act_ret (Ok [])"
| "spawn_background capture (Simple argv rs) = spawn_background_simple capture argv rs"
| "spawn_background capture (Pipeline cs) = spawn_background_pipeline capture cs"
| "spawn_background capture (Sequence []) = act_ret (Ok [])"
| "spawn_background capture (Sequence (c # cs)) = spawn_background capture c"
| "spawn_background capture (AndList l r) = spawn_background capture l"
| "spawn_background capture (OrList l r) = spawn_background capture l"
| "spawn_background capture (Background c) = spawn_background capture c"
| "spawn_background capture (Subshell c) = spawn_background capture c"

definition print_line :: "string \<Rightarrow> world \<Rightarrow> world" where
  "print_line l w = w\<lparr>w_console := w_console w @ [l]\<rparr>"

definition execute_background :: "(string \<Rightarrow> string shell_act) \<Rightarrow> command \<Rightarrow> int shell_act" where
  "execute_background capture c =
     act_try (spawn_background capture c) (\<lambda>hs.
       if hs = [] then ok_code 0
       else act_bind (with_jobs (\<lambda>t s. (\<lambda>(i, t). (i, t, s)) (add_job (format_command c) hs t))) (\<lambda>i.
         act_bind (on_world (act_set (print_line (''['' @ show_nat i @ ''] '' @ format_command c @ '' &''))))
           (\<lambda>_. ok_code 0)))"

section \<open>Lists and subshells\<close>

fun collect_and_chain :: "command \<Rightarrow> command list" where
  "collect_and_chain (AndList l r) = collect_and_chain l @ [r]"
| "collect_and_chain c = [c]"

fun collect_or_chain :: "command \<Rightarrow> command list" where
  "collect_or_chain (OrList l r) = collect_or_chain l @ [r]"
| "collect_or_chain c = [c]"

definition in_subshell :: "int shell_act \<Rightarrow> int shell_act" where
  "in_subshell m s =
     (let cwd = sh_cwd (fst s); env = sh_env (fst s)
      in map_option (\<lambda>(r, s). (r, ((fst s)\<lparr>sh_cwd := cwd, sh_env := env\<rparr>, snd s))) (m s))"

definition chain_weight :: "command list \<Rightarrow> nat" where
  "chain_weight cs = (\<Sum>c \<leftarrow> cs. 4 * size c + 2) + 1"

lemma chain_weight_simps [simp]:
  "chain_weight [] = 1" "chain_weight (c # cs) = 4 * size c + 2 + chain_weight cs"
  "chain_weight (cs @ [c]) = chain_weight cs + 4 * size c + 2"
  by (simp_all add: chain_weight_def)

lemma and_chain_weight: "chain_weight (collect_and_chain c) \<le> 4 * size c + 3"
  by (induction c rule: collect_and_chain.induct) auto

lemma or_chain_weight: "chain_weight (collect_or_chain c) \<le> 4 * size c + 3"
  by (induction c rule: collect_or_chain.induct) auto

lemma sequence_weight: "chain_weight cs < 4 * size (Sequence cs) + 2"
  by (induction cs) simp_all

function (sequential)
  execute_command :: "runtime \<Rightarrow> (string \<Rightarrow> string shell_act) \<Rightarrow> command \<Rightarrow> int shell_act" and
  run_and :: "runtime \<Rightarrow> (string \<Rightarrow> string shell_act) \<Rightarrow> command list \<Rightarrow> int shell_act" and
  run_or :: "runtime \<Rightarrow> (string \<Rightarrow> string shell_act) \<Rightarrow> command list \<Rightarrow> int \<Rightarrow> int shell_act" and
  run_sequence :: "runtime \<Rightarrow> (string \<Rightarrow> string shell_act) \<Rightarrow> command list \<Rightarrow> int \<Rightarrow> int shell_act"
where
  "execute_command rt capture Empty = ok_code 0"
| "execute_command rt capture (Simple argv rs) = execute_simple rt capture argv rs"
| "execute_command rt capture (Pipeline cs) =
     (case cs of
        [] \<Rightarrow> ok_code 0
      | [c] \<Rightarrow> execute_command rt capture c
      | _ \<Rightarrow> execute_stages rt capture cs)"
| "execute_command rt capture (AndList l r) = run_and rt capture (collect_and_chain (AndList l r))"
| "execute_command rt capture (OrList l r) = run_or rt capture (collect_or_chain (OrList l r)) 0"
| "execute_command rt capture (Sequence cs) = run_sequence rt capture cs 0"
| "execute_command rt capture (Background c) = execute_background capture c"
| "execute_command rt capture (Subshell c) = in_subshell (execute_command rt capture c)"
| "run_and rt capture [] = ok_code 0"
| "run_and rt capture (c # cs) =
     act_try (execute_command rt capture c) (\<lambda>code. if code \<noteq> 0 then ok_code code else run_and rt capture cs)"
| "run_or rt capture [] last_code = ok_code last_code"
| "run_or rt capture (c # cs) last_code =
     act_try (execute_command rt capture c) (\<lambda>code. if code = 0 then ok_code 0 else run_or rt capture cs code)"
| "run_sequence rt capture [] last_code = ok_code last_code"
| "run_sequence rt capture (c # cs) last_code =
     act_try (execute_command rt capture c) (\<lambda>code. run_sequence rt capture cs code)"
  by pat_completeness auto

termination execute_command
proof (relation "measure (\<lambda>x. case x of
      Inl (Inl (rt, cap, c)) \<Rightarrow> 4 * size c + 2
    | Inl (Inr (rt, cap, cs)) \<Rightarrow> chain_weight cs
    | Inr (Inl (rt, cap, cs, n)) \<Rightarrow> chain_weight cs
    | Inr (Inr (rt, cap, cs, n)) \<Rightarrow> chain_weight cs)", goal_cases)
  case (3 rt cap l r)
  then show ?case using and_chain_weight [of l] by simp
next
  case (4 rt cap l r)
  then show ?case using or_chain_weight [of l] by simp
next
  case (5 rt cap cs)
  then show ?case using sequence_weight [of cs] by simp
qed (simp_all add: chain_weight_def)


declare execute_command.simps(3) [simp del]

lemma execute_pipeline_simps [simp]:
  "execute_command rt capture (Pipeline []) = ok_code 0"
  "execute_command rt capture (Pipeline [c]) = execute_command rt capture c"
  "execute_command rt capture (Pipeline (c # d # cs)) = execute_stages rt capture (c # d # cs)"
  by (simp_all add: execute_command.simps(3))

section \<open>Command substitution and whole lines\<close>

definition text_of :: "bytes \<Rightarrow> string" where
  "text_of b = map (\<lambda>x. char_of (unat x)) b"

definition captured_text :: "bytes \<Rightarrow> string" where
  "captured_text b = rev (dropWhile (\<lambda>c. c = CHR 0x0A) (rev (text_of (from_utf8_lossy b))))"

text \<open>A shell of its own on the same world, with a buffer as output; the depth bounds the nesting of
  substitutions.\<close>

fun capture_output :: "runtime \<Rightarrow> nat \<Rightarrow> string \<Rightarrow> string shell_act" where
  "capture_output rt 0 cmd s = None"
| "capture_output rt (Suc n) cmd (sh, w) =
     (let (buf, w) = new_buffer [] w;
          sub = shell_in (sh_cwd sh) (sh_env sh) (sh_stdin sh) buf (sh_stderr sh)
      in case (case parse cmd of
             None \<Rightarrow> None
           | Some (Inl e) \<Rightarrow> Some (Err e, (sub, w))
           | Some (Inr c) \<Rightarrow> execute_command rt (capture_output rt n) c (sub, w)) of
           None \<Rightarrow> None
         | Some (Inl e, s) \<Rightarrow> Some (Err e, (sh, snd s))
         | Some (Inr code, s) \<Rightarrow> (let (out, w) = take_buffer buf (snd s) in Some (Ok (captured_text out), (sh, w))))"

definition execute_at :: "runtime \<Rightarrow> nat \<Rightarrow> string \<Rightarrow> int shell_act" where
  "execute_at rt n line =
     (case parse line of
        None \<Rightarrow> (\<lambda>s. None)
      | Some (Inl e) \<Rightarrow> act_ret (Err e)
      | Some (Inr c) \<Rightarrow>
          if c = Empty then ok_code 0
          else act_try (execute_command rt (capture_output rt n) c) (\<lambda>code.
            act_bind (on_shell (\<lambda>sh. sh\<lparr>sh_last_exit := code\<rparr>)) (\<lambda>_. ok_code code)))"

text \<open>A substitution is a part of the line, so its length bounds the nesting. The line has no value when it
  waits for ever or the body of a command panics (\<open>runtime\<close>); the value \<open>Err Panicked\<close> is a panic of the
  interpreter's own code.\<close>

definition execute_line :: "runtime \<Rightarrow> string \<Rightarrow> int shell_act" where
  "execute_line rt line = execute_at rt (length line) line"

end
