(* ===== verification/InterpSound.thy ===== *)
theory InterpSound
  imports Interp
begin

text \<open>
  What the interpreter does: lists short-circuit, a substitution and a subshell leave the shell's
  directory and environment alone, the exit status is that of the last stage or the first failure.
\<close>

section \<open>Lists\<close>

lemma act_try_apply:
  "act_try m f s = (case m s of None \<Rightarrow> None | Some (r, t) \<Rightarrow> (case r of Inl e \<Rightarrow> Some (Inl e, t) | Inr x \<Rightarrow> f x t))"
  by (auto simp: act_try_def act_bind_def split: option.split sum.split)

lemma act_try_assoc: "act_try (act_try m f) g = act_try m (\<lambda>x. act_try (f x) g)"
  by (auto simp: act_try_apply fun_eq_iff split: option.split sum.split)

lemma act_try_ret: "(\<And>x. f x = act_ret (Inr x)) \<Longrightarrow> act_try m f = m"
  by (auto simp: act_try_apply fun_eq_iff split: option.split sum.split)

lemma act_try_eqI: "(\<And>x. f x = g x) \<Longrightarrow> act_try m f = act_try m g"
  by presburger

lemma run_single [simp]:
  "run_and rt cap [c] = execute_command rt cap c" "run_or rt cap [c] k = execute_command rt cap c"
  "run_sequence rt cap [c] k = execute_command rt cap c"
  by (auto intro!: act_try_ret simp: ok_code_def)

lemma run_and_append:
  "run_and rt cap (cs @ [d]) =
     act_try (run_and rt cap cs) (\<lambda>code. if code \<noteq> 0 then ok_code code else execute_command rt cap d)"
proof (induction cs)
  case Nil
  have "run_and rt cap [d] = execute_command rt cap d" by (rule run_single)
  then show ?case by (simp add: ok_code_def)
next
  case (Cons c cs)
  then show ?case by (auto simp: act_try_assoc ok_code_def intro!: act_try_eqI)
qed

lemma run_or_append:
  "cs \<noteq> [] \<Longrightarrow> run_or rt cap (cs @ [d]) k =
     act_try (run_or rt cap cs k) (\<lambda>code. if code = 0 then ok_code 0 else execute_command rt cap d)"
proof (induction cs arbitrary: k)
  case (Cons c cs)
  show ?case
  proof (cases "cs = []")
    case True
    have "run_or rt cap [d] j = execute_command rt cap d" for j by (rule run_single)
    then show ?thesis using True by (auto simp: act_try_assoc ok_code_def intro!: act_try_eqI)
  next
    case False
    with Cons.IH show ?thesis by (auto simp: act_try_assoc ok_code_def intro!: act_try_eqI)
  qed
qed simp

lemma run_and_chain: "run_and rt cap (collect_and_chain c) = execute_command rt cap c"
proof -
  have "run_and rt cap [c] = execute_command rt cap c" by (rule run_single)
  then show ?thesis by (cases c) simp_all
qed

lemma run_or_chain: "run_or rt cap (collect_or_chain c) 0 = execute_command rt cap c"
proof -
  have "run_or rt cap [c] 0 = execute_command rt cap c" by (rule run_single)
  then show ?thesis by (cases c) simp_all
qed

lemma or_chain_nonempty [simp]: "collect_or_chain c \<noteq> []"
  by (cases c) simp_all

lemma execute_lists:
  "execute_command rt cap (AndList l r) =
     act_try (execute_command rt cap l) (\<lambda>code. if code \<noteq> 0 then ok_code code else execute_command rt cap r)"
  "execute_command rt cap (OrList l r) =
     act_try (execute_command rt cap l) (\<lambda>code. if code = 0 then ok_code 0 else execute_command rt cap r)"
  by (simp_all add: run_and_append run_or_append run_and_chain run_or_chain del: run_and.simps run_or.simps)


section \<open>What an action leaves alone\<close>

definition leaves :: "(shell \<Rightarrow> 'b) \<Rightarrow> (shell_state, 'a) act \<Rightarrow> bool" where
  "leaves f m \<longleftrightarrow> (\<forall>s r t. m s = Some (r, t) \<longrightarrow> f (fst t) = f (fst s))"

named_theorems leaves_rules \<open>what the parts of an action leave alone\<close>

lemma leavesD: "leaves f m \<Longrightarrow> m s = Some (r, t) \<Longrightarrow> f (fst t) = f (fst s)"
  unfolding leaves_def by blast

lemma leavesI: "(\<And>s r t. m s = Some (r, t) \<Longrightarrow> f (fst t) = f (fst s)) \<Longrightarrow> leaves f m"
  unfolding leaves_def by blast

lemma leavesD2: "leaves f m \<Longrightarrow> m s = Some x \<Longrightarrow> f (fst (snd x)) = f (fst s)"
  using leavesD [of f m s "fst x" "snd x"] by simp

lemma leaves_all: "leaves id m \<Longrightarrow> leaves f m"
  by (rule leavesI) (metis leavesD id_apply)

lemma leaves_basic [leaves_rules]:
  "leaves f (act_ret x)" "leaves f (act_get g)" "leaves f (on_world m)" "leaves f (ok_code c)"
  by (auto simp: leaves_def on_world_def ok_code_def)

lemma leaves_nested [leaves_rules]: "leaves f (nested_run rt)"
  by (auto simp: leaves_def nested_run_def)

lemma leaves_bind [leaves_rules]: "leaves f m \<Longrightarrow> (\<And>x. leaves f (g x)) \<Longrightarrow> leaves f (act_bind m g)"
  unfolding leaves_def act_bind_Some by metis

lemma leaves_try [leaves_rules]: "leaves f m \<Longrightarrow> (\<And>x. leaves f (g x)) \<Longrightarrow> leaves f (act_try m g)"
  unfolding act_try_def by (intro leaves_bind) (auto split: sum.split intro: leaves_rules)

lemma leaves_fold [leaves_rules]: "(\<And>x b. leaves f (g x b)) \<Longrightarrow> leaves f (act_fold g xs b)"
  by (induction xs arbitrary: b) (auto intro: leaves_rules)

lemma leaves_if [leaves_rules]: "(c \<Longrightarrow> leaves f m) \<Longrightarrow> (\<not> c \<Longrightarrow> leaves f n) \<Longrightarrow> leaves f (if c then m else n)"
  by simp

lemma leaves_await [leaves_rules]: "leaves f (await_task rt h)"
  unfolding await_task_def by (rule leaves_rules)

lemma leaves_spawn [leaves_rules]: "leaves f (spawn_command argv io)" "leaves f (spawn_blocks h bs c)"
proof -
  show "leaves f (spawn_command argv io)" by (auto intro!: leavesI simp: spawn_command_def split: prod.splits)
  show "leaves f (spawn_blocks h bs c)" unfolding spawn_blocks_def by (rule leaves_basic)
qed

lemma leaves_do: "(\<And>s. f (fst (snd (g s))) = f (fst s)) \<Longrightarrow> leaves f (act_do g)"
proof (rule leavesI)
  fix s r t assume g: "\<And>s. f (fst (snd (g s))) = f (fst s)" and "act_do g s = Some (r, t)"
  then have "g s = (r, t)" by simp
  with g [of s] show "f (fst t) = f (fst s)" by simp
qed

subsection \<open>Expansion and redirection\<close>

text \<open>A substitution that does not touch the shell.\<close>

definition pure :: "(string \<Rightarrow> string shell_act) \<Rightarrow> bool" where
  "pure capture \<longleftrightarrow> (\<forall>cmd. leaves id (capture cmd))"

lemma leaves_expand [leaves_rules]:
  assumes "pure capture"
  shows "leaves f (expand_segment capture g)" "leaves f (expand_word capture wd)"
    "leaves f (expand_redirect_path capture wd)" "leaves f (expand_argv capture argv)"
proof -
  have g: "leaves f (expand_segment capture g)" for g
    using assms leaves_all by (auto simp: expand_segment_def pure_def split: option.split intro: leaves_rules)
  then show "leaves f (expand_segment capture g)" .
  have wd: "leaves f (expand_word capture wd)" for wd
    unfolding expand_word_def by (auto intro!: leaves_rules g)
  then show "leaves f (expand_word capture wd)" .
  show "leaves f (expand_redirect_path capture wd)"
    unfolding expand_redirect_path_def by (auto intro!: leaves_rules wd)
  show "leaves f (expand_argv capture argv)"
    unfolding expand_argv_def by (auto intro!: leaves_rules wd)
qed

lemma leaves_redirect_open [leaves_rules]: "pure capture \<Longrightarrow> leaves f (redirect_open capture open wd)"
  unfolding redirect_open_def
  by (intro leaves_try leaves_expand leaves_do) (auto split: prod.split)

lemma leaves_apply_redirect [leaves_rules]: "pure capture \<Longrightarrow> leaves f (apply_redirect capture r io)"
  by (cases io) (auto intro!: leaves_rules split: redirect_kind.split redirect_target.split)

lemma leaves_apply_redirects [leaves_rules]: "pure capture \<Longrightarrow> leaves f (apply_redirects capture rs io)"
  unfolding apply_redirects_def by (intro leaves_rules)

subsection \<open>Commands\<close>

text \<open>A part of the shell that is neither the job table nor changed by the effects of a command.\<close>

definition off_jobs :: "(shell \<Rightarrow> 'b) \<Rightarrow> bool" where
  "off_jobs f \<longleftrightarrow> (\<forall>sh t. f (sh\<lparr>sh_jobs := t\<rparr>) = f sh)"

definition off_effects :: "(shell \<Rightarrow> 'b) \<Rightarrow> bool" where
  "off_effects f \<longleftrightarrow> (\<forall>sh e. f (apply_effects e sh) = f sh)"

lemma leaves_with_jobs [leaves_rules]: "off_jobs f \<Longrightarrow> leaves f (with_jobs g)"
proof (rule leavesI)
  fix s r u assume f: "off_jobs f" and u: "with_jobs g s = Some (r, u)"
  obtain x t c where "g (sh_jobs (fst s)) (w_sched (snd s)) = (x, t, c)" by (metis prod_cases3)
  with u have "fst u = (fst s)\<lparr>sh_jobs := t\<rparr>" by (simp add: with_jobs_def) (metis fst_conv)
  with f show "f (fst u) = f (fst s)" by (simp add: off_jobs_def)
qed

lemma leaves_pause [leaves_rules]: "leaves f (poll_pause rt)"
proof (rule leavesI)
  fix s r t assume "poll_pause rt s = Some (r, t)"
  then show "f (fst t) = f (fst s)" unfolding poll_pause_def by (rule leavesD [OF leaves_basic(3)])
qed

lemma leaves_loop [leaves_rules]:
  assumes "\<And>c. leaves f (round c)"
  shows "leaves f (act_loop round c)"
proof (rule leavesI)
  fix s r t assume loop: "act_loop round c s = Some (r, t)"
  show "f (fst t) = f (fst s)"
  proof (rule act_loop_inv [where I = "\<lambda>u. f (fst u) = f (fst s)", OF loop refl])
    fix c u x v assume "f (fst u) = f (fst s)" "round c u = Some (x, v)"
    with leavesD [OF assms this(2)] show "f (fst v) = f (fst s)" by simp
  qed
qed

lemma leaves_fg_loop [leaves_rules]: "off_jobs f \<Longrightarrow> leaves f (fg_loop rt i)"
  unfolding fg_loop_def fg_round_def by (auto intro!: leaves_rules split: option.split job_state.split)

lemma leaves_wait_loop [leaves_rules]: "off_jobs f \<Longrightarrow> leaves f (wait_loop rt is c)"
  unfolding wait_loop_def wait_again_def by (auto intro!: leaves_rules split: prod.split)

lemma leaves_complain [leaves_rules]: "leaves f (complain rt h msg)"
  unfolding complain_def by (intro leaves_rules)

lemma leaves_kill_args [leaves_rules]: "off_jobs f \<Longrightarrow> leaves f (kill_args rt err args c)"
  by (induction args arbitrary: c) (auto intro!: leaves_rules split: option.split)

lemma leaves_builtins [leaves_rules]:
  assumes "off_jobs f"
  shows "leaves f (run_builtin_jobs rt out)" "leaves f (run_builtin_fg rt argv out err)"
    "leaves f (run_builtin_wait rt argv)" "leaves f (run_builtin_kill rt argv err)"
  using assms unfolding run_builtin_jobs_def update_job_states_def run_builtin_fg_def run_builtin_wait_def
    run_builtin_kill_def by (auto intro!: leaves_rules split: option.split job_state.split)

lemma leaves_run_spawned [leaves_rules]: "off_effects f \<Longrightarrow> leaves f (run_spawned rt argv io)"
  unfolding run_spawned_def
  by (auto intro!: leaves_rules split: sum.split) (auto simp: leaves_def on_shell_def off_effects_def)

lemma leaves_run_named [leaves_rules]: "off_jobs f \<Longrightarrow> off_effects f \<Longrightarrow> leaves f (run_named rt argv io)"
  unfolding run_named_def by (auto intro!: leaves_rules split: list.split)

lemma leaves_execute_simple [leaves_rules]:
  "pure capture \<Longrightarrow> off_jobs f \<Longrightarrow> off_effects f \<Longrightarrow> leaves f (execute_simple rt capture argv rs)"
  unfolding execute_simple_def by (auto intro!: leaves_rules)

lemma leaves_spawn_stages [leaves_rules]: "pure capture \<Longrightarrow> leaves f (spawn_stages strict capture b n i cs)"
  by (induction cs arbitrary: i) (auto intro!: leaves_rules split: command.split)

lemma leaves_await_stages [leaves_rules]: "leaves f (await_stages rt pf b k i hs lf)"
  by (induction hs arbitrary: i lf) (auto intro!: leaves_rules simp: close_pipe_def)

lemma leaves_execute_stages [leaves_rules]: "pure capture \<Longrightarrow> leaves f (execute_stages rt capture cs)"
  unfolding execute_stages_def new_pipes_def by (auto intro!: leaves_rules)

lemma leaves_close_pipes [leaves_rules]: "leaves f (close_pipes b k)"
  by (induction k arbitrary: b) (auto intro!: leaves_rules simp: close_pipe_def)

lemma leaves_spawn_background [leaves_rules]: "pure capture \<Longrightarrow> leaves f (spawn_background capture c)"
  by (induction capture c rule: spawn_background.induct)
    (auto intro!: leaves_rules simp: spawn_background_simple_def spawn_background_pipeline_def new_pipes_def split: list.split)

lemma leaves_execute_background [leaves_rules]: "pure capture \<Longrightarrow> off_jobs f \<Longrightarrow> leaves f (execute_background capture c)"
  unfolding execute_background_def by (auto intro!: leaves_rules)

text \<open>A subshell leaves what a command leaves, when it is not the directory or the environment.\<close>

definition off_place :: "(shell \<Rightarrow> 'b) \<Rightarrow> bool" where
  "off_place f \<longleftrightarrow> (\<forall>sh d e. f (sh\<lparr>sh_cwd := d, sh_env := e\<rparr>) = f sh)"

lemma in_subshell_Some:
  "in_subshell m s = Some (r, t) \<longleftrightarrow> (\<exists>u. m s = Some (r, u) \<and>
     t = ((fst u)\<lparr>sh_cwd := sh_cwd (fst s), sh_env := sh_env (fst s)\<rparr>, snd u))"
  by (auto simp: in_subshell_def)

lemma leaves_in_subshell [leaves_rules]: "leaves f m \<Longrightarrow> off_place f \<Longrightarrow> leaves f (in_subshell m)"
  by (rule leavesI) (auto simp: in_subshell_Some off_place_def dest: leavesD)

lemma leaves_execute:
  assumes "pure capture" "off_jobs f" "off_effects f" "off_place f"
  shows "leaves f (execute_command rt capture c)" "leaves f (run_and rt capture cs)"
    "leaves f (run_or rt capture ds k)" "leaves f (run_sequence rt capture es k)"
  using assms
proof (induction rt capture c and rt capture cs and rt capture ds k and rt capture es k
    rule: execute_command_run_and_run_or_run_sequence.induct)
  case (3 rt capture cs)
  show ?case
  proof (cases cs rule: remdups_adj.cases)
    case (2 c)
    with 3 show ?thesis by simp
  qed (use 3 in \<open>auto intro!: leaves_rules\<close>)
qed (auto intro!: leaves_rules)

section \<open>Substitutions\<close>

lemma capture_pure: "pure (capture_output rt n)"
  unfolding pure_def
proof (intro allI leavesI)
  fix cmd :: string and s :: shell_state and r t
  assume run: "capture_output rt n cmd s = Some (r, t)"
  obtain sh w where "s = (sh, w)" by (cases s)
  with run show "id (fst t) = id (fst s)"
    by (cases n) (auto simp: Let_def split: option.splits prod.splits sum.splits if_splits)
qed

section \<open>Argument lists\<close>

lemma expand_glob_nonempty: "expand_glob v cwd pat \<noteq> []"
  by (simp add: expand_glob_def Let_def)

lemma act_fold_length:
  assumes "\<And>x b s c t. f x b s = Some (Ok c, t) \<Longrightarrow> length b < length c"
    and "act_fold f xs b s = Some (Ok c, t)"
  shows "length b + length xs \<le> length c"
  using assms(2)
proof (induction xs arbitrary: b s)
  case (Cons x xs)
  from Cons.prems obtain d u where "f x b s = Some (Ok d, u)" "act_fold f xs d u = Some (Ok c, t)"
    by (auto simp: act_try_Some)
  with assms(1) [OF this(1)] Cons.IH [OF this(2)] show ?case by simp
qed simp

lemma expand_argv_length:
  assumes "expand_argv capture argv s = Some (Ok xs, u)"
  shows "length argv \<le> length xs"
  using assms unfolding expand_argv_def act_bind_Some
  by (auto dest!: act_fold_length [rotated] simp: act_try_Some expand_glob_nonempty split: if_splits)

section \<open>Pipelines\<close>

text \<open>The exit codes of the stages, as the loop of \<open>execute_pipeline\<close> collects them, apart from what it
  makes of them.\<close>

fun stage_codes :: "runtime \<Rightarrow> nat \<Rightarrow> nat \<Rightarrow> nat \<Rightarrow> nat list \<Rightarrow> (shell_state, int list) act" where
  "stage_codes rt b k i [] = act_ret []"
| "stage_codes rt b k i (h # hs) =
     act_bind (await_task rt h) (\<lambda>r.
     act_bind (if i < k then close_pipe (b + i) else act_ret ()) (\<lambda>_.
     act_bind (stage_codes rt b k (Suc i) hs) (\<lambda>cs. act_ret (result_code r # cs))))"

definition pipeline_code :: "bool \<Rightarrow> int list \<Rightarrow> int" where
  "pipeline_code pipefail codes =
     (if pipefail \<and> filter (\<lambda>c. c \<noteq> 0) codes \<noteq> [] then hd (filter (\<lambda>c. c \<noteq> 0) codes)
      else if codes = [] then 0 else last codes)"

lemma await_stages_codes:
  "await_stages rt pf b k i hs (c, f) =
     act_bind (stage_codes rt b k i hs) (\<lambda>codes. ok_code (case f of Some e \<Rightarrow> e
       | None \<Rightarrow> if pf \<and> filter (\<lambda>c. c \<noteq> 0) codes \<noteq> [] then hd (filter (\<lambda>c. c \<noteq> 0) codes)
           else last (c # codes)))"
proof (induction hs arbitrary: i c f)
  case (Cons h hs)
  have eqI: "(\<And>x. m x = n x) \<Longrightarrow> act_bind a m = act_bind a n" for a :: "(shell_state, 'b) act" and m n
    by presburger
  show ?case
    by (auto intro!: eqI simp: Cons.IH split: option.splits)
qed (simp split: option.split)

lemma spawn_stages_length:
  "spawn_stages True capture b n i cs s = Some (Ok hs, t) \<Longrightarrow> length hs = length cs"
  by (induction cs arbitrary: i s hs) (auto simp: act_try_Some act_bind_Some split: command.splits)

lemma stage_codes_length: "stage_codes rt b k i hs s = Some (codes, t) \<Longrightarrow> length codes = length hs"
  by (induction hs arbitrary: i s codes) (auto simp: act_bind_Some)

end
