(* ===== verification/Within.thy ===== *)
theory Within
  imports ParserSound
begin

text \<open>
  The command substitutions of a line are proper parts of it: each is shorter than the line and has no
  characters of its own. So the nesting of substitutions is bounded by the length of the line, and a
  line without continuation bytes has only substitutions without them.
\<close>

section \<open>Parts of a text\<close>

definition within :: "string \<Rightarrow> string \<Rightarrow> bool" where
  "within x s \<longleftrightarrow> set x \<subseteq> set s \<and> length x \<le> length s"

lemma within_refl [simp]: "within s s" "within [] s"
  by (simp_all add: within_def)

lemma within_trans: "within x y \<Longrightarrow> within y z \<Longrightarrow> within x z"
  by (auto simp: within_def)

lemma within_Cons: "within x s \<Longrightarrow> within x (c # s)" "within x s \<Longrightarrow> within (c # x) (c # s)"
  by (auto simp: within_def)

lemma within_parts:
  "within (drop n s) s" "within (dropWhile P s) s" "within (takeWhile P s) s" "within (take n s) s"
  by (auto simp: within_def length_takeWhile_le length_dropWhile_le dest: in_set_dropD set_dropWhileD
    set_takeWhileD in_set_takeD)

definition splits :: "string \<times> string \<Rightarrow> string \<Rightarrow> bool" where
  "splits p s \<longleftrightarrow> set (fst p) \<union> set (snd p) \<subseteq> set s \<and> length (fst p) + length (snd p) \<le> length s"

lemma splits_within: "splits p s \<Longrightarrow> within (fst p) s" "splits p s \<Longrightarrow> within (snd p) s"
  by (auto simp: splits_def within_def)

lemma splits_copy_single: "splits (copy_single cs) cs"
proof -
  let ?r = "dropWhile (\<lambda>c. c \<noteq> CHR 0x27) cs"
  have "fst (copy_single cs) @ snd (copy_single cs) = cs"
    using takeWhile_dropWhile_id [of "\<lambda>c. c \<noteq> CHR 0x27" cs] append_take_drop_id [of 1 ?r]
    by (metis append_assoc copy_single_def fst_conv snd_conv)
  then show ?thesis by (metis splits_def dual_order.refl length_append set_append)
qed

lemma splits_prepend:
  "splits p s \<Longrightarrow> splits (prepend [c] p) (c # s)"
  "splits p s \<Longrightarrow> splits (prepend [c, d] p) (c # d # s)"
  "splits p s \<Longrightarrow> splits p (c # s)"
  by (auto simp: splits_def)

lemma splits_base: "splits ([], s) s" "splits ([c], s) (c # s)" "splits ([], []) s"
  by (auto simp: splits_def)

lemma splits_copy_double: "splits (copy_double cs) cs"
proof (induction cs rule: copy_double.induct)
  case (2 c cs)
  show ?case
  proof (cases "c = CHR 0x22 \<or> c \<noteq> CHR 0x5C \<or> cs = []")
    case True
    with 2(2) show ?thesis by (auto intro: splits_base splits_prepend)
  next
    case False
    then obtain esc ds where "cs = esc # ds" by (cases cs) auto
    with False 2(1) show ?thesis by (simp add: splits_prepend(2))
  qed
qed (simp add: splits_base)

lemma splits_through: "splits (q, rest) s \<Longrightarrow> splits p rest \<Longrightarrow> splits (prepend (c # q) p) (c # s)"
  by (auto simp: splits_def)

lemma splits_substitution: "splits (lex_command_substitution d s) s"
proof (induction s arbitrary: d rule: length_induct)
  case (1 s)
  show ?case
  proof (cases s)
    case (Cons c cs)
    have IH: "length t \<le> length cs \<Longrightarrow> splits (lex_command_substitution d t) t" for d t
      using 1 Cons by (metis le_imp_less_Suc length_Cons)
    obtain q r where q: "copy_single cs = (q, r)" by (cases "copy_single cs")
    obtain q' r' where q': "copy_double cs = (q', r')" by (cases "copy_double cs")
    have r: "length r \<le> length cs" "length r' \<le> length cs"
      using copy_single_shorter [of cs] copy_double_shorter [of cs] q q' by simp_all
    have two: "splits (prepend ''$('' (lex_command_substitution e (drop 1 cs))) (c # cs)"
      if "starts_with (c # cs) ''$(''" for c e
    proof -
      from that obtain ds where "c = CHR ''$''" "cs = CHR ''('' # ds"
        by (cases cs) (auto simp: starts_with_def split: if_splits)
      then show ?thesis using IH [of ds e] by (simp add: splits_prepend)
    qed
    have esc: "splits (case cs of [] \<Rightarrow> ([c], []) | e # ds \<Rightarrow> prepend [c, e] (lex_command_substitution d ds)) (k # cs)" if "c = k" for c k d
      using that IH by (auto intro: splits_base splits_prepend split: list.split)
    have single: "splits (prepend (c # q) (lex_command_substitution d r)) (c # cs)" for c d
      using splits_through [OF _ IH [OF r(1)]] splits_copy_single [of cs] q by simp
    have double: "splits (prepend (c # q') (lex_command_substitution d r')) (c # cs)" for c d
      using splits_through [OF _ IH [OF r(2)]] splits_copy_double [of cs] q' by simp
    have one: "splits (prepend [c] (lex_command_substitution d cs)) (c # cs)"
      "splits (prepend [] (lex_command_substitution d cs)) (c # cs)" for c d
      using splits_prepend IH [of cs] by (simp_all add: prepend_def)
    show ?thesis
      unfolding Cons
      by (subst lex_command_substitution.simps)
        (use two esc single double one q q' in \<open>simp add: splits_base(1) Let_def del: One_nat_def\<close>)
  qed (simp add: splits_base)
qed

section \<open>Words\<close>

text \<open>The substitution of a segment, if it is one, is a proper part of the text.\<close>

definition inside :: "string \<Rightarrow> word_segment \<Rightarrow> bool" where
  "inside s g \<longleftrightarrow> (\<forall>x. command_substitution g = Some x \<longrightarrow> within x s \<and> length x < length s)"

lemma inside_plain [simp]:
  "inside s (unquoted x)" "inside s (double_quoted x)" "inside s (single_quoted x)"
  by (simp_all add: inside_def unquoted_def double_quoted_def single_quoted_def)

lemma inside_mono: "inside r g \<Longrightarrow> within r s \<Longrightarrow> inside s g"
  by (auto simp: inside_def within_def)

lemma inside_substituted:
  assumes "within (c # cs) s"
  shows "inside s (substituted (fst (lex_command_substitution 1 (drop 1 cs))))"
    "within (snd (lex_command_substitution 1 (drop 1 cs))) s"
proof -
  have "splits (lex_command_substitution 1 (drop 1 cs)) (drop 1 cs)" by (rule splits_substitution)
  with splits_within have w: "within (fst (lex_command_substitution 1 (drop 1 cs))) (drop 1 cs)"
    "within (snd (lex_command_substitution 1 (drop 1 cs))) (drop 1 cs)" by blast+
  moreover have "within (drop 1 cs) s" using within_parts(1) within_Cons(1) within_trans assms by blast
  ultimately show "within (snd (lex_command_substitution 1 (drop 1 cs))) s"
    and "inside s (substituted (fst (lex_command_substitution 1 (drop 1 cs))))"
    using assms within_trans [OF w(1)] by (auto simp: inside_def substituted_def within_def)
qed

lemma flush_inside: "\<forall>g \<in> set w. inside s g \<Longrightarrow> g \<in> set (flush_segment w x) \<Longrightarrow> inside s g"
  by (auto simp: flush_segment_def split: if_splits)

text \<open>A word and the text after it, both parts of the text \<open>s\<close>.\<close>

definition word_inside :: "string \<Rightarrow> shell_word \<times> string \<Rightarrow> bool" where
  "word_inside s p \<longleftrightarrow> (\<forall>g \<in> set (fst p). inside s g) \<and> within (snd p) s"

lemma lex_double_inside:
  "\<forall>g \<in> set w. inside s g \<Longrightarrow> within t s \<Longrightarrow> word_inside s (lex_double w q t)"
proof (induction t arbitrary: w q rule: length_induct)
  case (1 t)
  show ?case
  proof (cases t)
    case (Cons c cs)
    have ww: "within (c # cs) s" using 1(3) Cons by simp
    have IH: "length u \<le> length cs \<Longrightarrow> within u s \<Longrightarrow> \<forall>g \<in> set v. inside s g \<Longrightarrow> word_inside s (lex_double v p u)"
      for v p u
      using 1(1) Cons by (metis le_imp_less_Suc length_Cons)
    obtain cmd rest where r: "lex_command_substitution 1 (drop 1 cs) = (cmd, rest)"
      by (cases "lex_command_substitution 1 (drop 1 cs)")
    have cs: "within cs s" "\<And>e ds. cs = e # ds \<Longrightarrow> within ds s" using ww by (auto simp: within_def)
    have stop: "word_inside s (w @ [double_quoted p], cs)" "word_inside s (w @ [double_quoted p], [])" for p
      using 1(2) cs by (auto simp: word_inside_def)
    have sub: "word_inside s (lex_double ((if q \<noteq> [] then w @ [double_quoted q] else w) @ [substituted cmd]) [] rest)"
      using inside_substituted [OF ww] substitution_pair [of cmd rest 1 cs] 1(2) r by (intro IH) auto
    have esc: "word_inside s (case cs of [] \<Rightarrow> lex_double w q [] | e # ds \<Rightarrow>
        lex_double w (q @ (if e \<in> {CHR ''$'', CHR 0x60, CHR 0x22, CHR 0x5C, CHR 0x0A} then [e] else [CHR 0x5C, e])) ds)"
      using 1(2) cs stop IH by (auto split: list.split)
    have on: "word_inside s (lex_double w (q @ [k]) cs)" for k using IH [OF _ cs(1) 1(2)] by simp
    show ?thesis
      unfolding Cons
      by (subst lex_double.simps(2))
        (use stop sub esc on r in \<open>simp add: Let_def del: One_nat_def insert_iff lex_double.simps(1)\<close>)
  qed (use 1(2) in \<open>auto simp: word_inside_def\<close>)
qed

lemma lex_word_inside:
  "\<forall>g \<in> set w. inside s g \<Longrightarrow> within t s \<Longrightarrow> word_inside s (lex_word w q t)"
proof (induction t arbitrary: w q rule: length_induct)
  case (1 t)
  have fl: "\<forall>g \<in> set (flush_segment w q). inside s g" using flush_inside 1(2) by blast
  show ?case
  proof (cases t)
    case (Cons c cs)
    have ww: "within (c # cs) s" using 1(3) Cons by simp
    have IH: "length u \<le> length cs \<Longrightarrow> within u s \<Longrightarrow> \<forall>g \<in> set v. inside s g \<Longrightarrow> word_inside s (lex_word v p u)"
      for v p u
      using 1(1) Cons by (metis le_imp_less_Suc length_Cons)
    obtain cmd rest where r: "lex_command_substitution 1 (drop 1 cs) = (cmd, rest)"
      by (cases "lex_command_substitution 1 (drop 1 cs)")
    obtain v rest' where d: "lex_double (flush_segment w q) [] cs = (v, rest')"
      by (cases "lex_double (flush_segment w q) [] cs")
    have cs: "within cs s" "\<And>e ds. cs = e # ds \<Longrightarrow> within ds s" using ww by (auto simp: within_def)
    have stop: "word_inside s (flush_segment w q, c # cs)" using fl ww by (simp add: word_inside_def)
    have esc: "word_inside s (case cs of [] \<Rightarrow> lex_word w q [] | e # ds \<Rightarrow> lex_word w (q @ [e]) ds)"
    proof (cases cs)
      case (Cons e ds)
      with IH [of ds w "q @ [e]"] cs(2) 1(2) show ?thesis by simp
    qed (use fl in \<open>simp add: word_inside_def\<close>)
    let ?r = "dropWhile (\<lambda>x. x \<noteq> CHR 0x27) cs"
    have "within (drop 1 ?r) s" using within_trans [OF within_trans [OF within_parts(1) within_parts(2)] cs(1)] .
    moreover have "length (drop 1 ?r) \<le> length cs" using length_dropWhile_le [of "\<lambda>x. x \<noteq> CHR 0x27" cs] by simp
    ultimately have single: "word_inside s (lex_word (flush_segment w q @ [single_quoted p]) [] (drop 1 ?r))" for p
      using fl by (intro IH) auto
    have double: "word_inside s (lex_word v [] rest')"
      using lex_double_inside [OF fl cs(1), of "[]"] lex_double_pair [OF d [symmetric]]
      by (intro IH) (auto simp: word_inside_def d)
    have sub: "word_inside s (lex_word (flush_segment w q @ [substituted cmd]) [] rest)"
      using inside_substituted [OF ww] substitution_pair [of cmd rest 1 cs] fl r by (intro IH) auto
    have on: "word_inside s (lex_word w (q @ [k]) cs)" for k using IH [OF _ cs(1) 1(2)] by simp
    show ?thesis
      unfolding Cons
      by (subst lex_word.simps(2))
        (use stop sub esc single double on r d in \<open>simp add: Let_def del: One_nat_def lex_word.simps(1)\<close>)
  qed (use fl in \<open>auto simp: word_inside_def\<close>)
qed

section \<open>Tokens\<close>

lemma within_join:
  "within (join_on c ps) s \<longleftrightarrow> set (join_on c ps) \<subseteq> set s \<and> length (join_on c ps) \<le> length s"
  by (simp add: within_def)

lemma set_join_suffix: "set (join_on c bs) \<subseteq> set (join_on c (as @ b # bs))"
proof (cases "bs = []")
  case False
  show ?thesis
  proof (induction as)
    case Nil
    from False show ?case by (cases bs) (auto simp: join_on_Cons)
  next
    case (Cons a as)
    then show ?case by (cases "as @ b # bs") (auto simp: join_on_Cons)
  qed
qed simp

lemma within_heredoc_body:
  assumes "heredoc_body b d s = Ok (t, rest)"
  shows "within rest s"
proof (cases "CHR 0x0A \<in> set s")
  case True
  let ?lines = "drop 1 (dropWhile (\<lambda>c. c \<noteq> CHR 0x0A) s)"
  from assms True obtain before after where f: "rest = join_on CHR 0x0A after"
    "find_delimiter b d (split_on CHR 0x0A ?lines) = Some (before, after)"
    by (auto simp: heredoc_body_def Let_def split: if_splits option.splits)
  from find_delimiter_append [OF f(2)] obtain line where
    "split_on CHR 0x0A ?lines = before @ line # after" ..
  then have "?lines = join_on CHR 0x0A (before @ line # after)" by (metis join_on_split_on)
  then have "set rest \<subseteq> set ?lines" unfolding f(1) by (simp only: set_join_suffix)
  also have "\<dots> \<subseteq> set s" using within_trans [OF within_parts(1) within_parts(2)] by (simp add: within_def)
  finally show ?thesis using heredoc_body_shorter [OF assms] by (simp add: within_def)
qed (use assms in \<open>auto simp: heredoc_body_def split: if_splits\<close>)

lemma within_unquoted: "within (snd (unquoted_delimiter s)) s"
  by (induction s) (auto simp: within_def)

lemma within_delimiter:
  assumes "read_heredoc_delimiter s = Some (d, rest)"
  shows "within rest s"
proof (cases s)
  case (Cons c cs)
  have "within (drop 1 (dropWhile (\<lambda>x. x \<noteq> c) cs)) (c # cs)"
    by (rule within_Cons(1) [OF within_trans [OF within_parts(1) within_parts(2)]])
  moreover have "rest = drop 1 (dropWhile (\<lambda>x. x \<noteq> c) cs) \<or> rest = snd (unquoted_delimiter s)"
    using assms unfolding read_heredoc_delimiter_def Cons
    by (simp del: unquoted_delimiter.simps split: if_splits)
  ultimately show ?thesis using within_unquoted [of s] Cons by auto
qed (use assms in \<open>simp add: read_heredoc_delimiter_def\<close>)

lemma within_heredoc:
  assumes "lex_heredoc s = Ok (t, rest)"
  shows "within rest s"
proof -
  define s1 where "s1 = (if starts_with s ''-'' then drop 1 s else s)"
  define s2 where "s2 = dropWhile (\<lambda>c. c = CHR '' '' \<or> c = CHR 0x09) s1"
  from assms obtain d s3 where d: "read_heredoc_delimiter s2 = Some (d, s3)"
    "heredoc_body (starts_with s ''-'') d s3 = Ok (t, rest)"
    unfolding lex_heredoc_def Let_def s1_def [symmetric] s2_def [symmetric]
    by (auto split: option.splits)
  have "within s2 s1" "within s1 s" by (simp_all add: s1_def s2_def within_parts)
  then show ?thesis using within_trans within_delimiter [OF d(1)] within_heredoc_body [OF d(2)] by blast
qed

lemma within_comment: "skip_comment s = Ok r \<Longrightarrow> within r s"
  by (induction s) (auto simp: within_def split: if_splits)

lemma within_multi: "lex_multi s = Some (t, rest) \<Longrightarrow> within rest s"
  by (auto simp: lex_multi_def try_lex_fd_dup_def Let_def within_parts within_trans
    intro: within_trans [OF within_parts(2) within_trans [OF within_parts(1) within_parts(2)]]
    split: if_splits option.splits)

text \<open>A token: its word, if it is one, and the text after it.\<close>

definition token_inside :: "string \<Rightarrow> token \<Rightarrow> bool" where
  "token_inside s t \<longleftrightarrow> (\<forall>w. t = TWord w \<longrightarrow> (\<forall>g \<in> set w. inside s g))"

lemma token_inside_other [simp]: "(\<And>w. t \<noteq> TWord w) \<Longrightarrow> token_inside s t"
  by (simp add: token_inside_def)

lemma multi_no_word: "lex_multi s = Some (t, rest) \<Longrightarrow> t \<noteq> TWord w"
  by (auto simp: lex_multi_def try_lex_fd_dup_def Let_def split: if_splits option.splits)

lemma heredoc_no_word: "lex_heredoc s = Ok (t, rest) \<Longrightarrow> t \<noteq> TWord w"
  by (auto simp: lex_heredoc_def heredoc_body_def Let_def split: if_splits option.splits prod.splits)

lemma single_no_word: "lex_single c = Some t \<Longrightarrow> t \<noteq> TWord w"
  by (auto simp: lex_single_def split: if_splits)

lemma next_token_inside:
  "next_token l = Ok (t, l') \<Longrightarrow> token_inside (unread l) t \<and> within (unread l') (unread l)"
proof (induction l rule: next_token.induct)
  case (1 l)
  show ?case
  proof (cases "skip_whitespace (unread l)")
    case Nil
    with 1(2) show ?thesis by (auto simp: next_token.simps [of l])
  next
    case (Cons c cs)
    have ws: "within (c # cs) (unread l)" unfolding Cons [symmetric] skip_whitespace_def by (rule within_parts)
    have cs: "within cs (unread l)" using within_trans [OF within_Cons(1) ws] by simp
    consider (multi) r where "lex_multi (c # cs) = Some r"
      | (here) "lex_multi (c # cs) = None" "starts_with (c # cs) ''<<''"
      | (single) u where "lex_multi (c # cs) = None" "\<not> starts_with (c # cs) ''<<''" "lex_single c = Some u"
      | (comment) "lex_multi (c # cs) = None" "\<not> starts_with (c # cs) ''<<''" "lex_single c = None" "c = CHR ''#''"
      | (wrd) "lex_multi (c # cs) = None" "\<not> starts_with (c # cs) ''<<''" "lex_single c = None" "c \<noteq> CHR ''#''"
      by fastforce
    then show ?thesis
    proof cases
      case multi
      obtain u rest where u: "r = (u, rest)" by (cases r)
      with multi 1(2) Cons have "t = u" "l' = l\<lparr>unread := rest\<rparr>" by (simp_all add: next_token.simps [of l])
      with within_trans [OF within_multi ws] multi_no_word multi u show ?thesis by auto
    next
      case here
      from here 1(2) Cons obtain rest where "lex_heredoc (drop 1 cs) = Ok (t, rest)" "l' = l\<lparr>unread := rest\<rparr>"
        by (auto simp: next_token.simps [of l] split: sum.splits)
      with within_trans [OF within_heredoc within_trans [OF within_parts(1) cs]] heredoc_no_word show ?thesis by auto
    next
      case single
      with 1(2) Cons have "t = u" "l' = l\<lparr>unread := cs\<rparr>" by (simp_all add: next_token.simps [of l])
      with cs single_no_word single show ?thesis by auto
    next
      case comment
      with 1(2) Cons obtain rest where r: "skip_comment cs = Ok rest"
        and n: "next_token (l\<lparr>unread := rest\<rparr>) = Ok (t, l')"
        by (auto simp: next_token.simps [of l] split: sum.splits)
      have "within rest (unread l)" using within_trans [OF within_comment [OF r] cs] .
      with 1(1) [OF Cons comment(1-3) _ r n] comment(4) show ?thesis
        by (auto simp: token_inside_def intro: inside_mono within_trans)
    next
      case wrd
      with 1(2) Cons have "t = TWord (fst (lex_word [] [] (c # cs)))"
        "l' = l\<lparr>unread := snd (lex_word [] [] (c # cs))\<rparr>"
        by (simp_all add: next_token.simps [of l] split_beta Let_def)
      with lex_word_inside [of "[]" "unread l" "c # cs" "[]"] ws show ?thesis
        by (simp add: word_inside_def token_inside_def)
    qed
  qed
qed

lemma all_tokens_inside: "t \<in> set (fst (all_tokens l)) \<Longrightarrow> token_inside (unread l) t"
proof (induction l rule: all_tokens.induct)
  case (1 l)
  from 1(2) obtain u l' where u: "next_token l = Ok (u, l')" "u \<noteq> TEof" "t = u \<or> t \<in> set (fst (all_tokens l'))"
    by (auto simp: all_tokens.simps [of l] split: sum.splits if_splits prod.splits)
  from next_token_inside [OF u(1)] 1(1) [OF u(1) refl u(2)] u(3) show ?case
    by (auto simp: token_inside_def intro: inside_mono)
qed

section \<open>Commands\<close>

definition word_subs :: "shell_word \<Rightarrow> string set" where
  "word_subs w = {x. \<exists>g \<in> set w. command_substitution g = Some x}"

definition redirect_subs :: "redirect \<Rightarrow> string set" where
  "redirect_subs r = (case redirect_target r of RFile p \<Rightarrow> word_subs p | _ \<Rightarrow> {})"

text \<open>The texts of the substitutions of a command.\<close>

fun command_subs :: "command \<Rightarrow> string set" where
  "command_subs Empty = {}"
| "command_subs (Simple argv rs) = \<Union> (word_subs ` set argv) \<union> \<Union> (redirect_subs ` set rs)"
| "command_subs (Pipeline cs) = \<Union> (command_subs ` set cs)"
| "command_subs (AndList l r) = command_subs l \<union> command_subs r"
| "command_subs (OrList l r) = command_subs l \<union> command_subs r"
| "command_subs (Sequence cs) = \<Union> (command_subs ` set cs)"
| "command_subs (Background c) = command_subs c"
| "command_subs (Subshell c) = command_subs c"

definition token_subs :: "token list \<Rightarrow> string set" where
  "token_subs ts = {x. \<exists>w. TWord w \<in> set ts \<and> x \<in> word_subs w}"

lemma token_subs_simps [simp]:
  "token_subs [] = {}" "token_subs (ts @ us) = token_subs ts \<union> token_subs us"
  "token_subs (t # ts) = (case t of TWord w \<Rightarrow> word_subs w | _ \<Rightarrow> {}) \<union> token_subs ts"
  "token_subs (newlines k) = {}"
  by (auto simp: token_subs_def split: token.split)

lemma redirect_subs_simps [simp]:
  "redirect_subs (dup_fd a b) = {}" "redirect_subs (stdin_heredoc c s) = {}" "redirect_subs (to_file n k w) = word_subs w"
  by (simp_all add: redirect_subs_def dup_fd_def stdin_heredoc_def to_file_def)

lemma g_simple_subs:
  "g_simple ts argv rs \<Longrightarrow> \<Union> (word_subs ` set argv) \<union> \<Union> (redirect_subs ` set rs) \<subseteq> token_subs ts"
proof (induction rule: g_simple.induct)
  case (5 ts argv rs t f w)
  from 5(2) have "\<Union> (redirect_subs ` set (f w)) \<subseteq> word_subs w"
    by (cases t rule: file_redirect.cases) auto
  with 5(3) show ?case by auto
qed auto

lemma word_subs_colon: "word_subs [unquoted s] = {}"
  by (simp add: word_subs_def unquoted_def)

lemma pipeline_subs: "command_subs (pipeline cs) = \<Union> (command_subs ` set cs)"
  by (cases cs rule: remdups_adj.cases) (simp_all add: pipeline_def)

lemma flatten_subs: "command_subs (flatten cs) = \<Union> (command_subs ` set cs)"
  by (cases cs rule: remdups_adj.cases) (simp_all add: flatten_def)

lemma separator_subs: "g_separator us f \<Longrightarrow> command_subs (f c) = command_subs c"
  by (erule g_separator.cases) simp_all

lemma grammar_subs:
  "g_command ts c \<Longrightarrow> command_subs c \<subseteq> token_subs ts"
  "g_pipeline ts cs \<Longrightarrow> \<Union> (command_subs ` set cs) \<subseteq> token_subs ts"
  "g_list ts c \<Longrightarrow> command_subs c \<subseteq> token_subs ts"
  "g_items ts cs \<Longrightarrow> \<Union> (command_subs ` set cs) \<subseteq> token_subs ts"
proof (induction rule: g_command_g_pipeline_g_list_g_items.inducts)
  case (command_simple ts argv rs)
  then show ?case using g_simple_subs by simp
next
  case (command_redirects ts rs)
  then show ?case using g_simple_subs [of ts "[]" rs] by (simp add: word_subs_colon)
qed (auto simp: pipeline_subs flatten_subs separator_subs)

lemma token_subs_inside:
  "(\<And>t. t \<in> set ts \<Longrightarrow> token_inside s t) \<Longrightarrow> x \<in> token_subs ts \<Longrightarrow> within x s \<and> length x < length s"
  by (fastforce simp: token_subs_def token_inside_def word_subs_def inside_def)

text \<open>What the whole theory is for: the substitutions of a line are proper parts of it.\<close>

lemma parse_subs:
  assumes "parse s = Some (Ok c)" "x \<in> command_subs c"
  shows "within x s \<and> length x < length s"
proof -
  have un: "unread (lexer_new s) = s" by (simp add: lexer_new_def)
  from assms(2) have "c \<noteq> Empty" by auto
  with parse_derives [OF assms(1)] obtain k ts cs m rest e where
    ts: "all_tokens (lexer_new s) = (newlines k @ ts @ newlines m @ rest, e)" "g_items ts cs" "c = flatten cs"
    by blast
  with grammar_subs(4) assms(2) have "x \<in> token_subs ts" by (auto simp: flatten_subs)
  moreover have "token_inside s t" if "t \<in> set ts" for t
    using all_tokens_inside [of t "lexer_new s"] ts(1) that un by simp
  ultimately show ?thesis using token_subs_inside by blast
qed

end
