(* ===== verification/Depth.thy ===== *)
theory Depth
  imports Within InterpSound
begin

text \<open>
  The depth that \<open>execute_line\<close> gives to command substitution is enough: a command looks up only the
  substitutions of its text, and these get shorter from level to level, so that no larger depth changes
  what a line does.
\<close>

section \<open>A command uses only its own substitutions\<close>

definition agree :: "(string \<Rightarrow> string shell_act) \<Rightarrow> (string \<Rightarrow> string shell_act) \<Rightarrow> string set \<Rightarrow> bool" where
  "agree f g S \<longleftrightarrow> (\<forall>x \<in> S. f x = g x)"

lemma agree_simps [simp]:
  "agree f g {}" "agree f g (S \<union> T) \<longleftrightarrow> agree f g S \<and> agree f g T"
  "agree f g (\<Union> (h ` A)) \<longleftrightarrow> (\<forall>x \<in> A. agree f g (h x))"
  by (auto simp: agree_def)

lemma act_fold_cong: "(\<And>x. x \<in> set xs \<Longrightarrow> f x = g x) \<Longrightarrow> act_fold f xs b = act_fold g xs b"
proof -
  assume "\<And>x. x \<in> set xs \<Longrightarrow> f x = g x"
  then have "act_fold f xs = act_fold g xs"
  proof (induction xs)
    case (Cons a xs)
    then have "f a = g a" "act_fold f xs = act_fold g xs" by simp_all
    then show ?case by (intro ext) (simp only: act_fold.simps)
  qed (intro ext, simp only: act_fold.simps)
  then show ?thesis by simp
qed

lemma agree_segment:
  "agree f g (word_subs w) \<Longrightarrow> s \<in> set w \<Longrightarrow> expand_segment f s = expand_segment g s"
  by (auto simp: expand_segment_def agree_def word_subs_def split: option.split)

lemma agree_word:
  assumes "agree f g (word_subs w)"
  shows "expand_word f w = expand_word g w"
  unfolding expand_word_def by (rule act_fold_cong) (simp add: agree_segment [OF assms])

lemma agree_argv:
  assumes "\<forall>w \<in> set argv. agree f g (word_subs w)"
  shows "expand_argv f argv = expand_argv g argv"
proof -
  have w: "expand_word f w = expand_word g w" if "w \<in> set argv" for w
    using assms that by (simp add: agree_word)
  show ?thesis
    unfolding expand_argv_def
    by (rule arg_cong [where f = "act_bind (act_get (\<lambda>s. sh_cwd (fst s)))"], rule ext, rule act_fold_cong) (simp add: w)
qed

lemma agree_open: "agree f g (word_subs w) \<Longrightarrow> redirect_open f open w = redirect_open g open w"
  by (simp add: redirect_open_def expand_redirect_path_def agree_word)

lemma agree_redirect:
  assumes "agree f g (redirect_subs r)"
  shows "apply_redirect f r io = apply_redirect g r io"
proof (cases io)
  case (fields i out err)
  then show ?thesis
    using assms agree_open [of f g] by (cases "redirect_target r") (auto simp: redirect_subs_def split: redirect_kind.split)
qed

lemma agree_redirects: "\<forall>r \<in> set rs. agree f g (redirect_subs r) \<Longrightarrow> apply_redirects f rs io = apply_redirects g rs io"
  unfolding apply_redirects_def by (rule act_fold_cong, rule ext, rule agree_redirect) simp

lemma agree_stages:
  "\<forall>c \<in> set cs. agree f g (command_subs c) \<Longrightarrow> spawn_stages strict f b n i cs = spawn_stages strict g b n i cs"
  by (induction cs arbitrary: i) (auto simp: agree_argv agree_redirects split: command.split)

lemma agree_background_simple:
  assumes "agree f g (command_subs (Simple argv rs))"
  shows "spawn_background_simple f argv rs = spawn_background_simple g argv rs"
proof -
  have "expand_argv f argv = expand_argv g argv" "\<And>io. apply_redirects f rs io = apply_redirects g rs io"
    using assms by (simp_all add: agree_argv agree_redirects)
  then show ?thesis unfolding spawn_background_simple_def by presburger
qed

lemma agree_background: "agree f g (command_subs c) \<Longrightarrow> spawn_background f c = spawn_background g c"
  by (induction f c rule: spawn_background.induct)
    (auto simp: agree_background_simple spawn_background_pipeline_def agree_stages)

lemma and_chain_subs: "\<Union> (command_subs ` set (collect_and_chain c)) = command_subs c"
  by (induction c rule: collect_and_chain.induct) auto

lemma or_chain_subs: "\<Union> (command_subs ` set (collect_or_chain c)) = command_subs c"
  by (induction c rule: collect_or_chain.induct) auto

lemma agree_execute:
  "agree f g (command_subs c) \<Longrightarrow> execute_command rt f c = execute_command rt g c"
  "\<forall>c \<in> set cs. agree f g (command_subs c) \<Longrightarrow> run_and rt f cs = run_and rt g cs"
  "\<forall>c \<in> set ds. agree f g (command_subs c) \<Longrightarrow> run_or rt f ds k = run_or rt g ds k"
  "\<forall>c \<in> set es. agree f g (command_subs c) \<Longrightarrow> run_sequence rt f es k = run_sequence rt g es k"
proof (induction rt f c and rt f cs and rt f ds k and rt f es k
    rule: execute_command_run_and_run_or_run_sequence.induct)
  case (3 rt f cs)
  show ?case
  proof (cases cs rule: remdups_adj.cases)
    case (2 c)
    with 3 show ?thesis by simp
  next
    case (3 c d cs)
    then show ?thesis using "3.prems" agree_stages [of "c # d # cs" f g True] by (simp add: execute_stages_def)
  qed simp
next
  case (4 rt f l r)
  then show ?case using and_chain_subs [of "AndList l r"] by (simp del: collect_and_chain.simps agree_simps(3) add: agree_simps(3) [symmetric])
next
  case (5 rt f l r)
  then show ?case using or_chain_subs [of "OrList l r"] by (simp del: collect_or_chain.simps agree_simps(3) add: agree_simps(3) [symmetric])
next
  case (7 rt f c)
  then show ?case by (simp add: execute_background_def agree_background)
qed (auto simp: execute_simple_def agree_argv agree_redirects agree_stages execute_stages_def intro!: act_try_eqI)

section \<open>Depth\<close>

lemma capture_depth:
  "length x < n \<Longrightarrow> length x < m \<Longrightarrow> capture_output rt n x = capture_output rt m x"
proof (induction n arbitrary: m x)
  case (Suc n)
  then obtain k where m: "m = Suc k" by (cases m) auto
  have "execute_command rt (capture_output rt n) c = execute_command rt (capture_output rt k) c"
    if "parse x = Some (Ok c)" for c
  proof (rule agree_execute(1))
    show "agree (capture_output rt n) (capture_output rt k) (command_subs c)"
      using parse_subs [OF that] Suc.prems m unfolding agree_def by (fastforce intro!: Suc.IH)
  qed
  then show ?case unfolding m by (auto simp: fun_eq_iff Let_def split: option.split sum.split prod.split)
qed simp

lemma execute_depth: "length line \<le> n \<Longrightarrow> execute_at rt n line = execute_line rt line"
proof -
  assume n: "length line \<le> n"
  have "execute_command rt (capture_output rt n) c = execute_command rt (capture_output rt (length line)) c"
    if "parse line = Some (Ok c)" for c
  proof (rule agree_execute(1))
    show "agree (capture_output rt n) (capture_output rt (length line)) (command_subs c)"
      using parse_subs [OF that] n unfolding agree_def by (fastforce intro!: capture_depth)
  qed
  then show ?thesis by (auto simp: execute_line_def execute_at_def split: option.split sum.split)
qed

end
