(* ===== verification/Calm.thy ===== *)
theory Calm
  imports Depth
begin

text \<open>
  The only panic of the interpreter's own code is the lexer's, inside a comment: a line without continuation
  bytes is parsed without one, and so are the substitutions in it. Nothing is said of the bodies of the
  commands, which run in other tasks (\<open>runtime\<close>).
\<close>

section \<open>Parsing\<close>

definition unbroken :: "string \<Rightarrow> bool" where
  "unbroken s \<longleftrightarrow> (\<forall>c \<in> set s. \<not> is_continuation c)"

lemma unbroken_within: "within x s \<Longrightarrow> unbroken s \<Longrightarrow> unbroken x"
  by (auto simp: within_def unbroken_def)

lemma comment_calm: "unbroken s \<Longrightarrow> skip_comment s \<noteq> Err Panicked"
  by (induction s) (auto simp: unbroken_def split: if_splits)

lemma next_token_calm: "unbroken (unread l) \<Longrightarrow> next_token l \<noteq> Err Panicked"
proof (induction l rule: next_token.induct)
  case (1 l)
  show ?case
  proof (cases "skip_whitespace (unread l)")
    case Nil
    then show ?thesis by (simp add: next_token.simps [of l])
  next
    case (Cons c cs)
    have "within (c # cs) (unread l)"
      unfolding Cons [symmetric] skip_whitespace_def by (rule within_parts)
    then have "within cs (unread l)" by (rule within_trans [OF within_Cons(1) [OF within_refl(1)]])
    with 1(2) have cs: "unbroken cs" by (rule unbroken_within [rotated])
    show ?thesis
    proof (cases "lex_multi (c # cs) = None \<and> \<not> starts_with (c # cs) ''<<'' \<and> lex_single c = None \<and> c = CHR ''#''")
      case True
      then have hash: "lex_multi (CHR ''#'' # cs) = None" "\<not> starts_with (CHR ''#'' # cs) ''<<''"
        "lex_single (CHR ''#'') = None" "c = CHR ''#''" by auto
      show ?thesis
      proof (cases "skip_comment cs")
        case (Inr r)
        have "unbroken r" using unbroken_within [OF within_comment [OF Inr] cs] .
        with 1(1) [OF Cons _ _ _ hash(4) Inr] hash Inr Cons show ?thesis
          by (simp add: next_token.simps [of l])
      qed (use comment_calm [OF cs] hash Cons in \<open>simp add: next_token.simps [of l]\<close>)
    next
      case False
      with Cons show ?thesis
        by (subst next_token.simps) (auto simp: Let_def split: option.split sum.split prod.split)
    qed
  qed
qed

text \<open>A step of the parser that does not panic and stays within a plain text.\<close>

definition plain_lexer :: "lexer \<Rightarrow> bool" where
  "plain_lexer l = unbroken (unread l)"

definition calm_step :: "('a \<times> lexer, shell_error) result \<Rightarrow> bool" where
  "calm_step r \<longleftrightarrow> r \<noteq> Err Panicked \<and> (\<forall>x l. r = Ok (x, l) \<longrightarrow> plain_lexer l)"

definition calm_skip :: "(lexer, shell_error) result \<Rightarrow> bool" where
  "calm_skip r \<longleftrightarrow> r \<noteq> Err Panicked \<and> (\<forall>l. r = Ok l \<longrightarrow> plain_lexer l)"

definition calm_parse :: "'a presult \<Rightarrow> bool" where
  "calm_parse m \<longleftrightarrow> (\<forall>r. m = Some r \<longrightarrow> calm_step r)"

named_theorems calm_rules \<open>parts of the parser and the interpreter that do not panic\<close>

lemma calm_next_token: "plain_lexer l \<Longrightarrow> calm_step (next_token l)"
  using next_token_inside [of l] next_token_calm [of l] unbroken_within
  by (auto simp: calm_step_def plain_lexer_def)

lemma calm_peek [calm_rules]: "plain_lexer l \<Longrightarrow> calm_step (lex_peek l)"
  using calm_next_token [of l]
  by (cases "next_token l") (auto simp: lex_peek_def calm_step_def plain_lexer_def split: option.split)

lemma calm_next [calm_rules]: "plain_lexer l \<Longrightarrow> calm_step (lex_next l)"
  using calm_next_token [of l] by (auto simp: lex_next_def calm_step_def plain_lexer_def split: option.split)

lemma calm_then:
  "calm_step r \<Longrightarrow> (\<And>x l. r = Ok (x, l) \<Longrightarrow> plain_lexer l \<Longrightarrow> calm_step (f (x, l))) \<Longrightarrow> calm_step (and_then r f)"
  "calm_step r \<Longrightarrow> (\<And>x l. r = Ok (x, l) \<Longrightarrow> plain_lexer l \<Longrightarrow> calm_skip (g (x, l))) \<Longrightarrow> calm_skip (and_then r g)"
  by (cases r; fastforce simp: calm_step_def calm_skip_def)+

lemma calm_then_skip:
  "calm_skip r \<Longrightarrow> (\<And>l. plain_lexer l \<Longrightarrow> calm_step (f l)) \<Longrightarrow> calm_step (and_then r f)"
  by (cases r; fastforce simp: calm_step_def calm_skip_def)+

lemma calm_results:
  "plain_lexer l \<Longrightarrow> calm_step (Ok (x, l))" "plain_lexer l \<Longrightarrow> calm_skip (Ok l)"
  "e \<noteq> Panicked \<Longrightarrow> calm_step (Err e :: ('a \<times> lexer, shell_error) result)" "e \<noteq> Panicked \<Longrightarrow> calm_skip (Err e)"
  by (simp_all add: calm_step_def calm_skip_def)

lemma calm_skip_newlines: "plain_lexer l \<Longrightarrow> calm_skip (skip_newlines l)"
proof (induction l rule: skip_newlines.induct)
  case (1 l)
  show ?case
  proof (subst skip_newlines.simps, rule calm_then(2) [OF calm_peek [OF 1(2)]])
    fix t l1 assume t: "lex_peek l = Ok (t, l1)" "plain_lexer l1"
    have "calm_skip (and_then (lex_next l1) (\<lambda>(u, l2). skip_newlines l2))" if "t = TNewline"
      by (rule calm_then(2) [OF calm_next [OF t(2)]]) (use 1(1) [OF t(1) refl that] in auto)
    with t(2) show "calm_skip (case (t, l1) of (t, l1) \<Rightarrow>
        if t = TNewline then and_then (lex_next l1) (\<lambda>(u, l2). skip_newlines l2) else Ok l1)"
      by (simp add: calm_results)
  qed
qed

lemma calm_expect [calm_rules]: "plain_lexer l \<Longrightarrow> calm_skip (expect t l)"
  unfolding expect_def by (rule calm_then(2) [OF calm_next]) (auto intro: calm_results)

lemma calm_expect_word [calm_rules]: "plain_lexer l \<Longrightarrow> calm_step (expect_word l)"
  unfolding expect_word_def by (rule calm_then(1) [OF calm_next]) (auto intro!: calm_results split: token.split)

lemma calm_simple_parts: "plain_lexer l \<Longrightarrow> calm_step (simple_parts argv rs l)"
proof (induction l arbitrary: argv rs rule: measure_induct_rule [of lex_size])
  case (less l)
  show ?case
  proof (subst simple_parts.simps, rule calm_then(1) [OF calm_peek [OF less(2)]])
    fix t l1 assume t: "lex_peek l = Ok (t, l1)" "plain_lexer l1"
    have one: "calm_step (and_then (lex_next l1) (\<lambda>(u, l2). simple_parts a r l2))" if "t \<noteq> TEof" for a r
    proof (rule calm_then(1) [OF calm_next [OF t(2)]])
      fix u l2 assume u: "lex_next l1 = Ok (u, l2)" "plain_lexer l2"
      with peek_next_size [OF t(1) u(1) that] less(1) show
        "calm_step (case (u, l2) of (u, l2) \<Rightarrow> simple_parts a r l2)" by simp
    qed
    have to_file: "calm_step (and_then (lex_next l1) (\<lambda>(u, l2).
        and_then (expect_word l2) (\<lambda>(w, l3). simple_parts a (f w) l3)))" for a f
    proof (rule calm_then(1) [OF calm_next [OF t(2)]])
      fix u l2 assume u: "lex_next l1 = Ok (u, l2)" "plain_lexer l2"
      have "calm_step (and_then (expect_word l2) (\<lambda>(w, l3). simple_parts a (f w) l3))"
        by (rule calm_then(1) [OF calm_expect_word [OF u(2)]])
          (use peek_next_word_size [OF t(1) u(1)] less(1) in simp)
      then show "calm_step (case (u, l2) of (u, l2) \<Rightarrow>
          and_then (expect_word l2) (\<lambda>(w, l3). simple_parts a (f w) l3))" by simp
    qed
    show "calm_step (case (t, l1) of (t, l1) \<Rightarrow> (case t of
         TWord w \<Rightarrow> and_then (lex_next l1) (\<lambda>(u, l2). simple_parts (argv @ [w]) rs l2)
       | TDupFd s d \<Rightarrow>
           and_then (lex_next l1) (\<lambda>(u, l2). simple_parts argv (rs @ [dup_fd s d]) l2)
       | THereDoc c strip \<Rightarrow>
           and_then (lex_next l1) (\<lambda>(u, l2).
             simple_parts argv (rs @ [stdin_heredoc c strip]) l2)
       | _ \<Rightarrow>
           (case file_redirect t of
              Some f \<Rightarrow>
                and_then (lex_next l1) (\<lambda>(u, l2).
                and_then (expect_word l2) (\<lambda>(w, l3). simple_parts argv (rs @ f w) l3))
            | None \<Rightarrow> Ok ((argv, rs), l1))))"
      by (cases t) (simp_all add: one to_file calm_results(1) t(2))
  qed
qed

lemma calm_simple [calm_rules]: "plain_lexer l \<Longrightarrow> calm_step (parse_simple_command l)"
  unfolding parse_simple_command_def
  by (rule calm_then(1) [OF calm_simple_parts]) (auto intro: calm_results)

lemma calm_next_skip [calm_rules]: "plain_lexer l \<Longrightarrow> calm_skip (next_skip l)"
  unfolding next_skip_def by (rule calm_then(2) [OF calm_next]) (auto intro: calm_skip_newlines)

lemma calm_skip_peek [calm_rules]: "plain_lexer l \<Longrightarrow> calm_step (skip_peek l)"
  unfolding skip_peek_def by (rule calm_then_skip [OF calm_next_skip]) (auto intro: calm_peek)

lemma calm_pbind:
  "calm_parse m \<Longrightarrow> (\<And>x l. plain_lexer l \<Longrightarrow> calm_parse (f x l)) \<Longrightarrow> calm_parse (pbind m f)"
  by (cases m; cases "the m") (fastforce simp: pbind_def calm_parse_def calm_step_def)+

lemma calm_parse_simps [simp]: "calm_parse None" "calm_parse (Some r) = calm_step r"
  by (simp_all add: calm_parse_def)

lemma calm_operand:
  "calm_skip r \<Longrightarrow> (\<And>l. plain_lexer l \<Longrightarrow> calm_parse (f l)) \<Longrightarrow>
     calm_parse (case r of Inl e \<Rightarrow> Some (Err e) | Inr l \<Rightarrow> f l)"
  by (cases r) (auto simp: calm_skip_def calm_step_def)

lemma calm_map: "calm_skip r \<Longrightarrow> calm_step (map_ok (\<lambda>l. (x, l)) r)"
  by (cases r) (auto simp: calm_skip_def calm_step_def)

lemma calm_descent:
  "plain_lexer l \<Longrightarrow> calm_parse (parse_command_line n cs l)"
  "plain_lexer l \<Longrightarrow> calm_parse (parse_list n l)"
  "plain_lexer l \<Longrightarrow> calm_parse (list_loop n c l)"
  "plain_lexer l \<Longrightarrow> calm_parse (parse_pipeline n l)"
  "plain_lexer l \<Longrightarrow> calm_parse (pipeline_loop n cs l)"
  "plain_lexer l \<Longrightarrow> calm_parse (parse_command n l)"
proof (induction n arbitrary: l cs c)
  case (Suc n)
  note rules = calm_pbind calm_operand calm_map calm_results calm_peek calm_next_skip calm_skip_peek calm_expect
    calm_simple Suc.IH
  {
    case 1 show ?case by (simp add: 1) (intro rules 1 | simp add: rules)+
  next
    case 2 then show ?case by (auto intro!: rules)
  next
    case 3 then show ?case by (auto intro!: rules)
  next
    case 4 then show ?case by (auto intro!: rules)
  next
    case 5 then show ?case by (auto intro!: rules)
  next
    case 6 then show ?case by (auto intro!: rules)
  }
qed simp_all

lemma parse_calm:
  assumes "unbroken s"
  shows "parse s \<noteq> Some (Err Panicked)"
proof -
  have l: "plain_lexer (lexer_new s)" using assms by (simp add: plain_lexer_def lexer_new_def)
  have e: "calm_step (at_end m)" if "plain_lexer m" for m
    using calm_peek [OF that] by (cases "lex_peek m") (auto simp: at_end_def calm_step_def)
  have "calm_parse (parse_from s)"
    unfolding parse_from_def
    by (intro calm_operand calm_skip_newlines calm_pbind l)
      (auto intro!: e calm_results calm_pbind calm_descent calm_map calm_skip_newlines)
  then show ?thesis
    by (cases "parse_from s"; cases "the (parse_from s)") (auto simp: parse_def calm_step_def)
qed

section \<open>Running\<close>

definition calm :: "'a shell_act \<Rightarrow> bool" where
  "calm m \<longleftrightarrow> (\<forall>s t. m s \<noteq> Some (Err Panicked, t))"

lemma calm_basic [calm_rules]:
  "calm (act_ret (Ok x))" "e \<noteq> Panicked \<Longrightarrow> calm (act_ret (Err e))" "calm (ok_code c)" "calm (act_get (\<lambda>s. Ok (g s)))"
  by (auto simp: calm_def ok_code_def)

lemma calm_bind [calm_rules]: "(\<And>x. calm (f x)) \<Longrightarrow> calm (act_bind m f)"
  by (auto simp: calm_def act_bind_Some)

lemma calm_try [calm_rules]: "calm m \<Longrightarrow> (\<And>x. calm (f x)) \<Longrightarrow> calm (act_try m f)"
  by (auto simp: calm_def act_try_Some)

lemma calm_fold [calm_rules]: "(\<And>x b. calm (f x b)) \<Longrightarrow> calm (act_fold f xs b)"
  by (induction xs arbitrary: b) (auto intro: calm_rules)

lemma calm_if [calm_rules]: "(c \<Longrightarrow> calm m) \<Longrightarrow> (\<not> c \<Longrightarrow> calm n) \<Longrightarrow> calm (if c then m else n)"
  by simp

lemma calm_loop:
  assumes "\<And>c s x t. round c s = Some (x, t) \<Longrightarrow> x \<noteq> Inr (Err Panicked)"
  shows "calm (act_loop round c)"
proof -
  have "q = round \<longrightarrow> fst y \<noteq> Err Panicked" if "act_loop q c s = Some y" for q c s y
  proof (rule act_loop.raw_induct [OF _ that], goal_cases)
    case (1 loop q c s y)
    from 1(2) show ?case
    proof (rule bind_SomeE)
      fix x assume x: "q c s = Some x" "(case fst x of Inl c \<Rightarrow> loop q c (snd x) | Inr r \<Rightarrow> Some (r, snd x)) = Some y"
      show ?thesis
      proof (cases "fst x")
        case (Inl d)
        with x(2) 1(1) [of q d "snd x" y] show ?thesis by simp
      next
        case (Inr r)
        have "q = round \<Longrightarrow> fst x \<noteq> Inr (Err Panicked)" using assms [of c s "fst x" "snd x"] x(1) by auto
        with x(2) Inr show ?thesis by auto
      qed
    qed
  qed
  then show ?thesis by (fastforce simp: calm_def)
qed

definition quiet :: "(string \<Rightarrow> string shell_act) \<Rightarrow> bool" where
  "quiet capture \<longleftrightarrow> (\<forall>x. calm (capture x))"

lemma calm_expand [calm_rules]:
  assumes "quiet capture"
  shows "calm (expand_segment capture g)" "calm (expand_word capture wd)"
    "calm (expand_redirect_path capture wd)" "calm (expand_argv capture argv)"
proof -
  have g: "calm (expand_segment capture g)" for g
    using assms by (auto simp: expand_segment_def quiet_def split: option.split intro: calm_rules)
  then show "calm (expand_segment capture g)" .
  have wd: "calm (expand_word capture wd)" for wd
    unfolding expand_word_def by (auto intro!: calm_rules g)
  then show "calm (expand_word capture wd)" .
  show "calm (expand_redirect_path capture wd)"
    unfolding expand_redirect_path_def by (auto intro!: calm_rules wd)
  show "calm (expand_argv capture argv)"
    unfolding expand_argv_def by (auto intro!: calm_rules wd)
qed

lemma calm_redirect_open [calm_rules]: "quiet capture \<Longrightarrow> calm (redirect_open capture open wd)"
  unfolding redirect_open_def
  by (intro calm_try calm_expand) (auto simp: calm_def map_err_def split: prod.splits sum.splits)

lemma calm_apply_redirect [calm_rules]: "quiet capture \<Longrightarrow> calm (apply_redirect capture r io)"
  by (cases io) (auto intro!: calm_rules split: redirect_kind.split redirect_target.split)

lemma calm_apply_redirects [calm_rules]: "quiet capture \<Longrightarrow> calm (apply_redirects capture rs io)"
  unfolding apply_redirects_def by (intro calm_rules)

lemma calm_fg_loop [calm_rules]: "calm (fg_loop rt i)"
  unfolding fg_loop_def
  by (rule calm_loop) (auto simp: fg_round_def act_bind_Some split: option.splits job_state.splits,
    metis job_state.exhaust)

lemma calm_wait_loop [calm_rules]: "calm (wait_loop rt is c)"
  unfolding wait_loop_def
  by (rule calm_loop) (auto simp: wait_again_def act_bind_Some split: if_splits prod.splits)

lemma calm_kill_args [calm_rules]: "calm (kill_args rt err args c)"
  by (induction args arbitrary: c) (auto intro!: calm_rules split: option.split)

lemma calm_builtins [calm_rules]:
  "calm (run_builtin_jobs rt out)" "calm (run_builtin_fg rt argv out err)"
  "calm (run_builtin_wait rt argv)" "calm (run_builtin_kill rt argv err)"
  unfolding run_builtin_jobs_def run_builtin_fg_def run_builtin_wait_def run_builtin_kill_def
  by (auto intro!: calm_rules split: option.split job_state.split)

lemma calm_run_spawned [calm_rules]: "calm (run_spawned rt argv io)"
  unfolding run_spawned_def by (auto intro!: calm_rules split: sum.split)

lemma calm_run_named [calm_rules]: "argv \<noteq> [] \<Longrightarrow> calm (run_named rt argv io)"
  unfolding run_named_def by (auto intro!: calm_rules split: list.split)

lemma calm_argv:
  assumes "quiet capture" "argv \<noteq> []" "\<And>xs. xs \<noteq> [] \<Longrightarrow> calm (f xs)"
  shows "calm (act_try (expand_argv capture argv) f)"
  unfolding calm_def
proof (intro allI notI)
  fix s t assume "act_try (expand_argv capture argv) f s = Some (Err Panicked, t)"
  then consider "expand_argv capture argv s = Some (Err Panicked, t)"
    | xs u where "expand_argv capture argv s = Some (Ok xs, u)" "f xs u = Some (Err Panicked, t)"
    unfolding act_try_Some by blast
  then show False
  proof cases
    case 1
    with calm_expand(4) [OF assms(1)] show False unfolding calm_def by blast
  next
    case 2
    with expand_argv_length [OF 2(1)] assms(2) have "xs \<noteq> []" by auto
    with assms(3) 2(2) show False unfolding calm_def by blast
  qed
qed

lemma calm_execute_simple [calm_rules]: "quiet capture \<Longrightarrow> calm (execute_simple rt capture argv rs)"
  unfolding execute_simple_def by (intro calm_if calm_argv calm_bind calm_try calm_rules)

lemma calm_spawn_stages [calm_rules]: "quiet capture \<Longrightarrow> calm (spawn_stages strict capture b n i cs)"
  by (induction cs arbitrary: i) (auto intro!: calm_rules split: command.split)

lemma calm_await_stages [calm_rules]: "calm (await_stages rt pf b k i hs lf)"
  unfolding await_stages_codes by (cases lf) (auto simp: await_stages_codes intro!: calm_rules)

lemma calm_execute_stages [calm_rules]: "quiet capture \<Longrightarrow> calm (execute_stages rt capture cs)"
  unfolding execute_stages_def by (auto intro!: calm_rules)

lemma calm_background_simple: "quiet capture \<Longrightarrow> calm (spawn_background_simple capture argv rs)"
  unfolding spawn_background_simple_def
  by (intro calm_if calm_argv calm_basic) (auto intro!: calm_rules split: list.split)

lemma calm_spawn_background [calm_rules]: "quiet capture \<Longrightarrow> calm (spawn_background capture c)"
  by (induction capture c rule: spawn_background.induct)
    (auto intro!: calm_rules calm_background_simple simp: spawn_background_pipeline_def)

lemma calm_execute_background [calm_rules]: "quiet capture \<Longrightarrow> calm (execute_background capture c)"
  unfolding execute_background_def by (auto intro!: calm_rules)

lemma calm_in_subshell [calm_rules]: "calm m \<Longrightarrow> calm (in_subshell m)"
  by (auto simp: calm_def in_subshell_Some)

lemma calm_execute:
  assumes "quiet capture"
  shows "calm (execute_command rt capture c)" "calm (run_and rt capture cs)"
    "calm (run_or rt capture ds k)" "calm (run_sequence rt capture es k)"
  using assms
proof (induction rt capture c and rt capture cs and rt capture ds k and rt capture es k
    rule: execute_command_run_and_run_or_run_sequence.induct)
  case (3 rt capture cs)
  show ?case
  proof (cases cs rule: remdups_adj.cases)
    case (2 c)
    with 3 show ?thesis by simp
  qed (use 3 in \<open>auto intro!: calm_rules\<close>)
qed (auto intro!: calm_rules)

text \<open>Only the substitutions of the command have to be calm: another one is not looked up.\<close>

lemma calm_execute_subs:
  assumes "\<forall>x \<in> command_subs c. calm (capture x)"
  shows "calm (execute_command rt capture c)"
proof -
  let ?c = "\<lambda>x. if x \<in> command_subs c then capture x else act_ret (Ok [])"
  have "quiet ?c" using assms by (auto simp: quiet_def calm_basic)
  moreover have "execute_command rt capture c = execute_command rt ?c c"
    by (rule agree_execute(1)) (simp add: agree_def)
  ultimately show ?thesis using calm_execute(1) by simp
qed

lemma calm_capture: "unbroken x \<Longrightarrow> calm (capture_output rt n x)"
proof (induction n arbitrary: x)
  case (Suc n)
  have "calm (execute_command rt (capture_output rt n) c)" if "parse x = Some (Ok c)" for c
    by (intro calm_execute_subs ballI Suc.IH unbroken_within [OF _ Suc.prems]) (simp add: parse_subs [OF that])
  moreover have "calm (\<lambda>s. Some (Err e, s))" if "parse x = Some (Err e)" for e
    using that parse_calm [OF Suc.prems] by (auto simp: calm_def)
  ultimately have run: "calm (case parse x of None \<Rightarrow> (\<lambda>s. None) | Some (Inl e) \<Rightarrow> (\<lambda>s. Some (Err e, s))
      | Some (Inr c) \<Rightarrow> execute_command rt (capture_output rt n) c)"
    by (simp add: calm_def split: option.split sum.split)
  show ?case
    unfolding calm_def
  proof (intro allI notI)
    fix s t assume out: "capture_output rt (Suc n) x s = Some (Err Panicked, t)"
    obtain sh w where s: "s = (sh, w)" by (cases s)
    obtain buf v where b: "new_buffer [] w = (buf, v)" by (cases "new_buffer [] w")
    from out obtain u where "(case parse x of None \<Rightarrow> (\<lambda>s. None) | Some (Inl e) \<Rightarrow> (\<lambda>s. Some (Err e, s))
        | Some (Inr c) \<Rightarrow> execute_command rt (capture_output rt n) c)
          (shell_in (sh_cwd sh) (sh_env sh) (sh_stdin sh) buf (sh_stderr sh), v) = Some (Err Panicked, u)"
      by (cases "parse x"; cases "the (parse x)")
        (auto simp: s b Let_def split: option.splits prod.splits sum.splits)
    with run show False unfolding calm_def by blast
  qed
qed (simp add: calm_def)

lemma calm_line: "unbroken line \<Longrightarrow> calm (execute_at rt n line)"
proof -
  assume u: "unbroken line"
  have "calm (execute_command rt (capture_output rt n) c)" if "parse line = Some (Ok c)" for c
    by (intro calm_execute_subs ballI calm_capture unbroken_within [OF _ u]) (simp add: parse_subs [OF that])
  with parse_calm [OF u] show ?thesis
    unfolding execute_at_def
    by (auto intro!: calm_rules simp: calm_def [of "\<lambda>s. None"] split: option.split sum.split)
qed

section \<open>The texts of a line\<close>

text \<open>The texts the interpreter gives to the parser when it runs a line: the line and, again and again, the
  command substitutions in what the parser made of them.\<close>

inductive parsed_text :: "string \<Rightarrow> string \<Rightarrow> bool" where
  parsed_text_line: "parsed_text line line"
| parsed_text_sub: "parsed_text line x \<Longrightarrow> parse x = Some (Ok c) \<Longrightarrow> y \<in> command_subs c \<Longrightarrow> parsed_text line y"

lemma parsed_text_unbroken: "parsed_text line x \<Longrightarrow> unbroken line \<Longrightarrow> unbroken x"
  by (induction rule: parsed_text.induct) (auto intro: unbroken_within [OF _ ] dest: parse_subs)

lemma parsed_text_within: "parsed_text line x \<Longrightarrow> within x line"
  by (induction rule: parsed_text.induct) (auto intro: within_trans dest: parse_subs)

end
