(* ===== verification/InterpProps.thy ===== *)
theory InterpProps
  imports Calm IoHandleSound
begin

text \<open>
  Properties of the interpreter (\<open>crates/amla-sandbox-shell/src/lib.rs\<close>) over the lemmas of
  \<open>InterpSound\<close>.
\<close>

section \<open>A sample of the surroundings\<close>

text \<open>The other tasks finish every command at once: \<open>cd\<close> and \<open>set -o pipefail\<close> with their effects,
  \<open>false\<close> with 1, all others with 0.\<close>

definition sample_exit :: "spawned \<Rightarrow> task_result" where
  "sample_exit x =
     (case x of
        WriteBlocks h bs c \<Rightarrow> Ok (exit_with c)
      | RunCommand c \<Rightarrow>
          if ctx_argv c = [''false''] then Ok (exit_with 1)
          else if ctx_argv c = [''cd'', ''/tmp''] then Ok (exit_with_cwd ''/tmp'')
          else if ctx_argv c = [''set'', ''-o'', ''pipefail''] then
            Ok (exit_success\<lparr>exit_effects := no_effects\<lparr>effect_pipefail := Some True\<rparr>\<rparr>)
          else Ok exit_success)"

definition finish_task :: "nat \<times> spawned \<Rightarrow> scheduler \<Rightarrow> scheduler" where
  "finish_task x s =
     s\<lparr>completions := (completions s)[fst x := (completions s ! fst x)\<lparr>done_result := Some (sample_exit (snd x))\<rparr>]\<rparr>"

definition sample_others :: "world \<Rightarrow> world" where
  "sample_others w = w\<lparr>w_sched := fold finish_task (w_spawned w) (w_sched w), w_spawned := []\<rparr>"

definition sample_runtime :: runtime where
  "sample_runtime =
     \<lparr>rt_self = 0, rt_others = Some \<circ> sample_others, rt_nested = Some \<circ> sample_others, rt_clock = (\<lambda>w. 0)\<rparr>"

definition sample_state :: shell_state where
  "sample_state = (shell_in ''/'' env_with_defaults NullHandle NullHandle NullHandle, empty_world vfs_new)"

definition after :: "('a \<times> shell_state) option \<Rightarrow> (shell \<Rightarrow> 'b) \<Rightarrow> ('a \<times> 'b) option" where
  "after x f = map_option (\<lambda>(r, s). (r, f (fst s))) x"

lemma after_Some: "after x f = Some (r, y) \<Longrightarrow> \<exists>sh w. x = Some (r, (sh, w)) \<and> f sh = y"
  by (cases x) (auto simp: after_def)

section \<open>Properties\<close>

text \<open>C16. The chains of \<open>&&\<close> and \<open>||\<close> that the interpreter flattens and walks through are short-circuit
  evaluation: the right side runs only after a left side that ended with 0, or with another code; an error
  on the left ends the command; a sequence runs every part, whatever the codes, and has that of the last.\<close>

theorem lists_short_circuit:
  "execute_command rt capture (AndList l r) s =
     (case execute_command rt capture l s of
        None \<Rightarrow> None
      | Some (Inl e, t) \<Rightarrow> Some (Err e, t)
      | Some (Inr c, t) \<Rightarrow> if c = 0 then execute_command rt capture r t else Some (Ok c, t)) \<and>
   execute_command rt capture (OrList l r) s =
     (case execute_command rt capture l s of
        None \<Rightarrow> None
      | Some (Inl e, t) \<Rightarrow> Some (Err e, t)
      | Some (Inr c, t) \<Rightarrow> if c = 0 then Some (Ok 0, t) else execute_command rt capture r t) \<and>
   execute_command rt capture (Sequence (l # m # cs)) s =
     (case execute_command rt capture l s of
        None \<Rightarrow> None
      | Some (Inl e, t) \<Rightarrow> Some (Err e, t)
      | Some (Inr c, t) \<Rightarrow> execute_command rt capture (Sequence (m # cs)) t)"
proof -
  have "execute_command rt capture (Sequence (l # m # cs)) =
      act_try (execute_command rt capture l) (\<lambda>c. execute_command rt capture (Sequence (m # cs)))"
    by (auto intro: act_try_eqI)
  then show ?thesis
    unfolding execute_lists act_try_apply by (auto simp: ok_code_def split: option.split sum.split)
qed

text \<open>C18. A subshell leaves the directory, the environment, the status and the streams of the shell as they
  were, whatever runs in it and however it ends.\<close>

theorem subshell_restores:
  assumes "execute_command rt (capture_output rt n) (Subshell c) (sh, w) = Some (r, (sh', w'))"
  shows "sh_cwd sh' = sh_cwd sh \<and> sh_env sh' = sh_env sh \<and> sh_last_exit sh' = sh_last_exit sh \<and>
    shell_streams sh' = shell_streams sh"
proof -
  let ?f = "\<lambda>sh. (sh_last_exit sh, shell_streams sh)"
  have "leaves ?f (execute_command rt (capture_output rt n) (Subshell c))"
    by (rule leaves_execute) (simp_all add: capture_pure off_jobs_def off_effects_def off_place_def
      apply_effects_def shell_streams_def Let_def split: option.split)
  from leavesD [OF this assms] have "sh_last_exit sh' = sh_last_exit sh \<and> shell_streams sh' = shell_streams sh"
    by simp
  moreover from assms have "sh_cwd sh' = sh_cwd sh \<and> sh_env sh' = sh_env sh" by (auto simp: in_subshell_Some)
  ultimately show ?thesis by blast
qed

theorem subshell_restores_witness:
  "\<exists>sh w r sh' w'. execute_command sample_runtime (capture_output sample_runtime 0)
      (Subshell (Sequence [Simple [[unquoted ''cd''], [unquoted ''/tmp'']] [], Simple [[unquoted ''false'']] []])) (sh, w) =
        Some (r, (sh', w')) \<and> r = Ok 1 \<and> sh_cwd sh = ''/'' \<and> sh_cwd sh' = ''/''"
proof -
  let ?run = "execute_command sample_runtime (capture_output sample_runtime 0)
      (Subshell (Sequence [Simple [[unquoted ''cd''], [unquoted ''/tmp'']] [], Simple [[unquoted ''false'']] []]))"
  have "after (?run sample_state) (\<lambda>sh. ()) = Some (Ok 1, ())" by code_simp
  from after_Some [OF this] obtain sh' w' where run: "?run sample_state = Some (Ok 1, (sh', w'))" by blast
  obtain sh w where s: "sample_state = (sh, w)" by (cases sample_state)
  have "sh_cwd sh = ''/''" using s by (auto simp: sample_state_def shell_in_def)
  with subshell_restores [OF run [unfolded s]] run s show ?thesis by metis
qed

text \<open>What a subshell does not restore: an option set inside it is still set outside, against the comment
  that its effects are discarded.\<close>

lemma subshell_leaks_pipefail:
  "after (execute_line sample_runtime ''(set -o pipefail)'' sample_state) sh_pipefail = Some (Ok 0, True)"
  "sh_pipefail (fst sample_state) = False"
  by code_simp+

lemma leaves_status: "leaves sh_last_exit (execute_command rt (capture_output rt n) c)"
  by (rule leaves_execute) (simp_all add: capture_pure off_jobs_def off_effects_def off_place_def
    apply_effects_def Let_def split: option.split)

text \<open>C26. The status that \<open>$?\<close> expands to does not change while the line runs, which \<open>execute_command\<close>
  leaves alone: when the line returns a code it is that code, unless the line is empty, and after an error
  it is still the old one.\<close>

theorem line_status:
  assumes "execute_line rt line (sh, w) = Some (r, (sh', w'))"
  shows "sh_last_exit sh' =
      (case r of Inl e \<Rightarrow> sh_last_exit sh
       | Inr code \<Rightarrow> if parse line = Some (Ok Empty) then sh_last_exit sh else code) \<and>
    (\<forall>c s x t. execute_command rt (capture_output rt n) c s = Some (x, t) \<longrightarrow>
      sh_last_exit (fst t) = sh_last_exit (fst s))"
proof -
  have "sh_last_exit sh' = (case r of Inl e \<Rightarrow> sh_last_exit sh
       | Inr code \<Rightarrow> if parse line = Some (Ok Empty) then sh_last_exit sh else code)"
    using assms leavesD [OF leaves_status, of rt _ _ "(sh, w)"] unfolding execute_line_def
    by (fastforce simp: execute_at_def act_try_Some ok_code_def on_shell_def act_bind_Some
      split: option.splits sum.splits if_splits)
  with leavesD [OF leaves_status, of rt n] show ?thesis by blast
qed

theorem line_status_witness:
  "\<exists>sh w sh' w'. execute_line sample_runtime ''true; false'' (sh, w) = Some (Ok 1, (sh', w')) \<and> sh_last_exit sh' = 1"
proof -
  have "after (execute_line sample_runtime ''true; false'' sample_state) (\<lambda>sh. ()) = Some (Ok 1, ())" by code_simp
  from after_Some [OF this] obtain sh' w' where
    run: "execute_line sample_runtime ''true; false'' sample_state = Some (Ok 1, (sh', w'))" by blast
  obtain sh w where s: "sample_state = (sh, w)" by (cases sample_state)
  have "parse ''true; false'' \<noteq> Some (Ok Empty)" by code_simp
  with line_status [OF run [unfolded s]] run s show ?thesis by (metis sum.case(2))
qed

text \<open>C19. The code of a pipeline of two or more stages: every stage is started and awaited, and the code is
  that of the last one or, with \<open>pipefail\<close>, of the first that failed.\<close>

theorem pipeline_status:
  assumes "execute_command rt (capture_output rt n) (Pipeline cs) (sh, w) = Some (Ok c, t)" "2 \<le> length cs"
  shows "\<exists>b hs s1 codes.
    spawn_stages True (capture_output rt n) b (length cs) 0 cs
      (sh, w\<lparr>w_pipes := w_pipes w @ replicate (length cs - 1) (pipe_new pipe_size)\<rparr>) = Some (Ok hs, s1) \<and>
    stage_codes rt b (length cs - 1) 0 hs s1 = Some (codes, t) \<and>
    length hs = length cs \<and> length codes = length cs \<and> c = pipeline_code (sh_pipefail sh) codes"
proof -
  let ?w = "w\<lparr>w_pipes := w_pipes w @ replicate (length cs - 1) (pipe_new pipe_size)\<rparr>"
    and ?b = "length (w_pipes w)" and ?cap = "capture_output rt n"
  from assms(2) obtain x y zs where "cs = x # y # zs" by (cases cs rule: remdups_adj.cases) auto
  with assms(1) have "execute_stages rt ?cap cs (sh, w) = Some (Ok c, t)" by simp
  then obtain hs s1 where hs: "spawn_stages True ?cap ?b (length cs) 0 cs (sh, ?w) = Some (Ok hs, s1)"
    and await: "await_stages rt (sh_pipefail (fst s1)) ?b (length cs - 1) 0 hs (0, None) s1 = Some (Ok c, t)"
    by (auto simp: execute_stages_def new_pipes_def on_world_def act_bind_Some act_try_Some)
  have "leaves sh_pipefail (spawn_stages True ?cap ?b (length cs) 0 cs)"
    by (rule leaves_spawn_stages [OF capture_pure])
  from leavesD [OF this hs] have pf: "sh_pipefail (fst s1) = sh_pipefail sh" by simp
  from await obtain codes where codes: "stage_codes rt ?b (length cs - 1) 0 hs s1 = Some (codes, t)"
    and c: "c = (if sh_pipefail sh \<and> filter (\<lambda>c. c \<noteq> 0) codes \<noteq> [] then hd (filter (\<lambda>c. c \<noteq> 0) codes)
       else last (0 # codes))"
    unfolding await_stages_codes pf act_bind_Some ok_code_def act_ret_def by auto
  from c have "c = pipeline_code (sh_pipefail sh) codes" by (auto simp: pipeline_code_def)
  moreover have "length hs = length cs" "length codes = length cs"
    using spawn_stages_length [OF hs] stage_codes_length [OF codes] by simp_all
  ultimately show ?thesis using hs codes by blast
qed

theorem pipeline_status_witness:
  "\<exists>sh w t codes. execute_command sample_runtime (capture_output sample_runtime 0)
      (Pipeline [Simple [[unquoted ''false'']] [], Simple [[unquoted ''true'']] []]) (sh, w) = Some (Ok 0, t) \<and>
    length codes = 2 \<and> 0 = pipeline_code False codes"
proof -
  let ?cs = "[Simple [[unquoted ''false'']] [], Simple [[unquoted ''true'']] []]"
  let ?run = "execute_command sample_runtime (capture_output sample_runtime 0) (Pipeline ?cs)"
  have "after (?run sample_state) (\<lambda>sh. ()) = Some (Ok 0, ())" by code_simp
  from after_Some [OF this] obtain t where run: "?run sample_state = Some (Ok 0, t)" by blast
  obtain sh w where s: "sample_state = (sh, w)" by (cases sample_state)
  have "\<not> sh_pipefail sh" using s by (auto simp: sample_state_def shell_in_def)
  moreover have "2 \<le> length ?cs" by simp
  from pipeline_status [OF run [unfolded s] this] obtain codes where
    codes: "length codes = length ?cs" "0 = pipeline_code (sh_pipefail sh) codes" by blast
  moreover from codes(1) have "length codes = 2" by simp
  ultimately show ?thesis using run s by (metis (full_types))
qed

text \<open>C20. The depth \<open>execute_line\<close> allows for command substitution is no limit: with any larger one the line
  does the same, for every substitution is shorter than the text it stands in.\<close>

theorem substitution_depth_enough:
  assumes "length line \<le> n"
  shows "execute_at rt n line = execute_line rt line"
  by (rule execute_depth [OF assms])

theorem substitution_depth_enough_witness:
  "execute_at sample_runtime 100 ''echo $(echo $(pwd))'' = execute_line sample_runtime ''echo $(echo $(pwd))''"
  by (rule substitution_depth_enough) simp

text \<open>C17. On a text without bytes that continue a character, an ASCII text for one, the parser returns, and
  not in a panic; so it does on the text of every command substitution the interpreter takes from it, at any
  depth, and each of these is a part of the line. Outside such texts the lexer panics in a comment
  (\<open>comment_panics\<close>).\<close>

theorem parse_never_panics:
  assumes "unbroken line" "parsed_text line x"
  shows "within x line \<and> (\<exists>r. parse x = Some r \<and> r \<noteq> Err Panicked)"
proof -
  obtain r where "parse x = Some r" using parse_returns [of x] by auto
  moreover have "parse x \<noteq> Some (Err Panicked)" by (rule parse_calm [OF parsed_text_unbroken [OF assms(2,1)]])
  ultimately show ?thesis using parsed_text_within [OF assms(2)] by auto
qed

lemma parsed_text_simple:
  assumes "case parse x of Some (Inr (Simple argv rs)) \<Rightarrow>
      list_ex (list_ex (\<lambda>g. command_substitution g = Some y)) argv | _ \<Rightarrow> False"
    and "parsed_text line x"
  shows "parsed_text line y"
proof -
  obtain argv rs where "parse x = Some (Ok (Simple argv rs))" "y \<in> command_subs (Simple argv rs)"
    using assms(1) by (auto simp: word_subs_def list_ex_iff split: option.splits sum.splits command.splits)
  with assms(2) show ?thesis by (rule parsed_text_sub)
qed

theorem parse_never_panics_witness:
  "within ''true'' ''echo $(echo $(true)) # no'' \<and> (\<exists>r. parse ''true'' = Some r \<and> r \<noteq> Err Panicked)"
proof (rule parse_never_panics)
  show "unbroken ''echo $(echo $(true)) # no''" by code_simp
  have "parsed_text ''echo $(echo $(true)) # no'' ''echo $(true)''"
    by (rule parsed_text_simple [OF _ parsed_text_line]) code_simp
  then show "parsed_text ''echo $(echo $(true)) # no'' ''true''" by (rule parsed_text_simple [rotated]) code_simp
qed

text \<open>The interpreter's own code adds no panic: when a line without such bytes comes back, it does so with a
  code or with an error that is reported. This says nothing of the tasks of the commands: \<open>sh x.sh\<close> runs the
  lexer on the script, and if that panics the line does not come back.\<close>

lemma line_without_panic:
  assumes "unbroken line" "execute_line rt line s = Some (r, t)"
  shows "r \<noteq> Err Panicked"
  using calm_line [OF assms(1), of rt "length line"] assms(2) unfolding execute_line_def calm_def by blast

text \<open>In the foreground a redirection is applied before the command is looked up: the file is there, and
  empty, when the command is not found.\<close>

lemma redirect_before_lookup:
  "map_option (\<lambda>(r, s). (r, read_file (w_vfs (snd s)) ''/workspace/a''))
     (execute_line sample_runtime ''nosuch > /workspace/a'' sample_state) =
   Some (Err (CommandNotFound ''nosuch''), Ok [])"
  by code_simp

end
