(* ===== verification/Cmd.thy ===== *)
theory Cmd
  imports Interp
begin

text \<open>
  What the commands of \<open>crates/amla-sandbox-shell/src/commands\<close> share: reading options, opening inputs,
  the loops that read a handle by blocks and by lines, and their result. The option parser is the crate
  \<open>lexopt\<close>, an argument. Counters of lines, bytes and files are natural numbers.
\<close>

section \<open>Results\<close>

type_synonym 'a io_act = "(world, ('a, handle_error) result) act"

text \<open>\<open>CommandResult\<close>: an \<open>IoError\<close> that leaves through \<open>?\<close> becomes an error of the task.\<close>

definition as_task :: "exit io_act \<Rightarrow> (world, task_result) act" where
  "as_task m = act_bind m (\<lambda>r. act_ret (map_err to_task_error r))"

definition ok_exit :: "int \<Rightarrow> exit io_act" where
  "ok_exit n = act_ret (Ok (exit_with n))"

definition ok_unit :: "unit io_act" where
  "ok_unit = act_ret (Ok ())"

definition stdout_all :: "runtime \<Rightarrow> cmd_ctx \<Rightarrow> bytes \<Rightarrow> unit io_act" where
  "stdout_all rt c b = write_all rt (ctx_stdout c) b"

definition complain_exit :: "runtime \<Rightarrow> cmd_ctx \<Rightarrow> string \<Rightarrow> int \<Rightarrow> exit io_act" where
  "complain_exit rt c msg n = act_try (ctx_eprintln rt c msg) (\<lambda>_. ok_exit n)"

definition flush_exit :: "runtime \<Rightarrow> cmd_ctx \<Rightarrow> int \<Rightarrow> exit io_act" where
  "flush_exit rt c n = act_try (io_flush rt (ctx_stdout c)) (\<lambda>_. ok_exit n)"

text \<open>A text given by its lines.\<close>

definition unlines :: "string list \<Rightarrow> string" where
  "unlines ls = concat (map (\<lambda>l. l @ [CHR 0x0A]) ls)"

definition help_exit :: "runtime \<Rightarrow> cmd_ctx \<Rightarrow> string \<Rightarrow> exit io_act" where
  "help_exit rt c t = act_try (stdout_all rt c (ascii t)) (\<lambda>_. ok_exit 0)"

text \<open>\<open>{n:w}\<close>, \<open>{n:>w}\<close> and \<open>{n:0w}\<close>.\<close>

definition pad_left :: "char \<Rightarrow> nat \<Rightarrow> string \<Rightarrow> string" where
  "pad_left p n s = replicate (n - length s) p @ s"

section \<open>Options\<close>

text \<open>\<open>lexopt::Arg\<close>; an option of one character is given by its text.\<close>

datatype cmd_arg = ShortOpt string | LongOpt string | ValueArg string

record 'p lexopt =
  lex_start :: "string list \<Rightarrow> 'p"
  lex_next :: "'p \<Rightarrow> (cmd_arg option, string) result \<times> 'p"
  lex_value :: "'p \<Rightarrow> (string, string) result \<times> 'p"
  lex_optional :: "'p \<Rightarrow> string option \<times> 'p"

text \<open>A command looks at one argument after the other, until there is none or an error, and keeps what it
  read in a record; \<open>None\<close> stands for the request for help, which ends it at once.\<close>

type_synonym ('p, 'o) option_reader = "cmd_arg \<Rightarrow> 'o \<Rightarrow> 'p \<Rightarrow> 'o option \<times> 'p"

definition option_round ::
  "'p lexopt \<Rightarrow> ('p, 'o) option_reader \<Rightarrow> 'o \<Rightarrow> ('p, 'o + 'o option) act" where
  "option_round L f x =
     act_bind (act_do (lex_next L)) (\<lambda>r. case r of
         Inr (Some a) \<Rightarrow>
           act_bind (act_do (f a x)) (\<lambda>y. act_ret (case y of None \<Rightarrow> Inr None | Some x \<Rightarrow> Inl x))
       | _ \<Rightarrow> act_ret (Inr (Some x)))"

definition read_options ::
  "'p lexopt \<Rightarrow> ('p, 'o) option_reader \<Rightarrow> 'o \<Rightarrow> cmd_ctx \<Rightarrow> 'o option option" where
  "read_options L f x c = map_option fst (act_loop (option_round L f) x (lex_start L (ctx_argv c)))"

definition with_options ::
  "'p lexopt \<Rightarrow> ('p, 'o) option_reader \<Rightarrow> 'o \<Rightarrow> string \<Rightarrow> runtime \<Rightarrow> cmd_ctx \<Rightarrow> ('o \<Rightarrow> exit io_act) \<Rightarrow>
     (world, task_result) act" where
  "with_options L f x help rt c k w =
     (case read_options L f x c of
        None \<Rightarrow> None
      | Some None \<Rightarrow> as_task (help_exit rt c help) w
      | Some (Some y) \<Rightarrow> as_task (k y) w)"

text \<open>An option with a value; a missing value is ignored.\<close>

definition take_value :: "'p lexopt \<Rightarrow> (string \<Rightarrow> 'o) \<Rightarrow> 'o \<Rightarrow> 'p \<Rightarrow> 'o option \<times> 'p" where
  "take_value L f x p =
     (let (r, p) = lex_value L p in (Some (case r of Inl _ \<Rightarrow> x | Inr v \<Rightarrow> f v), p))"

definition take_number :: "'p lexopt \<Rightarrow> (nat \<Rightarrow> 'o) \<Rightarrow> 'o \<Rightarrow> 'p \<Rightarrow> 'o option \<times> 'p" where
  "take_number L f x = take_value L (\<lambda>v. case parse_usize v of None \<Rightarrow> x | Some n \<Rightarrow> f n) x"

text \<open>\<open>-NUMBER\<close>: the digits after the first come as the optional value.\<close>

definition take_digits :: "'p lexopt \<Rightarrow> string \<Rightarrow> (nat \<Rightarrow> 'o) \<Rightarrow> 'o \<Rightarrow> 'p \<Rightarrow> 'o option \<times> 'p" where
  "take_digits L s f x p =
     (let (v, p) = lex_optional L p;
          t = s @ (case v of None \<Rightarrow> [] | Some v \<Rightarrow> v)
      in (Some (case parse_usize t of None \<Rightarrow> x | Some n \<Rightarrow> f n), p))"

definition is_digit_opt :: "string \<Rightarrow> bool" where
  "is_digit_opt s = (case s of [d] \<Rightarrow> is_digit d | _ \<Rightarrow> False)"

section \<open>Inputs\<close>

text \<open>A loop over the operands that may end the command with an exit.\<close>

fun each_file :: "('f \<Rightarrow> 'c \<Rightarrow> ('c + exit) io_act) \<Rightarrow> 'f list \<Rightarrow> 'c \<Rightarrow> ('c + exit) io_act" where
  "each_file f [] x = act_ret (Ok (Inl x))"
| "each_file f (p # ps) x =
     act_try (f p x) (\<lambda>r. case r of Inl x \<Rightarrow> each_file f ps x | Inr e \<Rightarrow> act_ret (Ok (Inr e)))"

definition go_on :: "'c io_act \<Rightarrow> ('c + exit) io_act" where
  "go_on m = act_try m (\<lambda>x. act_ret (Ok (Inl x)))"

definition or_exit :: "('c + exit) io_act \<Rightarrow> ('c \<Rightarrow> exit io_act) \<Rightarrow> exit io_act" where
  "or_exit m k = act_try m (\<lambda>r. case r of Inl x \<Rightarrow> k x | Inr e \<Rightarrow> act_ret (Ok e))"

text \<open>Opening an operand; a failure is reported, and the command ends or goes on as \<open>r\<close> says.\<close>

definition with_input ::
  "runtime \<Rightarrow> cmd_ctx \<Rightarrow> string \<Rightarrow> string \<Rightarrow> ('c + exit) \<Rightarrow> (io_handle \<Rightarrow> ('c + exit) io_act) \<Rightarrow> ('c + exit) io_act" where
  "with_input rt c name path r k =
     act_bind (ctx_open_or_stdin rt c path) (\<lambda>h. case h of
         Inr h \<Rightarrow> k h
       | Inl e \<Rightarrow>
           act_try (ctx_eprintln rt c (name @ '': '' @ path @ '': '' @ show_handle_error e)) (\<lambda>_. act_ret (Ok r)))"

section \<open>Reading by blocks\<close>

definition block_size :: nat where
  "block_size = 4096"

text \<open>Blocks until the end of the input or until a step returns. \<open>want\<close> is how much to ask for.\<close>

definition read_round ::
  "runtime \<Rightarrow> io_handle \<Rightarrow> ('c \<Rightarrow> nat) \<Rightarrow> (bytes \<Rightarrow> 'c \<Rightarrow> ('c + 'r) io_act) \<Rightarrow> ('c \<Rightarrow> 'r io_act) \<Rightarrow> 'c \<Rightarrow>
     (world, 'c + ('r, handle_error) result) act" where
  "read_round rt h want step fin x =
     act_bind (io_read rt h (want x)) (\<lambda>r. case r of
         Inl e \<Rightarrow> act_ret (Inr (Err e))
       | Inr b \<Rightarrow>
           if b = [] then act_bind (fin x) (\<lambda>r. act_ret (Inr r))
           else act_bind (step b x) (\<lambda>r. act_ret (case r of
               Inl e \<Rightarrow> Inr (Err e)
             | Inr (Inl x) \<Rightarrow> Inl x
             | Inr (Inr y) \<Rightarrow> Inr (Ok y))))"

definition read_loop ::
  "runtime \<Rightarrow> io_handle \<Rightarrow> ('c \<Rightarrow> nat) \<Rightarrow> (bytes \<Rightarrow> 'c \<Rightarrow> ('c + 'r) io_act) \<Rightarrow> ('c \<Rightarrow> 'r io_act) \<Rightarrow> 'c \<Rightarrow> 'r io_act" where
  "read_loop rt h want step fin = act_loop (read_round rt h want step fin)"

definition each_block ::
  "runtime \<Rightarrow> io_handle \<Rightarrow> (bytes \<Rightarrow> 'c \<Rightarrow> 'c io_act) \<Rightarrow> 'c \<Rightarrow> 'c io_act" where
  "each_block rt h step =
     read_loop rt h (\<lambda>_. block_size) (\<lambda>b x. act_try (step b x) (\<lambda>x. act_ret (Ok (Inl x))))
       (\<lambda>x. act_ret (Ok x))"

section \<open>Reading by lines\<close>

text \<open>The first complete line of a text without its newline, and what follows it.\<close>

definition split_line :: "bytes \<Rightarrow> (bytes \<times> bytes) option" where
  "split_line b =
     (if newline \<in> set b then
        Some (takeWhile (\<lambda>c. c \<noteq> newline) b, tl (dropWhile (\<lambda>c. c \<noteq> newline) b))
      else None)"

lemma length_split_line: "split_line b = Some (l, r) \<Longrightarrow> length r < length b"
  using length_dropWhile_le [of "\<lambda>c. c \<noteq> newline" b]
  by (cases b) (auto simp: split_line_def split: if_splits)

text \<open>The complete lines of what is pending; the rest stays pending.\<close>

function line_loop ::
  "(bytes \<Rightarrow> 'c \<Rightarrow> ('c + 'r) io_act) \<Rightarrow> bytes \<Rightarrow> 'c \<Rightarrow> (bytes \<times> 'c + 'r) io_act" where
  "line_loop f b x =
     (case split_line b of
        None \<Rightarrow> act_ret (Ok (Inl (b, x)))
      | Some (l, rest) \<Rightarrow>
          act_try (f l x) (\<lambda>r. case r of
              Inl x \<Rightarrow> line_loop f rest x
            | Inr y \<Rightarrow> act_ret (Ok (Inr y))))"
  by pat_completeness auto
termination
  by (relation "measure (\<lambda>(f, b, x). length b)") (auto simp: length_split_line)

declare line_loop.simps [simp del]

definition each_line ::
  "runtime \<Rightarrow> io_handle \<Rightarrow> (bytes \<Rightarrow> 'c \<Rightarrow> ('c + 'r) io_act) \<Rightarrow> (bytes \<Rightarrow> 'c \<Rightarrow> 'r io_act) \<Rightarrow> 'c \<Rightarrow> 'r io_act" where
  "each_line rt h f fin x =
     read_loop rt h (\<lambda>_. block_size) (\<lambda>b (pending, x). line_loop f (pending @ b) x)
       (\<lambda>(pending, x). fin pending x) ([], x)"

end
