(* ===== verification/CmdSound.thy ===== *)
theory CmdSound
  imports Cmd IoHandleSound
begin

text \<open>
  A command that reads one handle and writes another, as a function from texts to texts. The locale
  \<open>text_io\<close> says what the two handles promise; how the input is cut into blocks is left open, so what is
  proved in it holds for every way it arrives. Buffers and files keep the promise.
\<close>

section \<open>Actions that only write\<close>

definition emits ::
  "(world \<Rightarrow> bool) \<Rightarrow> (world \<Rightarrow> bytes) \<Rightarrow> (world \<Rightarrow> bytes) \<Rightarrow> (world, 'a) act \<Rightarrow> bytes \<Rightarrow> 'a \<Rightarrow> bool" where
  "emits I inp out m d x \<longleftrightarrow>
     (\<forall>w. I w \<longrightarrow> (\<exists>w'. m w = Some (x, w') \<and> I w' \<and> inp w' = inp w \<and> out w' = out w @ d))"

text \<open>An action that may read: what it writes when \<open>t\<close> is to be read.\<close>

definition filters ::
  "(world \<Rightarrow> bool) \<Rightarrow> (world \<Rightarrow> bytes) \<Rightarrow> (world \<Rightarrow> bytes) \<Rightarrow> (world, 'a) act \<Rightarrow> bytes \<Rightarrow> bytes \<Rightarrow> 'a \<Rightarrow> bool" where
  "filters I inp out m t d x \<longleftrightarrow>
     (\<forall>w. I w \<longrightarrow> inp w = t \<longrightarrow> (\<exists>w'. m w = Some (x, w') \<and> I w' \<and> out w' = out w @ d))"

lemma emits_ret: "emits I inp out (act_ret x) [] x"
  by (simp add: emits_def)

lemma emits_try:
  assumes "emits I inp out m d (Inr y)" "emits I inp out (f y) e z"
  shows "emits I inp out (act_try m f) (d @ e) z"
  unfolding emits_def
proof (intro allI impI)
  fix w assume "I w"
  with assms(1) obtain w1 where "m w = Some (Inr y, w1)" "I w1" "inp w1 = inp w" "out w1 = out w @ d"
    by (auto simp: emits_def)
  with assms(2) show "\<exists>w'. act_try m f w = Some (z, w') \<and> I w' \<and> inp w' = inp w \<and> out w' = out w @ d @ e"
    by (auto simp: emits_def)
qed

lemma emits_go_on: "emits I inp out m d (Inr y) \<Longrightarrow> emits I inp out (act_try m (\<lambda>x. act_ret (Inr (f x)))) d (Inr (f y))"
  using emits_try [of I inp out m d y "\<lambda>x. act_ret (Inr (f x))" "[]"] by (simp add: emits_ret)

lemma act_ret_eta: "(\<lambda>w. Some (x, w)) = act_ret x"
  by (simp add: fun_eq_iff)

lemma emits_filters: "emits I inp out m d x \<Longrightarrow> filters I inp out m t d x"
  by (auto simp: emits_def filters_def)

lemma filters_try:
  assumes "filters I inp out m t d (Inr y)" "emits I inp out (f y) e z"
  shows "filters I inp out (act_try m f) t (d @ e) z"
  unfolding filters_def
proof (intro allI impI)
  fix w assume "I w" "inp w = t"
  with assms(1) obtain w1 where "m w = Some (Inr y, w1)" "I w1" "out w1 = out w @ d"
    by (auto simp: filters_def)
  with assms(2) show "\<exists>w'. act_try m f w = Some (z, w') \<and> I w' \<and> out w' = out w @ d @ e"
    by (auto simp: emits_def)
qed

lemma filters_go_on:
  "filters I inp out m t d (Inr y) \<Longrightarrow> filters I inp out (act_try m (\<lambda>x. act_ret (Inr (f x)))) t d (Inr (f y))"
  using filters_try [of I inp out m t d y "\<lambda>x. act_ret (Inr (f x))" "[]"] by (simp add: emits_ret)

section \<open>Lines of a text\<close>

definition text_lines :: "bytes \<Rightarrow> bytes list" where
  "text_lines t = (let ps = split_on newline t in if last ps = [] then butlast ps else ps)"

definition join_lines :: "bytes list \<Rightarrow> bytes" where
  "join_lines ls = concat (map (\<lambda>l. l @ [newline]) ls)"

lemma join_lines_simps [simp]:
  "join_lines [] = []" "join_lines (l # ls) = l @ newline # join_lines ls"
  "join_lines (ls @ ms) = join_lines ls @ join_lines ms"
  by (simp_all add: join_lines_def)

lemma split_line_Some:
  assumes "split_line b = Some (l, r)"
  shows "b = l @ newline # r \<and> newline \<notin> set l"
proof -
  from assms have n: "newline \<in> set b" by (auto simp: split_line_def split: if_splits)
  then have "dropWhile (\<lambda>c. c \<noteq> newline) b = newline # r"
    using assms hd_dropWhile [of "\<lambda>c. c \<noteq> newline" b]
    by (cases "dropWhile (\<lambda>c. c \<noteq> newline) b") (auto simp: split_line_def dropWhile_eq_Nil_conv)
  with n assms takeWhile_dropWhile_id [of "\<lambda>c. c \<noteq> newline" b] show ?thesis
    by (auto simp: split_line_def dest: set_takeWhileD)
qed

lemma split_line_None: "split_line b = None \<longleftrightarrow> newline \<notin> set b"
  by (simp add: split_line_def)

lemma split_line_append: "split_line b = Some (l, r) \<Longrightarrow> split_line (b @ t) = Some (l, r @ t)"
  using split_line_Some [of b l r] by (auto simp: split_line_def takeWhile_tail)

lemma text_lines_None [simp]: "newline \<notin> set t \<Longrightarrow> text_lines t = (if t = [] then [] else [t])"
  by (simp add: text_lines_def)

lemma text_lines_Some [simp]: "newline \<notin> set l \<Longrightarrow> text_lines (l @ newline # r) = l # text_lines r"
  by (simp add: text_lines_def Let_def butlast_append)

lemma text_lines_join: "\<forall>l \<in> set ls. newline \<notin> set l \<Longrightarrow> text_lines (join_lines ls) = ls"
  by (induction ls) auto

text \<open>The text is its lines joined, up to a missing last newline.\<close>

lemma join_text_lines: "join_lines (text_lines t) = (if t = [] \<or> last t = newline then t else t @ [newline])"
proof (induction "length t" arbitrary: t rule: less_induct)
  case less
  show ?case
  proof (cases "split_line t")
    case None
    then have "newline \<notin> set t" by (simp add: split_line_None)
    then show ?thesis by (cases t rule: rev_cases) auto
  next
    case (Some p)
    then obtain l r where lr: "t = l @ newline # r" "newline \<notin> set l"
      using split_line_Some by (metis surj_pair)
    with less [of r] show ?thesis by auto
  qed
qed

lemma text_lines_plain: "l \<in> set (text_lines t) \<Longrightarrow> newline \<notin> set l"
proof -
  assume "l \<in> set (text_lines t)"
  then have "l \<in> set (split_on newline t)"
    by (auto simp: text_lines_def Let_def split: if_splits dest: in_set_butlastD)
  then show ?thesis by (rule split_on_no_sep)
qed

section \<open>What a loop over lines computes\<close>

function text_fold ::
  "(bytes \<Rightarrow> 'c \<Rightarrow> bytes \<times> ('c + 'r)) \<Rightarrow> (bytes \<Rightarrow> 'c \<Rightarrow> bytes \<times> 'r) \<Rightarrow> bytes \<Rightarrow> 'c \<Rightarrow> bytes \<times> 'r" where
  "text_fold g h t x =
     (case split_line t of
        None \<Rightarrow> h t x
      | Some (l, rest) \<Rightarrow>
          (case g l x of
             (d, Inl x) \<Rightarrow> apfst ((@) d) (text_fold g h rest x)
           | (d, Inr y) \<Rightarrow> (d, y)))"
  by pat_completeness auto
termination
  by (relation "measure (\<lambda>(g, h, t, x). length t)") (auto simp: length_split_line)

declare text_fold.simps [simp del]

lemma text_fold_None [simp]: "newline \<notin> set t \<Longrightarrow> text_fold g h t x = h t x"
  by (subst text_fold.simps) (simp add: split_line_def)

function line_part :: "(bytes \<Rightarrow> 'c \<Rightarrow> bytes \<times> ('c + 'r)) \<Rightarrow> bytes \<Rightarrow> 'c \<Rightarrow> bytes \<times> (bytes \<times> 'c + 'r)" where
  "line_part g b x =
     (case split_line b of
        None \<Rightarrow> ([], Inl (b, x))
      | Some (l, rest) \<Rightarrow>
          (case g l x of
             (d, Inl x) \<Rightarrow> apfst ((@) d) (line_part g rest x)
           | (d, Inr y) \<Rightarrow> (d, Inr y)))"
  by pat_completeness auto
termination
  by (relation "measure (\<lambda>(g, b, x). length b)") (auto simp: length_split_line)

declare line_part.simps [simp del]

lemma line_part_rest: "line_part g b x = (d, Inl (p, y)) \<Longrightarrow> newline \<notin> set p"
proof (induction g b x arbitrary: d rule: line_part.induct)
  case (1 g b x)
  show ?case
  proof (cases "split_line b")
    case None
    with 1(2) show ?thesis by (subst (asm) line_part.simps) (simp add: split_line_None)
  next
    case (Some q)
    obtain l r where q: "q = (l, r)" by fastforce
    obtain e z where z: "g l x = (e, z)" by fastforce
    show ?thesis
    proof (cases z)
      case (Inl u)
      with 1(2) Some q z obtain d' where "line_part g r u = (d', Inl (p, y))"
        by (subst (asm) line_part.simps) (auto simp: apfst_def map_prod_def split: prod.splits)
      with 1(1) [OF Some q [symmetric] z [symmetric] Inl] show ?thesis by simp
    next
      case (Inr u)
      with 1(2) Some q z show ?thesis by (subst (asm) line_part.simps) simp
    qed
  qed
qed

lemma line_part_fold:
  "text_fold g h (b @ t) x =
     (case line_part g b x of
        (d, Inl (p, y)) \<Rightarrow> apfst ((@) d) (text_fold g h (p @ t) y)
      | (d, Inr y) \<Rightarrow> (d, y))"
proof (induction g b x rule: line_part.induct)
  case (1 g b x)
  show ?case
  proof (cases "split_line b")
    case None
    then show ?thesis by (subst line_part.simps) (simp add: apfst_def map_prod_def)
  next
    case (Some p)
    obtain l r where p: "p = (l, r)" by fastforce
    obtain d y where y: "g l x = (d, y)" by fastforce
    note s = Some [unfolded p] split_line_append [OF Some [unfolded p], of t]
    show ?thesis
    proof (cases y)
      case (Inl z)
      with 1 [OF Some p [symmetric] y [symmetric] Inl] s y show ?thesis
        by (subst text_fold.simps, subst line_part.simps)
          (auto simp: apfst_def map_prod_def split: prod.splits sum.splits)
    next
      case (Inr z)
      with s y show ?thesis by (subst text_fold.simps, subst line_part.simps) simp
    qed
  qed
qed

fun line_fold :: "(bytes \<Rightarrow> 'c \<Rightarrow> bytes \<times> 'c) \<Rightarrow> bytes list \<Rightarrow> 'c \<Rightarrow> bytes \<times> 'c" where
  "line_fold g [] x = ([], x)"
| "line_fold g (l # ls) x = (let (d, x) = g l x in apfst ((@) d) (line_fold g ls x))"

lemma text_fold_lines:
  "text_fold (\<lambda>l x. apsnd Inl (g l x)) (\<lambda>p x. if p = [] then ([], x) else g p x) t x = line_fold g (text_lines t) x"
proof (induction "length t" arbitrary: t x rule: less_induct)
  case less
  show ?case
  proof (cases "split_line t")
    case None
    moreover from None have "newline \<notin> set t" by (simp add: split_line_None)
    ultimately show ?thesis by (subst text_fold.simps) (auto simp: apfst_def map_prod_def split: prod.split)
  next
    case (Some p)
    obtain l r where p: "p = (l, r)" by fastforce
    obtain d y where "g l x = (d, y)" by fastforce
    with less [of r y] length_split_line [of t l r] split_line_Some [of t l r] Some p show ?thesis
      by (subst text_fold.simps) simp
  qed
qed


section \<open>The promise of the handles\<close>

text \<open>\<open>I\<close> holds while the command runs, \<open>inp\<close> is what can still be read from \<open>src\<close>, \<open>out\<close> what was
  written to \<open>dst\<close>. A read gives any nonempty part of the input up to the size asked for.\<close>

locale text_io =
  fixes rt :: runtime and src dst :: io_handle
    and I :: "world \<Rightarrow> bool" and inp out :: "world \<Rightarrow> bytes"
  assumes read_some: "I w \<Longrightarrow> inp w \<noteq> [] \<Longrightarrow> 0 < n \<Longrightarrow> \<exists>b t w'. inp w = b @ t \<and> b \<noteq> [] \<and> length b \<le> n \<and>
      io_read rt src n w = Some (Inr b, w') \<and> I w' \<and> inp w' = t \<and> out w' = out w"
    and read_none: "I w \<Longrightarrow> inp w = [] \<Longrightarrow> \<exists>w'. io_read rt src n w = Some (Inr [], w') \<and> I w' \<and> inp w' = [] \<and> out w' = out w"
    and writes: "emits I inp out (write_all rt dst d) d (Inr ())"
    and flushes: "emits I inp out (io_flush rt dst) [] (Inr ())"
begin

text \<open>\<open>F t x\<close> is what a loop writes and returns from its variable \<open>x\<close> on, with \<open>t\<close> left to read.\<close>

lemma read_loop_filters:
  fixes F :: "bytes \<Rightarrow> 'c \<Rightarrow> bytes \<times> 'r"
  assumes step: "\<And>b x. b \<noteq> [] \<Longrightarrow> G x \<Longrightarrow> length b \<le> want x \<Longrightarrow> emits I inp out (step b x) (fst (S b x)) (Inr (snd (S b x)))"
    and fin: "\<And>x. G x \<Longrightarrow> emits I inp out (fin x) (fst (F [] x)) (Inr (snd (F [] x)))"
    and good: "\<And>x. G x \<Longrightarrow> 0 < want x"
      "\<And>b x d y. b \<noteq> [] \<Longrightarrow> G x \<Longrightarrow> length b \<le> want x \<Longrightarrow> S b x = (d, Inl y) \<Longrightarrow> G y"
    and F: "\<And>b t x. b \<noteq> [] \<Longrightarrow> G x \<Longrightarrow> length b \<le> want x \<Longrightarrow>
      F (b @ t) x = (case S b x of (d, Inl y) \<Rightarrow> apfst ((@) d) (F t y) | (d, Inr r) \<Rightarrow> (d, r))"
    and "G x"
  shows "filters I inp out (read_loop rt src want step fin x) t (fst (F t x)) (Inr (snd (F t x)))"
  unfolding filters_def
proof (intro allI impI)
  fix w assume "I w" "inp w = t"
  then show "\<exists>w'. read_loop rt src want step fin x w = Some (Inr (snd (F t x)), w') \<and> I w' \<and> out w' = out w @ fst (F t x)"
    using \<open>G x\<close>
  proof (induction "length t" arbitrary: t x w rule: less_induct)
    case less
    note unfold = read_loop_def act_loop.simps [of "read_round rt src want step fin" x w]
    show ?case
    proof (cases "t = []")
      case True
      with read_none [OF less.prems(1)] less.prems obtain w1 where
        "io_read rt src (want x) w = Some (Inr [], w1)" "I w1" "inp w1 = []" "out w1 = out w" by blast
      with fin [OF less.prems(3)] True show ?thesis
        by (auto simp: unfold read_round_def emits_def)
    next
      case False
      with read_some [OF less.prems(1) _ good(1) [OF less.prems(3)]] less.prems(2) obtain b u w1 where
        b: "t = b @ u" "b \<noteq> []" "length b \<le> want x" and r: "io_read rt src (want x) w = Some (Inr b, w1)"
          "I w1" "inp w1 = u" "out w1 = out w" by metis
      obtain d y where s: "S b x = (d, y)" by fastforce
      with step [OF b(2) less.prems(3) b(3)] r obtain w2 where
        w2: "step b x w1 = Some (Inr y, w2)" "I w2" "inp w2 = u" "out w2 = out w @ d" by (auto simp: emits_def)
      show ?thesis
      proof (cases y)
        case (Inl z)
        with good(2) [OF b(2) less.prems(3) b(3)] s have "G z" by simp
        with less.hyps [OF _ w2(2,3), of z] b(1,2) obtain w3 where
          "read_loop rt src want step fin z w2 = Some (Inr (snd (F u z)), w3)" "I w3" "out w3 = out w2 @ fst (F u z)"
          by auto
        with Inl r(1) w2 b s F [OF b(2) less.prems(3) b(3), of u] show ?thesis
          by (auto simp: unfold read_round_def)
      next
        case (Inr z)
        with r(1) w2 b s F [OF b(2) less.prems(3) b(3), of u] show ?thesis
          by (auto simp: unfold read_round_def)
      qed
    qed
  qed
qed

lemma each_block_filters:
  assumes "\<And>b x. emits I inp out (step b x) (fst (S b x)) (Inr (snd (S b x)))"
    and "\<And>x. F [] x = ([], x)" "\<And>b t x. F (b @ t) x = (let (d, y) = S b x in apfst ((@) d) (F t y))"
  shows "filters I inp out (each_block rt src step x) t (fst (F t x)) (Inr (snd (F t x)))"
  unfolding each_block_def
proof (rule read_loop_filters [where G = "\<lambda>_. True" and S = "\<lambda>b x. apsnd Inl (S b x)"], goal_cases)
  case (1 b x)
  from emits_go_on [OF assms(1) [of b x], of Inl] show ?case by (simp only: fst_apsnd snd_apsnd)
next
  case (2 x)
  show ?case by (simp only: assms(2) fst_conv snd_conv emits_ret)
next
  case (5 b t x)
  show ?case by (simp add: assms(3) split: prod.split)
qed (simp_all add: block_size_def)

lemma line_loop_emits:
  assumes "\<And>l x. emits I inp out (f l x) (fst (g l x)) (Inr (snd (g l x)))"
  shows "emits I inp out (line_loop f b x) (fst (line_part g b x)) (Inr (snd (line_part g b x)))"
proof (induction "length b" arbitrary: b x rule: less_induct)
  case less
  show ?case
  proof (cases "split_line b")
    case None
    then show ?thesis by (subst line_loop.simps, subst (1 2) line_part.simps) (simp add: emits_ret)
  next
    case (Some p)
    obtain l r where p: "p = (l, r)" by fastforce
    obtain d y where y: "g l x = (d, y)" by fastforce
    show ?thesis
    proof (cases y)
      case (Inl z)
      from less [of r z] length_split_line [of b l r] Some p
      have "emits I inp out (line_loop f r z) (fst (line_part g r z)) (Inr (snd (line_part g r z)))" by simp
      with emits_try [OF assms [of l x], of "case_sum (line_loop f r) (\<lambda>y. act_ret (Inr (Inr y)))"] y Inl Some p
      show ?thesis by (subst line_loop.simps, subst (1 2) line_part.simps) simp
    next
      case (Inr z)
      with emits_try [OF assms [of l x], of "case_sum (line_loop f r) (\<lambda>y. act_ret (Inr (Inr y)))"
          "[]" "Inr (Inr z)"] y Inr Some p
      show ?thesis by (subst line_loop.simps, subst (1 2) line_part.simps) (simp add: emits_ret)
    qed
  qed
qed

lemma each_line_filters:
  assumes "\<And>l x. emits I inp out (f l x) (fst (g l x)) (Inr (snd (g l x)))"
    and "\<And>p x. newline \<notin> set p \<Longrightarrow> emits I inp out (fin p x) (fst (h p x)) (Inr (snd (h p x)))"
  shows "filters I inp out (each_line rt src f fin x) t (fst (text_fold g h t x)) (Inr (snd (text_fold g h t x)))"
proof -
  let ?F = "\<lambda>t (p, x). text_fold g h (p @ t) x"
  note n = line_part_rest [of g]
  have "filters I inp out (each_line rt src f fin x) t (fst (?F t ([], x))) (Inr (snd (?F t ([], x))))"
    unfolding each_line_def
  proof (rule read_loop_filters [where G = "\<lambda>(p, x). newline \<notin> set p" and S = "\<lambda>b (p, x). line_part g (p @ b) x"], goal_cases)
    case (1 b x)
    with line_loop_emits [of f g, OF assms(1)] show ?case by (simp split: prod.split)
  next
    case (2 x)
    obtain p y where x: "x = (p, y)" by fastforce
    with 2 assms(2) [of p y] show ?case by simp
  next
    case (4 b x d y)
    then show ?case using n by (auto split: prod.splits)
  next
    case (5 b t x)
    obtain p y where "x = (p, y)" by fastforce
    with line_part_fold [of g h "p @ b" t y] show ?case by (simp split: prod.split sum.split)
  qed (auto simp: block_size_def)
  then show ?thesis by simp
qed

end

section \<open>Handles that keep the promise\<close>

text \<open>A buffer whose position is its end, and the text that is left in one.\<close>

definition buffer_end :: "nat \<Rightarrow> world \<Rightarrow> bool" where
  "buffer_end j w \<longleftrightarrow> j < length (w_buffers w) \<and> snd (w_buffers w ! j) = length (fst (w_buffers w ! j))"

definition buffer_text :: "nat \<Rightarrow> world \<Rightarrow> bytes" where
  "buffer_text j w = fst (w_buffers w ! j)"

definition buffer_rest :: "nat \<Rightarrow> world \<Rightarrow> bytes" where
  "buffer_rest i w = drop (snd (w_buffers w ! i)) (fst (w_buffers w ! i))"

definition file_open :: "string \<Rightarrow> nat \<Rightarrow> world \<Rightarrow> bool" where
  "file_open path k w \<longleftrightarrow> k < length (w_cells w) \<and> is_ok (read_file (w_vfs w) path)"

definition file_rest :: "string \<Rightarrow> nat \<Rightarrow> world \<Rightarrow> bytes" where
  "file_rest path k w = drop (w_cells w ! k) (projr (read_file (w_vfs w) path))"

lemma read_buffer:
  assumes "i < length (w_buffers w)"
  shows "\<exists>w'. io_read rt (BufferHandle i) n w = Some (Inr (take n (buffer_rest i w)), w') \<and>
    buffer_rest i w' = drop n (buffer_rest i w) \<and> i < length (w_buffers w') \<and>
    (\<forall>j. j \<noteq> i \<longrightarrow> w_buffers w' ! j = w_buffers w ! j) \<and> length (w_buffers w') = length (w_buffers w) \<and>
    w_vfs w' = w_vfs w \<and> w_cells w' = w_cells w"
proof -
  obtain b pos where b: "w_buffers w ! i = (b, pos)" by fastforce
  show ?thesis
  proof (cases "pos \<ge> length b")
    case True
    with b assms show ?thesis by (simp add: io_read_def read_buffer_at_def buffer_rest_def)
  next
    case False
    with b assms show ?thesis
      by (auto simp: io_read_def read_buffer_at_def buffer_rest_def window_def drop_drop add.commute min_def)
  qed
qed

lemma read_open_file:
  assumes "file_open path k w"
  shows "\<exists>w'. io_read rt (FileHandle path k True wr app) n w = Some (Inr (take n (file_rest path k w)), w') \<and>
    file_rest path k w' = drop n (file_rest path k w) \<and> file_open path k w' \<and>
    w_buffers w' = w_buffers w \<and> w_vfs w' = w_vfs w"
proof -
  from assms obtain c where c: "read_file (w_vfs w) path = Inr c" "k < length (w_cells w)"
    by (auto simp: file_open_def is_ok_iff)
  show ?thesis
  proof (cases "w_cells w ! k \<ge> length c")
    case True
    with c show ?thesis by (simp add: io_read_def read_file_at_def file_rest_def file_open_def)
  next
    case False
    with c show ?thesis
      by (auto simp: io_read_def read_file_at_def file_rest_def file_open_def window_def drop_drop add.commute min_def Let_def)
  qed
qed

lemma write_all_buffer:
  assumes "buffer_end j w"
  shows "\<exists>w'. write_all rt (BufferHandle j) d w = Some (Inr (), w') \<and> buffer_end j w' \<and>
    buffer_text j w' = buffer_text j w @ d \<and> (\<forall>i. i \<noteq> j \<longrightarrow> w_buffers w' ! i = w_buffers w ! i) \<and>
    length (w_buffers w') = length (w_buffers w) \<and> w_vfs w' = w_vfs w \<and> w_cells w' = w_cells w"
proof (cases "d = []")
  case True
  with assms show ?thesis by (simp add: write_all.simps)
next
  case False
  obtain b pos where b: "w_buffers w ! j = (b, pos)" by fastforce
  with assms have "pos = length b" "j < length (w_buffers w)" by (auto simp: buffer_end_def)
  with b False show ?thesis
    by (auto simp: write_all.simps [of rt "BufferHandle j" d w] write_all.simps [of rt "BufferHandle j" "[]"]
        io_write_def write_buffer_at_def overlay_end buffer_end_def buffer_text_def)
qed

lemma nonempty_take_drop:
  assumes "t \<noteq> []" "0 < n"
  shows "t = take n t @ drop n t \<and> take n t \<noteq> [] \<and> length (take n t) \<le> n"
  using assms by simp

definition two_buffers :: "nat \<Rightarrow> nat \<Rightarrow> world \<Rightarrow> bool" where
  "two_buffers i j w \<longleftrightarrow> i \<noteq> j \<and> i < length (w_buffers w) \<and> buffer_end j w"

interpretation buffer_io: text_io rt "BufferHandle i" "BufferHandle j" "two_buffers i j" "buffer_rest i" "buffer_text j"
  for rt i j
proof (unfold_locales, goal_cases)
  case (1 w n)
  then obtain w' where "io_read rt (BufferHandle i) n w = Some (Inr (take n (buffer_rest i w)), w')"
    "buffer_rest i w' = drop n (buffer_rest i w)" "two_buffers i j w'" "buffer_text j w' = buffer_text j w"
    using read_buffer [of i w rt n] by (auto simp: two_buffers_def buffer_end_def buffer_text_def)
  with nonempty_take_drop [OF 1(2,3)] show ?case by blast
next
  case (2 w n)
  then show ?case
    using read_buffer [of i w rt n] by (auto simp: two_buffers_def buffer_end_def buffer_text_def)
next
  case (3 d)
  show ?case
    unfolding emits_def
  proof (intro allI impI)
    fix w assume "two_buffers i j w"
    with write_all_buffer [of j w rt d] show "\<exists>w'. write_all rt (BufferHandle j) d w = Some (Inr (), w') \<and>
        two_buffers i j w' \<and> buffer_rest i w' = buffer_rest i w \<and> buffer_text j w' = buffer_text j w @ d"
      by (auto simp: two_buffers_def buffer_rest_def)
  qed
qed (simp add: emits_def io_flush_def)

text \<open>The file tree stays as it is; the other case reads an open file of it.\<close>

definition prints_to :: "vfs \<Rightarrow> nat \<Rightarrow> world \<Rightarrow> bool" where
  "prints_to v j w \<longleftrightarrow> w_vfs w = v \<and> buffer_end j w"

definition file_to_buffer :: "vfs \<Rightarrow> string \<Rightarrow> nat \<Rightarrow> nat \<Rightarrow> world \<Rightarrow> bool" where
  "file_to_buffer v path k j w \<longleftrightarrow> prints_to v j w \<and> file_open path k w"

interpretation file_io: text_io rt "FileHandle path k True wr app" "BufferHandle j"
    "file_to_buffer v path k j" "file_rest path k" "buffer_text j"
  for rt path k wr app j v
proof (unfold_locales, goal_cases)
  case (1 w n)
  then obtain w' where "io_read rt (FileHandle path k True wr app) n w = Some (Inr (take n (file_rest path k w)), w')"
    "file_rest path k w' = drop n (file_rest path k w)" "file_to_buffer v path k j w'" "buffer_text j w' = buffer_text j w"
    using read_open_file [of path k w rt wr app n]
    by (auto simp: file_to_buffer_def prints_to_def buffer_end_def buffer_text_def)
  with nonempty_take_drop [OF 1(2,3)] show ?case by blast
next
  case (2 w n)
  then show ?case
    using read_open_file [of path k w rt wr app n]
    by (auto simp: file_to_buffer_def prints_to_def buffer_end_def buffer_text_def)
next
  case (3 d)
  show ?case
    unfolding emits_def
  proof (intro allI impI)
    fix w assume "file_to_buffer v path k j w"
    with write_all_buffer [of j w rt d] show "\<exists>w'. write_all rt (BufferHandle j) d w = Some (Inr (), w') \<and>
        file_to_buffer v path k j w' \<and> file_rest path k w' = file_rest path k w \<and> buffer_text j w' = buffer_text j w @ d"
      by (auto simp: file_to_buffer_def prints_to_def file_rest_def file_open_def)
  qed
qed (simp add: emits_def io_flush_def)

section \<open>Operands\<close>

text \<open>A plain file of the tree, not one that is mounted from the host.\<close>

definition plain_file :: "vfs \<Rightarrow> string \<Rightarrow> bytes \<Rightarrow> bool" where
  "plain_file v path b \<longleftrightarrow>
     get_host_path v path = None \<and> exists_path v path \<and> \<not> is_dir v path \<and> read_file v path = Inr b"

text \<open>Actions that write to a buffer and leave the files alone.\<close>

abbreviation writes_to :: "vfs \<Rightarrow> nat \<Rightarrow> (world, 'a) act \<Rightarrow> bytes \<Rightarrow> 'a \<Rightarrow> bool" where
  "writes_to v j \<equiv> emits (prints_to v j) (\<lambda>_. []) (buffer_text j)"

lemma open_plain:
  assumes "plain_file (w_vfs w) (ctx_resolve c f) b" "f \<noteq> ''-''"
  shows "\<exists>k w'. ctx_open_or_stdin rt c f w = Some (Inr (FileHandle (ctx_resolve c f) k True False False), w') \<and>
    w_vfs w' = w_vfs w \<and> w_buffers w' = w_buffers w \<and> file_open (ctx_resolve c f) k w' \<and> file_rest (ctx_resolve c f) k w' = b"
  using assms
  by (auto simp: plain_file_def ctx_open_or_stdin_def ctx_open_read_def open_read_def new_cell_def Let_def
      file_open_def file_rest_def nth_append)

lemma with_input_writes:
  assumes "plain_file v (ctx_resolve c f) b" "f \<noteq> ''-''"
    and "\<And>k. filters (file_to_buffer v (ctx_resolve c f) k j) (file_rest (ctx_resolve c f) k) (buffer_text j)
      (body (FileHandle (ctx_resolve c f) k True False False)) b d x"
  shows "writes_to v j (with_input rt c name f r body) d x"
  unfolding emits_def
proof (intro allI impI)
  fix w assume w: "prints_to v j w"
  with open_plain [of w c f b rt] assms(1,2) obtain k w1 where k:
    "ctx_open_or_stdin rt c f w = Some (Inr (FileHandle (ctx_resolve c f) k True False False), w1)"
    "w_vfs w1 = v" "w_buffers w1 = w_buffers w" "file_open (ctx_resolve c f) k w1" "file_rest (ctx_resolve c f) k w1 = b"
    by (auto simp: prints_to_def)
  with w have "file_to_buffer v (ctx_resolve c f) k j w1"
    by (auto simp: file_to_buffer_def prints_to_def buffer_end_def)
  with assms(3) [of k] k(5) obtain w2 where "body (FileHandle (ctx_resolve c f) k True False False) w1 = Some (x, w2)"
    "file_to_buffer v (ctx_resolve c f) k j w2" "buffer_text j w2 = buffer_text j w1 @ d"
    by (auto simp: filters_def)
  with k show "\<exists>w'. with_input rt c name f r body w = Some (x, w') \<and> prints_to v j w' \<and> [] = [] \<and>
      buffer_text j w' = buffer_text j w @ d"
    by (auto simp: with_input_def file_to_buffer_def buffer_text_def)
qed

lemma each_file_writes:
  assumes "\<And>f x. f \<in> set fs \<Longrightarrow> writes_to v j (body f x) (D f x) (Inr (Inl (step f x)))"
  shows "writes_to v j (each_file body fs x)
    (fst (fold (\<lambda>f (d, x). (d @ D f x, step f x)) fs ([], x))) (Inr (Inl (snd (fold (\<lambda>f (d, x). (d @ D f x, step f x)) fs ([], x)))))"
proof -
  have pull: "fold (\<lambda>f (d, x). (d @ D f x, step f x)) fs (e, x) = apfst ((@) e) (fold (\<lambda>f (d, x). (d @ D f x, step f x)) fs ([], x))"
    for fs e x
  proof (induction fs arbitrary: e x)
    case (Cons f fs)
    from Cons [of "e @ D f x" "step f x"] Cons [of "D f x" "step f x"] show ?case by (simp add: apfst_compose comp_def)
  qed simp
  show ?thesis
    using assms
  proof (induction fs arbitrary: x)
    case (Cons f fs)
    from emits_try [OF Cons.prems [of f x], of "case_sum (each_file body fs) (\<lambda>e. act_ret (Inr (Inr e)))"]
      Cons.IH [OF Cons.prems, of "step f x"] show ?case
      by (simp add: pull [of fs "D f x"])
  qed (simp add: emits_ret)
qed

section \<open>Running a command\<close>

lemma with_options_run:
  assumes "read_options L f x c = Some (Some y)" "m y w = Some (r, w')"
  shows "with_options L f x help rt c m w = Some (map_err to_task_error r, w')"
  using assms by (simp add: with_options_def as_task_def)

text \<open>A parser for the examples: one option for each argument, a value is the next argument.\<close>

definition plain_lexopt :: "string list lexopt" where
  "plain_lexopt =
     \<lparr>lex_start = drop 1,
      lex_next = (\<lambda>as. case as of
          [] \<Rightarrow> (Ok None, [])
        | a # as \<Rightarrow>
            (case a of
               [CHR ''-'', s] \<Rightarrow> (Ok (Some (ShortOpt [s])), as)
             | CHR ''-'' # CHR ''-'' # s \<Rightarrow> (Ok (Some (LongOpt s)), as)
             | _ \<Rightarrow> (Ok (Some (ValueArg a)), as))),
      lex_value = (\<lambda>as. case as of [] \<Rightarrow> (Err ''missing argument'', []) | v # as \<Rightarrow> (Ok v, as)),
      lex_optional = (\<lambda>as. (None, as))\<rparr>"

end
