(* ===== verification/TextCmds.thy ===== *)
theory TextCmds
  imports Cmd
begin

text \<open>
  The commands \<open>cat\<close>, \<open>tee\<close>, \<open>head\<close>, \<open>tail\<close> and \<open>wc\<close>, which pass text on or count it,
  \<open>crates/amla-sandbox-shell/src/commands/{cat,tee,head,tail,wc}.rs\<close>. \<open>VecDeque::with_capacity\<close> is
  taken to succeed.
\<close>

section \<open>cat\<close>

definition cat_help :: string where
  "cat_help = unlines
    [''cat - concatenate and print files'',
     [],
     ''Usage: cat [OPTIONS] [FILE...]'',
     [],
     ''Options:'',
     ''  -h, --help    Show this help message'',
     ''  -n            Number all output lines'',
     ''  -b            Number non-blank lines only'',
     [],
     ''If no files given, read from stdin. Use '' @ [CHR 0x27] @ ''-'' @ [CHR 0x27] @ '' for stdin explicitly.'']"

record cat_options =
  cat_number :: bool
  cat_nonblank :: bool
  cat_files :: "string list"

definition cat_option :: "('p, cat_options) option_reader" where
  "cat_option a x p =
     (case a of
        ShortOpt s \<Rightarrow>
          (if s = ''h'' then None
           else if s = ''n'' then Some (x\<lparr>cat_number := True\<rparr>)
           else if s = ''b'' then Some (x\<lparr>cat_nonblank := True\<rparr>)
           else Some x, p)
      | LongOpt s \<Rightarrow> (if s = ''help'' then None else Some x, p)
      | ValueArg v \<Rightarrow> (Some (x\<lparr>cat_files := cat_files x @ [v]\<rparr>), p))"

text \<open>A line with its number; \<open>blank\<close> says that it counts as blank.\<close>

definition numbered :: "nat \<Rightarrow> bytes \<Rightarrow> bytes" where
  "numbered k l = ascii (pad_left CHR '' '' 6 (show_nat k) @ [CHR 0x09]) @ from_utf8_lossy l @ [newline]"

definition cat_line :: "runtime \<Rightarrow> cmd_ctx \<Rightarrow> bool \<Rightarrow> bytes \<Rightarrow> nat \<Rightarrow> nat io_act" where
  "cat_line rt c blank l k =
     (if blank then act_try (stdout_all rt c [newline]) (\<lambda>_. act_ret (Ok k))
      else act_try (stdout_all rt c (numbered k l)) (\<lambda>_. act_ret (Ok (k + 1))))"

definition cat_handle :: "runtime \<Rightarrow> cmd_ctx \<Rightarrow> io_handle \<Rightarrow> bool \<Rightarrow> bool \<Rightarrow> nat \<Rightarrow> nat io_act" where
  "cat_handle rt c h number nonblank k =
     (if number \<or> nonblank then
        each_line rt h
          (\<lambda>l k. act_try (cat_line rt c (nonblank \<and> from_utf8_lossy l = []) l k) (\<lambda>k. act_ret (Ok (Inl k))))
          (\<lambda>p k. if p = [] then act_ret (Ok k)
             else cat_line rt c (nonblank \<and> trim (text_of (from_utf8_lossy p)) = []) p k) k
      else each_block rt h (\<lambda>b k. act_try (stdout_all rt c b) (\<lambda>_. act_ret (Ok k))) k)"

definition run_cat :: "'p lexopt \<Rightarrow> runtime \<Rightarrow> cmd_ctx \<Rightarrow> (world, task_result) act" where
  "run_cat L rt c =
     with_options L cat_option \<lparr>cat_number = False, cat_nonblank = False, cat_files = []\<rparr> cat_help rt c
       (\<lambda>x. or_exit
          (if cat_files x = [] then go_on (cat_handle rt c (ctx_stdin c) (cat_number x) (cat_nonblank x) 1)
           else each_file (\<lambda>f k. with_input rt c ''cat'' f (Inr (exit_with 1))
                  (\<lambda>h. go_on (cat_handle rt c h (cat_number x) (cat_nonblank x) k))) (cat_files x) 1)
          (\<lambda>_. flush_exit rt c 0))"

section \<open>tee\<close>

definition tee_help :: string where
  "tee_help = unlines
    [''tee - read from stdin and write to stdout and files'',
     [],
     ''Usage: tee [OPTIONS] [FILE...]'',
     [],
     ''Options:'',
     ''  -h, --help    Show this help message'',
     ''  -a            Append to files instead of overwriting'',
     ''  -i            Ignore SIGINT (no-op in sandbox)'',
     [],
     ''Reads from stdin and writes to both stdout and the specified files.'',
     ''Streams in 4KB chunks for memory efficiency.'']"

record tee_options =
  tee_append :: bool
  tee_files :: "string list"

definition tee_option :: "('p, tee_options) option_reader" where
  "tee_option a x p =
     (case a of
        ShortOpt s \<Rightarrow> (if s = ''h'' then None else if s = ''a'' then Some (x\<lparr>tee_append := True\<rparr>) else Some x, p)
      | LongOpt s \<Rightarrow>
          (if s = ''help'' then None else if s = ''append'' then Some (x\<lparr>tee_append := True\<rparr>) else Some x, p)
      | ValueArg v \<Rightarrow> (Some (x\<lparr>tee_files := tee_files x @ [v]\<rparr>), p))"

definition tee_complain :: "runtime \<Rightarrow> cmd_ctx \<Rightarrow> string \<Rightarrow> handle_error \<Rightarrow> unit io_act" where
  "tee_complain rt c f e = ctx_eprintln rt c (''tee: '' @ f @ '': '' @ show_handle_error e)"

definition tee_truncate :: "runtime \<Rightarrow> cmd_ctx \<Rightarrow> string \<Rightarrow> unit \<Rightarrow> unit io_act" where
  "tee_truncate rt c f _ =
     act_bind (act_do (ctx_write_file c f [])) (\<lambda>r. case r of Inl e \<Rightarrow> tee_complain rt c f e | Inr _ \<Rightarrow> ok_unit)"

definition tee_file :: "runtime \<Rightarrow> cmd_ctx \<Rightarrow> bytes \<Rightarrow> string \<Rightarrow> int \<Rightarrow> int io_act" where
  "tee_file rt c b f code =
     act_bind (act_do (ctx_append_file c f b)) (\<lambda>r. case r of
         Inl e \<Rightarrow> act_try (tee_complain rt c f e) (\<lambda>_. act_ret (Ok 1))
       | Inr _ \<Rightarrow> act_ret (Ok code))"

definition run_tee :: "'p lexopt \<Rightarrow> runtime \<Rightarrow> cmd_ctx \<Rightarrow> (world, task_result) act" where
  "run_tee L rt c =
     with_options L tee_option \<lparr>tee_append = False, tee_files = []\<rparr> tee_help rt c
       (\<lambda>x. act_try (if tee_append x then ok_unit else act_fold (tee_truncate rt c) (tee_files x) ()) (\<lambda>_.
            act_try (each_block rt (ctx_stdin c)
                (\<lambda>b code. act_try (stdout_all rt c b) (\<lambda>_. act_fold (tee_file rt c b) (tee_files x) code)) 0)
              (\<lambda>code. flush_exit rt c code)))"

section \<open>head and tail\<close>

record part_options =
  part_lines :: "nat option"
  part_bytes :: "nat option"
  part_quiet :: bool
  part_files :: "string list"

definition no_part :: part_options where
  "no_part = \<lparr>part_lines = None, part_bytes = None, part_quiet = False, part_files = []\<rparr>"

definition set_lines :: "part_options \<Rightarrow> nat \<Rightarrow> part_options" where
  "set_lines x n = x\<lparr>part_lines := Some n\<rparr>"

definition head_option :: "'p lexopt \<Rightarrow> ('p, part_options) option_reader" where
  "head_option L a x p =
     (case a of
        ShortOpt s \<Rightarrow>
          if s = ''n'' then take_number L (set_lines x) x p
          else if s = ''c'' then take_number L (\<lambda>n. x\<lparr>part_bytes := Some n\<rparr>) x p
          else if s = ''q'' then (Some (x\<lparr>part_quiet := True\<rparr>), p)
          else if is_digit_opt s then take_digits L s (set_lines x) x p
          else (Some x, p)
      | LongOpt s \<Rightarrow> (Some x, p)
      | ValueArg v \<Rightarrow> (Some (x\<lparr>part_files := part_files x @ [v]\<rparr>), p))"

text \<open>The value of \<open>tail -n\<close> may have a plus sign in front, which means nothing.\<close>

definition tail_count :: "string \<Rightarrow> nat option" where
  "tail_count v = (case strip_prefix v ''+'' of Some rest \<Rightarrow> parse_usize rest | None \<Rightarrow> parse_usize v)"

definition tail_option :: "'p lexopt \<Rightarrow> ('p, part_options) option_reader" where
  "tail_option L a x p =
     (if a = ShortOpt ''n'' then
        take_value L (\<lambda>v. case tail_count v of None \<Rightarrow> x | Some n \<Rightarrow> set_lines x n) x p
      else head_option L a x p)"

definition default_lines :: "part_options \<Rightarrow> part_options" where
  "default_lines x = (if part_lines x = None \<and> part_bytes x = None then set_lines x 10 else x)"

text \<open>The heading of a file when there are several: whether this is the first one.\<close>

definition heading :: "runtime \<Rightarrow> cmd_ctx \<Rightarrow> bool \<Rightarrow> string \<Rightarrow> bool \<Rightarrow> bool io_act" where
  "heading rt c shown f first =
     (if \<not> shown then act_ret (Ok first)
      else act_try (if first then ok_unit else stdout_all rt c [newline]) (\<lambda>_.
           act_try (ctx_println rt c (''==> '' @ f @ '' <=='')) (\<lambda>_. act_ret (Ok False))))"

definition run_part ::
  "string \<Rightarrow> (io_handle \<Rightarrow> part_options \<Rightarrow> unit io_act) \<Rightarrow> runtime \<Rightarrow> cmd_ctx \<Rightarrow> part_options \<Rightarrow> exit io_act" where
  "run_part name body rt c x =
     (let x = default_lines x; shown = (\<not> part_quiet x \<and> length (part_files x) > 1)
      in or_exit
           (if part_files x = [] then act_try (body (ctx_stdin c) x) (\<lambda>_. act_ret (Ok (Inl True)))
            else each_file (\<lambda>f first.
                act_try (heading rt c shown f first) (\<lambda>first.
                  with_input rt c name f (Inr (exit_with 1))
                    (\<lambda>h. act_try (body h x) (\<lambda>_. act_ret (Ok (Inl first)))))) (part_files x) True)
           (\<lambda>_. flush_exit rt c 0))"

definition head_bytes :: "runtime \<Rightarrow> cmd_ctx \<Rightarrow> io_handle \<Rightarrow> nat \<Rightarrow> unit io_act" where
  "head_bytes rt c h n =
     (if n = 0 then ok_unit
      else read_loop rt h (\<lambda>r. min r block_size)
        (\<lambda>b r. act_try (stdout_all rt c b)
           (\<lambda>_. act_ret (Ok (if r - length b > 0 then Inl (r - length b) else Inr ()))))
        (\<lambda>_. ok_unit) n)"

text \<open>What is written as the rest of a text: a newline is added when it has none.\<close>

definition write_ended :: "runtime \<Rightarrow> cmd_ctx \<Rightarrow> bytes \<Rightarrow> unit io_act" where
  "write_ended rt c l =
     act_try (stdout_all rt c l)
       (\<lambda>_. if l \<noteq> [] \<and> last l = newline then ok_unit else stdout_all rt c [newline])"

definition head_lines :: "runtime \<Rightarrow> cmd_ctx \<Rightarrow> io_handle \<Rightarrow> nat \<Rightarrow> unit io_act" where
  "head_lines rt c h n =
     each_line rt h
       (\<lambda>l k. if k \<ge> n then act_ret (Ok (Inr ()))
          else act_try (stdout_all rt c (l @ [newline])) (\<lambda>_. act_ret (Ok (Inl (k + 1)))))
       (\<lambda>p k. if p \<noteq> [] \<and> k < n then write_ended rt c p else ok_unit) 0"

definition head_handle :: "runtime \<Rightarrow> cmd_ctx \<Rightarrow> io_handle \<Rightarrow> part_options \<Rightarrow> unit io_act" where
  "head_handle rt c h x =
     (case part_bytes x of
        Some n \<Rightarrow> head_bytes rt c h n
      | None \<Rightarrow> (case part_lines x of Some n \<Rightarrow> head_lines rt c h n | None \<Rightarrow> ok_unit))"

definition run_head :: "'p lexopt \<Rightarrow> runtime \<Rightarrow> cmd_ctx \<Rightarrow> (world, task_result) act" where
  "run_head L rt c = with_options L (head_option L) no_part [] rt c (run_part ''head'' (head_handle rt c) rt c)"

text \<open>The ring buffer: when it is full, the oldest goes before the next one comes.\<close>

definition ring_push :: "nat \<Rightarrow> 'a \<Rightarrow> 'a list \<Rightarrow> 'a list" where
  "ring_push n x xs = (if length xs \<ge> n then drop 1 xs else xs) @ [x]"

definition tail_bytes :: "runtime \<Rightarrow> cmd_ctx \<Rightarrow> io_handle \<Rightarrow> nat \<Rightarrow> unit io_act" where
  "tail_bytes rt c h n =
     act_try (each_block rt h (\<lambda>b ring. act_ret (Ok (fold (ring_push n) b ring))) [])
       (\<lambda>ring. stdout_all rt c ring)"

definition tail_lines :: "runtime \<Rightarrow> cmd_ctx \<Rightarrow> io_handle \<Rightarrow> nat \<Rightarrow> unit io_act" where
  "tail_lines rt c h n =
     act_try (each_line rt h
         (\<lambda>l ring. act_ret (Ok (Inl (ring_push n (l @ [newline]) ring))))
         (\<lambda>p ring. act_ret (Ok (if p = [] then ring else ring_push n p ring))) [])
       (\<lambda>ring. act_fold (\<lambda>l _. write_ended rt c l) ring ())"

definition tail_handle :: "runtime \<Rightarrow> cmd_ctx \<Rightarrow> io_handle \<Rightarrow> part_options \<Rightarrow> unit io_act" where
  "tail_handle rt c h x =
     (case part_bytes x of
        Some n \<Rightarrow> tail_bytes rt c h n
      | None \<Rightarrow> (case part_lines x of Some n \<Rightarrow> tail_lines rt c h n | None \<Rightarrow> ok_unit))"

definition run_tail :: "'p lexopt \<Rightarrow> runtime \<Rightarrow> cmd_ctx \<Rightarrow> (world, task_result) act" where
  "run_tail L rt c = with_options L (tail_option L) no_part [] rt c (run_part ''tail'' (tail_handle rt c) rt c)"

section \<open>wc\<close>

record counts =
  count_lines :: nat
  count_words :: nat
  count_bytes :: nat
  count_chars :: nat

definition no_counts :: counts where
  "no_counts = \<lparr>count_lines = 0, count_words = 0, count_bytes = 0, count_chars = 0\<rparr>"

definition add_counts :: "counts \<Rightarrow> counts \<Rightarrow> counts" where
  "add_counts a b =
     \<lparr>count_lines = count_lines a + count_lines b, count_words = count_words a + count_words b,
      count_bytes = count_bytes a + count_bytes b, count_chars = count_chars a + count_chars b\<rparr>"

definition is_blank_byte :: "u8 \<Rightarrow> bool" where
  "is_blank_byte b = (b = 0x20 \<or> b = 0x09 \<or> b = 0x0A \<or> b = 0x0C \<or> b = 0x0D)"

definition count_byte :: "u8 \<Rightarrow> counts \<times> bool \<Rightarrow> counts \<times> bool" where
  "count_byte b = (\<lambda>(n, in_word).
     let n = (if b = newline then n\<lparr>count_lines := count_lines n + 1\<rparr> else n);
         n = (if and b 0xC0 \<noteq> 0x80 then n\<lparr>count_chars := count_chars n + 1\<rparr> else n)
     in if in_word \<and> is_blank_byte b then (n, False)
        else if \<not> in_word \<and> \<not> is_blank_byte b then (n\<lparr>count_words := count_words n + 1\<rparr>, True)
        else (n, in_word))"

definition count_block :: "bytes \<Rightarrow> counts \<times> bool \<Rightarrow> counts \<times> bool" where
  "count_block b = (\<lambda>(n, in_word). fold count_byte b (n\<lparr>count_bytes := count_bytes n + length b\<rparr>, in_word))"

definition count_handle :: "runtime \<Rightarrow> io_handle \<Rightarrow> counts io_act" where
  "count_handle rt h =
     act_try (each_block rt h (\<lambda>b x. act_ret (Ok (count_block b x))) (no_counts, False)) (\<lambda>x. act_ret (Ok (fst x)))"

record wc_options =
  wc_lines :: bool
  wc_words :: bool
  wc_bytes :: bool
  wc_chars :: bool
  wc_files :: "string list"

definition wc_option :: "('p, wc_options) option_reader" where
  "wc_option a x p =
     (case a of
        ShortOpt s \<Rightarrow>
          (if s = ''l'' then Some (x\<lparr>wc_lines := True\<rparr>)
           else if s = ''w'' then Some (x\<lparr>wc_words := True\<rparr>)
           else if s = ''c'' then Some (x\<lparr>wc_bytes := True\<rparr>)
           else if s = ''m'' then Some (x\<lparr>wc_chars := True\<rparr>)
           else Some x, p)
      | LongOpt s \<Rightarrow> (Some x, p)
      | ValueArg v \<Rightarrow> (Some (x\<lparr>wc_files := wc_files x @ [v]\<rparr>), p))"

definition wc_default :: "wc_options \<Rightarrow> wc_options" where
  "wc_default x =
     (if \<not> wc_lines x \<and> \<not> wc_words x \<and> \<not> wc_bytes x \<and> \<not> wc_chars x
      then x\<lparr>wc_lines := True, wc_words := True, wc_bytes := True\<rparr> else x)"

definition counts_line :: "wc_options \<Rightarrow> counts \<Rightarrow> string option \<Rightarrow> string" where
  "counts_line x n name =
     (let part = (\<lambda>on k. if on then [pad_left CHR '' '' 7 (show_nat k)] else [])
      in join_on CHR '' '' (part (wc_lines x) (count_lines n) @ part (wc_words x) (count_words n) @
             part (wc_chars x) (count_chars n) @ part (wc_bytes x) (count_bytes n)) @
         (case name of None \<Rightarrow> [] | Some f \<Rightarrow> '' '' @ f))"

definition output_counts :: "runtime \<Rightarrow> cmd_ctx \<Rightarrow> wc_options \<Rightarrow> counts \<Rightarrow> string option \<Rightarrow> unit io_act" where
  "output_counts rt c x n name = ctx_println rt c (counts_line x n name)"

definition wc_file :: "runtime \<Rightarrow> cmd_ctx \<Rightarrow> wc_options \<Rightarrow> string \<Rightarrow> counts \<Rightarrow> (counts + exit) io_act" where
  "wc_file rt c x f acc =
     with_input rt c ''wc'' f (Inr (exit_with 1)) (\<lambda>h.
       act_try (count_handle rt h) (\<lambda>n.
       act_try (output_counts rt c x n (Some f)) (\<lambda>_. act_ret (Ok (Inl (add_counts acc n))))))"

definition run_wc :: "'p lexopt \<Rightarrow> runtime \<Rightarrow> cmd_ctx \<Rightarrow> (world, task_result) act" where
  "run_wc L rt c =
     with_options L wc_option
       \<lparr>wc_lines = False, wc_words = False, wc_bytes = False, wc_chars = False, wc_files = []\<rparr> [] rt c
       (\<lambda>x. let x = wc_default x in
          if wc_files x = [] then
            act_try (count_handle rt (ctx_stdin c)) (\<lambda>n.
            act_try (output_counts rt c x n None) (\<lambda>_. flush_exit rt c 0))
          else
            or_exit (each_file (wc_file rt c x) (wc_files x) no_counts) (\<lambda>acc.
              act_try (if length (wc_files x) > 1 then output_counts rt c x acc (Some ''total'') else ok_unit)
                (\<lambda>_. flush_exit rt c 0)))"

end
