(* ===== verification/TextSound.thy ===== *)
theory TextSound
  imports TextCmds CmdSound
begin

text \<open>
  What \<open>cat\<close>, \<open>head\<close>, \<open>tail\<close> and \<open>wc\<close> write for a text, however it arrives. \<open>tail\<close> with the number zero
  still writes the last line or byte.
\<close>

section \<open>Writing\<close>

lemma emits_fold:
  assumes "\<And>x. x \<in> set xs \<Longrightarrow> emits I inp out (f x ()) (g x) (Inr ())"
  shows "emits I inp out (act_fold f xs ()) (concat (map g xs)) (Inr ())"
  using assms
proof (induction xs)
  case (Cons x xs)
  from emits_try [OF Cons.prems [of x], of "\<lambda>_. act_fold f xs ()"] Cons show ?case
    by (simp add: act_try_def)
qed (simp add: emits_ret)

section \<open>The ring buffer\<close>

lemma ring_push_drop: "ring_push n x (drop (length xs - max 1 n) xs) = drop (length (xs @ [x]) - max 1 n) (xs @ [x])"
  by (cases n) (auto simp: ring_push_def Suc_diff_le max_def drop_Suc tl_drop Suc_diff_Suc)

lemma ring_fold: "fold (ring_push n) xs [] = drop (length xs - max 1 n) xs"
proof (induction xs rule: rev_induct)
  case (snoc x xs)
  then show ?case by (simp only: fold_append fold.simps comp_apply id_apply ring_push_drop)
qed simp

lemma map_ring_push: "map f (ring_push n x xs) = ring_push n (f x) (map f xs)"
  by (simp add: ring_push_def drop_map)

text \<open>A loop that writes nothing.\<close>

lemma text_fold_silent:
  assumes "\<And>l x. fst (g l x) = []" "\<And>p x. fst (h p x) = []"
  shows "fst (text_fold g h t x) = []"
proof (induction "length t" arbitrary: t x rule: less_induct)
  case less
  show ?case
  proof (cases "split_line t")
    case None
    with assms(2) show ?thesis by (subst text_fold.simps) simp
  next
    case (Some p)
    obtain l r where p: "p = (l, r)" by fastforce
    obtain y where y: "g l x = ([], y)" using assms(1) [of l x] by (metis prod.collapse)
    note s = length_split_line [of t l r] Some [unfolded p]
    with less [of r] y show ?thesis by (subst text_fold.simps) (simp split: sum.split)
  qed
qed

section \<open>Counting\<close>

text \<open>The places where a word starts.\<close>

definition word_starts :: "bytes \<Rightarrow> nat set" where
  "word_starts t = {i. i < length t \<and> \<not> is_blank_byte (t ! i) \<and> (i = 0 \<or> is_blank_byte (t ! (i - 1)))}"

definition counts_of :: "bytes \<Rightarrow> counts" where
  "counts_of t =
     \<lparr>count_lines = length (filter (\<lambda>b. b = newline) t), count_words = card (word_starts t),
      count_bytes = length t, count_chars = length (filter (\<lambda>b. and b 0xC0 \<noteq> 0x80) t)\<rparr>"

definition in_word_at :: "bytes \<Rightarrow> bool" where
  "in_word_at t \<longleftrightarrow> t \<noteq> [] \<and> \<not> is_blank_byte (last t)"

lemma word_starts_snoc:
  "word_starts (t @ [b]) = word_starts t \<union> (if \<not> is_blank_byte b \<and> \<not> in_word_at t then {length t} else {})"
proof -
  have "i \<in> word_starts (t @ [b]) \<longleftrightarrow> i \<in> word_starts t" if "i < length t" for i
    using that by (auto simp: word_starts_def nth_append)
  moreover have "length t \<in> word_starts (t @ [b]) \<longleftrightarrow> \<not> is_blank_byte b \<and> \<not> in_word_at t"
    by (cases t rule: rev_cases) (auto simp: word_starts_def in_word_at_def nth_append)
  moreover have "i \<le> length t" if "i \<in> word_starts (t @ [b])" for i
    using that by (auto simp: word_starts_def)
  moreover have "i < length t" if "i \<in> word_starts t" for i using that by (simp add: word_starts_def)
  ultimately show ?thesis by (auto simp: order.order_iff_strict split: if_splits)
qed

lemma card_word_starts_snoc:
  "card (word_starts (t @ [b])) = card (word_starts t) + (if \<not> is_blank_byte b \<and> \<not> in_word_at t then 1 else 0)"
proof -
  have "finite (word_starts t)" "length t \<notin> word_starts t" by (auto simp: word_starts_def)
  then show ?thesis by (simp add: word_starts_snoc)
qed

lemma count_byte_snoc:
  "count_byte b (counts_of t\<lparr>count_bytes := n\<rparr>, in_word_at t) = (counts_of (t @ [b])\<lparr>count_bytes := n\<rparr>, in_word_at (t @ [b]))"
  by (auto simp: count_byte_def counts_of_def card_word_starts_snoc Let_def in_word_at_def)

lemma count_block_append:
  "count_block b (counts_of t, in_word_at t) = (counts_of (t @ b), in_word_at (t @ b))"
proof -
  have "fold count_byte b (counts_of t\<lparr>count_bytes := n\<rparr>, in_word_at t) =
      (counts_of (t @ b)\<lparr>count_bytes := n\<rparr>, in_word_at (t @ b))" for n
  proof (induction b arbitrary: t)
    case (Cons x b)
    from Cons [of "t @ [x]"] show ?case by (simp add: count_byte_snoc)
  qed simp
  from this [of "length (t @ b)"] show ?thesis by (simp add: count_block_def counts_of_def)
qed

lemma count_byte_total: "count_byte b (n\<lparr>count_bytes := m\<rparr>, v) = apfst (count_bytes_update (\<lambda>_. m)) (count_byte b (n, v))"
  by (simp add: count_byte_def Let_def)

lemma count_bytes_total:
  "fold count_byte t (n\<lparr>count_bytes := m\<rparr>, v) = apfst (count_bytes_update (\<lambda>_. m)) (fold count_byte t (n, v))"
proof (induction t arbitrary: n v)
  case (Cons b t)
  obtain n' v' where "count_byte b (n, v) = (n', v')" by fastforce
  with Cons show ?case by (simp add: count_byte_total)
qed simp

lemma count_bytes_fold: "count_bytes (fst (fold count_byte t x)) = count_bytes (fst x)"
proof (induction t arbitrary: x)
  case (Cons b t)
  have "count_bytes (fst (count_byte b x)) = count_bytes (fst x)"
    by (cases x) (simp add: count_byte_def Let_def)
  with Cons show ?case by simp
qed simp

lemma count_block_comp: "count_block (b @ t) x = count_block t (count_block b x)"
proof -
  obtain n v where x: "x = (n, v)" by fastforce
  obtain n' v' where y: "fold count_byte b (n, v) = (n', v')" by fastforce
  with count_bytes_fold [of b "(n, v)"] have "count_bytes n' = count_bytes n" by simp
  with x y show ?thesis
    by (cases "fold count_byte t (n', v')") (simp add: count_block_def count_bytes_total add.assoc)
qed

section \<open>The loops\<close>

context text_io
begin

lemma stdout_emits: "ctx_stdout c = dst \<Longrightarrow> emits I inp out (stdout_all rt c d) d (Inr ())"
  by (simp add: stdout_all_def writes)

lemma println_emits:
  assumes "ctx_stdout c = dst"
  shows "emits I inp out (ctx_println rt c s) (ascii s @ [newline]) (Inr ())"
  unfolding ctx_println_def write_line_def assms by (rule emits_try [OF writes writes])

lemma flush_exit_emits: "ctx_stdout c = dst \<Longrightarrow> emits I inp out (flush_exit rt c n) [] (Inr (exit_with n))"
  using emits_go_on [OF flushes, of "\<lambda>_. exit_with n"] by (simp add: flush_exit_def ok_exit_def)

lemma write_ended_emits:
  assumes "ctx_stdout c = dst"
  shows "emits I inp out (write_ended rt c l) (if l \<noteq> [] \<and> last l = newline then l else l @ [newline]) (Inr ())"
proof (cases "l \<noteq> [] \<and> last l = newline")
  case True
  have "emits I inp out (act_try (stdout_all rt c l) (\<lambda>_. ok_unit)) (l @ []) (Inr ())"
    by (rule emits_try [OF stdout_emits [OF assms]]) (simp add: ok_unit_def emits_ret)
  with True show ?thesis by (simp add: write_ended_def)
next
  case False
  have "emits I inp out (act_try (stdout_all rt c l) (\<lambda>_. stdout_all rt c [newline])) (l @ [newline]) (Inr ())"
    by (rule emits_try [OF stdout_emits [OF assms] stdout_emits [OF assms]])
  with False show ?thesis by (simp only: write_ended_def if_False)
qed

lemma cat_filters:
  assumes "ctx_stdout c = dst"
  shows "filters I inp out (cat_handle rt c src False False k) t t (Inr k)"
proof -
  have "filters I inp out (each_block rt src (\<lambda>b k. act_try (stdout_all rt c b) (\<lambda>_. act_ret (Inr k))) k) t
      (fst ((\<lambda>t k. (t, k)) t k)) (Inr (snd ((\<lambda>t k. (t, k)) t k)))"
    by (rule each_block_filters [where S = "\<lambda>b k. (b, k)"])
      (use emits_go_on [OF stdout_emits [OF assms]] in \<open>simp_all add: act_ret_eta\<close>)
  then show ?thesis by (simp add: cat_handle_def)
qed

lemma count_filters: "filters I inp out (count_handle rt src) t [] (Inr (counts_of t))"
proof -
  let ?F = "\<lambda>t x. ([] :: bytes, count_block t x)"
  have "filters I inp out (each_block rt src (\<lambda>b x. act_ret (Inr (count_block b x))) (no_counts, False)) t
      (fst (?F t (no_counts, False))) (Inr (snd (?F t (no_counts, False))))"
    by (rule each_block_filters [where S = ?F])
      (auto simp: emits_ret act_ret_eta count_block_comp, simp add: count_block_def)
  moreover have "count_block t (no_counts, False) = (counts_of t, in_word_at t)"
    using count_block_append [of t "[]"] by (simp add: counts_of_def no_counts_def in_word_at_def word_starts_def)
  ultimately have "filters I inp out (each_block rt src (\<lambda>b x. act_ret (Inr (count_block b x))) (no_counts, False)) t
      [] (Inr (counts_of t, in_word_at t))" by simp
  from filters_go_on [OF this, of fst] show ?thesis by (simp only: count_handle_def fst_conv)
qed

lemma head_lines_filters:
  assumes "ctx_stdout c = dst"
  shows "filters I inp out (head_lines rt c src n) t (join_lines (take n (text_lines t))) (Inr ())"
proof -
  let ?g = "\<lambda>l k. if k \<ge> n then ([], Inr ()) else (l @ [newline], Inl (k + 1))"
  let ?h = "\<lambda>p k. (if p \<noteq> [] \<and> k < n then p @ [newline] else [], ())"
  have fold: "fst (text_fold ?g ?h t k) = join_lines (take (n - k) (text_lines t))" for k
  proof (induction "length t" arbitrary: t k rule: less_induct)
    case less
    show ?case
    proof (cases "split_line t")
      case None
      then have "newline \<notin> set t" by (simp add: split_line_None)
      then show ?thesis by (cases "n - k") auto
    next
      case (Some p)
      obtain l r where p: "p = (l, r)" by fastforce
      note s = split_line_Some [of t l r] length_split_line [of t l r] Some [unfolded p]
      show ?thesis
      proof (cases "k \<ge> n")
        case False
        then have "n - k = Suc (n - (k + 1))" by simp
        with False less [of r "k + 1"] s show ?thesis by (subst text_fold.simps) simp
      qed (use s in \<open>subst text_fold.simps, simp\<close>)
    qed
  qed
  have "filters I inp out (head_lines rt c src n) t (fst (text_fold ?g ?h t 0)) (Inr (snd (text_fold ?g ?h t 0)))"
    unfolding head_lines_def
  proof (rule each_line_filters, goal_cases)
    case (1 l k)
    from emits_go_on [OF stdout_emits [OF assms], of "l @ [newline]" "\<lambda>_. Inl (k + 1) :: nat + unit"]
    show ?case by (simp add: emits_ret act_ret_eta)
  next
    case (2 p k)
    have "p \<noteq> [] \<Longrightarrow> last p \<noteq> newline" using 2 last_in_set by metis
    with write_ended_emits [OF assms, of p] show ?case by (auto simp: ok_unit_def emits_ret)
  qed
  with fold [of 0] show ?thesis by simp
qed

lemma head_bytes_filters:
  assumes "ctx_stdout c = dst"
  shows "filters I inp out (head_bytes rt c src n) t (take n t) (Inr ())"
proof (cases "n = 0")
  case True
  then show ?thesis by (simp add: head_bytes_def ok_unit_def emits_filters emits_ret)
next
  case False
  let ?S = "\<lambda>b r. (b, if r - length b > 0 then Inl (r - length b) else Inr ())"
  have "filters I inp out (read_loop rt src (\<lambda>r. min r block_size)
        (\<lambda>b r. act_try (stdout_all rt c b)
           (\<lambda>_. act_ret (Inr (if r - length b > 0 then Inl (r - length b) else Inr ()))))
        (\<lambda>_. ok_unit) n) t (fst ((\<lambda>t r. (take r t, ())) t n)) (Inr (snd ((\<lambda>t r. (take r t, ())) t n)))"
  proof (rule read_loop_filters [where G = "\<lambda>r. 0 < r" and S = ?S], goal_cases)
    case (1 b r)
    from emits_go_on [OF stdout_emits [OF assms], of b "\<lambda>_. Inl (r - length b) :: nat + unit"]
      emits_go_on [OF stdout_emits [OF assms], of b "\<lambda>_. Inr () :: nat + unit"]
    show ?case by (simp add: act_ret_eta)
  qed (use False in \<open>auto simp: ok_unit_def emits_ret act_ret_eta block_size_def split: if_splits\<close>)
  with False show ?thesis by (simp add: head_bytes_def)
qed

lemma tail_bytes_filters:
  assumes "ctx_stdout c = dst"
  shows "filters I inp out (tail_bytes rt c src n) t (drop (length t - max 1 n) t) (Inr ())"
proof -
  let ?F = "\<lambda>t x. ([] :: bytes, fold (ring_push n) t x)"
  have "filters I inp out (each_block rt src (\<lambda>b ring. act_ret (Inr (fold (ring_push n) b ring))) []) t
      (fst (?F t [])) (Inr (snd (?F t [])))"
    by (rule each_block_filters [where S = ?F]) (auto simp: emits_ret act_ret_eta)
  then have "filters I inp out (each_block rt src (\<lambda>b ring. act_ret (Inr (fold (ring_push n) b ring))) []) t
      [] (Inr (drop (length t - max 1 n) t))" by (simp only: ring_fold fst_conv snd_conv)
  from filters_try [OF this stdout_emits [OF assms]] show ?thesis by (simp add: tail_bytes_def)
qed

lemma tail_lines_filters:
  assumes "ctx_stdout c = dst"
  shows "filters I inp out (tail_lines rt c src n) t
    (join_lines (drop (length (text_lines t) - max 1 n) (text_lines t))) (Inr ())"
proof -
  let ?g = "\<lambda>l ring. ([] :: bytes, Inl (ring_push n (l @ [newline]) ring))"
  let ?h = "\<lambda>p ring. ([] :: bytes, if p = [] then ring else ring_push n p ring)"
  let ?ended = "\<lambda>l. if l \<noteq> [] \<and> last l = newline then l else l @ [newline]"
  have silent: "fst (text_fold ?g ?h t ring) = []" for ring
    by (rule text_fold_silent) auto
  have fold: "map ?ended (snd (text_fold ?g ?h t ring)) =
      fold (ring_push n) (map (\<lambda>l. l @ [newline]) (text_lines t)) (map ?ended ring)" for ring
  proof (induction "length t" arbitrary: t ring rule: less_induct)
    case less
    show ?case
    proof (cases "split_line t")
      case None
      then have "newline \<notin> set t" by (simp add: split_line_None)
      moreover from this have "t \<noteq> [] \<Longrightarrow> last t \<noteq> newline" using last_in_set by metis
      ultimately show ?thesis by (auto simp: map_ring_push)
    next
      case (Some p)
      obtain l r where p: "p = (l, r)" by fastforce
      note s = split_line_Some [of t l r] length_split_line [of t l r] Some [unfolded p]
      with less [of r "ring_push n (l @ [newline]) ring"] show ?thesis
        by (subst text_fold.simps) (simp add: map_ring_push)
    qed
  qed
  let ?ring = "snd (text_fold ?g ?h t [])"
  have "filters I inp out (each_line rt src (\<lambda>l ring. act_ret (Inr (Inl (ring_push n (l @ [newline]) ring))))
      (\<lambda>p ring. act_ret (Inr (if p = [] then ring else ring_push n p ring))) []) t (fst (text_fold ?g ?h t [])) (Inr ?ring)"
    by (rule each_line_filters) (auto simp: emits_ret act_ret_eta)
  from filters_try [OF this [unfolded silent], of "\<lambda>ring. act_fold (\<lambda>l _. write_ended rt c l) ring ()",
      OF emits_fold [of ?ring I inp out _ ?ended, OF write_ended_emits [OF assms]]]
  have "filters I inp out (tail_lines rt c src n) t (concat (map ?ended ?ring)) (Inr ())"
    by (simp add: tail_lines_def)
  moreover have "concat (map ?ended ?ring) = join_lines (drop (length (text_lines t) - max 1 n) (text_lines t))"
    using fold [of "[]"] by (simp add: ring_fold join_lines_def drop_map)
  ultimately show ?thesis by simp
qed

end

section \<open>Properties\<close>

text \<open>The commands of the examples read the first buffer and write the second.\<close>

definition sample_ctx :: "string list \<Rightarrow> cmd_ctx" where
  "sample_ctx argv =
     \<lparr>ctx_argv = argv, ctx_stdin = BufferHandle 0, ctx_stdout = BufferHandle 1, ctx_stderr = BufferHandle 1,
      ctx_cwd = ''/workspace'', ctx_env = [], ctx_tools = False\<rparr>"

definition sample_world :: "bytes \<Rightarrow> world" where
  "sample_world t = (empty_world vfs_new)\<lparr>w_buffers := [(t, 0), ([], 0)]\<rparr>"

lemma sample_io [simp]:
  "ctx_argv (sample_ctx argv) = argv" "ctx_stdin (sample_ctx argv) = BufferHandle 0"
  "ctx_stdout (sample_ctx argv) = BufferHandle (Suc 0)" "two_buffers 0 (Suc 0) (sample_world t)"
  "buffer_rest 0 (sample_world t) = t" "buffer_text (Suc 0) (sample_world t) = []"
  "prints_to vfs_new (Suc 0) (sample_world t)"
  by (simp_all add: sample_ctx_def sample_world_def two_buffers_def buffer_end_def buffer_rest_def buffer_text_def
      prints_to_def empty_world_def)

text \<open>\<open>cat\<close> with file operands writes the contents of the files one after the other, byte for byte,
  returns zero and leaves the files as they are.\<close>

theorem cat_concatenates:
  assumes "read_options L cat_option \<lparr>cat_number = False, cat_nonblank = False, cat_files = []\<rparr> c =
      Some (Some \<lparr>cat_number = False, cat_nonblank = False, cat_files = fs\<rparr>)"
    and "fs \<noteq> []" "\<And>f. f \<in> set fs \<Longrightarrow> f \<noteq> ''-'' \<and> plain_file (w_vfs w) (ctx_resolve c f) (bs f)"
    and "ctx_stdout c = BufferHandle j" "buffer_end j w"
  shows "\<exists>w'. run_cat L rt c w = Some (Ok (exit_with 0), w') \<and> w_vfs w' = w_vfs w \<and>
    buffer_text j w' = buffer_text j w @ concat (map bs fs)"
proof -
  let ?f = "\<lambda>f k. with_input rt c ''cat'' f (Inr (exit_with 1)) (\<lambda>h. go_on (cat_handle rt c h False False k))"
  have "writes_to (w_vfs w) j (?f f k) (bs f) (Inr (Inl k))" if "f \<in> set fs" for f k
    using assms(3) [OF that] filters_go_on [OF file_io.cat_filters [OF assms(4)]]
    by (intro with_input_writes) (auto simp: go_on_def)
  note single = this
  have each: "writes_to (w_vfs w) j (each_file ?f fs k) (concat (map bs fs)) (Inr (Inl k))" for k
  proof -
    have "fold (\<lambda>f (d, x). (d @ bs f, x)) fs (e, k) = (e @ concat (map bs fs), k)" for e
      by (induction fs arbitrary: e) auto
    with each_file_writes [of fs "w_vfs w" j ?f "\<lambda>f k. bs f" "\<lambda>f k. k" k, OF single] show ?thesis by simp
  qed
  have exit: "writes_to (w_vfs w) j (flush_exit rt c 0) [] (Inr (exit_with 0))"
    by (simp add: flush_exit_def assms(4) io_flush_def ok_exit_def emits_def)
  have "writes_to (w_vfs w) j (or_exit (each_file ?f fs 1) (\<lambda>_. flush_exit rt c 0))
      (concat (map bs fs) @ []) (Inr (exit_with 0))"
    unfolding or_exit_def by (rule emits_try [OF each]) (simp add: exit)
  with assms(5) obtain w' where "or_exit (each_file ?f fs 1) (\<lambda>_. flush_exit rt c 0) w = Some (Inr (exit_with 0), w')"
    "w_vfs w' = w_vfs w" "buffer_text j w' = buffer_text j w @ concat (map bs fs)"
    by (auto simp: emits_def prints_to_def)
  with with_options_run [OF assms(1), of _ w "Inr (exit_with 0)" w'] assms(2) show ?thesis
    by (auto simp: run_cat_def)
qed

theorem cat_concatenates_witness:
  "\<exists>w'. run_cat plain_lexopt alone (sample_ctx [''cat'', ''README.md'', ''/workspace/README.md'']) (sample_world []) =
      Some (Ok (exit_with 0), w') \<and> buffer_text 1 w' = readme @ readme"
proof -
  let ?c = "sample_ctx [''cat'', ''README.md'', ''/workspace/README.md'']"
  have "read_options plain_lexopt cat_option \<lparr>cat_number = False, cat_nonblank = False, cat_files = []\<rparr> ?c =
      Some (Some \<lparr>cat_number = False, cat_nonblank = False, cat_files = [''README.md'', ''/workspace/README.md'']\<rparr>)"
    "plain_file vfs_new (ctx_resolve ?c ''README.md'') readme"
    "plain_file vfs_new (ctx_resolve ?c ''/workspace/README.md'') readme" by code_simp+
  with cat_concatenates [of plain_lexopt ?c "[''README.md'', ''/workspace/README.md'']" "sample_world []" "\<lambda>_. readme" 1 alone]
  show ?thesis using sample_io(4,6,7) by (auto simp: prints_to_def)
qed

text \<open>\<open>head -n k\<close> writes the first \<open>k\<close> lines of its input and \<open>tail -n k\<close> the last \<open>k\<close>, each with a
  newline, for every \<open>k\<close> but zero: \<open>tail -n 0\<close> writes the last line.\<close>

theorem head_tail_exact:
  assumes "read_options H (head_option H) no_part c = Some (Some (set_lines no_part k))"
    and "read_options T (tail_option T) no_part d = Some (Some (set_lines no_part k))"
    and "ctx_stdin c = BufferHandle i" "ctx_stdout c = BufferHandle j"
    and "ctx_stdin d = BufferHandle i" "ctx_stdout d = BufferHandle j" "two_buffers i j w"
  shows "\<exists>u v. run_head H rt c w = Some (Ok (exit_with 0), u) \<and> run_tail T rt d w = Some (Ok (exit_with 0), v) \<and>
    (let ls = text_lines (buffer_rest i w) in
       buffer_text j u = buffer_text j w @ join_lines (take k ls) \<and>
       buffer_text j v = buffer_text j w @ join_lines (drop (length ls - max 1 k) ls))"
proof -
  let ?t = "buffer_rest i w" and ?x = "set_lines no_part k"
  have exit: "\<exists>w'. run_part name body rt c ?x w = Some (Inr (exit_with 0), w') \<and> buffer_text j w' = buffer_text j w @ e"
    if "ctx_stdin c = BufferHandle i" "ctx_stdout c = BufferHandle j"
      "filters (two_buffers i j) (buffer_rest i) (buffer_text j) (body (BufferHandle i) ?x) ?t e (Inr ())"
    for name body c and e :: bytes
  proof -
    have "filters (two_buffers i j) (buffer_rest i) (buffer_text j)
        (act_try (act_try (body (BufferHandle i) ?x) (\<lambda>_. act_ret (Inr (Inl True))))
          (case_sum (\<lambda>_. flush_exit rt c 0) (\<lambda>e. act_ret (Inr e)))) ?t (e @ []) (Inr (exit_with 0))"
      by (rule filters_try [OF filters_go_on [OF that(3)]]) (simp add: buffer_io.flush_exit_emits that(2))
    then have "filters (two_buffers i j) (buffer_rest i) (buffer_text j) (run_part name body rt c ?x) ?t e (Inr (exit_with 0))"
      by (simp add: run_part_def or_exit_def default_lines_def set_lines_def no_part_def that(1))
    with assms(7) show ?thesis by (auto simp: filters_def)
  qed
  obtain u where u: "run_part ''head'' (head_handle rt c) rt c ?x w = Some (Inr (exit_with 0), u)"
    "buffer_text j u = buffer_text j w @ join_lines (take k (text_lines ?t))"
    using exit [of c "head_handle rt c" "join_lines (take k (text_lines ?t))" "''head''"] assms(3,4)
      buffer_io.head_lines_filters [OF assms(4), of i rt k ?t]
    by (auto simp: head_handle_def set_lines_def no_part_def)
  obtain v where v: "run_part ''tail'' (tail_handle rt d) rt d ?x w = Some (Inr (exit_with 0), v)"
    "buffer_text j v = buffer_text j w @ join_lines (drop (length (text_lines ?t) - max 1 k) (text_lines ?t))"
    using exit [of d "tail_handle rt d" "join_lines (drop (length (text_lines ?t) - max 1 k) (text_lines ?t))" "''tail''"] assms(5,6)
      buffer_io.tail_lines_filters [OF assms(6), of i rt k ?t]
    by (auto simp: tail_handle_def set_lines_def no_part_def)
  have "run_head H rt c w = Some (Ok (exit_with 0), u)"
    using with_options_run [where m = "run_part ''head'' (head_handle rt c) rt c", OF assms(1) u(1)]
    by (simp add: run_head_def)
  moreover have "run_tail T rt d w = Some (Ok (exit_with 0), v)"
    using with_options_run [where m = "run_part ''tail'' (tail_handle rt d) rt d", OF assms(2) v(1)]
    by (simp add: run_tail_def)
  ultimately show ?thesis using u(2) v(2) by (auto simp: Let_def)
qed

theorem head_tail_exact_witness:
  "\<exists>u v. run_head plain_lexopt alone (sample_ctx [''head'', ''-n'', ''1'']) (sample_world [97, 10, 98]) = Some (Ok (exit_with 0), u) \<and>
     run_tail plain_lexopt alone (sample_ctx [''tail'', ''-n'', ''1'']) (sample_world [97, 10, 98]) = Some (Ok (exit_with 0), v) \<and>
     buffer_text 1 u = [97, 10] \<and> buffer_text 1 v = [98, 10]"
proof -
  let ?h = "sample_ctx [''head'', ''-n'', ''1'']" and ?t = "sample_ctx [''tail'', ''-n'', ''1'']"
  have "read_options plain_lexopt (head_option plain_lexopt) no_part ?h = Some (Some (set_lines no_part 1))"
    "read_options plain_lexopt (tail_option plain_lexopt) no_part ?t = Some (Some (set_lines no_part 1))" by code_simp+
  note exact = head_tail_exact [OF this, of 0 1 "sample_world [97, 10, 98]" alone]
  have "text_lines [97, 10, 98] = [[97], [98]]" "newline = 10" by code_simp+
  with exact show ?thesis by simp
qed

text \<open>\<open>wc\<close> prints for its input the numbers of newlines, of words, of characters and of bytes that the
  options ask for, in this order: a word starts at a byte that is no blank and has none before it, a
  character at a byte that continues none.\<close>

theorem wc_exact:
  assumes "read_options L wc_option
      \<lparr>wc_lines = False, wc_words = False, wc_bytes = False, wc_chars = False, wc_files = []\<rparr> c = Some (Some x)"
    and "wc_files x = []" "ctx_stdin c = BufferHandle i" "ctx_stdout c = BufferHandle j" "two_buffers i j w"
  shows "\<exists>w'. run_wc L rt c w = Some (Ok (exit_with 0), w') \<and> buffer_text j w' =
    buffer_text j w @ ascii (counts_line (wc_default x) (counts_of (buffer_rest i w)) None) @ [newline]"
proof -
  let ?n = "counts_of (buffer_rest i w)"
  have "emits (two_buffers i j) (buffer_rest i) (buffer_text j)
      (act_try (output_counts rt c (wc_default x) ?n None) (\<lambda>_. flush_exit rt c 0))
      ((ascii (counts_line (wc_default x) ?n None) @ [newline]) @ []) (Inr (exit_with 0))"
    unfolding output_counts_def by (rule emits_try [OF buffer_io.println_emits buffer_io.flush_exit_emits]) (rule assms(4))+
  from filters_try [where f = "\<lambda>n. act_try (output_counts rt c (wc_default x) n None) (\<lambda>_. flush_exit rt c 0)",
      OF buffer_io.count_filters this] assms(5) obtain w' where
    "act_try (count_handle rt (BufferHandle i)) (\<lambda>n. act_try (output_counts rt c (wc_default x) n None) (\<lambda>_. flush_exit rt c 0)) w =
      Some (Inr (exit_with 0), w')"
    "buffer_text j w' = buffer_text j w @ ascii (counts_line (wc_default x) ?n None) @ [newline]"
    by (fastforce simp: filters_def)
  moreover have "wc_files (wc_default x) = []" by (simp add: wc_default_def assms(2))
  ultimately show ?thesis
    using with_options_run [OF assms(1), of _ w "Inr (exit_with 0)" w'] assms(3) by (simp add: run_wc_def Let_def)
qed

theorem wc_exact_witness:
  "\<exists>w'. run_wc plain_lexopt alone (sample_ctx [''wc'', ''-w'', ''-m'']) (sample_world (ascii ''two words'' @ [0xC3, 0xA9, 10])) =
      Some (Ok (exit_with 0), w') \<and> buffer_text 1 w' = ascii ''      2      11'' @ [10]"
proof -
  let ?c = "sample_ctx [''wc'', ''-w'', ''-m'']" and ?t = "ascii ''two words'' @ [0xC3, 0xA9, 10]"
  let ?x = "\<lparr>wc_lines = False, wc_words = True, wc_bytes = False, wc_chars = True, wc_files = []\<rparr>"
  have "read_options plain_lexopt wc_option
      \<lparr>wc_lines = False, wc_words = False, wc_bytes = False, wc_chars = False, wc_files = []\<rparr> ?c = Some (Some ?x)"
    by code_simp
  note exact = wc_exact [OF this, of 0 1 "sample_world ?t" alone]
  have t: "?t = [116, 119, 111, 32, 119, 111, 114, 100, 115, 0xC3, 0xA9, 10]" by code_simp
  have "word_starts ?t = {0, 4}"
    unfolding t by (auto simp: word_starts_def is_blank_byte_def nth_Cons' split: if_splits)
  moreover have "length (filter (\<lambda>b. b = newline) ?t) = 1" "length ?t = 12"
    "length (filter (\<lambda>b. and b 0xC0 \<noteq> 0x80) ?t) = 11" by code_simp+
  ultimately have "counts_of ?t = \<lparr>count_lines = 1, count_words = 2, count_bytes = 12, count_chars = 11\<rparr>"
    by (simp add: counts_of_def)
  moreover have "counts_line (wc_default ?x) \<lparr>count_lines = 1, count_words = 2, count_bytes = 12, count_chars = 11\<rparr> None =
      ''      2      11''" "newline = 10" by code_simp+
  ultimately show ?thesis using exact by simp
qed

end
