(* ===== verification/AuditLog.thy ===== *)
theory AuditLog
  imports Utf8 Json Vfs
begin

text \<open>
  The audit log, \<open>crates/amla-sandbox-audit/src/lib.rs\<close>: entries and their levels, the collector, previews
  of binary and text data, and the ring buffer the host drains. The clock gives a time as an argument;
  \<open>serde_json\<close> (the text of an entry and of a value), \<open>blake3\<close> and the \<open>Debug\<close> form of a string (a table of
  printable characters) are fields of a record.
\<close>

section \<open>Entries\<close>

datatype log_level = LevelDebug | LevelInfo | LevelWarn | LevelError

fun level_rank :: "log_level \<Rightarrow> nat" where
  "level_rank LevelDebug = 0"
| "level_rank LevelInfo = 1"
| "level_rank LevelWarn = 2"
| "level_rank LevelError = 3"

instantiation log_level :: linorder
begin

definition less_eq_log_level :: "log_level \<Rightarrow> log_level \<Rightarrow> bool" where
  "less_eq_log_level a b \<longleftrightarrow> level_rank a \<le> level_rank b"

definition less_log_level :: "log_level \<Rightarrow> log_level \<Rightarrow> bool" where
  "less_log_level a b \<longleftrightarrow> level_rank a < level_rank b"

instance
proof
  fix a b :: log_level
  show "a \<le> b \<Longrightarrow> b \<le> a \<Longrightarrow> a = b"
    by (cases a; cases b) (simp_all add: less_eq_log_level_def)
qed (auto simp: less_eq_log_level_def less_log_level_def)

end

datatype 'n log_event =
    LogSessionStart "string list"
  | LogSessionEnd
  | LogShell string "string list" int
  | LogJsStart string
  | LogJsEnd bool "string option"
  | LogToolCall string string bool "string option"
  | LogMemoryRead string bool
  | LogMemoryWrite string nat
  | LogMemoryDelete string
  | LogSpawn string "string list"
  | LogConstraintViolation string string string
  | LogFileRead string
  | LogFileWrite string nat
  | LogCustom string "'n json"
  | LogHostOpRequest u64 u64 "u64 option" string "string option" "string option" "nat option" "string option"
  | LogHostOpResponse u64 string bool "string option" u64 "string option"
  | LogStreamChunk u64 string nat string bool "bytes option"
  | LogCommandCreate u64 u64 bytes string
  | LogCommandExit u64 u64 int u64

text \<open>Every variant has the session and the time.\<close>

record 'n log_entry =
  entry_session :: string
  entry_time :: int
  entry_event :: "'n log_event"

record 'n audit_env =
  entry_json :: "'n log_entry \<Rightarrow> bytes option"
  value_text :: "'n json \<Rightarrow> string"
  blake :: "bytes \<Rightarrow> bytes"
  debug_str :: "bytes \<Rightarrow> bytes"

definition log_entry_of :: "int \<Rightarrow> string \<Rightarrow> 'n log_event \<Rightarrow> 'n log_entry" where
  "log_entry_of now sid e = \<lparr>entry_session = sid, entry_time = now, entry_event = e\<rparr>"

fun entry_level :: "'n log_event \<Rightarrow> log_level" where
  "entry_level (LogFileRead _) = LevelDebug"
| "entry_level (LogMemoryRead _ _) = LevelDebug"
| "entry_level (LogStreamChunk _ _ _ _ _ _) = LevelDebug"
| "entry_level (LogJsEnd success _) = (if success then LevelInfo else LevelError)"
| "entry_level (LogToolCall _ _ success _) = (if success then LevelInfo else LevelError)"
| "entry_level (LogHostOpResponse _ _ success _ _ _) = (if success then LevelInfo else LevelError)"
| "entry_level (LogConstraintViolation _ _ _) = LevelWarn"
| "entry_level _ = LevelInfo"

section \<open>Hashes and previews\<close>

definition hex_digit :: "nat \<Rightarrow> char" where
  "hex_digit n = (''0123456789abcdef'' ! n)"

definition hex_byte :: "u8 \<Rightarrow> string" where
  "hex_byte b = [hex_digit (unat b div 16), hex_digit (unat b mod 16)]"

definition hash_bytes :: "'n audit_env \<Rightarrow> bytes \<Rightarrow> string" where
  "hash_bytes E d = concat (map hex_byte (take 8 (blake E d)))"

definition hash_string :: "'n audit_env \<Rightarrow> string \<Rightarrow> string" where
  "hash_string E s = hash_bytes E (ascii s)"

definition is_control :: "u8 \<Rightarrow> bool" where
  "is_control b \<longleftrightarrow> unat b < 32 \<and> b \<noteq> 0x0A \<and> b \<noteq> 0x0D \<and> b \<noteq> 0x09"

definition is_likely_text :: "bytes \<Rightarrow> bool" where
  "is_likely_text d =
     (d = [] \<or>
      (let s = take 512 d; n = length (filter is_control s)
       in 0 \<notin> set s \<and> valid_utf8 s \<and> (n * 10 < length s \<or> n = 0)))"

text \<open>\<open>chars()\<close> of a text in UTF-8, as the byte strings of its characters.\<close>

function utf8_chars :: "bytes \<Rightarrow> bytes list" where
  "utf8_chars [] = []"
| "utf8_chars (b # bs) = (let n = fst (next_char b bs) in take n (b # bs) # utf8_chars (drop n (b # bs)))"
  by pat_completeness auto
termination
proof (relation "measure length", goal_cases)
  case (2 b bs n)
  with next_char_pos [of b bs] show ?case by simp
qed simp

definition text_preview :: "bytes \<Rightarrow> nat \<Rightarrow> bytes option" where
  "text_preview d n =
     (if d = [] \<or> \<not> is_likely_text d then None
      else if \<not> valid_utf8 d then None
      else (let p = concat (take n (utf8_chars d)) in if p = [] then None else Some p))"

definition bytes_note :: "nat \<Rightarrow> bytes" where
  "bytes_note n = ascii ('' ('' @ show_nat n @ '' bytes)'')"

fun hex_join :: "bytes \<Rightarrow> string" where
  "hex_join [] = []"
| "hex_join [b] = hex_byte b"
| "hex_join (b # c # bs) = hex_byte b @ '' '' @ hex_join (c # bs)"

definition last_n :: "nat \<Rightarrow> 'a list \<Rightarrow> 'a list" where
  "last_n n xs = drop (length xs - n) xs"

definition content_preview :: "'n audit_env \<Rightarrow> bytes \<Rightarrow> nat \<Rightarrow> bytes" where
  "content_preview E d n =
     (if d = [] then ascii ''(0 bytes)''
      else if is_likely_text d \<and> valid_utf8 d then
        (let cs = utf8_chars d
         in if length cs \<le> n * 2 then debug_str E d @ bytes_note (length d)
            else debug_str E (concat (take n cs)) @ ascii ''...'' @ debug_str E (concat (last_n n cs)) @
              bytes_note (length d))
      else if length d \<le> n * 2 then ascii (''['' @ hex_join d @ '']'') @ bytes_note (length d)
      else ascii (''['' @ hex_join (take n d) @ ''...'' @ hex_join (last_n n d) @ '']'') @ bytes_note (length d))"

section \<open>Making entries\<close>

definition session_start :: "int \<Rightarrow> string \<Rightarrow> string list \<Rightarrow> 'n log_entry" where
  "session_start now sid caps = log_entry_of now sid (LogSessionStart caps)"

definition session_end :: "int \<Rightarrow> string \<Rightarrow> 'n log_entry" where
  "session_end now sid = log_entry_of now sid LogSessionEnd"

definition log_shell :: "int \<Rightarrow> string \<Rightarrow> string \<Rightarrow> string list \<Rightarrow> int \<Rightarrow> 'n log_entry" where
  "log_shell now sid cmd args code = log_entry_of now sid (LogShell cmd args code)"

definition js_start :: "'n audit_env \<Rightarrow> int \<Rightarrow> string \<Rightarrow> string \<Rightarrow> 'n log_entry" where
  "js_start E now sid code = log_entry_of now sid (LogJsStart (hash_string E code))"

definition js_end :: "int \<Rightarrow> string \<Rightarrow> bool \<Rightarrow> string option \<Rightarrow> 'n log_entry" where
  "js_end now sid success err = log_entry_of now sid (LogJsEnd success err)"

definition log_tool_call ::
  "'n audit_env \<Rightarrow> int \<Rightarrow> string \<Rightarrow> string \<Rightarrow> 'n json \<Rightarrow> bool \<Rightarrow> string option \<Rightarrow> 'n log_entry" where
  "log_tool_call E now sid tool params success err =
     log_entry_of now sid (LogToolCall tool (hash_string E (value_text E params)) success err)"

definition memory_read :: "int \<Rightarrow> string \<Rightarrow> string \<Rightarrow> bool \<Rightarrow> 'n log_entry" where
  "memory_read now sid key found = log_entry_of now sid (LogMemoryRead key found)"

definition memory_write :: "int \<Rightarrow> string \<Rightarrow> string \<Rightarrow> nat \<Rightarrow> 'n log_entry" where
  "memory_write now sid key sz = log_entry_of now sid (LogMemoryWrite key sz)"

definition memory_delete :: "int \<Rightarrow> string \<Rightarrow> string \<Rightarrow> 'n log_entry" where
  "memory_delete now sid key = log_entry_of now sid (LogMemoryDelete key)"

definition log_spawn :: "int \<Rightarrow> string \<Rightarrow> string \<Rightarrow> string list \<Rightarrow> 'n log_entry" where
  "log_spawn now sid child attenuations = log_entry_of now sid (LogSpawn child attenuations)"

definition constraint_violation :: "int \<Rightarrow> string \<Rightarrow> string \<Rightarrow> string \<Rightarrow> string \<Rightarrow> 'n log_entry" where
  "constraint_violation now sid operation c actual =
     log_entry_of now sid (LogConstraintViolation operation c actual)"

definition log_file_read :: "int \<Rightarrow> string \<Rightarrow> string \<Rightarrow> 'n log_entry" where
  "log_file_read now sid path = log_entry_of now sid (LogFileRead path)"

definition log_file_write :: "int \<Rightarrow> string \<Rightarrow> string \<Rightarrow> nat \<Rightarrow> 'n log_entry" where
  "log_file_write now sid path sz = log_entry_of now sid (LogFileWrite path sz)"

definition log_custom :: "int \<Rightarrow> string \<Rightarrow> string \<Rightarrow> 'n json \<Rightarrow> 'n log_entry" where
  "log_custom now sid event_type data = log_entry_of now sid (LogCustom event_type data)"

definition host_op_request ::
  "int \<Rightarrow> string \<Rightarrow> u64 \<Rightarrow> u64 \<Rightarrow> u64 option \<Rightarrow> string \<Rightarrow> string option \<Rightarrow> string option \<Rightarrow> nat option \<Rightarrow>
     string option \<Rightarrow> 'n log_entry" where
  "host_op_request now sid op rt cmd op_type tool params_hash sz content_hash =
     log_entry_of now sid (LogHostOpRequest op rt cmd op_type tool params_hash sz content_hash)"

definition host_op_response ::
  "int \<Rightarrow> string \<Rightarrow> u64 \<Rightarrow> string \<Rightarrow> bool \<Rightarrow> string option \<Rightarrow> u64 \<Rightarrow> string option \<Rightarrow> 'n log_entry" where
  "host_op_response now sid op response_type success err latency result_hash =
     log_entry_of now sid (LogHostOpResponse op response_type success err latency result_hash)"

definition stream_chunk :: "'n audit_env \<Rightarrow> int \<Rightarrow> string \<Rightarrow> u64 \<Rightarrow> string \<Rightarrow> bytes \<Rightarrow> 'n log_entry" where
  "stream_chunk E now sid cmd stream d =
     log_entry_of now sid (LogStreamChunk cmd stream (length d) (hash_bytes E d) (is_likely_text d)
       (Some (content_preview E d 10)))"

definition log_command_create :: "'n audit_env \<Rightarrow> int \<Rightarrow> string \<Rightarrow> u64 \<Rightarrow> u64 \<Rightarrow> string \<Rightarrow> 'n log_entry" where
  "log_command_create E now sid rt h cmd =
     log_entry_of now sid (LogCommandCreate rt h (concat (take 256 (utf8_chars (ascii cmd)))) (hash_string E cmd))"

definition log_command_exit :: "int \<Rightarrow> string \<Rightarrow> u64 \<Rightarrow> u64 \<Rightarrow> int \<Rightarrow> u64 \<Rightarrow> 'n log_entry" where
  "log_command_exit now sid rt h code duration = log_entry_of now sid (LogCommandExit rt h code duration)"

section \<open>The collector\<close>

record 'n audit_log =
  log_min :: log_level
  log_entries :: "'n log_entry list"

definition audit_log_new :: "'n audit_log" where
  "audit_log_new = \<lparr>log_min = LevelInfo, log_entries = []\<rparr>"

definition audit_log_with_level :: "log_level \<Rightarrow> 'n audit_log" where
  "audit_log_with_level l = \<lparr>log_min = l, log_entries = []\<rparr>"

definition log_always :: "'n log_entry \<Rightarrow> 'n audit_log \<Rightarrow> 'n audit_log" where
  "log_always e a = a\<lparr>log_entries := log_entries a @ [e]\<rparr>"

definition log_put :: "'n log_entry \<Rightarrow> 'n audit_log \<Rightarrow> 'n audit_log" where
  "log_put e a = (if log_min a \<le> entry_level (entry_event e) then log_always e a else a)"

definition entry_line :: "'n audit_env \<Rightarrow> 'n log_entry \<Rightarrow> bytes" where
  "entry_line E e = (case entry_json E e of Some b \<Rightarrow> b | None \<Rightarrow> ascii ''{}'')"

fun join_lines :: "bytes list \<Rightarrow> bytes" where
  "join_lines [] = []"
| "join_lines [b] = b"
| "join_lines (b # c # bs) = b @ 0x0A # join_lines (c # bs)"

definition log_to_jsonl :: "'n audit_env \<Rightarrow> 'n audit_log \<Rightarrow> bytes" where
  "log_to_jsonl E a = join_lines (map (entry_line E) (log_entries a))"

definition log_clear :: "'n audit_log \<Rightarrow> 'n audit_log" where
  "log_clear a = a\<lparr>log_entries := []\<rparr>"

definition log_take :: "'n audit_log \<Rightarrow> 'n log_entry list \<times> 'n audit_log" where
  "log_take a = (log_entries a, a\<lparr>log_entries := []\<rparr>)"

definition filter_by_session :: "string \<Rightarrow> 'n audit_log \<Rightarrow> 'n log_entry list" where
  "filter_by_session sid a = filter (\<lambda>e. entry_session e = sid) (log_entries a)"

section \<open>The ring buffer\<close>

record audit_buffer =
  ring :: bytes
  ring_write :: nat
  ring_read :: nat
  ring_seq :: u64
  ring_min :: log_level

definition audit_buffer_size :: nat where
  "audit_buffer_size = 65536"

definition ring_new :: "nat \<Rightarrow> audit_buffer" where
  "ring_new n = \<lparr>ring = replicate n 0, ring_write = 0, ring_read = 0, ring_seq = 0, ring_min = LevelInfo\<rparr>"

definition line_feed :: u8 where
  "line_feed = 0x0A"

definition blit :: "nat \<Rightarrow> bytes \<Rightarrow> bytes \<Rightarrow> bytes" where
  "blit pos d b = take pos b @ d @ drop (pos + length d) b"

text \<open>The loop of \<open>write_bytes\<close>. A position outside the buffer does not come up; the copy would panic.\<close>

function ring_copy :: "bytes \<Rightarrow> nat \<Rightarrow> bytes \<Rightarrow> bytes \<times> nat" where
  "ring_copy b pos d =
     (if d = [] \<or> length b \<le> pos then (b, pos)
      else (let n = min (length d) (length b - pos)
        in ring_copy (blit pos (take n d) b) ((pos + n) mod length b) (drop n d)))"
  by pat_completeness auto
termination
  by (relation "measure (\<lambda>(b, pos, d). length d)") auto

declare ring_copy.simps [simp del]

definition would_overwrite :: "nat \<Rightarrow> nat \<Rightarrow> nat \<Rightarrow> bool" where
  "would_overwrite old new r = (if old \<le> new then r > old \<and> r \<le> new else r > old \<or> r \<le> new)"

text \<open>The position after the next newline, in at most \<open>k\<close> steps.\<close>

fun find_newline :: "bytes \<Rightarrow> nat \<Rightarrow> nat \<Rightarrow> nat option" where
  "find_newline b pos 0 = None"
| "find_newline b pos (Suc k) =
     (let next = (pos + 1) mod length b in if b ! pos = line_feed then Some next else find_newline b next k)"

definition find_next_entry :: "nat \<Rightarrow> audit_buffer \<Rightarrow> nat" where
  "find_next_entry start a =
     (case find_newline (ring a) start (length (ring a)) of Some p \<Rightarrow> p | None \<Rightarrow> ring_write a)"

definition write_bytes :: "bytes \<Rightarrow> audit_buffer \<Rightarrow> audit_buffer" where
  "write_bytes d a =
     (let (b, new) = ring_copy (ring a) (ring_write a) d;
          a = a\<lparr>ring := b\<rparr>;
          a = (if would_overwrite (ring_write a) new (ring_read a) then a\<lparr>ring_read := find_next_entry new a\<rparr> else a)
      in a\<lparr>ring_write := new\<rparr>)"

definition audit_append :: "'n audit_env \<Rightarrow> 'n log_entry \<Rightarrow> audit_buffer \<Rightarrow> bool \<times> audit_buffer" where
  "audit_append E e a =
     (if entry_level (entry_event e) < ring_min a then (False, a)
      else case entry_json E e of
        None \<Rightarrow> (False, a)
      | Some j \<Rightarrow>
          (let line = j @ [line_feed]
           in if length line > length (ring a) div 4 then (False, a)
              else (True, (write_bytes line a)\<lparr>ring_seq := ring_seq a + 1\<rparr>)))"

definition ring_available :: "audit_buffer \<Rightarrow> nat" where
  "ring_available a =
     (if ring_write a \<ge> ring_read a then ring_write a - ring_read a
      else length (ring a) - ring_read a + ring_write a)"

text \<open>\<open>drain\<close> into \<open>n\<close> bytes: what it copies, and the buffer after it.\<close>

definition audit_drain :: "nat \<Rightarrow> audit_buffer \<Rightarrow> bytes \<times> audit_buffer" where
  "audit_drain n a =
     (let av = ring_available a
      in if av = 0 \<or> n = 0 then ([], a)
         else
           (let to_read = min av n;
                first = min (length (ring a) - ring_read a) to_read;
                out = take first (drop (ring_read a) (ring a));
                a = a\<lparr>ring_read := (ring_read a + first) mod length (ring a)\<rparr>
            in if first < to_read \<and> ring_read a = 0 then
                 (out @ take (to_read - first) (ring a), a\<lparr>ring_read := to_read - first\<rparr>)
               else (out, a)))"

definition ring_is_empty :: "audit_buffer \<Rightarrow> bool" where
  "ring_is_empty a = (ring_available a = 0)"

definition ring_clear :: "audit_buffer \<Rightarrow> audit_buffer" where
  "ring_clear a = a\<lparr>ring_read := 0, ring_write := 0\<rparr>"

end
