(* ===== verification/AuditSound.thy ===== *)
theory AuditSound
  imports AuditLog
begin

text \<open>
  The ring buffer of the audit log against a queue of bytes. Seen from the write position (\<open>ring_view\<close>), a
  write of \<open>n\<close> bytes drops the first \<open>n\<close> and appends the data; what is unread is the tail of the view. When
  a write reaches the read position, the rest of the line it hits is dropped as well.
\<close>

section \<open>The view from the write position\<close>

definition ring_ok :: "audit_buffer \<Rightarrow> bool" where
  "ring_ok a \<longleftrightarrow>
     (ring a = [] \<and> ring_write a = 0 \<and> ring_read a = 0 \<or>
      ring_write a < length (ring a) \<and> ring_read a < length (ring a))"

definition ring_view :: "audit_buffer \<Rightarrow> bytes" where
  "ring_view a = rotate (ring_write a) (ring a)"

definition ring_unread :: "audit_buffer \<Rightarrow> bytes" where
  "ring_unread a = drop (length (ring a) - ring_available a) (ring_view a)"

lemma rotate_at: "p \<le> length b \<Longrightarrow> rotate p b = drop p b @ take p b"
  by (cases "p < length b") (simp_all add: rotate_drop_take)

lemma length_blit: "pos + length d \<le> length b \<Longrightarrow> length (blit pos d b) = length b"
  by (simp add: blit_def)

lemma ring_copy_view:
  assumes "pos < length b" "length d \<le> length b"
  shows "length (fst (ring_copy b pos d)) = length b"
    "snd (ring_copy b pos d) = (pos + length d) mod length b"
    "rotate pos (fst (ring_copy b pos d)) = d @ drop (length d) (rotate pos b)"
proof -
  let ?s = "length b - pos"
  have copied: "ring_copy c p [] = (c, p)" for c p by (simp add: ring_copy.simps)
  have "length (fst (ring_copy b pos d)) = length b \<and> snd (ring_copy b pos d) = (pos + length d) mod length b \<and>
    rotate pos (fst (ring_copy b pos d)) = d @ drop (length d) (rotate pos b)"
  proof (cases "length d \<le> ?s")
    case True
    then have run: "ring_copy b pos d = (if d = [] then (b, pos) else (blit pos d b, (pos + length d) mod length b))"
      using assms(1) by (subst ring_copy.simps) (auto simp: copied min_def)
    have "rotate pos (blit pos d b) = d @ drop (length d) (rotate pos b)"
      using True assms(1) by (simp add: rotate_at length_blit blit_def add.commute)
    then show ?thesis using run True assms(1) by (auto simp: length_blit)
  next
    case False
    let ?c = "blit pos (take ?s d) b" and ?r = "drop ?s d"
    from False assms(1) have d: "d \<noteq> []" by auto
    have c: "?c = take pos b @ take ?s d" "length ?c = length b" using False assms(1) by (auto simp: blit_def)
    have r: "?r \<noteq> []" "length ?r \<le> pos" using False assms by auto
    then have "0 < length b" using assms(1) by linarith
    then have second: "ring_copy ?c 0 ?r = (blit 0 ?r ?c, length ?r mod length b)"
      using r assms(1) c(2) by (subst ring_copy.simps) (auto simp: copied min_def)
    have first: "ring_copy b pos d = ring_copy ?c 0 ?r"
      using d assms(1) False by (subst ring_copy.simps) (simp add: min_def Let_def)
    have two: "blit 0 ?r ?c = ?r @ drop (length ?r) (take pos b) @ take ?s d"
      using r(2) assms(1) False by (simp add: blit_def c(1))
    have len: "length (?r @ drop (length ?r) (take pos b)) = pos" using r(2) assms(1) by simp
    have "rotate pos (blit 0 ?r ?c) = take ?s d @ ?r @ drop (length ?r) (take pos b)"
      unfolding two using len rotate_append [of "?r @ drop (length ?r) (take pos b)" "take ?s d"] by simp
    moreover have "drop (length d) (rotate pos b) = drop (length ?r) (take pos b)"
      using assms(1) False by (simp add: rotate_at)
    moreover have "length ?r mod length b = (pos + length d) mod length b"
    proof -
      have eq: "pos + length d = length ?r + length b" using False assms(1) by simp
      show ?thesis unfolding eq by (rule mod_add_self2 [symmetric])
    qed
    moreover have "length (blit 0 ?r ?c) = length b" using length_blit [of 0 ?r ?c] r(2) c(2) assms(1) by simp
    ultimately show ?thesis using first second by (simp del: drop_take)
  qed
  then show "length (fst (ring_copy b pos d)) = length b"
    "snd (ring_copy b pos d) = (pos + length d) mod length b"
    "rotate pos (fst (ring_copy b pos d)) = d @ drop (length d) (rotate pos b)" by simp_all
qed

lemma rotate_past:
  assumes "rotate p c = d @ v"
  shows "rotate ((p + length d) mod length c) c = v @ d"
proof -
  have "rotate ((p + length d) mod length c) c = rotate (length d) (rotate p c)"
    by (metis rotate_conv_mod rotate_rotate add.commute)
  also have "\<dots> = v @ d" using assms by (simp add: rotate_append)
  finally show ?thesis .
qed

section \<open>The next line\<close>

lemma find_newline_view:
  assumes "pos < length b" "k \<le> length b"
  shows "find_newline b pos k =
    (if line_feed \<in> set (take k (rotate pos b))
     then Some ((pos + length (takeWhile (\<lambda>c. c \<noteq> line_feed) (rotate pos b)) + 1) mod length b) else None)"
  using assms
proof (induction k arbitrary: pos)
  case (Suc k)
  let ?n = "(pos + 1) mod length b"
  have "rotate pos b \<noteq> []" "hd (rotate pos b) = b ! pos"
    using Suc.prems hd_rotate_conv_nth [of b pos] by (cases "b = []"; simp)+
  then obtain v where hd: "rotate pos b = b ! pos # v" by (metis list.collapse)
  then have nx: "rotate ?n b = v @ [b ! pos]"
    using rotate_past [of pos b "[b ! pos]" v] by simp
  have "length v = length b - 1" using arg_cong [OF hd, of length] by simp
  with nx Suc.prems have t: "take k (rotate ?n b) = take k v" by simp
  have lt: "?n < length b" using Suc.prems by (intro mod_less_divisor) linarith
  have pos: "(?n + m + 1) mod length b = (pos + Suc m + 1) mod length b" for m
    using mod_add_left_eq [of "pos + 1" "length b" "m + 1"] by (simp add: ac_simps)
  show ?case
  proof (cases "b ! pos = line_feed")
    case True
    with hd show ?thesis by (simp add: Let_def)
  next
    case False
    have IH: "find_newline b pos (Suc k) = (if line_feed \<in> set (take k v)
        then Some ((?n + length (takeWhile (\<lambda>c. c \<noteq> line_feed) (rotate ?n b)) + 1) mod length b) else None)"
      using Suc.IH [OF lt] Suc.prems(2) t False by (simp add: Let_def)
    show ?thesis
    proof (cases "line_feed \<in> set (take k v)")
      case True
      then have "takeWhile (\<lambda>c. c \<noteq> line_feed) (rotate ?n b) = takeWhile (\<lambda>c. c \<noteq> line_feed) v"
        unfolding nx by (auto dest: in_set_takeD)
      with True IH pos hd False show ?thesis by simp
    next
      case no: False
      with IH False hd show ?thesis by simp
    qed
  qed
qed simp

section \<open>Writing\<close>

definition ring_free :: "audit_buffer \<Rightarrow> nat" where
  "ring_free a = length (ring a) - ring_available a"

lemma ring_unread_view: "ring_unread a = drop (ring_free a) (ring_view a)"
  by (simp add: ring_unread_def ring_free_def)

lemma mod_once: "p < c + c \<Longrightarrow> p mod c = (if p < c then p else p - c)" for p c :: nat
  by (simp add: le_mod_geq)

lemma ring_available_at:
  assumes "ring_write a < length (ring a)" "1 \<le> m" "m \<le> length (ring a)"
    and "ring_read a = (ring_write a + m) mod length (ring a)"
  shows "ring_available a = length (ring a) - m"
proof -
  have "ring_write a + m < length (ring a) + length (ring a)" using assms(1,3) by simp
  then have "ring_read a = (if ring_write a + m < length (ring a) then ring_write a + m
      else ring_write a + m - length (ring a))"
    using assms(4) by (simp only: mod_once)
  then show ?thesis using assms(1-3) by (auto simp: ring_available_def)
qed

lemma ring_read_at:
  assumes "ring_write a < length (ring a)" "ring_read a < length (ring a)"
  shows "ring_read a = (ring_write a + ring_free a) mod length (ring a)" "1 \<le> ring_free a"
    "ring_free a \<le> length (ring a)"
proof -
  have "ring_write a + ring_free a < length (ring a) + length (ring a)"
    using assms by (auto simp: ring_free_def ring_available_def)
  then have m: "(ring_write a + ring_free a) mod length (ring a) =
      (if ring_write a + ring_free a < length (ring a) then ring_write a + ring_free a
       else ring_write a + ring_free a - length (ring a))"
    by (rule mod_once)
  show "ring_read a = (ring_write a + ring_free a) mod length (ring a)"
    unfolding m using assms by (auto simp: ring_free_def ring_available_def)
qed (use assms in \<open>auto simp: ring_free_def ring_available_def\<close>)

lemma length_view [simp]: "length (ring_view a) = length (ring a)"
  by (simp add: ring_view_def)

lemma length_unread: "ring_ok a \<Longrightarrow> length (ring_unread a) = ring_available a"
  by (auto simp: ring_ok_def ring_unread_def ring_available_def)

lemma would_overwrite_at:
  assumes "ring_write a < length (ring a)" "ring_read a < length (ring a)" "0 < n" "n < length (ring a)"
  shows "would_overwrite (ring_write a) ((ring_write a + n) mod length (ring a)) (ring_read a) \<longleftrightarrow> ring_free a \<le> n"
proof -
  have m: "(ring_write a + n) mod length (ring a) =
      (if ring_write a + n < length (ring a) then ring_write a + n else ring_write a + n - length (ring a))"
    using assms by (intro mod_once) simp
  show ?thesis
    unfolding m using assms by (auto simp: would_overwrite_def ring_free_def ring_available_def)
qed

text \<open>What a queue of bytes would do that holds less than \<open>cap\<close> of them.\<close>

definition queue_append :: "nat \<Rightarrow> bytes \<Rightarrow> bytes \<Rightarrow> bytes" where
  "queue_append cap d q =
     (if length q + length d < cap then q @ d
      else tl (dropWhile (\<lambda>c. c \<noteq> line_feed) (drop (length q + length d - cap) q)) @ d)"

definition ends_line :: "bytes \<Rightarrow> bool" where
  "ends_line q \<longleftrightarrow> q = [] \<or> last q = line_feed"

lemma tl_dropWhile: "tl (dropWhile P xs) = drop (length (takeWhile P xs) + 1) xs"
  by (simp add: dropWhile_eq_drop drop_Suc [symmetric] tl_drop [symmetric])
    (metis drop_Suc tl_drop)

lemma write_bytes_unread:
  assumes ok: "ring_ok a" and d: "0 < length d" "length d < length (ring a)" and q: "ends_line (ring_unread a)"
  shows "ring_ok (write_bytes d a) \<and> length (ring (write_bytes d a)) = length (ring a) \<and>
    ring_unread (write_bytes d a) = queue_append (length (ring a)) d (ring_unread a)"
proof -
  let ?w = "ring_write a" and ?cap = "length (ring a)" and ?n = "length d"
  have pos: "?w < ?cap" "ring_read a < ?cap" using ok d by (auto simp: ring_ok_def)
  obtain b new where copy: "ring_copy (ring a) ?w d = (b, new)" by (cases "ring_copy (ring a) ?w d")
  have b: "length b = ?cap" "new = (?w + ?n) mod ?cap" "rotate ?w b = d @ drop ?n (ring_view a)"
    using ring_copy_view [OF pos(1), of d] d copy by (simp_all add: ring_view_def)
  have "0 < ?cap" using pos by linarith
  then have new: "new < ?cap" using b(2) by simp
  have view: "rotate new b = drop ?n (ring_view a) @ d"
    using rotate_past [OF b(3)] b(1,2) by simp
  have lq: "length (ring_unread a) = ?cap - ring_free a" by (simp add: ring_unread_view)
  have res: "ring_ok e \<and> length (ring e) = ?cap \<and> ring_unread e = drop m (rotate new b)"
    if "ring e = b" "ring_write e = new" "ring_read e = (new + m) mod ?cap" "1 \<le> m" "m \<le> ?cap" for e m
  proof -
    have "ring_available e = ?cap - m" using ring_available_at [of e m] that new b(1) by simp
    moreover have "(new + m) mod ?cap < ?cap" using \<open>0 < ?cap\<close> by simp
    ultimately show ?thesis using that new b(1) by (simp add: ring_ok_def ring_unread_def ring_view_def)
  qed
  show ?thesis
  proof (cases "ring_free a \<le> ?n")
    case False
    have e: "write_bytes d a = a\<lparr>ring := b, ring_write := new\<rparr>"
      using would_overwrite_at [OF pos d] False by (simp add: write_bytes_def copy b(2))
    have "?w + ?n + (ring_free a - ?n) = ?w + ring_free a" using False by simp
    then have "ring_read a = (new + (ring_free a - ?n)) mod ?cap"
      using ring_read_at(1) [OF pos] mod_add_left_eq [of "?w + ?n" ?cap "ring_free a - ?n"] b(2) by simp
    then have "ring_ok (write_bytes d a) \<and> length (ring (write_bytes d a)) = ?cap \<and>
        ring_unread (write_bytes d a) = drop (ring_free a - ?n) (rotate new b)"
      using False ring_read_at(3) [OF pos] by (intro res) (simp_all add: e)
    moreover have "drop (ring_free a - ?n) (rotate new b) = ring_unread a @ d"
      using False ring_read_at(3) [OF pos] by (simp add: view ring_unread_view)
    moreover have "queue_append ?cap d (ring_unread a) = ring_unread a @ d"
    proof -
      have "length (ring_unread a) + ?n < ?cap" using False ring_read_at(3) [OF pos] lq by linarith
      then show ?thesis by (simp add: queue_append_def)
    qed
    ultimately show ?thesis by simp
  next
    case True
    let ?v = "drop ?n (ring_view a)"
    have u: "?v = drop (?n - ring_free a) (ring_unread a)" using True by (simp add: ring_unread_view)
    have ne: "?v \<noteq> []" using d(2) by simp
    then have last: "last ?v = line_feed"
      using q u by (metis drop_eq_Nil drop_Nil ends_line_def last_drop linorder_not_le)
    then have nl: "line_feed \<in> set ?v" using ne by (metis last_in_set)
    let ?k = "length (takeWhile (\<lambda>c. c \<noteq> line_feed) ?v)"
    have tw: "takeWhile (\<lambda>c. c \<noteq> line_feed) (rotate new b) = takeWhile (\<lambda>c. c \<noteq> line_feed) ?v"
      using nl by (simp add: view)
    have "dropWhile (\<lambda>c. c \<noteq> line_feed) ?v \<noteq> []" using nl by auto
    then have k: "?k < length ?v"
      using arg_cong [OF takeWhile_dropWhile_id [of "\<lambda>c. c \<noteq> line_feed" ?v], of length]
      by (simp only: length_append) (metis add_less_cancel_left length_greater_0_conv add_0_right)
    have "find_newline b new ?cap = Some ((new + ?k + 1) mod ?cap)"
      using find_newline_view [of new b ?cap] new b(1) nl tw view by simp
    then have e: "write_bytes d a = a\<lparr>ring := b, ring_read := (new + (?k + 1)) mod ?cap, ring_write := new\<rparr>"
      using would_overwrite_at [OF pos d] True by (simp add: write_bytes_def copy b(1,2) find_next_entry_def)
    have "ring_ok (write_bytes d a) \<and> length (ring (write_bytes d a)) = ?cap \<and>
        ring_unread (write_bytes d a) = drop (?k + 1) (rotate new b)"
      using k by (intro res) (simp_all add: e)
    moreover have "drop (?k + 1) (rotate new b) = tl (dropWhile (\<lambda>c. c \<noteq> line_feed) ?v) @ d"
      using k by (simp add: view tl_dropWhile)
    moreover have "queue_append ?cap d (ring_unread a) = tl (dropWhile (\<lambda>c. c \<noteq> line_feed) ?v) @ d"
    proof -
      have "\<not> length (ring_unread a) + ?n < ?cap" "length (ring_unread a) + ?n - ?cap = ?n - ring_free a"
        using True ring_read_at(3) [OF pos] lq by linarith+
      then show ?thesis unfolding queue_append_def u by simp
    qed
    ultimately show ?thesis by simp
  qed
qed

section \<open>Operations\<close>

lemma ends_line_drop: "ends_line q \<Longrightarrow> ends_line (drop n q)"
  by (cases "n < length q") (auto simp: ends_line_def)

lemma ends_line_append: "d \<noteq> [] \<Longrightarrow> last d = line_feed \<Longrightarrow> ends_line (queue_append cap d q)"
  by (simp add: queue_append_def ends_line_def)

text \<open>The line that an entry gives, if it is taken.\<close>

definition accepted :: "'n audit_env \<Rightarrow> nat \<Rightarrow> log_level \<Rightarrow> 'n log_entry \<Rightarrow> bytes option" where
  "accepted E cap l e =
     (case entry_json E e of
        None \<Rightarrow> None
      | Some j \<Rightarrow>
          if entry_level (entry_event e) < l \<or> Suc (length j) > cap div 4 then None else Some (j @ [line_feed]))"

definition ring_state :: "audit_buffer \<Rightarrow> bool" where
  "ring_state a \<longleftrightarrow> ring_ok a \<and> ends_line (ring_unread a)"

lemma append_unread:
  assumes "ring_state a"
  shows "ring_state (snd (audit_append E e a)) \<and> length (ring (snd (audit_append E e a))) = length (ring a) \<and>
    ring_min (snd (audit_append E e a)) = ring_min a \<and>
    fst (audit_append E e a) = (accepted E (length (ring a)) (ring_min a) e \<noteq> None) \<and>
    ring_unread (snd (audit_append E e a)) =
      (case accepted E (length (ring a)) (ring_min a) e of
         None \<Rightarrow> ring_unread a
       | Some d \<Rightarrow> queue_append (length (ring a)) d (ring_unread a))"
proof (cases "accepted E (length (ring a)) (ring_min a) e")
  case None
  then have "audit_append E e a = (False, a)"
    by (auto simp: audit_append_def accepted_def Let_def split: option.splits if_splits)
  with assms None show ?thesis by simp
next
  case (Some d)
  then obtain j where j: "entry_json E e = Some j" "d = j @ [line_feed]"
    "\<not> entry_level (entry_event e) < ring_min a" "length d \<le> length (ring a) div 4"
    by (auto simp: accepted_def split: option.splits if_splits)
  then have run: "audit_append E e a = (True, (write_bytes d a)\<lparr>ring_seq := ring_seq a + 1\<rparr>)"
    by (simp add: audit_append_def)
  have "0 < length d" using j(2) by simp
  with j(4) have d: "0 < length d" "length d < length (ring a)" by presburger+
  have w: "ring_ok (write_bytes d a) \<and> length (ring (write_bytes d a)) = length (ring a) \<and>
      ring_unread (write_bytes d a) = queue_append (length (ring a)) d (ring_unread a)"
    using write_bytes_unread [OF _ d] assms by (simp add: ring_state_def)
  have same: "ring_ok (x\<lparr>ring_seq := i\<rparr>) = ring_ok x" "ring_unread (x\<lparr>ring_seq := i\<rparr>) = ring_unread x" for x i
    by (simp_all add: ring_ok_def ring_unread_def ring_available_def ring_view_def)
  have m: "ring_min (write_bytes d a) = ring_min a"
    by (auto simp: write_bytes_def Let_def split: prod.split)
  have "ends_line (queue_append (length (ring a)) d (ring_unread a))" using j(2) by (intro ends_line_append) simp_all
  with w m show ?thesis by (simp add: run ring_state_def same Some)
qed

lemma drain_unread:
  assumes "ring_ok a"
  shows "fst (audit_drain n a) = take n (ring_unread a) \<and> ring_unread (snd (audit_drain n a)) = drop n (ring_unread a) \<and>
    ring_ok (snd (audit_drain n a)) \<and> length (ring (snd (audit_drain n a))) = length (ring a) \<and>
    ring_min (snd (audit_drain n a)) = ring_min a"
proof (cases "ring_available a = 0 \<or> n = 0")
  case True
  with length_unread [OF assms] have "ring_unread a = [] \<or> n = 0" by auto
  with True assms show ?thesis by (auto simp: audit_drain_def Let_def)
next
  case False
  let ?r = "ring_read a" and ?w = "ring_write a" and ?cap = "length (ring a)" and ?t = "min (ring_available a) n"
  have pos: "?w < ?cap" "?r < ?cap" using assms False by (auto simp: ring_ok_def ring_available_def)
  have u: "ring_unread a = take (ring_available a) (drop ?r (ring a) @ take ?r (ring a))"
  proof -
    have "rotate ?r (ring a) = rotate (ring_free a) (ring_view a)"
      unfolding ring_view_def using ring_read_at(1) [OF pos]
      by (metis rotate_conv_mod rotate_rotate add.commute)
    also have "\<dots> = drop (ring_free a) (ring_view a) @ take (ring_free a) (ring_view a)"
      using ring_read_at(3) [OF pos] by (simp add: rotate_at)
    finally have "take (length (ring_unread a)) (rotate ?r (ring a)) = ring_unread a"
      by (simp add: ring_unread_view)
    then show ?thesis using pos(2) by (simp add: length_unread [OF assms] rotate_at)
  qed
  have t: "?t \<le> ring_available a" "?t \<le> ?cap" "0 < ?t"
    using False pos by (auto simp: ring_available_def)
  have "fst (audit_drain n a) = take ?t (drop ?r (ring a) @ take ?r (ring a)) \<and>
      snd (audit_drain n a) = a\<lparr>ring_read := (?r + ?t) mod ?cap\<rparr>"
  proof (cases "?t \<le> ?cap - ?r")
    case True
    then show ?thesis using False by (simp add: audit_drain_def Let_def)
  next
    case over: False
    define T where "T = ?t"
    have T: "?cap - ?r < T" "T \<le> ?cap" "min (?cap - ?r) T = ?cap - ?r" using over t(2) unfolding T_def by linarith+
    have b: "?r + T < ?cap + ?cap" "\<not> ?r + T < ?cap" using T pos(2) by linarith+
    have rest: "T - (?cap - ?r) \<le> ?r" using T pos(2) by linarith
    have next_read: "(?r + T) mod ?cap = T - (?cap - ?r)" "(?r + (?cap - ?r)) mod ?cap = 0"
      unfolding mod_once [OF b(1)] using b(2) pos(2) by simp_all
    have "audit_drain n a =
        (take (?cap - ?r) (drop ?r (ring a)) @ take (T - (?cap - ?r)) (ring a), a\<lparr>ring_read := T - (?cap - ?r)\<rparr>)"
      unfolding audit_drain_def Let_def T_def [symmetric] T(3) using False T(1) next_read(2) by simp
    moreover have "take T (drop ?r (ring a) @ take ?r (ring a)) =
        take (?cap - ?r) (drop ?r (ring a)) @ take (T - (?cap - ?r)) (ring a)"
      using T rest by (simp add: min.absorb1)
    ultimately show ?thesis unfolding T_def [symmetric] next_read(1) by simp
  qed
  moreover have "take n (ring_unread a) = take ?t (drop ?r (ring a) @ take ?r (ring a))"
    unfolding u by (simp only: take_take min.commute [of n])
  moreover have "ring_unread (a\<lparr>ring_read := (?r + ?t) mod ?cap\<rparr>) = drop n (ring_unread a)" (is "ring_unread ?a = _")
  proof -
    have f: "ring_free a + ?t \<le> ?cap" using t(1) pos unfolding ring_free_def by (auto simp: ring_available_def)
    have "(?r + ?t) mod ?cap = (?w + (ring_free a + ?t)) mod ?cap"
      using ring_read_at(1) [OF pos] mod_add_left_eq [of "?w + ring_free a" ?cap ?t] by (simp add: ac_simps)
    then have "ring_available ?a = ?cap - (ring_free a + ?t)"
      using ring_available_at [of ?a "ring_free a + ?t"] pos f ring_read_at(2) [OF pos] by simp
    then have "ring_unread ?a = drop (ring_free a + ?t) (ring_view a)"
      using f by (simp add: ring_unread_def ring_view_def)
    also have "\<dots> = drop ?t (ring_unread a)" by (simp add: ring_unread_view add.commute)
    also have "\<dots> = drop n (ring_unread a)" using length_unread [OF assms] by (simp add: min_def)
    finally show ?thesis .
  qed
  moreover have "ring_ok (a\<lparr>ring_read := (?r + ?t) mod ?cap\<rparr>)"
  proof -
    have "(?r + ?t) mod ?cap < ?cap" using pos by (intro mod_less_divisor) linarith
    with pos show ?thesis by (simp add: ring_ok_def)
  qed
  ultimately show ?thesis by simp
qed

text \<open>Any use of the buffer, and of the queue; the output is what is drained.\<close>

datatype 'n audit_op = AuditAppend "'n log_entry" | AuditDrain nat | AuditClear

fun audit_step :: "'n audit_env \<Rightarrow> 'n audit_op \<Rightarrow> audit_buffer \<Rightarrow> bytes \<times> audit_buffer" where
  "audit_step E (AuditAppend e) a = ([], snd (audit_append E e a))"
| "audit_step E (AuditDrain n) a = audit_drain n a"
| "audit_step E AuditClear a = ([], ring_clear a)"

fun queue_step :: "'n audit_env \<Rightarrow> nat \<Rightarrow> log_level \<Rightarrow> 'n audit_op \<Rightarrow> bytes \<Rightarrow> bytes \<times> bytes" where
  "queue_step E cap l (AuditAppend e) q =
     ([], case accepted E cap l e of None \<Rightarrow> q | Some d \<Rightarrow> queue_append cap d q)"
| "queue_step E cap l (AuditDrain n) q = (take n q, drop n q)"
| "queue_step E cap l AuditClear q = ([], [])"

fun run_steps :: "('o \<Rightarrow> 's \<Rightarrow> bytes \<times> 's) \<Rightarrow> 'o list \<Rightarrow> 's \<Rightarrow> bytes list \<times> 's" where
  "run_steps step [] s = ([], s)"
| "run_steps step (x # xs) s =
     (let (out, s) = step x s; (outs, s) = run_steps step xs s in (out # outs, s))"

lemma step_refines:
  assumes "ring_state a"
  shows "ring_state (snd (audit_step E x a)) \<and> length (ring (snd (audit_step E x a))) = length (ring a) \<and>
    ring_min (snd (audit_step E x a)) = ring_min a \<and>
    fst (audit_step E x a) = fst (queue_step E (length (ring a)) (ring_min a) x (ring_unread a)) \<and>
    ring_unread (snd (audit_step E x a)) = snd (queue_step E (length (ring a)) (ring_min a) x (ring_unread a))"
proof (cases x)
  case (AuditAppend e)
  with append_unread [OF assms, of E e] show ?thesis by simp
next
  case (AuditDrain n)
  with drain_unread [of a n] assms show ?thesis by (auto simp: ring_state_def ends_line_drop)
next
  case AuditClear
  have "ring_unread (ring_clear a) = []" by (simp add: ring_unread_def ring_clear_def ring_available_def ring_view_def)
  with AuditClear assms show ?thesis
    by (auto simp: ring_state_def ring_ok_def ring_clear_def ends_line_def)
qed

lemma run_refines:
  assumes "ring_state a"
  shows "fst (run_steps (audit_step E) xs a) =
      fst (run_steps (queue_step E (length (ring a)) (ring_min a)) xs (ring_unread a)) \<and>
    ring_unread (snd (run_steps (audit_step E) xs a)) =
      snd (run_steps (queue_step E (length (ring a)) (ring_min a)) xs (ring_unread a))"
  using assms
proof (induction xs arbitrary: a)
  case (Cons x xs)
  from step_refines [OF Cons.prems, of E x] Cons.IH [of "snd (audit_step E x a)"] show ?case
    by (simp add: Let_def split_beta)
qed simp

lemma ring_new_state: "ring_state (ring_new n)" "ring_unread (ring_new n) = []" "length (ring (ring_new n)) = n"
  by (cases n; simp add: ring_state_def ring_ok_def ring_new_def ring_unread_def ring_available_def ring_view_def
    ends_line_def)+

section \<open>Whole lines\<close>

lemma queue_append_lines:
  assumes "\<forall>l \<in> set (ls @ [d]). \<exists>j. l = j @ [line_feed] \<and> line_feed \<notin> set j" "length d < cap"
    "length (concat ls) < cap"
  shows "\<exists>k. queue_append cap d (concat ls) = concat (drop k (ls @ [d])) \<and> k \<le> length ls \<and>
    (length (concat (ls @ [d])) < cap \<longrightarrow> k = 0)"
proof (cases "length (concat ls) + length d < cap")
  case True
  then have "queue_append cap d (concat ls) = concat (drop 0 (ls @ [d]))" by (simp add: queue_append_def)
  then show ?thesis by blast
next
  case False
  have skip: "\<exists>k \<le> length ls. tl (dropWhile (\<lambda>c. c \<noteq> line_feed) (drop n (concat ls))) = concat (drop k ls)"
    if "\<forall>l \<in> set ls. \<exists>j. l = j @ [line_feed] \<and> line_feed \<notin> set j" for n ls
    using that
  proof (induction ls arbitrary: n)
    case (Cons l ls)
    then obtain j where j: "l = j @ [line_feed]" "line_feed \<notin> set j" by auto
    show ?case
    proof (cases "n \<le> length j")
      case True
      have "dropWhile (\<lambda>c. c \<noteq> line_feed) (drop n j @ line_feed # concat ls) = line_feed # concat ls"
        using j(2) by (subst dropWhile_append2) (auto dest: in_set_dropD)
      then have "tl (dropWhile (\<lambda>c. c \<noteq> line_feed) (drop n (concat (l # ls)))) = concat (drop 1 (l # ls))"
        using j(1) True by simp
      then show ?thesis by (metis One_nat_def le_add1 length_Cons plus_1_eq_Suc)
    next
      case False
      with Cons.IH [of "n - length l"] Cons.prems obtain k where "k \<le> length ls"
        "tl (dropWhile (\<lambda>c. c \<noteq> line_feed) (drop (n - length l) (concat ls))) = concat (drop k ls)" by auto
      with False j(1) show ?thesis by (intro exI [of _ "Suc k"]) (simp add: drop_Cons')
    qed
  qed (intro exI [of _ 0], simp)
  from skip [of ls "length (concat ls) + length d - cap"] assms(1) obtain k where
    "k \<le> length ls" "queue_append cap d (concat ls) = concat (drop k (ls @ [d]))"
    using False by (auto simp: queue_append_def)
  with False show ?thesis by (intro exI [of _ k]) simp
qed

definition json_law :: "'n audit_env \<Rightarrow> bool" where
  "json_law E \<longleftrightarrow> (\<forall>e j. entry_json E e = Some j \<longrightarrow> line_feed \<notin> set j)"

definition accepted_lines :: "'n audit_env \<Rightarrow> nat \<Rightarrow> log_level \<Rightarrow> 'n log_entry list \<Rightarrow> bytes list" where
  "accepted_lines E cap l es = List.map_filter (accepted E cap l) es"

lemma accepted_line:
  "json_law E \<Longrightarrow> accepted E cap l e = Some d \<Longrightarrow>
     (\<exists>j. d = j @ [line_feed] \<and> line_feed \<notin> set j) \<and> length d < cap"
  by (auto simp: accepted_def json_law_def split: option.splits if_splits)

lemma queue_append_length:
  assumes "length d < cap" "length q < cap"
  shows "length (queue_append cap d q) < cap"
proof (cases "length q + length d < cap")
  case False
  let ?r = "dropWhile (\<lambda>c. c \<noteq> line_feed) (drop (length q + length d - cap) q)"
  have "length ?r \<le> cap - length d"
    using length_dropWhile_le [of "\<lambda>c. c \<noteq> line_feed" "drop (length q + length d - cap) q"] False assms by simp
  then have "length (tl ?r) + length d < cap" using assms(1) by simp
  with False show ?thesis by (simp add: queue_append_def)
qed (simp add: queue_append_def)

lemma appends_lines:
  assumes "json_law E" "\<forall>l \<in> set ls. \<exists>j. l = j @ [line_feed] \<and> line_feed \<notin> set j" "length (concat ls) < cap"
  shows "\<exists>k. snd (run_steps (queue_step E cap l) (map AuditAppend es) (concat ls)) =
      concat (drop k (ls @ accepted_lines E cap l es)) \<and>
    (length (concat (ls @ accepted_lines E cap l es)) < cap \<longrightarrow> k = 0)"
  using assms(2,3)
proof (induction es arbitrary: ls)
  case Nil
  then show ?case by (auto simp: accepted_lines_def map_filter_def intro: exI [of _ 0])
next
  case (Cons e es)
  let ?q = "concat ls"
  show ?case
  proof (cases "accepted E cap l e")
    case None
    then have "accepted_lines E cap l (e # es) = accepted_lines E cap l es"
      "snd (run_steps (queue_step E cap l) (map AuditAppend (e # es)) ?q) =
       snd (run_steps (queue_step E cap l) (map AuditAppend es) ?q)"
      by (simp_all add: accepted_lines_def map_filter_def Let_def split_beta)
    with Cons.IH [OF Cons.prems] show ?thesis by simp
  next
    case (Some d)
    from accepted_line [OF assms(1) Some] have d: "\<exists>j. d = j @ [line_feed] \<and> line_feed \<notin> set j" "length d < cap" by blast+
    have "\<forall>l \<in> set (ls @ [d]). \<exists>j. l = j @ [line_feed] \<and> line_feed \<notin> set j" using Cons.prems(1) d(1) by auto
    from queue_append_lines [OF this d(2) Cons.prems(2)] obtain k where k: "k \<le> length ls"
      "queue_append cap d ?q = concat (drop k (ls @ [d]))" "length (concat (ls @ [d])) < cap \<longrightarrow> k = 0" by blast
    let ?ls = "drop k (ls @ [d])" and ?rest = "accepted_lines E cap l es"
    have lines: "\<forall>l \<in> set ?ls. \<exists>j. l = j @ [line_feed] \<and> line_feed \<notin> set j"
      using Cons.prems(1) d(1) by (auto dest: in_set_dropD)
    have "length (concat ?ls) < cap" using queue_append_length [of d cap ?q] d(2) Cons.prems(2) k(2) by simp
    from Cons.IH [OF lines this] obtain m where m:
      "snd (run_steps (queue_step E cap l) (map AuditAppend es) (concat ?ls)) = concat (drop m (?ls @ ?rest))"
      "length (concat (?ls @ ?rest)) < cap \<longrightarrow> m = 0" by blast
    have all: "ls @ accepted_lines E cap l (e # es) = ls @ [d] @ ?rest"
      using Some by (simp add: accepted_lines_def map_filter_def)
    have split: "?ls @ ?rest = drop k (ls @ [d] @ ?rest)" using k(1) by simp
    have "snd (run_steps (queue_step E cap l) (map AuditAppend (e # es)) ?q) = concat (drop (m + k) (ls @ [d] @ ?rest))"
      using m(1) k(2) Some unfolding split by (simp add: Let_def split_beta del: drop_append)
    moreover have "m + k = 0" if "length (concat (ls @ [d] @ ?rest)) < cap"
      using that k(3) m(2) by simp
    ultimately show ?thesis unfolding all by blast
  qed
qed


section \<open>Properties\<close>

text \<open>C21. The ring buffer of the audit log is a queue of bytes: whatever is appended, drained and cleared,
  each drain returns what the queue returns, and a new entry drops old bytes only when it reaches the unread
  ones, then up to the end of the line it hits.\<close>

theorem audit_ring_refines:
  "fst (run_steps (audit_step E) ops (ring_new n)) = fst (run_steps (queue_step E n LevelInfo) ops []) \<and>
   ring_unread (snd (run_steps (audit_step E) ops (ring_new n))) =
     snd (run_steps (queue_step E n LevelInfo) ops [])"
proof -
  have "ring_min (ring_new n) = LevelInfo" by (simp add: ring_new_def)
  with run_refines [OF ring_new_state(1), of E ops n] show ?thesis by (simp add: ring_new_state)
qed

text \<open>C22. The audit buffer holds whole lines, and the newest ones: after any entries it holds the accepted
  ones from some point on, all of them as long as they take less than its size.\<close>

theorem audit_keeps_newest:
  assumes "json_law E"
  shows "\<exists>k. ring_unread (snd (run_steps (audit_step E) (map AuditAppend es) (ring_new n))) =
      concat (drop k (accepted_lines E n LevelInfo es)) \<and>
    (length (concat (accepted_lines E n LevelInfo es)) < n \<longrightarrow> k = 0)"
proof (cases "n = 0")
  case True
  then have "accepted E n LevelInfo e = None" for e by (simp add: accepted_def split: option.split)
  then have "accepted_lines E n LevelInfo es = []" by (simp add: accepted_lines_def map_filter_def)
  moreover have "snd (run_steps (queue_step E n LevelInfo) (map AuditAppend es) []) = []"
    using \<open>\<And>e. accepted E n LevelInfo e = None\<close> by (induction es) (simp_all add: Let_def split_beta)
  moreover have "ring_min (ring_new n) = LevelInfo" by (simp add: ring_new_def)
  ultimately show ?thesis
    using run_refines [OF ring_new_state(1), of E "map AuditAppend es" n] True by (simp add: ring_new_state)
next
  case False
  have "ring_min (ring_new n) = LevelInfo" by (simp add: ring_new_def)
  then have run: "ring_unread (snd (run_steps (audit_step E) (map AuditAppend es) (ring_new n))) =
      snd (run_steps (queue_step E n LevelInfo) (map AuditAppend es) [])"
    using run_refines [OF ring_new_state(1), of E "map AuditAppend es" n] by (simp add: ring_new_state)
  from appends_lines [OF assms, of "[]" n LevelInfo es] False show ?thesis unfolding run by simp
qed

text \<open>An environment for examples: an entry is three times the byte of its time.\<close>

definition sample_audit :: "int audit_env" where
  "sample_audit = \<lparr>entry_json = (\<lambda>e. if entry_time e = 10 then None else Some (replicate 3 (if entry_time e = 98 then 98 else 97))),
     value_text = (\<lambda>_. []), blake = (\<lambda>_. replicate 32 0), debug_str = (\<lambda>b. b)\<rparr>"

theorem audit_keeps_newest_witness:
  "\<exists>k. ring_unread (snd (run_steps (audit_step sample_audit)
      (map AuditAppend (map (\<lambda>t. session_end t ''s'') [97, 98, 10, 98, 97])) (ring_new 16))) =
    concat (drop k [[97, 97, 97, 10], [98, 98, 98, 10], [98, 98, 98, 10], [97, 97, 97, 10]])"
proof -
  have "json_law sample_audit" by (auto simp: json_law_def sample_audit_def line_feed_def split: if_splits)
  moreover have "accepted_lines sample_audit 16 LevelInfo (map (\<lambda>t. session_end t ''s'') [97, 98, 10, 98, 97]) =
      [[97, 97, 97, 10], [98, 98, 98, 10], [98, 98, 98, 10], [97, 97, 97, 10]]"
    by code_simp
  ultimately show ?thesis
    using audit_keeps_newest [of sample_audit "map (\<lambda>t. session_end t ''s'') [97, 98, 10, 98, 97]" 16] by metis
qed

text \<open>A host that has drained a part of a line gets the rest of another one after it, when the line is
  overwritten in between: the stream is no longer one object on each line.\<close>

lemma drain_tears_line:
  "concat (fst (run_steps (audit_step sample_audit)
     ([AuditAppend (session_end 97 ''s''), AuditDrain 2] @ map AuditAppend (map (\<lambda>t. session_end t ''s'') [97, 98, 98, 98]) @
      [AuditDrain 64]) (ring_new 16))) = [97, 97, 98, 98, 98, 10, 98, 98, 98, 10, 98, 98, 98, 10]"
  by code_simp

text \<open>A text of more than 512 bytes counts as binary when its 512th byte is inside a character.\<close>

lemma text_cut_inside_character:
  "valid_utf8 (replicate 511 0x61 @ [0xC3, 0xA9]) \<and> \<not> is_likely_text (replicate 511 0x61 @ [0xC3, 0xA9])"
  by code_simp

end
