(* ===== verification/Spec2Isabelle.thy ===== *)
theory Spec2Isabelle
  imports
    Prelude
    Json Constraints Patterns Attenuation Partition Capabilities
    Identity CapabilityData Version Pca Chain Sample ChainSound Cta CtaSound Method
    Vfs VfsSafe VfsTree PageCache
    Glob GlobSound GlobExpand ParserSound
    Pipe PipeSafe HostChannelSpec TimerSafe SchedulerSpec
    Act IoHandle IoHandleSound Context Jobs Utf8 Shell Interp InterpSound Within Depth Calm InterpProps
    Cmd CmdSound TextCmds TextSound
    AuditLog AuditSound
begin

text \<open>
  Verification library for \<open>amla-sandbox-core\<close>, a sandbox for agents in Rust. An agent acts under
  capabilities that are delegated along chains of signed tokens; inside the sandbox it runs shell
  lines, whose commands are tasks of a cooperative scheduler that work on an in-memory file system
  and reach the host through a channel. The library models these parts as executable functions and
  proves what they promise. Paths below are relative to \<open>src/crates\<close>.

  The parts and how they interact.

  A tool call, a memory access or a method call is decided by a capability: parameter constraints
  (\<open>amla-protocol-constraints\<close>), method patterns, partition patterns and capability sets
  (\<open>amla-protocol-capabilities\<close>). A holder may delegate an attenuated capability. Delegation is
  carried by tokens (\<open>amla-protocol\<close>): a token holds keyed capability data, designates its next
  executor, names the hash of its parent and is signed by its issuer. Chain validation checks such
  a chain and leaves the meaning of each capability to a transition validator; the causal
  transaction authority checks a request against a parent token and signs the next one. The file
  system (\<open>amla-sandbox-vfs\<close>) lets every change pass one permission check. A shell line is read by
  the lexer and the parser and run by the interpreter (\<open>amla-sandbox-shell\<close>): the stages of a
  pipeline and background jobs are tasks of the scheduler, joined by pipes; a task that sleeps or
  asks the host waits in the timers or the host channel (\<open>amla-sandbox-scheduler\<close>). Everything of
  note is written to the audit log (\<open>amla-sandbox-audit\<close>), which the host drains.

  Theories and the code they model: capabilities and tokens.

  \<^item> \<open>Prelude\<close>: Rust's \<open>Result\<close> and \<open>str\<close> operations, decimal numerals, and their facts.
  \<^item> \<open>Json\<close>, \<open>Constraints\<close>: \<open>amla-protocol-constraints/src/lib.rs\<close>; \<open>evaluate\<close>, \<open>subsumes\<close> and the
    operations on constraint sets (\<open>evaluate_set\<close>, \<open>set_subsumes\<close>, \<open>merge_set\<close>).
  \<^item> \<open>Patterns\<close>: \<open>amla-protocol-capabilities/src/patterns.rs\<close>; matching of method names and the
    inclusion test, against the inductive semantics \<open>glob\<close>.
  \<^item> \<open>Attenuation\<close>: the contract of delegated capabilities as the locales \<open>attenuation\<close> and
    \<open>reflexive_attenuation\<close>, interpreted in \<open>Partition\<close> for each capability type.
  \<^item> \<open>Partition\<close>, \<open>Capabilities\<close>: \<open>amla-protocol-capabilities/src/lib.rs\<close>; partition patterns,
    memory, spawn and tool-call capabilities and the capability set.
  \<^item> \<open>Identity\<close>: \<open>amla-protocol/src/identity.rs\<close>, \<open>hash.rs\<close>, \<open>error.rs\<close>. \<open>CapabilityData\<close>:
    \<open>capability.rs\<close> with the locale \<open>transition_contract\<close> of validators. \<open>Version\<close>: \<open>version.rs\<close>.
    \<open>Pca\<close>: \<open>executor.rs\<close> and \<open>pca.rs\<close>. \<open>Chain\<close>: \<open>chain.rs\<close>; \<open>validate_pcas\<close> is the loop of
    both entry points, with the issuer check as its argument. \<open>Cta\<close>: \<open>cta.rs\<close>; \<open>submit\<close>
    returns the authority after the call, because the freshness validator has state.
  \<^item> \<open>Sample\<close>: one instance of the cryptographic and codec parameters, with the laws proved, on
    which the closed examples evaluate.
  \<^item> \<open>ChainSound\<close>, \<open>CtaSound\<close>: what acceptance of a chain or of a submission means.
  \<^item> \<open>Method\<close>: \<open>method.rs\<close> and \<open>validator.rs\<close>, the validator that interprets
    \<open>transition_contract\<close> with method patterns and call limits.

  File system.

  \<^item> \<open>Vfs\<close>: \<open>amla-sandbox-vfs/src/lib.rs\<close>. \<open>VfsSafe\<close>: the primitive permitted changes
    (\<open>permitted\<close>), reachability by an agent's operations (\<open>agent_step\<close>), protection and
    confinement. \<open>VfsTree\<close>: canonical paths, the invariant \<open>tree_ok\<close>, reads after writes.
  \<^item> \<open>PageCache\<close>: \<open>page_cache.rs\<close>, which refines a plain store behind a cache of blocks.

  Tasks.

  \<^item> \<open>Pipe\<close>: \<open>amla-sandbox-scheduler/src/pipe.rs\<close> with the locale \<open>byte_queue\<close>. \<open>PipeSafe\<close>: the
    ring buffer interprets it; invariants of the blocked writer over reachable pipes.
  \<^item> \<open>HostChannel\<close>: \<open>host_channel.rs\<close>; slots that are reused under generations. \<open>HostChannelSound\<close>,
    \<open>HostChannelSpec\<close>: it refines a map under identifiers that are never reused.
  \<^item> \<open>Timer\<close>: \<open>timer.rs\<close>, a heap of deadlines; \<open>TimerSafe\<close>: the state machine of sleeping tasks.
  \<^item> \<open>Scheduler\<close>, \<open>SchedulerOps\<close>: \<open>scheduler.rs\<close>. A task's future is what it holds (host operations
    and sleeps) and the calls each of its polls makes; \<open>SchedulerRun\<close> is the relation of its steps.
    \<open>SchedulerInv\<close>, \<open>SchedulerSafe\<close>, \<open>SchedulerTree\<close>, \<open>SchedulerCancel\<close>, \<open>SchedulerEnd\<close> build the
    invariant, \<open>SchedulerSpec\<close> states the properties over every reachable state.

  Shell.

  \<^item> \<open>Glob\<close>: \<open>amla-sandbox-shell/src/glob.rs\<close>; \<open>GlobSound\<close> the language of a pattern, \<open>GlobExpand\<close> the
    expansion over a file tree.
  \<^item> \<open>Env\<close>: variables and \<open>$\<close>. \<open>Lexer\<close>: \<open>lexer.rs\<close>, \<open>LexerSound\<close>. \<open>Parser\<close>: \<open>ast.rs\<close> and
    \<open>parser.rs\<close>; \<open>ParserSound\<close> holds the grammar as inductive relations and the soundness of the parser.
  \<^item> \<open>Act\<close>: code inside a task, as a function of the state shared with the other tasks (\<open>runtime\<close> says
    what they do while it waits); \<open>None\<close> stands for code that never comes back, because it waits for ever or
    because another task panics, which stops the program. \<open>IoHandle\<close>:
    \<open>io_handle.rs\<close>, \<open>IoHandleSound\<close> its promises. \<open>Context\<close>: \<open>context.rs\<close>. \<open>Jobs\<close>: \<open>jobs.rs\<close> over
    the scheduler. \<open>Utf8\<close>: decoding as Rust's standard library does it.
  \<^item> \<open>Shell\<close>, \<open>Interp\<close>: \<open>amla-sandbox-shell/src/lib.rs\<close>; shell state, table of commands, redirections,
    simple commands, pipelines, lists, subshells and command substitution. \<open>InterpSound\<close>: one lemma for
    each construct. \<open>Within\<close>, \<open>Depth\<close>: substitutions are proper parts of their line, so the depth given
    to \<open>execute_line\<close> never shows. \<open>Calm\<close>: the one panic of the interpreter's own code, in the lexer.
    \<open>InterpProps\<close>: the properties.
  \<^item> \<open>Cmd\<close>, \<open>TextCmds\<close>: the commands \<open>cat\<close>, \<open>tee\<close>, \<open>head\<close>, \<open>tail\<close> and \<open>wc\<close>
    (\<open>amla-sandbox-shell/src/commands\<close>). \<open>CmdSound\<close>: a command as a function of texts, over the locale
    \<open>text_io\<close> of its two handles, which buffers and files interpret. \<open>TextSound\<close>: what the commands write.

  Audit log.

  \<^item> \<open>AuditLog\<close>: \<open>amla-sandbox-audit/src/lib.rs\<close>; entries, collector, previews, ring buffer. \<open>AuditSound\<close>:
    the ring buffer is a queue of bytes that drops whole lines from the front.

  What the lemmas show. Each capability type's parent check is sound for the accesses it allows, or
  the exact condition under which it is; the constraint check is not sound in general, and the
  counterexamples are theorems. Chain validation is characterised exactly, and from that follow
  prefix closure, tamper evidence and, for every validator that keeps its contract, the absence of
  escalation. The authority emits only tokens that extend accepted chains and accepts no random
  nonce twice. Every change of the file system is a sequence of permitted changes, so read-only
  entries are immutable and an agent stays inside the writable directories; the tree invariant is
  kept by all operations but one, whose failure is a theorem. The pipe is a first-in first-out
  queue and does not forget a blocked writer. The scheduler keeps its slots, queues, tree of tasks
  and operations consistent; cancelling a task ends exactly its subtree, a woken task is polled, a
  result reaches the task that asked; killing a job ends exactly the trees of its placed tasks. The host
  channel and the page cache refine their abstract counterparts. A pattern of the shell finds the matching paths. The parser returns on every input
  what the grammar derives. The interpreter's lists short-circuit, subshells leave the shell's
  directory and variables alone, and a text is parsed without a panic unless it meets the lexer's one
  flaw. The audit buffer holds the newest whole lines. Where the code departs from this, a lemma shows the departure.

  Parameters. Third-party code and the host are arguments of the definitions that use them:
  \<open>serde_json\<close> numbers and pointers (\<open>serde_json\<close> in \<open>Json\<close>), \<open>ed25519_dalek\<close>, \<open>sha2\<close> and \<open>hex\<close>
  (\<open>crypto\<close>), \<open>ciborium\<close> and \<open>chrono\<close> (\<open>pca_env\<close>, \<open>cta_env\<close>, \<open>method_codec\<close>), the other tasks of
  a scheduler (\<open>runtime\<close>). What a theorem needs of the codecs are the hypotheses \<open>hex_laws\<close>,
  \<open>signature_laws\<close> and \<open>rfc3339_laws\<close> (timestamps of the years 0 to 9999, the ones RFC 3339 can write, parse
  back); \<open>Sample\<close> satisfies all three. Nothing is assumed of the CBOR codec.

  Bounds and termination. Most functions are total, by structural recursion or with termination
  proofs. The exceptions: the parser's functions take fuel, sixteen units for each token and sixteen
  more, and always return (\<open>parse_total\<close>); the timers' \<open>process\<close> takes fuel that is proved enough, so
  that a step of the scheduler always returns (\<open>run_step_total\<close>, which also says what its answer means: Done
  counts the tasks that have a slot, not those that wait in the spawn queue); waiting, reading and writing inside a
  task are partial functions, whose \<open>None\<close> means that the code does not come back, as when the other end
  never moves; \<open>execute_line\<close> gives command substitution a depth, the length of the line,
  and no line looks deeper (\<open>substitution_depth_enough\<close>). The 32 and 64 bit integers of versions,
  limits, skews, generations and the times of the timers are words, and a protocol timestamp is an integer. A \<open>usize\<close> is a natural
  number: sizes of buffers do not reach its bound; the number of a job, which is counted up without a check,
  wraps around at \<open>2 ^ 32\<close>, the width on \<open>wasm32\<close> (\<open>usize_wrap\<close>).

  Not modelled, and why: the JavaScript engine, the WebAssembly bindings and the runtime that joins
  the crates are glue over foreign interfaces; the tool catalogue ranks by floating-point text
  embeddings; private key import and export and \<open>serde\<close> derives are generated or third-party code; the file
  system's own glob search is the \<open>regex\<close> crate; block stores, file handles over them and streams
  are asynchronous adapters of storage the host provides; the simple executor is the scheduler's
  smaller predecessor. The interpreter knows the table of the shell's commands; their bodies run in
  tasks of their own, which are part of the parameter \<open>runtime\<close>, and are modelled apart for five commands. A body may panic (\<open>sh\<close> runs the
  lexer on its script); the line then does not come back.
\<close>

end
